(* ===== verification/Prelude.thy ===== *)
theory Prelude
  imports Main "HOL-Library.Word" "HOL-Library.Monad_Syntax"
begin

unbundle bit_operations_syntax

text \<open>
  Shared vocabulary of the development: the C integer types as words, the theorem
  collections the components add to, and the generic facts on words and the option
  monad that more than one component uses.

  Every operation of the program that may loop for ever or trap (busy waits, pointer
  walks, divisions) has a result of type \<open>'a option\<close>: \<open>None\<close> means that control does not
  come back from the operation. Everything else is a total function on states.
\<close>

type_synonym u8 = "8 word"
type_synonym u16 = "16 word"
type_synonym u32 = "32 word"

named_theorems mem_simps \<open>reading back what was stored, and frames of stores\<close>
named_theorems log_simps \<open>what an operation adds to the log of hardware events\<close>
named_theorems frame_simps \<open>components of the state an operation leaves alone\<close>


section \<open>Unsigned arithmetic that does not wrap\<close>

lemma unat_u32_lt [simp]: "unat (x :: u32) < 4294967296"
  using unsigned_less [of x] by simp

lemma unat_u32_le [simp]: "unat (x :: u32) \<le> 4294967296"
  by (rule less_imp_le) simp

lemma unat_u16_lt [simp]: "unat (x :: u16) < 65536"
  using unsigned_less [of x] by simp

lemma unat_u8_lt [simp]: "unat (x :: u8) < 256"
  using unsigned_less [of x] by simp

lemma unat_add_u32: "unat (x :: u32) + unat y < 4294967296 \<Longrightarrow> unat (x + y) = unat x + unat y"
  by (simp add: unat_word_ariths)

lemma unat_add_u16: "unat (x :: u16) + unat y < 65536 \<Longrightarrow> unat (x + y) = unat x + unat y"
  by (simp add: unat_word_ariths)

lemma unat_diff_u32: "unat (y :: u32) \<le> unat x \<Longrightarrow> unat (x - y) = unat x - unat y"
  by (simp add: unat_sub word_le_nat_alt)

lemma unat_diff_wrap_u32:
  "unat (x :: u32) < unat y \<Longrightarrow> unat (x - y) = 4294967296 + unat x - unat y"
  by (simp add: unat_sub_if')

lemma unat_add_wrap_u32:
  "4294967296 \<le> unat (x :: u32) + unat y \<Longrightarrow> unat (x + y) + 4294967296 = unat x + unat y"
  by (simp add: unat_plus_if')

lemma unat_not_u32: "unat (NOT x :: u32) + unat x = 4294967295"
proof -
  have "NOT x = - 1 - x" by (simp add: not_eq_complement)
  moreover have m1: "unat (- 1 :: u32) = 4294967295"
    by (simp add: unsigned_minus_1_eq_mask mask_eq_exp_minus_1)
  moreover have "unat (- 1 - x) = unat (- 1 :: u32) - unat x"
    by (rule unat_diff_u32) (use unat_u32_lt [of x] m1 in linarith)
  ultimately have "unat (NOT x) = 4294967295 - unat x" by metis
  then show ?thesis
    using unat_u32_lt [of x] by linarith
qed

lemma unat_eq_iff_u32: "(x :: u32) = y \<longleftrightarrow> unat x = unat y"
  by (simp add: word_unat_eq_iff)

lemma unat_of_nat_u32: "n < 4294967296 \<Longrightarrow> unat (of_nat n :: u32) = n"
  by (simp add: unat_of_nat)

lemma unat_power2_u32: "k < 32 \<Longrightarrow> unat (2 ^ k :: u32) = 2 ^ k"
  using unat_of_nat_u32 [of "2 ^ k"] power_strict_increasing [of k 32 "2 :: nat"] by simp

lemma u32_exhaust_nat:
  obtains n where "(x :: u32) = of_nat n" and "n < 4294967296"
  using that [of "unat x"] by simp


section \<open>Rounding up with a mask\<close>

text \<open>
  Clearing the bits of a mask takes away at most the mask, and at least what is left after
  the addition of the same mask is not below the start: the argument behind rounding
  addresses up with \<open>(p + (align - 1)) & ~(align - 1)\<close>, for every \<open>align\<close>.
\<close>

lemma word_and_not_plus: "(x :: 'a :: len word) AND NOT m = x - (x AND m)"
proof -
  have "(x AND m) + (x AND NOT m) = (x AND m) OR (x AND NOT m)"
    by (rule disjunctive_add_eq_or) (simp add: bit_eq_iff bit_simps)
  also have "\<dots> = x"
    by (rule bit_word_eqI) (auto simp: bit_simps)
  finally show ?thesis
    by (simp add: algebra_simps)
qed

lemma unat_and_le1: "unat (x AND m) \<le> unat (x :: 'a :: len word)"
  by (simp add: word_and_le2 word_le_nat_alt [symmetric])

lemma unat_and_le2: "unat (x AND m) \<le> unat (m :: 'a :: len word)"
  by (simp add: word_and_le1 word_le_nat_alt [symmetric])

lemma unat_and_not: "unat ((x :: 'a :: len word) AND NOT m) = unat x - unat (x AND m)"
  by (simp add: word_and_not_plus unat_sub word_and_le2)

lemma unat_and_not_ge: "unat (x :: 'a :: len word) - unat m \<le> unat (x AND NOT m)"
  using unat_and_le2 [of x m] by (simp add: unat_and_not)

lemma unat_and_mask_mod: "unat (x AND mask k) = unat (x :: 'a :: len word) mod 2 ^ k"
  by (metis take_bit_eq_mask unsigned_take_bit_eq take_bit_eq_mod)

lemma unat_step_u32:
  fixes x y :: u32
  assumes "unat x < unat y"
  shows "unat (x + 1) = unat x + 1"
proof -
  have "unat x + 1 < 4294967296" using assms unat_u32_lt [of y] by linarith
  then show ?thesis by (subst unat_add_u32) auto
qed

lemma unat_step_u8:
  fixes x y :: u8
  assumes "unat x < unat y"
  shows "unat (x + 1) = unat x + 1"
proof -
  have "unat x + 1 < 256" using assms unat_u8_lt [of y] by linarith
  then show ?thesis by (simp add: unat_word_ariths)
qed

lemma unat_pred_u32: "x \<noteq> 0 \<Longrightarrow> unat (x - 1 :: u32) = unat x - 1"
  by (subst unat_diff_u32) (auto simp: unat_gt_0 Suc_le_eq)

text \<open>Widening conversions keep the value.\<close>

lemma unat_ucast_wide [simp]:
  "unat (ucast (x :: u8) :: u16) = unat x"
  "unat (ucast (x :: u8) :: u32) = unat x"
  "unat (ucast (y :: u16) :: u32) = unat y"
proof -
  have "unat x < 65536" "unat x < 4294967296" "unat y < 4294967296"
    using unat_u8_lt [of x] unat_u16_lt [of y] by linarith+
  then show "unat (ucast x :: u16) = unat x" "unat (ucast x :: u32) = unat x" "unat (ucast y :: u32) = unat y"
    by (simp_all add: unsigned_ucast_eq take_bit_nat_eq_self)
qed

lemma unat_drop_bit_div: "unat (drop_bit n w) = unat w div 2 ^ n"
  by (simp only: unat_drop_bit_eq drop_bit_eq_div [where 'a = nat])


section \<open>Loops over a list of values\<close>

primrec for_each :: "('b \<Rightarrow> 's \<Rightarrow> 's option) \<Rightarrow> 'b list \<Rightarrow> 's \<Rightarrow> 's option" where
  "for_each f [] s = Some s"
| "for_each f (x # xs) s = f x s \<bind> for_each f xs"

lemma for_each_append: "for_each f (xs @ ys) s = for_each f xs s \<bind> for_each f ys"
  by (induction xs arbitrary: s) (auto split: Option.bind_splits)

end
