(* ===== verification/CMemory.thy ===== *)
theory CMemory
  imports Prelude
begin

text \<open>
  The memory of the machine. The loader runs in 32-bit protected mode with flat segments
  and no paging, so memory is a total function from 32-bit addresses to bytes, and C
  objects are byte ranges of it: a field access \<open>p->f\<close> is a little-endian load at
  \<open>p + offset of f\<close>, with no alignment requirement (x86). Structures that overlap in the
  source (a free block and the header of the allocation cut from it) therefore overlap in
  the model too.

  Facts about memory are stated over natural addresses \<open>unat p\<close>, where ranges do not
  wrap around.
\<close>

type_synonym mem = "u32 \<Rightarrow> u8"


section \<open>Loads and stores\<close>

definition load8 :: "mem \<Rightarrow> u32 \<Rightarrow> u8" where
  "load8 m p = m p"

definition load16 :: "mem \<Rightarrow> u32 \<Rightarrow> u16" where
  "load16 m p = ucast (m p) OR push_bit 8 (ucast (m (p + 1)))"

definition load32 :: "mem \<Rightarrow> u32 \<Rightarrow> u32" where
  "load32 m p = ucast (m p) OR push_bit 8 (ucast (m (p + 1)))
     OR push_bit 16 (ucast (m (p + 2))) OR push_bit 24 (ucast (m (p + 3)))"

definition store8 :: "mem \<Rightarrow> u32 \<Rightarrow> u8 \<Rightarrow> mem" where
  "store8 m p v = m(p := v)"

definition store16 :: "mem \<Rightarrow> u32 \<Rightarrow> u16 \<Rightarrow> mem" where
  "store16 m p v = m(p := ucast v, p + 1 := ucast (drop_bit 8 v))"

definition store32 :: "mem \<Rightarrow> u32 \<Rightarrow> u32 \<Rightarrow> mem" where
  "store32 m p v = m(p := ucast v, p + 1 := ucast (drop_bit 8 v),
     p + 2 := ucast (drop_bit 16 v), p + 3 := ucast (drop_bit 24 v))"

lemma load8_store8 [simp, mem_simps]: "load8 (store8 m p v) p = v"
  by (simp add: load8_def store8_def)

lemma load16_store16 [simp, mem_simps]: "load16 (store16 m p v) p = v"
  unfolding load16_def store16_def
  by (rule bit_word_eqI) (auto simp: bit_simps)

lemma load32_store32 [simp, mem_simps]: "load32 (store32 m p v) p = v"
proof -
  have parts: "v = ucast (ucast v :: u8) OR push_bit 8 (ucast (ucast (drop_bit 8 v) :: u8))
      OR push_bit 16 (ucast (ucast (drop_bit 16 v) :: u8))
      OR push_bit 24 (ucast (ucast (drop_bit 24 v) :: u8))" (is "v = ?w")
  proof (rule bit_word_eqI)
    fix n assume "n < LENGTH(32)"
    then consider "n < 8" | "8 \<le> n" "n < 16" | "16 \<le> n" "n < 24" | "24 \<le> n" "n < 32"
      by fastforce
    then show "bit v n = bit ?w n"
      by cases (auto simp: bit_simps)
  qed
  show ?thesis
    unfolding load32_def store32_def by (subst (9) parts) simp
qed


section \<open>Frames\<close>

text \<open>\<open>same_on m m' S\<close>: the two memories agree on the addresses in \<open>S\<close>.\<close>

definition same_on :: "mem \<Rightarrow> mem \<Rightarrow> nat set \<Rightarrow> bool" where
  "same_on m m' S \<longleftrightarrow> (\<forall>x. unat x \<in> S \<longrightarrow> m' x = m x)"

lemma same_on_refl [simp, intro]: "same_on m m S"
  by (simp add: same_on_def)

lemma same_on_trans: "same_on m m' S \<Longrightarrow> same_on m' m'' S \<Longrightarrow> same_on m m'' S"
  by (simp add: same_on_def)

lemma same_on_mono: "same_on m m' S \<Longrightarrow> T \<subseteq> S \<Longrightarrow> same_on m m' T"
  by (auto simp: same_on_def)

lemma same_on_sym: "same_on m m' S \<Longrightarrow> same_on m' m S"
  by (simp add: same_on_def)

lemma same_on_Un: "same_on m m' S \<Longrightarrow> same_on m m' T \<Longrightarrow> same_on m m' (S \<union> T)"
  by (auto simp: same_on_def)

lemma same_onD: "same_on m m' S \<Longrightarrow> unat x \<in> S \<Longrightarrow> m' x = m x"
  by (simp add: same_on_def)

lemma unat_plus_small:
  "unat (p :: u32) + unat k < 4294967296 \<Longrightarrow> unat (p + k) = unat p + unat k"
  by (rule unat_add_u32)

lemma same_on_store8 [intro]: "unat p \<notin> S \<Longrightarrow> same_on m (store8 m p v) S"
  by (auto simp: same_on_def store8_def)

lemma same_on_store32 [intro]:
  assumes "unat p + 4 \<le> 4294967296" and "S \<inter> {unat p..<unat p + 4} = {}"
  shows "same_on m (store32 m p v) S"
proof -
  have "unat (p + 1) = unat p + 1" "unat (p + 2) = unat p + 2" "unat (p + 3) = unat p + 3"
    using assms(1) by (simp_all add: unat_plus_small)
  then have "unat p \<notin> S" "unat (p + 1) \<notin> S" "unat (p + 2) \<notin> S" "unat (p + 3) \<notin> S"
    using assms(2) by auto
  then show ?thesis
    by (auto simp: same_on_def store32_def)
qed

lemma same_on_store16 [intro]:
  assumes "unat p + 2 \<le> 4294967296" and "S \<inter> {unat p..<unat p + 2} = {}"
  shows "same_on m (store16 m p v) S"
proof -
  have "unat (p + 1) = unat p + 1"
    using assms(1) by (simp add: unat_plus_small)
  then have "unat p \<notin> S" "unat (p + 1) \<notin> S"
    using assms(2) by auto
  then show ?thesis
    by (auto simp: same_on_def store16_def)
qed

lemma load8_same: "same_on m m' S \<Longrightarrow> unat p \<in> S \<Longrightarrow> load8 m' p = load8 m p"
  by (simp add: same_on_def load8_def)

lemma load16_same:
  assumes "same_on m m' S" and "{unat p..<unat p + 2} \<subseteq> S" and "unat p + 2 \<le> 4294967296"
  shows "load16 m' p = load16 m p"
proof -
  have "unat (p + 1) = unat p + 1"
    using assms(3) by (simp add: unat_plus_small)
  with assms(1,2) show ?thesis
    by (simp add: load16_def same_on_def subset_iff)
qed

lemma load32_same:
  assumes "same_on m m' S" and "{unat p..<unat p + 4} \<subseteq> S" and "unat p + 4 \<le> 4294967296"
  shows "load32 m' p = load32 m p"
proof -
  have "unat (p + 1) = unat p + 1" "unat (p + 2) = unat p + 2" "unat (p + 3) = unat p + 3"
    using assms(3) by (simp_all add: unat_plus_small)
  with assms(1,2) show ?thesis
    by (simp add: load32_def same_on_def subset_iff)
qed

text \<open>A load that does not meet the range of a store reads what was there before.\<close>

lemma load32_store32_other [mem_simps]:
  assumes "unat p + 4 \<le> 4294967296" and "unat q + 4 \<le> 4294967296"
    and "unat q + 4 \<le> unat p \<or> unat p + 4 \<le> unat q"
  shows "load32 (store32 m p v) q = load32 m q"
proof (rule load32_same)
  show "same_on m (store32 m p v) {unat q..<unat q + 4}"
    using assms by (intro same_on_store32) auto
qed (use assms in auto)

text \<open>For small accesses it is enough that the addresses differ.\<close>

lemma load_store_differ [mem_simps]:
  "p \<noteq> q \<Longrightarrow> load8 (store8 m p b) q = load8 m q"
  "p \<noteq> q \<Longrightarrow> p \<noteq> q + 1 \<Longrightarrow> load16 (store8 m p b) q = load16 m q"
  "p \<noteq> q \<Longrightarrow> p + 1 \<noteq> q \<Longrightarrow> load8 (store16 m p w) q = load8 m q"
  "p \<noteq> q \<Longrightarrow> p \<noteq> q + 1 \<Longrightarrow> p + 1 \<noteq> q \<Longrightarrow> load16 (store16 m p w) q = load16 m q"
  by (simp_all add: load8_def load16_def store8_def store16_def)

end
