(* ===== verification/Machine.thy ===== *)
theory Machine
  imports CMemory
begin

text \<open>
  The machine the loader runs on, and the port instructions of \<open>drivers/io/io.h\<close>.

  The state that every component shares is the memory and the log of hardware events so
  far, oldest first. The hardware is a parameter of the model: a record of functions that
  say what a read of a port returns, which interrupt ends a \<open>hlt\<close>, and what the devices
  have done to memory (DMA) by then, each as a function of the log. Any behaviour of the
  devices, deterministic or not, is such a function of the history, so a theorem about all
  records \<open>hw\<close> is a theorem about all devices.

  Interrupts are taken at \<open>hlt\<close> only: that the code is interrupted between two other
  instructions is not modelled.
\<close>

datatype io_event =
    OutB u16 u8
  | OutW u16 u16
  | OutL u16 u32
  | InB u16 u8
  | InW u16 u16
  | InL u16 u32
  | Halt u8

record hw =
  hw_inb :: "io_event list \<Rightarrow> u16 \<Rightarrow> u8"
  hw_inw :: "io_event list \<Rightarrow> u16 \<Rightarrow> u16"
  hw_inl :: "io_event list \<Rightarrow> u16 \<Rightarrow> u32"
  hw_irq :: "io_event list \<Rightarrow> u8"
  hw_dma :: "io_event list \<Rightarrow> mem \<Rightarrow> mem"

record machine =
  mem :: mem
  io_log :: "io_event list"


section \<open>Memory accesses of the state\<close>

abbreviation ld8 :: "u32 \<Rightarrow> 'a machine_scheme \<Rightarrow> u8" where
  "ld8 p s \<equiv> load8 (mem s) p"

abbreviation ld16 :: "u32 \<Rightarrow> 'a machine_scheme \<Rightarrow> u16" where
  "ld16 p s \<equiv> load16 (mem s) p"

abbreviation ld32 :: "u32 \<Rightarrow> 'a machine_scheme \<Rightarrow> u32" where
  "ld32 p s \<equiv> load32 (mem s) p"

definition st8 :: "u32 \<Rightarrow> u8 \<Rightarrow> 'a machine_scheme \<Rightarrow> 'a machine_scheme" where
  "st8 p v s = s\<lparr>mem := store8 (mem s) p v\<rparr>"

definition st16 :: "u32 \<Rightarrow> u16 \<Rightarrow> 'a machine_scheme \<Rightarrow> 'a machine_scheme" where
  "st16 p v s = s\<lparr>mem := store16 (mem s) p v\<rparr>"

definition st32 :: "u32 \<Rightarrow> u32 \<Rightarrow> 'a machine_scheme \<Rightarrow> 'a machine_scheme" where
  "st32 p v s = s\<lparr>mem := store32 (mem s) p v\<rparr>"

lemma mem_st [simp, mem_simps]:
  "mem (st8 p b s) = store8 (mem s) p b"
  "mem (st16 p w s) = store16 (mem s) p w"
  "mem (st32 p v s) = store32 (mem s) p v"
  by (simp_all add: st8_def st16_def st32_def)

lemma io_log_st [simp, log_simps]:
  "io_log (st8 p b s) = io_log s"
  "io_log (st16 p w s) = io_log s"
  "io_log (st32 p v s) = io_log s"
  by (simp_all add: st8_def st16_def st32_def)

lemma more_st [simp, frame_simps]:
  "machine.more (st8 p b s) = machine.more s"
  "machine.more (st16 p w s) = machine.more s"
  "machine.more (st32 p v s) = machine.more s"
  by (simp_all add: st8_def st16_def st32_def)


lemma mem_upd: "mem (s\<lparr>mem := m\<rparr>) = m"
  by simp

lemma mem_upd_upd: "s\<lparr>mem := m, mem := m'\<rparr> = s\<lparr>mem := m'\<rparr>"
  by simp


section \<open>Port instructions\<close>

definition log_event :: "io_event \<Rightarrow> 'a machine_scheme \<Rightarrow> 'a machine_scheme" where
  "log_event e s = s\<lparr>io_log := io_log s @ [e]\<rparr>"

definition outb :: "u16 \<Rightarrow> u8 \<Rightarrow> 'a machine_scheme \<Rightarrow> 'a machine_scheme" where
  "outb port val s = log_event (OutB port val) s"

definition outw :: "u16 \<Rightarrow> u16 \<Rightarrow> 'a machine_scheme \<Rightarrow> 'a machine_scheme" where
  "outw port val s = log_event (OutW port val) s"

definition outl :: "u16 \<Rightarrow> u32 \<Rightarrow> 'a machine_scheme \<Rightarrow> 'a machine_scheme" where
  "outl port val s = log_event (OutL port val) s"

definition inb :: "hw \<Rightarrow> u16 \<Rightarrow> 'a machine_scheme \<Rightarrow> u8 \<times> 'a machine_scheme" where
  "inb hw port s = (let ret = hw_inb hw (io_log s) port in (ret, log_event (InB port ret) s))"

definition inw :: "hw \<Rightarrow> u16 \<Rightarrow> 'a machine_scheme \<Rightarrow> u16 \<times> 'a machine_scheme" where
  "inw hw port s = (let ret = hw_inw hw (io_log s) port in (ret, log_event (InW port ret) s))"

definition inl :: "hw \<Rightarrow> u16 \<Rightarrow> 'a machine_scheme \<Rightarrow> u32 \<times> 'a machine_scheme" where
  "inl hw port s = (let ret = hw_inl hw (io_log s) port in (ret, log_event (InL port ret) s))"

lemma log_event_fields [simp, log_simps]:
  "mem (log_event e s) = mem s"
  "io_log (log_event e s) = io_log s @ [e]"
  "machine.more (log_event e s) = machine.more s"
  by (simp_all add: log_event_def)

lemmas port_defs = outb_def outw_def outl_def inb_def inw_def inl_def

text \<open>
  Halting: the devices get time (their writes to memory become visible) and an interrupt
  arrives, whose handler \<open>isr\<close> runs before the instruction after \<open>hlt\<close>.
\<close>

definition hlt ::
  "hw \<Rightarrow> (u8 \<Rightarrow> 'a machine_scheme \<Rightarrow> 'a machine_scheme option) \<Rightarrow> 'a machine_scheme \<Rightarrow> 'a machine_scheme option"
  where
  "hlt hw isr s =
     (let n = hw_irq hw (io_log s);
          s = s\<lparr>mem := hw_dma hw (io_log s) (mem s)\<rparr>
      in isr n (log_event (Halt n) s))"

end
