(* ===== verification/FreeSpace.thy ===== *)
theory FreeSpace
  imports Prelude
begin

text \<open>
  The abstract specification of the heap allocator of \<open>mem/mem.c\<close>: a free list is a list of
  free blocks (address and sz, natural numbers), and the two operations are functions on
  that list with no pointers in sight. \<open>Allocator\<close> shows that the C code, on bytes and
  32-bit words, computes exactly these functions.

  The set of free bytes determines the list (\<open>free_wf_unique\<close>), so facts about lists follow
  from facts about sets of bytes: allocation takes a range of bytes away, release adds it
  back.
\<close>

type_synonym block = "nat \<times> nat"


section \<open>Well-formed free lists\<close>

text \<open>
  Blocks are at least as large as a \<open>struct free_block\<close> (8 bytes), lie within the bounds,
  and are in increasing order with at least one byte between neighbours: adjacent blocks
  are always coalesced.
\<close>

fun free_wf :: "nat \<Rightarrow> nat \<Rightarrow> block list \<Rightarrow> bool" where
  "free_wf lo hi [] \<longleftrightarrow> True"
| "free_wf lo hi ((a, n) # bs) \<longleftrightarrow> lo \<le> a \<and> 8 \<le> n \<and> a + n \<le> hi \<and> free_wf (a + n + 1) hi bs"

fun fbytes :: "block list \<Rightarrow> nat set" where
  "fbytes [] = {}"
| "fbytes ((a, n) # bs) = {a..<a + n} \<union> fbytes bs"

lemma fbytes_append [simp]: "fbytes (xs @ ys) = fbytes xs \<union> fbytes ys"
  by (induction xs) (auto split: prod.splits)

lemma fbytes_iff: "x \<in> fbytes bs \<longleftrightarrow> (\<exists>(a, n) \<in> set bs. a \<le> x \<and> x < a + n)"
  by (induction bs rule: fbytes.induct) auto

lemma fbytes_mem: "(a, n) \<in> set bs \<Longrightarrow> {a..<a + n} \<subseteq> fbytes bs"
  by (fastforce simp: fbytes_iff)

lemma free_wf_mono: "free_wf lo hi bs \<Longrightarrow> lo' \<le> lo \<Longrightarrow> free_wf lo' hi bs"
  by (cases bs) auto

lemma free_wf_hi_mono: "free_wf lo hi bs \<Longrightarrow> hi \<le> hi' \<Longrightarrow> free_wf lo hi' bs"
  by (induction lo hi bs rule: free_wf.induct) auto

lemma free_wf_bytes: "free_wf lo hi bs \<Longrightarrow> fbytes bs \<subseteq> {lo..<hi}"
  by (induction lo hi bs rule: free_wf.induct) fastforce+

lemma free_wf_mem:
  "free_wf lo hi bs \<Longrightarrow> (a, n) \<in> set bs \<Longrightarrow> lo \<le> a \<and> 8 \<le> n \<and> a + n \<le> hi"
  by (induction lo hi bs rule: free_wf.induct) fastforce+

lemma free_wf_append:
  "free_wf lo hi (xs @ ys) \<longleftrightarrow>
     free_wf lo hi xs \<and> free_wf lo hi ys \<and>
     (\<forall>(a, n) \<in> set xs. \<forall>(b, m) \<in> set ys. a + n < b)"
proof (induction xs arbitrary: lo)
  case Nil
  then show ?case by simp
next
  case (Cons x xs)
  obtain a n where x: "x = (a, n)" by (cases x)
  have up: "free_wf (a + n + 1) hi ys \<longleftrightarrow> free_wf lo hi ys \<and> (\<forall>(b, m) \<in> set ys. a + n < b)"
    if "lo \<le> a"
  proof (cases ys)
    case (Cons y ys')
    then show ?thesis
      using that free_wf_mem [of _ hi ys'] by (cases y) fastforce
  qed simp
  show ?case
    using Cons.IH [of "a + n + 1"] up by (auto simp: x)
qed

lemma free_wf_bytes_start:
  assumes "free_wf lo hi ((a, n) # bs)"
  shows "a \<in> fbytes ((a, n) # bs)" and "x \<in> fbytes ((a, n) # bs) \<Longrightarrow> a \<le> x"
    and "a + n \<notin> fbytes ((a, n) # bs)"
  using assms free_wf_bytes [of "a + n + 1" hi bs] by auto

text \<open>The bytes determine the list.\<close>

lemma free_wf_unique:
  "free_wf lo hi bs \<Longrightarrow> free_wf lo' hi' cs \<Longrightarrow> fbytes bs = fbytes cs \<Longrightarrow> bs = cs"
proof (induction lo hi bs arbitrary: lo' cs rule: free_wf.induct)
  case (1 lo hi)
  then show ?case
    by (cases cs) (auto dest: free_wf_bytes_start(1))
next
  case (2 lo hi a n bs)
  show ?case
  proof (cases cs)
    case Nil
    with "2.prems" free_wf_bytes_start(1) [of lo hi a n bs] show ?thesis by simp
  next
    case (Cons c cs')
    obtain b m where c: "c = (b, m)" by (cases c)
    note wf = "2.prems"(1) "2.prems"(2) [unfolded Cons c]
    note eq = "2.prems"(3) [unfolded Cons c]
    have ab: "a = b"
      using free_wf_bytes_start(1,2) [OF wf(1)] free_wf_bytes_start(1,2) [OF wf(2)] eq
      by (metis le_antisym)
    have "n = m"
    proof (rule ccontr)
      assume "n \<noteq> m"
      then consider "n < m" | "m < n" by linarith
      then show False
      proof cases
        case 1
        then have "a + n \<in> fbytes ((b, m) # cs')" by (simp add: ab)
        with free_wf_bytes_start(3) [OF wf(1)] show False unfolding eq by blast
      next
        case 2
        then have "b + m \<in> fbytes ((a, n) # bs)" by (simp add: ab)
        with free_wf_bytes_start(3) [OF wf(2)] show False unfolding eq by blast
      qed
    qed
    have rest: "free_wf (a + n + 1) hi bs" "free_wf (a + n + 1) hi' cs'"
      using wf by (auto simp: ab \<open>n = m\<close>)
    have "fbytes bs \<inter> {a..<a + n} = {}" "fbytes cs' \<inter> {a..<a + n} = {}"
      using free_wf_bytes [OF rest(1)] free_wf_bytes [OF rest(2)] by auto
    with eq have "fbytes bs = fbytes cs'"
      by (auto simp: ab \<open>n = m\<close>)
    with "2.IH" rest show ?thesis
      by (simp add: Cons c ab \<open>n = m\<close>)
  qed
qed


section \<open>First-fit allocation\<close>

text \<open>
  \<open>start a\<close> is the address at which the payload of an allocation cut from the block at \<open>a\<close>
  would begin. A block fits when the payload leaves room for the 8-byte header in front of
  it and for \<open>sz\<close> bytes behind.
\<close>

definition fits :: "(nat \<Rightarrow> nat) \<Rightarrow> nat \<Rightarrow> block \<Rightarrow> bool" where
  "fits start sz b \<longleftrightarrow> (case b of (a, n) \<Rightarrow> a + 8 \<le> start a \<and> start a + sz \<le> a + n)"

text \<open>
  What is left of a block: a part in front and a part behind the allocation, each only when
  it can hold a free block; otherwise it is given away with the allocation.
\<close>

definition slack_before :: "nat \<Rightarrow> nat \<Rightarrow> nat" where
  "slack_before a p = p - 8 - a"

definition slack_after :: "nat \<Rightarrow> nat \<Rightarrow> nat \<Rightarrow> nat \<Rightarrow> nat" where
  "slack_after a n p sz = a + n - (p + sz)"

definition carve :: "nat \<Rightarrow> nat \<Rightarrow> nat \<Rightarrow> nat \<Rightarrow> block list" where
  "carve a n p sz =
     (if 8 \<le> slack_before a p then [(a, slack_before a p)] else []) @
     (if 8 \<le> slack_after a n p sz then [(p + sz, slack_after a n p sz)] else [])"

text \<open>A granted allocation: the payload pointer and the range of bytes it owns.\<close>

record grant =
  g_ptr :: nat
  g_start :: nat
  g_end :: nat

definition granted :: "nat \<Rightarrow> nat \<Rightarrow> nat \<Rightarrow> nat \<Rightarrow> grant" where
  "granted a n p sz =
     \<lparr>g_ptr = p,
      g_start = (if 8 \<le> slack_before a p then p - 8 else a),
      g_end = (if 8 \<le> slack_after a n p sz then p + sz else a + n)\<rparr>"

fun alloc_spec :: "(nat \<Rightarrow> nat) \<Rightarrow> nat \<Rightarrow> block list \<Rightarrow> (grant \<times> block list) option" where
  "alloc_spec start sz [] = None"
| "alloc_spec start sz ((a, n) # bs) =
     (if fits start sz (a, n)
      then Some (granted a n (start a) sz, carve a n (start a) sz @ bs)
      else map_option (\<lambda>(g, bs'). (g, (a, n) # bs')) (alloc_spec start sz bs))"

definition g_bytes :: "grant \<Rightarrow> nat set" where
  "g_bytes g = {g_start g..<g_end g}"

lemma alloc_spec_None_iff: "alloc_spec start sz bs = None \<longleftrightarrow> (\<forall>b \<in> set bs. \<not> fits start sz b)"
  by (induction start sz bs rule: alloc_spec.induct) auto

lemma alloc_spec_split:
  "(\<forall>b \<in> set pre. \<not> fits start sz b) \<Longrightarrow> fits start sz (a, n) \<Longrightarrow>
   alloc_spec start sz (pre @ (a, n) # post) =
     Some (granted a n (start a) sz, pre @ carve a n (start a) sz @ post)"
  by (induction pre) (auto split: prod.splits)

lemma alloc_spec_SomeE:
  assumes "alloc_spec start sz bs = Some (g, bs')"
  obtains pre a n post where "bs = pre @ (a, n) # post"
    and "\<forall>b \<in> set pre. \<not> fits start sz b" and "fits start sz (a, n)"
    and "g = granted a n (start a) sz" and "bs' = pre @ carve a n (start a) sz @ post"
proof -
  have "\<exists>b \<in> set bs. fits start sz b"
    using assms alloc_spec_None_iff [of start sz bs] by auto
  from split_list_first_prop [OF this] obtain pre b post where
      split: "bs = pre @ b # post" "fits start sz b" "\<forall>b \<in> set pre. \<not> fits start sz b"
    by blast
  obtain a n where b: "b = (a, n)" by (cases b)
  show thesis
    using that [of pre a n post] split assms alloc_spec_split [of pre start sz a n post]
    by (simp add: b)
qed

lemma fits_bounds:
  assumes "fits start sz (a, n)"
  shows "a + 8 \<le> start a" and "start a + sz \<le> a + n"
  using assms by (auto simp: fits_def)

lemma carve_bytes:
  assumes "a + 8 \<le> p" and "p + sz \<le> a + n"
  shows "fbytes (carve a n p sz) = {a..<a + n} - g_bytes (granted a n p sz)"
    and "g_bytes (granted a n p sz) \<subseteq> {a..<a + n}"
  using assms
  by (auto simp: carve_def granted_def g_bytes_def slack_before_def slack_after_def)

lemma carve_wf:
  assumes "a + 8 \<le> p" and "p + sz \<le> a + n" and "0 < sz" and "lo \<le> a" and "a + n \<le> hi"
  shows "free_wf lo hi (carve a n p sz)"
    and "(b, m) \<in> set (carve a n p sz) \<Longrightarrow> a \<le> b \<and> b + m \<le> a + n"
  using assms by (auto simp: carve_def slack_before_def slack_after_def)

text \<open>What a grant gives: the payload behind its header, with less than a free block lost.\<close>

lemma granted_bounds:
  assumes "a + 8 \<le> p" and "p + sz \<le> a + n"
  shows "g_ptr (granted a n p sz) = p"
    and "g_start (granted a n p sz) + 8 \<le> p"
    and "p + sz \<le> g_end (granted a n p sz)"
    and "p < g_start (granted a n p sz) + 16"
    and "g_end (granted a n p sz) < p + sz + 8"
  using assms by (auto simp: granted_def slack_before_def slack_after_def)

lemma alloc_spec_bounds:
  assumes "alloc_spec start sz bs = Some (g, bs')"
  shows "g_start g + 8 \<le> g_ptr g" "g_ptr g + sz \<le> g_end g"
    "g_ptr g < g_start g + 16" "g_end g < g_ptr g + sz + 8"
    "\<exists>(a, n) \<in> set bs. g_ptr g = start a \<and> fits start sz (a, n)"
proof -
  from assms obtain pre a n post where s: "bs = pre @ (a, n) # post"
      "fits start sz (a, n)" "g = granted a n (start a) sz"
    by (rule alloc_spec_SomeE)
  note b = granted_bounds [OF fits_bounds [OF s(2)]]
  show "g_start g + 8 \<le> g_ptr g" "g_ptr g + sz \<le> g_end g"
    "g_ptr g < g_start g + 16" "g_end g < g_ptr g + sz + 8"
    using b unfolding s(3) b(1) by simp_all
  show "\<exists>(a, n) \<in> set bs. g_ptr g = start a \<and> fits start sz (a, n)"
    using s(2) b(1) unfolding s(1,3) by auto
qed

lemma free_wf_replace:
  assumes wf: "free_wf lo hi (pre @ (a, n) # post)"
    and mid: "free_wf a (a + n) mid"
  shows "free_wf lo hi (pre @ mid @ post)"
proof -
  have inside: "a \<le> b \<and> b + m \<le> a + n" if "(b, m) \<in> set mid" for b m
    using free_wf_mem [OF mid that] by auto
  have "free_wf lo hi mid"
    using free_wf_mono [OF free_wf_hi_mono [OF mid]] wf by (simp add: free_wf_append)
  moreover have "b + m < a" if "(b, m) \<in> set pre" for b m
    using wf that by (auto simp: free_wf_append)
  moreover have "free_wf lo hi pre" "free_wf lo hi post" "\<And>c k. (c, k) \<in> set post \<Longrightarrow> a + n < c"
    and "\<And>b m c k. (b, m) \<in> set pre \<Longrightarrow> (c, k) \<in> set post \<Longrightarrow> b + m < c"
    using wf free_wf_mem [of "a + n + 1" hi post] free_wf_mono [of "a + n + 1" hi post lo]
    by (fastforce simp: free_wf_append)+
  ultimately show ?thesis
    using inside by (auto simp: free_wf_append) (meson le_less_trans less_le_trans)+
qed

lemma alloc_spec_wf:
  assumes "alloc_spec start sz bs = Some (g, bs')" and "free_wf lo hi bs" and "0 < sz"
  shows "free_wf lo hi bs'"
    and "fbytes bs' = fbytes bs - g_bytes g"
    and "g_bytes g \<subseteq> fbytes bs"
proof -
  from assms(1) obtain pre a n post where s: "bs = pre @ (a, n) # post"
      "fits start sz (a, n)" "g = granted a n (start a) sz"
      "bs' = pre @ carve a n (start a) sz @ post"
    by (rule alloc_spec_SomeE)
  note fit = fits_bounds [OF s(2)]
  have "free_wf a (a + n) (carve a n (start a) sz)"
    using carve_wf(1) [OF fit assms(3), of a "a + n"] by simp
  with assms(2) show "free_wf lo hi bs'"
    unfolding s(1,4) by (rule free_wf_replace)
  have apart: "fbytes (pre @ post) \<inter> {a..<a + n} = {}"
  proof -
    have "{b..<b + m} \<inter> {a..<a + n} = {}" if "(b, m) \<in> set (pre @ post)" for b m
      using that assms(2) free_wf_mem [of "a + n + 1" hi post b m]
      by (auto simp: s(1) free_wf_append)
    then show ?thesis
      by (fastforce simp: fbytes_iff simp del: fbytes_append)
  qed
  then show "fbytes bs' = fbytes bs - g_bytes g" and "g_bytes g \<subseteq> fbytes bs"
    using carve_bytes [OF fit] unfolding s(1,3,4) by auto
qed


section \<open>Release with coalescing\<close>

text \<open>
  \<open>join\<close> puts a block in front of a list and merges it with the first block when they
  touch; \<open>free_spec\<close> inserts a released range at its place and merges it with both
  neighbours when they touch.
\<close>

fun join :: "block \<Rightarrow> block list \<Rightarrow> block list" where
  "join (a, n) [] = [(a, n)]"
| "join (a, n) ((b, m) # bs) = (if a + n = b then (a, n + m) # bs else (a, n) # (b, m) # bs)"

fun free_spec :: "nat \<Rightarrow> nat \<Rightarrow> block list \<Rightarrow> block list" where
  "free_spec a n [] = [(a, n)]"
| "free_spec a n ((b, m) # bs) =
     (if a < b then join (a, n) ((b, m) # bs)
      else if b + m = a then join (b, m + n) bs
      else (b, m) # free_spec a n bs)"

lemma join_bytes: "fbytes (join (a, n) bs) = {a..<a + n} \<union> fbytes bs"
  by (induction "(a, n)" bs rule: join.induct) (auto split: if_splits)

lemma free_spec_bytes:
  "free_wf lo hi bs \<Longrightarrow> fbytes (free_spec a n bs) = {a..<a + n} \<union> fbytes bs"
proof (induction bs arbitrary: lo)
  case (Cons x bs)
  obtain b m where x: "x = (b, m)" by (cases x)
  have "{b..<b + (m + n)} = {b..<b + m} \<union> {b + m..<b + m + n}"
    by auto
  with Cons show ?case
    by (auto simp: x join_bytes)
qed simp

lemma join_wf:
  assumes "free_wf (a + n) hi bs" and "8 \<le> n" and "lo \<le> a" and "a + n \<le> hi"
  shows "free_wf lo hi (join (a, n) bs)"
  using assms by (cases bs) (auto simp: add.assoc)

text \<open>A range that meets no free byte can be released: the list stays well formed.\<close>

lemma free_spec_wf:
  assumes "free_wf lo hi bs" and "lo \<le> a" and "8 \<le> n" and "a + n \<le> hi"
    and "{a..<a + n} \<inter> fbytes bs = {}"
  shows "free_wf lo hi (free_spec a n bs)"
  using assms
proof (induction bs arbitrary: lo)
  case (Cons x bs)
  obtain b m where x: "x = (b, m)" by (cases x)
  have wf: "lo \<le> b" "8 \<le> m" "b + m \<le> hi" "free_wf (b + m + 1) hi bs"
    using Cons.prems(1) by (auto simp: x)
  have b_out: "b \<notin> {a..<a + n}"
    using Cons.prems(5) wf(2) by (auto simp: x)
  have a_out: "a \<notin> {b..<b + m}"
  proof
    assume "a \<in> {b..<b + m}"
    moreover have "a \<in> {a..<a + n}" using Cons.prems(3) by simp
    ultimately have "a \<in> {a..<a + n} \<inter> fbytes (x # bs)" by (simp add: x)
    with Cons.prems(5) show False by simp
  qed
  have tail: "{a..<a + n} \<inter> fbytes bs = {}"
    using Cons.prems(5) by (auto simp: x)
  consider (lt) "a < b" | (touch) "b < a" "b + m = a" | (gt) "b + m < a"
    using a_out wf(2) by fastforce
  then show ?case
  proof cases
    case lt
    then have "a + n \<le> b" using b_out by auto
    then have "free_wf lo hi (join (a, n) ((b, m) # bs))"
      using wf Cons.prems by (intro join_wf) auto
    with lt show ?thesis by (simp add: x)
  next
    case touch
    have "a + n \<le> c" if "(c, k) \<in> set bs" for c k
    proof -
      have "a < c" "8 \<le> k" using free_wf_mem [OF wf(4) that] touch by auto
      moreover have "c \<in> fbytes bs" using fbytes_mem [OF that] \<open>8 \<le> k\<close> by auto
      ultimately have "c \<notin> {a..<a + n}" using tail by blast
      with \<open>a < c\<close> show ?thesis by simp
    qed
    then have next_at: "b + (m + n) \<le> c" if "(c, k) \<in> set bs" for c k
      using that touch by (fastforce simp: add.assoc)
    have "free_wf (b + (m + n)) hi bs"
    proof (cases bs)
      case (Cons y ys)
      then show ?thesis
        using wf(4) next_at [of "fst y" "snd y"] by (cases y) simp
    qed simp
    then have "free_wf lo hi (join (b, m + n) bs)"
      using wf Cons.prems touch by (intro join_wf) auto
    with touch show ?thesis by (simp add: x)
  next
    case gt
    have "free_wf (b + m + 1) hi (free_spec a n bs)"
      using Cons.prems gt wf tail by (intro Cons.IH) auto
    with gt wf show ?thesis by (simp add: x)
  qed
qed simp

text \<open>Releasing what was just allocated restores the free list exactly.\<close>

lemma free_after_alloc:
  assumes "alloc_spec start sz bs = Some (g, bs')" and "free_wf lo hi bs" and "0 < sz"
  shows "free_spec (g_start g) (g_end g - g_start g) bs' = bs"
proof -
  note wf = alloc_spec_wf [OF assms]
  note bnd = alloc_spec_bounds [OF assms(1)]
  let ?n = "g_end g - g_start g"
  have range: "{g_start g..<g_start g + ?n} = g_bytes g"
    using bnd by (simp add: g_bytes_def)
  have "g_start g \<in> fbytes bs" "g_end g - 1 \<in> fbytes bs"
    using wf(3) bnd assms(3) by (auto simp: g_bytes_def)
  then have "lo \<le> g_start g" "g_end g \<le> hi"
    using free_wf_bytes [OF assms(2)] by fastforce+
  moreover have "{g_start g..<g_start g + ?n} \<inter> fbytes bs' = {}"
    using wf(2) by (auto simp: range)
  ultimately have "free_wf lo hi (free_spec (g_start g) ?n bs')"
    using wf(1) bnd assms(3) by (intro free_spec_wf) auto
  moreover have "fbytes (free_spec (g_start g) ?n bs') = fbytes bs"
    using free_spec_bytes [OF wf(1)] wf(2,3) by (auto simp: range)
  ultimately show ?thesis
    by (intro free_wf_unique [OF _ assms(2)])
qed

text \<open>
  The form in which the C code computes the release: the list is cut at the released range,
  the last block before and the first block behind are merged when they touch.
\<close>

lemma free_spec_cut:
  assumes "free_wf lo hi (pre @ post)"
    and "\<And>b m. (b, m) \<in> set pre \<Longrightarrow> b < a" and "\<And>b m. (b, m) \<in> set post \<Longrightarrow> a < b"
  shows "free_spec a n (pre @ post) =
    (if pre \<noteq> [] \<and> fst (last pre) + snd (last pre) = a
     then butlast pre @ join (fst (last pre), snd (last pre) + n) post
     else pre @ join (a, n) post)"
  using assms
proof (induction pre arbitrary: lo)
  case Nil
  then show ?case
  proof (cases post)
    case (Cons y ys)
    with Nil.prems(3) show ?thesis by (cases y) auto
  qed simp
next
  case (Cons x pre)
  obtain b m where x: "x = (b, m)" by (cases x)
  have "b < a" using Cons.prems(2) by (auto simp: x)
  show ?case
  proof (cases pre)
    case Nil
    have "free_spec a n post = join (a, n) post"
    proof (cases post)
      case (Cons z zs)
      then have "a < fst z" using Cons.prems(3) [of "fst z" "snd z"] by simp
      then show ?thesis by (cases z) (simp add: Cons)
    qed simp
    with Nil \<open>b < a\<close> show ?thesis by (simp add: x)
  next
    case (Cons y pre')
    obtain c k where y: "y = (c, k)" by (cases y)
    have "b + m < c" "c < a"
      using Cons.prems(1,2) by (auto simp: x y Cons)
    moreover have "free_spec a n (pre @ post) =
      (if pre \<noteq> [] \<and> fst (last pre) + snd (last pre) = a
       then butlast pre @ join (fst (last pre), snd (last pre) + n) post
       else pre @ join (a, n) post)"
      using Cons.prems by (intro Cons.IH [of "b + m + 1"]) (auto simp: x)
    ultimately show ?thesis
      using \<open>b < a\<close> by (simp add: x Cons)
  qed
qed

text \<open>Cutting a list at an address.\<close>

lemma free_wf_cut:
  assumes "free_wf lo hi bs"
  obtains pre post where "bs = pre @ post"
    and "\<And>b m. (b, m) \<in> set pre \<Longrightarrow> b < x" and "\<And>b m. (b, m) \<in> set post \<Longrightarrow> x \<le> b"
proof -
  have "\<exists>pre post. bs = pre @ post \<and> (\<forall>(b, m) \<in> set pre. b < x) \<and> (\<forall>(b, m) \<in> set post. x \<le> b)"
    using assms
  proof (induction lo hi bs rule: free_wf.induct)
    case (2 lo hi a n bs)
    show ?case
    proof (cases "a < x")
      case True
      from 2 obtain pre post where "bs = pre @ post" "\<forall>(b, m) \<in> set pre. b < x" "\<forall>(b, m) \<in> set post. x \<le> b"
        by auto
      with True show ?thesis
        by (intro exI [of _ "(a, n) # pre"] exI [of _ post]) auto
    next
      case False
      have "x \<le> b" if "(b, m) \<in> set ((a, n) # bs)" for b m
        using that False "2.prems" free_wf_mem [of "a + n + 1" hi bs b m] by auto
      then show ?thesis
        by (intro exI [of _ "[]"] exI [of _ "(a, n) # bs"]) auto
    qed
  qed simp
  then obtain pre post where "bs = pre @ post" "\<forall>(b, m) \<in> set pre. b < x" "\<forall>(b, m) \<in> set post. x \<le> b"
    by blast
  then show thesis by (intro that) auto
qed

text \<open>The number of free bytes.\<close>

definition free_total :: "block list \<Rightarrow> nat" where
  "free_total bs = sum_list (map snd bs)"

lemma free_total_card: "free_wf lo hi bs \<Longrightarrow> card (fbytes bs) = free_total bs"
proof (induction lo hi bs rule: free_wf.induct)
  case (2 lo hi a n bs)
  have "{a..<a + n} \<inter> fbytes bs = {}"
    using "2.prems" free_wf_bytes [of "a + n + 1" hi bs] by auto
  moreover have "finite (fbytes bs)"
    using "2.prems" free_wf_bytes [of "a + n + 1" hi bs] by (auto intro: finite_subset)
  ultimately show ?case
    using "2" by (simp add: card_Un_disjoint free_total_def)
qed (simp add: free_total_def)

end
