(* ===== verification/FreeList.thy ===== *)
theory FreeList
  imports Allocator
begin

text \<open>
  The linked list of free blocks in memory and its abstraction to the block lists of
  \<open>FreeSpace\<close>: list segments, what stores outside of the blocks' headers leave alone, and
  what the pointer operations of \<open>Allocator\<close> do to the abstract list.
\<close>


section \<open>List segments\<close>

fun lseg :: "mem \<Rightarrow> u32 \<Rightarrow> block list \<Rightarrow> u32 \<Rightarrow> bool" where
  "lseg m p [] q \<longleftrightarrow> p = q"
| "lseg m p ((a, n) # bs) q \<longleftrightarrow>
     p \<noteq> 0 \<and> unat p = a \<and> unat (load32 m p) = n \<and> lseg m (load32 m (p + 4)) bs q"

text \<open>Blocks in increasing order that do not overlap, adjacent ones allowed.\<close>

fun apart :: "nat \<Rightarrow> nat \<Rightarrow> block list \<Rightarrow> bool" where
  "apart lo hi [] \<longleftrightarrow> True"
| "apart lo hi ((a, n) # bs) \<longleftrightarrow> lo \<le> a \<and> 8 \<le> n \<and> a + n \<le> hi \<and> apart (a + n) hi bs"

lemma apart_mono: "apart lo hi bs \<Longrightarrow> lo' \<le> lo \<Longrightarrow> apart lo' hi bs"
  by (cases bs) auto

lemma apart_raise:
  assumes "apart lo hi bs" and "\<And>b m. (b, m) \<in> set bs \<Longrightarrow> x \<le> b"
  shows "apart x hi bs"
proof (cases bs)
  case (Cons y ys)
  then show ?thesis
    using assms(1) assms(2) [of "fst y" "snd y"] by (cases y) simp
qed simp

lemma free_wf_apart: "free_wf lo hi bs \<Longrightarrow> apart lo hi bs"
  by (induction lo hi bs rule: free_wf.induct) (auto intro: apart_mono)

lemma apart_mem: "apart lo hi bs \<Longrightarrow> (a, n) \<in> set bs \<Longrightarrow> lo \<le> a \<and> 8 \<le> n \<and> a + n \<le> hi"
  by (induction lo hi bs rule: apart.induct) fastforce+

lemma apart_append:
  "apart lo hi (xs @ ys) \<longleftrightarrow>
     apart lo hi xs \<and> apart lo hi ys \<and> (\<forall>(a, n) \<in> set xs. \<forall>(b, m) \<in> set ys. a + n \<le> b)"
proof (induction xs arbitrary: lo)
  case (Cons x xs)
  obtain a n where x: "x = (a, n)" by (cases x)
  have up: "apart (a + n) hi ys \<longleftrightarrow> apart lo hi ys \<and> (\<forall>(b, m) \<in> set ys. a + n \<le> b)"
    if "lo \<le> a"
  proof (cases ys)
    case (Cons y ys')
    then show ?thesis
      using that apart_mem [of _ hi ys'] by (cases y) fastforce
  qed simp
  show ?case
    using Cons.IH [of "a + n"] up by (auto simp: x)
qed simp

lemma apart_bytes: "apart lo hi bs \<Longrightarrow> fbytes bs \<subseteq> {lo..<hi}"
  by (induction lo hi bs rule: apart.induct) fastforce+

lemma apart_around:
  assumes "apart lo hi (pre @ (a, n) # post)"
  shows "fbytes pre \<subseteq> - {a..<a + n} \<and> fbytes post \<subseteq> - {a..<a + n}"
proof -
  have "apart (a + n) hi post" "\<forall>(b, m) \<in> set pre. b + m \<le> a" using assms by (auto simp: apart_append)
  then show ?thesis using apart_bytes [of "a + n" hi post] by (fastforce simp: fbytes_iff)
qed

lemma apart_merge:
  "apart lo hi (pre @ (a, n) # (a + n, m) # post) \<Longrightarrow> apart lo hi (pre @ (a, n + m) # post)"
  by (induction pre arbitrary: lo) (auto simp: add.assoc)

lemma lseg_append: "lseg m p (xs @ ys) q \<longleftrightarrow> (\<exists>r. lseg m p xs r \<and> lseg m r ys q)"
  by (induction m p xs q rule: lseg.induct) auto

lemma lseg_mem:
  "lseg m p bs q \<Longrightarrow> (a, n) \<in> set bs \<Longrightarrow>
     \<exists>r. r \<noteq> 0 \<and> unat r = a \<and> unat (load32 m r) = n"
  by (induction m p bs q rule: lseg.induct) auto

text \<open>Only the 8 bytes at the start of each block matter.\<close>

lemma lseg_same:
  assumes "lseg m p bs q" and "same_on m m' (fbytes bs)" and "apart lo hi bs"
    and "hi \<le> 4294967296"
  shows "lseg m' p bs q"
  using assms
proof (induction m p bs q arbitrary: lo rule: lseg.induct)
  case (2 m p a n bs q)
  have an: "p \<noteq> 0" "unat p = a" "unat (load32 m p) = n" "lseg m (load32 m (p + 4)) bs q"
    using "2.prems"(1) by auto
  have b: "8 \<le> n" "a + n \<le> 4294967296"
    using "2.prems"(3,4) by auto
  have p4: "unat (p + 4) = a + 4"
    using an(2) b by (simp add: unat_plus_small)
  have "load32 m' p = load32 m p"
    by (rule load32_same [OF "2.prems"(2)]) (use an b in auto)
  moreover have "load32 m' (p + 4) = load32 m (p + 4)"
    by (rule load32_same [OF "2.prems"(2)]) (use an b in \<open>auto simp: p4\<close>)
  moreover have "lseg m' (load32 m (p + 4)) bs q"
    using "2.prems" an(4)
    by (intro "2.IH" [of "a + n"]) (auto elim: same_on_mono)
  ultimately show ?case
    using an by simp
qed simp

text \<open>Writing the header of one block between two segments.\<close>

lemma lseg_update:
  assumes l: "lseg m p pre c" and c: "c \<noteq> 0" and ap: "apart lo hi (pre @ (unat c, n) # post)"
    and hi: "hi \<le> 4294967296"
    and frame: "same_on m m' (- {unat c..<unat c + 8})"
    and sz: "unat (load32 m' c) = n" and nxt: "lseg m (load32 m' (c + 4)) post q"
  shows "lseg m' p (pre @ (unat c, n) # post) q"
proof -
  have parts: "apart lo hi pre" "apart (unat c + n) hi post" "8 \<le> n"
    using ap by (auto simp: apart_append)
  then have "fbytes pre \<subseteq> - {unat c..<unat c + 8}" "fbytes post \<subseteq> - {unat c..<unat c + 8}"
    using apart_around [OF ap] by auto
  then have "lseg m' p pre c" "lseg m' (load32 m' (c + 4)) post q"
    using l nxt parts hi by (blast intro: lseg_same same_on_mono [OF frame])+
  then show ?thesis
    using c sz by (auto simp: lseg_append)
qed


section \<open>The last block of a prefix\<close>

text \<open>The variable \<open>prev\<close> of the search loops: the last block passed, 0 at the head.\<close>

definition last_addr :: "block list \<Rightarrow> u32" where
  "last_addr pre = (if pre = [] then 0 else of_nat (fst (last pre)))"

lemma last_addr_simps [simp]:
  "last_addr [] = 0"
  "last_addr (xs @ [(a, n)]) = of_nat a"
  by (simp_all add: last_addr_def)

lemma lseg_snoc_addr: "lseg m p (xs @ (a, n) # ys) q \<Longrightarrow> (of_nat a :: u32) \<noteq> 0 \<and> unat (of_nat a :: u32) = a"
  by (auto simp: lseg_append)

abbreviation free_list :: "'a heap_state_scheme \<Rightarrow> block list \<Rightarrow> bool" where
  "free_list s bs \<equiv> lseg (mem s) (free_block_head s) bs 0"

lemma link_from_lseg:
  assumes "free_list s (pre @ rest)"
  shows "lseg (mem s) (link_from (last_addr pre) s) rest 0"
proof (cases pre rule: rev_cases)
  case Nil
  then show ?thesis using assms by (simp add: link_from_def)
next
  case (snoc xs x)
  obtain a n where x: "x = (a, n)" by (cases x)
  with assms snoc show ?thesis
    by (auto simp: link_from_def lseg_append)
qed

text \<open>Relinking after a prefix.\<close>

lemma link_to_lseg:
  fixes s :: "'a heap_state_scheme"
  assumes l: "lseg (mem s) (free_block_head s) pre q" and ap: "apart lo hi (pre @ rest)"
    and hi: "hi \<le> 4294967296"
    and x: "lseg (mem s) x rest 0"
  defines "s' \<equiv> link_to (last_addr pre) x s"
  shows "free_list s' (pre @ rest)" and "same_on (mem s) (mem s') (- fbytes pre)"
proof -
  have "free_list s' (pre @ rest) \<and> same_on (mem s) (mem s') (- fbytes pre)"
  proof (cases pre rule: rev_cases)
    case Nil
    with x show ?thesis by (simp add: link_to_def s'_def)
  next
    case (snoc xs y)
    obtain a n where y: "y = (a, n)" by (cases y)
    let ?c = "of_nat a :: u32" and ?m = "store32 (mem s) (of_nat a + 4) x"
    have c: "?c \<noteq> 0" "unat ?c = a" "lseg (mem s) (free_block_head s) xs ?c"
        "unat (load32 (mem s) ?c) = n"
      using l by (auto simp: snoc y lseg_append)
    have b: "8 \<le> n" "a + n \<le> hi"
      using ap by (auto simp: snoc y apart_append)
    have c4: "unat (?c + 4) = a + 4"
      using c b hi by (simp add: unat_plus_small)
    have "lseg ?m (free_block_head s) (xs @ (unat ?c, n) # rest) 0"
    proof (rule lseg_update [OF c(3,1) _ hi])
      show "apart lo hi (xs @ (unat ?c, n) # rest)"
        using ap by (simp add: snoc y c(2))
      show "same_on (mem s) ?m (- {unat ?c..<unat ?c + 8})"
        using b hi c(2) by (intro same_on_store32) (auto simp: c4)
      show "unat (load32 ?m ?c) = n"
        using b hi c c4 by (simp add: load32_store32_other)
      show "lseg (mem s) (load32 ?m (?c + 4)) rest 0"
        using x by simp
    qed
    moreover have "same_on (mem s) ?m (- fbytes pre)"
      using b hi by (intro same_on_store32) (auto simp: c4 snoc y)
    ultimately show ?thesis
      using c(1,2) by (simp add: link_to_def snoc y s'_def)
  qed
  then show "free_list s' (pre @ rest)" "same_on (mem s) (mem s') (- fbytes pre)" by simp_all
qed

end
