(* ===== verification/AllocatorProof.thy ===== *)
theory AllocatorProof
  imports FreeList
begin

text \<open>
  The operations of \<open>Allocator\<close> compute the functions of \<open>FreeSpace\<close> on the abstract free
  list. Bounds assumed of the heap: it starts at or above address 16 and ends below \<open>2^32\<close>
  (the linker script places it far above 16).
\<close>


section \<open>Alignment\<close>

text \<open>
  For every \<open>align\<close>, also one that is no power of two: rounding up gives an address at or
  above its argument, or one that has wrapped around to well below it.
\<close>

lemma align_ptr_cases:
  assumes "16 \<le> unat q"
  shows "unat q \<le> unat (align_ptr q al) \<or> unat (align_ptr q al) + 8 < unat q"
proof -
  let ?m = "al - 1"
  let ?x = "q + ?m"
  have r: "align_ptr q al = ?x AND NOT ?m"
    by (simp add: align_ptr_def)
  show ?thesis
  proof (cases "unat q + unat ?m < 4294967296")
    case True
    then have "unat ?x = unat q + unat ?m"
      by (rule unat_add_u32)
    with unat_and_not_ge [of ?x ?m] show ?thesis
      by (simp add: r)
  next
    case False
    have x: "unat ?x + 4294967296 = unat q + unat ?m"
      using False by (intro unat_add_wrap_u32) simp
    note n = unat_not_u32 [of ?m]
    show ?thesis
      using unat_and_le1 [of ?x "NOT ?m"] unat_and_le2 [of ?x "NOT ?m"] x n assms
      by (simp add: r)
  qed
qed

text \<open>For a power of two the result is a multiple of it.\<close>

lemma align_ptr_dvd:
  assumes "al = 2 ^ k"
  shows "unat al dvd unat (align_ptr q al)"
proof (cases "k < 32")
  case True
  have m: "al - 1 = mask k"
    by (simp add: assms mask_eq_decr_exp)
  have "take_bit k (align_ptr q al) = 0"
    unfolding align_ptr_def m
    by (rule bit_word_eqI) (auto simp: bit_simps)
  then have "unat (align_ptr q al) mod 2 ^ k = 0"
    by (metis unsigned_take_bit_eq take_bit_eq_mod unsigned_0)
  moreover have "unat al = 2 ^ k"
    using True by (simp add: assms unat_power2_u32)
  ultimately show ?thesis by auto
next
  case False
  then have "al = 0" using assms by (simp add: exp_eq_zero_iff)
  then show ?thesis by (simp add: align_ptr_def)
qed

text \<open>Where the payload of an allocation from the block at \<open>a\<close> starts, as a number.\<close>

definition start_at :: "u32 \<Rightarrow> nat \<Rightarrow> nat" where
  "start_at align a = unat (aligned_mem_start (of_nat a) align)"

text \<open>The test of the search loop decides exactly whether the block fits.\<close>

lemma aligned_size_fits:
  assumes "unat c = a" and "unat (ld32 c s) = n" and "16 \<le> a" and "a + n < 4294967296" and "sz \<noteq> 0" and "8 \<le> n"
  shows "aligned_size c align s < sz \<longleftrightarrow> \<not> fits (start_at align) (unat sz) (a, n)"
proof -
  let ?p = "aligned_mem_start c align"
  have cs: "(of_nat a :: u32) = c" using assms(1) by auto
  have st: "start_at align a = unat ?p" by (simp add: start_at_def cs)
  have sz: "0 < unat sz" using assms(5) by (simp add: unat_gt_0)
  have c8: "unat (c + 8) = a + 8"
    using assms(1,4,6) by (simp add: unat_plus_small)
  then have alt: "a + 8 \<le> unat ?p \<or> unat ?p < a"
    using align_ptr_cases [of "c + 8" align] assms(3) by (auto simp: aligned_mem_start_def)
  then show ?thesis
  proof
    assume ge: "a + 8 \<le> unat ?p"
    then have "unat (?p - c) = unat ?p - a"
      using assms(1) by (simp add: unat_diff_u32)
    with ge assms(1,2) sz show ?thesis
      by (auto simp: aligned_size_def Let_def fits_def st word_less_nat_alt unat_diff_u32 not_less)
  next
    assume lt: "unat ?p < a"
    then have "unat (?p - c) = 4294967296 + unat ?p - a"
      using assms(1) by (simp add: unat_diff_wrap_u32)
    with lt assms sz show ?thesis
      by (auto simp: aligned_size_def Let_def fits_def st word_less_nat_alt)
  qed
qed


section \<open>The search of an allocation\<close>

lemma find_fit_none:
  assumes "lseg (mem s) cur bs 0" and "apart lo hi bs" and "16 \<le> lo" and "hi < 4294967296"
    and "sz \<noteq> 0" and "\<forall>b \<in> set bs. \<not> fits (start_at align) (unat sz) b"
  shows "\<exists>prev'. find_fit sz align prev cur s = Some (prev', 0)"
  using assms
proof (induction bs arbitrary: cur prev lo)
  case Nil
  then show ?case by (simp add: find_fit.simps)
next
  case (Cons b bs)
  obtain a n where b: "b = (a, n)" by (cases b)
  from Cons.prems have c: "cur \<noteq> 0" "unat cur = a" "unat (ld32 cur s) = n"
      "lseg (mem s) (ld32 (cur + 4) s) bs 0" "8 \<le> n" "a + n \<le> hi" "lo \<le> a" "apart (a + n) hi bs"
    by (auto simp: b)
  then have "aligned_size cur align s < sz"
    using Cons.prems by (subst aligned_size_fits [OF c(2,3)]) (auto simp: b)
  moreover have "\<exists>prev'. find_fit sz align cur (ld32 (cur + 4) s) s = Some (prev', 0)"
    using Cons.prems c by (intro Cons.IH [of _ "a + n"]) auto
  ultimately show ?case
    using c(1) by (simp add: find_fit.simps [of sz align prev cur])
qed

lemma find_fit_some:
  assumes "lseg (mem s) cur (pre @ (a, n) # post) 0" and "apart lo hi (pre @ (a, n) # post)"
    and "16 \<le> lo" and "hi < 4294967296" and "sz \<noteq> 0"
    and "\<forall>b \<in> set pre. \<not> fits (start_at align) (unat sz) b"
    and "fits (start_at align) (unat sz) (a, n)"
  shows "find_fit sz align prev cur s =
    Some (if pre = [] then prev else last_addr pre, of_nat a)"
  using assms
proof (induction pre arbitrary: cur prev lo)
  case Nil
  then have c: "cur \<noteq> 0" "unat cur = a" "unat (ld32 cur s) = n" by auto
  have "\<not> aligned_size cur align s < sz"
    using Nil.prems by (subst aligned_size_fits [OF c(2,3)]) auto
  moreover have "cur = of_nat a" using c(2) by auto
  ultimately show ?case by (subst find_fit.simps) simp
next
  case (Cons b pre)
  obtain e k where b: "b = (e, k)" by (cases b)
  from Cons.prems have c: "cur \<noteq> 0" "unat cur = e" "unat (ld32 cur s) = k"
      "lseg (mem s) (ld32 (cur + 4) s) (pre @ (a, n) # post) 0" "8 \<le> k" "e + k \<le> hi" "lo \<le> e"
      "apart (e + k) hi (pre @ (a, n) # post)"
    by (auto simp: b)
  then have "aligned_size cur align s < sz"
    using Cons.prems by (subst aligned_size_fits [OF c(2,3)]) (auto simp: b)
  moreover have "find_fit sz align cur (ld32 (cur + 4) s) s =
      Some (if pre = [] then cur else last_addr pre, of_nat a)"
    using Cons.prems c by (intro Cons.IH [of _ "e + k"]) auto
  moreover have "cur = of_nat e" using c(2) by auto
  ultimately show ?case
    using c(1) by (subst find_fit.simps) (simp add: b last_addr_def)
qed


section \<open>Linking a block in\<close>

text \<open>Writing both words of a block header, in either order.\<close>

lemma header_stores:
  assumes "unat c + 8 \<le> 4294967296"
  shows "same_on m (store32 (store32 m (c + 4) x) c v) (- {unat c..<unat c + 8})"
    and "load32 (store32 (store32 m (c + 4) x) c v) c = v"
    and "load32 (store32 (store32 m (c + 4) x) c v) (c + 4) = x"
    and "same_on m (store32 (store32 m c v) (c + 4) x) (- {unat c..<unat c + 8})"
    and "load32 (store32 (store32 m c v) (c + 4) x) c = v"
    and "load32 (store32 (store32 m c v) (c + 4) x) (c + 4) = x"
proof -
  have c4: "unat (c + 4) = unat c + 4"
    using assms by (simp add: unat_plus_small)
  show "same_on m (store32 (store32 m (c + 4) x) c v) (- {unat c..<unat c + 8})"
    "same_on m (store32 (store32 m c v) (c + 4) x) (- {unat c..<unat c + 8})"
    using assms c4 by (intro same_on_trans [OF same_on_store32 same_on_store32]; auto)+
  show "load32 (store32 (store32 m (c + 4) x) c v) c = v"
    "load32 (store32 (store32 m (c + 4) x) c v) (c + 4) = x"
    "load32 (store32 (store32 m c v) (c + 4) x) c = v"
    "load32 (store32 (store32 m c v) (c + 4) x) (c + 4) = x"
    using assms c4 by (simp_all add: load32_store32_other)
qed

text \<open>A block written, in either order of its two words, and linked in between its neighbours.\<close>

lemma block_linked:
  fixes s :: "'a heap_state_scheme"
  assumes l: "lseg (mem s) (free_block_head s) pre q" "lseg (mem s) nx post 0"
    and ap: "apart lo hi (pre @ (unat r, n) # post)" and hi: "hi < 4294967296" and r: "r \<noteq> 0" "unat v = n"
    and s1: "s1 = st32 r v (st32 (r + 4) nx s) \<or> s1 = st32 (r + 4) nx (st32 r v s)"
  defines "s2 \<equiv> link_to (last_addr pre) r s1"
  shows "free_list s2 (pre @ (unat r, n) # post) \<and> lseg (mem s2) (free_block_head s2) pre r \<and> lseg (mem s2) nx post 0 \<and>
    unat (ld32 r s2) = n \<and> ld32 (r + 4) s2 = nx \<and> same_on (mem s) (mem s2) (- (fbytes pre \<union> {unat r..<unat r + 8}))"
proof -
  have n: "8 \<le> n" "unat r + n \<le> hi" and around: "fbytes pre \<subseteq> - {unat r..<unat r + n}" "fbytes post \<subseteq> - {unat r..<unat r + n}"
    using ap apart_around [OF ap] by (auto simp: apart_append)
  have "unat r + 8 \<le> 4294967296" using n hi by auto
  note hs = header_stores [OF this, of "mem s" nx v] header_stores(4-) [OF this, of "mem s" v nx]
  have m1: "same_on (mem s) (mem s1) (- {unat r..<unat r + 8})" "ld32 r s1 = v" "ld32 (r + 4) s1 = nx"
    "free_block_head s1 = free_block_head s"
    using s1 hs by auto
  have "lseg (mem s1) (free_block_head s) pre q \<and> lseg (mem s1) nx post 0"
    using l ap around n hi
    by (auto intro!: lseg_same [OF _ same_on_mono [OF m1(1)], where lo = lo and hi = hi] simp: apart_append elim: apart_mono)
  then have "lseg (mem s1) (free_block_head s1) pre q" "lseg (mem s1) r ((unat r, n) # post) 0"
    using r m1 by simp_all
  from link_to_lseg [OF this(1) ap _ this(2), folded s2_def] hi
  have ln: "free_list s2 (pre @ (unat r, n) # post)" "same_on (mem s1) (mem s2) (- fbytes pre)" by simp_all
  obtain r' where r': "lseg (mem s2) (free_block_head s2) pre r'" "lseg (mem s2) r' ((unat r, n) # post) 0"
    using ln(1) by (auto simp: lseg_append)
  then have "r' = r" by (simp add: unat_eq_iff_u32)
  moreover have "ld32 (r + 4) s2 = nx"
  proof -
    have "unat (r + 4) = unat r + 4" using n hi by (simp add: unat_plus_small)
    then have "ld32 (r + 4) s2 = ld32 (r + 4) s1"
      using around(1) n hi by (intro load32_same [OF ln(2)]) fastforce+
    then show ?thesis by (simp add: m1(3))
  qed
  moreover have "same_on (mem s) (mem s2) (- (fbytes pre \<union> {unat r..<unat r + 8}))"
    by (rule same_on_trans [OF same_on_mono [OF m1(1)] same_on_mono [OF ln(2)]]) auto
  ultimately show ?thesis using r' ln(1) by simp
qed


section \<open>Cutting the allocation out of its block\<close>

text \<open>
  The setting of the two steps below: a block at \<open>c\<close> of \<open>n\<close> bytes, with \<open>pre\<close> before and
  \<open>post\<close> behind it, and the payload \<open>p\<close> of \<open>sz\<close> bytes inside it.
\<close>

definition cut_setting ::
  "'a heap_state_scheme \<Rightarrow> nat \<Rightarrow> nat \<Rightarrow> block list \<Rightarrow> u32 \<Rightarrow> nat \<Rightarrow> block list \<Rightarrow> u32 \<Rightarrow> u32 \<Rightarrow> bool" where
  "cut_setting s lo hi pre c n post p sz \<longleftrightarrow>
     free_wf lo hi (pre @ (unat c, n) # post) \<and> hi < 4294967296 \<and> c \<noteq> 0 \<and>
     unat c + 8 \<le> unat p \<and> unat p + unat sz \<le> unat c + n \<and> sz \<noteq> 0"

lemma cut_arith:
  assumes "cut_setting s lo hi pre c n post p sz"
  shows "unat (p - 8) = unat p - 8" and "unat (p - 8 + 4) = unat p - 4"
    and "unat (p + sz) = unat p + unat sz" and "unat (c + 4) = unat c + 4"
    and "unat (p - c - 8) = slack_before (unat c) (unat p)"
    and "unat (sz + 8) = unat sz + 8" and "0 < unat sz" and "unat c + n \<le> hi" and "8 \<le> n"
    and "p - 8 + (sz + 8) = p + sz"
proof -
  have b: "unat c + n \<le> hi" "8 \<le> n"
    using assms by (auto simp: cut_setting_def free_wf_append)
  then show "unat c + n \<le> hi" "8 \<le> n" by simp_all
  note s = assms [unfolded cut_setting_def]
  show 1: "unat (p - 8) = unat p - 8"
    using s by (simp add: unat_diff_u32)
  then show "unat (p - 8 + 4) = unat p - 4"
    using s b by (subst unat_add_u32) auto
  show "unat (p + sz) = unat p + unat sz" "unat (c + 4) = unat c + 4" "unat (sz + 8) = unat sz + 8"
    using s b by (simp_all add: unat_add_u32)
  have pc: "unat (p - c) = unat p - unat c"
    using s by (simp add: unat_diff_u32)
  then show "unat (p - c - 8) = slack_before (unat c) (unat p)"
    using s by (subst unat_diff_u32) (auto simp: pc slack_before_def)
  show "0 < unat sz"
    using s by (simp add: unat_gt_0)
  show "p - 8 + (sz + 8) = p + sz" by simp
qed

lemma carve_after_correct:
  fixes s :: "'a heap_state_scheme"
  assumes l: "free_list s (pre @ (unat c, n) # post)"
    and cs: "cut_setting s lo hi pre c n post p sz"
    and res: "carve_after sz p (last_addr pre) c s = (hs, s')"
  defines "fa \<equiv> slack_after (unat c) n (unat p) (unat sz)"
  defines "aft \<equiv> (if 8 \<le> fa then [(unat p + unat sz, fa)] else [])"
  shows "free_list s' (pre @ aft @ post)"
    and "same_on (mem s) (mem s') (- (fbytes pre \<union> {unat p + unat sz..<unat c + n}))"
    and "unat hs = unat sz + 8 + (if 8 \<le> fa then 0 else fa)"
proof -
  note ar = cut_arith [OF cs]
  note cs' = cs [unfolded cut_setting_def]
  have hi: "hi < 4294967296" using cs' by simp
  from l obtain r where r: "lseg (mem s) (free_block_head s) pre c"
      "unat (ld32 c s) = n" "lseg (mem s) (ld32 (c + 4) s) post 0"
    by (auto simp: lseg_append unat_eq_iff_u32 [symmetric])
  have fa: "unat (ld32 c s - (p + sz - c)) = fa"
  proof -
    have "unat (p + sz - c) = unat p + unat sz - unat c"
      using cs' ar(3) by (subst unat_diff_u32) auto
    then show ?thesis
      using cs' r(2) by (subst unat_diff_u32) (auto simp: fa_def slack_after_def)
  qed
  have ge: "ld32 c s - (p + sz - c) \<ge> 8 \<longleftrightarrow> 8 \<le> fa"
    by (simp add: word_le_nat_alt fa)
  have "free_wf (unat c) (unat c + n) aft"
    using cs' by (auto simp: aft_def fa_def slack_after_def)
  then have ap: "apart lo hi (pre @ aft @ post)"
    using cs' by (intro free_wf_apart free_wf_replace) auto
  have "free_list s' (pre @ aft @ post) \<and>
    same_on (mem s) (mem s') (- (fbytes pre \<union> {unat p + unat sz..<unat c + n})) \<and>
    unat hs = unat sz + 8 + (if 8 \<le> fa then 0 else fa)"
  proof (cases "8 \<le> fa")
    case True
    let ?nb = "p + sz" and ?v = "ld32 c s - (p + sz - c)"
    have nb: "?nb \<noteq> 0" using cs' ar(3,7) by (auto simp: word_unat_eq_iff)
    have ap: "apart lo hi (pre @ (unat ?nb, fa) # post)" using ap True by (simp add: aft_def ar(3))
    note ln = block_linked [OF r(1,3) ap hi nb fa disjI2 [OF refl]]
    have out: "s' = link_to (last_addr pre) ?nb (st32 (?nb + 4) (ld32 (c + 4) s) (st32 ?nb ?v s))" "hs = sz + 8"
      using res True ge by (simp_all add: carve_after_def Let_def cut_arith(10) [OF cs] add.commute [of 4])
    have "same_on (mem s) (mem s') (- (fbytes pre \<union> {unat p + unat sz..<unat c + n}))"
      using ln True by (auto simp: out ar(3) fa_def slack_after_def elim!: same_on_mono)
    then show ?thesis
      using ln ar(3,6) True by (simp add: out aft_def)
  next
    case False
    then have out: "s' = link_to (last_addr pre) (ld32 (c + 4) s) s"
        "hs = sz + 8 + (ld32 c s - (p + sz - c))"
      using res ge by (simp_all add: carve_after_def Let_def)
    have "unat hs = unat sz + 8 + fa"
      unfolding out using fa ar(6,8) cs' False by (subst unat_add_u32) (auto simp: fa_def slack_after_def)
    moreover note link_to_lseg [of s pre c lo hi "aft @ post" "ld32 (c + 4) s", OF r(1) ap order_less_imp_le [OF hi]]
    ultimately show ?thesis
      using r(3) False unfolding out aft_def by (auto elim: same_on_mono)
  qed
  then show "free_list s' (pre @ aft @ post)"
    and "same_on (mem s) (mem s') (- (fbytes pre \<union> {unat p + unat sz..<unat c + n}))"
    and "unat hs = unat sz + 8 + (if 8 \<le> fa then 0 else fa)"
    by simp_all
qed


text \<open>The blocks around the new free block are not adjacent to it: nothing is coalesced.\<close>

lemma coalesce_nothing:
  fixes s :: "'a heap_state_scheme"
  assumes l: "free_list s (pre @ (unat c, n) # rest)" and wf: "free_wf lo hi (pre @ (unat c, n) # rest)"
    and hi: "hi < 4294967296"
  shows "coalesce_blocks (last_addr pre) c (Field (c + 4)) s = (last_addr pre, c, Field (c + 4), s)"
proof -
  from l obtain r where r: "lseg (mem s) (free_block_head s) pre c"
      "unat (ld32 c s) = n" "lseg (mem s) (ld32 (c + 4) s) rest 0"
    by (auto simp: lseg_append unat_eq_iff_u32 [symmetric])
  have no_prev: "\<not> can_merge (last_addr pre) c s" if "last_addr pre \<noteq> 0"
  proof (cases pre rule: rev_cases)
    case Nil
    with that show ?thesis by simp
  next
    case (snoc xs y)
    obtain a k where y: "y = (a, k)" by (cases y)
    have "unat (of_nat a :: u32) = a" "unat (ld32 (of_nat a) s) = k"
      using r(1) by (auto simp: snoc y lseg_append)
    moreover have lt: "a + k < unat c"
      using wf by (auto simp: snoc y free_wf_append)
    moreover have "a + k < 4294967296"
      by (rule less_trans [OF lt unat_u32_lt])
    ultimately show ?thesis
      by (auto simp: can_merge_def snoc y unat_eq_iff_u32 unat_add_u32)
  qed
  have no_next: "\<not> can_merge c (ld32 (c + 4) s) s" if "ld32 (c + 4) s \<noteq> 0"
  proof (cases rest)
    case Nil
    with that r(3) show ?thesis by simp
  next
    case (Cons y ys)
    obtain a k where y: "y = (a, k)" by (cases y)
    have "unat (ld32 (c + 4) s) = a"
      using r(3) by (auto simp: Cons y)
    moreover have "unat c + n < a"
      using wf by (auto simp: Cons y free_wf_append)
    moreover have "a < 4294967296"
      using unat_u32_lt [of "ld32 (c + 4) s"] calculation(1) by linarith
    ultimately show ?thesis
      using r(2) by (auto simp: can_merge_def unat_eq_iff_u32 unat_add_u32)
  qed
  show ?thesis
    using no_prev no_next by (auto simp: coalesce_blocks_def Let_def)
qed

lemma carve_before_correct:
  fixes s :: "'a heap_state_scheme"
  assumes l: "free_list s (pre @ rest)" and cs: "cut_setting s0 lo hi pre c n post p sz"
    and out: "(fbytes pre \<union> fbytes rest) \<inter> {unat c..<unat p} = {}"
  defines "fb \<equiv> slack_before (unat c) (unat p)"
  defines "bef \<equiv> (if 8 \<le> fb then [(unat c, fb)] else [])"
  assumes wf: "free_wf lo hi (pre @ bef @ rest)"
  defines "s' \<equiv> carve_before p (last_addr pre) c s"
  shows "free_list s' (pre @ bef @ rest)"
    and "same_on (mem s) (mem s') (- (fbytes pre \<union> {unat c..<unat p}))"
    and "unat (ld32 (p - 8 + 4) s') = (if 8 \<le> fb then 0 else fb)"
proof -
  note ar = cut_arith [OF cs]
  note cs' = cs [unfolded cut_setting_def]
  have hi: "hi \<le> 4294967296" using cs' by simp
  have ap: "apart lo hi (pre @ bef @ rest)"
    using wf by (rule free_wf_apart)
  have ph: "unat (p - 8 + 4) + 4 = unat p" "unat p \<le> hi" "unat c + 8 \<le> unat p"
    using cs' ar by auto
  have outD: "x < unat c \<or> unat p \<le> x" if "x \<in> fbytes pre \<union> fbytes rest" for x
    using out that by fastforce
  have fb: "p - c - 8 \<ge> 8 \<longleftrightarrow> 8 \<le> fb"
    by (simp add: word_le_nat_alt ar(5) fb_def)
  have "free_list s' (pre @ bef @ rest) \<and>
    same_on (mem s) (mem s') (- (fbytes pre \<union> {unat c..<unat p})) \<and>
    unat (ld32 (p - 8 + 4) s') = (if 8 \<le> fb then 0 else fb)"
  proof (cases "8 \<le> fb")
    case True
    define s1 where "s1 = st32 c (p - c - 8) s"
    define s3 where "s3 = link_to (last_addr pre) c (st32 (c + 4) (link_from (last_addr pre) s1) s1)"
    have apr: "apart lo hi (pre @ rest)" "apart lo hi rest" "apart lo hi (pre @ (unat c, fb) # rest)"
      using ap True by (auto simp: apart_append bef_def elim: apart_mono)
    have f1: "same_on (mem s) (mem s1) (- {unat c..<unat c + 8})"
      unfolding s1_def using ar hi by (auto intro!: same_on_store32)
    have sub: "fbytes (pre @ rest) \<subseteq> - {unat c..<unat c + 8}"
      using out ph by auto
    have "free_list s1 (pre @ rest)"
      using lseg_same [OF l same_on_mono [OF f1 sub] apr(1) hi] by (simp add: s1_def)
    then have "lseg (mem s1) (link_from (last_addr pre) s1) rest 0"
      by (rule link_from_lseg)
    then have lf: "lseg (mem s) (link_from (last_addr pre) s1) rest 0"
      by (rule lseg_same [OF _ same_on_mono [OF same_on_sym [OF f1]] apr(2) hi]) (use sub in simp)
    obtain q where q: "lseg (mem s) (free_block_head s) pre q"
      using l by (auto simp: lseg_append)
    have "unat (p - c - 8) = fb" "c \<noteq> 0" "hi < 4294967296" using ar(5) cs' by (simp_all add: fb_def)
    note ln = block_linked [OF q lf apr(3) this(3,2,1) disjI2 [OF refl], folded s1_def, folded s3_def]
    have l3: "free_list s3 (pre @ bef @ rest)" using ln True by (simp add: bef_def)
    have "coalesce_blocks (last_addr pre) c (Field (c + 4)) s3 = (last_addr pre, c, Field (c + 4), s3)"
      using l3 wf cs' True by (intro coalesce_nothing) (auto simp: bef_def)
    then have s': "s' = st32 (p - 8 + 4) 0 s3"
      using True fb by (simp add: s'_def carve_before_def Let_def s1_def s3_def)
    have f4: "same_on (mem s3) (mem s') (- {unat p - 4..<unat p})"
      unfolding s' using ph ar hi by (auto intro!: same_on_store32)
    have "fbytes (pre @ bef @ rest) \<subseteq> - {unat p - 4..<unat p}"
      using outD True ph by (fastforce simp: bef_def fb_def slack_before_def)
    from lseg_same [OF l3 same_on_mono [OF f4 this] ap hi]
    have "free_list s' (pre @ bef @ rest)" by (simp add: s')
    moreover have "same_on (mem s) (mem s') (- (fbytes pre \<union> {unat c..<unat p}))"
      by (rule same_on_trans [OF same_on_mono same_on_mono [OF f4]]) (use ln ph in auto)
    ultimately show ?thesis
      using True by (simp add: s')
  next
    case False
    then have s': "s' = st32 (p - 8 + 4) (p - c - 8) s"
      using fb by (simp add: s'_def carve_before_def Let_def)
    have f: "same_on (mem s) (mem s') (- {unat p - 4..<unat p})"
      unfolding s' using ph ar hi by (auto intro!: same_on_store32)
    have "fbytes (pre @ rest) \<subseteq> - {unat p - 4..<unat p}"
      using outD ph by fastforce
    from lseg_same [OF l same_on_mono [OF f this] _ hi, of lo] ap False
    have "free_list s' (pre @ bef @ rest)" by (simp add: s' bef_def)
    moreover have "same_on (mem s) (mem s') (- (fbytes pre \<union> {unat c..<unat p}))"
      using ph by (intro same_on_mono [OF f]) auto
    ultimately show ?thesis
      using False by (simp add: s' ar(5) fb_def)
  qed
  then show "free_list s' (pre @ bef @ rest)"
    and "same_on (mem s) (mem s') (- (fbytes pre \<union> {unat c..<unat p}))"
    and "unat (ld32 (p - 8 + 4) s') = (if 8 \<le> fb then 0 else fb)"
    by simp_all
qed


section \<open>Allocation\<close>

text \<open>The operations change memory and the head of the free list, nothing else.\<close>

definition only_heap :: "'a heap_state_scheme \<Rightarrow> 'a heap_state_scheme \<Rightarrow> bool" where
  "only_heap s s' \<longleftrightarrow> io_log s' = io_log s \<and> heap_state.more s' = heap_state.more s"

lemma more_heap_st [simp]:
  "heap_state.more (st8 p b s) = heap_state.more s"
  "heap_state.more (st16 p w s) = heap_state.more s"
  "heap_state.more (st32 p v s) = heap_state.more s"
  by (simp_all add: st8_def st16_def st32_def)

lemma link_to_frame [simp]:
  "io_log (link_to prev x s) = io_log s" "heap_state.more (link_to prev x s) = heap_state.more s"
  by (simp_all add: link_to_def)

lemma coalesce_frame:
  "coalesce_blocks a b r s = (a', b', r', s') \<Longrightarrow> only_heap s s'"
  by (cases r) (auto simp: coalesce_blocks_def Let_def only_heap_def split: if_splits)

lemma carve_after_frame: "carve_after sz p prev c s = (hs, s') \<Longrightarrow> only_heap s s'"
  by (auto simp: carve_after_def Let_def only_heap_def split: if_splits)

lemma carve_before_frame: "only_heap s (carve_before p prev c s)"
  by (auto simp: carve_before_def Let_def only_heap_def split: prod.splits dest!: coalesce_frame)

text \<open>The state of the heap: the free list in memory is the well-formed list \<open>bs\<close>.\<close>

definition heap_ok :: "nat \<Rightarrow> nat \<Rightarrow> 'a heap_state_scheme \<Rightarrow> block list \<Rightarrow> bool" where
  "heap_ok lo hi s bs \<longleftrightarrow>
     free_list s bs \<and> free_wf lo hi bs \<and> 16 \<le> lo \<and> hi < 4294967296"

lemma memalloc_aligned_fails:
  assumes "heap_ok lo hi s bs" and "sz \<noteq> 0"
    and "alloc_spec (start_at align) (unat sz) bs = None"
  shows "memalloc_aligned sz align s = Some (0, s)"
proof (cases "align = 0")
  case False
  obtain prev' where "find_fit sz align 0 (free_block_head s) s = Some (prev', 0)"
    using find_fit_none [of s "free_block_head s" bs lo hi sz align 0] assms
    by (auto simp: heap_ok_def alloc_spec_None_iff free_wf_apart)
  with False assms(2) show ?thesis
    by (simp add: memalloc_aligned_def)
qed (simp add: memalloc_aligned_def)

text \<open>The header in front of a payload says which range of bytes the allocation owns.\<close>

definition header_of :: "'a heap_state_scheme \<Rightarrow> u32 \<Rightarrow> nat \<Rightarrow> nat \<Rightarrow> bool" where
  "header_of s p a e \<longleftrightarrow>
     unat (ld32 (p - 8) s) + (unat p - 8) = e \<and> unat (ld32 (p - 8 + 4) s) + a = unat p - 8"

text \<open>Both steps together: what is left of the block is in the list, and the header says what is not.\<close>

lemma carved:
  fixes s :: "'a heap_state_scheme"
  assumes l: "free_list s (pre @ (unat c, n) # post)" and cs: "cut_setting s lo hi pre c n post p sz"
    and s1: "carve_after sz p (last_addr pre) c s = (hs, s1)"
    and wf: "free_wf lo hi (pre @ carve (unat c) n (unat p) (unat sz) @ post)"
  defines "s2 \<equiv> carve_before p (last_addr pre) c s1" and "g \<equiv> granted (unat c) n (unat p) (unat sz)"
  shows "free_list s2 (pre @ carve (unat c) n (unat p) (unat sz) @ post)"
    and "same_on (mem s) (mem s2) (- (fbytes pre \<union> {unat c..<unat c + n}))"
    and "unat hs + (unat p - 8) = g_end g" and "unat (ld32 (p - 8 + 4) s2) + g_start g = unat p - 8"
    and "{unat p - 8..<unat p} \<subseteq> g_bytes g"
proof -
  note ar = cut_arith [OF cs]
  have fit: "unat c + 8 \<le> unat p" "unat p + unat sz \<le> unat c + n" and h: "free_wf lo hi (pre @ (unat c, n) # post)"
    using cs by (simp_all add: cut_setting_def)
  define fa where "fa = slack_after (unat c) n (unat p) (unat sz)"
  define fb where "fb = slack_before (unat c) (unat p)"
  define aft where "aft = (if 8 \<le> fa then [(unat p + unat sz, fa)] else [])"
  define bef where "bef = (if 8 \<le> fb then [(unat c, fb)] else [])"
  have carve: "carve (unat c) n (unat p) (unat sz) = bef @ aft"
    by (simp add: carve_def bef_def aft_def fa_def fb_def)
  have wf': "free_wf lo hi (pre @ bef @ aft @ post)" using wf by (simp add: carve)
  note ca = carve_after_correct [OF l cs s1, folded fa_def, folded aft_def]
  have "x < unat c \<or> unat c + n \<le> x" if "x \<in> fbytes pre \<union> fbytes post" for x
    using that apart_around [OF free_wf_apart [OF h]] by fastforce
  then have "x \<notin> {unat c..<unat p}" if "x \<in> fbytes pre \<union> fbytes (aft @ post)" for x
    using that fit ar(7) by (fastforce simp: aft_def split: if_splits)
  then have "(fbytes pre \<union> fbytes (aft @ post)) \<inter> {unat c..<unat p} = {}"
    by blast
  note cb = carve_before_correct [OF ca(1) cs this, folded fb_def, folded bef_def, OF wf', folded s2_def]
  show "free_list s2 (pre @ carve (unat c) n (unat p) (unat sz) @ post)" using cb(1) by (simp add: carve)
  show "same_on (mem s) (mem s2) (- (fbytes pre \<union> {unat c..<unat c + n}))"
    by (rule same_on_trans [OF same_on_mono [OF ca(2)] same_on_mono [OF cb(2)]]) (use fit in auto)
  have g: "g_start g = (if 8 \<le> fb then unat p - 8 else unat c)"
      "g_end g = (if 8 \<le> fa then unat p + unat sz else unat c + n)"
    by (simp_all add: g_def granted_def fa_def fb_def)
  show "unat hs + (unat p - 8) = g_end g" "unat (ld32 (p - 8 + 4) s2) + g_start g = unat p - 8"
    using ca(3) cb(3) fit by (auto simp: g fa_def fb_def slack_before_def slack_after_def)
  show "{unat p - 8..<unat p} \<subseteq> g_bytes g"
    using fit by (auto simp: g_bytes_def g fa_def fb_def slack_before_def slack_after_def)
qed

lemma memalloc_aligned_grants:
  assumes ok: "heap_ok lo hi s bs" and sz: "sz \<noteq> 0" and al: "align \<noteq> 0"
    and spec: "alloc_spec (start_at align) (unat sz) bs = Some (g, bs')"
  obtains p s' where "memalloc_aligned sz align s = Some (p, s')" and "unat p = g_ptr g" and "p \<noteq> 0"
    and "heap_ok lo hi s' bs'" and "header_of s' p (g_start g) (g_end g)"
    and "same_on (mem s) (mem s') (- fbytes bs)" and "only_heap s s'"
proof -
  from spec obtain pre a n post where sp: "bs = pre @ (a, n) # post"
      "\<forall>b \<in> set pre. \<not> fits (start_at align) (unat sz) b" "fits (start_at align) (unat sz) (a, n)"
      "g = granted a n (start_at align a) (unat sz)"
      "bs' = pre @ carve a n (start_at align a) (unat sz) @ post"
    by (rule alloc_spec_SomeE)
  have h: "free_list s bs" "free_wf lo hi bs" "16 \<le> lo" "hi < 4294967296"
    using ok by (auto simp: heap_ok_def)
  define c where "c = (of_nat a :: u32)"
  define p where "p = aligned_mem_start c align"
  have c: "c \<noteq> 0" "unat c = a"
    using lseg_snoc_addr [of "mem s" "free_block_head s" pre a n post 0] h(1) by (auto simp: sp(1) c_def)
  have p: "unat p = start_at align a"
    by (simp add: p_def c_def start_at_def)
  note fit = fits_bounds [OF sp(3), folded p c(2)]
  have szn: "0 < unat sz" using sz by (simp add: unat_gt_0)
  have cs: "cut_setting s lo hi pre c n post p sz"
    using h fit sz c by (auto simp: cut_setting_def sp(1))
  note ar = cut_arith [OF cs]
  have find: "find_fit sz align 0 (free_block_head s) s = Some (last_addr pre, c)"
    using find_fit_some [of s "free_block_head s" pre a n post lo hi sz align 0] h sp(1-3) sz
    by (auto simp: free_wf_apart c_def)
  obtain hs s1 where s1: "carve_after sz p (last_addr pre) c s = (hs, s1)"
    by fastforce
  define s2 where "s2 = carve_before p (last_addr pre) c s1"
  define s3 where "s3 = st32 (p - 8) hs s2"
  have p0: "p \<noteq> 0" using fit by auto
  have run: "memalloc_aligned sz align s = Some (p, s3)"
    using sz al c(1) p0
    by (simp add: memalloc_aligned_def find s1 s2_def s3_def flip: p_def)
  have wf': "free_wf lo hi bs'" using alloc_spec_wf(1) [OF spec h(2) szn] .
  have bytes: "fbytes bs' = fbytes bs - g_bytes g"
    using alloc_spec_wf(2) [OF spec h(2) szn] .
  note k = carved [OF h(1) [unfolded sp(1) c(2) [symmetric]] cs s1, folded s2_def, unfolded c(2) p, folded sp(4,5), OF wf']
  have hdr: "unat (p - 8) = unat p - 8" "unat (p - 8) + 8 = unat p" "unat p \<le> hi" "unat (p - 8 + 4) = unat p - 4"
    using ar fit by auto
  have f3: "same_on (mem s2) (mem s3) (- {unat p - 8..<unat p - 4})"
    unfolding s3_def using hdr h(4) by (auto intro!: same_on_store32)
  have "fbytes bs' \<subseteq> - {unat p - 8..<unat p - 4}"
    using k(5) bytes by (auto simp: subset_iff p)
  then have l3: "free_list s3 bs'"
    using lseg_same [OF k(1) same_on_mono [OF f3] free_wf_apart [OF wf']] h(4)
    by (simp add: s3_def)
  show thesis
  proof (rule that [OF run])
    show "unat p = g_ptr g" by (simp add: sp(4) granted_def p)
    show "p \<noteq> 0" by (fact p0)
    show "heap_ok lo hi s3 bs'"
      using l3 h wf' by (simp add: heap_ok_def)
    have "ld32 (p - 8 + 4) s3 = ld32 (p - 8 + 4) s2" "ld32 (p - 8) s3 = hs"
      using hdr h(4) by (simp_all add: s3_def load32_store32_other)
    then show "header_of s3 p (g_start g) (g_end g)"
      using k(3,4) by (simp add: header_of_def p)
    show "same_on (mem s) (mem s3) (- fbytes bs)"
      by (rule same_on_trans [OF same_on_mono [OF k(2)] same_on_mono [OF f3]]) (use fit in \<open>auto simp: sp(1) c\<close>)
    show "only_heap s s3"
      using carve_after_frame [OF s1] carve_before_frame [of s1 p "last_addr pre" c]
      by (simp add: only_heap_def s3_def s2_def)
  qed
qed


section \<open>Release\<close>

lemma find_place_run:
  assumes "lseg (mem s) cur (pre @ post) 0"
    and "\<And>b m. (b, m) \<in> set pre \<Longrightarrow> b < unat ptr" and "\<And>b m. (b, m) \<in> set post \<Longrightarrow> unat ptr \<le> b"
  shows "\<exists>q. find_place ptr prev cur s = Some (if pre = [] then prev else last_addr pre, q) \<and>
    lseg (mem s) cur pre q \<and> lseg (mem s) q post 0"
  using assms
proof (induction pre arbitrary: cur prev)
  case Nil
  have "\<not> (cur \<noteq> 0 \<and> cur < ptr)"
  proof (cases post)
    case (Cons y ys)
    then show ?thesis
      using Nil.prems(1) Nil.prems(3) [of "fst y" "snd y"]
      by (cases y) (auto simp: word_less_nat_alt)
  qed (use Nil.prems in simp)
  then have "find_place ptr prev cur s = Some (prev, cur)"
    by (subst find_place.simps) auto
  with Nil.prems(1) show ?case by simp
next
  case (Cons b pre)
  obtain e k where b: "b = (e, k)" by (cases b)
  have c: "cur \<noteq> 0" "unat cur = e" "unat (ld32 cur s) = k"
      "lseg (mem s) (ld32 (cur + 4) s) (pre @ post) 0" "e < unat ptr"
    using Cons.prems by (auto simp: b)
  have "\<exists>q. find_place ptr cur (ld32 (cur + 4) s) s = Some (if pre = [] then cur else last_addr pre, q) \<and>
      lseg (mem s) (ld32 (cur + 4) s) pre q \<and> lseg (mem s) q post 0"
    using Cons.prems c by (intro Cons.IH) (auto simp: b)
  moreover have "cur < ptr" using c by (simp add: word_less_nat_alt)
  moreover have "cur = of_nat e" using c(2) by auto
  ultimately show ?case
    using c by (subst find_place.simps) (auto simp: b last_addr_def)
qed

lemma can_merge_iff:
  assumes "unat (ld32 a s) = n" and "unat a + n < 4294967296"
  shows "can_merge a b s \<longleftrightarrow> unat a + n = unat b"
  using assms by (simp add: can_merge_def unat_eq_iff_u32 unat_add_u32)

text \<open>The blocks in front of and behind a released one.\<close>

lemma block_before:
  assumes "lseg m p (xs @ [(a, k)]) r" and "apart lo hi ((xs @ [(a, k)]) @ (unat r, n) # post)"
  defines "c \<equiv> last_addr (xs @ [(a, k)])"
  shows "c \<noteq> 0 \<and> unat c = a \<and> unat (load32 m c) = k \<and> lseg m p xs c \<and> a + k \<le> unat r \<and> 8 \<le> k \<and> unat (c + 4) = a + 4"
proof -
  have "unat (of_nat a :: u32) = a" "a + k \<le> unat r" "8 \<le> k"
    using assms(1,2) by (auto simp: lseg_append apart_append)
  moreover from this have "a + 4 < 4294967296"
    using unat_u32_lt [of r] by linarith
  ultimately show ?thesis
    using assms(1) by (auto simp: c_def lseg_append unat_add_u32)
qed

lemma block_behind:
  assumes "lseg m q ((e, j) # ps) 0" and "apart lo hi (pre @ (r, n) # (e, j) # ps)"
  shows "q \<noteq> 0 \<and> unat q = e \<and> unat (load32 m q) = j \<and> lseg m (load32 m (q + 4)) ps 0 \<and> r + n \<le> e \<and> e + j \<le> hi \<and> 8 \<le> j"
  using assms by (auto simp: apart_append)

lemma merges_before:
  assumes "lseg (mem s) p pre r" and "apart lo hi (pre @ (unat r, n) # post)" and "hi < 4294967296"
  shows "(if last_addr pre \<noteq> 0 then can_merge (last_addr pre) r s else False) \<longleftrightarrow>
    pre \<noteq> [] \<and> fst (last pre) + snd (last pre) = unat r"
proof (cases pre rule: rev_cases)
  case (snoc xs y)
  obtain a k where y: "y = (a, k)" by fastforce
  note P = block_before [OF assms(1,2) [unfolded snoc y]]
  then have "can_merge (last_addr pre) r s \<longleftrightarrow> a + k = unat r"
    using can_merge_iff [where a = "last_addr pre" and s = s and n = k and b = r] unat_u32_lt [of r] by (simp add: snoc y)
  then show ?thesis using P by (simp add: snoc y)
qed simp

lemma merges_behind:
  assumes "lseg (mem s) q post 0" and "apart lo hi (pre @ (unat r, n) # post)" and "hi < 4294967296" and "unat (ld32 r s) = n"
  shows "(if q \<noteq> 0 then can_merge r q s else False) \<longleftrightarrow> post \<noteq> [] \<and> unat r + n = fst (hd post)"
proof (cases post)
  case (Cons y ps)
  obtain e j where y: "y = (e, j)" by fastforce
  note S = block_behind [OF assms(1,2) [unfolded Cons y]]
  then have "can_merge r q s \<longleftrightarrow> unat r + n = e"
    using can_merge_iff [OF assms(4)] assms(3) by simp
  then show ?thesis using S by (simp add: Cons y)
qed (use assms(1) in simp)

text \<open>A header written in front of the rest of the list, in either order of the two words.\<close>

lemma header_written:
  assumes l: "lseg m p xs c" "c \<noteq> 0" "lseg m q ps 0" and ap: "apart lo hi (xs @ (unat c, k) # ps)"
    and hi: "hi < 4294967296" and v: "unat v = k"
    and m': "m' = store32 (store32 m (c + 4) q) c v \<or> m' = store32 (store32 m c v) (c + 4) q"
  shows "lseg m' p (xs @ (unat c, k) # ps) 0 \<and> same_on m m' (- {unat c..<unat c + 8})"
proof -
  have "unat c + k \<le> hi" "8 \<le> k" using ap by (auto simp: apart_append)
  then have "unat c + 8 \<le> 4294967296" using hi by simp
  note hs = header_stores [OF this]
  have m: "same_on m m' (- {unat c..<unat c + 8})" "load32 m' c = v" "load32 m' (c + 4) = q"
    using m' hs by auto
  moreover have "lseg m' p (xs @ (unat c, k) # ps) 0"
    by (rule lseg_update [OF l(1,2) ap]) (use m v l(3) hi in auto)
  ultimately show ?thesis by simp
qed

text \<open>Coalescing after the released block has been linked in: with both neighbours, with the one in
  front, with the one behind.\<close>

lemma coalesce_both:
  fixes s :: "'a heap_state_scheme"
  assumes l: "lseg (mem s) (free_block_head s) (xs @ [(a, k)]) r" "unat (ld32 r s) = n" "lseg (mem s) q ((e, j) # ps) 0"
    and ap: "apart lo hi ((xs @ [(a, k)]) @ (unat r, n) # (e, j) # ps)" and hi: "hi < 4294967296"
    and touch: "a + k = unat r" "unat r + n = e"
    and run: "coalesce_blocks (last_addr (xs @ [(a, k)])) r (Local q) s = (x, y, z, s')"
  shows "free_list s' (xs @ (a, k + n + j) # ps) \<and> same_on (mem s) (mem s') (- {a..<a + 8})"
proof -
  let ?c = "last_addr (xs @ [(a, k)])"
  note P = block_before [OF l(1) ap] and S = block_behind [OF l(3) ap]
  have rn: "8 \<le> n" using ap by (auto simp: apart_append)
  define m1 where "m1 = store32 (mem s) (?c + 4) (ld32 (q + 4) s)"
  have ld: "load32 m1 ?c = ld32 ?c s" "load32 m1 r = ld32 r s" "load32 m1 q = ld32 q s"
    unfolding m1_def using P S touch hi rn by (auto simp: load32_store32_other)
  define v where "v = ld32 ?c s + (ld32 r s + ld32 q s)"
  have out: "mem s' = store32 m1 ?c v" "free_block_head s' = free_block_head s"
    using run [unfolded coalesce_blocks_def Let_def deref.simps merges_before [OF l(1) ap hi] merges_behind [OF l(3) ap hi l(2)]]
      touch ld by (auto simp: m1_def v_def)
  have v: "unat v = k + n + j"
    using P S l(2) touch hi by (simp add: v_def unat_add_u32)
  have "apart lo hi ((xs @ [(a, k)]) @ (a + k, n) # (a + k + n, j) # ps)"
    using ap touch by simp
  from apart_merge [OF this] have "apart lo hi (xs @ (a, k) # (a + k, n + j) # ps)" by simp
  from apart_merge [OF this] have "apart lo hi (xs @ (unat ?c, k + n + j) # ps)" using P by (simp add: add.assoc)
  from header_written [OF _ _ _ this hi v, of "mem s" "free_block_head s" "ld32 (q + 4) s" "mem s'"]
  show ?thesis using P S out by (simp add: m1_def)
qed

lemma coalesce_before:
  fixes s :: "'a heap_state_scheme"
  assumes l: "lseg (mem s) (free_block_head s) (xs @ [(a, k)]) r" "unat (ld32 r s) = n" "lseg (mem s) q post 0"
    and ap: "apart lo hi ((xs @ [(a, k)]) @ (unat r, n) # post)" and hi: "hi < 4294967296"
    and touch: "a + k = unat r" "\<not> (post \<noteq> [] \<and> unat r + n = fst (hd post))"
    and run: "coalesce_blocks (last_addr (xs @ [(a, k)])) r (Local q) s = (x, y, z, s')"
  shows "free_list s' (xs @ (a, k + n) # post) \<and> same_on (mem s) (mem s') (- {a..<a + 8})"
proof -
  let ?c = "last_addr (xs @ [(a, k)])"
  note P = block_before [OF l(1) ap]
  have rn: "unat r + n \<le> hi" using ap by (auto simp: apart_append)
  define v where "v = ld32 ?c s + ld32 r s"
  have out: "mem s' = store32 (store32 (mem s) ?c v) (?c + 4) q" "free_block_head s' = free_block_head s"
    using run [unfolded coalesce_blocks_def Let_def deref.simps merges_before [OF l(1) ap hi] merges_behind [OF l(3) ap hi l(2)]]
      touch by (auto simp: v_def)
  have v: "unat v = k + n"
    using P l(2) touch rn hi by (simp add: v_def unat_add_u32)
  have "apart lo hi (xs @ (unat ?c, k + n) # post)"
    using apart_merge [of lo hi xs a k n post] ap P touch by simp
  from header_written [OF _ _ l(3) this hi v, of "free_block_head s" "mem s'"]
  show ?thesis using P out by simp
qed

lemma coalesce_behind:
  fixes s :: "'a heap_state_scheme"
  assumes l: "lseg (mem s) (free_block_head s) pre r" "r \<noteq> 0" "unat (ld32 r s) = n" "ld32 (r + 4) s = q"
      "lseg (mem s) q ((e, j) # ps) 0"
    and ap: "apart lo hi (pre @ (unat r, n) # (e, j) # ps)" and hi: "hi < 4294967296"
    and touch: "\<not> (pre \<noteq> [] \<and> fst (last pre) + snd (last pre) = unat r)" "unat r + n = e"
    and run: "coalesce_blocks (last_addr pre) r (Local q) s = (x, y, z, s')"
  shows "free_list s' (pre @ (unat r, n + j) # ps) \<and> same_on (mem s) (mem s') (- {unat r..<unat r + 8})"
proof -
  note S = block_behind [OF l(5) ap]
  have rn: "8 \<le> n" "unat r + n \<le> hi" using ap by (auto simp: apart_append)
  then have r4: "unat (r + 4) = unat r + 4" using hi by (simp add: unat_plus_small)
  define m1 where "m1 = store32 (mem s) (r + 4) (ld32 (q + 4) s)"
  have ld: "load32 m1 r = ld32 r s" "load32 m1 q = ld32 q s"
    unfolding m1_def using S touch hi rn r4 by (auto simp: load32_store32_other)
  define v where "v = ld32 r s + ld32 q s"
  have out: "mem s' = store32 m1 r v" "free_block_head s' = free_block_head s"
    using run [unfolded coalesce_blocks_def Let_def deref.simps merges_before [OF l(1) ap hi] merges_behind [OF l(5) ap hi l(3)]]
      touch ld by (auto simp: m1_def v_def)
  have v: "unat v = n + j"
    using S l(3) touch hi by (simp add: v_def unat_add_u32)
  have "apart lo hi (pre @ (unat r, n + j) # ps)"
    using apart_merge [of lo hi pre "unat r" n j ps] ap touch by simp
  from header_written [OF l(1,2) _ this hi v, of "ld32 (q + 4) s" "mem s'"]
  show ?thesis using S out by (simp add: m1_def)
qed

lemma coalesce_release:
  fixes s :: "'a heap_state_scheme"
  assumes l: "lseg (mem s) (free_block_head s) pre r" "r \<noteq> 0" "unat (ld32 r s) = n" "ld32 (r + 4) s = q"
      "lseg (mem s) q post 0"
    and ap: "apart lo hi (pre @ (unat r, n) # post)" and hi: "hi < 4294967296"
    and run: "coalesce_blocks (last_addr pre) r (Local q) s = (x, y, z, s')"
  defines "res \<equiv> (if pre \<noteq> [] \<and> fst (last pre) + snd (last pre) = unat r
     then butlast pre @ join (fst (last pre), snd (last pre) + n) post
     else pre @ join (unat r, n) post)"
  shows "free_list s' res" and "same_on (mem s) (mem s') (- (fbytes pre \<union> {unat r..<unat r + n}))"
proof -
  have rn: "8 \<le> n" using ap by (auto simp: apart_append)
  define mp where "mp \<longleftrightarrow> pre \<noteq> [] \<and> fst (last pre) + snd (last pre) = unat r"
  define mn where "mn \<longleftrightarrow> post \<noteq> [] \<and> unat r + n = fst (hd post)"
  consider (both) xs a k e j ps where "mp" "mn" "pre = xs @ [(a, k)]" "post = (e, j) # ps"
    | (prev_only) xs a k where "mp" "\<not> mn" "pre = xs @ [(a, k)]"
    | (next_only) e j ps where "\<not> mp" "mn" "post = (e, j) # ps" | (none) "\<not> mp" "\<not> mn"
    unfolding mp_def mn_def by (metis list.exhaust rev_exhaust surj_pair)
  then have "free_list s' res \<and> same_on (mem s) (mem s') (- (fbytes pre \<union> {unat r..<unat r + n}))"
  proof cases
    case both
    then have touch: "a + k = unat r" "unat r + n = e" by (auto simp: mp_def mn_def)
    have "8 \<le> k" using ap by (auto simp: both apart_append)
    then show ?thesis
      using coalesce_both [OF l(1,3,5) [unfolded both(3,4)] ap [unfolded both(3,4)] hi touch run [unfolded both(3)]] touch
      by (auto simp: res_def both(3,4) add.assoc elim: same_on_mono)
  next
    case prev_only
    then have touch: "a + k = unat r" "\<not> (post \<noteq> [] \<and> unat r + n = fst (hd post))" by (auto simp: mp_def mn_def)
    have "8 \<le> k" using ap by (auto simp: prev_only apart_append)
    moreover have "join (a, k + n) post = (a, k + n) # post" using touch by (cases post) auto
    ultimately show ?thesis
      using coalesce_before [OF l(1,3,5) [unfolded prev_only(3)] ap [unfolded prev_only(3)] hi touch run [unfolded prev_only(3)]] touch(1)
      by (auto simp: res_def prev_only(3) elim: same_on_mono)
  next
    case next_only
    then have touch: "\<not> (pre \<noteq> [] \<and> fst (last pre) + snd (last pre) = unat r)" "unat r + n = e" by (auto simp: mp_def mn_def)
    then show ?thesis
      using coalesce_behind [OF l(1-4) l(5) [unfolded next_only(3)] ap [unfolded next_only(3)] hi touch run] rn
      by (auto simp: res_def next_only(3) elim: same_on_mono)
  next
    case none
    then have "s' = s"
      using run [unfolded coalesce_blocks_def Let_def deref.simps merges_before [OF l(1) ap hi] merges_behind [OF l(5) ap hi l(3)]]
      by (auto simp: mp_def mn_def)
    moreover have "res = pre @ (unat r, n) # post"
      using none by (cases post) (auto simp: res_def mp_def mn_def)
    ultimately show ?thesis
      using l by (auto simp: lseg_append)
  qed
  then show "free_list s' res" "same_on (mem s) (mem s') (- (fbytes pre \<union> {unat r..<unat r + n}))"
    by simp_all
qed


lemma release_split:
  assumes wf: "free_wf lo hi bs" and rng: "a + 8 \<le> p" "p \<le> e" and out: "{a..<e} \<inter> fbytes bs = {}"
  obtains pre post where "bs = pre @ post"
    and "\<And>b m. (b, m) \<in> set pre \<Longrightarrow> b < p" and "\<And>b m. (b, m) \<in> set post \<Longrightarrow> p \<le> b"
    and "\<And>b m. (b, m) \<in> set pre \<Longrightarrow> b + m \<le> a" and "\<And>b m. (b, m) \<in> set post \<Longrightarrow> e \<le> b"
proof -
  obtain pre post where split: "bs = pre @ post" and lt: "\<And>b m. (b, m) \<in> set pre \<Longrightarrow> b < p"
      and gt: "\<And>b m. (b, m) \<in> set post \<Longrightarrow> p \<le> b"
    using free_wf_cut [OF wf, of p] by blast
  have start_out: "b \<notin> {a..<e}" if "(b, m) \<in> set bs" for b m
    using out fbytes_mem [OF that] free_wf_mem [OF wf that] by fastforce
  have "b + m \<le> a" if "(b, m) \<in> set pre" for b m
  proof (rule ccontr)
    assume "\<not> b + m \<le> a"
    moreover have "b < a"
      using start_out [of b m] lt [OF that] that rng(2) by (auto simp: split)
    moreover have "{b..<b + m} \<subseteq> fbytes bs"
      using that by (intro fbytes_mem) (simp add: split)
    moreover have "a \<in> {a..<e}" using rng by simp
    ultimately show False using out by fastforce
  qed
  moreover have "e \<le> b" if "(b, m) \<in> set post" for b m
    using start_out [of b m] gt [OF that] that rng by (auto simp: split)
  ultimately show thesis using split lt gt by (intro that [of pre post])
qed

text \<open>What the header of a granted block says of the block to release.\<close>

lemma release_extent:
  assumes "header_of s p a e" and "a + 8 \<le> unat p" and "unat p \<le> e" and "e < 4294967296"
  shows "unat (p - 8 - ld32 (p - 8 + 4) s) = a" and "unat (ld32 (p - 8) s + ld32 (p - 8 + 4) s) = e - a"
proof -
  have p8: "unat (p - 8) = unat p - 8"
    using assms by (simp add: unat_diff_u32)
  have h: "unat (ld32 (p - 8) s) + (unat p - 8) = e" "unat (ld32 (p - 8 + 4) s) + a = unat p - 8"
    using assms(1) by (simp_all add: header_of_def)
  show "unat (p - 8 - ld32 (p - 8 + 4) s) = a"
    using h p8 by (subst unat_diff_u32) auto
  show "unat (ld32 (p - 8) s + ld32 (p - 8 + 4) s) = e - a"
    using h assms by (subst unat_add_u32) auto
qed

lemma memfree_releases:
  assumes ok: "heap_ok lo hi s bs" and hdr: "header_of s p a e"
    and rng: "a + 8 \<le> unat p" "unat p \<le> e" "lo \<le> a" "e \<le> hi"
    and out: "{a..<e} \<inter> fbytes bs = {}"
  obtains s' where "memfree p s = Some s'" and "heap_ok lo hi s' (free_spec a (e - a) bs)"
    and "same_on (mem s) (mem s') (- (fbytes bs \<union> {a..<e}))" and "only_heap s s'"
proof -
  have h: "free_list s bs" "free_wf lo hi bs" "16 \<le> lo" "hi < 4294967296"
    using ok by (auto simp: heap_ok_def)
  define n where "n = e - a"
  have n: "8 \<le> n" "a + n = e" using rng by (auto simp: n_def)
  obtain pre post where split: "bs = pre @ post"
      and lt: "\<And>b m. (b, m) \<in> set pre \<Longrightarrow> b < unat p" and gt: "\<And>b m. (b, m) \<in> set post \<Longrightarrow> unat p \<le> b"
      and pre_lt: "\<And>b m. (b, m) \<in> set pre \<Longrightarrow> b + m \<le> a" and post_gt: "\<And>b m. (b, m) \<in> set post \<Longrightarrow> e \<le> b"
    using release_split [OF h(2) rng(1,2) out] by blast
  obtain q where q: "find_place p 0 (free_block_head s) s = Some (last_addr pre, q)"
      "lseg (mem s) (free_block_head s) pre q" "lseg (mem s) q post 0"
    using find_place_run [of s "free_block_head s" pre post p 0] h(1) lt gt by (auto simp: split)
  define r where "r = p - 8 - ld32 (p - 8 + 4) s"
  define v where "v = ld32 (p - 8) s + ld32 (p - 8 + 4) s"
  note ext = release_extent [OF hdr rng(1,2) order_le_less_trans [OF rng(4) h(4)], folded r_def v_def n_def]
  have r0: "r \<noteq> 0" using ext(1) rng h(3) by auto
  have "apart lo hi pre" "apart lo hi post"
    using free_wf_apart [OF h(2)] by (simp_all add: split apart_append)
  moreover have "apart (a + n) hi post"
    using apart_raise [OF calculation(2)] post_gt n by auto
  ultimately have ap: "apart lo hi (pre @ (unat r, n) # post)"
    using n rng pre_lt post_gt by (fastforce simp: apart_append ext(1))
  define s2 where "s2 = link_to (last_addr pre) r (st32 r v (st32 (r + 4) q s))"
  note ln = block_linked [OF q(2,3) ap h(4) r0 ext(2) disjI1 [OF refl], folded s2_def]
  obtain x y z s3 where co: "coalesce_blocks (last_addr pre) r (Local q) s2 = (x, y, z, s3)"
    by (cases "coalesce_blocks (last_addr pre) r (Local q) s2")
  have l2: "lseg (mem s2) (free_block_head s2) pre r" "lseg (mem s2) q post 0" "unat (ld32 r s2) = n" "ld32 (r + 4) s2 = q"
    using ln by simp_all
  note cr = coalesce_release [OF l2(1) r0 l2(3,4,2) ap h(4) co]
  have "free_spec a n bs =
      (if pre \<noteq> [] \<and> fst (last pre) + snd (last pre) = unat r
       then butlast pre @ join (fst (last pre), snd (last pre) + n) post
       else pre @ join (unat r, n) post)"
    unfolding split ext(1)
    by (rule free_spec_cut [OF h(2) [unfolded split]]) (use pre_lt post_gt n free_wf_mem [OF h(2)] in \<open>fastforce simp: split\<close>)+
  with cr have fin: "free_list s3 (free_spec a n bs)" "same_on (mem s2) (mem s3) (- (fbytes pre \<union> {unat r..<unat r + n}))"
    by simp_all
  show thesis
  proof (rule that)
    show "memfree p s = Some s3"
      using rng q(1) co by (auto simp: memfree_def Let_def s2_def r_def v_def)
    have "free_wf lo hi (free_spec a n bs)"
      using h(2) rng n out by (intro free_spec_wf) auto
    with fin(1) h show "heap_ok lo hi s3 (free_spec a (e - a) bs)"
      by (simp add: heap_ok_def n_def)
    have "same_on (mem s) (mem s3) (- (fbytes pre \<union> {unat r..<unat r + n}))"
      by (rule same_on_trans [OF same_on_mono fin(2)]) (use ln n in auto)
    then show "same_on (mem s) (mem s3) (- (fbytes bs \<union> {a..<e}))"
      by (rule same_on_mono) (auto simp: split ext(1) n)
    show "only_heap s s3"
      using coalesce_frame [OF co] by (simp add: only_heap_def s2_def)
  qed
qed

end
