(* ===== verification/HeapInterface.thy ===== *)
theory HeapInterface
  imports Prelude
begin

text \<open>
  The interface of the heap as its clients (the PCI and UHCI drivers) see it: two operations
  and an invariant over a ghost map of live allocations. The laws are discharged for
  \<open>memalloc_aligned\<close> and \<open>memfree\<close> in \<open>HeapClient\<close>.
\<close>

text \<open>A live allocation: the payload pointer, and the range of bytes it owns.\<close>

type_synonym live = "u32 \<rightharpoonup> nat \<times> nat"

definition owned :: "live \<Rightarrow> nat set" where
  "owned L = (\<Union>(a, e) \<in> ran L. {a..<e})"

lemma owned_iff: "x \<in> owned L \<longleftrightarrow> (\<exists>p a e. L p = Some (a, e) \<and> a \<le> x \<and> x < e)"
  by (auto simp: owned_def ran_def)

lemma ownedI: "L p = Some (a, e) \<Longrightarrow> a \<le> x \<Longrightarrow> x < e \<Longrightarrow> x \<in> owned L"
  by (auto simp: owned_iff)

lemma owned_empty [simp]: "owned Map.empty = {}"
  by (simp add: owned_def)

lemma owned_insert: "L p = None \<Longrightarrow> owned (L(p \<mapsto> (a, e))) = owned L \<union> {a..<e}"
  by (auto simp: owned_def)

text \<open>Several allocations in a row, as the drivers do them.\<close>

fun alloc_all ::
  "(u32 \<Rightarrow> u32 \<Rightarrow> 'h \<Rightarrow> (u32 \<times> 'h) option) \<Rightarrow> (u32 \<times> u32) list \<Rightarrow> 'h \<Rightarrow> (u32 list \<times> 'h) option" where
  "alloc_all alloc [] h = Some ([], h)"
| "alloc_all alloc ((sz, al) # rs) h =
     do { (p, h) \<leftarrow> alloc sz al h; (ps, h) \<leftarrow> alloc_all alloc rs h; Some (p # ps, h) }"

text \<open>The bytes that the caller of an allocation asked for.\<close>

definition block_of :: "u32 \<Rightarrow> u32 \<Rightarrow> nat set" where
  "block_of p sz = {unat p..<unat p + unat sz}"

fun blocks_apart :: "u32 list \<Rightarrow> (u32 \<times> u32) list \<Rightarrow> bool" where
  "blocks_apart (p # ps) ((sz, al) # rs) \<longleftrightarrow>
     (\<forall>(q, r) \<in> set (zip ps rs). block_of p sz \<inter> block_of q (fst r) = {}) \<and> blocks_apart ps rs"
| "blocks_apart _ _ \<longleftrightarrow> True"

locale heap_provider =
  fixes inv :: "'h \<Rightarrow> live \<Rightarrow> bool"
    and alloc :: "u32 \<Rightarrow> u32 \<Rightarrow> 'h \<Rightarrow> (u32 \<times> 'h) option"
    and release :: "u32 \<Rightarrow> 'h \<Rightarrow> 'h option"
  assumes alloc_returns: "inv h L \<Longrightarrow> \<exists>p h'. alloc sz al h = Some (p, h')"
    and alloc_null: "inv h L \<Longrightarrow> alloc sz al h = Some (0, h') \<Longrightarrow> h' = h"
    and alloc_grant: "inv h L \<Longrightarrow> alloc sz al h = Some (p, h') \<Longrightarrow> p \<noteq> 0 \<Longrightarrow>
      L p = None \<and> (\<exists>a e. block_of p sz \<subseteq> {a..<e} \<and> {a..<e} \<inter> owned L = {} \<and> inv h' (L(p \<mapsto> (a, e))))"
    and release_live: "inv h L \<Longrightarrow> L p = Some r \<Longrightarrow> \<exists>h'. release p h = Some h' \<and> inv h' (L(p := None))"
begin

lemma alloc_keeps:
  assumes "inv h L" and "alloc sz al h = Some (p, h')"
  obtains L' where "inv h' L'" and "L \<subseteq>\<^sub>m L'" and "p = 0 \<and> L' = L \<or> p \<noteq> 0 \<and> block_of p sz \<subseteq> owned L' \<and> block_of p sz \<inter> owned L = {}"
proof (cases "p = 0")
  case True
  then have "h' = h" using assms by (auto intro: alloc_null)
  then show thesis using that [of L] assms(1) True by simp
next
  case False
  from alloc_grant [OF assms False] obtain a e where
    g: "L p = None" "block_of p sz \<subseteq> {a..<e}" "{a..<e} \<inter> owned L = {}" "inv h' (L(p \<mapsto> (a, e)))"
    by blast
  have "block_of p sz \<subseteq> owned (L(p \<mapsto> (a, e)))" "block_of p sz \<inter> owned L = {}"
    using g by (auto simp: owned_insert)
  moreover have "L \<subseteq>\<^sub>m L(p \<mapsto> (a, e))"
    using g(1) by (auto simp: map_le_def)
  ultimately show thesis
    using that [OF g(4)] False by simp
qed

lemma owned_mono: "L \<subseteq>\<^sub>m L' \<Longrightarrow> owned L \<subseteq> owned L'"
  by (force simp: owned_iff map_le_def dom_def)

text \<open>Allocations in a row always return, and the granted blocks never overlap.\<close>

lemma alloc_all_apart:
  assumes "inv h L"
  shows "\<exists>ps h' L'. alloc_all alloc rs h = Some (ps, h') \<and> inv h' L' \<and> L \<subseteq>\<^sub>m L' \<and> length ps = length rs \<and>
    (0 \<notin> set ps \<longrightarrow> blocks_apart ps rs \<and>
      (\<forall>(q, r) \<in> set (zip ps rs). block_of q (fst r) \<inter> owned L = {}))"
  using assms
proof (induction rs arbitrary: h L)
  case Nil
  then show ?case by auto
next
  case (Cons r rs)
  obtain sz al where r: "r = (sz, al)" by (cases r)
  obtain p h1 where a: "alloc sz al h = Some (p, h1)"
    using alloc_returns [OF Cons.prems] by blast
  obtain L1 where L1: "inv h1 L1" "L \<subseteq>\<^sub>m L1"
    "p = 0 \<and> L1 = L \<or> p \<noteq> 0 \<and> block_of p sz \<subseteq> owned L1 \<and> block_of p sz \<inter> owned L = {}"
    by (rule alloc_keeps [OF Cons.prems a])
  from Cons.IH [OF L1(1)] obtain ps h2 L2 where
    t: "alloc_all alloc rs h1 = Some (ps, h2)" "inv h2 L2" "L1 \<subseteq>\<^sub>m L2" "length ps = length rs"
      "0 \<notin> set ps \<Longrightarrow> blocks_apart ps rs"
      "0 \<notin> set ps \<Longrightarrow> \<forall>(q, r) \<in> set (zip ps rs). block_of q (fst r) \<inter> owned L1 = {}"
    by auto
  have run: "alloc_all alloc (r # rs) h = Some (p # ps, h2)"
    by (simp add: r a t(1))
  have "blocks_apart (p # ps) (r # rs) \<and>
      (\<forall>(q, r') \<in> set (zip (p # ps) (r # rs)). block_of q (fst r') \<inter> owned L = {})"
    if nz: "0 \<notin> set (p # ps)"
  proof -
    have tail: "block_of q (fst r') \<inter> owned L1 = {}" if "(q, r') \<in> set (zip ps rs)" for q r'
      using that nz t(6) by auto
    have hd: "block_of p sz \<subseteq> owned L1" "block_of p sz \<inter> owned L = {}"
      using nz L1(3) by auto
    have "block_of p sz \<inter> block_of q (fst r') = {}" "block_of q (fst r') \<inter> owned L = {}"
      if "(q, r') \<in> set (zip ps rs)" for q r'
      using tail [OF that] hd(1) owned_mono [OF L1(2)] by blast+
    then have "\<forall>(q, r') \<in> set (zip ps rs). block_of p sz \<inter> block_of q (fst r') = {}"
      "\<forall>(q, r') \<in> set (zip ps rs). block_of q (fst r') \<inter> owned L = {}"
      by blast+
    with hd(2) nz t(5) show ?thesis
      by (simp add: r)
  qed
  with run t(2,4) map_le_trans [OF L1(2) t(3)] show ?case
    by (intro exI [of _ "p # ps"] exI [of _ h2] exI [of _ L2]) (simp del: zip.simps blocks_apart.simps)
qed

lemma alloc_release:
  assumes "inv h L" and "alloc sz al h = Some (p, h')" and "p \<noteq> 0"
  shows "\<exists>h''. release p h' = Some h'' \<and> inv h'' L"
proof -
  from alloc_grant [OF assms] obtain a e where "L p = None" "inv h' (L(p \<mapsto> (a, e)))"
    by blast
  from release_live [OF this(2), of p "(a, e)"] this(1) show ?thesis
    by (auto simp: map_upd_triv fun_upd_idem)
qed

end

end
