(* ===== verification/HeapClient.thy ===== *)
theory HeapClient
  imports AllocatorProof HeapInterface
begin

text \<open>
  The contract between the heap and its clients: which ranges of bytes the live
  allocations own, the invariant that ties this ghost map to memory, and the history of a
  client that allocates, releases and writes into what it owns.
\<close>

text \<open>The bytes clients may write: from the payload pointer to the end of the range.\<close>

definition payload :: "live \<Rightarrow> nat set" where
  "payload L = {x. \<exists>p a e. L p = Some (a, e) \<and> unat p \<le> x \<and> x < e}"

definition live_ok :: "'a heap_state_scheme \<Rightarrow> block list \<Rightarrow> live \<Rightarrow> bool" where
  "live_ok s bs L \<longleftrightarrow>
     (\<forall>p a e. L p = Some (a, e) \<longrightarrow>
        a + 8 \<le> unat p \<and> unat p < e \<and> header_of s p a e \<and> {a..<e} \<inter> fbytes bs = {}) \<and>
     (\<forall>p q a e b f. L p = Some (a, e) \<longrightarrow> L q = Some (b, f) \<longrightarrow> p \<noteq> q \<longrightarrow> {a..<e} \<inter> {b..<f} = {})"

text \<open>Every byte of the heap is free or owned by exactly one live allocation.\<close>

definition heap_inv :: "nat \<Rightarrow> nat \<Rightarrow> 'a heap_state_scheme \<Rightarrow> live \<Rightarrow> bool" where
  "heap_inv lo hi s L \<longleftrightarrow>
     (\<exists>bs. heap_ok lo hi s bs \<and> live_ok s bs L \<and> fbytes bs \<union> owned L = {lo..<hi})"

lemma heap_invE:
  assumes "heap_inv lo hi s L"
  obtains bs where "heap_ok lo hi s bs" and "live_ok s bs L" and "fbytes bs \<union> owned L = {lo..<hi}"
  using assms by (auto simp: heap_inv_def)

lemma live_okD:
  assumes "live_ok s bs L" and "L p = Some (a, e)"
  shows "a + 8 \<le> unat p" "unat p < e" "header_of s p a e" "{a..<e} \<inter> fbytes bs = {}"
  using assms by (auto simp: live_ok_def)

lemma live_ok_disjoint:
  "live_ok s bs L \<Longrightarrow> L p = Some (a, e) \<Longrightarrow> L q = Some (b, f) \<Longrightarrow> p \<noteq> q \<Longrightarrow> {a..<e} \<inter> {b..<f} = {}"
  unfolding live_ok_def by blast

lemma heap_inv_range:
  assumes "heap_inv lo hi s L" and "L p = Some (a, e)"
  shows "lo \<le> a" "e \<le> hi" "a + 8 \<le> unat p" "unat p < e"
proof -
  from assms(1) obtain bs where bs: "live_ok s bs L" "fbytes bs \<union> owned L = {lo..<hi}"
    by (rule heap_invE)
  note d = live_okD [OF bs(1) assms(2)]
  then show "a + 8 \<le> unat p" "unat p < e" by simp_all
  have "a \<in> owned L" "e - 1 \<in> owned L"
    using d ownedI [of L p a e] assms(2) by auto
  then have "a \<in> {lo..<hi}" "e - 1 \<in> {lo..<hi}"
    using bs(2) by blast+
  then show "lo \<le> a" "e \<le> hi" using d by auto
qed

text \<open>A header is determined by the 8 bytes before the payload.\<close>

lemma header_of_same:
  assumes "header_of s p a e" and "same_on (mem s) (mem s') S" and "{unat p - 8..<unat p} \<subseteq> S"
    and "8 \<le> unat p"
  shows "header_of s' p a e"
proof -
  have p8: "unat (p - 8) = unat p - 8"
    using assms(4) by (simp add: unat_diff_u32)
  have lt: "unat p - 4 < 4294967296"
    using unat_u32_lt [of p] by linarith
  then have p4: "unat (p - 8 + 4) = unat p - 4"
    using assms(4) p8 by (subst unat_add_u32) auto
  have "ld32 (p - 8) s' = ld32 (p - 8) s"
    by (rule load32_same [OF assms(2)]) (use assms(3,4) p8 lt in \<open>auto simp: subset_iff\<close>)
  moreover have "ld32 (p - 8 + 4) s' = ld32 (p - 8 + 4) s"
    by (rule load32_same [OF assms(2)]) (use assms(3,4) p4 lt in \<open>auto simp: subset_iff\<close>)
  ultimately show ?thesis
    using assms(1) by (simp add: header_of_def)
qed

lemma live_ok_same:
  assumes "live_ok s bs L" and "same_on (mem s) (mem s') S"
    and "\<And>p a e. L p = Some (a, e) \<Longrightarrow> {unat p - 8..<unat p} \<subseteq> S"
    and "\<And>p a e. L p = Some (a, e) \<Longrightarrow> {a..<e} \<inter> fbytes bs' = {}"
  shows "live_ok s' bs' L"
  unfolding live_ok_def
proof (intro conjI allI impI)
  fix p a e assume "L p = Some (a, e)"
  note d = live_okD [OF assms(1) this] and s = assms(3,4) [OF this]
  then show "a + 8 \<le> unat p" "unat p < e" "{a..<e} \<inter> fbytes bs' = {}" by simp_all
  show "header_of s' p a e"
    using header_of_same [OF d(3) assms(2) s(1)] d(1) by simp
next
  fix p q a e b f assume "L p = Some (a, e)" "L q = Some (b, f)" "p \<noteq> q"
  then show "{a..<e} \<inter> {b..<f} = {}"
    by (rule live_ok_disjoint [OF assms(1)])
qed

lemma live_ok_insert:
  assumes ok: "live_ok s bs L" and new: "a + 8 \<le> unat p" "unat p < e" "header_of s p a e"
    "{a..<e} \<inter> fbytes bs = {}" "{a..<e} \<inter> owned L = {}"
  shows "live_ok s bs (L(p \<mapsto> (a, e)))"
proof -
  have sub: "{b..<f} \<subseteq> owned L" if "L q = Some (b, f)" for q b f
    using that by (auto intro: ownedI)
  have away: "{a..<e} \<inter> {b..<f} = {}" "{b..<f} \<inter> {a..<e} = {}" if "L q = Some (b, f)" for q b f
    using sub [OF that] new(5) by blast+
  have "{b..<f} \<inter> {b'..<f'} = {}"
    if q: "(L(p \<mapsto> (a, e))) q = Some (b, f)" and q': "(L(p \<mapsto> (a, e))) q' = Some (b', f')" and "q \<noteq> q'" for q q' b f b' f'
  proof -
    consider "q = p" "q' \<noteq> p" | "q \<noteq> p" "q' = p" | "q \<noteq> p" "q' \<noteq> p"
      using \<open>q \<noteq> q'\<close> by blast
    then show ?thesis
    proof cases
      case 1
      then have "b = a" "f = e" "L q' = Some (b', f')" using q q' by simp_all
      then show ?thesis using away(1) by simp
    next
      case 2
      then have "b' = a" "f' = e" "L q = Some (b, f)" using q q' by simp_all
      then show ?thesis using away(2) by simp
    next
      case 3
      then show ?thesis using q q' live_ok_disjoint [OF ok _ _ \<open>q \<noteq> q'\<close>] by simp
    qed
  qed
  moreover have "b + 8 \<le> unat q \<and> unat q < f \<and> header_of s q b f \<and> {b..<f} \<inter> fbytes bs = {}"
    if "(L(p \<mapsto> (a, e))) q = Some (b, f)" for q b f
    using that new live_okD [OF ok, of q b f] by (cases "q = p") simp_all
  ultimately show ?thesis
    unfolding live_ok_def by blast
qed


section \<open>The operations keep the invariant\<close>

lemma init_memory_ok:
  assumes "16 \<le> unat heap_start" and "unat heap_start + 8 \<le> unat heap_end"
  shows "heap_ok (unat heap_start) (unat heap_end) (init_memory heap_start heap_end s)
    [(unat heap_start, unat heap_end - unat heap_start)]"
proof -
  have "unat heap_start + 8 \<le> 4294967296"
    using assms unat_u32_lt [of heap_end] by linarith
  note hs = header_stores [OF this, where m = "mem s" and x = 0 and v = "heap_end - heap_start"]
  have "heap_start \<noteq> 0" using assms by auto
  then show ?thesis
    using hs assms by (simp add: heap_ok_def init_memory_def Let_def unat_diff_u32)
qed

lemma init_memory_inv:
  assumes "16 \<le> unat heap_start" and "unat heap_start + 8 \<le> unat heap_end"
  shows "heap_inv (unat heap_start) (unat heap_end) (init_memory heap_start heap_end s) Map.empty"
  unfolding heap_inv_def
  by (intro exI conjI, rule init_memory_ok [OF assms]) (use assms in \<open>auto simp: live_ok_def\<close>)

lemma alloc_outcome:
  assumes inv: "heap_inv lo hi s L"
  obtains (null) "memalloc_aligned sz align s = Some (0, s)"
    | (grant) p s' a e where "memalloc_aligned sz align s = Some (p, s')" and "p \<noteq> 0"
      and "a + 8 \<le> unat p" and "unat p + unat sz \<le> e" and "e < unat p + unat sz + 8"
      and "unat p < a + 16" and "0 < unat sz"
      and "{a..<e} \<inter> owned L = {}" and "L p = None"
      and "heap_inv lo hi s' (L(p \<mapsto> (a, e)))"
      and "same_on (mem s) (mem s') (owned L \<union> - {lo..<hi})" and "only_heap s s'"
      and "\<And>k. align = 2 ^ k \<Longrightarrow> unat align dvd unat p"
proof -
  from inv obtain bs where bs: "heap_ok lo hi s bs" "live_ok s bs L" "fbytes bs \<union> owned L = {lo..<hi}"
    by (rule heap_invE)
  have wf: "free_wf lo hi bs" using bs(1) by (simp add: heap_ok_def)
  show thesis
  proof (cases "sz = 0 \<or> align = 0 \<or> alloc_spec (start_at align) (unat sz) bs = None")
    case True
    have "memalloc_aligned sz align s = Some (0, s)"
    proof (cases "sz = 0 \<or> align = 0")
      case True
      then show ?thesis by (auto simp: memalloc_aligned_def)
    next
      case False
      with True show ?thesis by (intro memalloc_aligned_fails [OF bs(1)]) auto
    qed
    then show thesis by (rule null)
  next
    case False
    then obtain g bs' where spec: "alloc_spec (start_at align) (unat sz) bs = Some (g, bs')"
      by auto
    have szn: "0 < unat sz" using False by (simp add: unat_gt_0)
    from memalloc_aligned_grants [OF bs(1) _ _ spec] False
    obtain p s' where r: "memalloc_aligned sz align s = Some (p, s')" "unat p = g_ptr g" "p \<noteq> 0"
      "heap_ok lo hi s' bs'" "header_of s' p (g_start g) (g_end g)"
      "same_on (mem s) (mem s') (- fbytes bs)" "only_heap s s'" by blast
    note b = alloc_spec_bounds [OF spec] and w = alloc_spec_wf [OF spec wf szn]
    have range: "{g_start g..<g_end g} = g_bytes g" by (simp add: g_bytes_def)
    have owned_out: "owned L \<inter> fbytes bs = {}"
      using bs(2) by (fastforce simp: owned_iff live_ok_def)
    then have new: "{g_start g..<g_end g} \<inter> owned L = {}"
      using w(3) range by blast
    have fresh: "L p = None"
    proof (rule ccontr)
      assume "L p \<noteq> None"
      then obtain a e where "L p = Some (a, e)" by auto
      then have "unat p \<in> owned L" using live_okD [OF bs(2)] by (fastforce simp: owned_iff)
      moreover have "unat p \<in> {g_start g..<g_end g}" using b szn r(2) by auto
      ultimately show False using new by blast
    qed
    have dom_in: "{a..<e} \<subseteq> owned L" if "L q = Some (a, e)" for q a e
      using that by (auto intro: ownedI)
    have frame: "same_on (mem s) (mem s') (owned L \<union> - {lo..<hi})"
      by (rule same_on_mono [OF r(6)]) (use owned_out free_wf_bytes [OF wf] in blast)
    have "live_ok s' bs' L"
    proof (rule live_ok_same [OF bs(2) frame])
      fix q a e assume q: "L q = Some (a, e)"
      have "{unat q - 8..<unat q} \<subseteq> {a..<e}" using live_okD [OF bs(2) q] by auto
      then show "{unat q - 8..<unat q} \<subseteq> owned L \<union> - {lo..<hi}" using dom_in [OF q] by blast
      show "{a..<e} \<inter> fbytes bs' = {}" using live_okD(4) [OF bs(2) q] w(2) by blast
    qed
    then have lk: "live_ok s' bs' (L(p \<mapsto> (g_start g, g_end g)))"
      using b r(2,5) szn new w(2) range by (intro live_ok_insert) auto
    have "owned (L(p \<mapsto> (g_start g, g_end g))) = owned L \<union> g_bytes g"
      using fresh by (auto simp: owned_def range [symmetric])
    then have "fbytes bs' \<union> owned (L(p \<mapsto> (g_start g, g_end g))) = {lo..<hi}"
      using bs(3) w(2,3) by blast
    with r(4) lk have inv': "heap_inv lo hi s' (L(p \<mapsto> (g_start g, g_end g)))"
      by (auto simp: heap_inv_def)
    have al: "unat align dvd unat p" if k: "align = 2 ^ k" for k
    proof -
      from b(5) obtain a n where "g_ptr g = start_at align a" by blast
      then show ?thesis
        using align_ptr_dvd [OF k] by (simp add: r(2) start_at_def aligned_mem_start_def)
    qed
    show thesis
      by (rule grant [OF r(1,3) _ _ _ _ szn new fresh inv' frame r(7) al]) (use b r(2) in auto)
  qed
qed

text \<open>What an allocation that was not refused has given.\<close>

lemma granted:
  assumes inv: "heap_inv lo hi s L" and A: "memalloc_aligned sz align s = Some (p, s1)" and p: "p \<noteq> 0"
  obtains a e where "L p = None" and "a + 8 \<le> unat p" and "unat p + unat sz \<le> e" and "{a..<e} \<inter> owned L = {}"
    and "lo \<le> a" and "e \<le> hi" and "hi < 4294967296" and "heap_inv lo hi s1 (L(p \<mapsto> (a, e)))"
    and "same_on (mem s) (mem s1) (owned L \<union> - {lo..<hi})" and "only_heap s s1"
    and "\<forall>k. align = 2 ^ k \<longrightarrow> unat align dvd unat p"
proof -
  have "\<exists>a e. L p = None \<and> a + 8 \<le> unat p \<and> unat p + unat sz \<le> e \<and> {a..<e} \<inter> owned L = {} \<and>
      heap_inv lo hi s1 (L(p \<mapsto> (a, e))) \<and> same_on (mem s) (mem s1) (owned L \<union> - {lo..<hi}) \<and> only_heap s s1 \<and>
      (\<forall>k. align = 2 ^ k \<longrightarrow> unat align dvd unat p)"
    by (rule alloc_outcome [OF inv, of sz align]; insert A p) (simp, metis option.inject prod.inject)
  then obtain a e where ae: "L p = None" "a + 8 \<le> unat p" "unat p + unat sz \<le> e" "{a..<e} \<inter> owned L = {}"
    "heap_inv lo hi s1 (L(p \<mapsto> (a, e)))" "same_on (mem s) (mem s1) (owned L \<union> - {lo..<hi})" "only_heap s s1"
    "\<forall>k. align = 2 ^ k \<longrightarrow> unat align dvd unat p" by blast
  have "lo \<le> a" "e \<le> hi" "hi < 4294967296"
    using heap_inv_range [OF ae(5), of p a e] ae(5) by (auto simp: heap_inv_def heap_ok_def)
  with ae show thesis by (intro that) assumption+
qed

lemma alloc_known:
  assumes inv: "heap_inv lo hi s L" and al: "memalloc sz s = Some (p, s')" and p: "p \<noteq> 0"
  obtains a e where "a + 8 \<le> unat p" and "unat p + unat sz \<le> e" and "{a..<e} \<inter> owned L = {}" and "L p = None"
    and "heap_inv lo hi s' (L(p \<mapsto> (a, e)))" and "same_on (mem s) (mem s') (owned L \<union> - {lo..<hi})" and "only_heap s s'"
    and "{a..<e} \<subseteq> {lo..<hi}"
proof -
  from granted [OF inv al [unfolded memalloc_def] p] obtain a e where
    G: "L p = None" "a + 8 \<le> unat p" "unat p + unat sz \<le> e" "{a..<e} \<inter> owned L = {}" "lo \<le> a" "e \<le> hi"
    "heap_inv lo hi s' (L(p \<mapsto> (a, e)))" "same_on (mem s) (mem s') (owned L \<union> - {lo..<hi})" "only_heap s s'"
    by metis
  show thesis by (rule that [OF G(2,3,4,1,7,8,9)]) (use G(5,6) in auto)
qed

lemma release_outcome:
  assumes inv: "heap_inv lo hi s L" and p: "L p = Some (a, e)"
  obtains s' where "memfree p s = Some s'" and "heap_inv lo hi s' (L(p := None))"
    and "same_on (mem s) (mem s') (owned (L(p := None)) \<union> - {lo..<hi})" and "only_heap s s'"
proof -
  from inv obtain bs where bs: "heap_ok lo hi s bs" "live_ok s bs L" "fbytes bs \<union> owned L = {lo..<hi}"
    by (rule heap_invE)
  have wf: "free_wf lo hi bs" using bs(1) by (simp add: heap_ok_def)
  note d = live_okD [OF bs(2) p] and rg = heap_inv_range [OF inv p]
  from memfree_releases [OF bs(1) d(3) rg(3) _ rg(1,2) d(4)] rg(4)
  obtain s' where r: "memfree p s = Some s'" "heap_ok lo hi s' (free_spec a (e - a) bs)"
    "same_on (mem s) (mem s') (- (fbytes bs \<union> {a..<e}))" "only_heap s s'"
    by auto
  have bytes: "fbytes (free_spec a (e - a) bs) = {a..<e} \<union> fbytes bs"
    using free_spec_bytes [OF wf, of a "e - a"] rg by simp
  have rest: "owned (L(p := None)) \<inter> (fbytes bs \<union> {a..<e}) = {}"
  proof -
    have "x \<notin> fbytes bs \<union> {a..<e}" if "L q = Some (b, f)" "q \<noteq> p" "b \<le> x" "x < f" for x q b f
    proof -
      have "x \<in> {b..<f}" using that(3,4) by simp
      then show ?thesis
        using live_okD(4) [OF bs(2) that(1)] live_ok_disjoint [OF bs(2) that(1) p that(2)] by blast
    qed
    then show ?thesis
      by (force simp: owned_iff split: if_splits)
  qed
  have frame: "same_on (mem s) (mem s') (owned (L(p := None)) \<union> - {lo..<hi})"
    by (rule same_on_mono [OF r(3)]) (use rest free_wf_bytes [OF wf] rg in auto)
  have lk0: "live_ok s bs (L(p := None))"
    using bs(2) by (auto simp: live_ok_def split: if_splits)
  have "live_ok s' (free_spec a (e - a) bs) (L(p := None))"
  proof (rule live_ok_same [OF lk0 frame])
    fix q b f assume q: "(L(p := None)) q = Some (b, f)"
    have own: "{b..<f} \<subseteq> owned (L(p := None))"
      using q by (auto intro: ownedI)
    moreover have "{unat q - 8..<unat q} \<subseteq> {b..<f}" using live_okD [OF lk0 q] by auto
    ultimately show "{unat q - 8..<unat q} \<subseteq> owned (L(p := None)) \<union> - {lo..<hi}" by blast
    show "{b..<f} \<inter> fbytes (free_spec a (e - a) bs) = {}" using own rest bytes by blast
  qed
  moreover have "owned L = owned (L(p := None)) \<union> {a..<e}"
  proof (intro set_eqI iffI)
    fix x assume "x \<in> owned L"
    then obtain q b f where q: "L q = Some (b, f)" "b \<le> x" "x < f" by (auto simp: owned_iff)
    show "x \<in> owned (L(p := None)) \<union> {a..<e}"
      using q p ownedI [of "L(p := None)" q b f x] by (cases "q = p") auto
  next
    fix x assume x: "x \<in> owned (L(p := None)) \<union> {a..<e}"
    show "x \<in> owned L"
    proof (cases "x \<in> {a..<e}")
      case True
      then show ?thesis using ownedI [of L p a e] p by simp
    next
      case False
      with x obtain q b f where q: "(L(p := None)) q = Some (b, f)" "b \<le> x" "x < f"
        by (auto simp: owned_iff)
      then show ?thesis using ownedI [of L q b f] by (simp split: if_splits)
    qed
  qed
  then have "fbytes (free_spec a (e - a) bs) \<union> owned (L(p := None)) = {lo..<hi}"
    using bs(3) bytes by blast
  ultimately have "heap_inv lo hi s' (L(p := None))"
    using r(2) by (auto simp: heap_inv_def)
  then show thesis by (rule that [OF r(1) _ frame r(4)])
qed

text \<open>
  A client, or a device, may write to payloads of live allocations and to anything
  outside of the heap.
\<close>

lemma write_outcome:
  assumes inv: "heap_inv lo hi s L"
    and frame: "same_on (mem s) (mem s') ({lo..<hi} - payload L)" and hd: "free_block_head s' = free_block_head s"
  shows "heap_inv lo hi s' L"
proof -
  from inv obtain bs where bs: "heap_ok lo hi s bs" "live_ok s bs L" "fbytes bs \<union> owned L = {lo..<hi}"
    by (rule heap_invE)
  have h: "free_list s bs" "free_wf lo hi bs" "hi \<le> 4294967296"
    using bs(1) by (auto simp: heap_ok_def)
  have "payload L \<subseteq> owned L"
    using live_okD [OF bs(2)] by (fastforce simp: payload_def owned_iff)
  moreover have "owned L \<inter> fbytes bs = {}"
    using live_okD(4) [OF bs(2)] by (fastforce simp: owned_iff)
  ultimately have "fbytes bs \<subseteq> {lo..<hi} - payload L"
    using bs(3) by blast
  from lseg_same [OF h(1) same_on_mono [OF frame this] free_wf_apart [OF h(2)] h(3)]
  have "heap_ok lo hi s' bs"
    using bs(1) hd by (simp add: heap_ok_def)
  moreover have "live_ok s' bs L"
  proof (rule live_ok_same [OF bs(2) frame])
    fix p a e assume p: "L p = Some (a, e)"
    note d = live_okD [OF bs(2) p] and rg = heap_inv_range [OF inv p]
    show "{a..<e} \<inter> fbytes bs = {}" by (fact d(4))
    have "x \<notin> payload L" if "a \<le> x" "x < unat p" for x
    proof
      assume "x \<in> payload L"
      then obtain q b f where q: "L q = Some (b, f)" "unat q \<le> x" "x < f"
        by (auto simp: payload_def)
      have "q = p"
      proof (rule ccontr)
        assume "q \<noteq> p"
        from live_ok_disjoint [OF bs(2) q(1) p this] have "x \<notin> {b..<f} \<inter> {a..<e}" by blast
        then show False using q that d(2) live_okD(1) [OF bs(2) q(1)] by auto
      qed
      then show False using q(2) that by simp
    qed
    then show "{unat p - 8..<unat p} \<subseteq> {lo..<hi} - payload L"
      using rg by auto
  qed
  ultimately show ?thesis
    using bs(3) by (auto simp: heap_inv_def)
qed

text \<open>Such writes leave the free list as it is.\<close>

lemma lseg_unique: "lseg m p bs 0 \<Longrightarrow> lseg m p cs 0 \<Longrightarrow> bs = cs"
proof (induction m p bs "0 :: u32" arbitrary: cs rule: lseg.induct)
  case (1 m p)
  then show ?case by (cases cs) auto
next
  case (2 m p a n bs)
  then obtain c cs' where cs: "cs = c # cs'" by (cases cs) auto
  show ?case using 2 by (cases c) (auto simp: cs)
qed

lemma heap_ok_same:
  assumes ok: "heap_ok lo hi s bs" and f: "same_on (mem s) (mem s') (fbytes bs)" and hd: "free_block_head s' = free_block_head s"
  shows "heap_ok lo hi s' bs"
proof -
  have h: "free_list s bs" "free_wf lo hi bs" "hi \<le> 4294967296" using ok by (auto simp: heap_ok_def)
  from lseg_same [OF h(1) f free_wf_apart [OF h(2)] h(3)] show ?thesis
    using ok hd by (simp add: heap_ok_def)
qed

lemma write_keeps_free:
  assumes inv: "heap_inv lo hi s L" and frame: "same_on (mem s) (mem s') ({lo..<hi} - payload L)"
    and hd: "free_block_head s' = free_block_head s" and ok: "heap_ok lo hi s bs"
  shows "heap_ok lo hi s' bs"
proof -
  from inv obtain cs where cs: "heap_ok lo hi s cs" "live_ok s cs L" by (rule heap_invE)
  have eq: "bs = cs" using lseg_unique ok cs(1) unfolding heap_ok_def by blast
  have "fbytes bs \<inter> owned L = {}" using live_okD(4) [OF cs(2)] unfolding eq by (fastforce simp: owned_iff)
  moreover have "fbytes bs \<subseteq> {lo..<hi}" using ok free_wf_bytes by (auto simp: heap_ok_def)
  moreover have "payload L \<subseteq> owned L" using live_okD [OF cs(2)] by (fastforce simp: payload_def owned_iff)
  ultimately have "fbytes bs \<subseteq> {lo..<hi} - payload L" by blast
  from heap_ok_same [OF ok same_on_mono [OF frame this] hd] show ?thesis .
qed


section \<open>The interface\<close>

interpretation heap: heap_provider "heap_inv lo hi" memalloc_aligned memfree for lo hi
proof unfold_locales
  fix h :: "'a heap_state_scheme" and L sz al
  assume inv: "heap_inv lo hi h L"
  show "\<exists>p h'. memalloc_aligned sz al h = Some (p, h')"
    by (rule alloc_outcome [OF inv, of sz al]) auto
  show "h' = h" if "memalloc_aligned sz al h = Some (0, h')" for h'
    by (rule alloc_outcome [OF inv, of sz al]) (use that in auto)
  show "L p = None \<and> (\<exists>a e. block_of p sz \<subseteq> {a..<e} \<and> {a..<e} \<inter> owned L = {} \<and> heap_inv lo hi h' (L(p \<mapsto> (a, e))))"
    if "memalloc_aligned sz al h = Some (p, h')" "p \<noteq> 0" for p h'
  proof (rule alloc_outcome [OF inv, of sz al])
    fix q s' a e
    assume "memalloc_aligned sz al h = Some (q, s')" "a + 8 \<le> unat q" "unat q + unat sz \<le> e"
      "{a..<e} \<inter> owned L = {}" "L q = None" "heap_inv lo hi s' (L(q \<mapsto> (a, e)))"
    moreover from this that have "q = p" "s' = h'" by simp_all
    ultimately show ?thesis
      by (intro conjI exI [of _ a] exI [of _ e]) (auto simp: block_of_def)
  qed (use that in auto)
  show "\<exists>h'. memfree p h = Some h' \<and> heap_inv lo hi h' (L(p := None))" if "L p = Some r" for p r
  proof -
    obtain a e where "r = (a, e)" by (cases r)
    with that have "L p = Some (a, e)" by simp
    from release_outcome [OF inv this] show ?thesis by blast
  qed
qed


section \<open>The history of a client\<close>

text \<open>
  Any interleaving of allocations, releases of live pointers, and writes to payloads (by
  the processor or by DMA) after \<open>init_memory\<close>. The ghost map is read off the headers.
\<close>

definition range_of :: "'a heap_state_scheme \<Rightarrow> u32 \<Rightarrow> nat \<times> nat" where
  "range_of s p =
     (unat p - 8 - unat (ld32 (p - 8 + 4) s), unat p - 8 + unat (ld32 (p - 8) s))"

inductive client :: "u32 \<Rightarrow> u32 \<Rightarrow> 'a heap_state_scheme \<Rightarrow> live \<Rightarrow> bool" for heap_start heap_end :: u32 where
  client_init: "client heap_start heap_end (init_memory heap_start heap_end s) Map.empty"
| client_alloc: "client heap_start heap_end s L \<Longrightarrow> memalloc_aligned sz align s = Some (p, s') \<Longrightarrow> p \<noteq> 0 \<Longrightarrow>
    client heap_start heap_end s' (L(p \<mapsto> range_of s' p))"
| client_null: "client heap_start heap_end s L \<Longrightarrow> memalloc_aligned sz align s = Some (0, s') \<Longrightarrow>
    client heap_start heap_end s' L"
| client_release: "client heap_start heap_end s L \<Longrightarrow> L p = Some r \<Longrightarrow> memfree p s = Some s' \<Longrightarrow>
    client heap_start heap_end s' (L(p := None))"
| client_release_null: "client heap_start heap_end s L \<Longrightarrow> memfree 0 s = Some s' \<Longrightarrow>
    client heap_start heap_end s' L"
| client_write: "client heap_start heap_end s L \<Longrightarrow> unat q \<in> payload L \<Longrightarrow>
    client heap_start heap_end (st8 q b s) L"

lemma range_of_header: "header_of s p a e \<Longrightarrow> range_of s p = (a, e)"
  by (auto simp: header_of_def range_of_def)

lemma client_inv:
  assumes "client heap_start heap_end s L"
    and "16 \<le> unat heap_start" and "unat heap_start + 8 \<le> unat heap_end"
  shows "heap_inv (unat heap_start) (unat heap_end) s L"
  using assms(1)
proof (induction rule: client.induct)
  case (client_init s)
  show ?case by (rule init_memory_inv [OF assms(2,3)])
next
  case (client_alloc s L sz align p s')
  show ?case
  proof (rule alloc_outcome [OF client_alloc.IH, of sz align])
    fix q s'' a e
    assume g: "memalloc_aligned sz align s = Some (q, s'')"
      "heap_inv (unat heap_start) (unat heap_end) s'' (L(q \<mapsto> (a, e)))"
    then have eq: "q = p" "s'' = s'" using client_alloc.hyps by simp_all
    from g(2) obtain bs where "live_ok s'' bs (L(q \<mapsto> (a, e)))" by (rule heap_invE)
    from live_okD(3) [OF this, of q a e] have "range_of s' p = (a, e)"
      by (simp add: eq range_of_header)
    then have "L(p \<mapsto> range_of s' p) = L(q \<mapsto> (a, e))" by (simp only: eq)
    with g(2) show ?thesis unfolding eq(2) by metis
  qed (use client_alloc.hyps in auto)
next
  case (client_null s L sz align s')
  then show ?case using heap.alloc_null by blast
next
  case (client_release s L p r s')
  then show ?case using heap.release_live [OF client_release.IH client_release.hyps(2)]
    by (metis option.inject)
next
  case (client_release_null s L s')
  then show ?case by (simp add: memfree_def)
next
  case (client_write s L q b)
  show ?case
    by (rule write_outcome [OF client_write.IH]) (use client_write.hyps in \<open>auto intro!: same_on_store8\<close>)
qed

text \<open>When nothing is live, the free list is one block again: nothing leaks or stays split.\<close>

lemma all_released:
  assumes "heap_inv lo hi s Map.empty" and "lo + 8 \<le> hi"
  shows "free_list s [(lo, hi - lo)]"
proof -
  from assms(1) obtain bs where bs: "heap_ok lo hi s bs" "fbytes bs \<union> owned Map.empty = {lo..<hi}"
    by (rule heap_invE)
  have "bs = [(lo, hi - lo)]"
  proof (rule free_wf_unique)
    show "free_wf lo hi bs" using bs(1) by (simp add: heap_ok_def)
    show "free_wf lo hi [(lo, hi - lo)]" using assms(2) by simp
    show "fbytes bs = fbytes [(lo, hi - lo)]" using bs(2) assms(2) by simp
  qed
  then show ?thesis using bs(1) by (simp add: heap_ok_def)
qed

end
