(* ===== verification/HeapTheorems.thy ===== *)
theory HeapTheorems
  imports HeapClient
begin

text \<open>
  What the allocator of \<open>mem/mem.c\<close> guarantees: the two operations compute the first-fit
  specification of \<open>FreeSpace\<close>, they undo each other, and no history of a client that frees
  only what it was given can break the free list, make two allocations overlap or lose a
  byte of the heap.
\<close>

definition empty_heap :: heap_state where
  "empty_heap = init_memory 0x8000 0xC000 \<lparr>mem = (\<lambda>_. 0), io_log = [], free_block_head = 0\<rparr>"

lemma empty_heap_ok: "heap_ok 0x8000 0xC000 empty_heap [(0x8000, 0x4000)]"
  using init_memory_ok [of "0x8000" "0xC000" "\<lparr>mem = (\<lambda>_. 0), io_log = [], free_block_head = 0\<rparr>"]
  by (simp add: empty_heap_def)

lemma empty_heap_client: "client 0x8000 0xC000 empty_heap Map.empty"
  unfolding empty_heap_def by (rule client_init)

lemma empty_heap_fits:
  "alloc_spec (start_at 16) 100 [(0x8000, 0x4000)] =
     Some (\<lparr>g_ptr = 0x8010, g_start = 0x8008, g_end = 0x8074\<rparr>, [(0x8000, 8), (0x8074, 0x3F8C)])"
  by (simp add: fits_def start_at_def aligned_mem_start_def align_ptr_def granted_def carve_def
      slack_before_def slack_after_def)

lemma empty_heap_grant:
  obtains p s' where "memalloc_aligned 100 16 empty_heap = Some (p, s')" and "unat p = 0x8010"
    and "heap_ok 0x8000 0xC000 s' [(0x8000, 8), (0x8074, 0x3F8C)]" and "header_of s' p 0x8008 0x8074"
proof -
  have "unat (100 :: u32) = 100" by simp
  from memalloc_aligned_grants [OF empty_heap_ok, of 100 16, unfolded this, OF _ _ empty_heap_fits]
  show thesis using that by auto
qed


section \<open>Refinement of the first-fit specification\<close>

text \<open>C1: On a heap whose free list represents the blocks \<open>bs\<close>, \<open>memalloc_aligned\<close> takes the
  first block that can hold the request at an aligned address behind a header, exactly as the
  specification \<open>alloc_spec\<close> says; it returns NULL and changes nothing when no block can; and
  it writes to free memory only.\<close>

theorem memalloc_aligned_refines:
  assumes "heap_ok lo hi s bs" and "sz \<noteq> 0" and "align \<noteq> 0"
  shows "case alloc_spec (start_at align) (unat sz) bs of
      None \<Rightarrow> memalloc_aligned sz align s = Some (0, s)
    | Some (g, bs') \<Rightarrow> \<exists>p s'. memalloc_aligned sz align s = Some (p, s') \<and> unat p = g_ptr g \<and> p \<noteq> 0 \<and>
        heap_ok lo hi s' bs' \<and> header_of s' p (g_start g) (g_end g) \<and>
        same_on (mem s) (mem s') (- fbytes bs)"
proof (cases "alloc_spec (start_at align) (unat sz) bs")
  case None
  then show ?thesis using memalloc_aligned_fails [OF assms(1,2)] by simp
next
  case (Some r)
  obtain g bs' where r: "r = (g, bs')" by (cases r)
  with Some have "alloc_spec (start_at align) (unat sz) bs = Some (g, bs')" by simp
  from memalloc_aligned_grants [OF assms this] show ?thesis
    unfolding Some r option.case prod.case by metis
qed

theorem memalloc_aligned_refines_witness:
  "\<exists>p s'. memalloc_aligned 100 16 empty_heap = Some (p, s') \<and> unat p = 0x8010 \<and> p \<noteq> 0 \<and>
     heap_ok 0x8000 0xC000 s' [(0x8000, 8), (0x8074, 0x3F8C)] \<and> header_of s' p 0x8008 0x8074 \<and>
     same_on (mem empty_heap) (mem s') (- fbytes [(0x8000, 0x4000)])"
proof -
  have "unat (100 :: u32) = 100" by simp
  then show ?thesis
    using memalloc_aligned_refines [OF empty_heap_ok, of 100 16]
    by (simp only: empty_heap_fits option.case prod.case grant.simps) simp
qed

text \<open>C2: \<open>memfree\<close> of a payload whose header describes the range \<open>[a, e)\<close> puts exactly that
  range back: the free list then represents \<open>free_spec a (e - a) bs\<close>, which is sorted and has
  no two adjacent blocks, and nothing outside of free memory and the range is written.\<close>

theorem memfree_refines:
  assumes "heap_ok lo hi s bs" and "header_of s p a e"
    and "a + 8 \<le> unat p" and "unat p \<le> e" and "lo \<le> a" and "e \<le> hi"
    and "{a..<e} \<inter> fbytes bs = {}"
  shows "\<exists>s'. memfree p s = Some s' \<and> heap_ok lo hi s' (free_spec a (e - a) bs) \<and>
    fbytes (free_spec a (e - a) bs) = {a..<e} \<union> fbytes bs \<and>
    same_on (mem s) (mem s') (- (fbytes bs \<union> {a..<e}))"
proof -
  have "fbytes (free_spec a (e - a) bs) = {a..<e} \<union> fbytes bs"
    using free_spec_bytes [of lo hi bs a "e - a"] assms(1,3,4) by (simp add: heap_ok_def)
  with memfree_releases [OF assms] show ?thesis by metis
qed

theorem memfree_refines_witness:
  "\<exists>p s' s''. memalloc_aligned 100 16 empty_heap = Some (p, s') \<and> memfree p s' = Some s'' \<and>
     heap_ok 0x8000 0xC000 s'' [(0x8000, 0x4000)]"
proof -
  obtain p s' where g: "memalloc_aligned 100 16 empty_heap = Some (p, s')" "unat p = 0x8010"
    "heap_ok 0x8000 0xC000 s' [(0x8000, 8), (0x8074, 0x3F8C)]" "header_of s' p 0x8008 0x8074"
    by (rule empty_heap_grant)
  have "free_spec 0x8008 (0x8074 - 0x8008) [(0x8000, 8), (0x8074, 0x3F8C)] = [(0x8000, 0x4000)]"
    by simp
  with memfree_refines [OF g(3,4)] g(1,2) show ?thesis by force
qed

text \<open>C5: Freeing what was just allocated is exact: the free list represents the same blocks as
  before the allocation, whatever size and alignment were asked for.\<close>

theorem alloc_free_restores:
  assumes "heap_ok lo hi s bs" and "memalloc_aligned sz align s = Some (p, s')" and "p \<noteq> 0"
  shows "\<exists>s''. memfree p s' = Some s'' \<and> heap_ok lo hi s'' bs"
proof -
  have nz: "sz \<noteq> 0" "align \<noteq> 0"
    using assms(2,3) by (auto simp: memalloc_aligned_def split: if_splits)
  moreover have "alloc_spec (start_at align) (unat sz) bs \<noteq> None"
    using assms(2,3) memalloc_aligned_fails [OF assms(1) nz(1)] by (metis option.inject prod.inject)
  ultimately obtain g bs' where sp: "alloc_spec (start_at align) (unat sz) bs = Some (g, bs')"
    by auto
  have wf: "free_wf lo hi bs" using assms(1) by (simp add: heap_ok_def)
  have szn: "0 < unat sz" using nz(1) by (simp add: unat_gt_0)
  from memalloc_aligned_grants [OF assms(1) nz(1,2) sp] assms(2)
  have g: "unat p = g_ptr g" "heap_ok lo hi s' bs'" "header_of s' p (g_start g) (g_end g)"
    by (metis option.inject prod.inject)+
  note b = alloc_spec_bounds [OF sp] and w = alloc_spec_wf [OF sp wf szn]
  have rng: "lo \<le> g_start g" "g_end g \<le> hi"
  proof -
    have "g_start g \<in> fbytes bs" "g_end g - 1 \<in> fbytes bs"
      using w(3) b szn by (auto simp: g_bytes_def)
    then show "lo \<le> g_start g" "g_end g \<le> hi"
      using free_wf_bytes [OF wf] by fastforce+
  qed
  obtain s'' where "memfree p s' = Some s''"
    "heap_ok lo hi s'' (free_spec (g_start g) (g_end g - g_start g) bs')"
    by (rule memfree_releases [OF g(2,3) _ _ rng]) (use b g(1) w(2) in \<open>auto simp: g_bytes_def\<close>)
  then show ?thesis
    by (simp add: free_after_alloc [OF sp wf szn])
qed

theorem alloc_free_restores_witness:
  "\<exists>p s' s''. memalloc_aligned 100 16 empty_heap = Some (p, s') \<and> memfree p s' = Some s'' \<and>
     heap_ok 0x8000 0xC000 s'' [(0x8000, 0x4000)]"
  by (rule empty_heap_grant) (use alloc_free_restores [OF empty_heap_ok] in force)


lemma align_ptr_4:
  assumes "unat q + 3 < 4294967296"
  shows "unat q \<le> unat (align_ptr q 4)" and "unat (align_ptr q 4) \<le> unat q + 3"
proof -
  have "unat (q + 3) = unat q + 3" using assms by (subst unat_add_u32) auto
  then show "unat q \<le> unat (align_ptr q 4)" "unat (align_ptr q 4) \<le> unat q + 3"
    using unat_and_not_ge [of "q + 3" 3] unat_and_le1 [of "q + 3" "NOT 3"] by (simp_all add: align_ptr_def)
qed

text \<open>\<open>memalloc\<close> (alignment 4) never returns NULL while some free block has 11 bytes more than
  the request: 8 for the header and at most 3 for the alignment.\<close>

theorem memalloc_enough:
  assumes "heap_ok lo hi s bs" and "(a, n) \<in> set bs" and "sz \<noteq> 0" and "unat sz + 11 \<le> n"
  shows "\<exists>p s'. memalloc sz s = Some (p, s') \<and> p \<noteq> 0 \<and> 4 dvd unat p"
proof -
  have b: "16 \<le> a" "a + n < 4294967296"
    using assms(1,2) free_wf_mem [of lo hi bs a n] by (auto simp: heap_ok_def)
  have c: "unat (of_nat a :: u32) = a" using b by (simp add: unat_of_nat_u32)
  have "unat (of_nat a + 8 :: u32) = a + 8"
    using b assms(4) c by (subst unat_add_u32) auto
  then have "a + 8 \<le> start_at 4 a" "start_at 4 a \<le> a + 11"
    using align_ptr_4 [of "of_nat a + 8"] b assms(4) by (auto simp: start_at_def aligned_mem_start_def)
  then have "fits (start_at 4) (unat sz) (a, n)"
    using assms(4) by (simp add: fits_def)
  then have "alloc_spec (start_at 4) (unat sz) bs \<noteq> None"
    using assms(2) by (auto simp: alloc_spec_None_iff)
  then obtain g bs' where sp: "alloc_spec (start_at 4) (unat sz) bs = Some (g, bs')" by auto
  obtain p s' where "memalloc_aligned sz 4 s = Some (p, s')" "unat p = g_ptr g" "p \<noteq> 0"
    by (rule memalloc_aligned_grants [OF assms(1,3) _ sp]) auto
  moreover obtain b where "g_ptr g = start_at 4 b"
    using alloc_spec_bounds(5) [OF sp] by blast
  moreover have "4 dvd start_at 4 b" for b
    using align_ptr_dvd [of 4 2] by (simp add: start_at_def aligned_mem_start_def)
  ultimately show ?thesis by (simp add: memalloc_def)
qed

theorem memalloc_enough_witness:
  "\<exists>p s'. memalloc 0x3FF5 empty_heap = Some (p, s') \<and> p \<noteq> 0 \<and> 4 dvd unat p"
  by (rule memalloc_enough [OF empty_heap_ok, where a = "0x8000" and n = "0x4000"]) simp_all


section \<open>Histories of a client\<close>

lemma demo_client:
  obtains p and s' :: heap_state where "client 0x8000 0xC000 s' [p \<mapsto> (0x8008, 0x8074)]" and "unat p = 0x8010"
proof -
  obtain p s' where g: "memalloc_aligned 100 16 empty_heap = Some (p, s')" "unat p = 0x8010"
    "header_of s' p 0x8008 0x8074"
    by (rule empty_heap_grant)
  have "p \<noteq> 0" using g(2) by auto
  from client_alloc [OF empty_heap_client g(1) this] show thesis
    unfolding range_of_header [OF g(3)] using g(2) by (rule that)
qed

text \<open>C4: Whatever a client does with the heap (allocate, free a live pointer or NULL, write into
  its own payloads, in any order), the range of every live allocation lies within the heap,
  its payload begins behind the header, its header still describes it, and no two ranges
  overlap.\<close>

theorem client_allocations_sound:
  assumes "client heap_start heap_end s L"
    and "16 \<le> unat heap_start" and "unat heap_start + 8 \<le> unat heap_end"
    and "L p = Some (a, e)"
  shows "unat heap_start \<le> a \<and> a + 8 \<le> unat p \<and> unat p < e \<and> e \<le> unat heap_end \<and>
    range_of s p = (a, e) \<and> (\<forall>q b f. L q = Some (b, f) \<and> q \<noteq> p \<longrightarrow> {a..<e} \<inter> {b..<f} = {})"
proof -
  note inv = client_inv [OF assms(1-3)]
  note rg = heap_inv_range [OF inv assms(4)]
  obtain bs where bs: "live_ok s bs L" using inv by (rule heap_invE)
  have "{a..<e} \<inter> {b..<f} = {}" if "L q = Some (b, f)" "q \<noteq> p" for q b f
    using live_ok_disjoint [OF bs assms(4) that(1)] that(2) by blast
  with rg range_of_header [OF live_okD(3) [OF bs assms(4)]] show ?thesis
    by blast
qed

theorem client_allocations_sound_witness:
  "\<exists>p (s :: heap_state). client 0x8000 0xC000 s [p \<mapsto> (0x8008, 0x8074)] \<and> unat p = 0x8010 \<and>
     range_of s p = (0x8008, 0x8074)"
proof (rule demo_client)
  fix p and s' :: heap_state assume c: "client 0x8000 0xC000 s' [p \<mapsto> (0x8008, 0x8074)]" "unat p = 0x8010"
  have "range_of s' p = (0x8008, 0x8074)"
    using client_allocations_sound [OF c(1), where p = p and a = "0x8008" and e = "0x8074"] by simp
  with c show ?thesis by metis
qed


text \<open>C3: In every such history an allocation returns, and it returns either NULL, with nothing
  changed, or a pointer with the alignment asked for to bytes of the heap that no live
  allocation owns, with the bytes of all live allocations untouched.\<close>

theorem client_alloc_sound:
  assumes "client heap_start heap_end s L"
    and "16 \<le> unat heap_start" and "unat heap_start + 8 \<le> unat heap_end"
  shows "\<exists>p s'. memalloc_aligned sz align s = Some (p, s') \<and>
    (p = 0 \<and> s' = s \<or>
     p \<noteq> 0 \<and> L p = None \<and> block_of p sz \<subseteq> {unat heap_start..<unat heap_end} \<and>
     block_of p sz \<inter> owned L = {} \<and> (\<forall>k. align = 2 ^ k \<longrightarrow> unat align dvd unat p) \<and>
     same_on (mem s) (mem s') (owned L \<union> - {unat heap_start..<unat heap_end}))"
proof (rule alloc_outcome [OF client_inv [OF assms], of sz align])
  fix p s' a e
  assume g: "memalloc_aligned sz align s = Some (p, s')" "p \<noteq> 0" "a + 8 \<le> unat p"
    "unat p + unat sz \<le> e" "{a..<e} \<inter> owned L = {}" "L p = None" "0 < unat sz"
    "heap_inv (unat heap_start) (unat heap_end) s' (L(p \<mapsto> (a, e)))"
    "same_on (mem s) (mem s') (owned L \<union> - {unat heap_start..<unat heap_end})"
    and al: "\<And>k. align = 2 ^ k \<Longrightarrow> unat align dvd unat p"
  note rg = heap_inv_range [OF g(8), of p a e]
  have sub: "block_of p sz \<subseteq> {a..<e}"
    using g(3,4) by (auto simp: block_of_def)
  then have "block_of p sz \<inter> owned L = {}" using g(5) by blast
  moreover have "block_of p sz \<subseteq> {unat heap_start..<unat heap_end}"
    using sub rg by fastforce
  ultimately show ?thesis using g(1,2,6,9) al by blast
qed auto

theorem client_alloc_sound_witness:
  "\<exists>p s'. memalloc_aligned 100 16 empty_heap = Some (p, s') \<and>
     (p = 0 \<or> block_of p 100 \<subseteq> {0x8000..<0xC000} \<and> 16 dvd unat p)"
proof -
  have u: "(16 :: u32) = 2 ^ 4" "unat (0x8000 :: u32) = 0x8000" "unat (0xC000 :: u32) = 0xC000" "unat (16 :: u32) = 16"
    by simp_all
  obtain p s' where g: "memalloc_aligned 100 16 empty_heap = Some (p, s')"
    and c: "p = 0 \<and> s' = empty_heap \<or> p \<noteq> 0 \<and> block_of p 100 \<subseteq> {0x8000..<0xC000} \<and>
      (\<forall>k. (16 :: u32) = 2 ^ k \<longrightarrow> unat (16 :: u32) dvd unat p)"
    using client_alloc_sound [OF empty_heap_client, of 100 16, unfolded u(2,3)] by (simp only: u) auto
  from c u(1,4) have "p = 0 \<or> block_of p 100 \<subseteq> {0x8000..<0xC000} \<and> 16 dvd unat p" by metis
  with g show ?thesis by blast
qed

text \<open>In every such history, freeing a live pointer returns and leaves the bytes of all other
  live allocations, and everything outside of the heap, as they are.\<close>

theorem client_free_sound:
  assumes "client heap_start heap_end s L"
    and "16 \<le> unat heap_start" and "unat heap_start + 8 \<le> unat heap_end"
    and "L p = Some r"
  shows "\<exists>s'. memfree p s = Some s' \<and> client heap_start heap_end s' (L(p := None)) \<and>
    same_on (mem s) (mem s') (owned (L(p := None)) \<union> - {unat heap_start..<unat heap_end})"
proof -
  obtain a e where "L p = Some (a, e)" using assms(4) by (cases r) simp
  then show ?thesis
    by (rule release_outcome [OF client_inv [OF assms(1-3)]])
      (use client_release [OF assms(1,4)] in blast)
qed

theorem client_free_sound_witness:
  "\<exists>p (s :: heap_state) s'. client 0x8000 0xC000 s [p \<mapsto> (0x8008, 0x8074)] \<and> memfree p s = Some s' \<and>
     client 0x8000 0xC000 s' Map.empty"
proof (rule demo_client)
  fix p and s :: heap_state assume c: "client 0x8000 0xC000 s [p \<mapsto> (0x8008, 0x8074)]" "unat p = 0x8010"
  from client_free_sound [OF c(1), of p "(0x8008, 0x8074)"]
  have "\<exists>s'. memfree p s = Some s' \<and> client 0x8000 0xC000 s' Map.empty"
    by (simp only: fun_upd_upd fun_upd_same fun_upd_triv) auto
  with c(1) show ?thesis by blast
qed


text \<open>C6: When a client has freed everything, the free list is one block that covers the whole
  heap: nothing leaks and nothing stays fragmented.\<close>

theorem client_no_leak:
  assumes "client heap_start heap_end s Map.empty"
    and "16 \<le> unat heap_start" and "unat heap_start + 8 \<le> unat heap_end"
  shows "heap_ok (unat heap_start) (unat heap_end) s [(unat heap_start, unat heap_end - unat heap_start)]"
proof -
  note inv = client_inv [OF assms]
  obtain bs where "heap_ok (unat heap_start) (unat heap_end) s bs" using inv by (rule heap_invE)
  then show ?thesis
    using all_released [OF inv] assms(3) by (simp add: heap_ok_def)
qed

theorem client_no_leak_witness:
  "\<exists>s :: heap_state. client 0x8000 0xC000 s Map.empty \<and> heap_ok 0x8000 0xC000 s [(0x8000, 0x4000)]"
  using client_no_leak [OF empty_heap_client] empty_heap_client by auto

text \<open>Several allocations in a row (as the drivers make them) return, and if none of them is
  NULL, the blocks they return are pairwise disjoint and disjoint from all live allocations.\<close>

theorem client_alloc_all_apart:
  assumes "client heap_start heap_end s L"
    and "16 \<le> unat heap_start" and "unat heap_start + 8 \<le> unat heap_end"
  shows "\<exists>ps s'. alloc_all memalloc_aligned rs s = Some (ps, s') \<and> length ps = length rs \<and>
    (0 \<notin> set ps \<longrightarrow> blocks_apart ps rs \<and>
      (\<forall>(q, r) \<in> set (zip ps rs). block_of q (fst r) \<inter> owned L = {}))"
  using heap.alloc_all_apart [OF client_inv [OF assms], of rs] by blast

theorem client_alloc_all_apart_witness:
  "\<exists>ps s'. alloc_all memalloc_aligned [(16, 16), (64, 16), (18, 4)] empty_heap = Some (ps, s') \<and>
     length ps = 3 \<and> (0 \<notin> set ps \<longrightarrow> blocks_apart ps [(16, 16), (64, 16), (18, 4)])"
  using client_alloc_all_apart [OF empty_heap_client, of "[(16, 16), (64, 16), (18, 4)]"] by auto

end
