(* ===== verification/MemOps.thy ===== *)
theory MemOps
  imports Machine
begin

text \<open>
  The copy and fill routines of \<open>mem/mem.c\<close>: \<open>memcopy\<close>, \<open>memfill\<close> and \<open>scopy\<close>, byte loops
  over memory, and their meaning as one update of a range.
\<close>


section \<open>The code\<close>

function copy_loop :: "u32 \<Rightarrow> u32 \<Rightarrow> u32 \<Rightarrow> 'a machine_scheme \<Rightarrow> 'a machine_scheme" where
  "copy_loop dst8 src8 end8 s =
     (if dst8 < end8 then copy_loop (dst8 + 1) (src8 + 1) end8 (st8 dst8 (ld8 src8 s) s) else s)"
  by auto
termination
  by (relation "measure (\<lambda>(dst8, _, end8, _). unat end8 - unat dst8)")
    (auto simp: word_less_nat_alt unat_step_u32)

definition memcopy :: "u32 \<Rightarrow> u32 \<Rightarrow> u32 \<Rightarrow> 'a machine_scheme \<Rightarrow> u32 \<times> 'a machine_scheme" where
  "memcopy dst src sz s = (let end8 = dst + sz in (dst, copy_loop dst src end8 s))"

function fill_loop :: "u32 \<Rightarrow> u8 \<Rightarrow> u32 \<Rightarrow> 'a machine_scheme \<Rightarrow> 'a machine_scheme" where
  "fill_loop dst8 byte end8 s =
     (if dst8 < end8 then fill_loop (dst8 + 1) byte end8 (st8 dst8 byte s) else s)"
  by auto
termination
  by (relation "measure (\<lambda>(dst8, _, end8, _). unat end8 - unat dst8)")
    (auto simp: word_less_nat_alt unat_step_u32)

definition memfill :: "u32 \<Rightarrow> u8 \<Rightarrow> u32 \<Rightarrow> 'a machine_scheme \<Rightarrow> u32 \<times> 'a machine_scheme" where
  "memfill buf byte sz s = (let end8 = buf + sz in (buf, fill_loop buf byte end8 s))"

text \<open>The index of \<open>scopy\<close> wraps around; a source without a zero byte is copied forever.\<close>

partial_function (option) scopy_loop :: "u32 \<Rightarrow> u32 \<Rightarrow> u32 \<Rightarrow> 'a machine_scheme \<Rightarrow> (u32 \<times> 'a machine_scheme) option" where
  "scopy_loop dst src i s =
     (if ld8 (src + i) s \<noteq> 0
      then scopy_loop dst src (i + 1) (st8 (dst + i) (ld8 (src + i) s) s)
      else Some (i, s))"

definition scopy :: "u32 \<Rightarrow> u32 \<Rightarrow> 'a machine_scheme \<Rightarrow> (u32 \<times> 'a machine_scheme) option" where
  "scopy dst src s =
     do { (i, s) \<leftarrow> scopy_loop dst src 0 s; Some (dst, st8 (dst + i) 0 s) }"

declare copy_loop.simps [simp del] fill_loop.simps [simp del]


section \<open>Their meaning\<close>

text \<open>
  Only memory changes. The range of a copy or fill is \<open>n\<close> bytes from \<open>d\<close>; offsets are words,
  so the range may be anywhere.
\<close>

definition copied :: "mem \<Rightarrow> u32 \<Rightarrow> u32 \<Rightarrow> nat \<Rightarrow> mem" where
  "copied m d c n = (\<lambda>x. if unat (x - d) < n then m (c + (x - d)) else m x)"

definition filled :: "mem \<Rightarrow> u32 \<Rightarrow> u8 \<Rightarrow> nat \<Rightarrow> mem" where
  "filled m d b n = (\<lambda>x. if unat (x - d) < n then b else m x)"

lemma filled_0 [simp]: "filled m d b 0 = m"
  by (simp add: filled_def)

lemma copied_0 [simp]: "copied m d c 0 = m"
  by (simp add: copied_def)

text \<open>One step at the front.\<close>

lemma offset_Suc:
  fixes x d :: u32
  assumes "n < 4294967296"
  shows "unat (x - d) < Suc n \<longleftrightarrow> x = d \<or> unat (x - (d + 1)) < n \<and> x \<noteq> d"
proof (cases "x = d")
  case False
  then have nz: "x - d \<noteq> 0" by simp
  then have "0 < unat (x - d)" by (simp add: unat_gt_0)
  moreover have "x - (d + 1) = (x - d) - 1" by simp
  then have "unat (x - (d + 1)) = unat (x - d) - 1"
    using nz unat_pred_u32 by metis
  ultimately show ?thesis using False by linarith
qed simp

lemma filled_Suc:
  assumes "n < 4294967296"
  shows "filled (store8 m d b) (d + 1) b n = filled m d b (Suc n)"
  using offset_Suc [OF assms, of _ d] by (auto simp: filled_def store8_def fun_eq_iff)

lemma copied_Suc:
  fixes d c :: u32
  assumes "n < 4294967296" and "\<And>k. 0 < k \<Longrightarrow> k \<le> n \<Longrightarrow> c + of_nat k \<noteq> d"
  shows "copied (store8 m d (load8 m c)) (d + 1) (c + 1) n = copied m d c (Suc n)"
proof
  fix x
  show "copied (store8 m d (load8 m c)) (d + 1) (c + 1) n x = copied m d c (Suc n) x"
  proof (cases "unat (x - (d + 1)) < n \<and> x \<noteq> d")
    case True
    then have "unat (x - d) < Suc n" "0 < unat (x - d)"
      using offset_Suc [OF assms(1), of x d] by (auto simp: unat_gt_0)
    then have "c + of_nat (unat (x - d)) \<noteq> d"
      by (intro assms(2)) auto
    then show ?thesis
      using True offset_Suc [OF assms(1), of x d]
      by (simp add: copied_def store8_def add.commute add.left_commute)
  next
    case False
    then show ?thesis
      using offset_Suc [OF assms(1), of x d]
      by (auto simp: copied_def store8_def load8_def)
  qed
qed

lemma fill_loop_run:
  assumes "unat dst8 + n = unat end8"
  shows "fill_loop dst8 byte end8 s = s\<lparr>mem := filled (mem s) dst8 byte n\<rparr>"
  using assms
proof (induction n arbitrary: dst8 s)
  case 0
  then show ?case by (subst fill_loop.simps) (simp add: word_less_nat_alt)
next
  case (Suc n)
  have lt: "n < 4294967296" "unat dst8 + 1 < 4294967296"
    using Suc.prems unat_u32_lt [of end8] by linarith+
  then have "unat (dst8 + 1) + n = unat end8"
    using Suc.prems by (subst unat_add_u32) auto
  from Suc.IH [OF this] Suc.prems show ?case
    by (subst fill_loop.simps) (simp add: word_less_nat_alt filled_Suc [OF lt(1)] st8_def)
qed

lemma copy_loop_run:
  assumes "unat dst8 + n = unat end8" and "unat src8 + n \<le> 4294967296"
    and "unat dst8 \<le> unat src8 \<or> unat src8 + n \<le> unat dst8"
  shows "copy_loop dst8 src8 end8 s = s\<lparr>mem := copied (mem s) dst8 src8 n\<rparr>"
  using assms
proof (induction n arbitrary: dst8 src8 s)
  case 0
  then show ?case by (subst copy_loop.simps) (simp add: word_less_nat_alt)
next
  case (Suc n)
  have lt: "n < 4294967296" "unat dst8 + 1 < 4294967296" "unat src8 < 4294967296"
    using Suc.prems(1) unat_u32_lt [of end8] unat_u32_lt [of src8] by linarith+
  have d1: "unat (dst8 + 1) = unat dst8 + 1"
    using lt(2) by (subst unat_add_u32) auto
  have step: "src8 + of_nat k \<noteq> dst8" if "0 < k" "k \<le> n" for k
  proof -
    have "unat (of_nat k :: u32) = k" using that lt(1) by (simp add: unat_of_nat_u32)
    then have "unat (src8 + of_nat k) = unat src8 + k"
      using that Suc.prems(2) by (subst unat_add_u32) auto
    then show ?thesis using Suc.prems(3) that by auto
  qed
  have "copy_loop (dst8 + 1) (src8 + 1) end8 (st8 dst8 (ld8 src8 s) s) =
      (st8 dst8 (ld8 src8 s) s)\<lparr>mem := copied (mem (st8 dst8 (ld8 src8 s) s)) (dst8 + 1) (src8 + 1) n\<rparr>"
  proof (cases "n = 0")
    case True
    then show ?thesis
      using Suc.prems(1) d1 by (subst copy_loop.simps) (simp add: word_less_nat_alt)
  next
    case False
    have "unat (src8 + 1) = unat src8 + 1"
      using Suc.prems(2) False by (subst unat_add_u32) auto
    then show ?thesis
      using Suc.prems d1 by (intro Suc.IH) auto
  qed
  then show ?case
    using Suc.prems(1) by (subst copy_loop.simps) (simp add: word_less_nat_alt copied_Suc [OF lt(1) step] st8_def)
qed

text \<open>A string in memory: \<open>n\<close> bytes that are not zero, and a zero byte.\<close>

definition cstring :: "mem \<Rightarrow> u32 \<Rightarrow> nat \<Rightarrow> bool" where
  "cstring m p n \<longleftrightarrow> (\<forall>i < n. load8 m (p + of_nat i) \<noteq> 0) \<and> load8 m (p + of_nat n) = 0"

lemma scopy_loop_run:
  assumes "cstring (mem s) (src + of_nat i) n"
    and "\<And>j k. j < n \<Longrightarrow> k \<le> n \<Longrightarrow> dst + of_nat (i + j) \<noteq> src + of_nat (i + k)" and "n < 4294967296"
  shows "scopy_loop dst src (of_nat i) s =
    Some (of_nat (i + n), s\<lparr>mem := copied (mem s) (dst + of_nat i) (src + of_nat i) n\<rparr>)"
  using assms
proof (induction n arbitrary: i s)
  case 0
  then show ?case by (subst scopy_loop.simps) (simp add: cstring_def)
next
  case (Suc n)
  let ?d = "dst + of_nat i" and ?c = "src + of_nat i"
  let ?s = "st8 ?d (ld8 ?c s) s"
  have other: "load8 (store8 (mem s) ?d (ld8 ?c s)) (?c + 1 + of_nat k) = load8 (mem s) (?c + of_nat (Suc k))" if "k \<le> n" for k
  proof -
    have "?d \<noteq> ?c + of_nat (Suc k)" using Suc.prems(2) [of 0 "Suc k"] that by (simp add: add.assoc)
    then show ?thesis by (simp add: load8_def store8_def algebra_simps)
  qed
  have shift: "src + of_nat (Suc i) + of_nat k = ?c + 1 + of_nat k" for k
    by simp
  have "cstring (mem ?s) (src + of_nat (Suc i)) n"
    unfolding cstring_def shift using Suc.prems(1)
    by (auto simp: other cstring_def simp del: of_nat_Suc)
  moreover have "dst + of_nat (Suc i + j) \<noteq> src + of_nat (Suc i + k)" if "j < n" "k \<le> n" for j k
    using Suc.prems(2) [of "Suc j" "Suc k"] that by simp
  ultimately have "scopy_loop dst src (of_nat (Suc i)) ?s =
      Some (of_nat (Suc i + n), ?s\<lparr>mem := copied (mem ?s) (dst + of_nat (Suc i)) (src + of_nat (Suc i)) n\<rparr>)"
    using Suc.prems(3) by (intro Suc.IH) auto
  moreover have "copied (store8 (mem s) ?d (ld8 ?c s)) (?d + 1) (?c + 1) n = copied (mem s) ?d ?c (Suc n)"
  proof (rule copied_Suc)
    show "?c + of_nat k \<noteq> ?d" if "0 < k" "k \<le> n" for k
      using Suc.prems(2) [of 0 k] that by (simp add: add.assoc)
  qed (use Suc.prems(3) in simp)
  moreover have "ld8 ?c s \<noteq> 0" 
  proof -
    have "0 < Suc n \<longrightarrow> ld8 (?c + of_nat 0) s \<noteq> 0" using Suc.prems(1) unfolding cstring_def by blast
    then show ?thesis by simp
  qed
  ultimately show ?case
    by (subst scopy_loop.simps) (simp add: st8_def algebra_simps)
qed



section \<open>Guarantees\<close>

lemma offset_range:
  fixes d x :: u32
  assumes "unat d + n \<le> 4294967296"
  shows "unat (x - d) < n \<longleftrightarrow> unat d \<le> unat x \<and> unat x < unat d + n"
proof (cases "unat d \<le> unat x")
  case True
  then show ?thesis by (simp add: unat_diff_u32) linarith
next
  case False
  then have "unat (x - d) = 4294967296 + unat x - unat d"
    by (simp add: unat_diff_wrap_u32)
  then show ?thesis using False assms by linarith
qed

lemma copied_range:
  assumes "unat d + n \<le> 4294967296"
  shows "copied m d c n = (\<lambda>x. if unat d \<le> unat x \<and> unat x < unat d + n then m (c + (x - d)) else m x)"
  by (simp add: copied_def offset_range [OF assms])

text \<open>\<open>memcopy\<close> returns \<open>dst\<close> and copies the \<open>size\<close> bytes, as they were before the call, also
  for overlapping ranges with \<open>dst\<close> below \<open>src\<close>, provided no range reaches the end of the
  address space; every other byte and the rest of the state stay as they are.\<close>

theorem memcopy_correct:
  assumes "unat dst + unat sz < 4294967296" and "unat src + unat sz \<le> 4294967296"
    and "unat dst \<le> unat src \<or> unat src + unat sz \<le> unat dst"
  shows "memcopy dst src sz s =
    (dst, s\<lparr>mem := (\<lambda>x. if unat dst \<le> unat x \<and> unat x < unat dst + unat sz
                     then mem s (src + (x - dst)) else mem s x)\<rparr>)"
proof -
  have "unat dst + unat sz = unat (dst + sz)"
    using assms(1) by (simp add: unat_add_u32)
  from copy_loop_run [OF this assms(2,3), of s] assms(1) show ?thesis
    by (simp add: memcopy_def copied_range)
qed

theorem memcopy_correct_witness:
  "\<exists>s' :: machine. memcopy 0x1000 0x1004 8 \<lparr>mem = (\<lambda>x. ucast x), io_log = []\<rparr> = (0x1000, s') \<and>
     mem s' 0x1000 = 4 \<and> mem s' 0x1007 = 0x0B \<and> mem s' 0x1008 = 8"
  using memcopy_correct [of "0x1000" 8 "0x1004" "\<lparr>mem = (\<lambda>x. ucast x), io_log = []\<rparr> :: machine"]
  by simp


text \<open>\<open>memfill\<close> returns \<open>buf\<close> and sets exactly the \<open>size\<close> bytes from \<open>buf\<close> when the range
  does not reach the end of the address space; when the end pointer wraps around to or below
  \<open>buf\<close> it writes nothing at all.\<close>

theorem memfill_correct:
  "memfill buf b sz s =
    (buf, if unat buf + unat sz < 4294967296
          then s\<lparr>mem := (\<lambda>x. if unat buf \<le> unat x \<and> unat x < unat buf + unat sz then b else mem s x)\<rparr>
          else s)"
proof (cases "unat buf + unat sz < 4294967296")
  case True
  then have "unat buf + unat sz = unat (buf + sz)"
    by (simp add: unat_add_u32)
  from fill_loop_run [OF this, of b s] True show ?thesis
    by (simp add: memfill_def filled_def offset_range)
next
  case False
  have "unat (buf + sz) + 4294967296 = unat buf + unat sz"
    using False by (intro unat_add_wrap_u32) simp
  then have "\<not> buf < buf + sz"
    using unat_u32_lt [of sz] by (simp only: word_less_nat_alt)
  then show ?thesis
    using False by (simp add: memfill_def fill_loop.simps)
qed

text \<open>\<open>scopy\<close> of a string of \<open>n\<close> bytes into a buffer that does not overlap it returns
  \<open>dst\<close>, and \<open>dst\<close> then holds the same string: its \<open>n\<close> bytes and the terminating zero, with
  every byte outside of the \<open>n + 1\<close> bytes of the destination unchanged.\<close>

theorem scopy_correct:
  assumes "cstring (mem s) src n" and "unat src + n < 4294967296" and "unat dst + n < 4294967296"
    and "unat src + n < unat dst \<or> unat dst + n < unat src"
  shows "scopy dst src s =
    Some (dst, s\<lparr>mem := (\<lambda>x. if unat dst \<le> unat x \<and> unat x \<le> unat dst + n
                          then mem s (src + (x - dst)) else mem s x)\<rparr>)"
proof -
  have u: "unat (p + of_nat k) = unat p + k" if "unat p + k < 4294967296" for p :: u32 and k
    using that by (subst unat_add_u32) (simp_all add: unat_of_nat_u32)
  have "dst + of_nat (0 + j) \<noteq> src + of_nat (0 + k)" if "j < n" "k \<le> n" for j k
    using u [of dst j] u [of src k] that assms(2-4) by (auto simp: word_unat_eq_iff)
  from scopy_loop_run [of s src 0 n dst] this assms(1,2)
  have run: "scopy_loop dst src 0 s = Some (of_nat n, s\<lparr>mem := copied (mem s) dst src n\<rparr>)"
    by simp
  have z: "mem s (src + of_nat n) = 0" using assms(1) by (simp add: cstring_def load8_def)
  have pos: "unat (x - dst) < n \<or> x = dst + of_nat n \<longleftrightarrow> unat dst \<le> unat x \<and> unat x \<le> unat dst + n" for x
    using u [of dst n] assms(3) by (auto simp: offset_range word_unat_eq_iff)
  have "store8 (copied (mem s) dst src n) (dst + of_nat n) 0 x =
      (if unat dst \<le> unat x \<and> unat x \<le> unat dst + n then mem s (src + (x - dst)) else mem s x)" for x
    using pos [of x] z by (auto simp: store8_def copied_def)
  then show ?thesis
    by (simp add: scopy_def run st8_def fun_eq_iff)
qed


theorem scopy_correct_witness:
  "\<exists>s' :: machine. scopy 0x2000 0x1000 \<lparr>mem = (\<lambda>_. 0)(0x1000 := 0x48, 0x1001 := 0x69), io_log = []\<rparr> =
     Some (0x2000, s') \<and> mem s' 0x2000 = 0x48 \<and> mem s' 0x2001 = 0x69 \<and> mem s' 0x2002 = 0"
proof -
  let ?s = "\<lparr>mem = (\<lambda>_. 0)(0x1000 := 0x48, 0x1001 := 0x69), io_log = []\<rparr> :: machine"
  have "cstring (mem ?s) 0x1000 2"
    by (auto simp: cstring_def load8_def less_2_cases_iff)
  from scopy_correct [of ?s "0x1000" 2 "0x2000"] this show ?thesis by simp
qed

end
