(* ===== verification/ByteStrings.thy ===== *)
theory ByteStrings
  imports MemOps
begin

text \<open>
  Lists of bytes in memory: \<open>written m p bs\<close> is memory after the bytes \<open>bs\<close> were stored from
  \<open>p\<close> on, \<open>read_bytes m p n\<close> is the list of \<open>n\<close> bytes at \<open>p\<close>. Routines that build text in a
  buffer one byte at a time (\<open>itoa\<close>, \<open>wstr_to_str\<close>, the packets of the debugger stub) are
  proved against these two.
\<close>

definition written :: "mem \<Rightarrow> u32 \<Rightarrow> u8 list \<Rightarrow> mem" where
  "written m p bs = (\<lambda>x. if unat (x - p) < length bs then bs ! unat (x - p) else m x)"

definition read_bytes :: "mem \<Rightarrow> u32 \<Rightarrow> nat \<Rightarrow> u8 list" where
  "read_bytes m p n = map (\<lambda>i. load8 m (p + of_nat i)) [0..<n]"

text \<open>The bytes of a string constant.\<close>

definition text_bytes :: "string \<Rightarrow> u8 list" where
  "text_bytes cs = map of_char cs"

lemma text_bytes_simps [simp]:
  "text_bytes [] = []"
  "text_bytes (c # cs) = of_char c # text_bytes cs"
  "text_bytes (cs @ ds) = text_bytes cs @ text_bytes ds"
  "length (text_bytes cs) = length cs"
  by (simp_all add: text_bytes_def)

lemma written_Nil [simp]: "written m p [] = m"
  by (simp add: written_def)

lemma length_read_bytes [simp]: "length (read_bytes m p n) = n"
  by (simp add: read_bytes_def)

lemma offset_eq:
  fixes p x :: u32
  assumes "i < 4294967296"
  shows "x = p + of_nat i \<longleftrightarrow> unat (x - p) = i"
proof
  assume "x = p + of_nat i"
  then show "unat (x - p) = i" using assms by (simp add: unat_of_nat_u32)
next
  assume i: "unat (x - p) = i"
  then have "x - p = of_nat i" by (simp flip: i)
  then show "x = p + of_nat i" by (metis add.commute diff_add_cancel)
qed

lemma store8_written:
  assumes "i < length bs" and "length bs \<le> 4294967296"
  shows "store8 (written m p bs) (p + of_nat i) b = written m p (bs[i := b])"
  using offset_eq [of i _ p] assms
  by (auto simp: store8_def written_def fun_eq_iff nth_list_update)

lemma written_snoc:
  assumes "length bs < 4294967296"
  shows "store8 (written m p bs) (p + of_nat (length bs)) b = written m p (bs @ [b])"
  using offset_eq [OF assms, of _ p] by (auto simp: store8_def written_def fun_eq_iff nth_append)

lemma load8_written:
  assumes "i < length bs" and "length bs \<le> 4294967296"
  shows "load8 (written m p bs) (p + of_nat i) = bs ! i"
  using assms by (simp add: load8_def written_def unat_of_nat_u32)

lemma load8_written_other:
  assumes "length bs \<le> unat (x - p)"
  shows "load8 (written m p bs) x = load8 m x"
  using assms by (simp add: load8_def written_def)

lemma read_written:
  assumes "length bs \<le> 4294967296"
  shows "read_bytes (written m p bs) p (length bs) = bs"
  by (rule nth_equalityI) (simp_all add: read_bytes_def load8_written [OF _ assms])

lemma written_written:
  "length bs \<le> length cs \<Longrightarrow> written (written m p bs) p cs = written m p cs"
  by (auto simp: written_def fun_eq_iff)

lemma written_same:
  "unat p + length bs \<le> 4294967296 \<Longrightarrow> same_on m (written m p bs) (- {unat p..<unat p + length bs})"
  by (auto simp: same_on_def written_def offset_range)

lemma cstring_written:
  assumes "0 \<notin> set bs" and "length bs < 4294967296"
  shows "cstring (written m p (bs @ [0])) p (length bs)"
proof -
  have "load8 (written m p (bs @ [0])) (p + of_nat i) = (bs @ [0]) ! i" if "i \<le> length bs" for i
    using that assms(2) by (intro load8_written) auto
  then show ?thesis
    using assms(1) by (auto simp: cstring_def nth_append in_set_conv_nth)
qed

lemma cstring_read:
  "cstring m p n \<Longrightarrow> 0 \<notin> set (read_bytes m p n)"
  by (auto simp: cstring_def read_bytes_def)

lemma read_bytes_Suc:
  "read_bytes m p (Suc n) = load8 m p # read_bytes m (p + 1) n"
  by (simp add: read_bytes_def upt_conv_Cons map_Suc_upt [symmetric] add.assoc del: upt_Suc)

lemma read_bytes_cong:
  "(\<And>i. i < n \<Longrightarrow> load8 m (p + of_nat i) = load8 m' (p + of_nat i)) \<Longrightarrow> read_bytes m p n = read_bytes m' p n"
  by (simp add: read_bytes_def)

lemma cstring_Suc:
  "cstring m p (Suc n) \<longleftrightarrow> load8 m p \<noteq> 0 \<and> cstring m (p + 1) n"
  by (auto simp: cstring_def add.assoc less_Suc_eq_0_disj)

lemma cstring_0 [simp]: "cstring m p 0 \<longleftrightarrow> load8 m p = 0"
  by (simp add: cstring_def)

end
