(* ===== verification/PciTypes.thy ===== *)
theory PciTypes
  imports Machine
begin

text \<open>
  The layout of \<open>struct pci_dev\<close> and \<open>struct pci_header\<close> of \<open>drivers/pci/pci21.h\<close>: offsets of
  the fields from the address of the device (i386 ABI: the header is aligned to 4).
\<close>

definition dev_bus :: "u32 \<Rightarrow> u32" where "dev_bus dev = dev"
definition dev_device :: "u32 \<Rightarrow> u32" where "dev_device dev = dev + 1"
definition dev_func :: "u32 \<Rightarrow> u32" where "dev_func dev = dev + 2"

text \<open>Constants of \<open>pci21.h\<close>.\<close>

abbreviation (input) PCI_CMD_BUSMASTER_MASK :: "u16" where "PCI_CMD_BUSMASTER_MASK \<equiv> push_bit 2 1"
abbreviation (input) PCI_HEADER_TYPE00_BAR_ADDRS :: "nat" where "PCI_HEADER_TYPE00_BAR_ADDRS \<equiv> 6"
abbreviation (input) PCI_HEADER_TYPE_MULTIFUNC_MASK :: "u8" where "PCI_HEADER_TYPE_MULTIFUNC_MASK \<equiv> 0x80"
abbreviation (input) PCI_HEADER_TYPE_TYPE_MASK :: "u8" where "PCI_HEADER_TYPE_TYPE_MASK \<equiv> 0x7f"
abbreviation (input) PCI_HOFF_COMMAND :: "u8" where "PCI_HOFF_COMMAND \<equiv> 0x4"

definition sizeof_pci_dev :: u32 where "sizeof_pci_dev = 68"

definition hdr_vendor_id :: "u32 \<Rightarrow> u32" where "hdr_vendor_id dev = dev + 4"
definition hdr_device_id :: "u32 \<Rightarrow> u32" where "hdr_device_id dev = dev + 6"
definition hdr_command :: "u32 \<Rightarrow> u32" where "hdr_command dev = dev + 8"
definition hdr_status :: "u32 \<Rightarrow> u32" where "hdr_status dev = dev + 10"
definition hdr_rev_id :: "u32 \<Rightarrow> u32" where "hdr_rev_id dev = dev + 12"
definition hdr_prog_if :: "u32 \<Rightarrow> u32" where "hdr_prog_if dev = dev + 13"
definition hdr_subclass :: "u32 \<Rightarrow> u32" where "hdr_subclass dev = dev + 14"
definition hdr_class_code :: "u32 \<Rightarrow> u32" where "hdr_class_code dev = dev + 15"
definition hdr_cache_line_size :: "u32 \<Rightarrow> u32" where "hdr_cache_line_size dev = dev + 16"
definition hdr_latency_timer :: "u32 \<Rightarrow> u32" where "hdr_latency_timer dev = dev + 17"
definition hdr_header_type :: "u32 \<Rightarrow> u32" where "hdr_header_type dev = dev + 18"
definition hdr_bist :: "u32 \<Rightarrow> u32" where "hdr_bist dev = dev + 19"
definition hdr_bar :: "u32 \<Rightarrow> u32 \<Rightarrow> u32" where "hdr_bar dev i = dev + 20 + 4 * i"
definition hdr_cardbus_cis :: "u32 \<Rightarrow> u32" where "hdr_cardbus_cis dev = dev + 44"
definition hdr_subsystem_vid :: "u32 \<Rightarrow> u32" where "hdr_subsystem_vid dev = dev + 48"
definition hdr_subsystem_id :: "u32 \<Rightarrow> u32" where "hdr_subsystem_id dev = dev + 50"
definition hdr_rom_base_addr :: "u32 \<Rightarrow> u32" where "hdr_rom_base_addr dev = dev + 52"
definition hdr_interrupt_line :: "u32 \<Rightarrow> u32" where "hdr_interrupt_line dev = dev + 64"
definition hdr_interrupt_pin :: "u32 \<Rightarrow> u32" where "hdr_interrupt_pin dev = dev + 65"
definition hdr_min_grant :: "u32 \<Rightarrow> u32" where "hdr_min_grant dev = dev + 66"
definition hdr_max_latency :: "u32 \<Rightarrow> u32" where "hdr_max_latency dev = dev + 67"

lemmas pci_layout = dev_bus_def dev_device_def dev_func_def hdr_vendor_id_def hdr_device_id_def hdr_command_def hdr_status_def
  hdr_rev_id_def hdr_prog_if_def hdr_subclass_def hdr_class_code_def hdr_cache_line_size_def
  hdr_latency_timer_def hdr_header_type_def hdr_bist_def hdr_bar_def hdr_cardbus_cis_def
  hdr_subsystem_vid_def hdr_subsystem_id_def hdr_rom_base_addr_def hdr_interrupt_line_def
  hdr_interrupt_pin_def hdr_min_grant_def hdr_max_latency_def

end
