(* ===== verification/Display.thy ===== *)
theory Display
  imports Allocator ByteStrings PciTypes "HOL-Library.Signed_Division"
begin

text \<open>
  The text output of \<open>drivers/display/print.c\<close>: the VGA text page at \<open>0xB8000\<close> (25 rows of 80
  cells of a character and an attribute byte), the hardware cursor behind the CRTC ports,
  and the conversions \<open>itoa\<close> and \<open>wstr_to_str\<close>.

  A \<open>char *\<close> argument is a pointer into memory. For string constants of the program, whose
  address the compiler chooses, \<open>print_text\<close> takes the bytes instead; \<open>print_string\<close> of a
  pointer to the same bytes is shown to do the same.
\<close>

record display_state = heap_state +
  curs_row :: u8
  curs_col :: u8


section \<open>Cursor and screen\<close>

abbreviation (input) VGA_WIDTH :: "'n::numeral" where "VGA_WIDTH \<equiv> 80"
abbreviation (input) VGA_HEIGHT :: "'n::numeral" where "VGA_HEIGHT \<equiv> 25"
abbreviation (input) VGA_COLOR_MEM :: "u32" where "VGA_COLOR_MEM \<equiv> 0xB8000"
abbreviation (input) VGA_LIGHT_GRAY :: "u8" where "VGA_LIGHT_GRAY \<equiv> 0x07"
abbreviation (input) CRTC_ADDRESS :: "u16" where "CRTC_ADDRESS \<equiv> 0x3d4"
abbreviation (input) CRTC_DATA :: "u16" where "CRTC_DATA \<equiv> 0x3d5"
abbreviation (input) CRTC_CURS_LOC_HI :: "u8" where "CRTC_CURS_LOC_HI \<equiv> 0xe"
abbreviation (input) CRTC_CURS_LOC_LO :: "u8" where "CRTC_CURS_LOC_LO \<equiv> 0xf"

definition move_vga_cursor :: "u8 \<Rightarrow> u8 \<Rightarrow> 'a machine_scheme \<Rightarrow> 'a machine_scheme" where
  "move_vga_cursor column row s =
     (let pos = ucast row * VGA_WIDTH + ucast column :: u16;
          s = outb CRTC_ADDRESS CRTC_CURS_LOC_LO s;
          s = outb CRTC_DATA (ucast (pos AND 0xFF)) s;
          s = outb CRTC_ADDRESS CRTC_CURS_LOC_HI s;
          s = outb CRTC_DATA (ucast (drop_bit 8 pos AND 0xFF)) s
      in s)"

definition get_vga_cursor :: "hw \<Rightarrow> 'a machine_scheme \<Rightarrow> (u8 \<times> u8) \<times> 'a machine_scheme" where
  "get_vga_cursor hw s =
     (let pos = 0 :: u16;
          s = outb CRTC_ADDRESS CRTC_CURS_LOC_LO s;
          (lo, s) = inb hw CRTC_DATA s;
          pos = pos OR ucast lo;
          s = outb CRTC_ADDRESS CRTC_CURS_LOC_HI s;
          (hi, s) = inb hw CRTC_DATA s;
          pos = pos OR push_bit 8 (ucast hi)
      in ((ucast (pos mod VGA_WIDTH), ucast (pos div VGA_WIDTH)), s))"

text \<open>
  \<open>screen_scroll\<close>. The end pointer counts the two bytes of a cell twice, so the copy runs
  over 50 rows, and the blank row is row 49.
\<close>

function scroll_copy :: "u32 \<Rightarrow> u32 \<Rightarrow> u32 \<Rightarrow> 'a machine_scheme \<Rightarrow> u32 \<times> 'a machine_scheme" where
  "scroll_copy video_dst video_src video_end s =
     (if video_src < video_end
      then scroll_copy (video_dst + 1) (video_src + 1) video_end (st8 video_dst (ld8 video_src s) s)
      else (video_dst, s))"
  by auto
termination
  by (relation "measure (\<lambda>(_, video_src, video_end, _). unat video_end - unat video_src)")
    (auto simp: word_less_nat_alt unat_step_u32)

declare scroll_copy.simps [simp del]

function scroll_blank :: "u8 \<Rightarrow> u32 \<Rightarrow> 'a machine_scheme \<Rightarrow> 'a machine_scheme" where
  "scroll_blank i video_dst s =
     (if i < VGA_WIDTH
      then scroll_blank (i + 1) (video_dst + 2) (st8 (video_dst + 1) VGA_LIGHT_GRAY (st8 video_dst 0x20 s))
      else s)"
  by auto
termination
proof (relation "measure (\<lambda>(i, _, _). 80 - unat i)")
  fix i :: u8 and d :: u32 and s :: "'a machine_scheme"
  assume "i < 80"
  then have "unat i < 80" by (simp add: word_less_nat_alt)
  then have "unat (i + 1) = unat i + 1" by (simp add: unat_word_ariths)
  then show "((i + 1, d + 2, st8 (d + 1) 0x07 (st8 d 0x20 s)), i, d, s) \<in> measure (\<lambda>(i, _, _). 80 - unat i)"
    using \<open>unat i < 80\<close> by simp
qed simp

declare scroll_blank.simps [simp del]

definition screen_scroll :: "'a machine_scheme \<Rightarrow> 'a machine_scheme" where
  "screen_scroll s =
     (let video_dst = VGA_COLOR_MEM;
          video_src = video_dst + VGA_WIDTH * 2;
          video_end = VGA_COLOR_MEM + VGA_WIDTH * 2 * VGA_HEIGHT * 2;
          (video_dst, s) = scroll_copy video_dst video_src video_end s
      in scroll_blank 0 video_dst s)"

definition advance_cursor_newline :: "'a display_state_scheme \<Rightarrow> 'a display_state_scheme" where
  "advance_cursor_newline s =
     (let s = (if unat (curs_row s) + 1 = VGA_HEIGHT then screen_scroll s
               else s\<lparr>curs_row := curs_row s + 1\<rparr>)
      in s\<lparr>curs_col := 0\<rparr>)"

definition advance_cursor :: "'a display_state_scheme \<Rightarrow> 'a display_state_scheme" where
  "advance_cursor s =
     (if unat (curs_col s) + 1 = VGA_WIDTH then advance_cursor_newline s
      else s\<lparr>curs_col := curs_col s + 1\<rparr>)"


section \<open>Printing\<close>

text \<open>The body of the loop of \<open>print_string\<close> for one character.\<close>

definition print_char :: "u8 \<Rightarrow> 'a display_state_scheme \<Rightarrow> 'a display_state_scheme" where
  "print_char c s =
     (let video = VGA_COLOR_MEM + ucast (curs_row s) * VGA_WIDTH * 2 + ucast (curs_col s) * 2 in
      if c = 0x0A then advance_cursor_newline s
      else advance_cursor (st8 (video + 1) VGA_LIGHT_GRAY (st8 video c s)))"

partial_function (option) print_loop :: "u32 \<Rightarrow> 'a display_state_scheme \<Rightarrow> 'a display_state_scheme option" where
  "print_loop str s =
     (if ld8 str s \<noteq> 0 then print_loop (str + 1) (print_char (ld8 str s) s) else Some s)"

definition print_string :: "u32 \<Rightarrow> 'a display_state_scheme \<Rightarrow> 'a display_state_scheme option" where
  "print_string str s =
     do { s \<leftarrow> print_loop str s; Some (move_vga_cursor (curs_col s) (curs_row s) s) }"

definition print_text :: "u8 list \<Rightarrow> 'a display_state_scheme \<Rightarrow> 'a display_state_scheme" where
  "print_text cs s = (let s = fold print_char cs s in move_vga_cursor (curs_col s) (curs_row s) s)"

definition init_output :: "hw \<Rightarrow> 'a display_state_scheme \<Rightarrow> 'a display_state_scheme" where
  "init_output hw s =
     (let ((column, row), s) = get_vga_cursor hw s;
          s = s\<lparr>curs_col := column, curs_row := row\<rparr>
      in print_text (text_bytes ''\<newline>'') s)"


section \<open>Numbers and wide strings\<close>

text \<open>A C \<open>int\<close> is an integer; its division truncates towards zero.\<close>

definition digit_table :: string where
  "digit_table = ''zyxwvutsrqponmlkjihgfedcba9876543210123456789abcdefghijklmnopqrstuvwxyz''"

partial_function (option) itoa_digits ::
  "int \<Rightarrow> int \<Rightarrow> u32 \<Rightarrow> 'a machine_scheme \<Rightarrow> (u32 \<times> 'a machine_scheme) option" where
  "itoa_digits val base ptr s =
     (let s = st8 ptr (of_char (digit_table ! nat (35 + val smod base))) s;
          ptr = ptr + 1;
          val = val sdiv base
      in if val \<noteq> 0 then itoa_digits val base ptr s else Some (ptr, s))"

function invert :: "u32 \<Rightarrow> u32 \<Rightarrow> 'a machine_scheme \<Rightarrow> 'a machine_scheme" where
  "invert low ptr s =
     (if low < ptr
      then let tmp = ld8 low s; s = st8 low (ld8 ptr s) s; s = st8 ptr tmp s
           in invert (low + 1) (ptr - 1) s
      else s)"
  by auto
termination
proof (relation "measure (\<lambda>(low, ptr, _). unat ptr - unat low)")
  fix low ptr :: u32 and s s1 s2 :: "'a machine_scheme" and tmp
  assume "low < ptr"
  then have "unat low < unat ptr" "ptr \<noteq> 0" by (auto simp: word_less_nat_alt)
  then show "((low + 1, ptr - 1, s2), low, ptr, s) \<in> measure (\<lambda>(low, ptr, _). unat ptr - unat low)"
    using unat_pred_u32 [of ptr] unat_step_u32 [of low ptr] by simp
qed simp

declare invert.simps [simp del]

definition itoa :: "int \<Rightarrow> u32 \<Rightarrow> int \<Rightarrow> 'a machine_scheme \<Rightarrow> (u32 \<times> 'a machine_scheme) option" where
  "itoa val str base s =
     (if base < 2 \<or> base > 36 then Some (str, st8 str 0 s)
      else
        let (ptr, s) = (if val < 0 \<and> base = 10 then (str + 1, st8 str 0x2D s) else (str, s));
            low = ptr
        in do {
          (ptr, s) \<leftarrow> itoa_digits val base ptr s;
          let s = st8 ptr 0 s;
          let ptr = ptr - 1;
          Some (str, invert low ptr s)
        })"

text \<open>\<open>itoa_fixed\<close> is the address of the static buffer of 64 bytes.\<close>

definition itoa_once :: "u32 \<Rightarrow> int \<Rightarrow> int \<Rightarrow> 'a machine_scheme \<Rightarrow> (u32 \<times> 'a machine_scheme) option" where
  "itoa_once itoa_fixed val base s = itoa val itoa_fixed base s"

function wstr_loop :: "u32 \<Rightarrow> u32 \<Rightarrow> u32 \<Rightarrow> u32 \<Rightarrow> 'a machine_scheme \<Rightarrow> 'a machine_scheme" where
  "wstr_loop wstr str i l s =
     (if i < l then wstr_loop wstr str (i + 1) l (st8 (str + i) (ucast (ld16 (wstr + 2 * i) s)) s)
      else s)"
  by auto
termination
  by (relation "measure (\<lambda>(_, _, i, l, _). unat l - unat i)")
    (auto simp: word_less_nat_alt unat_step_u32)

declare wstr_loop.simps [simp del]

definition wstr_to_str :: "u32 \<Rightarrow> u32 \<Rightarrow> u32 \<Rightarrow> u32 \<Rightarrow> 'a machine_scheme \<Rightarrow> u32 \<times> 'a machine_scheme" where
  "wstr_to_str wstr wlen str len s =
     (let l = (if wlen div 2 > len then len else wlen div 2);
          s = wstr_loop wstr str 0 l s;
          s = st8 (str + l) 0 s
      in (str, s))"


section \<open>A PCI device\<close>

text \<open>\<open>print_string(itoa(val, buf, base))\<close>, the statement \<open>print_pci_dev\<close> is made of.\<close>

definition print_number :: "u32 \<Rightarrow> int \<Rightarrow> int \<Rightarrow> 'a display_state_scheme \<Rightarrow> 'a display_state_scheme option" where
  "print_number buf val base s = do { (p, s) \<leftarrow> itoa val buf base s; print_string p s }"

text \<open>\<open>buf\<close> is the address of the local array of 8 bytes.\<close>

definition print_pci_dev :: "u32 \<Rightarrow> u32 \<Rightarrow> 'a display_state_scheme \<Rightarrow> 'a display_state_scheme option" where
  "print_pci_dev buf pci_dev s = do {
     s \<leftarrow> print_number buf (uint (ld8 (dev_bus pci_dev) s)) 10 s;
     let s = print_text (text_bytes '':'') s;
     s \<leftarrow> print_number buf (uint (ld8 (dev_device pci_dev) s)) 10 s;
     let s = print_text (text_bytes ''.'') s;
     s \<leftarrow> print_number buf (uint (ld8 (dev_func pci_dev) s)) 10 s;
     let s = print_text (text_bytes '' '') s;
     s \<leftarrow> print_number buf (uint (ld16 (hdr_vendor_id pci_dev) s)) 16 s;
     let s = print_text (text_bytes '':'') s;
     s \<leftarrow> print_number buf (uint (ld16 (hdr_device_id pci_dev) s)) 16 s;
     let s = print_text (text_bytes '' rev '') s;
     s \<leftarrow> print_number buf (uint (ld8 (hdr_rev_id pci_dev) s)) 16 s;
     let s = print_text (text_bytes '' ['') s;
     s \<leftarrow> print_number buf (uint (ld8 (hdr_class_code pci_dev) s)) 16 s;
     let s = print_text (text_bytes '':'') s;
     s \<leftarrow> print_number buf (uint (ld8 (hdr_subclass pci_dev) s)) 16 s;
     let s = print_text (text_bytes '']'') s;
     let s = print_text (text_bytes '' if '') s;
     print_number buf (uint (ld8 (hdr_prog_if pci_dev) s)) 16 s
   }"

end
