(* ===== verification/DisplayProof.thy ===== *)
theory DisplayProof
  imports Display
begin

text \<open>
  The text output: \<open>itoa\<close> writes the positional representation, \<open>wstr_to_str\<close> the low bytes,
  printing stays within the text page and keeps the cursor on the screen.
\<close>


section \<open>Numbers\<close>

text \<open>The digits of a number, the least significant one first.\<close>

fun digits :: "nat \<Rightarrow> nat \<Rightarrow> nat list" where
  "digits b n = (n mod b) # (if b < 2 \<or> n < b then [] else digits b (n div b))"

declare digits.simps [simp del]

definition digit_byte :: "nat \<Rightarrow> u8" where
  "digit_byte k = of_char (digit_table ! (35 + k))"

definition itoa_text :: "int \<Rightarrow> int \<Rightarrow> u8 list" where
  "itoa_text val base =
     (if val < 0 \<and> base = 10 then [0x2D] else []) @ map digit_byte (rev (digits (nat base) (nat \<bar>val\<bar>)))"

text \<open>The inverse: the value of digits.\<close>

fun undigits :: "nat \<Rightarrow> nat list \<Rightarrow> nat" where
  "undigits b [] = 0"
| "undigits b (d # ds) = d + b * undigits b ds"

lemma undigits_digits: "2 \<le> b \<Longrightarrow> undigits b (digits b n) = n"
  by (induction b n rule: digits.induct) (subst digits.simps, auto)

lemma digits_less: "2 \<le> b \<Longrightarrow> d \<in> set (digits b n) \<Longrightarrow> d < b"
proof (induction b n rule: digits.induct)
  case (1 b n)
  then show ?case
    by (subst (asm) (2) digits.simps) (auto split: if_splits)
qed

lemma length_digits: "2 \<le> b \<Longrightarrow> n < b ^ k \<Longrightarrow> 0 < k \<Longrightarrow> length (digits b n) \<le> k"
proof (induction k arbitrary: n)
  case (Suc k)
  show ?case
  proof (cases "n < b")
    case True
    then show ?thesis by (subst digits.simps) simp
  next
    case False
    have lt: "n div b < b ^ k"
      using Suc.prems(1,2) by (simp add: less_mult_imp_div_less mult.commute)
    have "0 < k" using False Suc.prems by (cases k) auto
    with Suc.IH [OF Suc.prems(1) lt] False show ?thesis by (subst digits.simps) simp
  qed
qed simp

lemma digits_ne [simp]: "digits b n \<noteq> []"
  by (subst digits.simps) simp

text \<open>The table is symmetric around its middle, which makes negative remainders work.\<close>

lemma digit_table_sym: "k < 36 \<Longrightarrow> digit_table ! (35 - k) = digit_table ! (35 + k)"
proof -
  assume "k < 36"
  moreover have "list_all (\<lambda>k. digit_table ! (35 - k) = digit_table ! (35 + k)) [0..<36]"
    by code_simp
  ultimately show ?thesis by (simp add: list_all_iff)
qed

lemma digit_step:
  assumes "2 \<le> base" and "base \<le> 36"
  shows "of_char (digit_table ! nat (35 + val smod base)) = digit_byte (nat \<bar>val\<bar> mod nat base)"
    and "\<bar>val sdiv base\<bar> = \<bar>val\<bar> div base"
proof -
  have sd: "val sdiv base = sgn val * (\<bar>val\<bar> div base)"
    using assms by (simp add: signed_divide_int_def)
  then show "\<bar>val sdiv base\<bar> = \<bar>val\<bar> div base"
    using assms by (cases "val = 0") (simp_all add: abs_mult pos_imp_zdiv_nonneg_iff)
  have sm: "val smod base = sgn val * (\<bar>val\<bar> mod base)"
    unfolding signed_modulo_int_def sd
    using assms by (cases "val = 0"; cases "val < 0") (simp_all add: minus_div_mult_eq_mod [symmetric])
  define k where "k = nat (\<bar>val\<bar> mod base)"
  have k: "\<bar>val\<bar> mod base = int k" "k < 36"
  proof -
    have "0 \<le> \<bar>val\<bar> mod base" "\<bar>val\<bar> mod base < base" using assms by simp_all
    then show "\<bar>val\<bar> mod base = int k" "k < 36" using assms(2) by (auto simp: k_def nat_less_iff)
  qed
  have "nat (35 + val smod base) = 35 + k \<or> nat (35 + val smod base) = 35 - k"
  proof (cases "val = 0")
    case True
    then show ?thesis by (simp add: sm k_def)
  next
    case False
    then show ?thesis unfolding sm k(1) using k(2) by (cases "val < 0") auto
  qed
  moreover have "nat \<bar>val\<bar> mod nat base = k"
    using assms by (simp add: k_def nat_mod_distrib)
  ultimately show "of_char (digit_table ! nat (35 + val smod base)) = digit_byte (nat \<bar>val\<bar> mod nat base)"
    using digit_table_sym [OF k(2)] by (auto simp: digit_byte_def)
qed

lemma itoa_digits_run:
  assumes "2 \<le> base" and "base \<le> 36"
    and "length acc + length (digits (nat base) (nat \<bar>val\<bar>)) < 4294967296"
  shows "itoa_digits val base (p + of_nat (length acc)) (s\<lparr>mem := written m p acc\<rparr>) =
    (let ds = acc @ map digit_byte (digits (nat base) (nat \<bar>val\<bar>))
     in Some (p + of_nat (length ds), s\<lparr>mem := written m p ds\<rparr>))"
  using assms(3)
proof (induction "nat \<bar>val\<bar>" arbitrary: val acc rule: less_induct)
  case less
  let ?k = "nat \<bar>val\<bar>" and ?b = "nat base"
  let ?acc = "acc @ [digit_byte (?k mod ?b)]"
  have len: "length acc < 4294967296" using less.prems by simp
  note st = digit_step [OF assms(1,2), of val]
  have next_abs: "nat \<bar>val sdiv base\<bar> = ?k div ?b"
    using assms(1) by (simp add: st(2) nat_div_distrib)
  have zero: "val sdiv base = 0 \<longleftrightarrow> ?k < ?b"
  proof -
    have "val sdiv base = 0 \<longleftrightarrow> \<bar>val\<bar> div base = 0" using st(2) by (metis abs_eq_0)
    also have "\<dots> \<longleftrightarrow> \<bar>val\<bar> < base" using assms(1) by (auto simp: zdiv_eq_0_iff)
    finally show ?thesis using assms(1) by (simp add: nat_less_iff)
  qed
  have "itoa_digits val base (p + of_nat (length acc)) (s\<lparr>mem := written m p acc\<rparr>) =
      (if val sdiv base \<noteq> 0 then itoa_digits (val sdiv base) base (p + of_nat (length ?acc)) (s\<lparr>mem := written m p ?acc\<rparr>)
       else Some (p + of_nat (length ?acc), s\<lparr>mem := written m p ?acc\<rparr>))"
    by (subst itoa_digits.simps)
      (simp add: Let_def st(1) st8_def written_snoc [OF len] add.assoc add.commute [of 1])
  moreover have "digits ?b ?k = (?k mod ?b) # (if ?k < ?b then [] else digits ?b (?k div ?b))"
    using assms(1) by (subst digits.simps) auto
  moreover have "itoa_digits (val sdiv base) base (p + of_nat (length ?acc)) (s\<lparr>mem := written m p ?acc\<rparr>) =
     (let ds = ?acc @ map digit_byte (digits ?b (?k div ?b)) in Some (p + of_nat (length ds), s\<lparr>mem := written m p ds\<rparr>))"
    if "\<not> ?k < ?b"
  proof -
    have "nat \<bar>val sdiv base\<bar> < ?k"
      unfolding next_abs using that assms(1) by (intro div_less_dividend) auto
    then show ?thesis
      using less.hyps [of "val sdiv base" ?acc] less.prems that assms(1) calculation(2) unfolding next_abs
      by simp
  qed
  ultimately show ?case
    using zero by (simp add: Let_def)
qed

text \<open>The swap loop reverses the bytes from \<open>low\<close> to \<open>ptr\<close>.\<close>

lemma invert_run:
  assumes "unat p + length (xs @ ms @ ys) \<le> 4294967296" and "xs @ ms \<noteq> []" and "ms \<noteq> [] \<or> ys \<noteq> []"
  shows "invert (p + of_nat (length xs)) (p + of_nat (length xs + length ms - 1)) (s\<lparr>mem := written m p (xs @ ms @ ys)\<rparr>) =
    s\<lparr>mem := written m p (xs @ rev ms @ ys)\<rparr>"
  using assms
proof (induction "length ms" arbitrary: xs ms ys rule: less_induct)
  case less
  have u: "unat (p + of_nat k) = unat p + k" if "k < length (xs @ ms @ ys)" for k
    using that less.prems(1) by (subst unat_add_u32) (simp_all add: unat_of_nat_u32)
  show ?case
  proof (cases "length ms < 2")
    case True
    then have "rev ms = ms" by (cases ms; cases "tl ms") auto
    moreover have "\<not> p + of_nat (length xs) < p + of_nat (length xs + length ms - 1)"
    proof -
      have "length xs < length (xs @ ms @ ys)" "length xs + length ms - 1 < length (xs @ ms @ ys)"
        using less.prems(3) by (cases ms; cases ys; simp)+
      from u [OF this(1)] u [OF this(2)] True show ?thesis
        by (simp only: word_less_nat_alt)
    qed
    ultimately show ?thesis by (simp add: invert.simps)
  next
    case False
    then obtain x ms' where "ms = x # ms'" "ms' \<noteq> []" by (cases ms) auto
    then obtain ns y where ms: "ms = x # ns @ [y]" by (metis rev_exhaust)
    let ?bs = "xs @ ms @ ys" and ?low = "p + of_nat (length xs)" and ?ptr = "p + of_nat (length xs + length ms - 1)"
    have len: "length ?bs \<le> 4294967296" using less.prems(1) by simp
    have i: "length xs < length ?bs" "length xs + length ms - 1 < length ?bs" by (auto simp: ms)
    have lt: "?low < ?ptr"
      using u [OF i(1)] u [OF i(2)] by (simp add: word_less_nat_alt ms)
    have nth: "?bs ! length xs = x" "?bs ! (length xs + length ms - 1) = y"
      by (simp_all add: ms nth_append)
    have l1: "load8 (written m p ?bs) ?low = x" "load8 (written m p ?bs) ?ptr = y"
      using load8_written [OF i(1) len, of m p] load8_written [OF i(2) len, of m p] nth by simp_all
    have s1: "store8 (written m p ?bs) ?low y = written m p (xs @ (y # ns @ [y]) @ ys)"
      unfolding store8_written [OF i(1) len] by (simp add: ms)
    have s2: "store8 (written m p (xs @ (y # ns @ [y]) @ ys)) ?ptr x = written m p ((xs @ [y]) @ ns @ (x # ys))"
      by (subst store8_written) (use len in \<open>auto simp: ms list_update_append\<close>)
    have ptr: "?ptr - 1 = p + of_nat (length (xs @ [y]) + length ns - 1)"
      by (simp add: ms)
    have "invert ?low ?ptr (s\<lparr>mem := written m p ?bs\<rparr>) =
        invert (?low + 1) (?ptr - 1) (s\<lparr>mem := written m p ((xs @ [y]) @ ns @ (x # ys))\<rparr>)"
      using lt by (subst invert.simps) (simp only: if_True Let_def st8_def mem_upd mem_upd_upd l1 s1 s2)
    also have "\<dots> = s\<lparr>mem := written m p ((xs @ [y]) @ rev ns @ (x # ys))\<rparr>"
      unfolding ptr using less.hyps [of ns "xs @ [y]" "x # ys"] less.prems(1)
      by (simp add: ms add.assoc add.commute [of 1])
    finally show ?thesis by (simp add: ms)
  qed
qed

text \<open>The text of every C \<open>int\<close> in every base fits into 33 bytes and a terminating zero.\<close>

lemma length_itoa_text:
  assumes "2 \<le> base" and "\<bar>val\<bar> \<le> 2 ^ 31"
  shows "length (itoa_text val base) \<le> 33" and "length (digits (nat base) (nat \<bar>val\<bar>)) \<le> 32"
proof -
  have "nat \<bar>val\<bar> < 2 ^ 32" using assms(2) by simp
  also have "(2 :: nat) ^ 32 \<le> nat base ^ 32" using assms(1) by (intro power_mono) auto
  finally have "nat \<bar>val\<bar> < nat base ^ 32" .
  then show "length (digits (nat base) (nat \<bar>val\<bar>)) \<le> 32"
    using assms(1) by (intro length_digits) auto
  then show "length (itoa_text val base) \<le> 33" by (auto simp: itoa_text_def)
qed

lemma itoa_run:
  assumes base: "2 \<le> base" "base \<le> 36" and "\<bar>val\<bar> \<le> 2 ^ 31"
    and room: "unat str + length (itoa_text val base) < 4294967296"
  shows "itoa val str base s =
    Some (str, s\<lparr>mem := written (mem s) str (itoa_text val base @ [0])\<rparr>)"
proof -
  define sign :: "u8 list" where "sign = (if val < 0 \<and> base = 10 then [0x2D] else [])"
  let ?ds = "map digit_byte (digits (nat base) (nat \<bar>val\<bar>))"
  have itext: "itoa_text val base = sign @ rev ?ds"
    by (simp add: itoa_text_def sign_def rev_map)
  have room': "unat str + length (sign @ ?ds) < 4294967296"
    using room by (simp add: itext)
  have start: "(if val < 0 \<and> base = 10 then (str + 1, st8 str 0x2D s) else (str, s)) =
      (str + of_nat (length sign), s\<lparr>mem := written (mem s) str sign\<rparr>)"
    using written_snoc [of "[]" "mem s" str "0x2D"] by (simp add: sign_def st8_def)
  have run: "itoa_digits val base (str + of_nat (length sign)) (s\<lparr>mem := written (mem s) str sign\<rparr>) =
      Some (str + of_nat (length (sign @ ?ds)), s\<lparr>mem := written (mem s) str (sign @ ?ds)\<rparr>)"
    using itoa_digits_run [OF base, of sign val] room' by (simp add: Let_def)
  have zero: "store8 (written (mem s) str (sign @ ?ds)) (str + of_nat (length (sign @ ?ds))) 0 =
      written (mem s) str (sign @ ?ds @ [0])"
    using written_snoc [of "sign @ ?ds"] room' by simp
  have inv: "invert (str + of_nat (length sign)) (str + of_nat (length (sign @ ?ds)) - 1)
      (s\<lparr>mem := written (mem s) str (sign @ ?ds @ [0])\<rparr>) =
      s\<lparr>mem := written (mem s) str (sign @ rev ?ds @ [0])\<rparr>"
    using invert_run [of str sign ?ds "[0]"] room' by (cases ?ds) auto
  have ok: "\<not> (base < 2 \<or> base > 36)" using base by auto
  show ?thesis
    unfolding itoa_def if_not_P [OF ok] start Let_def prod.case run bind.bind_lunit
    using inv by (simp add: st8_def zero [simplified] itext)
qed


section \<open>Wide strings\<close>

text \<open>The low bytes of the first \<open>n\<close> characters.\<close>

definition low_bytes :: "mem \<Rightarrow> u32 \<Rightarrow> nat \<Rightarrow> u8 list" where
  "low_bytes m wstr n = map (\<lambda>i. load8 m (wstr + 2 * of_nat i)) [0..<n]"

lemma ucast_load16 [simp, mem_simps]: "(ucast (load16 m p) :: u8) = load8 m p"
  unfolding load16_def load8_def by (rule bit_word_eqI) (auto simp: bit_simps)

lemma wstr_loop_run:
  assumes "i + k = n" and "n < 4294967296"
    and "\<And>i j. i < n \<Longrightarrow> j < n \<Longrightarrow> wstr + 2 * of_nat i \<noteq> str + of_nat j"
  shows "wstr_loop wstr str (of_nat i) (of_nat n) (s\<lparr>mem := written m str (low_bytes m wstr i)\<rparr>) =
    s\<lparr>mem := written m str (low_bytes m wstr n)\<rparr>"
  using assms(1)
proof (induction k arbitrary: i)
  case 0
  then show ?case by (subst wstr_loop.simps) simp
next
  case (Suc k)
  have lt: "(of_nat i :: u32) < of_nat n"
    using Suc.prems assms(2) by (simp add: word_less_nat_alt unat_of_nat_u32)
  have len: "length (low_bytes m wstr i) = i" "i < 4294967296"
    using Suc.prems assms(2) by (auto simp: low_bytes_def)
  have read: "load8 (written m str (low_bytes m wstr i)) (wstr + 2 * of_nat i) = load8 m (wstr + 2 * of_nat i)"
  proof (rule load8_written_other, rule ccontr)
    assume "\<not> length (low_bytes m wstr i) \<le> unat (wstr + 2 * of_nat i - str)"
    then have lt: "unat (wstr + 2 * of_nat i - str) < i" by (simp add: len)
    then have "wstr + 2 * of_nat i = str + of_nat (unat (wstr + 2 * of_nat i - str))" by simp
    moreover have "i < n" using Suc.prems by simp
    ultimately show False using assms(3) [of i "unat (wstr + 2 * of_nat i - str)"] lt by simp
  qed
  have ext: "low_bytes m wstr (Suc i) = low_bytes m wstr i @ [load8 m (wstr + 2 * of_nat i)]"
    by (simp add: low_bytes_def)
  have "store8 (written m str (low_bytes m wstr i)) (str + of_nat i) (load8 m (wstr + 2 * of_nat i)) =
      written m str (low_bytes m wstr (Suc i))"
    using written_snoc [of "low_bytes m wstr i" m str] len ext by simp
  with Suc.IH [of "Suc i"] Suc.prems lt show ?case
    by (subst wstr_loop.simps) (simp add: st8_def read add.commute [of 1])
qed

lemma wstr_to_str_run:
  defines "n wlen len \<equiv> min (unat (wlen div 2 :: u32)) (unat (len :: u32))"
  assumes "\<And>i j. i < n wlen len \<Longrightarrow> j < n wlen len \<Longrightarrow> wstr + 2 * of_nat i \<noteq> str + of_nat j"
  shows "wstr_to_str wstr wlen str len s =
    (str, s\<lparr>mem := written (mem s) str (low_bytes (mem s) wstr (n wlen len) @ [0])\<rparr>)"
proof -
  let ?n = "n wlen len"
  have lt: "?n < 4294967296"
    unfolding n_def using unat_u32_lt [of len] by (simp add: min_def)
  have l: "(if wlen div 2 > len then len else wlen div 2) = of_nat ?n"
    by (auto simp: n_def word_less_nat_alt min_def)
  have "wstr_loop wstr str 0 (of_nat ?n) s = s\<lparr>mem := written (mem s) str (low_bytes (mem s) wstr ?n)\<rparr>"
    using wstr_loop_run [of 0 ?n ?n wstr str "mem s" s] lt assms(2) by (simp add: low_bytes_def)
  moreover have "length (low_bytes (mem s) wstr ?n) = ?n" by (simp add: low_bytes_def)
  ultimately show ?thesis
    using written_snoc [of "low_bytes (mem s) wstr ?n"] lt by (simp add: wstr_to_str_def l st8_def)
qed


section \<open>Scrolling\<close>

lemma scroll_copy_run:
  assumes "unat src + n = unat e" and "unat dst \<le> unat src"
  shows "scroll_copy dst src e s = (dst + of_nat n, copy_loop dst src (dst + of_nat n) s)"
  using assms
proof (induction n arbitrary: dst src s)
  case 0
  then show ?case
    by (subst scroll_copy.simps, subst copy_loop.simps) (simp add: word_less_nat_alt)
next
  case (Suc n)
  have "unat (src + 1) = unat src + 1" using Suc.prems by (intro unat_step_u32 [of _ e]) simp
  moreover have "unat (dst + 1) = unat dst + 1" using Suc.prems by (intro unat_step_u32 [of _ e]) simp
  moreover have lt: "unat dst + Suc n < 4294967296"
    using Suc.prems unat_u32_lt [of e] by linarith
  then have "unat (of_nat (Suc n) :: u32) = Suc n"
    by (intro unat_of_nat_u32) linarith
  with lt have "unat (dst + of_nat (Suc n)) = unat dst + Suc n"
    by (subst unat_add_u32) (simp_all del: of_nat_Suc)
  then have "dst < dst + of_nat (Suc n)" by (simp add: word_less_nat_alt)
  ultimately show ?case
    using Suc.prems Suc.IH [of "src + 1" "dst + 1"]
    by (subst scroll_copy.simps, subst copy_loop.simps) (simp add: word_less_nat_alt add.assoc)
qed


text \<open>The text page: 50 rows of 160 bytes from \<open>0xB8000\<close>, of which the first 25 are shown.\<close>

abbreviation text_page :: "nat set" where
  "text_page \<equiv> {0xB8000..<0xB8000 + 8000}"

definition cell :: "nat \<Rightarrow> nat \<Rightarrow> u32" where
  "cell r c = of_nat (0xB8000 + 160 * r + 2 * c)"

lemma unat_cell: "r < 50 \<Longrightarrow> c < 80 \<Longrightarrow> unat (cell r c) = 0xB8000 + 160 * r + 2 * c"
  unfolding cell_def by (intro unat_of_nat_u32) simp

lemma scroll_blank_run:
  assumes "unat i + k = 80"
  shows "scroll_blank i d s = s\<lparr>mem := written (mem s) d (concat (replicate k [0x20, 0x07]))\<rparr>"
  using assms
proof (induction k arbitrary: i d s)
  case 0
  then show ?case by (subst scroll_blank.simps) (simp add: word_less_nat_alt)
next
  case (Suc k)
  have lt: "unat i < 80" using Suc.prems by simp
  then have i1: "unat (i + 1) + k = 80" using Suc.prems by (simp add: unat_word_ariths)
  let ?r = "concat (replicate k [0x20, 0x07]) :: u8 list"
  have len: "length ?r = 2 * k" by (induction k) auto
  have "written (store8 (store8 m d 0x20) (d + 1) 0x07) (d + 2) ?r = written m d (0x20 # 0x07 # ?r)" for m
  proof
    fix x
    have k: "2 * k < 4294967295" using Suc.prems by simp
    have a: "unat (x - d) < Suc (Suc (2 * k)) \<longleftrightarrow> x = d \<or> unat (x - (d + 1)) < Suc (2 * k) \<and> x \<noteq> d"
      using k by (intro offset_Suc) simp
    have b: "unat (x - (d + 1)) < Suc (2 * k) \<longleftrightarrow> x = d + 1 \<or> unat (x - (d + 1 + 1)) < 2 * k \<and> x \<noteq> d + 1"
      using k by (intro offset_Suc) simp
    have c: "unat (x - d) = Suc (Suc (unat (x - (d + 2))))" if "x \<noteq> d" "x \<noteq> d + 1"
    proof -
      have "x - d \<noteq> 0" "x - d - 1 \<noteq> 0" using that by (auto simp: algebra_simps)
      note nz = this
      have "unat (x - d - 1) = unat (x - d) - 1" "unat (x - d - 1 - 1) = unat (x - d - 1) - 1"
        using unat_pred_u32 nz by blast+
      moreover have "0 < unat (x - d)" "0 < unat (x - d - 1)"
        using nz unfolding unat_gt_0 .
      moreover have "x - (d + 2) = x - d - 1 - 1" by simp
      ultimately show ?thesis by (metis Suc_diff_1)
    qed
    consider "x = d" | "x = d + 1" | "x \<noteq> d" "x \<noteq> d + 1" by blast
    then show "written (store8 (store8 m d 0x20) (d + 1) 0x07) (d + 2) ?r x = written m d (0x20 # 0x07 # ?r) x"
    proof cases
      case 1
      have "unat (- 2 :: u32) = 4294967294" by simp
      then show ?thesis using 1 k len by (simp add: written_def store8_def)
    next
      case 2
      have "unat (- 1 :: u32) = 4294967295" by (simp add: unsigned_minus_1_eq_mask mask_eq_exp_minus_1)
      then show ?thesis using 2 k len by (simp add: written_def store8_def)
    next
      case 3
      then show ?thesis using c [OF 3] len by (simp add: written_def store8_def)
    qed
  qed
  with Suc.IH [OF i1] lt show ?case
    by (subst scroll_blank.simps) (simp add: word_less_nat_alt st8_def)
qed


lemma screen_scroll_run:
  "screen_scroll s = s\<lparr>mem := written (copied (mem s) 0xB8000 0xB80A0 7840) 0xB9EA0
     (concat (replicate 80 [0x20, 0x07]))\<rparr>"
proof -
  have "scroll_copy 0xB8000 0xB80A0 0xB9F40 s = (0xB8000 + of_nat 7840, copy_loop 0xB8000 0xB80A0 (0xB8000 + of_nat 7840) s)"
    by (rule scroll_copy_run) simp_all
  moreover have "copy_loop 0xB8000 0xB80A0 (0xB8000 + of_nat 7840) s = s\<lparr>mem := copied (mem s) 0xB8000 0xB80A0 7840\<rparr>"
    by (rule copy_loop_run) simp_all
  ultimately show ?thesis
    by (simp add: screen_scroll_def scroll_blank_run [of 0 80])
qed

lemma blank_row_nth:
  "i < 2 * k \<Longrightarrow> concat (replicate k [x, y]) ! i = (if even i then x else y)"
proof (induction k arbitrary: i)
  case (Suc k)
  then show ?case by (cases i; cases "i - 1") (auto simp: nth_Cons split: nat.splits)
qed simp

lemma length_blank_row [simp]: "length (concat (replicate k [x, y])) = 2 * k"
  by (induction k) auto

text \<open>Scrolling, byte by byte.\<close>

lemma mem_scroll:
  assumes "unat x = 0xB8000 + i" and "i < 8000"
  shows "mem (screen_scroll s) x =
    (if i < 7840 then mem s (x + 160) else if even i then 0x20 else 0x07)"
proof -
  have o: "unat (x - 0xB8000) = i" using assms(1) by (simp add: unat_diff_u32)
  have a: "i < 7840 \<Longrightarrow> \<not> unat (x - 0xB9EA0) < 160"
    using assms by (subst unat_diff_wrap_u32) auto
  have b: "7840 \<le> i \<Longrightarrow> unat (x - 0xB9EA0) = i - 7840"
    using assms by (simp add: unat_diff_u32)
  show ?thesis
    using o a b assms(2)
    by (auto simp: screen_scroll_run written_def copied_def blank_row_nth algebra_simps)
qed

lemma scroll_frame: "same_on (mem s) (mem (screen_scroll s)) (- text_page)"
proof -
  have "same_on m (copied m 0xB8000 0xB80A0 7840) (- text_page)" for m
    by (auto simp: same_on_def copied_range)
  moreover have "same_on m (written m 0xB9EA0 (concat (replicate 80 [0x20, 0x07]))) (- text_page)" for m
    by (rule same_on_mono [OF written_same]) auto
  ultimately show ?thesis
    unfolding screen_scroll_run mem_upd by (blast intro: same_on_trans)
qed



section \<open>Printing\<close>

definition on_screen :: "'a display_state_scheme \<Rightarrow> bool" where
  "on_screen s \<longleftrightarrow> unat (curs_row s) < 25 \<and> unat (curs_col s) < 80"

text \<open>What printing may change: the text page, the cursor and the log.\<close>

definition display_only :: "'a display_state_scheme \<Rightarrow> 'a display_state_scheme \<Rightarrow> bool" where
  "display_only s s' \<longleftrightarrow>
     same_on (mem s) (mem s') (- text_page) \<and>
     (\<exists>m l r c. s' = s\<lparr>mem := m, io_log := l, curs_row := r, curs_col := c\<rparr>)"

lemma display_only_refl [simp, intro]: "display_only s s"
proof -
  have "s = s\<lparr>mem := mem s, io_log := io_log s, curs_row := curs_row s, curs_col := curs_col s\<rparr>" by simp
  then show ?thesis unfolding display_only_def by blast
qed

lemma display_only_trans: "display_only s s' \<Longrightarrow> display_only s' s'' \<Longrightarrow> display_only s s''"
proof -
  assume a: "display_only s s'" and b: "display_only s' s''"
  from a obtain m l r c where 1: "s' = s\<lparr>mem := m, io_log := l, curs_row := r, curs_col := c\<rparr>"
    by (auto simp: display_only_def)
  from b obtain m' l' r' c' where "s'' = s'\<lparr>mem := m', io_log := l', curs_row := r', curs_col := c'\<rparr>"
    by (auto simp: display_only_def)
  then have "s'' = s\<lparr>mem := m', io_log := l', curs_row := r', curs_col := c'\<rparr>" by (simp add: 1)
  with a b show ?thesis unfolding display_only_def by (blast intro: same_on_trans)
qed

lemma display_only_heap: "display_only s s' \<Longrightarrow> free_block_head s' = free_block_head s"
  by (auto simp: display_only_def)

lemma display_onlyI:
  "same_on (mem s) m (- text_page) \<Longrightarrow> display_only s (s\<lparr>mem := m, io_log := l, curs_row := r, curs_col := c\<rparr>)"
  unfolding display_only_def by auto

lemma scroll_fields [simp]:
  "curs_row (screen_scroll s) = curs_row s" "curs_col (screen_scroll s) = curs_col s"
  "io_log (screen_scroll s) = io_log s"
  by (simp_all add: screen_scroll_run)

lemma newline_only: "display_only s (advance_cursor_newline s)"
proof (cases "unat (curs_row s) + 1 = 25")
  case True
  have "advance_cursor_newline s =
      s\<lparr>mem := mem (screen_scroll s), io_log := io_log s, curs_row := curs_row s, curs_col := 0\<rparr>"
    using True by (simp add: advance_cursor_newline_def screen_scroll_run)
  then show ?thesis using display_onlyI [OF scroll_frame] by metis
next
  case False
  then have "advance_cursor_newline s =
      s\<lparr>mem := mem s, io_log := io_log s, curs_row := curs_row s + 1, curs_col := 0\<rparr>"
    by (simp add: advance_cursor_newline_def)
  then show ?thesis using display_onlyI [OF same_on_refl] by metis
qed

lemma newline_on_screen: "on_screen s \<Longrightarrow> on_screen (advance_cursor_newline s)"
  by (auto simp: on_screen_def advance_cursor_newline_def unat_word_ariths)

lemma advance_only: "display_only s (advance_cursor s)"
proof (cases "unat (curs_col s) + 1 = 80")
  case True
  then show ?thesis by (simp add: advance_cursor_def newline_only)
next
  case False
  then have "advance_cursor s =
      s\<lparr>mem := mem s, io_log := io_log s, curs_row := curs_row s, curs_col := curs_col s + 1\<rparr>"
    by (simp add: advance_cursor_def)
  then show ?thesis using display_onlyI [OF same_on_refl] by metis
qed

lemma advance_on_screen: "on_screen s \<Longrightarrow> on_screen (advance_cursor s)"
  using newline_on_screen [of s] by (auto simp: on_screen_def advance_cursor_def unat_word_ariths)

text \<open>Where the next character goes.\<close>

lemma video_cell:
  assumes "on_screen s"
  shows "0xB8000 + ucast (curs_row s) * 80 * 2 + ucast (curs_col s) * 2 =
    cell (unat (curs_row s)) (unat (curs_col s))"
  by (simp add: cell_def)

lemma print_char_eq:
  assumes "on_screen s"
  shows "print_char ch s =
    (let p = cell (unat (curs_row s)) (unat (curs_col s)) in
     if ch = 0x0A then advance_cursor_newline s else advance_cursor (st8 (p + 1) 0x07 (st8 p ch s)))"
  using video_cell [OF assms] by (simp add: print_char_def Let_def)

lemma cell_in_page:
  assumes "r < 50" "c < 80"
  shows "unat (cell r c) \<in> text_page" "unat (cell r c + 1) \<in> text_page" "unat (cell r c + 1) = unat (cell r c) + 1"
proof -
  note u = unat_cell [OF assms]
  then show n: "unat (cell r c + 1) = unat (cell r c) + 1"
    using assms by (subst unat_add_u32) auto
  show "unat (cell r c) \<in> text_page" "unat (cell r c + 1) \<in> text_page"
    unfolding n u using assms by auto
qed

lemma print_char_step:
  assumes "on_screen s"
  shows "on_screen (print_char ch s)" and "display_only s (print_char ch s)"
    and "io_log (print_char ch s) = io_log s"
proof -
  let ?p = "cell (unat (curs_row s)) (unat (curs_col s))"
  let ?s = "st8 (?p + 1) 0x07 (st8 ?p ch s)"
  have rc: "unat (curs_row s) < 50" "unat (curs_col s) < 80"
    using assms by (auto simp: on_screen_def)
  have "same_on (mem s) (mem ?s) (- text_page)"
    using cell_in_page [OF rc] by (simp add: same_on_def store8_def)
  then have "display_only s (s\<lparr>mem := mem ?s, io_log := io_log s, curs_row := curs_row s, curs_col := curs_col s\<rparr>)"
    by (rule display_onlyI)
  then have only: "display_only s ?s" by (simp add: st8_def)
  have on: "on_screen ?s" using assms by (simp add: on_screen_def st8_def)
  show "on_screen (print_char ch s)"
    using assms on by (simp add: print_char_eq [OF assms] Let_def newline_on_screen advance_on_screen)
  show "display_only s (print_char ch s)"
    using display_only_trans [OF only advance_only]
    by (simp add: print_char_eq [OF assms] Let_def newline_only)
  show "io_log (print_char ch s) = io_log s"
    by (simp add: print_char_eq [OF assms] Let_def advance_cursor_def advance_cursor_newline_def)
qed

lemma print_chars_step:
  assumes "on_screen s"
  shows "on_screen (fold print_char cs s)" and "display_only s (fold print_char cs s)"
    and "io_log (fold print_char cs s) = io_log s"
proof -
  have "on_screen (fold print_char cs s) \<and> display_only s (fold print_char cs s) \<and> io_log (fold print_char cs s) = io_log s"
    using assms
  proof (induction cs arbitrary: s)
    case (Cons ch cs)
    note st = print_char_step [OF Cons.prems, of ch]
    from Cons.IH [OF st(1)] st display_only_trans [OF st(2)] show ?case by auto
  qed simp
  then show "on_screen (fold print_char cs s)" "display_only s (fold print_char cs s)"
    "io_log (fold print_char cs s) = io_log s" by simp_all
qed


text \<open>A string in memory, outside of the text page, is printed like the list of its bytes.\<close>

definition off_screen :: "u32 \<Rightarrow> nat \<Rightarrow> bool" where
  "off_screen p n \<longleftrightarrow> (\<forall>i \<le> n. unat (p + of_nat i) \<notin> text_page)"

lemma off_screenI:
  assumes "unat p + n < 0xB8000 \<or> 0xB8000 + 8000 \<le> unat p \<and> unat p + n < 4294967296"
  shows "off_screen p n"
proof -
  have "unat (p + of_nat i) = unat p + i" if "i \<le> n" for i
    using assms that by (subst unat_add_u32) (auto simp: unat_of_nat_u32)
  then show ?thesis using assms by (auto simp: off_screen_def)
qed

lemma off_screen_Suc: "off_screen p (Suc n) \<longleftrightarrow> unat p \<notin> text_page \<and> off_screen (p + 1) n"
proof -
  have "(\<forall>i \<le> Suc n. unat (p + of_nat i) \<notin> text_page) \<longleftrightarrow>
      unat p \<notin> text_page \<and> (\<forall>i \<le> n. unat (p + of_nat (Suc i)) \<notin> text_page)"
    using All_less_Suc2 [of "Suc n" "\<lambda>i. unat (p + of_nat i) \<notin> text_page"]
    unfolding less_Suc_eq_le by (simp del: of_nat_Suc)
  then show ?thesis by (simp add: off_screen_def add.assoc)
qed

lemma print_loop_run:
  assumes "on_screen s" and "cstring (mem s) p n" and "off_screen p n"
  shows "print_loop p s = Some (fold print_char (read_bytes (mem s) p n) s)"
  using assms
proof (induction n arbitrary: p s)
  case 0
  then show ?case by (subst print_loop.simps) (simp add: read_bytes_def)
next
  case (Suc n)
  let ?s = "print_char (ld8 p s) s"
  have tail: "cstring (mem s) (p + 1) n" "ld8 p s \<noteq> 0" "off_screen (p + 1) n"
    using Suc.prems by (auto simp: cstring_Suc off_screen_Suc)
  note st = print_char_step [OF Suc.prems(1), of "ld8 p s"]
  have same: "load8 (mem ?s) (p + 1 + of_nat i) = load8 (mem s) (p + 1 + of_nat i)" if "i \<le> n" for i
    using st(2) tail(3) that by (auto simp: display_only_def off_screen_def same_on_def load8_def)
  have "cstring (mem ?s) (p + 1) n"
    using tail(1) same by (auto simp: cstring_def)
  moreover have "read_bytes (mem ?s) (p + 1) n = read_bytes (mem s) (p + 1) n"
    using same by (intro read_bytes_cong) auto
  ultimately show ?case
    using Suc.IH [OF st(1) _ tail(3)] tail(2)
    by (subst print_loop.simps) (simp add: read_bytes_Suc)
qed

lemma print_string_run:
  assumes "on_screen s" and "cstring (mem s) p n" and "off_screen p n"
  shows "print_string p s = Some (print_text (read_bytes (mem s) p n) s)"
  by (simp add: print_string_def print_text_def print_loop_run [OF assms] Let_def)

text \<open>Text without a newline that fits into the rest of the row.\<close>

definition row_bytes :: "u8 list \<Rightarrow> u8 list" where
  "row_bytes cs = concat (map (\<lambda>ch. [ch, 0x07]) cs)"

lemma length_row_bytes [simp]: "length (row_bytes cs) = 2 * length cs"
  by (induction cs) (auto simp: row_bytes_def)

lemma mem_curs_col: "s\<lparr>curs_col := c, mem := m\<rparr> = s\<lparr>mem := m, curs_col := c\<rparr>"
  by (cases s) simp

lemma print_line_run:
  assumes "on_screen s" and "0x0A \<notin> set cs" and "unat (curs_col s) + length cs < 80"
  shows "fold print_char cs s = s\<lparr>mem := written (mem s) (cell (unat (curs_row s)) (unat (curs_col s))) (row_bytes cs),
    curs_col := curs_col s + of_nat (length cs)\<rparr>"
  using assms(2,3)
proof (induction cs rule: rev_induct)
  case Nil
  then show ?case by (simp add: row_bytes_def)
next
  case (snoc ch cs)
  let ?p = "cell (unat (curs_row s)) (unat (curs_col s))"
  let ?s = "s\<lparr>mem := written (mem s) ?p (row_bytes cs), curs_col := curs_col s + of_nat (length cs)\<rparr>"
  have col: "unat (curs_col s + of_nat (length cs)) = unat (curs_col s) + length cs"
    using snoc.prems(2) by (simp add: unat_word_ariths unat_of_nat)
  have on: "on_screen ?s"
    using assms(1) snoc.prems(2) col by (simp add: on_screen_def)
  have here: "cell (unat (curs_row s)) (unat (curs_col s) + length cs) = ?p + of_nat (length (row_bytes cs))"
    by (simp add: cell_def)
  have two: "store8 (store8 (written m p (row_bytes cs)) (p + of_nat (length (row_bytes cs))) ch)
      (p + of_nat (length (row_bytes cs)) + 1) 0x07 = written m p (row_bytes (cs @ [ch]))" for m p
  proof -
    have len: "length (row_bytes cs) < 4294967295" using snoc.prems(2) by simp
    have "written m p (row_bytes (cs @ [ch])) = written m p ((row_bytes cs @ [ch]) @ [0x07])"
      by (simp add: row_bytes_def)
    also have "\<dots> = store8 (written m p (row_bytes cs @ [ch])) (p + of_nat (length (row_bytes cs @ [ch]))) 0x07"
      using len by (intro written_snoc [symmetric]) simp
    also have "written m p (row_bytes cs @ [ch]) = store8 (written m p (row_bytes cs)) (p + of_nat (length (row_bytes cs))) ch"
      using len by (intro written_snoc [symmetric]) simp
    finally show ?thesis by (simp add: algebra_simps)
  qed
  have "fold print_char (cs @ [ch]) s = print_char ch ?s"
    using snoc by simp
  also have "\<dots> = advance_cursor (s\<lparr>mem := written (mem s) ?p (row_bytes (cs @ [ch])), curs_col := curs_col s + of_nat (length cs)\<rparr>)"
    using snoc.prems(1) two by (simp add: print_char_eq [OF on] Let_def col here st8_def mem_curs_col)
  also have "\<dots> = s\<lparr>mem := written (mem s) ?p (row_bytes (cs @ [ch])), curs_col := curs_col s + of_nat (length (cs @ [ch]))\<rparr>"
    using snoc.prems(2) by (simp add: advance_cursor_def col add.assoc add.commute [of 1])
  finally show ?case .
qed


section \<open>Printing numbers\<close>

text \<open>Reading the text back.\<close>

definition digit_value :: "u8 \<Rightarrow> nat" where
  "digit_value b = (if 0x61 \<le> b then unat b - 0x61 + 10 else unat b - 0x30)"

definition parse_int :: "int \<Rightarrow> u8 list \<Rightarrow> int" where
  "parse_int base bs =
     (if bs \<noteq> [] \<and> hd bs = 0x2D then - int (undigits (nat base) (map digit_value (rev (tl bs))))
      else int (undigits (nat base) (map digit_value (rev bs))))"

lemma digit_byte_facts:
  assumes "k < 36"
  shows "digit_value (digit_byte k) = k" "digit_byte k \<noteq> 0x2D" "digit_byte k \<noteq> 0" "digit_byte k \<noteq> 0x0A"
proof -
  have "list_all (\<lambda>k. digit_value (digit_byte k) = k \<and> digit_byte k \<noteq> 0x2D \<and> digit_byte k \<noteq> 0 \<and> digit_byte k \<noteq> 0x0A) [0..<36]"
    by code_simp
  then show "digit_value (digit_byte k) = k" "digit_byte k \<noteq> 0x2D" "digit_byte k \<noteq> 0" "digit_byte k \<noteq> 0x0A"
    using assms by (simp_all add: list_all_iff)
qed

lemma digits_36:
  assumes "2 \<le> base" and "base \<le> 36" and "d \<in> set (digits (nat base) n)"
  shows "d < 36"
proof -
  have "2 \<le> nat base" "nat base \<le> 36" using assms(1,2) by auto
  with digits_less [OF this(1) assms(3)] show ?thesis by simp
qed

lemma itoa_text_plain:
  assumes "2 \<le> base" and "base \<le> 36"
  shows "0 \<notin> set (itoa_text val base)" and "0x0A \<notin> set (itoa_text val base)"
  using digits_36 [OF assms] digit_byte_facts(3,4) by (fastforce simp: itoa_text_def)+

lemma parse_itoa_text:
  assumes "2 \<le> base" and "base \<le> 36" and "0 \<le> val \<or> base = 10"
  shows "parse_int base (itoa_text val base) = val"
proof -
  let ?ds = "digits (nat base) (nat \<bar>val\<bar>)"
  have val: "map digit_value (map digit_byte ?ds) = ?ds"
    using digits_36 [OF assms(1,2)] digit_byte_facts(1) by (simp add: map_idI)
  have und: "undigits (nat base) ?ds = nat \<bar>val\<bar>"
    using assms(1) by (simp add: undigits_digits)
  have "hd (map digit_byte (rev ?ds)) = digit_byte (last ?ds)"
    by (simp add: hd_map hd_rev)
  then have "hd (map digit_byte (rev ?ds)) \<noteq> 0x2D"
    using digits_36 [OF assms(1,2), of "last ?ds" "nat \<bar>val\<bar>"] digit_byte_facts(2) by simp
  then show ?thesis
    using assms(3) val und by (auto simp: parse_int_def itoa_text_def rev_map)
qed

lemma print_number_run:
  assumes base: "2 \<le> base" "base \<le> 36" and val: "\<bar>val\<bar> \<le> 2 ^ 31" and on: "on_screen s"
    and buf: "unat buf + length (itoa_text val base) < 4294967296" "off_screen buf (length (itoa_text val base))"
  shows "print_number buf val base s =
    Some (print_text (itoa_text val base) (s\<lparr>mem := written (mem s) buf (itoa_text val base @ [0])\<rparr>))"
proof -
  let ?s = "s\<lparr>mem := written (mem s) buf (itoa_text val base @ [0])\<rparr>"
  have len: "length (itoa_text val base) < 4294967296" using buf(1) by simp
  have on': "on_screen ?s" using on by (simp add: on_screen_def)
  have "cstring (mem ?s) buf (length (itoa_text val base))"
    using cstring_written [OF itoa_text_plain(1) [OF base] len] by simp
  moreover have "read_bytes (mem ?s) buf (length (itoa_text val base)) = itoa_text val base"
  proof -
    have "load8 (written (mem s) buf (itoa_text val base @ [0])) (buf + of_nat i) = itoa_text val base ! i"
      if "i < length (itoa_text val base)" for i
      using that len by (subst load8_written) (auto simp: nth_append)
    then show ?thesis by (intro nth_equalityI) (simp_all add: read_bytes_def)
  qed
  ultimately show ?thesis
    using print_string_run [OF on' _ buf(2)]
    by (simp add: print_number_def itoa_run [OF base val buf(1)])
qed


text \<open>The four port writes that move the hardware cursor.\<close>

definition cursor_events :: "nat \<Rightarrow> io_event list" where
  "cursor_events pos = [OutB 0x3d4 0xf, OutB 0x3d5 (of_nat (pos mod 256)),
     OutB 0x3d4 0xe, OutB 0x3d5 (of_nat (pos div 256))]"

lemma move_vga_cursor_run:
  assumes "unat row < 25" and "unat col < 80"
  shows "move_vga_cursor col row s = s\<lparr>io_log := io_log s @ cursor_events (unat row * 80 + unat col)\<rparr>"
proof -
  let ?p = "ucast row * 80 + ucast col :: u16"
  have p: "unat ?p = unat row * 80 + unat col"
    using assms by (simp add: unat_word_ariths)
  have lo: "ucast (?p AND 0xFF) = (of_nat (unat ?p mod 256) :: u8)"
  proof -
    have "unat (?p AND 0xFF) = unat ?p mod 256"
      using unat_and_mask_mod [of ?p 8] by (simp add: mask_eq_exp_minus_1)
    then show ?thesis by (metis of_nat_unat)
  qed
  have hi: "ucast (drop_bit 8 ?p AND 0xFF) = (of_nat (unat ?p div 256) :: u8)"
  proof -
    have "unat (drop_bit 8 ?p) = unat ?p div 256" by (simp only: unat_drop_bit_div) simp
    moreover have "unat ?p div 256 < 256" using p assms by simp
    ultimately have "unat (drop_bit 8 ?p AND 0xFF) = unat ?p div 256"
      using unat_and_mask_mod [of "drop_bit 8 ?p" 8] by (simp add: mask_eq_exp_minus_1)
    then show ?thesis by (metis of_nat_unat)
  qed
  show ?thesis
    unfolding move_vga_cursor_def Let_def lo hi p by (simp add: port_defs log_event_def cursor_events_def)
qed

lemma print_chars_safe:
  assumes "on_screen s"
  shows "on_screen (print_text cs s)" and "display_only s (print_text cs s)"
    and "io_log (print_text cs s) = io_log s @
      cursor_events (unat (curs_row (print_text cs s)) * 80 + unat (curs_col (print_text cs s)))"
proof -
  let ?t = "fold print_char cs s"
  note st = print_chars_step [OF assms, of cs]
  have run: "print_text cs s = ?t\<lparr>io_log := io_log ?t @ cursor_events (unat (curs_row ?t) * 80 + unat (curs_col ?t))\<rparr>"
    using st(1) by (simp add: print_text_def Let_def on_screen_def move_vga_cursor_run)
  obtain l where l: "print_text cs s = ?t\<lparr>io_log := l\<rparr>" using run by blast
  have "?t\<lparr>io_log := l\<rparr> = ?t\<lparr>mem := mem ?t, io_log := l, curs_row := curs_row ?t, curs_col := curs_col ?t\<rparr>"
    by simp
  then have "display_only ?t (print_text cs s)"
    unfolding l by (metis display_onlyI same_on_refl)
  then show "display_only s (print_text cs s)" using st(2) display_only_trans by blast
  show "on_screen (print_text cs s)"
    using st(1) by (simp add: run on_screen_def)
  show "io_log (print_text cs s) = io_log s @
      cursor_events (unat (curs_row (print_text cs s)) * 80 + unat (curs_col (print_text cs s)))"
    using st(3) by (simp add: run)
qed

end
