(* ===== verification/DisplayTheorems.thy ===== *)
theory DisplayTheorems
  imports DisplayProof
begin

text \<open>
  What the text output of \<open>drivers/display/print.c\<close> guarantees.
\<close>

definition blank_screen :: display_state where
  "blank_screen = \<lparr>mem = (\<lambda>_. 0), io_log = [], free_block_head = 0, curs_row = 24, curs_col = 0\<rparr>"

lemma blank_screen_on [simp]: "on_screen blank_screen"
  by (simp add: blank_screen_def on_screen_def)

text \<open>C37: Printing any text with the cursor on the screen leaves the cursor on the screen,
  writes to no byte outside of the text page, changes nothing else of the state, and ends by
  moving the hardware cursor to the new position.\<close>

theorem print_text_safe:
  assumes "on_screen s"
  shows "on_screen (print_text cs s) \<and> display_only s (print_text cs s) \<and>
    io_log (print_text cs s) = io_log s @
      cursor_events (unat (curs_row (print_text cs s)) * 80 + unat (curs_col (print_text cs s)))"
  using print_chars_safe [OF assms] by blast

theorem print_text_safe_witness:
  "on_screen (print_text (text_bytes ''Hello from C!\<newline>'') blank_screen) \<and>
   display_only blank_screen (print_text (text_bytes ''Hello from C!\<newline>'') blank_screen)"
  using print_text_safe [OF blank_screen_on] by blast

text \<open>C38: \<open>print_string\<close> of a pointer to a terminated string outside of the text page returns
  and prints exactly the bytes of the string.\<close>

theorem print_string_correct:
  assumes "on_screen s" and "cstring (mem s) p n" and "off_screen p n"
  shows "print_string p s = Some (print_text (read_bytes (mem s) p n) s)"
  by (rule print_string_run [OF assms])

theorem print_string_correct_witness:
  "print_string 0x1000 (blank_screen\<lparr>mem := (\<lambda>_. 0)(0x1000 := 0x48, 0x1001 := 0x69)\<rparr>) =
    Some (print_text [0x48, 0x69] (blank_screen\<lparr>mem := (\<lambda>_. 0)(0x1000 := 0x48, 0x1001 := 0x69)\<rparr>))"
proof -
  let ?s = "blank_screen\<lparr>mem := (\<lambda>_. 0)(0x1000 := 0x48, 0x1001 := 0x69)\<rparr>"
  have "on_screen ?s" using blank_screen_on by (simp add: on_screen_def)
  moreover have "cstring (mem ?s) 0x1000 2"
    by (auto simp: cstring_def load8_def less_2_cases_iff)
  moreover have "off_screen 0x1000 2"
    by (rule off_screenI) simp
  moreover have "read_bytes (mem ?s) 0x1000 2 = [0x48, 0x69]"
    by (simp add: read_bytes_def numeral_2_eq_2 load8_def)
  ultimately show ?thesis using print_string_correct [of ?s "0x1000" 2] by simp
qed

text \<open>A text without a newline that fits into the rest of the row puts its characters, with
  the light gray attribute, into the cells from the cursor on, and moves the cursor behind
  them; no other byte of memory changes.\<close>

theorem print_text_line:
  assumes "on_screen s" and "0x0A \<notin> set cs" and "unat (curs_col s) + length cs < 80"
  shows "mem (print_text cs s) = written (mem s) (cell (unat (curs_row s)) (unat (curs_col s))) (row_bytes cs) \<and>
    curs_row (print_text cs s) = curs_row s \<and>
    unat (curs_col (print_text cs s)) = unat (curs_col s) + length cs"
proof -
  have "unat (curs_col s + of_nat (length cs)) = unat (curs_col s) + length cs"
    using assms(3) by (simp add: unat_word_ariths unat_of_nat)
  then show ?thesis
    using assms(1,3)
    by (simp add: print_text_def print_line_run [OF assms] on_screen_def move_vga_cursor_run Let_def)
qed

theorem print_text_line_witness:
  "mem (print_text [0x4F, 0x4B] blank_screen) = written (\<lambda>_. 0) (cell 24 0) [0x4F, 7, 0x4B, 7]"
  using print_text_line [OF blank_screen_on, of "[0x4F, 0x4B]"]
  by (simp add: blank_screen_def row_bytes_def)

text \<open>C40: A newline on the last row of the screen scrolls: of the 50 rows of the text page each
  row but the last takes over the row below it, the last row becomes blank, and the cursor
  stays on row 24, in column 0.\<close>

theorem newline_scrolls:
  assumes "unat (curs_row s) = 24"
  shows "(\<forall>r c k. r < 49 \<and> c < 80 \<and> k < 2 \<longrightarrow>
      mem (print_char 0x0A s) (cell r c + k) = mem s (cell (r + 1) c + k)) \<and>
    (\<forall>c < 80. mem (print_char 0x0A s) (cell 49 c) = 0x20 \<and> mem (print_char 0x0A s) (cell 49 c + 1) = 0x07) \<and>
    curs_row (print_char 0x0A s) = 24 \<and> curs_col (print_char 0x0A s) = 0"
proof (intro conjI allI impI)
  have run: "print_char 0x0A s = (screen_scroll s)\<lparr>curs_col := 0\<rparr>"
    using assms by (simp add: print_char_def advance_cursor_newline_def)
  show "curs_row (print_char 0x0A s) = 24" "curs_col (print_char 0x0A s) = 0"
    using assms by (simp_all add: run word_unat_eq_iff)
  fix r c :: nat and k :: u32
  assume a: "r < 49 \<and> c < 80 \<and> k < 2"
  then have k: "unat k < 2" by (simp add: word_less_nat_alt)
  have "unat (cell r c + k) = 0xB8000 + (160 * r + 2 * c + unat k)"
    using a k unat_cell [of r c] by (subst unat_add_u32) auto
  from mem_scroll [OF this, of s] a k
  show "mem (print_char 0x0A s) (cell r c + k) = mem s (cell (r + 1) c + k)"
    by (simp add: run cell_def algebra_simps)
next
  fix c :: nat assume c: "c < 80"
  have run: "print_char 0x0A s = (screen_scroll s)\<lparr>curs_col := 0\<rparr>"
    using assms by (simp add: print_char_def advance_cursor_newline_def)
  have u: "unat (cell 49 c) = 0xB8000 + (7840 + 2 * c)" "unat (cell 49 c + 1) = 0xB8000 + (7840 + 2 * c + 1)"
    using unat_cell [of 49 c] cell_in_page(3) [of 49 c] c by auto
  show "mem (print_char 0x0A s) (cell 49 c) = 0x20" "mem (print_char 0x0A s) (cell 49 c + 1) = 0x07"
    using mem_scroll [OF u(1), of s] mem_scroll [OF u(2), of s] c by (simp_all add: run)
qed

theorem newline_scrolls_witness:
  "mem (print_char 0x0A (blank_screen\<lparr>mem := written (\<lambda>_. 0) (cell 24 0) [0x4F, 0x07]\<rparr>)) (cell 23 0) = 0x4F \<and>
   mem (print_char 0x0A (blank_screen\<lparr>mem := written (\<lambda>_. 0) (cell 24 0) [0x4F, 0x07]\<rparr>)) (cell 49 0) = 0x20"
proof -
  let ?s = "blank_screen\<lparr>mem := written (\<lambda>_. 0) (cell 24 0) [0x4F, 0x07]\<rparr>"
  have "unat (curs_row ?s) = 24" by (simp add: blank_screen_def)
  note n = newline_scrolls [OF this]
  have "mem (print_char 0x0A ?s) (cell 23 0 + 0) = mem ?s (cell (23 + 1) 0 + 0)"
    using n [THEN conjunct1, THEN spec, of 23, THEN spec, of 0, THEN spec, of 0] by simp
  moreover have "mem (print_char 0x0A ?s) (cell 49 0) = 0x20" using n by simp
  ultimately show ?thesis by (simp add: written_def)
qed


text \<open>C36: \<open>itoa\<close> of any C \<open>int\<close> in any base from 2 to 36 returns \<open>str\<close> and has written there, and
  nowhere else, the positional representation (with a minus sign in base 10 only, at most 33
  characters) and a terminating zero.\<close>

theorem itoa_correct:
  assumes "2 \<le> base" and "base \<le> 36" and "\<bar>val\<bar> \<le> 2 ^ 31" and "unat str + 33 < 4294967296"
  shows "itoa val str base s = Some (str, s\<lparr>mem := written (mem s) str (itoa_text val base @ [0])\<rparr>) \<and>
    length (itoa_text val base) \<le> 33"
  using itoa_run [OF assms(1-3), of str s] length_itoa_text(1) [OF assms(1,3)] assms(4) by simp

theorem itoa_correct_witness:
  "itoa (- 2147483648) 0x2000 10 blank_screen =
     Some (0x2000, blank_screen\<lparr>mem := written (mem blank_screen) 0x2000 (itoa_text (- 2147483648) 10 @ [0])\<rparr>)"
  using itoa_correct [of 10 "- 2147483648" "0x2000" blank_screen] by simp

text \<open>Round trip: the text of a number in base 10, and of a nonnegative number in any base
  from 2 to 36, reads back as that number.\<close>

theorem itoa_roundtrip:
  assumes "2 \<le> base" and "base \<le> 36" and "0 \<le> val \<or> base = 10"
  shows "parse_int base (itoa_text val base) = val"
  by (rule parse_itoa_text [OF assms])

theorem itoa_roundtrip_witness: "parse_int 10 (itoa_text (- 40) 10) = - 40"
  by (rule itoa_roundtrip) simp_all

text \<open>\<open>wstr_to_str\<close> returns \<open>str\<close> and has written there the low bytes of the first
  \<open>min (wlen / 2) len\<close> wide characters and a zero byte behind them, so up to \<open>len + 1\<close> bytes,
  when the destination does not overlap the source.\<close>

theorem wstr_to_str_correct:
  fixes wlen len :: u32
  defines "n \<equiv> min (unat wlen div 2) (unat len)"
  assumes "unat str + n < 4294967296" and "unat wstr + 2 * n < 4294967296"
    and "unat str + n \<le> unat wstr \<or> unat wstr + 2 * n \<le> unat str"
  shows "wstr_to_str wstr wlen str len s =
    (str, s\<lparr>mem := written (mem s) str (low_bytes (mem s) wstr n @ [0])\<rparr>)"
proof -
  have n: "min (unat (wlen div 2)) (unat len) = n"
    by (simp add: n_def unat_div)
  have nl: "n < 4294967296" using assms(2) by linarith
  have "wstr + 2 * of_nat i \<noteq> str + of_nat j" if "i < n" "j < n" for i j
  proof -
    have "unat (2 * of_nat i :: u32) = 2 * i"
      using that assms(3) unat_of_nat_u32 [of "2 * i"] by simp
    then have "unat (wstr + 2 * of_nat i) = unat wstr + 2 * i"
      using that assms(3) by (subst unat_add_u32) auto
    moreover have "unat (str + of_nat j) = unat str + j"
      using that assms(2) by (subst unat_add_u32) (auto simp: unat_of_nat_u32)
    ultimately show ?thesis using assms(4) that by auto
  qed
  then show ?thesis
    using wstr_to_str_run [where wlen = wlen and len = len and s = s] by (simp add: n)
qed

theorem wstr_to_str_correct_witness:
  "wstr_to_str 0x1000 6 0x2000 10 \<lparr>mem = written (\<lambda>_. 0) 0x1000 [0x55, 0, 0x53, 0, 0x42, 0], io_log = []\<rparr> =
    (0x2000, \<lparr>mem = written (written (\<lambda>_. 0) 0x1000 [0x55, 0, 0x53, 0, 0x42, 0]) 0x2000 [0x55, 0x53, 0x42, 0], io_log = []\<rparr>)"
proof -
  have u: "unat (0x1000 :: u32) = 0x1000" "unat (0x2000 :: u32) = 0x2000" "unat (6 :: u32) = 6" "unat (10 :: u32) = 10"
    by simp_all
  have three: "min (6 div 2) 10 = Suc (Suc (Suc (0 :: nat)))" by simp
  show ?thesis
    by (subst wstr_to_str_correct; simp only: u three)
      (simp_all add: low_bytes_def load8_def, simp add: written_def)
qed

end
