(* ===== verification/Links.thy ===== *)
theory Links
  imports Machine
begin

text \<open>
  Singly linked lists of structures in memory, as the handler chains of \<open>arch/idt.c\<close> and the
  queue of pending transfers of \<open>drivers/usb/uhci.c\<close> build them: a node of \<open>sz\<close> bytes holds the
  address of its successor in a field, the last one holds NULL. The locale is the interface of
  such a list; it is interpreted for both node types where they are modelled.
\<close>

text \<open>The nodes in memory as a list of addresses.\<close>

fun linked :: "(u32 \<Rightarrow> u32) \<Rightarrow> mem \<Rightarrow> u32 \<Rightarrow> u32 list \<Rightarrow> bool" where
  "linked nxt m p [] \<longleftrightarrow> p = 0"
| "linked nxt m p (h # hs) \<longleftrightarrow> p = h \<and> h \<noteq> 0 \<and> linked nxt m (load32 m (nxt h)) hs"

text \<open>The bytes of a node, and nodes that do not overlap.\<close>

definition span :: "nat \<Rightarrow> u32 \<Rightarrow> nat set" where
  "span sz h = {unat h..<unat h + sz}"

definition span_ok :: "nat \<Rightarrow> u32 \<Rightarrow> bool" where
  "span_ok sz h \<longleftrightarrow> h \<noteq> 0 \<and> unat h + sz \<le> 4294967296"

lemma load32_span: "same_on m m' S \<Longrightarrow> span 4 p \<subseteq> S \<Longrightarrow> unat p + 4 \<le> 4294967296 \<Longrightarrow> load32 m' p = load32 m p"
  by (rule load32_same) (simp_all add: span_def)

fun spans_apart :: "nat \<Rightarrow> u32 list \<Rightarrow> bool" where
  "spans_apart sz [] \<longleftrightarrow> True"
| "spans_apart sz (h # hs) \<longleftrightarrow>
     span_ok sz h \<and> (\<forall>k \<in> set hs. span sz h \<inter> span sz k = {}) \<and> spans_apart sz hs"

lemma linked_same:
  "linked nxt m p hs \<Longrightarrow> (\<And>h. h \<in> set hs \<Longrightarrow> load32 m' (nxt h) = load32 m (nxt h)) \<Longrightarrow> linked nxt m' p hs"
  by (induction nxt m p hs rule: linked.induct) auto

lemma linked_mid: "linked nxt m p (xs @ h # ys) \<Longrightarrow> h \<noteq> 0 \<and> linked nxt m (load32 m (nxt h)) ys"
  by (induction nxt m p xs rule: linked.induct) auto

lemma linked_start: "linked nxt m p (hs @ [h]) \<Longrightarrow> p \<noteq> 0"
  by (cases hs) auto

lemma spans_apart_ok: "spans_apart sz hs \<Longrightarrow> h \<in> set hs \<Longrightarrow> span_ok sz h"
  by (induction hs) auto

lemma spans_apart_snoc:
  "spans_apart sz hs \<Longrightarrow> span_ok sz h \<Longrightarrow> \<forall>x \<in> set hs. span sz x \<inter> span sz h = {} \<Longrightarrow> spans_apart sz (hs @ [h])"
  by (induction hs) auto

text \<open>The list interface: where the successor field lies, and the loop that looks for the end.\<close>

locale links =
  fixes nxt :: "u32 \<Rightarrow> u32" and sz :: nat
    and seek :: "u32 \<Rightarrow> 'a machine_scheme \<Rightarrow> u32 option"
  assumes field_inside: "span_ok sz h \<Longrightarrow> unat h \<le> unat (nxt h) \<and> unat (nxt h) + 4 \<le> unat h + sz"
    and seek_step: "seek p s = (if ld32 (nxt p) s \<noteq> 0 then seek (ld32 (nxt p) s) s else Some p)"
begin

lemma next_in_span:
  assumes "span_ok sz h"
  shows "{unat (nxt h)..<unat (nxt h) + 4} \<subseteq> span sz h" and "unat (nxt h) + 4 \<le> 4294967296"
  using assms field_inside [OF assms] by (auto simp: span_def span_ok_def)

lemma store_next_other:
  assumes "span_ok sz h" and "span_ok sz k" and "span sz h \<inter> span sz k = {}"
  shows "load32 (store32 m (nxt k) v) (nxt h) = load32 m (nxt h)"
proof (rule load32_same [where S = "span sz h"])
  show "same_on m (store32 m (nxt k) v) (span sz h)"
    using next_in_span [OF assms(2)] assms(3) by (intro same_on_store32) auto
qed (use next_in_span [OF assms(1)] in auto)

text \<open>A write that meets no node of the list keeps the list.\<close>

lemma linked_frame:
  assumes "linked nxt m p hs" and "spans_apart sz hs" and "same_on m m' (\<Union> (span sz ` set hs))"
  shows "linked nxt m' p hs"
proof (rule linked_same [OF assms(1)])
  fix h assume h: "h \<in> set hs"
  note ok = next_in_span [OF spans_apart_ok [OF assms(2) h]]
  show "load32 m' (nxt h) = load32 m (nxt h)"
    by (rule load32_same [OF assms(3)]) (use ok h in auto)
qed

lemma seek_run:
  "linked nxt (mem s) p (hs @ [h]) \<Longrightarrow> seek p s = Some h"
proof (induction hs arbitrary: p)
  case Nil
  then show ?case by (subst seek_step) simp
next
  case (Cons k hs)
  then have "ld32 (nxt k) s \<noteq> 0" by (cases hs) auto
  with Cons show ?case by (subst seek_step) auto
qed

lemma append_node:
  assumes "linked nxt m p (hs @ [k])" and "spans_apart sz (hs @ [k])" and "load32 m (nxt h) = 0"
    and "span_ok sz h" and "\<forall>x \<in> set (hs @ [k]). span sz x \<inter> span sz h = {}"
  shows "linked nxt (store32 m (nxt k) h) p (hs @ [k, h])"
  using assms(1,2,5)
proof (induction hs arbitrary: p)
  case Nil
  have "span sz h \<inter> span sz k = {}" "span_ok sz k"
    using Nil.prems(2,3) by (simp_all add: Int_commute)
  then have "load32 (store32 m (nxt k) h) (nxt h) = 0"
    using store_next_other [OF assms(4)] assms(3) by simp
  moreover have "p = k" "k \<noteq> 0" "h \<noteq> 0" using Nil.prems(1) assms(4) by (simp_all add: span_ok_def)
  ultimately show ?case by simp
next
  case (Cons x hs)
  have "load32 (store32 m (nxt k) h) (nxt x) = load32 m (nxt x)"
    using Cons.prems spans_apart_ok [of sz "x # hs @ [k]"] by (intro store_next_other) auto
  moreover have "linked nxt (store32 m (nxt k) h) (load32 m (nxt x)) (hs @ [k, h])"
    using Cons.prems by (intro Cons.IH) auto
  ultimately show ?case using Cons.prems by simp
qed

end

end
