(* ===== verification/Idt.thy ===== *)
theory Idt
  imports Display Links
begin

text \<open>
  Interrupt dispatch: \<open>arch/idt.c\<close>. A \<open>struct idt_int_handler\<close> is a node in memory, owned by
  whoever registers it, with the handler function at offset 0, \<open>userdata\<close> at offset 4 and
  \<open>_next\<close> at offset 8; \<open>int_handlers\<close> is the static array of the 48 list heads.

  A call through a function pointer is the argument \<open>call\<close>: it maps the address of a
  function to what the function does. \<open>Pit\<close> and \<open>Uhci\<close> supply it.
\<close>

record idt_state = display_state +
  int_handlers :: "u32 list"
  idtr_len :: u16
  idtr_offset :: u32


section \<open>The code\<close>

abbreviation max_isr_cnt :: nat where "max_isr_cnt \<equiv> 48"

definition h_handler :: "u32 \<Rightarrow> u32" where "h_handler h = h"
definition h_userdata :: "u32 \<Rightarrow> u32" where "h_userdata h = h + 4"
definition h_next :: "u32 \<Rightarrow> u32" where "h_next h = h + 8"

partial_function (option) chain_last :: "u32 \<Rightarrow> 'a machine_scheme \<Rightarrow> u32 option" where
  "chain_last elem s =
     (if ld32 (h_next elem) s \<noteq> 0 then chain_last (ld32 (h_next elem) s) s else Some elem)"

definition idt_reg_handler :: "u8 \<Rightarrow> u32 \<Rightarrow> 'a idt_state_scheme \<Rightarrow> 'a idt_state_scheme option" where
  "idt_reg_handler int_n h s =
     (if unat int_n \<ge> max_isr_cnt then Some s
      else
        let s = st32 (h_next h) 0 s in
        if int_handlers s ! unat int_n = 0
        then Some (s\<lparr>int_handlers := (int_handlers s)[unat int_n := h]\<rparr>)
        else do {
          elem \<leftarrow> chain_last (int_handlers s ! unat int_n) s;
          Some (st32 (h_next elem) h s)
        })"

text \<open>The loop over the handlers; the result says whether one has handled the interrupt.\<close>

partial_function (option) isr_chain ::
  "(u32 \<Rightarrow> u8 \<Rightarrow> u32 \<Rightarrow> 'a machine_scheme \<Rightarrow> (bool \<times> 'a machine_scheme) option) \<Rightarrow>
   u8 \<Rightarrow> u32 \<Rightarrow> 'a machine_scheme \<Rightarrow> (bool \<times> 'a machine_scheme) option" where
  "isr_chain call int_n elem s =
     call (ld32 (h_handler elem) s) int_n (ld32 (h_userdata elem) s) s \<bind>
       (\<lambda>(handled, s).
          if handled then Some (True, s)
          else let elem = ld32 (h_next elem) s in
               if elem \<noteq> 0 then isr_chain call int_n elem s else Some (False, s))"

definition idt_common_isr ::
  "u32 \<Rightarrow> (u32 \<Rightarrow> u8 \<Rightarrow> u32 \<Rightarrow> 'a idt_state_scheme \<Rightarrow> (bool \<times> 'a idt_state_scheme) option) \<Rightarrow>
   u8 \<Rightarrow> 'a idt_state_scheme \<Rightarrow> 'a idt_state_scheme option" where
  "idt_common_isr itoa_fixed call int_n s =
     (if unat int_n \<ge> max_isr_cnt \<or> int_handlers s ! unat int_n = 0 then do {
        let s = print_text (text_bytes ''No handler for INT '') s;
        (p, s) \<leftarrow> itoa_once itoa_fixed (uint int_n) 10 s;
        s \<leftarrow> print_string p s;
        let s = print_text (text_bytes ''\<newline>'') s;
        Some s
      }
      else do {
        (handled, s) \<leftarrow> isr_chain call int_n (int_handlers s ! unat int_n) s;
        if handled then Some s
        else if int_n = 32 then Some s
        else do {
          let s = print_text (text_bytes ''INT '') s;
          (p, s) \<leftarrow> itoa_once itoa_fixed (uint int_n) 10 s;
          s \<leftarrow> print_string p s;
          let s = print_text (text_bytes '' not handled\<newline>'') s;
          Some s
        }
      })"

text \<open>The fields of the packed structures \<open>idtr\<close> and \<open>idt_gate\<close>, and the flags of a gate.\<close>

abbreviation (input) idtr_len_at :: "u32 \<Rightarrow> u32" where "idtr_len_at r \<equiv> r"
abbreviation (input) idtr_offset_at :: "u32 \<Rightarrow> u32" where "idtr_offset_at r \<equiv> r + 2"
abbreviation (input) sizeof_idt_gate :: u32 where "sizeof_idt_gate \<equiv> 8"
abbreviation (input) gate_offset_low :: "u32 \<Rightarrow> u32" where "gate_offset_low g \<equiv> g"
abbreviation (input) gate_flags_at :: "u32 \<Rightarrow> u32" where "gate_flags_at g \<equiv> g + 4"
abbreviation (input) gate_offset_high :: "u32 \<Rightarrow> u32" where "gate_offset_high g \<equiv> g + 6"
abbreviation (input) IDT_GATE_PRESENT :: "u16" where "IDT_GATE_PRESENT \<equiv> push_bit 15 1"
abbreviation (input) IDT_GATE_DPL_RING0 :: "u16" where "IDT_GATE_DPL_RING0 \<equiv> 0"
abbreviation (input) IDT_GATE_32INT :: "u16" where "IDT_GATE_32INT \<equiv> push_bit 8 0xE"
abbreviation (input) IDT_GATE_32TRAP :: "u16" where "IDT_GATE_32TRAP \<equiv> push_bit 8 0xF"

text \<open>\<open>lidt\<close> and \<open>sidt\<close> move the packed \<open>struct idtr\<close> between memory and the register.\<close>

definition idt_set :: "u32 \<Rightarrow> 'a idt_state_scheme \<Rightarrow> 'a idt_state_scheme" where
  "idt_set idtr s = s\<lparr>idtr_len := ld16 (idtr_len_at idtr) s, idtr_offset := ld32 (idtr_offset_at idtr) s\<rparr>"

definition idt_get :: "u32 \<Rightarrow> 'a idt_state_scheme \<Rightarrow> 'a idt_state_scheme" where
  "idt_get idtr s = st32 (idtr_offset_at idtr) (idtr_offset s) (st16 (idtr_len_at idtr) (idtr_len s) s)"


section \<open>The chain of an interrupt\<close>

text \<open>The handlers of an interrupt, in the order of their chain.\<close>

abbreviation chain :: "mem \<Rightarrow> u32 \<Rightarrow> u32 list \<Rightarrow> bool" where
  "chain \<equiv> linked h_next"

abbreviation node :: "u32 \<Rightarrow> nat set" where
  "node \<equiv> span 12"

abbreviation node_ok :: "u32 \<Rightarrow> bool" where
  "node_ok \<equiv> span_ok 12"

abbreviation nodes_apart :: "u32 list \<Rightarrow> bool" where
  "nodes_apart \<equiv> spans_apart 12"

lemma handler_fields:
  assumes "node_ok h"
  shows "unat (h_handler h) = unat h" and "unat (h_userdata h) = unat h + 4" and "unat h + 12 \<le> 4294967296"
    and "span 4 (h_handler h) \<subseteq> node h" and "span 4 (h_userdata h) \<subseteq> node h"
proof -
  show a: "unat (h_handler h) = unat h" "unat (h_userdata h) = unat h + 4" and "unat h + 12 \<le> 4294967296"
    using assms by (simp_all add: h_handler_def h_userdata_def unat_add_u32 span_ok_def)
  show "span 4 (h_handler h) \<subseteq> node h" "span 4 (h_userdata h) \<subseteq> node h"
    by (auto simp: a span_def)
qed

lemma h_next_range: "node_ok h \<Longrightarrow> unat (h_next h) = unat h + 8"
  unfolding span_ok_def h_next_def by (subst unat_add_u32) auto

interpretation handlers: links h_next 12 chain_last
  by unfold_locales (simp add: h_next_range, rule chain_last.simps)

lemmas node_def = span_def [of 12]
lemmas node_ok_def = span_ok_def [of 12]

text \<open>All 48 chains: \<open>cs n\<close> lists the handlers of interrupt \<open>n\<close> in the order of registration.\<close>

definition idt_ok :: "'a idt_state_scheme \<Rightarrow> (nat \<Rightarrow> u32 list) \<Rightarrow> bool" where
  "idt_ok s cs \<longleftrightarrow> length (int_handlers s) = max_isr_cnt \<and>
     (\<forall>n < max_isr_cnt. chain (mem s) (int_handlers s ! n) (cs n) \<and> nodes_apart (cs n)) \<and>
     (\<forall>n < max_isr_cnt. \<forall>m < max_isr_cnt. n \<noteq> m \<longrightarrow>
        (\<forall>h \<in> set (cs n). \<forall>k \<in> set (cs m). node h \<inter> node k = {}))"

lemma int_handlers_st [simp, frame_simps]:
  "int_handlers (st8 p b s) = int_handlers s"
  "int_handlers (st32 p v s) = int_handlers s"
  by (simp_all add: st8_def st32_def)

text \<open>One registration, on the chain it changes and on any other one.\<close>

lemma reg_own_chain:
  assumes "unat n < max_isr_cnt" and "length (int_handlers s) = max_isr_cnt"
    and "chain (mem s) (int_handlers s ! unat n) hs" and "nodes_apart hs"
    and h: "node_ok h" "\<forall>x \<in> set hs. node x \<inter> node h = {}"
  obtains s' where "idt_reg_handler n h s = Some s'"
    and "chain (mem s') (int_handlers s' ! unat n) (hs @ [h])"
    and "\<forall>m. m \<noteq> unat n \<longrightarrow> int_handlers s' ! m = int_handlers s ! m"
    and "length (int_handlers s') = max_isr_cnt"
    and "same_on (mem s) (mem s') (- (\<Union> (node ` (set hs \<union> {h}))))"
proof -
  let ?s = "st32 (h_next h) 0 s"
  have f1: "same_on (mem s) (mem ?s) (- node h)"
    unfolding mem_st using handlers.next_in_span [OF h(1)] by (intro same_on_store32) auto
  have c1: "chain (mem ?s) (int_handlers s ! unat n) hs"
    unfolding mem_st
    using handlers.store_next_other spans_apart_ok [OF assms(4)] h by (intro linked_same [OF assms(3)]) blast
  have z: "load32 (mem ?s) (h_next h) = 0" by simp
  show thesis
  proof (cases hs rule: rev_cases)
    case Nil
    let ?t = "?s\<lparr>int_handlers := (int_handlers s)[unat n := h]\<rparr>"
    have "idt_reg_handler n h s = Some ?t"
      using assms(1,3) by (simp add: idt_reg_handler_def Nil Let_def)
    moreover have "chain (mem ?t) (int_handlers ?t ! unat n) (hs @ [h])"
      using assms(1,2) h(1) by (simp add: Nil node_ok_def)
    moreover have "same_on (mem s) (mem ?t) (- (\<Union> (node ` (set hs \<union> {h}))))"
      using f1 by (simp add: Nil)
    moreover have "\<forall>m. m \<noteq> unat n \<longrightarrow> int_handlers ?t ! m = int_handlers s ! m" by simp
    moreover have "length (int_handlers ?t) = max_isr_cnt" using assms(2) by simp
    ultimately show thesis using that by blast
  next
    case (snoc ks k)
    let ?t = "st32 (h_next k) h ?s"
    have nz: "int_handlers s ! unat n \<noteq> 0"
      using assms(3) by (cases ks) (auto simp: snoc)
    have "idt_reg_handler n h s = Some ?t"
      using assms(1) nz handlers.seek_run [OF c1 [unfolded snoc]] by (simp add: idt_reg_handler_def Let_def)
    moreover have "chain (mem ?t) (int_handlers ?t ! unat n) (hs @ [h])"
      using handlers.append_node [OF c1 [unfolded snoc] assms(4) [unfolded snoc] z h(1)] h(2)
      by (simp add: snoc)
    moreover have "same_on (mem s) (mem ?t) (- (\<Union> (node ` (set hs \<union> {h}))))"
    proof (rule same_on_trans)
      show "same_on (mem s) (mem ?s) (- (\<Union> (node ` (set hs \<union> {h}))))"
        by (rule same_on_mono [OF f1]) auto
      have "node_ok k" using spans_apart_ok [OF assms(4)] by (simp add: snoc)
      then show "same_on (mem ?s) (mem ?t) (- (\<Union> (node ` (set hs \<union> {h}))))"
        unfolding mem_st(3) [of "h_next k"]
        using handlers.next_in_span [of k] by (intro same_on_store32) (auto simp: snoc)
    qed
    moreover have "\<forall>m. m \<noteq> unat n \<longrightarrow> int_handlers ?t ! m = int_handlers s ! m" by simp
    moreover have "length (int_handlers ?t) = max_isr_cnt" using assms(2) by simp
    ultimately show thesis using that by blast
  qed
qed

lemma reg_all_chains:
  assumes ok: "idt_ok s cs" and n: "unat n < max_isr_cnt" and h: "node_ok h"
    and new: "\<forall>m < max_isr_cnt. \<forall>x \<in> set (cs m). node x \<inter> node h = {}"
  obtains s' where "idt_reg_handler n h s = Some s'" and "idt_ok s' (cs(unat n := cs (unat n) @ [h]))"
    and "same_on (mem s) (mem s') (- (\<Union> (node ` (set (cs (unat n)) \<union> {h}))))"
proof -
  have pre: "length (int_handlers s) = max_isr_cnt" "chain (mem s) (int_handlers s ! unat n) (cs (unat n))"
    "nodes_apart (cs (unat n))" "\<forall>x \<in> set (cs (unat n)). node x \<inter> node h = {}"
    using ok n new by (auto simp: idt_ok_def)
  obtain s' where r: "idt_reg_handler n h s = Some s'"
    "chain (mem s') (int_handlers s' ! unat n) (cs (unat n) @ [h])"
    "\<forall>m. m \<noteq> unat n \<longrightarrow> int_handlers s' ! m = int_handlers s ! m"
    "length (int_handlers s') = max_isr_cnt"
    "same_on (mem s) (mem s') (- (\<Union> (node ` (set (cs (unat n)) \<union> {h}))))"
    by (rule reg_own_chain [OF n pre(1-3) h pre(4)])
  have other: "chain (mem s') (int_handlers s' ! m) (cs m)" if m: "m < max_isr_cnt" "m \<noteq> unat n" for m
  proof -
    have "load32 (mem s') (h_next x) = load32 (mem s) (h_next x)" if "x \<in> set (cs m)" for x
    proof (rule load32_same [OF r(5)])
      have "node_ok x" using ok m(1) that spans_apart_ok by (auto simp: idt_ok_def)
      note nx = handlers.next_in_span [OF this]
      show "unat (h_next x) + 4 \<le> 4294967296" by (fact nx(2))
      have "node x \<inter> node h = {}" "\<forall>y \<in> set (cs (unat n)). node x \<inter> node y = {}"
        using ok new m n that unfolding idt_ok_def by blast+
      then show "{unat (h_next x)..<unat (h_next x) + 4} \<subseteq> - (\<Union> (node ` (set (cs (unat n)) \<union> {h})))"
        using nx(1) by blast
    qed
    with ok m r(3) show ?thesis by (auto simp: idt_ok_def intro: linked_same)
  qed
  have "idt_ok s' (cs(unat n := cs (unat n) @ [h]))"
    unfolding idt_ok_def
  proof (intro conjI allI impI ballI)
    show "length (int_handlers s') = max_isr_cnt" by (fact r(4))
    fix m :: nat assume m: "m < max_isr_cnt"
    show "chain (mem s') (int_handlers s' ! m) ((cs(unat n := cs (unat n) @ [h])) m)"
      using other [OF m] r(2) by simp
    show "nodes_apart ((cs(unat n := cs (unat n) @ [h])) m)"
      using ok m spans_apart_snoc [OF pre(3) h pre(4)] by (simp add: idt_ok_def)
    fix k x y assume k: "k < max_isr_cnt" "m \<noteq> k"
      and x: "x \<in> set ((cs(unat n := cs (unat n) @ [h])) m)"
      and y: "y \<in> set ((cs(unat n := cs (unat n) @ [h])) k)"
    have x': "x \<in> set (cs m) \<or> x = h \<and> m = unat n" using x by (auto split: if_splits)
    have y': "y \<in> set (cs k) \<or> y = h \<and> k = unat n" using y by (auto split: if_splits)
    have old: "node x \<inter> node y = {}" if "x \<in> set (cs m)" "y \<in> set (cs k)"
      using ok m k that unfolding idt_ok_def by blast
    have "node x \<inter> node h = {}" if "x \<in> set (cs m)" using new m that by blast
    moreover have "node h \<inter> node y = {}" if "y \<in> set (cs k)" using new k that by blast
    ultimately show "node x \<inter> node y = {}" using old x' y' k(2) by blast
  qed
  then show thesis by (rule that [OF r(1) _ r(5)])
qed

end
