(* ===== verification/Interrupts.thy ===== *)
theory Interrupts
  imports Idt DisplayProof
begin

text \<open>
  Dispatch of one interrupt, seen from the handlers: the contract a registered handler has
  to keep (return, and leave the chain alone), and what \<open>idt_common_isr\<close> does for handlers
  that keep it: it offers the interrupt to them in the order of registration until one
  takes it.
\<close>

text \<open>The abstract dispatch, on the list of handlers.\<close>

fun run_handlers ::
  "(u32 \<Rightarrow> u8 \<Rightarrow> u32 \<Rightarrow> 'a machine_scheme \<Rightarrow> (bool \<times> 'a machine_scheme) option) \<Rightarrow>
   u8 \<Rightarrow> u32 list \<Rightarrow> 'a machine_scheme \<Rightarrow> (bool \<times> 'a machine_scheme) option" where
  "run_handlers call n [] s = Some (False, s)"
| "run_handlers call n (h # hs) s =
     do { (handled, s) \<leftarrow> call (ld32 (h_handler h) s) n (ld32 (h_userdata h) s) s;
          if handled then Some (True, s) else run_handlers call n hs s }"

locale handler_contract =
  fixes call :: "u32 \<Rightarrow> u8 \<Rightarrow> u32 \<Rightarrow> 'a idt_state_scheme \<Rightarrow> (bool \<times> 'a idt_state_scheme) option"
    and n :: u8
    and hs :: "u32 list"
    and inv :: "'a idt_state_scheme \<Rightarrow> bool"
  assumes listed: "inv s \<Longrightarrow> chain (mem s) (int_handlers s ! unat n) hs"
    and returns: "inv s \<Longrightarrow> h \<in> set hs \<Longrightarrow>
      \<exists>handled s'. call (ld32 (h_handler h) s) n (ld32 (h_userdata h) s) s = Some (handled, s') \<and> inv s'"
begin

lemma run_returns:
  "inv s \<Longrightarrow> set ys \<subseteq> set hs \<Longrightarrow> \<exists>handled s'. run_handlers call n ys s = Some (handled, s') \<and> inv s'"
proof (induction ys arbitrary: s)
  case (Cons h ys)
  then obtain b s' where c: "call (ld32 (h_handler h) s) n (ld32 (h_userdata h) s) s = Some (b, s')" "inv s'"
    using returns [of s h] by auto
  with Cons.IH [OF c(2)] Cons.prems(2) show ?case by (cases b) auto
qed auto

lemma dispatch_list:
  assumes "inv s" and "hs = xs @ h # ys"
  shows "isr_chain call n h s = run_handlers call n (h # ys) s"
  using assms
proof (induction ys arbitrary: xs h s)
  case Nil
  then obtain b s' where c: "call (ld32 (h_handler h) s) n (ld32 (h_userdata h) s) s = Some (b, s')" "inv s'"
    using returns [of s h] by auto
  have "ld32 (h_next h) s' = 0"
    using linked_mid [of h_next "mem s'" _ xs h "[]"] listed [OF c(2)] Nil.prems(2) by auto
  then show ?case by (subst isr_chain.simps) (simp add: c(1))
next
  case (Cons k ys)
  then obtain b s' where c: "call (ld32 (h_handler h) s) n (ld32 (h_userdata h) s) s = Some (b, s')" "inv s'"
    using returns [of s h] by auto
  have "ld32 (h_next h) s' = k" "k \<noteq> 0"
    using linked_mid [of h_next "mem s'" _ xs h "k # ys"] listed [OF c(2)] Cons.prems(2) by auto
  moreover have "isr_chain call n k s' = run_handlers call n (k # ys) s'"
    using Cons.prems(2) by (intro Cons.IH [OF c(2), of "xs @ [h]"]) simp
  ultimately show ?case by (subst isr_chain.simps) (simp add: c(1) del: run_handlers.simps(2) add: run_handlers.simps(2) [of _ _ h])
qed

lemma dispatch:
  assumes "inv s" and "hs \<noteq> []"
  shows "int_handlers s ! unat n \<noteq> 0"
    and "isr_chain call n (int_handlers s ! unat n) s = run_handlers call n hs s"
proof -
  obtain h ys where hs: "hs = h # ys" using assms(2) by (cases hs) auto
  have "int_handlers s ! unat n = h" "h \<noteq> 0" using listed [OF assms(1)] by (auto simp: hs)
  then show "int_handlers s ! unat n \<noteq> 0"
    "isr_chain call n (int_handlers s ! unat n) s = run_handlers call n hs s"
    using dispatch_list [OF assms(1), of "[]" h ys] by (simp_all add: hs)
qed

end

text \<open>The message about an interrupt, and when it is printed.\<close>

definition isr_message :: "u32 \<Rightarrow> string \<Rightarrow> u8 \<Rightarrow> string \<Rightarrow> 'a display_state_scheme \<Rightarrow> 'a display_state_scheme option" where
  "isr_message itoa_fixed before int_n after s = do {
     let s = print_text (text_bytes before) s;
     s \<leftarrow> print_number itoa_fixed (uint int_n) 10 s;
     Some (print_text (text_bytes after) s)
   }"

lemma isr_no_handler:
  assumes "unat n \<ge> max_isr_cnt \<or> int_handlers s ! unat n = 0"
  shows "idt_common_isr itoa_fixed call n s = isr_message itoa_fixed ''No handler for INT '' n ''\<newline>'' s"
  unfolding idt_common_isr_def if_P [OF assms] isr_message_def print_number_def itoa_once_def Let_def
  by (simp add: split_def)

lemma isr_handlers:
  assumes "handler_contract call n hs ok" and "ok s" and "hs \<noteq> []" and "unat n < max_isr_cnt"
  obtains handled s' where "run_handlers call n hs s = Some (handled, s')" and "ok s'"
    and "idt_common_isr itoa_fixed call n s =
      (if handled \<or> n = 32 then Some s' else isr_message itoa_fixed ''INT '' n '' not handled\<newline>'' s')"
proof -
  obtain handled s' where r: "run_handlers call n hs s = Some (handled, s')" "ok s'"
    using handler_contract.run_returns [OF assms(1,2), of hs] by auto
  note d = handler_contract.dispatch [OF assms(1-3)]
  have "\<not> (unat n \<ge> max_isr_cnt \<or> int_handlers s ! unat n = 0)" using d(1) assms(4) by simp
  then have "idt_common_isr itoa_fixed call n s =
      (if handled \<or> n = 32 then Some s' else isr_message itoa_fixed ''INT '' n '' not handled\<newline>'' s')"
    unfolding idt_common_isr_def if_not_P [OF \<open>\<not> (unat n \<ge> max_isr_cnt \<or> int_handlers s ! unat n = 0)\<close>] d(2) r(1)
      isr_message_def print_number_def itoa_once_def Let_def
    by (simp add: split_def)
  with r show thesis by (rule that)
qed

end
