(* ===== verification/Pit.thy ===== *)
theory Pit
  imports Interrupts
begin

text \<open>
  The programmable interval timer, \<open>arch/pit.c\<close>: \<open>sleep\<close> counts milliseconds down in the
  timer interrupt while the processor halts. \<open>timer_ms_left\<close> is a field of the state;
  \<open>int_h\<close> and \<open>pit_isr\<close> are the addresses of the static handler node and of \<open>pit_timer_isr\<close>.
\<close>

record pit_state = idt_state +
  timer_ms_left :: u32


section \<open>The code\<close>

partial_function (option) sleep_loop ::
  "hw \<Rightarrow> (u8 \<Rightarrow> 'a pit_state_scheme \<Rightarrow> 'a pit_state_scheme option) \<Rightarrow>
   'a pit_state_scheme \<Rightarrow> 'a pit_state_scheme option" where
  "sleep_loop hw isr s =
     (if timer_ms_left s \<noteq> 0 then hlt hw isr s \<bind> (\<lambda>s. sleep_loop hw isr s) else Some s)"

definition sleep ::
  "hw \<Rightarrow> (u8 \<Rightarrow> 'a pit_state_scheme \<Rightarrow> 'a pit_state_scheme option) \<Rightarrow>
   u32 \<Rightarrow> 'a pit_state_scheme \<Rightarrow> 'a pit_state_scheme option" where
  "sleep hw isr ms s = sleep_loop hw isr (s\<lparr>timer_ms_left := ms\<rparr>)"

abbreviation (input) PIT_COUNTER_0 :: "u16" where "PIT_COUNTER_0 \<equiv> 0x40"
abbreviation (input) PIT_TCW :: "u16" where "PIT_TCW \<equiv> 0x43"
abbreviation (input) TCW_COUNTER_0 :: "u8" where "TCW_COUNTER_0 \<equiv> 0"
abbreviation (input) TCW_RW_LSB_MSB :: "u8" where "TCW_RW_LSB_MSB \<equiv> push_bit 4 3"
abbreviation (input) TCW_MODE_RATE_GEN :: "u8" where "TCW_MODE_RATE_GEN \<equiv> push_bit 1 2"
abbreviation (input) TCW_BINARY :: "u8" where "TCW_BINARY \<equiv> 0"
abbreviation (input) PIT_1000HZ :: "u16" where "PIT_1000HZ \<equiv> 1193"

definition pit_init :: "u32 \<Rightarrow> 'a pit_state_scheme \<Rightarrow> 'a pit_state_scheme option" where
  "pit_init int_h s = do {
     let divisor = PIT_1000HZ;
     s \<leftarrow> idt_reg_handler 32 int_h s;
     let s = outb PIT_TCW (TCW_COUNTER_0 OR TCW_RW_LSB_MSB OR TCW_MODE_RATE_GEN OR TCW_BINARY) s;
     let s = outb PIT_COUNTER_0 (ucast (divisor AND 0xff)) s;
     let s = outb PIT_COUNTER_0 (ucast (drop_bit 8 divisor)) s;
     Some s
   }"

definition pit_timer_isr :: "u8 \<Rightarrow> u32 \<Rightarrow> 'a pit_state_scheme \<Rightarrow> bool \<times> 'a pit_state_scheme" where
  "pit_timer_isr int_n userdata s =
     (let s = (if timer_ms_left s > 0 then s\<lparr>timer_ms_left := timer_ms_left s - 1\<rparr> else s)
      in (False, s))"

text \<open>Calls through the function pointer of the node; \<open>other\<close> is any other function.\<close>

definition pit_dispatch ::
  "u32 \<Rightarrow> (u32 \<Rightarrow> u8 \<Rightarrow> u32 \<Rightarrow> 'a pit_state_scheme \<Rightarrow> (bool \<times> 'a pit_state_scheme) option) \<Rightarrow>
   u32 \<Rightarrow> u8 \<Rightarrow> u32 \<Rightarrow> 'a pit_state_scheme \<Rightarrow> (bool \<times> 'a pit_state_scheme) option" where
  "pit_dispatch pit_isr other f int_n userdata s =
     (if f = pit_isr then Some (pit_timer_isr int_n userdata s) else other f int_n userdata s)"


section \<open>The timer handler keeps the contract of handlers\<close>

definition timer_inv :: "u32 \<Rightarrow> u32 \<Rightarrow> 'a pit_state_scheme \<Rightarrow> bool" where
  "timer_inv pit_isr int_h s \<longleftrightarrow>
     chain (mem s) (int_handlers s ! 32) [int_h] \<and> ld32 (h_handler int_h) s = pit_isr"

lemma timer_inv_isr:
  "timer_inv pit_isr int_h (s\<lparr>timer_ms_left := k\<rparr>) \<longleftrightarrow> timer_inv pit_isr int_h s"
  by (simp add: timer_inv_def)

interpretation timer: handler_contract "pit_dispatch pit_isr other" 32 "[int_h]" "timer_inv pit_isr int_h"
  for pit_isr other int_h
proof unfold_locales
  fix s :: "'a pit_state_scheme" assume "timer_inv pit_isr int_h s"
  then show "chain (mem s) (int_handlers s ! unat (32 :: u8)) [int_h]" by (simp add: timer_inv_def)
next
  fix s :: "'a pit_state_scheme" and h assume s: "timer_inv pit_isr int_h s" and h: "h \<in> set [int_h]"
  then have "ld32 (h_handler h) s = pit_isr" by (simp add: timer_inv_def)
  then show "\<exists>handled s'. pit_dispatch pit_isr other (ld32 (h_handler h) s) 32 (ld32 (h_userdata h) s) s = Some (handled, s') \<and>
      timer_inv pit_isr int_h s'"
    using s by (auto simp: pit_dispatch_def pit_timer_isr_def Let_def timer_inv_isr)
qed

text \<open>The timer interrupt counts down, and prints nothing.\<close>

lemma timer_tick:
  assumes "timer_inv pit_isr int_h s"
  shows "idt_common_isr itoa_fixed (pit_dispatch pit_isr other) 32 s =
    Some (if timer_ms_left s = 0 then s else s\<lparr>timer_ms_left := timer_ms_left s - 1\<rparr>)"
proof -
  have nz: "int_handlers s ! 32 = int_h" "int_h \<noteq> 0"
    using assms by (simp_all add: timer_inv_def)
  have "isr_chain (pit_dispatch pit_isr other) 32 int_h s = run_handlers (pit_dispatch pit_isr other) 32 [int_h] s"
    using timer.dispatch(2) [OF assms, where other = other] nz(1) by simp
  then show ?thesis
    using assms nz word_neq_0_conv [of "timer_ms_left s"]
    by (simp add: idt_common_isr_def pit_dispatch_def pit_timer_isr_def timer_inv_def Let_def)
qed


section \<open>Sleeping\<close>

text \<open>Devices may write to memory, but not to the handler node.\<close>

lemma timer_inv_dma:
  assumes "timer_inv pit_isr int_h s" and "same_on (mem s) m (node int_h)" and "node_ok int_h"
  shows "timer_inv pit_isr int_h (s\<lparr>mem := m\<rparr>)"
proof -
  have "load32 m (h_next int_h) = load32 (mem s) (h_next int_h)"
    by (rule load32_same [OF assms(2)]) (use handlers.next_in_span [OF assms(3)] in auto)
  moreover have "load32 m (h_handler int_h) = load32 (mem s) (h_handler int_h)"
    by (rule load32_same [OF assms(2)]) (use assms(3) in \<open>auto simp: h_handler_def node_def node_ok_def\<close>)
  ultimately show ?thesis using assms(1) by (simp add: timer_inv_def)
qed

text \<open>One halt, when the interrupt that ends it is the timer.\<close>

lemma hlt_timer:
  assumes "hw_irq hw (io_log s) = 32" and "timer_inv pit_isr int_h (s\<lparr>mem := hw_dma hw (io_log s) (mem s)\<rparr>)"
    and "timer_ms_left s \<noteq> 0"
  shows "hlt hw (idt_common_isr itoa_fixed (pit_dispatch pit_isr other)) s =
    Some (s\<lparr>mem := hw_dma hw (io_log s) (mem s), io_log := io_log s @ [Halt 32],
            timer_ms_left := timer_ms_left s - 1\<rparr>)"
proof -
  let ?s = "log_event (Halt 32) (s\<lparr>mem := hw_dma hw (io_log s) (mem s)\<rparr>)"
  have "timer_inv pit_isr int_h ?s" using assms(2) by (simp add: timer_inv_def log_event_def)
  from timer_tick [OF this] show ?thesis
    using assms(1,3) by (simp add: hlt_def Let_def log_event_def)
qed

text \<open>
  What the devices do in the \<open>n\<close> events after the log \<open>l\<close>: they raise no interrupt but the timer, and
  leave the bytes in \<open>S\<close> alone, the handler node among them.
\<close>

definition timer_keeps :: "hw \<Rightarrow> u32 \<Rightarrow> nat set \<Rightarrow> io_event list \<Rightarrow> nat \<Rightarrow> bool" where
  "timer_keeps hw int_h S l n \<longleftrightarrow>
     (\<forall>l'. length l' < n \<longrightarrow> hw_irq hw (l @ l') = 32 \<and> (\<forall>m. same_on m (hw_dma hw (l @ l') m) S)) \<and>
     node_ok int_h \<and> node int_h \<subseteq> S"

lemma timer_keeps_now:
  "timer_keeps hw int_h S l (Suc n) \<Longrightarrow> hw_irq hw l = 32 \<and> same_on m (hw_dma hw l m) S"
  unfolding timer_keeps_def by (metis append_Nil2 length_0_conv zero_less_Suc)

lemma timer_keeps_later:
  assumes "timer_keeps hw int_h S l N" and "length l' + n \<le> N"
  shows "timer_keeps hw int_h S (l @ l') n"
proof -
  have "hw_irq hw ((l @ l') @ k) = 32 \<and> (\<forall>m. same_on m (hw_dma hw ((l @ l') @ k) m) S)" if "length k < n" for k
  proof -
    have "length (l' @ k) < N" using that assms(2) by simp
    then show ?thesis using assms(1) unfolding timer_keeps_def append_assoc by blast
  qed
  then show ?thesis using assms(1) unfolding timer_keeps_def by blast
qed

text \<open>\<open>sleep ms\<close> then returns after exactly \<open>ms\<close> halts.\<close>

lemma sleep_loop_timer:
  "timer_keeps hw int_h S (io_log s) (unat (timer_ms_left s)) \<Longrightarrow> timer_inv pit_isr int_h s \<Longrightarrow>
    \<exists>m. sleep_loop hw (idt_common_isr itoa_fixed (pit_dispatch pit_isr other)) s =
      Some (s\<lparr>mem := m, io_log := io_log s @ replicate (unat (timer_ms_left s)) (Halt 32), timer_ms_left := 0\<rparr>) \<and>
      same_on (mem s) m S"
proof (induction "unat (timer_ms_left s)" arbitrary: s)
  case 0
  then have z: "timer_ms_left s = 0" by (simp add: unat_eq_zero)
  then have "s = s\<lparr>mem := mem s, io_log := io_log s @ [], timer_ms_left := 0\<rparr>"
    by (cases s) simp
  then show ?case using z by (intro exI [of _ "mem s"]) (subst sleep_loop.simps, simp)
next
  case (Suc k)
  let ?m = "hw_dma hw (io_log s) (mem s)"
  let ?s = "s\<lparr>mem := ?m, io_log := io_log s @ [Halt 32], timer_ms_left := timer_ms_left s - 1\<rparr>"
  have nz: "timer_ms_left s \<noteq> 0" using Suc.hyps(2) by auto
  note keep = Suc.prems(1) [folded Suc.hyps(2)]
  have node: "node_ok int_h" "node int_h \<subseteq> S" using keep by (simp_all add: timer_keeps_def)
  have irq: "hw_irq hw (io_log s) = 32" and dma: "same_on (mem s) ?m S" using timer_keeps_now [OF keep] by simp_all
  have inv: "timer_inv pit_isr int_h (s\<lparr>mem := ?m\<rparr>)"
    using timer_inv_dma [OF Suc.prems(2) same_on_mono [OF dma node(2)] node(1)] .
  have step: "hlt hw (idt_common_isr itoa_fixed (pit_dispatch pit_isr other)) s = Some ?s"
    by (rule hlt_timer [OF irq inv nz])
  have ti: "timer_inv pit_isr int_h ?s" using inv by (simp add: timer_inv_def)
  have k: "k = unat (timer_ms_left ?s)"
    using Suc.hyps(2) nz by (simp add: unat_pred_u32)
  have "timer_keeps hw int_h S (io_log ?s) (unat (timer_ms_left ?s))"
    unfolding k [symmetric] using timer_keeps_later [OF keep, of "[Halt 32]" k] by simp
  with ti k obtain m where "sleep_loop hw (idt_common_isr itoa_fixed (pit_dispatch pit_isr other)) ?s =
      Some (?s\<lparr>mem := m, io_log := io_log ?s @ replicate (unat (timer_ms_left ?s)) (Halt 32), timer_ms_left := 0\<rparr>)"
      "same_on (mem ?s) m S"
    using Suc.hyps(1) by blast
  moreover have "same_on (mem s) m S"
    using same_on_trans [OF dma calculation(2) [simplified]] .
  ultimately show ?case
    using nz k Suc.hyps(2) [symmetric]
    by (intro exI [of _ m]) (subst sleep_loop.simps, simp add: step)
qed


text \<open>Devices that only ever raise the timer interrupt.\<close>

definition timer_only :: "hw \<Rightarrow> u32 \<Rightarrow> bool" where
  "timer_only hw int_h \<longleftrightarrow>
     (\<forall>l. hw_irq hw l = 32) \<and> (\<forall>l m. same_on m (hw_dma hw l m) (node int_h)) \<and> node_ok int_h"

lemma timer_only_keeps: "timer_only hw int_h \<Longrightarrow> timer_keeps hw int_h (node int_h) l n"
  by (simp add: timer_only_def timer_keeps_def)

text \<open>All that time changes: memory (by DMA), the log and the counter.\<close>

definition ticked :: "'a pit_state_scheme \<Rightarrow> 'a pit_state_scheme \<Rightarrow> bool" where
  "ticked s s' \<longleftrightarrow> (\<exists>m l t. s' = s\<lparr>mem := m, io_log := l, timer_ms_left := t\<rparr>)"

lemma ticked_refl: "ticked s s"
proof -
  have "s = s\<lparr>mem := mem s, io_log := io_log s, timer_ms_left := timer_ms_left s\<rparr>" by simp
  then show ?thesis unfolding ticked_def by blast
qed

lemma ticked_trans: "ticked s s' \<Longrightarrow> ticked s' s'' \<Longrightarrow> ticked s s''"
  by (cases s) (auto simp: ticked_def)

lemma ticked_log: "ticked (log_event e s) s' \<longleftrightarrow> ticked s s'"
  by (cases s) (auto simp: ticked_def log_event_def)

lemma ticked_event: "ticked s (log_event e s)"
  using ticked_refl [of s] by (cases s) (auto simp: ticked_def log_event_def)

lemma sleep_keeps:
  assumes "timer_keeps hw int_h S (io_log s) (unat ms)" and "timer_inv pit_isr int_h s"
  obtains s' where "sleep hw (idt_common_isr itoa_fixed (pit_dispatch pit_isr other)) ms s = Some s'"
    and "io_log s' = io_log s @ replicate (unat ms) (Halt 32)" and "timer_ms_left s' = 0"
    and "timer_inv pit_isr int_h s'" and "ticked s s'" and "same_on (mem s) (mem s') S"
proof -
  have h: "node_ok int_h" "node int_h \<subseteq> S" using assms(1) by (simp_all add: timer_keeps_def)
  have "timer_inv pit_isr int_h (s\<lparr>timer_ms_left := ms\<rparr>)" using assms(2) by (simp add: timer_inv_def)
  from sleep_loop_timer [OF _ this, of hw S itoa_fixed other] assms(1) obtain m where
    r: "sleep hw (idt_common_isr itoa_fixed (pit_dispatch pit_isr other)) ms s =
      Some (s\<lparr>mem := m, io_log := io_log s @ replicate (unat ms) (Halt 32), timer_ms_left := 0\<rparr>)"
      "same_on (mem s) m S"
    by (auto simp: sleep_def)
  from timer_inv_dma [OF assms(2) same_on_mono [OF r(2) h(2)] h(1)]
  have "timer_inv pit_isr int_h (s\<lparr>mem := m, io_log := io_log s @ replicate (unat ms) (Halt 32), timer_ms_left := 0\<rparr>)"
    by (simp add: timer_inv_def)
  moreover have "ticked s (s\<lparr>mem := m, io_log := io_log s @ replicate (unat ms) (Halt 32), timer_ms_left := 0\<rparr>)"
    unfolding ticked_def by blast
  ultimately show thesis using r(2) by (intro that [OF r(1)]) simp_all
qed

end
