(* ===== verification/InterruptTheorems.thy ===== *)
theory InterruptTheorems
  imports Pit
begin

text \<open>
  What interrupt dispatch (\<open>arch/idt.c\<close>) and the timer (\<open>arch/pit.c\<close>) guarantee.
\<close>

text \<open>A machine with empty chains, and one with the timer handler at \<open>0x3000\<close>, function at \<open>0x500\<close>.\<close>

definition reset_state :: pit_state where
  "reset_state = \<lparr>mem = store32 (\<lambda>_. 0) 0x3000 0x500, io_log = [], free_block_head = 0,
     curs_row = 0, curs_col = 0, int_handlers = replicate 48 0, idtr_len = 0, idtr_offset = 0,
     timer_ms_left = 0\<rparr>"

definition ticking_state :: pit_state where
  "ticking_state = reset_state\<lparr>int_handlers := (replicate 48 0)[32 := 0x3000]\<rparr>"

lemma node_ok_3000: "node_ok 0x3000" "h_next 0x3000 = 0x3008" "h_handler 0x3000 = 0x3000"
  by (simp_all add: node_ok_def h_next_def h_handler_def)

lemma load_3000: "load32 (store32 (\<lambda>_. 0) 0x3000 0x500) 0x3008 = 0"
  by (simp add: load32_def store32_def)

lemma reset_state_idt: "idt_ok reset_state (\<lambda>_. [])"
  by (simp add: idt_ok_def reset_state_def)

lemma ticking_state_timer: "timer_inv 0x500 0x3000 ticking_state"
  by (simp add: timer_inv_def ticking_state_def reset_state_def node_ok_3000 load_3000)

lemma display_only_handlers: "display_only s s' \<Longrightarrow> int_handlers s' = int_handlers s"
  by (auto simp: display_only_def)

lemma reg_log: "idt_reg_handler n h s = Some s' \<Longrightarrow> io_log s' = io_log s"
  by (auto simp: idt_reg_handler_def Let_def split: if_splits option.splits bind_splits)

text \<open>C23: Registering a handler node that overlaps no registered node returns, appends the node
  to the chain of its interrupt, leaves the chains of the other 47 interrupts as they are,
  and writes to the nodes of that chain only; interrupt numbers from 48 on are ignored.\<close>

theorem idt_reg_handler_appends:
  assumes "idt_ok s cs" and "node_ok h"
    and "\<forall>m < 48. \<forall>x \<in> set (cs m). node x \<inter> node h = {}"
  shows "\<exists>s'. idt_reg_handler n h s = Some s' \<and>
    (if unat n < 48
     then idt_ok s' (cs(unat n := cs (unat n) @ [h])) \<and>
       same_on (mem s) (mem s') (- (\<Union> (node ` (set (cs (unat n)) \<union> {h}))))
     else s' = s)"
proof (cases "unat n < 48")
  case True
  obtain s' where "idt_reg_handler n h s = Some s'" "idt_ok s' (cs(unat n := cs (unat n) @ [h]))"
    "same_on (mem s) (mem s') (- (\<Union> (node ` (set (cs (unat n)) \<union> {h}))))"
    by (rule reg_all_chains [OF assms(1) True assms(2,3)])
  then show ?thesis unfolding if_P [OF True] by blast
next
  case False
  then show ?thesis by (simp add: idt_reg_handler_def)
qed

theorem idt_reg_handler_appends_witness:
  "\<exists>s'. idt_reg_handler 32 0x3000 reset_state = Some s' \<and> idt_ok s' ((\<lambda>_. [])(32 := [0x3000]))"
  using idt_reg_handler_appends [OF reset_state_idt node_ok_3000(1), of 32] by fastforce

lemma isr_message_run:
  assumes "on_screen s" and "unat itoa_fixed + 33 < 0xB8000"
  shows "\<exists>s'. isr_message itoa_fixed before n after s = Some s' \<and> on_screen s'"
proof -
  let ?s1 = "print_text (text_bytes before) s"
  let ?m1 = "?s1\<lparr>mem := written (mem ?s1) itoa_fixed (itoa_text (uint n) 10 @ [0])\<rparr>"
  let ?s2 = "print_text (itoa_text (uint n) 10) ?m1"
  have p1: "on_screen ?s1" by (rule print_chars_safe(1) [OF assms(1)])
  have v: "\<bar>uint n\<bar> \<le> 2 ^ 31" using uint_lt2p [of n] by simp
  have len: "length (itoa_text (uint n) 10) \<le> 33" by (rule length_itoa_text) (use v in auto)
  have "print_number itoa_fixed (uint n) 10 ?s1 = Some ?s2"
    by (rule print_number_run [OF _ _ v p1]) (use len assms(2) in \<open>auto intro: off_screenI\<close>)
  moreover have "on_screen ?m1" using p1 by (simp add: on_screen_def)
  then have "on_screen (print_text (text_bytes after) ?s2)" by (intro print_chars_safe(1))
  ultimately show ?thesis by (simp add: isr_message_def Let_def)
qed

text \<open>C22: For an interrupt whose registered handlers all keep their contract, \<open>idt_common_isr\<close> runs the
  handlers in the order of registration up to the first that takes the interrupt. Then it is done when
  one has taken it, or when it is the timer interrupt (32), about which the code does not warn; for
  any other interrupt that no handler has taken it prints the \<open>not handled\<close> message, and returns when
  the cursor is on the screen. The witness has both cases, the timer's interrupt and one that is reported.\<close>

theorem idt_common_isr_dispatches:
  assumes "handler_contract call n hs ok" and "ok s" and "hs \<noteq> []" and "unat n < 48"
  shows "\<exists>handled s'. run_handlers call n hs s = Some (handled, s') \<and> ok s' \<and>
    idt_common_isr itoa_fixed call n s =
      (if handled \<or> n = 32 then Some s' else isr_message itoa_fixed ''INT '' n '' not handled\<newline>'' s') \<and>
    (on_screen s' \<and> unat itoa_fixed + 33 < 0xB8000 \<longrightarrow> (\<exists>s''. idt_common_isr itoa_fixed call n s = Some s''))"
proof -
  obtain handled s' where "run_handlers call n hs s = Some (handled, s')" "ok s'" "idt_common_isr itoa_fixed call n s =
      (if handled \<or> n = 32 then Some s' else isr_message itoa_fixed ''INT '' n '' not handled\<newline>'' s')"
    by (rule isr_handlers [OF assms, of itoa_fixed])
  then show ?thesis using isr_message_run [of s' itoa_fixed "''INT ''" n "'' not handled\<newline>''"] by auto
qed

text \<open>A machine on which one node, that takes no interrupt, is registered for 43.\<close>

definition quiet_state :: pit_state where
  "quiet_state = reset_state\<lparr>int_handlers := (replicate 48 0)[43 := 0x3000]\<rparr>"

lemma quiet_contract: "handler_contract (\<lambda>_ _ _ s. Some (False, s)) 43 [0x3000] (\<lambda>s. s = quiet_state)"
  by unfold_locales (auto simp: quiet_state_def reset_state_def node_ok_3000 load_3000)

theorem idt_common_isr_dispatches_witness:
  "(\<exists>s'. run_handlers (pit_dispatch 0x500 (\<lambda>_ _ _ _. None)) 32 [0x3000] ticking_state = Some (False, s') \<and>
     idt_common_isr 0x2000 (pit_dispatch 0x500 (\<lambda>_ _ _ _. None)) 32 ticking_state = Some s') \<and>
   (\<exists>s'. idt_common_isr 0x2000 (\<lambda>_ _ _ s. Some (False, s)) 43 quiet_state = Some s' \<and>
     isr_message 0x2000 ''INT '' 43 '' not handled\<newline>'' quiet_state = Some s')"
proof
  have r: "run_handlers (pit_dispatch 0x500 (\<lambda>_ _ _ _. None)) 32 [0x3000] ticking_state =
      Some (False, snd (pit_timer_isr 32 0 ticking_state))"
    using ticking_state_timer by (simp add: timer_inv_def pit_dispatch_def pit_timer_isr_def Let_def)
  have "handler_contract (pit_dispatch 0x500 (\<lambda>_ _ _ _. None)) 32 [0x3000] (timer_inv 0x500 0x3000)"
    by (rule timer.handler_contract_axioms)
  from idt_common_isr_dispatches [OF this ticking_state_timer, of "0x2000"] r
  show "\<exists>s'. run_handlers (pit_dispatch 0x500 (\<lambda>_ _ _ _. None)) 32 [0x3000] ticking_state = Some (False, s') \<and>
     idt_common_isr 0x2000 (pit_dispatch 0x500 (\<lambda>_ _ _ _. None)) 32 ticking_state = Some s'"
    by auto
  have "on_screen quiet_state" by (simp add: quiet_state_def reset_state_def on_screen_def)
  with idt_common_isr_dispatches [OF quiet_contract refl, of "0x2000"]
  show "\<exists>s'. idt_common_isr 0x2000 (\<lambda>_ _ _ s. Some (False, s)) 43 quiet_state = Some s' \<and>
     isr_message 0x2000 ''INT '' 43 '' not handled\<newline>'' quiet_state = Some s'"
    by auto
qed

text \<open>An interrupt without a registered handler, or with a number from 48 on, returns and
  prints the message with its number in decimal, and changes nothing but the screen and the
  buffer of the number.\<close>

theorem idt_common_isr_unregistered:
  assumes "48 \<le> unat n \<or> int_handlers s ! unat n = 0" and "on_screen s"
    and "unat itoa_fixed + 33 < 0xB8000"
  shows "\<exists>s'. idt_common_isr itoa_fixed call n s = Some s' \<and>
    s' = (let s1 = print_text (text_bytes ''No handler for INT '') s;
              s2 = print_text (itoa_text (uint n) 10)
                (s1\<lparr>mem := written (mem s1) itoa_fixed (itoa_text (uint n) 10 @ [0])\<rparr>)
          in print_text (text_bytes ''\<newline>'') s2) \<and>
    on_screen s' \<and> int_handlers s' = int_handlers s"
proof -
  let ?s1 = "print_text (text_bytes ''No handler for INT '') s"
  let ?m1 = "?s1\<lparr>mem := written (mem ?s1) itoa_fixed (itoa_text (uint n) 10 @ [0])\<rparr>"
  let ?s2 = "print_text (itoa_text (uint n) 10) ?m1"
  note p1 = print_chars_safe [OF assms(2), of "text_bytes ''No handler for INT ''"]
  have v: "\<bar>uint n\<bar> \<le> 2 ^ 31" using uint_lt2p [of n] by simp
  have len: "length (itoa_text (uint n) 10) \<le> 33" by (rule length_itoa_text) (use v in auto)
  have num: "print_number itoa_fixed (uint n) 10 ?s1 = Some ?s2"
    by (rule print_number_run [OF _ _ v p1(1)]) (use len assms(3) in \<open>auto intro: off_screenI\<close>)
  have "on_screen ?m1" using p1(1) by (simp add: on_screen_def)
  note p2 = print_chars_safe [OF this, of "itoa_text (uint n) 10"]
  note p3 = print_chars_safe [OF p2(1), of "text_bytes ''\<newline>''"]
  have "int_handlers (print_text (text_bytes ''\<newline>'') ?s2) = int_handlers s"
    using p1(2) p2(2) p3(2) by (simp add: display_only_handlers)
  then show ?thesis
    unfolding isr_no_handler [OF assms(1)] isr_message_def num Let_def bind.bind_lunit
    using p3(1) by blast
qed

theorem idt_common_isr_unregistered_witness:
  "\<exists>s'. idt_common_isr 0x2000 (\<lambda>_ _ _ _. None) 33 reset_state = Some s' \<and> on_screen s'"
  using idt_common_isr_unregistered [of 33 reset_state "0x2000" "\<lambda>_ _ _ _. None"]
  by (auto simp: reset_state_def on_screen_def)

text \<open>\<open>pit_init\<close> returns, registers the timer handler last on interrupt 32, and programs
  counter 0 as a binary rate generator with divisor 1193 (low byte first).\<close>

theorem pit_init_correct:
  assumes "idt_ok s cs" and "node_ok int_h"
    and "\<forall>m < 48. \<forall>x \<in> set (cs m). node x \<inter> node int_h = {}"
  shows "\<exists>s' lo hi. pit_init int_h s = Some s' \<and> idt_ok s' (cs(32 := cs 32 @ [int_h])) \<and>
    io_log s' = io_log s @ [OutB 0x43 0x34, OutB 0x40 lo, OutB 0x40 hi] \<and> unat lo + 256 * unat hi = 1193"
proof -
  have n: "unat (32 :: u8) < max_isr_cnt" "unat (32 :: u8) = 32" by simp_all
  obtain s' where r: "idt_reg_handler 32 int_h s = Some s'" "idt_ok s' (cs(32 := cs 32 @ [int_h]))"
    using reg_all_chains [OF assms(1) n(1) assms(2,3)] unfolding n(2) by blast
  have "pit_init int_h s = Some (outb 0x40 0x04 (outb 0x40 0xA9 (outb 0x43 0x34 s')))"
    by (simp add: pit_init_def r(1) Let_def)
  moreover have "idt_ok (outb 0x40 0x04 (outb 0x40 0xA9 (outb 0x43 0x34 s'))) (cs(32 := cs 32 @ [int_h]))"
    using r(2) by (simp add: idt_ok_def outb_def log_event_def)
  moreover have "io_log (outb 0x40 0x04 (outb 0x40 0xA9 (outb 0x43 0x34 s'))) =
      io_log s @ [OutB 0x43 0x34, OutB 0x40 0xA9, OutB 0x40 0x04]"
    using reg_log [OF r(1)] by (simp add: port_defs)
  ultimately show ?thesis by (intro exI [of _ "0xA9"] exI [of _ "0x04"] exI conjI) auto
qed

theorem pit_init_correct_witness:
  "\<exists>s' lo hi. pit_init 0x3000 reset_state = Some s' \<and> idt_ok s' ((\<lambda>_. [])(32 := [0x3000])) \<and>
     io_log s' = [OutB 0x43 0x34, OutB 0x40 lo, OutB 0x40 hi] \<and> unat lo + 256 * unat hi = 1193"
  using pit_init_correct [OF reset_state_idt node_ok_3000(1)] by (simp add: reset_state_def)

text \<open>C35: When for the next \<open>ms\<close> events the devices raise no interrupt but the timer and leave the bytes in
  \<open>S\<close> alone, the handler node of the timer among them, \<open>sleep ms\<close> returns after exactly \<open>ms\<close> timer
  interrupts, for every \<open>ms\<close>, zero included, and nothing in \<open>S\<close> has changed.\<close>

theorem sleep_exact:
  assumes "timer_keeps hw int_h S (io_log s) (unat ms)" and "timer_inv pit_isr int_h s"
  shows "\<exists>s'. sleep hw (idt_common_isr itoa_fixed (pit_dispatch pit_isr other)) ms s = Some s' \<and>
    io_log s' = io_log s @ replicate (unat ms) (Halt 32) \<and> timer_ms_left s' = 0 \<and>
    same_on (mem s) (mem s') S"
proof -
  obtain s' where "sleep hw (idt_common_isr itoa_fixed (pit_dispatch pit_isr other)) ms s = Some s'"
    "io_log s' = io_log s @ replicate (unat ms) (Halt 32)" "timer_ms_left s' = 0" "same_on (mem s) (mem s') S"
    by (rule sleep_keeps [OF assms])
  then show ?thesis by blast
qed


theorem sleep_exact_witness:
  "\<exists>s'. sleep \<lparr>hw_inb = \<lambda>_ _. 0, hw_inw = \<lambda>_ _. 0, hw_inl = \<lambda>_ _. 0, hw_irq = \<lambda>_. 32, hw_dma = \<lambda>_ m. m\<rparr>
     (idt_common_isr 0x2000 (pit_dispatch 0x500 (\<lambda>_ _ _ _. None))) 10 ticking_state = Some s' \<and>
     io_log s' = replicate 10 (Halt 32)"
  using sleep_exact [OF _ ticking_state_timer,
      of "\<lparr>hw_inb = \<lambda>_ _. 0, hw_inw = \<lambda>_ _. 0, hw_inl = \<lambda>_ _. 0, hw_irq = \<lambda>_. 32, hw_dma = \<lambda>_ m. m\<rparr>" UNIV 10 "0x2000" "\<lambda>_ _ _ _. None"]
    node_ok_3000(1)
  by (auto simp: ticking_state_def reset_state_def timer_keeps_def)

end
