(* ===== verification/Serial.thy ===== *)
theory Serial
  imports Pit
begin

text \<open>
  The serial port driver, \<open>drivers/serial/serial.c\<close>, on the port registers of a 16550 at
  \<open>port\<close> to \<open>port + 7\<close>. A busy wait that never sees its bit is \<open>None\<close>, and so is the division
  by a bit rate of zero, which traps.
\<close>


section \<open>The code\<close>

definition COM1 :: u32 where "COM1 = 0x3f8"
definition COM2 :: u32 where "COM2 = 0x2f8"

definition RECV_BUF :: "u32 \<Rightarrow> u16" where "RECV_BUF com = ucast (com + 0)"
definition SEND_BUF :: "u32 \<Rightarrow> u16" where "SEND_BUF com = ucast (com + 0)"
definition INT_ENA :: "u32 \<Rightarrow> u16" where "INT_ENA com = ucast (com + 1)"
definition DIV_LO_DLAB :: "u32 \<Rightarrow> u16" where "DIV_LO_DLAB com = ucast (com + 0)"
definition DIV_HI_DLAB :: "u32 \<Rightarrow> u16" where "DIV_HI_DLAB com = ucast (com + 1)"
definition FIFO_CTRL :: "u32 \<Rightarrow> u16" where "FIFO_CTRL com = ucast (com + 2)"
definition LINE_CTRL_REG :: "u32 \<Rightarrow> u16" where "LINE_CTRL_REG com = ucast (com + 3)"
definition MODEM_CTRL_REG :: "u32 \<Rightarrow> u16" where "MODEM_CTRL_REG com = ucast (com + 4)"
definition LINE_STATUS_REG :: "u32 \<Rightarrow> u16" where "LINE_STATUS_REG com = ucast (com + 5)"

definition fifo_empty :: "hw \<Rightarrow> u32 \<Rightarrow> 'a machine_scheme \<Rightarrow> bool \<times> 'a machine_scheme" where
  "fifo_empty hw port s = (let (b, s) = inb hw (LINE_STATUS_REG port) s in ((b AND 0x20) \<noteq> 0, s))"

text \<open>The loop that waits for the looped back byte; \<open>nap\<close> is \<open>sleep(10)\<close>.\<close>

partial_function (option) loopback_wait ::
  "hw \<Rightarrow> ('a machine_scheme \<Rightarrow> 'a machine_scheme option) \<Rightarrow> u32 \<Rightarrow> u8 \<Rightarrow>
   'a machine_scheme \<Rightarrow> (u8 \<times> 'a machine_scheme) option" where
  "loopback_wait hw nap port tries s =
     (if tries > 0
      then let (b, s) = inb hw (LINE_STATUS_REG port) s in
           if (b AND 0x1) = 0
           then nap s \<bind> (\<lambda>s. loopback_wait hw nap port (tries - 1) s)
           else Some (tries, s)
      else Some (tries, s))"

definition serial_init_port ::
  "hw \<Rightarrow> (u8 \<Rightarrow> 'a pit_state_scheme \<Rightarrow> 'a pit_state_scheme option) \<Rightarrow> u32 \<Rightarrow> u32 \<Rightarrow>
   'a pit_state_scheme \<Rightarrow> (bool \<times> 'a pit_state_scheme) option" where
  "serial_init_port hw isr port bps s =
     (if bps = 0 then None
      else do {
        let divisor = (ucast (1843200 div 16 div bps) :: u16);
        let s = outb (INT_ENA port) 0 s;
        let s = outb (LINE_CTRL_REG port) 0x80 s;
        let s = outb (DIV_LO_DLAB port) (ucast divisor) s;
        let s = outb (DIV_HI_DLAB port) (ucast (drop_bit 8 divisor)) s;
        let s = outb (LINE_CTRL_REG port) 0x03 s;
        let s = outb (FIFO_CTRL port) 0xc7 s;
        let s = outb (MODEM_CTRL_REG port) 0x1f s;
        let s = outb (SEND_BUF port) 0xae s;
        (tries, s) \<leftarrow> loopback_wait hw (sleep hw isr 10) port 10 s;
        let s = outb (MODEM_CTRL_REG port) 0x0f s;
        Some (tries > 0, s)
      })"

partial_function (option) wait_fifo :: "hw \<Rightarrow> u32 \<Rightarrow> 'a machine_scheme \<Rightarrow> 'a machine_scheme option" where
  "wait_fifo hw port s =
     (let (e, s) = fifo_empty hw port s in if \<not> e then wait_fifo hw port s else Some s)"

definition serial_write :: "hw \<Rightarrow> u32 \<Rightarrow> u8 \<Rightarrow> 'a machine_scheme \<Rightarrow> 'a machine_scheme option" where
  "serial_write hw port ch s = do { s \<leftarrow> wait_fifo hw port s; Some (outb (SEND_BUF port) ch s) }"

definition serial_data_ready :: "hw \<Rightarrow> u32 \<Rightarrow> 'a machine_scheme \<Rightarrow> bool \<times> 'a machine_scheme" where
  "serial_data_ready hw port s =
     (let (b, s) = inb hw (LINE_STATUS_REG port) s in ((b AND 0x01) \<noteq> 0, s))"

definition serial_read :: "hw \<Rightarrow> u32 \<Rightarrow> 'a machine_scheme \<Rightarrow> u8 \<times> 'a machine_scheme" where
  "serial_read hw port s =
     (let (ready, s) = serial_data_ready hw port s in
      if \<not> ready then (0, s) else inb hw (RECV_BUF port) s)"


section \<open>Sending\<close>

text \<open>The log of a transmission: status reads without the bit, one with it, and the byte.\<close>

definition polls :: "u16 \<Rightarrow> u8 list \<Rightarrow> io_event list" where
  "polls port bs = map (InB port) bs"

lemma wait_fifo_run:
  assumes "\<And>j. j < k \<Longrightarrow> (st j AND 0x20) = 0" and "(st k AND 0x20) \<noteq> 0"
    and "\<And>j. j \<le> k \<Longrightarrow>
      hw_inb hw (io_log s @ polls (LINE_STATUS_REG port) (map st [0..<j])) (LINE_STATUS_REG port) = st j"
  shows "wait_fifo hw port s = Some (s\<lparr>io_log := io_log s @ polls (LINE_STATUS_REG port) (map st [0..<Suc k])\<rparr>)"
  using assms
proof (induction k arbitrary: s st)
  case 0
  then show ?case
    by (subst wait_fifo.simps) (simp add: fifo_empty_def inb_def log_event_def polls_def Let_def)
next
  case (Suc k)
  let ?p = "LINE_STATUS_REG port"
  let ?s = "log_event (InB ?p (st 0)) s"
  have first: "hw_inb hw (io_log s) ?p = st 0" using Suc.prems(3) [of 0] by (simp add: polls_def)
  have "wait_fifo hw port ?s = Some (?s\<lparr>io_log := io_log ?s @ polls ?p (map (\<lambda>j. st (Suc j)) [0..<Suc k])\<rparr>)"
  proof (rule Suc.IH)
    fix j assume "j \<le> k"
    then show "hw_inb hw (io_log ?s @ polls ?p (map (\<lambda>j. st (Suc j)) [0..<j])) ?p = st (Suc j)"
      using Suc.prems(3) [of "Suc j"] by (simp add: polls_def map_upt_Suc del: upt_Suc)
  qed (use Suc.prems(1) [of "Suc _"] Suc.prems(2) in auto)
  moreover have "wait_fifo hw port s = wait_fifo hw port ?s"
    using Suc.prems(1) [of 0] by (subst wait_fifo.simps) (simp add: fifo_empty_def inb_def first Let_def)
  ultimately show ?case
    by (simp add: log_event_def polls_def map_upt_Suc del: upt_Suc)
qed


section \<open>Initialisation\<close>

text \<open>
  The log of the wait for the looped back byte: failed status reads, each with a sleep of
  10 ms after it, and possibly a successful one.
\<close>

definition wait_events :: "u16 \<Rightarrow> u8 list \<Rightarrow> io_event list" where
  "wait_events port bs = concat (map (\<lambda>b. InB port b # replicate 10 (Halt 32)) bs)"

lemma loopback_wait_run:
  assumes "timer_keeps hw int_h S (io_log s) (11 * unat tries)" and "timer_inv pit_isr int_h s"
  shows "\<exists>t s' bs last. loopback_wait hw (sleep hw (idt_common_isr itoa_fixed (pit_dispatch pit_isr other)) 10) port tries s =
      Some (t, s') \<and> unat t + length bs = unat tries \<and> (\<forall>b \<in> set bs. (b AND 1) = 0) \<and>
    io_log s' = io_log s @ wait_events (LINE_STATUS_REG port) bs @ last \<and>
    (if t = 0 then last = [] else \<exists>b. last = [InB (LINE_STATUS_REG port) b] \<and> (b AND 1) \<noteq> 0) \<and>
    timer_inv pit_isr int_h s' \<and> ticked s s' \<and> same_on (mem s) (mem s') S"
  using assms
proof (induction "unat tries" arbitrary: tries s)
  case 0
  then have "tries = 0" by (simp add: unat_eq_zero)
  with 0 show ?case
    by (intro exI [of _ 0] exI [of _ s] exI [of _ "[]"]) (simp add: loopback_wait.simps wait_events_def ticked_refl same_on_refl)
next
  case (Suc k)
  let ?p = "LINE_STATUS_REG port" and ?nap = "sleep hw (idt_common_isr itoa_fixed (pit_dispatch pit_isr other)) 10"
  let ?b = "hw_inb hw (io_log s) ?p"
  let ?s = "log_event (InB ?p ?b) s"
  have pos: "tries > 0" using Suc.hyps(2) by (cases "tries = 0") (auto simp: word_neq_0_conv)
  have inv: "timer_inv pit_isr int_h ?s" using Suc.prems(2) by (simp add: timer_inv_def log_event_def)
  note keep = Suc.prems(1) [folded Suc.hyps(2)]
  have t1: "timer_keeps hw int_h S (io_log ?s) (unat (10 :: u32))"
    using timer_keeps_later [OF keep, of "[InB ?p ?b]"] by (simp add: log_event_def)
  have unfold: "loopback_wait hw ?nap port tries s =
      (if (?b AND 1) = 0 then ?nap ?s \<bind> (\<lambda>s. loopback_wait hw ?nap port (tries - 1) s) else Some (tries, ?s))"
    using pos by (subst loopback_wait.simps) (simp add: inb_def Let_def)
  show ?case
  proof (cases "(?b AND 1) = 0")
    case True
    obtain s1 where n: "?nap ?s = Some s1" "io_log s1 = io_log ?s @ replicate (unat (10 :: u32)) (Halt 32)"
      "timer_inv pit_isr int_h s1" "ticked ?s s1" "same_on (mem ?s) (mem s1) S"
      by (rule sleep_keeps [OF t1 inv])
    have k: "k = unat (tries - 1)"
      using Suc.hyps(2) pos by (simp add: unat_sub word_le_nat_alt)
    have "timer_keeps hw int_h S (io_log s1) (11 * unat (tries - 1))"
      using timer_keeps_later [OF keep, of "InB ?p ?b # replicate (unat (10 :: u32)) (Halt 32)" "11 * k"] n(2) k by (simp add: log_event_def)
    from Suc.hyps(1) [OF k this n(3)] obtain t s' bs last where
      r: "loopback_wait hw ?nap port (tries - 1) s1 = Some (t, s')" "unat t + length bs = unat (tries - 1)"
        "\<forall>b \<in> set bs. (b AND 1) = 0" "io_log s' = io_log s1 @ wait_events ?p bs @ last"
        "if t = 0 then last = [] else \<exists>b. last = [InB ?p b] \<and> (b AND 1) \<noteq> 0" "timer_inv pit_isr int_h s'" "ticked s1 s'"
        "same_on (mem s1) (mem s') S"
      by blast
    have "same_on (mem s) (mem s') S" using same_on_trans [OF n(5) r(8)] by (simp add: log_event_def)
    moreover
    have "ticked s s'" using ticked_trans [OF n(4) r(7)] by (simp add: ticked_log)
    moreover
    have "io_log s' = io_log s @ wait_events ?p (?b # bs) @ last"
      using r(4) n(2) by (simp add: wait_events_def)
    moreover have "unat t + length (?b # bs) = unat tries" using r(2) k Suc.hyps(2) by simp
    moreover have "loopback_wait hw ?nap port tries s = Some (t, s')" using unfold True n(1) r(1) by simp
    moreover have "\<forall>b \<in> set (?b # bs). (b AND 1) = 0" using True r(3) by simp
    ultimately show ?thesis using r(5,6) by blast
  next
    case False
    have m: "mem ?s = mem s" by (simp add: log_event_def)
    show ?thesis
      using False unfold inv pos
      by (intro exI [of _ tries] exI [of _ ?s] exI [of _ "[]"] exI [of _ "[InB ?p ?b]"]) (auto simp: wait_events_def ticked_event same_on_refl m)
  qed
qed

text \<open>The registers before the wait, for a divisor.\<close>

definition setup_events :: "u32 \<Rightarrow> nat \<Rightarrow> io_event list" where
  "setup_events port d =
     [OutB (INT_ENA port) 0, OutB (LINE_CTRL_REG port) 0x80,
      OutB (DIV_LO_DLAB port) (of_nat (d mod 256)), OutB (DIV_HI_DLAB port) (of_nat (d div 256 mod 256)),
      OutB (LINE_CTRL_REG port) 0x03, OutB (FIFO_CTRL port) 0xc7,
      OutB (MODEM_CTRL_REG port) 0x1f, OutB (SEND_BUF port) 0xae]"

end
