(* ===== verification/SerialTheorems.thy ===== *)
theory SerialTheorems
  imports Serial InterruptTheorems
begin

text \<open>
  What the serial driver guarantees.
\<close>

text \<open>When the transmitter becomes ready at the \<open>k\<close>-th further poll (for any \<open>k\<close>),
  \<open>serial_write\<close> returns after exactly \<open>k + 1\<close> status reads and then sends exactly the one byte;
  it changes nothing but the log.\<close>

theorem serial_write_sends:
  assumes "\<And>j. j < k \<Longrightarrow> (st j AND 0x20) = 0" and "(st k AND 0x20) \<noteq> 0"
    and "\<And>j. j \<le> k \<Longrightarrow>
      hw_inb hw (io_log s @ polls (LINE_STATUS_REG port) (map st [0..<j])) (LINE_STATUS_REG port) = st j"
  shows "serial_write hw port ch s =
    Some (s\<lparr>io_log := io_log s @ polls (LINE_STATUS_REG port) (map st [0..<Suc k]) @ [OutB (SEND_BUF port) ch]\<rparr>)"
  by (simp add: serial_write_def wait_fifo_run [OF assms] outb_def log_event_def del: upt_Suc)

text \<open>A port that is busy for two polls, and ready from then on; its data bit is always set.\<close>

definition busy_twice :: hw where
  "busy_twice = \<lparr>hw_inb = \<lambda>l _. if length l < 2 then 0x01 else 0x21, hw_inw = \<lambda>_ _. 0, hw_inl = \<lambda>_ _. 0,
     hw_irq = \<lambda>_. 32, hw_dma = \<lambda>_ m. m\<rparr>"

theorem serial_write_sends_witness:
  "serial_write busy_twice COM1 0x41 reset_state =
    Some (reset_state\<lparr>io_log := [InB 0x3fd 0x01, InB 0x3fd 0x01, InB 0x3fd 0x21, OutB 0x3f8 0x41]\<rparr>)"
proof -
  have "serial_write busy_twice COM1 0x41 reset_state =
    Some (reset_state\<lparr>io_log := io_log reset_state @
      polls (LINE_STATUS_REG COM1) (map (\<lambda>j. if j < 2 then 0x01 else 0x21) [0..<Suc 2]) @ [OutB (SEND_BUF COM1) 0x41]\<rparr>)"
    by (rule serial_write_sends) (auto simp: busy_twice_def polls_def reset_state_def)
  then show ?thesis
    by (simp add: polls_def reset_state_def LINE_STATUS_REG_def SEND_BUF_def COM1_def upt_rec)
qed

lemma low_high_bytes:
  "(ucast (d :: u16) :: u8) = of_nat (unat d mod 256)"
  "(ucast (drop_bit 8 (d :: u16)) :: u8) = of_nat (unat d div 256 mod 256)"
  by (simp_all only: word_unat_eq_iff unsigned_ucast_eq take_bit_eq_mod unat_of_nat unat_drop_bit_div) simp_all

lemma serial_init_port_run:
  assumes "timer_keeps hw int_h S (io_log s) 118" and "timer_inv pit_isr int_h s" and "bps \<noteq> 0"
  shows "\<exists>success s' bs last.
      serial_init_port hw (idt_common_isr itoa_fixed (pit_dispatch pit_isr other)) port bps s = Some (success, s') \<and>
      io_log s' = io_log s @ setup_events port (115200 div unat bps mod 65536) @
        wait_events (LINE_STATUS_REG port) bs @ last @ [OutB (MODEM_CTRL_REG port) 0x0f] \<and>
      length bs \<le> 10 \<and> (\<forall>b \<in> set bs. (b AND 1) = 0) \<and>
      (if success then \<exists>b. last = [InB (LINE_STATUS_REG port) b] \<and> (b AND 1) \<noteq> 0
       else last = [] \<and> length bs = 10) \<and> timer_inv pit_isr int_h s' \<and> ticked s s' \<and> same_on (mem s) (mem s') S"
proof -
  define dv :: u16 where "dv = ucast (115200 div bps)"
  let ?isr = "idt_common_isr itoa_fixed (pit_dispatch pit_isr other)"
  have d: "unat dv = 115200 div unat bps mod 65536"
    by (simp add: dv_def unsigned_ucast_eq take_bit_eq_mod unat_div)
  note lo = low_high_bytes(1) [of dv] and hi = low_high_bytes(2) [of dv]
  define s1 where "s1 = s\<lparr>io_log := io_log s @ setup_events port (unat dv)\<rparr>"
  have inv1: "timer_inv pit_isr int_h s1" using assms(2) by (simp add: timer_inv_def s1_def)
  have t1: "ticked s s1" using ticked_refl [of s] by (cases s) (auto simp: ticked_def s1_def)
  have "length (setup_events port (unat dv)) = 8" by (simp add: setup_events_def)
  then have keep1: "timer_keeps hw int_h S (io_log s1) (11 * unat (10 :: u8))"
    using timer_keeps_later [OF assms(1), of "setup_events port (unat dv)" 110] by (simp add: s1_def)
  from loopback_wait_run [OF keep1 inv1, of itoa_fixed other port] obtain t s2 bs last where
    w: "loopback_wait hw (sleep hw ?isr 10) port 10 s1 = Some (t, s2)" "unat t + length bs = 10"
      "\<forall>b \<in> set bs. (b AND 1) = 0" "io_log s2 = io_log s1 @ wait_events (LINE_STATUS_REG port) bs @ last"
      "if t = 0 then last = [] else \<exists>b. last = [InB (LINE_STATUS_REG port) b] \<and> (b AND 1) \<noteq> 0"
      "timer_inv pit_isr int_h s2" "ticked s1 s2" "same_on (mem s1) (mem s2) S"
    by auto
  let ?s' = "outb (MODEM_CTRL_REG port) 0x0f s2"
  have "serial_init_port hw ?isr port bps s = Some (t > 0, ?s')"
  proof -
    have "outb (SEND_BUF port) 0xae (outb (MODEM_CTRL_REG port) 0x1f (outb (FIFO_CTRL port) 0xc7
        (outb (LINE_CTRL_REG port) 0x03 (outb (DIV_HI_DLAB port) (ucast (drop_bit 8 dv))
        (outb (DIV_LO_DLAB port) (ucast dv) (outb (LINE_CTRL_REG port) 0x80 (outb (INT_ENA port) 0 s))))))) = s1"
      unfolding lo hi by (simp add: s1_def outb_def log_event_def setup_events_def)
    then show ?thesis
      using assms(3) w(1) by (simp add: serial_init_port_def dv_def [symmetric] Let_def)
  qed
  moreover have "io_log ?s' = io_log s @ setup_events port (115200 div unat bps mod 65536) @
      wait_events (LINE_STATUS_REG port) bs @ last @ [OutB (MODEM_CTRL_REG port) 0x0f]"
    using w(4) by (simp add: s1_def d outb_def)
  moreover have "length bs \<le> 10" "t = 0 \<Longrightarrow> length bs = 10" using w(2) by auto
  moreover have "t > 0 \<longleftrightarrow> t \<noteq> 0" by (simp add: word_neq_0_conv)
  moreover have "timer_inv pit_isr int_h ?s'" using w(6) by (simp add: timer_inv_def outb_def log_event_def)
  moreover have "ticked s ?s'"
    using ticked_trans [OF ticked_trans [OF t1 w(7)] ticked_event] by (simp add: outb_def)
  moreover have "same_on (mem s) (mem ?s') S" using w(8) by (simp add: s1_def outb_def)
  ultimately show ?thesis
    using w(3,5) by (intro exI [of _ "t > 0"] exI [of _ ?s'] exI [of _ bs] exI [of _ last]) auto
qed

text \<open>C39: With a timer that ticks for the next 118 hardware events, \<open>serial_init_port\<close> at any bit rate but zero returns after at
  most ten status reads without data, each followed by 10 ms of sleep; it reports success
  exactly when a status read showed the data bit; and it has programmed the divisor
  \<open>115200 / bps\<close>, of which only 16 bits are kept, then the line, FIFO and modem registers in the
  order of the code. A bit rate of zero traps.\<close>

theorem serial_init_port_correct:
  assumes "timer_keeps hw int_h S (io_log s) 118" and "timer_inv pit_isr int_h s"
  shows "if bps = 0
    then serial_init_port hw (idt_common_isr itoa_fixed (pit_dispatch pit_isr other)) port bps s = None
    else \<exists>success s' bs last.
      serial_init_port hw (idt_common_isr itoa_fixed (pit_dispatch pit_isr other)) port bps s = Some (success, s') \<and>
      io_log s' = io_log s @ setup_events port (115200 div unat bps mod 65536) @
        wait_events (LINE_STATUS_REG port) bs @ last @ [OutB (MODEM_CTRL_REG port) 0x0f] \<and>
      length bs \<le> 10 \<and> (\<forall>b \<in> set bs. (b AND 1) = 0) \<and>
      (if success then \<exists>b. last = [InB (LINE_STATUS_REG port) b] \<and> (b AND 1) \<noteq> 0
       else last = [] \<and> length bs = 10)"
proof (cases "bps = 0")
  case True
  then show ?thesis by (simp add: serial_init_port_def)
next
  case False
  from serial_init_port_run [OF assms False, of itoa_fixed other port] show ?thesis
    unfolding if_not_P [OF False] by blast
qed

theorem serial_init_port_correct_witness:
  "\<exists>success s'. serial_init_port busy_twice (idt_common_isr 0x2000 (pit_dispatch 0x500 (\<lambda>_ _ _ _. None))) COM1 115200
     ticking_state = Some (success, s')"
proof -
  have "timer_keeps busy_twice 0x3000 UNIV (io_log ticking_state) 118"
    using node_ok_3000(1) by (simp add: timer_keeps_def busy_twice_def)
  from serial_init_port_correct [OF this ticking_state_timer, of 115200 "0x2000" "\<lambda>_ _ _ _. None" COM1]
  show ?thesis by auto
qed

text \<open>\<open>serial_read\<close> reads the receive buffer exactly when the status register, read once just
  before, has the data bit; otherwise it returns 0 and touches no other register.\<close>

theorem serial_read_correct:
  "serial_read hw port s =
    (let st = hw_inb hw (io_log s) (LINE_STATUS_REG port);
         l = io_log s @ [InB (LINE_STATUS_REG port) st];
         b = hw_inb hw l (RECV_BUF port)
     in if bit st 0 then (b, s\<lparr>io_log := l @ [InB (RECV_BUF port) b]\<rparr>) else (0, s\<lparr>io_log := l\<rparr>))"
  by (simp add: serial_read_def serial_data_ready_def inb_def log_event_def Let_def and_one_eq odd_iff_mod_2_eq_one [symmetric] bit_0)

end
