(* ===== verification/Pci.thy ===== *)
theory Pci
  imports Pit PciTypes
begin

text \<open>
  The PCI driver, \<open>drivers/pci/pci21.c\<close>: configuration space through the ports \<open>0xCF8\<close> and
  \<open>0xCFC\<close>, the scan of all buses, and the drivers offered each function that is found. A
  \<open>struct pci_dev\<close> lives in memory (\<open>PciTypes\<close>); the table of drivers is part of the state
  and holds the addresses of their \<open>init\<close> functions, which \<open>init_call\<close> runs.
\<close>

record pci_state = pit_state +
  drivers :: "u32 list"
  registered_drivers :: u8

abbreviation max_reg_drivers :: nat where "max_reg_drivers \<equiv> 3"


section \<open>Configuration space\<close>

definition get_pci_dev_addr :: "u32 \<Rightarrow> u8 \<Rightarrow> 'a machine_scheme \<Rightarrow> u32" where
  "get_pci_dev_addr dev reg s =
     (let addr = 0;
          addr = addr OR push_bit 31 1;
          addr = addr OR push_bit 16 (ucast (ld8 (dev_bus dev) s));
          addr = addr OR push_bit 11 (ucast (ld8 (dev_device dev) s AND 0x1f));
          addr = addr OR push_bit 8 (ucast (ld8 (dev_func dev) s AND 0x07));
          addr = addr OR (ucast reg AND 0xfc)
      in addr)"

definition pci_read_32 :: "hw \<Rightarrow> u32 \<Rightarrow> u8 \<Rightarrow> 'a machine_scheme \<Rightarrow> u32 \<times> 'a machine_scheme" where
  "pci_read_32 hw dev offset s =
     (let s = outl 0xcf8 (get_pci_dev_addr dev (offset AND 0xfc) s) s in inl hw 0xcfc s)"

definition pci_read_16 :: "hw \<Rightarrow> u32 \<Rightarrow> u8 \<Rightarrow> 'a machine_scheme \<Rightarrow> u16 \<times> 'a machine_scheme" where
  "pci_read_16 hw dev offset s =
     (let s = outl 0xcf8 (get_pci_dev_addr dev (offset AND 0xfc) s) s
      in inw hw (0xcfc + ucast (offset AND 0x3)) s)"

definition pci_read_8 :: "hw \<Rightarrow> u32 \<Rightarrow> u8 \<Rightarrow> 'a machine_scheme \<Rightarrow> u8 \<times> 'a machine_scheme" where
  "pci_read_8 hw dev offset s =
     (let s = outl 0xcf8 (get_pci_dev_addr dev (offset AND 0xfc) s) s
      in inb hw (0xcfc + ucast (offset AND 0x3)) s)"

definition pci_write_32 :: "u32 \<Rightarrow> u8 \<Rightarrow> u32 \<Rightarrow> 'a machine_scheme \<Rightarrow> 'a machine_scheme" where
  "pci_write_32 dev offset data s =
     (let s = outl 0xcf8 (get_pci_dev_addr dev (offset AND 0xfc) s) s in outl 0xcfc data s)"

definition pci_write_16 :: "u32 \<Rightarrow> u8 \<Rightarrow> u16 \<Rightarrow> 'a machine_scheme \<Rightarrow> 'a machine_scheme" where
  "pci_write_16 dev offset data s =
     (let s = outl 0xcf8 (get_pci_dev_addr dev (offset AND 0xfc) s) s
      in outw (0xcfc + ucast (offset AND 0x3)) data s)"

definition pci_write_8 :: "u32 \<Rightarrow> u8 \<Rightarrow> u8 \<Rightarrow> 'a machine_scheme \<Rightarrow> 'a machine_scheme" where
  "pci_write_8 dev offset data s =
     (let s = outl 0xcf8 (get_pci_dev_addr dev (offset AND 0xfc) s) s
      in outb (0xcfc + ucast (offset AND 0x3)) data s)"


section \<open>Reading a function's header\<close>

text \<open>\<open>dev->header.f = pci_read_N(dev, off)\<close> for a field at address \<open>f\<close>.\<close>

definition fill_8 :: "hw \<Rightarrow> u32 \<Rightarrow> u32 \<Rightarrow> u8 \<Rightarrow> 'a machine_scheme \<Rightarrow> 'a machine_scheme" where
  "fill_8 hw dev f off s = (let (v, s) = pci_read_8 hw dev off s in st8 f v s)"

definition fill_16 :: "hw \<Rightarrow> u32 \<Rightarrow> u32 \<Rightarrow> u8 \<Rightarrow> 'a machine_scheme \<Rightarrow> 'a machine_scheme" where
  "fill_16 hw dev f off s = (let (v, s) = pci_read_16 hw dev off s in st16 f v s)"

definition fill_32 :: "hw \<Rightarrow> u32 \<Rightarrow> u32 \<Rightarrow> u8 \<Rightarrow> 'a machine_scheme \<Rightarrow> 'a machine_scheme" where
  "fill_32 hw dev f off s = (let (v, s) = pci_read_32 hw dev off s in st32 f v s)"

definition read_header :: "hw \<Rightarrow> u32 \<Rightarrow> 'a machine_scheme \<Rightarrow> 'a machine_scheme" where
  "read_header hw dev s =
     (let s = fill_16 hw dev (hdr_vendor_id dev) 0x0 s;
          s = fill_16 hw dev (hdr_device_id dev) 0x2 s;
          s = fill_16 hw dev (hdr_command dev) 0x4 s;
          s = fill_16 hw dev (hdr_status dev) 0x6 s;
          s = fill_8 hw dev (hdr_rev_id dev) 0x8 s;
          s = fill_8 hw dev (hdr_prog_if dev) 0x9 s;
          s = fill_8 hw dev (hdr_subclass dev) 0xa s;
          s = fill_8 hw dev (hdr_class_code dev) 0xb s;
          s = fill_8 hw dev (hdr_cache_line_size dev) 0xc s;
          s = fill_8 hw dev (hdr_latency_timer dev) 0xd s;
          s = fill_8 hw dev (hdr_header_type dev) 0xe s;
          s = fill_8 hw dev (hdr_bist dev) 0xf s
      in s)"

definition read_type00 :: "hw \<Rightarrow> u32 \<Rightarrow> 'a machine_scheme \<Rightarrow> 'a machine_scheme" where
  "read_type00 hw dev s =
     (let s = fold (\<lambda>bar_off. fill_32 hw dev (hdr_bar dev (of_nat bar_off)) (0x10 + of_nat (bar_off * 4)))
                [0..<PCI_HEADER_TYPE00_BAR_ADDRS] s;
          s = fill_32 hw dev (hdr_cardbus_cis dev) 0x28 s;
          s = fill_16 hw dev (hdr_subsystem_vid dev) 0x2c s;
          s = fill_16 hw dev (hdr_subsystem_id dev) 0x2e s;
          s = fill_16 hw dev (hdr_rom_base_addr dev) 0x30 s;
          s = fill_8 hw dev (hdr_interrupt_line dev) 0x3c s;
          s = fill_8 hw dev (hdr_interrupt_pin dev) 0x3d s;
          s = fill_8 hw dev (hdr_min_grant dev) 0x3e s;
          s = fill_8 hw dev (hdr_max_latency dev) 0x3f s
      in s)"


section \<open>The scan\<close>

definition pci_destroy_device :: "u32 \<Rightarrow> 'a heap_state_scheme \<Rightarrow> 'a heap_state_scheme option" where
  "pci_destroy_device dev s = memfree dev s"

text \<open>The loop over the drivers; the result is \<open>init_done\<close>.\<close>

partial_function (option) offer_drivers ::
  "(u32 \<Rightarrow> u32 \<Rightarrow> 'a pci_state_scheme \<Rightarrow> (bool \<times> 'a pci_state_scheme) option) \<Rightarrow> u8 \<Rightarrow> u32 \<Rightarrow>
   'a pci_state_scheme \<Rightarrow> (bool \<times> 'a pci_state_scheme) option" where
  "offer_drivers init_call i dev s =
     (if i < registered_drivers s
      then init_call (drivers s ! unat i) dev s \<bind>
        (\<lambda>(ok, s). if ok then Some (True, s) else offer_drivers init_call (i + 1) dev s)
      else Some (False, s))"

definition scan_function ::
  "hw \<Rightarrow> (u32 \<Rightarrow> u32 \<Rightarrow> 'a pci_state_scheme \<Rightarrow> (bool \<times> 'a pci_state_scheme) option) \<Rightarrow> u8 \<Rightarrow> u8 \<Rightarrow> u8 \<Rightarrow>
   'a pci_state_scheme \<Rightarrow> 'a pci_state_scheme option" where
  "scan_function hw init_call bus device func s = do {
     (dev, s) \<leftarrow> memalloc sizeof_pci_dev s;
     let s = st8 (dev_bus dev) bus s;
     let s = st8 (dev_device dev) device s;
     let s = st8 (dev_func dev) func s;
     let s = read_header hw dev s;
     if ld8 (hdr_header_type dev) s = 0xff \<or> ld8 (hdr_class_code dev) s = 0xff then Some s
     else do {
       let s = (if (ld8 (hdr_header_type dev) s AND PCI_HEADER_TYPE_TYPE_MASK) = 0 then read_type00 hw dev s else s);
       (init_done, s) \<leftarrow> offer_drivers init_call 0 dev s;
       if \<not> init_done then pci_destroy_device dev s else Some s
     }
   }"

partial_function (option) scan_functions ::
  "hw \<Rightarrow> (u32 \<Rightarrow> u32 \<Rightarrow> 'a pci_state_scheme \<Rightarrow> (bool \<times> 'a pci_state_scheme) option) \<Rightarrow> u8 \<Rightarrow> u8 \<Rightarrow> u8 \<Rightarrow> u8 \<Rightarrow>
   'a pci_state_scheme \<Rightarrow> 'a pci_state_scheme option" where
  "scan_functions hw init_call bus device func max_funcs s =
     (if func < max_funcs
      then scan_function hw init_call bus device func s \<bind>
        (\<lambda>s. scan_functions hw init_call bus device (func + 1) max_funcs s)
      else Some s)"

text \<open>\<open>tmp\<close> is the address of the local \<open>tmp_dev\<close>.\<close>

definition pci_read_device ::
  "hw \<Rightarrow> (u32 \<Rightarrow> u32 \<Rightarrow> 'a pci_state_scheme \<Rightarrow> (bool \<times> 'a pci_state_scheme) option) \<Rightarrow> u32 \<Rightarrow> u8 \<Rightarrow> u8 \<Rightarrow>
   'a pci_state_scheme \<Rightarrow> 'a pci_state_scheme option" where
  "pci_read_device hw init_call tmp bus device s =
     (let max_funcs = 1;
          s = fill_loop tmp 0 (tmp + sizeof_pci_dev) s;
          s = st8 (dev_bus tmp) bus s;
          s = st8 (dev_device tmp) device s;
          s = st8 (dev_func tmp) 0 s;
          (vid, s) = pci_read_16 hw tmp 0 s
      in if vid = 0xffff then Some s
         else
           let (header_type, s) = pci_read_8 hw tmp 0xe s;
               max_funcs = (if (header_type AND PCI_HEADER_TYPE_MULTIFUNC_MASK) \<noteq> 0 then 8 else max_funcs)
           in scan_functions hw init_call bus device 0 max_funcs s)"

definition pci_enumerate_devices ::
  "hw \<Rightarrow> (u32 \<Rightarrow> u32 \<Rightarrow> 'a pci_state_scheme \<Rightarrow> (bool \<times> 'a pci_state_scheme) option) \<Rightarrow> u32 \<Rightarrow>
   'a pci_state_scheme \<Rightarrow> 'a pci_state_scheme option" where
  "pci_enumerate_devices hw init_call tmp =
     for_each (\<lambda>bus. for_each (\<lambda>device. pci_read_device hw init_call tmp (of_nat bus) (of_nat device)) [0..<32])
       [0..<256]"

definition pci_register_driver :: "u32 \<Rightarrow> 'a pci_state_scheme \<Rightarrow> 'a pci_state_scheme" where
  "pci_register_driver drv s =
     (if unat (registered_drivers s) \<ge> max_reg_drivers then s
      else s\<lparr>drivers := (drivers s)[unat (registered_drivers s) := ld32 drv s],
             registered_drivers := registered_drivers s + 1\<rparr>)"

definition pci_init ::
  "hw \<Rightarrow> (u32 \<Rightarrow> u32 \<Rightarrow> 'a pci_state_scheme \<Rightarrow> (bool \<times> 'a pci_state_scheme) option) \<Rightarrow> u32 \<Rightarrow>
   'a pci_state_scheme \<Rightarrow> 'a pci_state_scheme option" where
  "pci_init hw init_call tmp s = pci_enumerate_devices hw init_call tmp s"

end
