(* ===== verification/PciProof.thy ===== *)
theory PciProof
  imports Pci HeapClient
begin

text \<open>
  Facts on the PCI driver: configuration addresses, what the reads of a header change, the
  heap across the scan of a function, and the scan of an empty bus.
\<close>


section \<open>Configuration addresses\<close>

lemma addr_masks:
  "(0x1f :: u8) = mask 5" "(0x07 :: u8) = mask 3" "(0xfc :: u32) = push_bit 2 (mask 6)"
  "(0x1f :: u32) = mask 5" "(0x07 :: u32) = mask 3"
  by (simp_all add: mask_eq_exp_minus_1)

lemma bit_1_iff_u32: "bit (1 :: u32) n \<longleftrightarrow> n = 0"
  by (cases n) (simp_all add: bit_1_iff)

lemma bit_len_8: "bit (b :: u8) n \<Longrightarrow> n < 8"
  using bit_imp_le_length [of b n] by simp

lemma config_field_bits:
  "bit (push_bit 31 1 :: u32) n \<longleftrightarrow> n = 31"
  "bit (push_bit 16 (ucast (b :: u8)) :: u32) n \<longleftrightarrow> 16 \<le> n \<and> n < 24 \<and> bit b (n - 16)"
  "bit (push_bit 11 (ucast (b AND mask 5)) :: u32) n \<longleftrightarrow> 11 \<le> n \<and> n < 16 \<and> bit b (n - 11)"
  "bit (push_bit 8 (ucast (b AND mask 3)) :: u32) n \<longleftrightarrow> 8 \<le> n \<and> n < 11 \<and> bit b (n - 8)"
  "bit (ucast b AND push_bit 2 (mask 6) :: u32) n \<longleftrightarrow> 2 \<le> n \<and> n < 8 \<and> bit b n"
proof -
  show "bit (push_bit 31 1 :: u32) n \<longleftrightarrow> n = 31"
    by (simp only: bit_push_bit_iff bit_1_iff_u32) auto
  show "bit (push_bit 16 (ucast b) :: u32) n \<longleftrightarrow> 16 \<le> n \<and> n < 24 \<and> bit b (n - 16)"
    using bit_len_8 [of b "n - 16"] by (auto simp: bit_push_bit_iff bit_ucast_iff)
  show "bit (push_bit 11 (ucast (b AND mask 5)) :: u32) n \<longleftrightarrow> 11 \<le> n \<and> n < 16 \<and> bit b (n - 11)"
    by (auto simp: bit_push_bit_iff bit_ucast_iff bit_and_iff bit_mask_iff)
  show "bit (push_bit 8 (ucast (b AND mask 3)) :: u32) n \<longleftrightarrow> 8 \<le> n \<and> n < 11 \<and> bit b (n - 8)"
    by (auto simp: bit_push_bit_iff bit_ucast_iff bit_and_iff bit_mask_iff)
  show "bit (ucast b AND push_bit 2 (mask 6) :: u32) n \<longleftrightarrow> 2 \<le> n \<and> n < 8 \<and> bit b n"
    using bit_len_8 [of b n] by (auto simp: bit_push_bit_iff bit_ucast_iff bit_and_iff bit_mask_iff)
qed

lemma config_addr_bits:
  "bit (get_pci_dev_addr dev reg s) n \<longleftrightarrow>
     n = 31 \<or>
     16 \<le> n \<and> n < 24 \<and> bit (ld8 (dev_bus dev) s) (n - 16) \<or>
     11 \<le> n \<and> n < 16 \<and> bit (ld8 (dev_device dev) s) (n - 11) \<or>
     8 \<le> n \<and> n < 11 \<and> bit (ld8 (dev_func dev) s) (n - 8) \<or>
     2 \<le> n \<and> n < 8 \<and> bit reg n"
  unfolding get_pci_dev_addr_def Let_def addr_masks or.left_neutral bit_or_iff config_field_bits
  by (simp only: disj_assoc)


section \<open>What the reads change\<close>

lemma free_block_head_log [simp, frame_simps]: "free_block_head (log_event e s) = free_block_head s"
  by (simp add: log_event_def)

text \<open>Only bytes of \<open>S\<close> and the log.\<close>

definition writes_in :: "nat set \<Rightarrow> 'a heap_state_scheme \<Rightarrow> 'a heap_state_scheme \<Rightarrow> bool" where
  "writes_in S s s' \<longleftrightarrow> (\<exists>m l. s' = s\<lparr>mem := m, io_log := l\<rparr> \<and> same_on (mem s) m (- S))"

lemma writes_in_refl [simp, intro]: "writes_in S s s"
proof -
  have "s = s\<lparr>mem := mem s, io_log := io_log s\<rparr>" by simp
  then show ?thesis unfolding writes_in_def using same_on_refl by blast
qed

lemma writes_in_trans: "writes_in S s s' \<Longrightarrow> writes_in S s' s'' \<Longrightarrow> writes_in S s s''"
proof -
  assume a: "writes_in S s s'" and b: "writes_in S s' s''"
  then obtain m l m' l' where 1: "s' = s\<lparr>mem := m, io_log := l\<rparr>" "same_on (mem s) m (- S)"
    and 2: "s'' = s'\<lparr>mem := m', io_log := l'\<rparr>" "same_on (mem s') m' (- S)"
    unfolding writes_in_def by blast
  then have "s'' = s\<lparr>mem := m', io_log := l'\<rparr>" "same_on (mem s) m' (- S)"
    using same_on_trans [OF 1(2)] by simp_all
  then show ?thesis unfolding writes_in_def by blast
qed

lemma writes_in_log: "writes_in S s (log_event e s)"
  by (auto simp: writes_in_def log_event_def intro!: exI [of _ "mem s"] exI [of _ "io_log s @ [e]"])

lemma writes_in_mem: "same_on (mem s) m (- S) \<Longrightarrow> writes_in S s (s\<lparr>mem := m\<rparr>)"
  unfolding writes_in_def by (intro exI [of _ m] exI [of _ "io_log s"]) simp

lemma writes_in_same: "writes_in S s s' \<Longrightarrow> same_on (mem s) (mem s') (- S)"
  by (auto simp: writes_in_def)

lemma writes_in_head: "writes_in S s s' \<Longrightarrow> free_block_head s' = free_block_head s"
  by (auto simp: writes_in_def)

lemma writes_in_st:
  "{unat f..<unat f + 1} \<subseteq> S \<Longrightarrow> writes_in S s (st8 f b s)"
  "{unat f..<unat f + 2} \<subseteq> S \<Longrightarrow> unat f + 2 \<le> 4294967296 \<Longrightarrow> writes_in S s (st16 f w s)"
  "{unat f..<unat f + 4} \<subseteq> S \<Longrightarrow> unat f + 4 \<le> 4294967296 \<Longrightarrow> writes_in S s (st32 f v s)"
  unfolding st8_def st16_def st32_def
  by (intro writes_in_mem same_on_store8 same_on_store16 same_on_store32; auto)+

lemma writes_in_fill:
  "{unat f..<unat f + 1} \<subseteq> S \<Longrightarrow> writes_in S s (fill_8 hw dev f off s)"
  "{unat f..<unat f + 2} \<subseteq> S \<Longrightarrow> unat f + 2 \<le> 4294967296 \<Longrightarrow> writes_in S s (fill_16 hw dev f off s)"
  "{unat f..<unat f + 4} \<subseteq> S \<Longrightarrow> unat f + 4 \<le> 4294967296 \<Longrightarrow> writes_in S s (fill_32 hw dev f off s)"
  unfolding fill_8_def fill_16_def fill_32_def pci_read_8_def pci_read_16_def pci_read_32_def Let_def
    port_defs prod.case
  by (blast intro: writes_in_trans writes_in_log writes_in_st)+

text \<open>The fields of a device at \<open>dev\<close> lie in its 68 bytes.\<close>

definition dev_bytes :: "u32 \<Rightarrow> nat set" where
  "dev_bytes dev = {unat dev..<unat dev + 68}"

lemma field_in_dev:
  fixes dev k :: u32
  assumes "unat dev + 68 \<le> 4294967296" and "unat k + n \<le> 68" and "0 < n"
  shows "{unat (dev + k)..<unat (dev + k) + n} \<subseteq> dev_bytes dev" and "unat (dev + k) + n \<le> 4294967296"
proof -
  have "unat (dev + k) = unat dev + unat k"
    using assms by (intro unat_add_u32) linarith
  then show "{unat (dev + k)..<unat (dev + k) + n} \<subseteq> dev_bytes dev" "unat (dev + k) + n \<le> 4294967296"
    using assms by (auto simp: dev_bytes_def)
qed

text \<open>One more field, by its offset.\<close>

lemma then_fill:
  assumes "unat dev + 68 \<le> 4294967296" and "writes_in (dev_bytes dev) s s'"
  shows "unat k + 1 \<le> 68 \<Longrightarrow> writes_in (dev_bytes dev) s (fill_8 hw dev (dev + k) off s')"
    and "unat k + 2 \<le> 68 \<Longrightarrow> writes_in (dev_bytes dev) s (fill_16 hw dev (dev + k) off s')"
    and "unat k + 4 \<le> 68 \<Longrightarrow> writes_in (dev_bytes dev) s (fill_32 hw dev (dev + k) off s')"
  by (intro writes_in_trans [OF assms(2)] writes_in_fill field_in_dev [OF assms(1)]; simp)+

lemma then_st8:
  assumes "unat dev + 68 \<le> 4294967296" and "writes_in (dev_bytes dev) s s'" and "unat k + 1 \<le> 68"
  shows "writes_in (dev_bytes dev) s (st8 (dev + k) b s')"
  by (rule writes_in_trans [OF assms(2)], rule writes_in_st, rule field_in_dev [OF assms(1,3)]) simp

lemma then_st8_first:
  "writes_in (dev_bytes dev) s s' \<Longrightarrow> writes_in (dev_bytes dev) s (st8 dev b s')"
  by (erule writes_in_trans, rule writes_in_st) (auto simp: dev_bytes_def)

lemma read_header_writes:
  assumes "unat dev + 68 \<le> 4294967296"
  shows "writes_in (dev_bytes dev) s (read_header hw dev s)"
  unfolding read_header_def Let_def pci_layout
  by (intro then_fill [OF assms] writes_in_refl) simp_all

lemma fold_bars_writes:
  assumes "unat dev + 68 \<le> 4294967296"
  shows "set is \<subseteq> {0..<6} \<Longrightarrow> writes_in (dev_bytes dev) s s' \<Longrightarrow>
    writes_in (dev_bytes dev) s (fold (\<lambda>i. fill_32 hw dev (hdr_bar dev (of_nat i)) (0x10 + of_nat (i * 4))) is s')"
proof (induction "is" arbitrary: s')
  case (Cons i "is")
  have k: "unat (20 + 4 * of_nat i :: u32) = 20 + 4 * i"
  proof -
    have "unat (of_nat (20 + 4 * i) :: u32) = 20 + 4 * i"
      using Cons.prems(1) by (intro unat_of_nat_u32) auto
    then show ?thesis by simp
  qed
  have "writes_in (dev_bytes dev) s (fill_32 hw dev (dev + (20 + 4 * of_nat i)) (0x10 + of_nat (i * 4)) s')"
    using Cons.prems(1) by (intro then_fill(3) [OF assms Cons.prems(2)]) (simp add: k)
  with Cons show ?case by (simp add: hdr_bar_def add.assoc)
qed simp

lemma read_type00_writes:
  assumes "unat dev + 68 \<le> 4294967296"
  shows "writes_in (dev_bytes dev) s (read_type00 hw dev s)"
  unfolding read_type00_def Let_def hdr_cardbus_cis_def hdr_subsystem_vid_def hdr_subsystem_id_def
    hdr_rom_base_addr_def hdr_interrupt_line_def hdr_interrupt_pin_def hdr_min_grant_def hdr_max_latency_def
  by (intro then_fill [OF assms] fold_bars_writes [OF assms] writes_in_refl) simp_all



section \<open>The heap across a scan\<close>

lemma writes_keep:
  assumes "heap_inv lo hi s L" and "writes_in S s s'" and "S \<subseteq> payload L \<union> - {lo..<hi}"
  shows "heap_inv lo hi s' L"
proof (rule write_outcome [OF assms(1) _ writes_in_head [OF assms(2)]])
  show "same_on (mem s) (mem s') ({lo..<hi} - payload L)"
    by (rule same_on_mono [OF writes_in_same [OF assms(2)]]) (use assms(3) in blast)
qed

text \<open>Drivers that decline a device, and leave the heap as they found it.\<close>

definition declines ::
  "nat \<Rightarrow> nat \<Rightarrow> (u32 \<Rightarrow> u32 \<Rightarrow> 'a pci_state_scheme \<Rightarrow> (bool \<times> 'a pci_state_scheme) option) \<Rightarrow> bool" where
  "declines lo hi init_call \<longleftrightarrow> (\<forall>f dev s L. heap_inv lo hi s L \<longrightarrow>
     (\<exists>s'. init_call f dev s = Some (False, s') \<and> heap_inv lo hi s' L \<and> registered_drivers s' = registered_drivers s))"

lemma offer_declined:
  assumes "declines lo hi init_call" and "heap_inv lo hi s L"
  shows "\<exists>s'. offer_drivers init_call i dev s = Some (False, s') \<and> heap_inv lo hi s' L"
  using assms(2)
proof (induction "unat (registered_drivers s) - unat i" arbitrary: i s)
  case 0
  then have "\<not> i < registered_drivers s" by (simp add: word_less_nat_alt)
  with 0 show ?case by (subst offer_drivers.simps) auto
next
  case (Suc k)
  then have lt: "i < registered_drivers s" by (simp add: word_less_nat_alt)
  then have i1: "unat (i + 1) = unat i + 1"
    by (intro unat_step_u8) (simp add: word_less_nat_alt)
  obtain s1 where d: "init_call (drivers s ! unat i) dev s = Some (False, s1)" "heap_inv lo hi s1 L"
      "registered_drivers s1 = registered_drivers s"
    using assms(1) Suc.prems unfolding declines_def by blast
  have "k = unat (registered_drivers s1) - unat (i + 1)"
    using Suc.hyps(2) d(3) i1 by simp
  from Suc.hyps(1) [OF this d(2)] d(1) lt show ?case
    by (subst offer_drivers.simps) simp
qed

text \<open>A freshly allocated device (or NULL), as far as the heap is concerned.\<close>

lemma alloc_device:
  assumes inv: "heap_inv lo hi s L" and lo: "68 \<le> lo"
  obtains dev s1 L1 where "memalloc sizeof_pci_dev s = Some (dev, s1)" and "heap_inv lo hi s1 L1"
    and "dev_bytes dev \<subseteq> payload L1 \<union> - {lo..<hi}" and "unat dev + 68 \<le> 4294967296"
    and "dev = 0 \<and> s1 = s \<and> L1 = L \<or> dev \<noteq> 0 \<and> L dev = None \<and> (\<exists>r. L1 = L(dev \<mapsto> r))"
proof (rule alloc_outcome [OF inv, of sizeof_pci_dev 4])
  assume a: "memalloc_aligned sizeof_pci_dev 4 s = Some (0, s)"
  show thesis
    by (rule that [of 0 s L]) (use a inv lo in \<open>auto simp: memalloc_def dev_bytes_def\<close>)
next
  fix p s' a e
  assume g: "memalloc_aligned sizeof_pci_dev 4 s = Some (p, s')" "p \<noteq> 0" "L p = None"
    "unat p + unat sizeof_pci_dev \<le> e" "heap_inv lo hi s' (L(p \<mapsto> (a, e)))"
  have e: "unat p + 68 \<le> e" using g(4) by (simp add: sizeof_pci_dev_def)
  have "e \<le> hi" using heap_inv_range(2) [OF g(5), of p a e] by simp
  moreover have "hi < 4294967296" using g(5) by (auto simp: heap_inv_def heap_ok_def)
  ultimately have top: "unat p + 68 \<le> 4294967296" using e by simp
  have "dev_bytes p \<subseteq> payload (L(p \<mapsto> (a, e)))"
    using e by (auto simp: dev_bytes_def payload_def)
  then show thesis
    by (intro that [of p s' "L(p \<mapsto> (a, e))"]) (use g top in \<open>auto simp: memalloc_def\<close>)
qed

text \<open>
  One function that no driver claims: the device is given back, unless its header says that
  the function does not exist, in which case the allocation stays live for ever.
\<close>

definition absent :: "u32 \<Rightarrow> 'a machine_scheme \<Rightarrow> bool" where
  "absent dev s \<longleftrightarrow> ld8 (hdr_header_type dev) s = 0xff \<or> ld8 (hdr_class_code dev) s = 0xff"

lemma scan_function_heap:
  assumes inv: "heap_inv lo hi s L" and lo: "68 \<le> lo" and decl: "declines lo hi init_call"
  obtains dev s1 s2 s' L' where "memalloc sizeof_pci_dev s = Some (dev, s1)"
    and "s2 = read_header hw dev (st8 (dev_func dev) func (st8 (dev_device dev) device (st8 (dev_bus dev) bus s1)))"
    and "scan_function hw init_call bus device func s = Some s'" and "heap_inv lo hi s' L'"
    and "if absent dev s2 \<and> dev \<noteq> 0 then L dev = None \<and> (\<exists>r. L' = L(dev \<mapsto> r)) else L' = L"
proof -
  obtain dev s1 L1 where a: "memalloc sizeof_pci_dev s = Some (dev, s1)" "heap_inv lo hi s1 L1"
    "dev_bytes dev \<subseteq> payload L1 \<union> - {lo..<hi}" "unat dev + 68 \<le> 4294967296"
    "dev = 0 \<and> s1 = s \<and> L1 = L \<or> dev \<noteq> 0 \<and> L dev = None \<and> (\<exists>r. L1 = L(dev \<mapsto> r))"
    by (rule alloc_device [OF inv lo])
  define s1' where "s1' = st8 (dev_func dev) func (st8 (dev_device dev) device (st8 (dev_bus dev) bus s1))"
  define s2 where "s2 = read_header hw dev s1'"
  define s3 where "s3 = (if (ld8 (hdr_header_type dev) s2 AND 0x7f) = 0 then read_type00 hw dev s2 else s2)"
  have "writes_in (dev_bytes dev) s1 s1'"
    unfolding s1'_def dev_bus_def dev_device_def dev_func_def
    by (intro then_st8 [OF a(4)] then_st8_first writes_in_refl) simp_all
  then have w2: "writes_in (dev_bytes dev) s1 s2"
    unfolding s2_def by (rule writes_in_trans) (rule read_header_writes [OF a(4)])
  then have w3: "writes_in (dev_bytes dev) s1 s3"
    unfolding s3_def using read_type00_writes [OF a(4)] by (auto intro: writes_in_trans)
  note inv2 = writes_keep [OF a(2) w2 a(3)] and inv3 = writes_keep [OF a(2) w3 a(3)]
  have run: "scan_function hw init_call bus device func s =
      (if absent dev s2 then Some s2
       else offer_drivers init_call 0 dev s3 \<bind> (\<lambda>(init_done, s). if \<not> init_done then pci_destroy_device dev s else Some s))"
    unfolding scan_function_def a(1) by (simp add: Let_def s1'_def s2_def s3_def absent_def)
  note s2 = s2_def [unfolded s1'_def]
  show thesis
  proof (cases "absent dev s2")
    case True
    show thesis
      by (rule that [OF a(1) s2 _ inv2]) (use run True a(5) in auto)
  next
    case False
    obtain s4 where o: "offer_drivers init_call 0 dev s3 = Some (False, s4)" "heap_inv lo hi s4 L1"
      using offer_declined [OF decl inv3] by blast
    show thesis
    proof (cases "dev = 0")
      case True
      show thesis
        by (rule that [OF a(1) s2, of s4 L]) (use run False o a(5) True in \<open>auto simp: pci_destroy_device_def memfree_def\<close>)
    next
      case nz: False
      then obtain r where L1: "L dev = None" "L1 = L(dev \<mapsto> r)" using a(5) by blast
      then obtain s5 where "memfree dev s4 = Some s5" "heap_inv lo hi s5 (L1(dev := None))"
        using heap.release_live [OF o(2), of dev r] by auto
      moreover have "L1(dev := None) = L" using L1 by (auto simp: fun_eq_iff)
      ultimately show thesis
        by (intro that [OF a(1) s2, of s5 L]) (use run False o(1) in \<open>auto simp: pci_destroy_device_def\<close>)
    qed
  qed
qed



section \<open>Scanning empty buses\<close>

text \<open>The configuration address of a register, from the numbers of the function.\<close>

definition config_addr :: "u8 \<Rightarrow> u8 \<Rightarrow> u8 \<Rightarrow> u8 \<Rightarrow> u32" where
  "config_addr bus device func reg =
     push_bit 31 1 OR push_bit 16 (ucast bus) OR push_bit 11 (ucast (device AND 0x1f)) OR
     push_bit 8 (ucast (func AND 0x07)) OR (ucast reg AND 0xfc)"

lemma get_pci_dev_addr_eq:
  "get_pci_dev_addr dev reg s = config_addr (ld8 (dev_bus dev) s) (ld8 (dev_device dev) s) (ld8 (dev_func dev) s) reg"
  by (simp add: get_pci_dev_addr_def config_addr_def Let_def or.assoc)

lemma fill_loop_mem: "\<exists>m. fill_loop dst b e s = s\<lparr>mem := m\<rparr>"
proof (induction dst b e s rule: fill_loop.induct)
  case (1 dst b e s)
  show ?case
  proof (cases "dst < e")
    case True
    from 1 [OF this] obtain m where "fill_loop (dst + 1) b e (st8 dst b s) = (st8 dst b s)\<lparr>mem := m\<rparr>" by blast
    then show ?thesis using True by (subst fill_loop.simps) (auto simp: st8_def)
  next
    case False
    then show ?thesis by (subst fill_loop.simps) (auto intro: exI [of _ "mem s"])
  qed
qed

definition probe_events :: "u8 \<Rightarrow> u8 \<Rightarrow> io_event list" where
  "probe_events bus device = [OutL 0xcf8 (config_addr bus device 0 0), InW 0xcfc 0xffff]"

lemma read_device_absent:
  assumes "\<And>l. hw_inw hw l 0xcfc = 0xffff"
  obtains m where "pci_read_device hw init_call tmp bus device s =
    Some (s\<lparr>mem := m, io_log := io_log s @ probe_events bus device\<rparr>)"
proof -
  obtain m where m: "fill_loop tmp 0 (tmp + sizeof_pci_dev) s = s\<lparr>mem := m\<rparr>"
    using fill_loop_mem by blast
  let ?m = "store8 (store8 (store8 m tmp bus) (tmp + 1) device) (tmp + 2) 0"
  have ld: "load8 ?m tmp = bus" "load8 ?m (tmp + 1) = device" "load8 ?m (tmp + 2) = 0"
    by (simp_all add: load8_def store8_def)
  have "pci_read_device hw init_call tmp bus device s =
      Some (s\<lparr>mem := ?m, io_log := io_log s @ probe_events bus device\<rparr>)"
    using assms
    by (simp add: pci_read_device_def m Let_def pci_read_16_def get_pci_dev_addr_eq dev_bus_def dev_device_def dev_func_def
        st8_def ld outl_def inw_def log_event_def probe_events_def)
  then show thesis by (rule that)
qed

lemma for_each_absent:
  assumes "\<And>x s. x \<in> set xs \<Longrightarrow> \<exists>m. f x s = Some (s\<lparr>mem := m, io_log := io_log s @ ev x\<rparr>)"
  shows "\<exists>m. for_each f xs s = Some (s\<lparr>mem := m, io_log := io_log s @ concat (map ev xs)\<rparr>)"
  using assms
proof (induction xs arbitrary: s)
  case Nil
  show ?case by (auto intro: exI [of _ "mem s"])
next
  case (Cons x xs)
  from Cons.prems [of x s] obtain m where m: "f x s = Some (s\<lparr>mem := m, io_log := io_log s @ ev x\<rparr>)" by auto
  let ?s = "s\<lparr>mem := m, io_log := io_log s @ ev x\<rparr>"
  have "\<exists>m'. for_each f xs ?s = Some (?s\<lparr>mem := m', io_log := io_log ?s @ concat (map ev xs)\<rparr>)"
    using Cons.prems by (intro Cons.IH) auto
  with m show ?case by auto
qed

lemma enumerate_absent:
  assumes "\<And>l. hw_inw hw l 0xcfc = 0xffff"
  obtains m where "pci_enumerate_devices hw init_call tmp s =
    Some (s\<lparr>mem := m, io_log := io_log s @
      concat (map (\<lambda>bus. concat (map (\<lambda>device. probe_events (of_nat bus) (of_nat device)) [0..<32])) [0..<256])\<rparr>)"
proof -
  have "\<exists>m. for_each (\<lambda>device. pci_read_device hw init_call tmp (of_nat bus) (of_nat device)) [0..<32] s =
      Some (s\<lparr>mem := m, io_log := io_log s @ concat (map (\<lambda>device. probe_events (of_nat bus) (of_nat device)) [0..<32])\<rparr>)" for bus s
    using read_device_absent [OF assms, of init_call tmp "of_nat bus"] by (intro for_each_absent) metis
  note step = this
  have "\<exists>m. pci_enumerate_devices hw init_call tmp s = Some (s\<lparr>mem := m, io_log := io_log s @
      concat (map (\<lambda>bus. concat (map (\<lambda>device. probe_events (of_nat bus) (of_nat device)) [0..<32])) [0..<256])\<rparr>)"
    unfolding pci_enumerate_devices_def by (rule for_each_absent) (rule step)
  then show thesis using that by blast
qed

end
