(* ===== verification/PciHeader.thy ===== *)
theory PciHeader
  imports PciProof
begin

text \<open>
  The header that the scan reads: the structure in memory is a copy of the configuration space of
  the function.
\<close>


section \<open>Configuration space as memory\<close>

text \<open>
  What the host bridge does: configuration space is a memory of its own, and after the address \<open>a\<close>
  has been written to port \<open>0xcf8\<close>, the four ports from \<open>0xcfc\<close> are the four bytes at \<open>a\<close>.
\<close>

definition config_space :: "hw \<Rightarrow> mem \<Rightarrow> bool" where
  "config_space hw space \<longleftrightarrow> (\<forall>l a.
     (\<forall>k < 4. hw_inb hw (l @ [OutL 0xcf8 a]) (0xcfc + k) = load8 space (a + ucast k)) \<and>
     (\<forall>k \<in> {0, 2}. hw_inw hw (l @ [OutL 0xcf8 a]) (0xcfc + k) = load16 space (a + ucast k)) \<and>
     hw_inl hw (l @ [OutL 0xcf8 a]) 0xcfc = load32 space a)"

text \<open>The address of a byte in two parts, a register and a port of the data window.\<close>

lemma config_addr_low: "bit (config_addr bus device func 0) n \<Longrightarrow> 8 \<le> n"
proof -
  have "bit (config_addr bus device func 0) n \<longleftrightarrow>
     n = 31 \<or> (16 \<le> n \<and> n < 24 \<and> bit bus (n - 16)) \<or> (11 \<le> n \<and> n < 16 \<and> bit device (n - 11)) \<or>
     (8 \<le> n \<and> n < 11 \<and> bit func (n - 8)) \<or> (2 \<le> n \<and> n < 8 \<and> bit (0 :: u8) n)"
    unfolding config_addr_def addr_masks bit_or_iff config_field_bits by (simp only: disj_assoc)
  then show "bit (config_addr bus device func 0) n \<Longrightarrow> 8 \<le> n" by auto
qed

lemma config_addr_byte:
  "config_addr bus device func (off AND 0xfc) + ucast (ucast (off AND 0x3) :: u16) = config_addr bus device func 0 + ucast off"
proof -
  have fc: "(0xfc :: u8) = NOT (mask 2)" "(0x3 :: u8) = mask 2" by (simp_all add: mask_eq_exp_minus_1)
  define A r k :: u32 where "A = config_addr bus device func 0" and "r = ucast (off AND 0xfc) AND 0xfc" and "k = ucast (ucast (off AND 0x3) :: u16)"
  have b: "bit r n \<longleftrightarrow> 2 \<le> n \<and> bit off n" "bit k n \<longleftrightarrow> n < 2 \<and> bit off n" "bit (ucast off :: u32) n \<longleftrightarrow> bit off n" "bit A n \<Longrightarrow> 8 \<le> n" for n
    using bit_len_8 [of off n] config_addr_low unfolding r_def k_def A_def addr_masks(3) fc
    by (auto simp: bit_and_iff bit_ucast_iff bit_push_bit_iff bit_mask_iff bit_not_iff)
  have hi: "config_addr bus device func (off AND 0xfc) = A OR r"
    by (simp add: A_def r_def config_addr_def or.assoc)
  have d: "\<not> (bit A n \<and> bit off n)" for n using b(4) [of n] bit_len_8 [of off n] by auto
  have "A AND r = 0" "A AND ucast off = 0" "r AND k = 0"
    using d by (auto intro!: bit_word_eqI simp: bit_and_iff b(1-3))
  then have s: "A + r = A OR r" "r + k = r OR k"
    by (simp_all add: disjunctive_add_eq_or)
  have "r OR k = ucast off" by (rule bit_word_eqI) (auto simp: bit_or_iff b)
  then have "A + r + k = A + ucast off" by (simp add: add.assoc s(2))
  then show ?thesis unfolding hi s(1) [symmetric] unfolding A_def k_def .
qed


section \<open>The copy grows field by field\<close>

definition copied_config :: "mem \<Rightarrow> u8 \<Rightarrow> u8 \<Rightarrow> u8 \<Rightarrow> u32 \<Rightarrow> nat set \<Rightarrow> 'a machine_scheme \<Rightarrow> bool" where
  "copied_config space bus device func dev S s \<longleftrightarrow>
     ld8 (dev_bus dev) s = bus \<and> ld8 (dev_device dev) s = device \<and> ld8 (dev_func dev) s = func \<and>
     (\<forall>k. unat k \<in> S \<longrightarrow> mem s (dev + 4 + k) = space (config_addr bus device func 0 + k))"

lemma store_loaded:
  "store8 m p (load8 m' a) = m(p := m' a)" "store16 m p (load16 m' a) = m(p := m' a, p + 1 := m' (a + 1))"
  "store32 m p (load32 m' a) = m(p := m' a, p + 1 := m' (a + 1), p + 2 := m' (a + 2), p + 3 := m' (a + 3))"
proof -
  have "ucast (load16 m' a) = m' a" "ucast (drop_bit 8 (load16 m' a)) = m' (a + 1)"
    by (rule bit_word_eqI, auto simp: load16_def bit_simps dest: bit_len_8)+
  then show "store16 m p (load16 m' a) = m(p := m' a, p + 1 := m' (a + 1))" by (simp add: store16_def)
  have "ucast (load32 m' a) = m' a" "ucast (drop_bit 8 (load32 m' a)) = m' (a + 1)"
    "ucast (drop_bit 16 (load32 m' a)) = m' (a + 2)" "ucast (drop_bit 24 (load32 m' a)) = m' (a + 3)"
    by (rule bit_word_eqI, auto simp: load32_def bit_simps dest: bit_len_8)+
  then show "store32 m p (load32 m' a) = m(p := m' a, p + 1 := m' (a + 1), p + 2 := m' (a + 2), p + 3 := m' (a + 3))"
    by (simp add: store32_def)
qed (simp add: store8_def load8_def)

lemma copied_byte:
  assumes "copied_config space bus device func dev S s" and "unat k < 64"
    and "mem s' = (mem s)(dev + 4 + k := space (config_addr bus device func 0 + k))"
  shows "copied_config space bus device func dev (insert (unat k) S) s'"
proof -
  have "dev + 4 + k \<noteq> dev + c" if "unat c < 4" for c
  proof -
    have "unat (4 + k) = 4 + unat k" using assms(2) by (simp add: unat_add_u32)
    then have "4 + k \<noteq> c" using that by auto
    then show ?thesis by (simp add: add.assoc)
  qed
  from this [of 0] this [of 1] this [of 2] assms(1,3) show ?thesis
    by (auto simp: copied_config_def load8_def dev_bus_def dev_device_def dev_func_def word_unat_eq_iff [symmetric])
qed

text \<open>One more field at offset \<open>off\<close> of configuration space, of 1, 2 or 4 bytes.\<close>

lemma ids_known:
  "copied_config space bus device func dev S s \<Longrightarrow> get_pci_dev_addr dev reg s = config_addr bus device func reg"
  by (simp add: copied_config_def get_pci_dev_addr_eq)

lemma copied_8:
  assumes hw: "config_space hw space" and c: "copied_config space bus device func dev S s" and off: "unat off < 64" and f: "f = dev + 4 + ucast off"
  shows "copied_config space bus device func dev (insert (unat off) S) (fill_8 hw dev f off s)"
proof -
  have "ucast (off AND 0x3) < (4 :: u16)"
  proof -
    have "off AND 0x3 \<le> 0x3" by (rule word_and_le1)
    then have "unat (off AND 0x3) < 4" by (simp add: word_le_nat_alt)
    then show ?thesis by (simp add: word_less_nat_alt)
  qed
  then have v: "hw_inb hw (io_log s @ [OutL 0xcf8 (config_addr bus device func (off AND 0xfc))]) (0xcfc + ucast (off AND 0x3)) =
      load8 space (config_addr bus device func 0 + ucast off)"
    using hw unfolding config_space_def by (simp only: config_addr_byte)
  have k: "unat (ucast off :: u32) = unat off" by simp
  have "mem (fill_8 hw dev f off s) = (mem s)(dev + 4 + ucast off := space (config_addr bus device func 0 + ucast off))"
    using v by (simp add: fill_8_def pci_read_8_def Let_def port_defs log_event_def ids_known [OF c] f store_loaded(1))
  from copied_byte [OF c _ this] off show ?thesis by (simp add: k)
qed

lemma copied_16:
  assumes hw: "config_space hw space" and c: "copied_config space bus device func dev S s" and off: "unat off + 1 < 64" "off AND 0x3 \<in> {0, 2}"
    and f: "f = dev + 4 + ucast off"
  shows "copied_config space bus device func dev ({unat off, unat off + 1} \<union> S) (fill_16 hw dev f off s)"
proof -
  have "ucast (off AND 0x3) \<in> {0 :: u16, 2}" using off(2) by auto
  then have v: "hw_inw hw (io_log s @ [OutL 0xcf8 (config_addr bus device func (off AND 0xfc))]) (0xcfc + ucast (off AND 0x3)) =
      load16 space (config_addr bus device func 0 + ucast off)"
    using hw unfolding config_space_def by (simp only: config_addr_byte)
  let ?A = "config_addr bus device func 0"
  have k: "unat (ucast off :: u32) = unat off" by simp
  have k1: "unat (ucast off + 1 :: u32) = unat off + 1" by (subst unat_add_u32) (use off(1) in auto)
  let ?s = "s\<lparr>mem := (mem s)(dev + 4 + ucast off := space (?A + ucast off))\<rparr>"
  have 1: "copied_config space bus device func dev (insert (unat off) S) ?s"
    using copied_byte [OF c, of "ucast off" ?s] off(1) by (simp add: k)
  have "mem (fill_16 hw dev f off s) = (mem ?s)(dev + 4 + (ucast off + 1) := space (?A + (ucast off + 1)))"
    using v by (simp add: fill_16_def pci_read_16_def Let_def port_defs log_event_def ids_known [OF c] f store_loaded(2) add.assoc)
  from copied_byte [OF 1 _ this] off(1) show ?thesis by (simp add: k1 insert_commute)
qed

lemma copied_32:
  assumes hw: "config_space hw space" and c: "copied_config space bus device func dev S s" and off: "unat off + 3 < 64" "off AND 0x3 = 0"
    and f: "f = dev + 4 + ucast off"
  shows "copied_config space bus device func dev ({unat off..<unat off + 4} \<union> S) (fill_32 hw dev f off s)"
proof -
  let ?A = "config_addr bus device func 0"
  have v: "hw_inl hw (io_log s @ [OutL 0xcf8 (config_addr bus device func (off AND 0xfc))]) 0xcfc = load32 space (?A + ucast off)"
    using hw config_addr_byte [of bus device func off] off(2) unfolding config_space_def by simp
  have k: "unat (ucast off :: u32) = unat off" "unat (ucast off + 1 :: u32) = unat off + 1" "unat (ucast off + 2 :: u32) = unat off + 2"
    "unat (ucast off + 3 :: u32) = unat off + 3"
    by (simp, (subst unat_add_u32; use off(1) in auto)+)
  let ?s1 = "s\<lparr>mem := (mem s)(dev + 4 + ucast off := space (?A + ucast off))\<rparr>"
  let ?s2 = "s\<lparr>mem := (mem ?s1)(dev + 4 + (ucast off + 1) := space (?A + (ucast off + 1)))\<rparr>"
  let ?s3 = "s\<lparr>mem := (mem ?s2)(dev + 4 + (ucast off + 2) := space (?A + (ucast off + 2)))\<rparr>"
  have 1: "copied_config space bus device func dev (insert (unat off) S) ?s1"
    using copied_byte [OF c, of "ucast off" ?s1] off(1) by (simp add: k)
  have 2: "copied_config space bus device func dev (insert (unat off + 1) (insert (unat off) S)) ?s2"
    using copied_byte [OF 1, of "ucast off + 1" ?s2] off(1) by (simp add: k)
  have 3: "copied_config space bus device func dev (insert (unat off + 2) (insert (unat off + 1) (insert (unat off) S))) ?s3"
    using copied_byte [OF 2, of "ucast off + 2" ?s3] off(1) by (simp add: k)
  have "mem (fill_32 hw dev f off s) = (mem ?s3)(dev + 4 + (ucast off + 3) := space (?A + (ucast off + 3)))"
    using v by (simp add: fill_32_def pci_read_32_def Let_def port_defs log_event_def ids_known [OF c] f store_loaded(3) add.assoc)
  from copied_byte [OF 3 _ this] off(1)
  have "copied_config space bus device func dev (insert (unat off + 3) (insert (unat off + 2) (insert (unat off + 1) (insert (unat off) S)))) (fill_32 hw dev f off s)"
    by (simp add: k)
  moreover have "insert (unat off + 3) (insert (unat off + 2) (insert (unat off + 1) (insert (unat off) S))) = {unat off..<unat off + 4} \<union> S" by auto
  ultimately show ?thesis by simp
qed

lemma copied_mono: "copied_config space bus device func dev S s \<Longrightarrow> T \<subseteq> S \<Longrightarrow> copied_config space bus device func dev T s"
  by (auto simp: copied_config_def)


section \<open>A function's header\<close>

text \<open>The fields are read in the order of their offsets, so that the copy is a prefix that grows.\<close>

lemma next_field:
  assumes hw: "config_space hw space" and c: "copied_config space bus device func dev {0..<unat off} s"
  shows "n = unat off + 1 \<Longrightarrow> n \<le> 64 \<Longrightarrow> f = dev + 4 + ucast off \<Longrightarrow> copied_config space bus device func dev {0..<n} (fill_8 hw dev f off s)"
    and "n = unat off + 2 \<Longrightarrow> n \<le> 64 \<Longrightarrow> f = dev + 4 + ucast off \<Longrightarrow> off AND 0x3 \<in> {0, 2} \<Longrightarrow>
      copied_config space bus device func dev {0..<n} (fill_16 hw dev f off s)"
    and "n = unat off + 4 \<Longrightarrow> n \<le> 64 \<Longrightarrow> f = dev + 4 + ucast off \<Longrightarrow> off AND 0x3 = 0 \<Longrightarrow>
      copied_config space bus device func dev {0..<n} (fill_32 hw dev f off s)"
  by (rule copied_mono [OF copied_8 [OF hw c]] copied_mono [OF copied_16 [OF hw c]] copied_mono [OF copied_32 [OF hw c]]; auto)+

lemma read_header_copies:
  assumes hw: "config_space hw space" and c: "copied_config space bus device func dev {} s"
  shows "copied_config space bus device func dev {0..<16} (read_header hw dev s)"
proof -
  have "copied_config space bus device func dev {0..<unat (0 :: u8)} s" using c by simp
  then show ?thesis
    unfolding read_header_def Let_def pci_layout
    by (intro next_field [OF hw]) simp_all
qed

lemma read_type00_copies:
  assumes hw: "config_space hw space" and c: "copied_config space bus device func dev {0..<16} s"
  shows "copied_config space bus device func dev ({0..<50} \<union> {60..<64}) (read_type00 hw dev s)"
proof -
  have six: "[0..<6] = [0, 1, 2, 3, 4, 5]" by (simp add: upt_rec)
  define s1 where "s1 = fold (\<lambda>i. fill_32 hw dev (hdr_bar dev (of_nat i)) (0x10 + of_nat (i * 4))) [0..<6] s"
  have "copied_config space bus device func dev {0..<unat (0x10 :: u8)} s" using c by simp
  then have 1: "copied_config space bus device func dev {0..<unat (0x28 :: u8)} s1"
    unfolding s1_def six fold_simps hdr_bar_def
    by (intro next_field(3) [OF hw]) simp_all
  define s2 where "s2 = fill_16 hw dev (hdr_rom_base_addr dev) 0x30 (fill_16 hw dev (hdr_subsystem_id dev) 0x2e
    (fill_16 hw dev (hdr_subsystem_vid dev) 0x2c (fill_32 hw dev (hdr_cardbus_cis dev) 0x28 s1)))"
  have 2: "copied_config space bus device func dev {0..<50} s2"
    unfolding s2_def pci_layout using 1 by (intro next_field [OF hw]) simp_all
  have "copied_config space bus device func dev (insert (unat (0x3f :: u8)) (insert (unat (0x3e :: u8)) (insert (unat (0x3d :: u8))
      (insert (unat (0x3c :: u8)) {0..<50})))) (read_type00 hw dev s)"
    unfolding read_type00_def Let_def s1_def [symmetric] s2_def [symmetric]
    unfolding pci_layout by (intro copied_8 [OF hw] 2) simp_all
  then show ?thesis by (rule copied_mono) auto
qed

text \<open>
  A function that exists, with a header of type 0: the drivers are offered a structure in fresh memory
  that is a copy of the function's configuration space.
\<close>

lemma scan_function_present:
  fixes s :: "'a pci_state_scheme"
  assumes inv: "heap_inv lo hi s L" and al: "memalloc sizeof_pci_dev s = Some (dev, s1)" "dev \<noteq> 0" and hw: "config_space hw space"
    and A: "A = config_addr bus device func 0"
    and here: "space (A + 0xb) \<noteq> 0xff" "space (A + 0xe) \<noteq> 0xff" "space (A + 0xe) AND 0x7f = 0"
  obtains s2 r where "scan_function hw init_call bus device func s =
      offer_drivers init_call 0 dev s2 \<bind> (\<lambda>(taken, s). if taken then Some s else memfree dev s)"
    and "heap_inv lo hi s2 (L(dev \<mapsto> r))" and "L dev = None" and "drivers s2 = drivers s" and "registered_drivers s2 = registered_drivers s"
    and "copied_config space bus device func dev ({0..<50} \<union> {60..<64}) s2" and "same_on (mem s) (mem s2) (owned L \<union> - {lo..<hi})"
    and "writes_in (dev_bytes dev) s1 s2" and "dev_bytes dev \<subseteq> payload (L(dev \<mapsto> r))"
proof -
  obtain a e where G: "a + 8 \<le> unat dev" "unat dev + unat sizeof_pci_dev \<le> e" "{a..<e} \<inter> owned L = {}" "L dev = None"
    "heap_inv lo hi s1 (L(dev \<mapsto> (a, e)))" "same_on (mem s) (mem s1) (owned L \<union> - {lo..<hi})" "only_heap s s1" "{a..<e} \<subseteq> {lo..<hi}"
    by (rule alloc_known [OF inv al])
  have room: "unat dev + 68 \<le> e" using G(2) by (simp add: sizeof_pci_dev_def)
  have "e \<le> hi" "hi < 4294967296" using heap_inv_range(2) [OF G(5), of dev a e] inv by (auto simp: heap_inv_def heap_ok_def)
  then have top: "unat dev + 68 \<le> 4294967296" using room by simp
  have inn: "dev_bytes dev \<subseteq> {a..<e}" using G(1) room by (auto simp: dev_bytes_def)
  have pay: "dev_bytes dev \<subseteq> payload (L(dev \<mapsto> (a, e)))" using room by (auto simp: dev_bytes_def payload_def)
  define t where "t = st8 (dev_func dev) func (st8 (dev_device dev) device (st8 (dev_bus dev) bus s1))"
  let ?h = "read_header hw dev t" and ?s2 = "read_type00 hw dev (read_header hw dev t)"
  have "copied_config space bus device func dev {} t"
    by (simp add: copied_config_def t_def dev_bus_def dev_device_def dev_func_def load8_def store8_def)
  note h = read_header_copies [OF hw this] and c = read_type00_copies [OF hw read_header_copies [OF hw this]]
  have at: "\<forall>k. unat k < 16 \<longrightarrow> mem ?h (dev + 4 + k) = space (A + k)"
    using h by (simp add: copied_config_def A)
  from at [THEN spec, of "0xb"] at [THEN spec, of "0xe"]
  have "mem ?h (dev + 4 + 0xb) = space (A + 0xb)" "mem ?h (dev + 4 + 0xe) = space (A + 0xe)" by simp_all
  then have b: "ld8 (hdr_class_code dev) ?h = space (A + 0xb)" "ld8 (hdr_header_type dev) ?h = space (A + 0xe)"
    by (simp_all add: load8_def pci_layout ac_simps)
  have run: "scan_function hw init_call bus device func s =
      offer_drivers init_call 0 dev ?s2 \<bind> (\<lambda>(taken, s). if taken then Some s else memfree dev s)"
  proof -
    have "(if \<not> taken then pci_destroy_device dev s else Some s) = (if taken then Some s else memfree dev s)"
      for taken and s :: "'a pci_state_scheme" by (simp add: pci_destroy_device_def)
    then show ?thesis unfolding scan_function_def al(1) using here b by (simp add: Let_def t_def [symmetric])
  qed
  have "writes_in (dev_bytes dev) s1 t"
    unfolding t_def dev_bus_def dev_device_def dev_func_def
    by (intro then_st8 [OF top] then_st8_first writes_in_refl) simp_all
  then have w: "writes_in (dev_bytes dev) s1 ?s2"
    by (blast intro: writes_in_trans read_header_writes [OF top] read_type00_writes [OF top])
  have "heap_inv lo hi ?s2 (L(dev \<mapsto> (a, e)))" by (rule writes_keep [OF G(5) w]) (use pay in blast)
  moreover have "same_on (mem s) (mem ?s2) (owned L \<union> - {lo..<hi})"
    by (rule same_on_trans [OF G(6) same_on_mono [OF writes_in_same [OF w]]]) (use inn G(3,8) in blast)
  moreover have "drivers ?s2 = drivers s" "registered_drivers ?s2 = registered_drivers s"
    using w G(7) by (cases s, cases s1, auto simp: writes_in_def only_heap_def)+
  ultimately show thesis using that run G(4) c w pay by blast
qed

end
