(* ===== verification/PciTheorems.thy ===== *)
theory PciTheorems
  imports PciHeader HeapTheorems
begin

text \<open>
  What the PCI driver guarantees, and the leak of its scan.
\<close>

definition pci_start :: pci_state where
  "pci_start = \<lparr>mem = mem (init_memory 0x8000 0xC000 \<lparr>mem = (\<lambda>_. 0), io_log = [], free_block_head = 0\<rparr>),
     io_log = [], free_block_head = 0x8000, curs_row = 0, curs_col = 0, int_handlers = replicate 48 0,
     idtr_len = 0, idtr_offset = 0, timer_ms_left = 0, drivers = [0, 0, 0], registered_drivers = 0\<rparr>"

lemma pci_start_heap: "heap_inv 0x8000 0xC000 pci_start Map.empty"
proof -
  have "heap_ok 0x8000 0xC000 pci_start [(0x8000, 0x4000)]"
    using init_memory_ok [of "0x8000" "0xC000" "\<lparr>mem = (\<lambda>_. 0), io_log = [], free_block_head = 0\<rparr>"]
    by (simp add: heap_ok_def pci_start_def init_memory_def Let_def)
  then show ?thesis
    by (intro heap_inv_def [THEN iffD2] exI [of _ "[(0x8000, 0x4000)]"]) (auto simp: live_ok_def)
qed

text \<open>The configuration address carries the enable bit, the bus in bits 16 to 23, the device
  in bits 11 to 15, the function in bits 8 to 10 and the register, rounded down to a multiple of
  4, in bits 2 to 7; every other bit is zero.\<close>

theorem config_address_encodes:
  "bit (get_pci_dev_addr dev reg s) n \<longleftrightarrow>
     (if n < 2 then False
      else if n < 8 then bit reg n
      else if n < 11 then bit (ld8 (dev_func dev) s) (n - 8)
      else if n < 16 then bit (ld8 (dev_device dev) s) (n - 11)
      else if n < 24 then bit (ld8 (dev_bus dev) s) (n - 16)
      else n = 31)"
  using config_addr_bits [of dev reg s n] by auto

text \<open>A read of 8, 16 or 32 bits of configuration space writes the address register once and
  then reads once from the data window at the offset modulo 4 (32-bit reads from its start).\<close>

theorem config_reads:
  "pci_read_8 hw dev off s =
     (let l = io_log s @ [OutL 0xcf8 (get_pci_dev_addr dev (off AND 0xfc) s)];
          p = 0xcfc + ucast (off AND 3); v = hw_inb hw l p
      in (v, s\<lparr>io_log := l @ [InB p v]\<rparr>)) \<and>
   pci_read_16 hw dev off s =
     (let l = io_log s @ [OutL 0xcf8 (get_pci_dev_addr dev (off AND 0xfc) s)];
          p = 0xcfc + ucast (off AND 3); v = hw_inw hw l p
      in (v, s\<lparr>io_log := l @ [InW p v]\<rparr>)) \<and>
   pci_read_32 hw dev off s =
     (let l = io_log s @ [OutL 0xcf8 (get_pci_dev_addr dev (off AND 0xfc) s)];
          v = hw_inl hw l 0xcfc
      in (v, s\<lparr>io_log := l @ [InL 0xcfc v]\<rparr>))"
  by (simp add: pci_read_8_def pci_read_16_def pci_read_32_def port_defs log_event_def Let_def)

text \<open>C21: Scanning a function that no driver takes returns and leaves the heap as it was, with
  one exception: when the header read from the device says that the function does not exist
  (header type or class \<open>0xff\<close>), the allocation made for it stays live and is never freed.\<close>

theorem scan_function_leaks_absent:
  assumes "heap_inv lo hi s L" and "68 \<le> lo" and "declines lo hi init_call"
  shows "\<exists>dev s1 s2 s' L'. memalloc sizeof_pci_dev s = Some (dev, s1) \<and>
    s2 = read_header hw dev (st8 (dev_func dev) func (st8 (dev_device dev) device (st8 (dev_bus dev) bus s1))) \<and>
    scan_function hw init_call bus device func s = Some s' \<and> heap_inv lo hi s' L' \<and>
    (if absent dev s2 \<and> dev \<noteq> 0 then L dev = None \<and> (\<exists>r. L' = L(dev \<mapsto> r)) else L' = L)"
  by (rule scan_function_heap [OF assms, where hw = hw and func = func and device = device and bus = bus]) blast

definition dead_bus :: hw where
  "dead_bus = \<lparr>hw_inb = \<lambda>_ _. 0xff, hw_inw = \<lambda>_ _. 0xffff, hw_inl = \<lambda>_ _. 0xffffffff, hw_irq = \<lambda>_. 32, hw_dma = \<lambda>_ m. m\<rparr>"

definition no_driver :: "u32 \<Rightarrow> u32 \<Rightarrow> pci_state \<Rightarrow> (bool \<times> pci_state) option" where
  "no_driver f dev s = Some (False, s)"

theorem scan_function_leaks_absent_witness:
  "\<exists>s' L'. scan_function dead_bus no_driver 0 3 1 pci_start = Some s' \<and> heap_inv 0x8000 0xC000 s' L'"
proof -
  have "declines 0x8000 0xC000 no_driver" by (simp add: declines_def no_driver_def)
  from scan_function_leaks_absent [OF pci_start_heap _ this, of dead_bus 1 3 0] show ?thesis by auto
qed

text \<open>C20: Scanning a function that exists, with a header of type 0, offers it to the drivers in a structure in
  fresh memory that has the numbers of the function and, byte for byte, bytes 0 to 49 and 60 to 63 of its
  configuration space: the fields up to the subsystem and the low half of the ROM address, and the
  last four. Bytes 50 to 59 of configuration space are not read, so the upper half of the 32-bit ROM
  address is missing. The device is kept when a driver takes it and freed when none does; nothing
  that was allocated, and nothing outside of the heap, has changed before the first driver sees it.\<close>

theorem scan_function_offers:
  fixes s :: "'a pci_state_scheme"
  assumes "heap_inv lo hi s L" and "memalloc sizeof_pci_dev s = Some (dev, s1)" and "dev \<noteq> 0" and "config_space hw space"
    and "A = config_addr bus device func 0"
    and "space (A + 0xb) \<noteq> 0xff" and "space (A + 0xe) \<noteq> 0xff" and "space (A + 0xe) AND 0x7f = 0"
  shows "\<exists>s2 r. scan_function hw init_call bus device func s =
      offer_drivers init_call 0 dev s2 \<bind> (\<lambda>(taken, s). if taken then Some s else memfree dev s) \<and>
    ld8 (dev_bus dev) s2 = bus \<and> ld8 (dev_device dev) s2 = device \<and> ld8 (dev_func dev) s2 = func \<and>
    (\<forall>k. unat k \<in> {0..<50} \<union> {60..<64} \<longrightarrow> mem s2 (dev + 4 + k) = space (A + k)) \<and>
    heap_inv lo hi s2 (L(dev \<mapsto> r)) \<and> L dev = None \<and>
    drivers s2 = drivers s \<and> registered_drivers s2 = registered_drivers s \<and>
    same_on (mem s) (mem s2) (owned L \<union> - {lo..<hi})"
proof -
  obtain s2 r where "scan_function hw init_call bus device func s =
      offer_drivers init_call 0 dev s2 \<bind> (\<lambda>(taken, s). if taken then Some s else memfree dev s)"
    "heap_inv lo hi s2 (L(dev \<mapsto> r))" "L dev = None" "drivers s2 = drivers s" "registered_drivers s2 = registered_drivers s"
    "copied_config space bus device func dev ({0..<50} \<union> {60..<64}) s2" "same_on (mem s) (mem s2) (owned L \<union> - {lo..<hi})" "writes_in (dev_bytes dev) s1 s2"
    "dev_bytes dev \<subseteq> payload (L(dev \<mapsto> r))"
    by (rule scan_function_present [OF assms])
  then show ?thesis unfolding copied_config_def assms(5) by blast
qed

text \<open>A bridge with a configuration space whose bytes are the low bytes of their addresses, header types apart.\<close>

definition demo_space :: mem where
  "demo_space a = (if a AND 0xff = 0xe then 0 else ucast a)"

definition config_window :: "io_event list \<Rightarrow> u16 \<Rightarrow> u32" where
  "config_window l p = (case last l of OutL q a \<Rightarrow> if q = 0xcf8 then a + ucast (p - 0xcfc) else 0 | _ \<Rightarrow> 0)"

definition demo_bridge :: hw where
  "demo_bridge = \<lparr>hw_inb = \<lambda>l p. load8 demo_space (config_window l p), hw_inw = \<lambda>l p. load16 demo_space (config_window l p),
     hw_inl = \<lambda>l p. load32 demo_space (config_window l p), hw_irq = \<lambda>_. 32, hw_dma = \<lambda>_ m. m\<rparr>"

theorem scan_function_offers_witness:
  "\<exists>dev s1 s2. memalloc sizeof_pci_dev pci_start = Some (dev, s1) \<and>
     scan_function demo_bridge no_driver 0 3 1 pci_start =
       offer_drivers no_driver 0 dev s2 \<bind> (\<lambda>(taken, s). if taken then Some s else memfree dev s) \<and>
     ld8 (dev_device dev) s2 = 3 \<and> ld8 (hdr_class_code dev) s2 = 0x0b \<and> ld8 (hdr_interrupt_line dev) s2 = 0x3c"
proof -
  have ok: "heap_ok 0x8000 0xC000 pci_start [(0x8000, 0x4000)]"
    using init_memory_ok [of "0x8000" "0xC000" "\<lparr>mem = (\<lambda>_. 0), io_log = [], free_block_head = 0\<rparr>"]
    by (simp add: heap_ok_def pci_start_def init_memory_def Let_def)
  have sp: "alloc_spec (start_at 4) (unat sizeof_pci_dev) [(0x8000, 0x4000)] =
     Some (\<lparr>g_ptr = 0x8008, g_start = 0x8000, g_end = 0x804C\<rparr>, [(0x804C, 0x3FB4)])"
    by (simp add: sizeof_pci_dev_def fits_def start_at_def aligned_mem_start_def align_ptr_def granted_def carve_def slack_before_def slack_after_def)
  obtain dev s1 where a: "memalloc_aligned sizeof_pci_dev 4 pci_start = Some (dev, s1)" "dev \<noteq> 0"
    by (rule memalloc_aligned_grants [OF ok _ _ sp]) (simp_all add: sizeof_pci_dev_def)
  have hw: "config_space demo_bridge demo_space"
    by (simp add: config_space_def demo_bridge_def config_window_def)
  have A: "0x80001900 = config_addr 0 3 1 0" by (simp add: config_addr_def)
  have here: "demo_space (0x80001900 + 0xb) \<noteq> 0xff" "demo_space (0x80001900 + 0xe) \<noteq> 0xff" "demo_space (0x80001900 + 0xe) AND 0x7f = 0"
    by (simp_all add: demo_space_def)
  have m: "memalloc sizeof_pci_dev pci_start = Some (dev, s1)" using a(1) by (simp add: memalloc_def)
  obtain s2 where s2: "scan_function demo_bridge no_driver 0 3 1 pci_start =
      offer_drivers no_driver 0 dev s2 \<bind> (\<lambda>(taken, s). if taken then Some s else memfree dev s)"
    "ld8 (dev_device dev) s2 = 3" "\<forall>k. unat k \<in> {0..<50} \<union> {60..<64} \<longrightarrow> mem s2 (dev + 4 + k) = demo_space (0x80001900 + k)"
    using scan_function_offers [OF pci_start_heap m a(2) hw A here, of no_driver] by blast
  have f: "hdr_class_code dev = dev + 4 + 0xb" "hdr_interrupt_line dev = dev + 4 + 0x3c" by (simp_all add: pci_layout)
  have k: "unat (0xb :: u32) \<in> {0..<50} \<union> {60..<64}" "unat (0x3c :: u32) \<in> {0..<50} \<union> {60..<64}" by simp_all
  have v: "demo_space (0x80001900 + 0xb) = 0x0b" "demo_space (0x80001900 + 0x3c) = 0x3c" by (simp_all add: demo_space_def)
  have "ld8 (hdr_class_code dev) s2 = 0x0b" "ld8 (hdr_interrupt_line dev) s2 = 0x3c"
    unfolding f load8_def using s2(3) k by (simp_all only: v)
  then show ?thesis using m s2(1,2) by blast
qed

text \<open>Where every configuration read of 16 bits returns \<open>0xffff\<close>, the scan returns, and its
  only bus traffic is one read of the vendor id of function 0 of each of the 256 * 32 devices,
  in ascending order; it changes nothing else but memory.\<close>

theorem enumerate_probes_all:
  assumes "\<And>l. hw_inw hw l 0xcfc = 0xffff"
  shows "\<exists>m. pci_init hw init_call tmp s = Some (s\<lparr>mem := m, io_log := io_log s @
    concat (map (\<lambda>bus. concat (map (\<lambda>device.
      [OutL 0xcf8 (config_addr (of_nat bus) (of_nat device) 0 0), InW 0xcfc 0xffff]) [0..<32])) [0..<256])\<rparr>)"
proof -
  obtain m where "pci_enumerate_devices hw init_call tmp s =
    Some (s\<lparr>mem := m, io_log := io_log s @
      concat (map (\<lambda>bus. concat (map (\<lambda>device. probe_events (of_nat bus) (of_nat device)) [0..<32])) [0..<256])\<rparr>)"
    by (rule enumerate_absent [OF assms, of init_call tmp s])
  then show ?thesis unfolding pci_init_def probe_events_def by blast
qed

theorem enumerate_probes_all_witness:
  "\<exists>s'. pci_init dead_bus no_driver 0x7000 pci_start = Some s'"
  using enumerate_probes_all [of dead_bus no_driver "0x7000" pci_start] by (auto simp: dead_bus_def)

text \<open>The table holds the drivers in the order of registration and never more than three; a
  fourth registration is ignored.\<close>

theorem register_driver_bounded:
  assumes "length (drivers s) = 3" and "unat (registered_drivers s) \<le> 3"
  shows "length (drivers (pci_register_driver drv s)) = 3 \<and>
    take (unat (registered_drivers (pci_register_driver drv s))) (drivers (pci_register_driver drv s)) =
      take 3 (take (unat (registered_drivers s)) (drivers s) @ [ld32 drv s])"
proof (cases "unat (registered_drivers s) = 3")
  case True
  then show ?thesis using assms by (simp add: pci_register_driver_def)
next
  case False
  then have lt: "unat (registered_drivers s) < 3" using assms(2) by simp
  then have "unat (registered_drivers s + 1) = Suc (unat (registered_drivers s))"
    by (simp add: unat_word_ariths)
  then show ?thesis
    using lt assms(1) by (simp add: pci_register_driver_def take_Suc_conv_app_nth)
qed

theorem register_driver_bounded_witness:
  "take 1 (drivers (pci_register_driver 0x8004 pci_start)) = [0]"
proof -
  have "ld32 0x8004 pci_start = 0"
    by (simp add: pci_start_def init_memory_def Let_def)
  then show ?thesis
    using register_driver_bounded [of pci_start "0x8004"] by (simp add: pci_start_def pci_register_driver_def)
qed

end
