(* ===== verification/UhciTypes.thy ===== *)
theory UhciTypes
  imports PciTypes
begin

text \<open>
  Constants, macros and structure layouts of \<open>drivers/usb/uhci.c\<close>: the bit fields of frame
  list entries, queue heads and transfer descriptors, USB device requests, controller
  registers, and the offsets of the fields of the structures (i386 ABI, in bytes).
\<close>


section \<open>Macros\<close>

text \<open>\<open>DIV_CEIL\<close> of \<open>utils.h\<close>, on operands that do not overflow.\<close>

abbreviation (input) DIV_CEIL :: "nat \<Rightarrow> nat \<Rightarrow> nat" where "DIV_CEIL a b \<equiv> (a + b - 1) div b"
abbreviation (input) USBBASE_BAR_IDX :: "u32" where "USBBASE_BAR_IDX \<equiv> 4"
abbreviation (input) UHCI_FRAME_LIST_SIZE :: "'n::numeral" where "UHCI_FRAME_LIST_SIZE \<equiv> 1024"
abbreviation (input) UHCI_FRAME_LIST_ALIGN :: "u32" where "UHCI_FRAME_LIST_ALIGN \<equiv> 4096"
definition PCI_HOFF_UHCI_LEGSUP :: "u8" where "PCI_HOFF_UHCI_LEGSUP = 0xc0"
definition UHCI_FRBASEADD_PTR :: "u32 \<Rightarrow> u32" where "UHCI_FRBASEADD_PTR ptr = ptr AND 0xfffff000"
definition UHCI_FLP_PTR :: "u32 \<Rightarrow> u32" where "UHCI_FLP_PTR ptr = ptr AND 0xfffffff0"
definition UHCI_FLP_QH :: "u32" where "UHCI_FLP_QH = push_bit 1 1"
definition UHCI_FLP_TERM :: "u32" where "UHCI_FLP_TERM = 1"
definition UHCI_TD_LPTR_PTR :: "u32 \<Rightarrow> u32" where "UHCI_TD_LPTR_PTR ptr = ptr AND 0xfffffff0"
definition UHCI_TD_LPTR_DEPTH :: "u32" where "UHCI_TD_LPTR_DEPTH = push_bit 2 1"
definition UHCI_TD_LPTR_TERM :: "u32" where "UHCI_TD_LPTR_TERM = 1"
definition UHCI_TD_ERR_CNT :: "u32 \<Rightarrow> u32" where "UHCI_TD_ERR_CNT val = push_bit 27 (val AND 0x3)"
definition UHCI_TD_LOW_SPEED :: "u32" where "UHCI_TD_LOW_SPEED = push_bit 26 1"
definition UHCI_TD_IOC :: "u32" where "UHCI_TD_IOC = push_bit 24 1"
definition UHCI_TD_STATUS_ACTIVE :: "u32" where "UHCI_TD_STATUS_ACTIVE = push_bit 23 1"
definition UHCI_TD_STATUS_STALLED :: "u32" where "UHCI_TD_STATUS_STALLED = push_bit 22 1"
definition UHCI_TD_STATUS_DATA_BUF_ERR :: "u32" where "UHCI_TD_STATUS_DATA_BUF_ERR = push_bit 21 1"
definition UHCI_TD_STATUS_BABBLE :: "u32" where "UHCI_TD_STATUS_BABBLE = push_bit 20 1"
definition UHCI_TD_STATUS_NAK :: "u32" where "UHCI_TD_STATUS_NAK = push_bit 19 1"
definition UHCI_TD_STATUS_CRC_TO :: "u32" where "UHCI_TD_STATUS_CRC_TO = push_bit 18 1"
definition UHCI_TD_STATUS_BITSTUFF_ERR :: "u32" where "UHCI_TD_STATUS_BITSTUFF_ERR = push_bit 17 1"
definition UHCI_TD_STATUS_MASK :: "u32" where "UHCI_TD_STATUS_MASK = push_bit 17 0x7f"
definition UHCI_TD_MAX_LEN :: "u32 \<Rightarrow> u32" where "UHCI_TD_MAX_LEN len = push_bit 21 (len AND 0x3f)"
definition UHCI_TD_DATA_TOGGLE :: "u32" where "UHCI_TD_DATA_TOGGLE = push_bit 19 1"
definition UHCI_TD_DEV_ADDR :: "u8 \<Rightarrow> u32" where "UHCI_TD_DEV_ADDR addr = push_bit 8 (ucast addr AND 0x7f)"
definition UHCI_TD_PID_IN :: "u8" where "UHCI_TD_PID_IN = 0x69"
definition UHCI_TD_PID_OUT :: "u8" where "UHCI_TD_PID_OUT = 0xe1"
definition UHCI_TD_PID_SETUP :: "u8" where "UHCI_TD_PID_SETUP = 0x2d"
definition UHCI_DR_RT_XDIR_HOST_DEV :: "u8" where "UHCI_DR_RT_XDIR_HOST_DEV = 0"
definition UHCI_DR_RT_XDIR_DEV_HOST :: "u8" where "UHCI_DR_RT_XDIR_DEV_HOST = push_bit 7 1"
definition UHCI_DR_RT_TYPE_STANDARD :: "u8" where "UHCI_DR_RT_TYPE_STANDARD = push_bit 5 0"
definition UHCI_DR_RT_RECIPIENT_DEVICE :: "u8" where "UHCI_DR_RT_RECIPIENT_DEVICE = 0"
definition UHCI_DR_REQ_SET_ADDRESS :: "u8" where "UHCI_DR_REQ_SET_ADDRESS = 5"
definition UHCI_DR_REQ_GET_DESCRIPTOR :: "u8" where "UHCI_DR_REQ_GET_DESCRIPTOR = 6"
definition UHCI_DR_VAL_DESC_DEVICE :: "u16" where "UHCI_DR_VAL_DESC_DEVICE = push_bit 8 1"
definition UHCI_DR_VAL_DESC_STRING :: "u16" where "UHCI_DR_VAL_DESC_STRING = push_bit 8 3"
definition UHCI_USBCMD :: "u16" where "UHCI_USBCMD = 0x00"
definition UHCI_USBSTS :: "u16" where "UHCI_USBSTS = 0x02"
definition UHCI_USBINTR :: "u16" where "UHCI_USBINTR = 0x04"
definition UHCI_FRBASEADD :: "u16" where "UHCI_FRBASEADD = 0x08"
definition UHCI_PORTSC1 :: "u16" where "UHCI_PORTSC1 = 0x10"
definition UHCI_PORTSC2 :: "u16" where "UHCI_PORTSC2 = 0x12"
definition UHCI_USBCMD_MAX_PKT_SIZE :: "u16" where "UHCI_USBCMD_MAX_PKT_SIZE = push_bit 7 1"
definition UHCI_USBCMD_GLOBAL_RESET :: "u16" where "UHCI_USBCMD_GLOBAL_RESET = push_bit 2 1"
definition UHCI_USBCMD_HC_RESET :: "u16" where "UHCI_USBCMD_HC_RESET = push_bit 1 1"
definition UHCI_USBCMD_RUN :: "u16" where "UHCI_USBCMD_RUN = push_bit 0 1"
definition UHCI_USBINTR_SHORT_PKT_INT :: "u16" where "UHCI_USBINTR_SHORT_PKT_INT = push_bit 3 1"
definition UHCI_USBINTR_INT_ON_COMPLETE :: "u16" where "UHCI_USBINTR_INT_ON_COMPLETE = push_bit 2 1"
definition UHCI_USBINTR_RESUME_INT :: "u16" where "UHCI_USBINTR_RESUME_INT = push_bit 1 1"
definition UHCI_USBINTR_CRC_TIMEOUT_INT :: "u16" where "UHCI_USBINTR_CRC_TIMEOUT_INT = push_bit 0 1"
definition UHCI_PORTSC_RESET :: "u16" where "UHCI_PORTSC_RESET = push_bit 9 1"
definition UHCI_PORTSC_LOW_SPEED :: "u16 \<Rightarrow> u16" where "UHCI_PORTSC_LOW_SPEED reg = drop_bit 8 (reg AND push_bit 8 1)"
definition UHCI_PORTSC_PORT_DETECT :: "u16" where "UHCI_PORTSC_PORT_DETECT = push_bit 7 1"
definition UHCI_PORTSC_PORT_ENABLE :: "u16" where "UHCI_PORTSC_PORT_ENABLE = push_bit 2 1"
definition UHCI_PORTSC_CONNECT_STATUS_CHG :: "u16" where "UHCI_PORTSC_CONNECT_STATUS_CHG = push_bit 1 1"

text \<open>\<open>LINK_PTR_TO_TD\<close> casts to a pointer.\<close>

definition LINK_PTR_TO_TD :: "u32 \<Rightarrow> u32" where "LINK_PTR_TO_TD lptr = UHCI_TD_LPTR_PTR lptr"

lemmas uhci_macros =
  PCI_HOFF_UHCI_LEGSUP_def UHCI_FRBASEADD_PTR_def UHCI_FLP_PTR_def
  UHCI_FLP_QH_def UHCI_FLP_TERM_def UHCI_TD_LPTR_PTR_def
  UHCI_TD_LPTR_DEPTH_def UHCI_TD_LPTR_TERM_def UHCI_TD_ERR_CNT_def
  UHCI_TD_LOW_SPEED_def UHCI_TD_IOC_def UHCI_TD_STATUS_ACTIVE_def
  UHCI_TD_STATUS_STALLED_def UHCI_TD_STATUS_DATA_BUF_ERR_def UHCI_TD_STATUS_BABBLE_def
  UHCI_TD_STATUS_NAK_def UHCI_TD_STATUS_CRC_TO_def UHCI_TD_STATUS_BITSTUFF_ERR_def
  UHCI_TD_STATUS_MASK_def UHCI_TD_MAX_LEN_def UHCI_TD_DATA_TOGGLE_def
  UHCI_TD_DEV_ADDR_def UHCI_TD_PID_IN_def UHCI_TD_PID_OUT_def
  UHCI_TD_PID_SETUP_def UHCI_DR_RT_XDIR_HOST_DEV_def UHCI_DR_RT_XDIR_DEV_HOST_def
  UHCI_DR_RT_TYPE_STANDARD_def UHCI_DR_RT_RECIPIENT_DEVICE_def UHCI_DR_REQ_SET_ADDRESS_def
  UHCI_DR_REQ_GET_DESCRIPTOR_def UHCI_DR_VAL_DESC_DEVICE_def UHCI_DR_VAL_DESC_STRING_def
  UHCI_USBCMD_def UHCI_USBSTS_def UHCI_USBINTR_def
  UHCI_FRBASEADD_def UHCI_PORTSC1_def UHCI_PORTSC2_def
  UHCI_USBCMD_MAX_PKT_SIZE_def UHCI_USBCMD_GLOBAL_RESET_def UHCI_USBCMD_HC_RESET_def
  UHCI_USBCMD_RUN_def UHCI_USBINTR_SHORT_PKT_INT_def UHCI_USBINTR_INT_ON_COMPLETE_def
  UHCI_USBINTR_RESUME_INT_def UHCI_USBINTR_CRC_TIMEOUT_INT_def UHCI_PORTSC_RESET_def
  UHCI_PORTSC_LOW_SPEED_def UHCI_PORTSC_PORT_DETECT_def UHCI_PORTSC_PORT_ENABLE_def
  UHCI_PORTSC_CONNECT_STATUS_CHG_def LINK_PTR_TO_TD_def


section \<open>Fields\<close>

text \<open>
  \<open>fl\<close>: \<open>frame_list_pointer\<close>, \<open>qh\<close>: \<open>queue_head\<close>, \<open>td\<close>: \<open>transfer_descriptor\<close>, \<open>dr\<close>:
  \<open>device_request\<close>, \<open>sd\<close>: \<open>string_descriptor\<close>, \<open>ud\<close>: \<open>uhci_dev\<close>, \<open>usb\<close>: \<open>usb_device\<close> (with
  its embedded device descriptor), \<open>te\<close>: \<open>transfer_entry\<close>.
\<close>

definition fl_pointer :: "u32 \<Rightarrow> u32" where "fl_pointer p = p"
definition qh_qhlp :: "u32 \<Rightarrow> u32" where "qh_qhlp p = p"
definition qh_qelp :: "u32 \<Rightarrow> u32" where "qh_qelp p = p + 4"
definition td_link_ptr :: "u32 \<Rightarrow> u32" where "td_link_ptr p = p"
definition td_ctrl_status :: "u32 \<Rightarrow> u32" where "td_ctrl_status p = p + 4"
definition td_token :: "u32 \<Rightarrow> u32" where "td_token p = p + 8"
definition td_buffer_ptr :: "u32 \<Rightarrow> u32" where "td_buffer_ptr p = p + 12"
definition td_swdata0 :: "u32 \<Rightarrow> u32" where "td_swdata0 p = p + 16"
definition dr_request_type :: "u32 \<Rightarrow> u32" where "dr_request_type p = p"
definition dr_request :: "u32 \<Rightarrow> u32" where "dr_request p = p + 1"
definition dr_value :: "u32 \<Rightarrow> u32" where "dr_value p = p + 2"
definition dr_index :: "u32 \<Rightarrow> u32" where "dr_index p = p + 4"
definition dr_length :: "u32 \<Rightarrow> u32" where "dr_length p = p + 6"
definition sd_length :: "u32 \<Rightarrow> u32" where "sd_length p = p"
definition sd_string :: "u32 \<Rightarrow> u32" where "sd_string p = p + 2"
definition ud_iobase :: "u32 \<Rightarrow> u32" where "ud_iobase p = p"
definition ud_frame_list_base :: "u32 \<Rightarrow> u32" where "ud_frame_list_base p = p + 4"
definition ud_portnum :: "u32 \<Rightarrow> u32" where "ud_portnum p = p + 8"
definition ud_pci_dev :: "u32 \<Rightarrow> u32" where "ud_pci_dev p = p + 12"
definition ud_qh1ms :: "u32 \<Rightarrow> u32" where "ud_qh1ms p = p + 16"
definition usb_low_speed :: "u32 \<Rightarrow> u32" where "usb_low_speed p = p"
definition usb_addr :: "u32 \<Rightarrow> u32" where "usb_addr p = p + 1"
definition usb_dev_desc :: "u32 \<Rightarrow> u32" where "usb_dev_desc p = p + 2"
definition usb_max_packet_size :: "u32 \<Rightarrow> u32" where "usb_max_packet_size p = p + 9"
definition usb_manufacturer_idx :: "u32 \<Rightarrow> u32" where "usb_manufacturer_idx p = p + 16"
definition usb_product_idx :: "u32 \<Rightarrow> u32" where "usb_product_idx p = p + 17"
definition te_last :: "u32 \<Rightarrow> u32" where "te_last p = p"
definition te_first :: "u32 \<Rightarrow> u32" where "te_first p = p + 4"
definition te_handler :: "u32 \<Rightarrow> u32" where "te_handler p = p + 8"
definition te_userdata :: "u32 \<Rightarrow> u32" where "te_userdata p = p + 12"
definition te_next :: "u32 \<Rightarrow> u32" where "te_next p = p + 16"

definition sizeof_td :: u32 where "sizeof_td = 32"
definition sizeof_queue_head :: u32 where "sizeof_queue_head = 8"
definition sizeof_device_request :: u32 where "sizeof_device_request = 8"
definition sizeof_uhci_dev :: u32 where "sizeof_uhci_dev = 20"
definition sizeof_usb_device :: u32 where "sizeof_usb_device = 24"
definition sizeof_transfer_entry :: u32 where "sizeof_transfer_entry = 20"
definition sizeof_idt_int_handler :: u32 where "sizeof_idt_int_handler = 12"

text \<open>The \<open>i\<close>-th transfer descriptor of an array.\<close>

definition td_at :: "u32 \<Rightarrow> nat \<Rightarrow> u32" where
  "td_at tds i = tds + 32 * of_nat i"

lemmas uhci_layout =
  fl_pointer_def qh_qhlp_def qh_qelp_def td_link_ptr_def
  td_ctrl_status_def td_token_def td_buffer_ptr_def td_swdata0_def
  dr_request_type_def dr_request_def dr_value_def dr_index_def
  dr_length_def sd_length_def sd_string_def ud_iobase_def
  ud_frame_list_base_def ud_portnum_def ud_pci_dev_def ud_qh1ms_def
  usb_low_speed_def usb_addr_def usb_dev_desc_def usb_max_packet_size_def
  usb_manufacturer_idx_def usb_product_idx_def te_last_def te_first_def
  te_handler_def te_userdata_def te_next_def sizeof_td_def
  sizeof_queue_head_def sizeof_device_request_def sizeof_uhci_dev_def sizeof_usb_device_def
  sizeof_transfer_entry_def sizeof_idt_int_handler_def

end
