(* ===== verification/Uhci.thy ===== *)
theory Uhci
  imports Pci UhciTypes
begin

text \<open>
  The UHCI host controller driver, \<open>drivers/usb/uhci.c\<close>, in the order of the source: the
  controller registers, the interrupt handler and its queue of pending transfers, reset and
  port handling, transfer descriptors, control transfers, and the initialisation that the
  PCI scan calls.

  Out-parameters that point to a local of the caller (\<open>out_td\<close>, \<open>sdesc\<close>) are results. Locals
  whose address is stored in memory (\<open>done\<close>, \<open>desc_len\<close>) have an address, a field of
  \<open>uhci_env\<close>, as have the functions whose address is stored. \<open>isr\<close> is what an interrupt does
  while the processor halts.
\<close>

record uhci_state = pci_state +
  pending_queue :: u32

record uhci_env =
  v_hw :: hw
  v_itoa_fixed :: u32
  v_print_buf :: u32
  v_callback :: u32
  v_uhci_isr :: u32
  v_done :: u32
  v_desc_len :: u32

type_synonym 'a isr = "u8 \<Rightarrow> 'a uhci_state_scheme \<Rightarrow> 'a uhci_state_scheme option"

definition ports :: "u16 list" where "ports = [UHCI_PORTSC1, UHCI_PORTSC2]"

text \<open>\<open>print_string(itoa_once(val, base))\<close>.\<close>

definition print_once :: "uhci_env \<Rightarrow> int \<Rightarrow> int \<Rightarrow> 'a display_state_scheme \<Rightarrow> 'a display_state_scheme option" where
  "print_once env val base s =
     itoa_once (v_itoa_fixed env) val base s \<bind> (\<lambda>(p, s). print_string p s)"

abbreviation say :: "string \<Rightarrow> 'a display_state_scheme \<Rightarrow> 'a display_state_scheme" where
  "say msg s \<equiv> print_text (text_bytes msg) s"


section \<open>Registers\<close>

definition uhci_read_16 :: "hw \<Rightarrow> u32 \<Rightarrow> u16 \<Rightarrow> 'a machine_scheme \<Rightarrow> u16 \<times> 'a machine_scheme" where
  "uhci_read_16 hw dev reg s = inw hw (ld16 (ud_iobase dev) s + reg) s"

definition uhci_read_32 :: "hw \<Rightarrow> u32 \<Rightarrow> u16 \<Rightarrow> 'a machine_scheme \<Rightarrow> u32 \<times> 'a machine_scheme" where
  "uhci_read_32 hw dev reg s = inl hw (ld16 (ud_iobase dev) s + reg) s"

definition uhci_read_8 :: "hw \<Rightarrow> u32 \<Rightarrow> u16 \<Rightarrow> 'a machine_scheme \<Rightarrow> u8 \<times> 'a machine_scheme" where
  "uhci_read_8 hw dev reg s = inb hw (ld16 (ud_iobase dev) s + reg) s"

definition uhci_write_32 :: "u32 \<Rightarrow> u16 \<Rightarrow> u32 \<Rightarrow> 'a machine_scheme \<Rightarrow> 'a machine_scheme" where
  "uhci_write_32 dev reg data s = outl (ld16 (ud_iobase dev) s + reg) data s"

definition uhci_write_16 :: "u32 \<Rightarrow> u16 \<Rightarrow> u16 \<Rightarrow> 'a machine_scheme \<Rightarrow> 'a machine_scheme" where
  "uhci_write_16 dev reg data s = outw (ld16 (ud_iobase dev) s + reg) data s"

definition uhci_write_8 :: "u32 \<Rightarrow> u16 \<Rightarrow> u8 \<Rightarrow> 'a machine_scheme \<Rightarrow> 'a machine_scheme" where
  "uhci_write_8 dev reg data s = outb (ld16 (ud_iobase dev) s + reg) data s"


section \<open>The interrupt handler\<close>

text \<open>The loop over the pending transfers; \<open>te_call\<close> runs an entry's completion handler.\<close>

partial_function (option) isr_scan ::
  "(u32 \<Rightarrow> u32 \<Rightarrow> 'a uhci_state_scheme \<Rightarrow> 'a uhci_state_scheme option) \<Rightarrow> u32 \<Rightarrow> u32 \<Rightarrow>
   'a uhci_state_scheme \<Rightarrow> 'a uhci_state_scheme option" where
  "isr_scan te_call prev_entry entry s =
     (if entry \<noteq> 0 then
        if ld32 (te_last entry) s \<noteq> 0
          \<and> (ld32 (td_ctrl_status (ld32 (te_last entry) s)) s AND UHCI_TD_STATUS_ACTIVE) = 0
        then
          let s = (if prev_entry \<noteq> 0 then st32 (te_next prev_entry) (ld32 (te_next entry) s) s
                   else s\<lparr>pending_queue := 0\<rparr>);
              next_entry = ld32 (te_next entry) s
          in te_call (ld32 (te_handler entry) s) entry s \<bind> isr_scan te_call prev_entry next_entry
        else isr_scan te_call entry (ld32 (te_next entry) s) s
      else Some s)"

definition uhci_isr ::
  "hw \<Rightarrow> (u32 \<Rightarrow> u32 \<Rightarrow> 'a uhci_state_scheme \<Rightarrow> 'a uhci_state_scheme option) \<Rightarrow> u8 \<Rightarrow> u32 \<Rightarrow>
   'a uhci_state_scheme \<Rightarrow> (bool \<times> 'a uhci_state_scheme) option" where
  "uhci_isr hw te_call int_n userdata s =
     (let uhci_dev = userdata;
          entry = pending_queue s;
          (status, s) = uhci_read_16 hw uhci_dev UHCI_USBSTS s
      in if status = 0 then Some (False, s)
         else do {
           s \<leftarrow> isr_scan te_call 0 entry s;
           let s = uhci_write_16 uhci_dev UHCI_USBSTS 0x1f s;
           Some (True, s)
         })"


section \<open>Controller and ports\<close>

definition is_UHCI_device :: "u32 \<Rightarrow> 'a machine_scheme \<Rightarrow> bool" where
  "is_UHCI_device dev s \<longleftrightarrow>
     ld8 (hdr_class_code dev) s = 0x0c \<and> ld8 (hdr_subclass dev) s = 0x03 \<and> ld8 (hdr_prog_if dev) s = 0"

partial_function (option) reset_wait ::
  "hw \<Rightarrow> 'a isr \<Rightarrow> u32 \<Rightarrow> u8 \<Rightarrow> 'a uhci_state_scheme \<Rightarrow> (u8 \<times> 'a uhci_state_scheme) option" where
  "reset_wait hw isr dev timeout s =
     (if timeout > 0
      then let (cmd, s) = uhci_read_16 hw dev UHCI_USBCMD s in
           if (cmd AND UHCI_USBCMD_HC_RESET) \<noteq> 0
           then sleep hw isr 10 s \<bind> reset_wait hw isr dev (timeout - 1)
           else Some (timeout, s)
      else Some (timeout, s))"

definition uhci_reset ::
  "hw \<Rightarrow> 'a isr \<Rightarrow> u32 \<Rightarrow> 'a uhci_state_scheme \<Rightarrow> (u8 \<times> 'a uhci_state_scheme) option" where
  "uhci_reset hw isr dev s = do {
     let s = uhci_write_16 dev UHCI_USBCMD UHCI_USBCMD_GLOBAL_RESET s;
     s \<leftarrow> sleep hw isr 20 s;
     let s = uhci_write_16 dev UHCI_USBCMD 0 s;
     let s = uhci_write_16 dev UHCI_USBCMD UHCI_USBCMD_HC_RESET s;
     (timeout, s) \<leftarrow> reset_wait hw isr dev 100 s;
     Some (if timeout > 0 then 0 else 1, s)
   }"

definition uhci_find_ports :: "hw \<Rightarrow> u32 \<Rightarrow> 'a machine_scheme \<Rightarrow> u8 \<times> 'a machine_scheme" where
  "uhci_find_ports hw dev s =
     fold (\<lambda>i (port_num, s).
         let (v, s) = uhci_read_16 hw dev (ports ! i) s in
         if (v AND UHCI_PORTSC_PORT_DETECT) \<noteq> 0 then (port_num + 1, s) else (port_num, s))
       [0..<length ports] (0, s)"

definition uhci_init_frame_list :: "u32 \<Rightarrow> 'a heap_state_scheme \<Rightarrow> 'a heap_state_scheme option" where
  "uhci_init_frame_list dev s = do {
     (flist, s) \<leftarrow> memalloc_aligned (4 * UHCI_FRAME_LIST_SIZE) UHCI_FRAME_LIST_ALIGN s;
     (qh1ms, s) \<leftarrow> memalloc_aligned sizeof_queue_head 16 s;
     let s = st32 (qh_qhlp qh1ms) UHCI_FLP_TERM s;
     let s = st32 (qh_qelp qh1ms) UHCI_FLP_TERM s;
     let s = st32 (ud_qh1ms dev) qh1ms s;
     let s = fold (\<lambda>i. st32 (fl_pointer (flist + 4 * of_nat i)) (UHCI_FLP_PTR qh1ms OR UHCI_FLP_QH)) [0..<UHCI_FRAME_LIST_SIZE] s;
     let s = st32 (fl_pointer (ld32 (ud_frame_list_base dev) s)) (UHCI_FRBASEADD_PTR flist) s;
     let s = uhci_write_32 dev UHCI_FRBASEADD (UHCI_FRBASEADD_PTR flist) s;
     Some s
   }"

partial_function (option) enable_wait ::
  "hw \<Rightarrow> 'a isr \<Rightarrow> u32 \<Rightarrow> u16 \<Rightarrow> u16 \<Rightarrow> 'a uhci_state_scheme \<Rightarrow> (u16 \<times> 'a uhci_state_scheme) option" where
  "enable_wait hw isr dev port timeout s =
     (if timeout \<noteq> 0
      then sleep hw isr 10 s \<bind> (\<lambda>s.
           let (v, s) = uhci_read_16 hw dev port s in
           if (v AND UHCI_PORTSC_PORT_ENABLE) \<noteq> 0 then Some (timeout, s)
           else enable_wait hw isr dev port (timeout - 1) s)
      else Some (timeout, s))"

definition uhci_enable_device_on_port ::
  "uhci_env \<Rightarrow> 'a isr \<Rightarrow> u32 \<Rightarrow> u16 \<Rightarrow> 'a uhci_state_scheme \<Rightarrow> (bool \<times> 'a uhci_state_scheme) option" where
  "uhci_enable_device_on_port env isr dev port s = do {
     let (regval, s) = uhci_read_16 (v_hw env) dev port s;
     let regval = regval AND NOT UHCI_PORTSC_CONNECT_STATUS_CHG;
     let s = uhci_write_16 dev port (regval OR UHCI_PORTSC_RESET) s;
     s \<leftarrow> sleep (v_hw env) isr 100 s;
     let s = uhci_write_16 dev port (regval AND NOT UHCI_PORTSC_RESET) s;
     s \<leftarrow> sleep (v_hw env) isr 50 s;
     let s = uhci_write_16 dev port (regval OR UHCI_PORTSC_PORT_ENABLE) s;
     (timeout, s) \<leftarrow> enable_wait (v_hw env) isr dev port 10 s;
     if timeout = 0 then do {
       let s = say ''UHCI device bringup timed out on port '' s;
       s \<leftarrow> print_once env (uint port) 16 s;
       let s = say ''\<newline>'' s;
       s \<leftarrow> print_pci_dev (v_print_buf env) (ld32 (ud_pci_dev dev) s) s;
       Some (False, s)
     }
     else
       let (regval, s) = uhci_read_16 (v_hw env) dev port s;
           s = uhci_write_16 dev port regval s
       in Some (True, s)
   }"


section \<open>Scheduling and completion\<close>

partial_function (option) last_pending :: "u32 \<Rightarrow> 'a machine_scheme \<Rightarrow> u32 option" where
  "last_pending te s =
     (if ld32 (te_next te) s \<noteq> 0 then last_pending (ld32 (te_next te) s) s else Some te)"

partial_function (option) last_td :: "u32 \<Rightarrow> 'a machine_scheme \<Rightarrow> u32 option" where
  "last_td endptr s =
     (if (ld32 (td_link_ptr (LINK_PTR_TO_TD endptr)) s AND UHCI_TD_LPTR_TERM) = 0
      then last_td (ld32 (td_link_ptr (LINK_PTR_TO_TD endptr)) s) s
      else Some endptr)"

definition uhci_schedule_queue :: "u32 \<Rightarrow> u32 \<Rightarrow> 'a uhci_state_scheme \<Rightarrow> 'a uhci_state_scheme option" where
  "uhci_schedule_queue queue transfer_entry s = do {
     let endptr = ld32 (qh_qelp queue) s;
     s \<leftarrow> (if pending_queue s \<noteq> 0
           then do { te \<leftarrow> last_pending (pending_queue s) s; Some (st32 (te_next te) transfer_entry s) }
           else Some (s\<lparr>pending_queue := transfer_entry\<rparr>));
     if (endptr AND UHCI_TD_LPTR_TERM) \<noteq> 0
     then Some (st32 (qh_qelp queue) (UHCI_FLP_PTR (ld32 (te_first transfer_entry) s)) s)
     else do {
       endptr \<leftarrow> last_td endptr s;
       Some (st32 (td_link_ptr (LINK_PTR_TO_TD endptr)) (UHCI_FLP_PTR (ld32 (te_first transfer_entry) s)) s)
     }
   }"

definition report :: "u32 \<Rightarrow> u32 \<Rightarrow> string \<Rightarrow> bool \<times> 'a display_state_scheme \<Rightarrow> bool \<times> 'a display_state_scheme" where
  "report td flag msg = (\<lambda>(is_ok, s).
     if (ld32 (td_ctrl_status td) s AND flag) \<noteq> 0 then (False, say msg s) else (is_ok, s))"

definition uhci_print_td_status ::
  "uhci_env \<Rightarrow> u32 \<Rightarrow> 'a display_state_scheme \<Rightarrow> (bool \<times> 'a display_state_scheme) option" where
  "uhci_print_td_status env td s =
     (let s = (if (ld32 (td_ctrl_status td) s AND UHCI_TD_STATUS_ACTIVE) \<noteq> 0
               then say ''TD active\<newline>'' s else s);
          r = report td UHCI_TD_STATUS_STALLED ''TD stalled\<newline>'' (True, s);
          r = report td UHCI_TD_STATUS_DATA_BUF_ERR ''TD data buffer error\<newline>'' r;
          r = report td UHCI_TD_STATUS_BABBLE ''TD babble\<newline>'' r;
          r = report td UHCI_TD_STATUS_NAK ''TD nak\<newline>'' r;
          r = report td UHCI_TD_STATUS_CRC_TO ''TD crc error or timeout\<newline>'' r;
          (is_ok, s) = report td UHCI_TD_STATUS_BITSTUFF_ERR ''TD bitstuff error\<newline>'' r
      in if \<not> is_ok then do {
           let s = say ''ERR CNT: '' s;
           s \<leftarrow> print_once env (uint (drop_bit 27 (ld32 (td_ctrl_status td) s AND push_bit 27 0x3))) 10 s;
           let s = say ''\<newline>'' s;
           let s = say ''SWDATA ID: '' s;
           s \<leftarrow> print_once env (sint (ld32 (td_swdata0 td) s)) 10 s;
           let s = say ''\<newline>'' s;
           Some (is_ok, s)
         }
         else Some (is_ok, s))"

partial_function (option) uhci_wait_entry_complete ::
  "hw \<Rightarrow> 'a isr \<Rightarrow> u32 \<Rightarrow> 'a uhci_state_scheme \<Rightarrow> (bool \<times> 'a uhci_state_scheme) option" where
  "uhci_wait_entry_complete hw isr te s =
     (if ld8 (ld32 (te_userdata te) s) s = 0
      then hlt hw isr s \<bind> uhci_wait_entry_complete hw isr te
      else Some (True, s))"


section \<open>Transfer descriptors\<close>

text \<open>The control and status word shared by all descriptors of a transfer.\<close>

definition td_status :: "u32 \<Rightarrow> 'a machine_scheme \<Rightarrow> u32" where
  "td_status dev s =
     UHCI_TD_ERR_CNT 3 OR (if ld8 (usb_low_speed dev) s \<noteq> 0 then UHCI_TD_LOW_SPEED else 0)"

text \<open>Descriptor \<open>i + 1\<close> of the data stage; the state of the loop is \<open>toggle\<close> and \<open>buf\<close>.\<close>

definition data_td ::
  "u32 \<Rightarrow> u32 \<Rightarrow> u32 \<Rightarrow> u8 \<Rightarrow> nat \<Rightarrow> bool \<times> u32 \<times> 'a machine_scheme \<Rightarrow> bool \<times> u32 \<times> 'a machine_scheme" where
  "data_td out_td dev max_pkt_size data_stage i = (\<lambda>(toggle, buf, s).
     let td = td_at out_td (i + 1);
         s = st32 (td_link_ptr td) (UHCI_TD_LPTR_PTR (td_at out_td (i + 2)) OR UHCI_TD_LPTR_DEPTH) s;
         s = st32 (td_ctrl_status td) (td_status dev s OR UHCI_TD_STATUS_ACTIVE) s;
         s = st32 (td_token td) (UHCI_TD_MAX_LEN (max_pkt_size - 1) OR
               UHCI_TD_DEV_ADDR (ld8 (usb_addr dev) s) OR ucast data_stage) s;
         s = st32 (td_buffer_ptr td) buf s;
         s = st32 (td_swdata0 td) (of_nat i + 1) s;
         s = (if toggle then st32 (td_token td) (ld32 (td_token td) s OR UHCI_TD_DATA_TOGGLE) s else s)
     in (\<not> toggle, buf + max_pkt_size, s))"

text \<open>
  As the code has it, lengths go through \<open>UHCI_TD_MAX_LEN\<close>, which keeps six of the eleven bits: the null
  packet of the status stage, 0x7ff, becomes 63.
\<close>

definition uhci_create_td_control ::
  "u32 \<Rightarrow> u8 \<Rightarrow> u8 \<Rightarrow> u16 \<Rightarrow> u16 \<Rightarrow> u16 \<Rightarrow> u8 \<Rightarrow> u8 \<Rightarrow> u32 \<Rightarrow> 'a heap_state_scheme \<Rightarrow>
   (u16 \<times> u32 \<times> 'a heap_state_scheme) option" where
  "uhci_create_td_control dev request_type request val index len data_stage status_stage buf s = do {
     let max_pkt_size = unat (ld8 (usb_max_packet_size dev) s);
     (dr, s) \<leftarrow> memalloc sizeof_device_request s;
     let s = st8 (dr_request_type dr) request_type s;
     let s = st8 (dr_request dr) request s;
     let s = st16 (dr_value dr) val s;
     let s = st16 (dr_index dr) index s;
     let s = st16 (dr_length dr) len s;
     let max_pkt_size = (if max_pkt_size < 8 then 8 else max_pkt_size);
     let td_cnt = 2 + DIV_CEIL (unat len) max_pkt_size;
     (out_td, s) \<leftarrow> memalloc_aligned (sizeof_td * of_nat td_cnt) 16 s;
     let s = st32 (td_link_ptr out_td) (UHCI_TD_LPTR_PTR (td_at out_td 1) OR UHCI_TD_LPTR_DEPTH) s;
     let s = st32 (td_ctrl_status out_td) (td_status dev s OR UHCI_TD_STATUS_ACTIVE) s;
     let s = st32 (td_token out_td) (UHCI_TD_MAX_LEN (sizeof_device_request - 1) OR
               UHCI_TD_DEV_ADDR (ld8 (usb_addr dev) s) OR ucast UHCI_TD_PID_SETUP) s;
     let s = st32 (td_buffer_ptr out_td) dr s;
     let s = st32 (td_swdata0 out_td) 1 s;
     let (_, _, s) = fold (data_td out_td dev (of_nat max_pkt_size) data_stage) [0..<td_cnt - 2] (True, buf, s);
     let last = td_at out_td (td_cnt - 1);
     let s = st32 (td_link_ptr last) UHCI_TD_LPTR_TERM s;
     let s = st32 (td_ctrl_status last) (td_status dev s OR UHCI_TD_IOC OR UHCI_TD_STATUS_ACTIVE) s;
     let s = st32 (td_token last) (UHCI_TD_MAX_LEN 0x7ff OR UHCI_TD_DATA_TOGGLE OR
               UHCI_TD_DEV_ADDR (ld8 (usb_addr dev) s) OR ucast status_stage) s;
     let s = st32 (td_buffer_ptr last) 0 s;
     let s = st32 (td_swdata0 last) (of_nat td_cnt) s;
     Some (of_nat td_cnt, out_td, s)
   }"

definition uhci_create_td_control_in ::
  "u32 \<Rightarrow> u8 \<Rightarrow> u16 \<Rightarrow> u16 \<Rightarrow> u16 \<Rightarrow> u32 \<Rightarrow> 'a heap_state_scheme \<Rightarrow> (u16 \<times> u32 \<times> 'a heap_state_scheme) option" where
  "uhci_create_td_control_in dev request val index len buf s =
     (let request_type = UHCI_DR_RT_XDIR_DEV_HOST OR UHCI_DR_RT_TYPE_STANDARD OR UHCI_DR_RT_RECIPIENT_DEVICE
      in uhci_create_td_control dev request_type request val index len UHCI_TD_PID_IN UHCI_TD_PID_OUT buf s)"

definition uhci_create_td_control_out ::
  "u32 \<Rightarrow> u8 \<Rightarrow> u16 \<Rightarrow> u16 \<Rightarrow> u16 \<Rightarrow> u32 \<Rightarrow> 'a heap_state_scheme \<Rightarrow> (u16 \<times> u32 \<times> 'a heap_state_scheme) option" where
  "uhci_create_td_control_out dev request val index len buf s =
     (let request_type = UHCI_DR_RT_XDIR_HOST_DEV OR UHCI_DR_RT_TYPE_STANDARD OR UHCI_DR_RT_RECIPIENT_DEVICE
      in uhci_create_td_control dev request_type request val index len UHCI_TD_PID_OUT UHCI_TD_PID_IN buf s)"

definition uhci_delete_td_control :: "u32 \<Rightarrow> 'a heap_state_scheme \<Rightarrow> 'a heap_state_scheme option" where
  "uhci_delete_td_control td s = do {
     s \<leftarrow> memfree (ld32 (td_buffer_ptr td) s) s;
     memfree td s
   }"

partial_function (option) trans_end_loop ::
  "uhci_env \<Rightarrow> u32 \<Rightarrow> u32 \<Rightarrow> 'a display_state_scheme \<Rightarrow> 'a display_state_scheme option" where
  "trans_end_loop env te td s =
     (if td \<noteq> ld32 (te_last te) s
      then (if (ld32 (td_ctrl_status td) s AND UHCI_TD_STATUS_MASK) \<noteq> 0
            then uhci_print_td_status env td s \<bind> (\<lambda>(_, s). Some s) else Some s) \<bind>
        (\<lambda>s. trans_end_loop env te (LINK_PTR_TO_TD (ld32 (td_link_ptr td) s)) s)
      else Some s)"

definition uhci_callback_trans_end :: "uhci_env \<Rightarrow> u32 \<Rightarrow> 'a display_state_scheme \<Rightarrow> 'a display_state_scheme option" where
  "uhci_callback_trans_end env te s = do {
     s \<leftarrow> trans_end_loop env te (ld32 (te_first te) s) s;
     Some (st8 (ld32 (te_userdata te) s) 1 s)
   }"

text \<open>The completion handlers: there is one, \<open>uhci_callback_trans_end\<close>.\<close>

definition te_dispatch :: "uhci_env \<Rightarrow> u32 \<Rightarrow> u32 \<Rightarrow> 'a display_state_scheme \<Rightarrow> 'a display_state_scheme option" where
  "te_dispatch env f te s = (if f = v_callback env then uhci_callback_trans_end env te s else None)"


section \<open>Control transfers\<close>

text \<open>
  The statements every transfer consists of: a new entry for the \<open>ntd\<close> descriptors at \<open>td\<close>,
  scheduled on the queue, waited for, and freed.
\<close>

definition run_entry ::
  "uhci_env \<Rightarrow> 'a isr \<Rightarrow> u32 \<Rightarrow> u32 \<Rightarrow> u16 \<Rightarrow> 'a uhci_state_scheme \<Rightarrow> (bool \<times> 'a uhci_state_scheme) option" where
  "run_entry env isr dev td ntd s = do {
     let s = st8 (v_done env) 0 s;
     (entry, s) \<leftarrow> memalloc sizeof_transfer_entry s;
     let s = st32 (te_first entry) td s;
     let s = st32 (te_last entry) (td_at td (unat ntd - 1)) s;
     let s = st32 (te_handler entry) (v_callback env) s;
     let s = st32 (te_userdata entry) (v_done env) s;
     let s = st32 (te_next entry) 0 s;
     s \<leftarrow> uhci_schedule_queue (ld32 (ud_qh1ms dev) s) entry s;
     (result, s) \<leftarrow> uhci_wait_entry_complete (v_hw env) isr entry s;
     s \<leftarrow> memfree entry s;
     Some (result, s)
   }"

definition uhci_read_dev_desc ::
  "uhci_env \<Rightarrow> 'a isr \<Rightarrow> u32 \<Rightarrow> u32 \<Rightarrow> u32 \<Rightarrow> 'a uhci_state_scheme \<Rightarrow> (bool \<times> 'a uhci_state_scheme) option" where
  "uhci_read_dev_desc env isr dev udev dev_desc s = do {
     (ntd, td, s) \<leftarrow> uhci_create_td_control_in udev UHCI_DR_REQ_GET_DESCRIPTOR UHCI_DR_VAL_DESC_DEVICE 0 18 dev_desc s;
     (result, s) \<leftarrow> run_entry env isr dev td ntd s;
     s \<leftarrow> uhci_delete_td_control td s;
     Some (result, s)
   }"

definition uhci_read_dev_desc_maxpkg ::
  "uhci_env \<Rightarrow> 'a isr \<Rightarrow> u32 \<Rightarrow> u32 \<Rightarrow> u32 \<Rightarrow> 'a uhci_state_scheme \<Rightarrow> (bool \<times> 'a uhci_state_scheme) option" where
  "uhci_read_dev_desc_maxpkg env isr dev udev dev_desc s = do {
     (ntd, td, s) \<leftarrow> uhci_create_td_control_in udev UHCI_DR_REQ_GET_DESCRIPTOR UHCI_DR_VAL_DESC_DEVICE 0
       (if ld8 (usb_low_speed udev) s \<noteq> 0 then 8 else 8) dev_desc s;
     (result, s) \<leftarrow> run_entry env isr dev td ntd s;
     s \<leftarrow> uhci_delete_td_control td s;
     Some (result, s)
   }"

definition uhci_set_device_address ::
  "uhci_env \<Rightarrow> 'a isr \<Rightarrow> u32 \<Rightarrow> u32 \<Rightarrow> u8 \<Rightarrow> 'a uhci_state_scheme \<Rightarrow> (bool \<times> 'a uhci_state_scheme) option" where
  "uhci_set_device_address env isr dev udev addr s = do {
     (ntd, td, s) \<leftarrow> uhci_create_td_control_out udev UHCI_DR_REQ_SET_ADDRESS (ucast addr) 0 0 0 s;
     (result, s) \<leftarrow> run_entry env isr dev td ntd s;
     let s = (if result then st8 (usb_addr udev) addr s else s);
     s \<leftarrow> uhci_delete_td_control td s;
     Some (result, s)
   }"

text \<open>The result is the success flag and the new value of \<open>*sdesc\<close>.\<close>

definition uhci_read_string_desc ::
  "uhci_env \<Rightarrow> 'a isr \<Rightarrow> u32 \<Rightarrow> u32 \<Rightarrow> u8 \<Rightarrow> u32 \<Rightarrow> 'a uhci_state_scheme \<Rightarrow> (bool \<times> u32 \<times> 'a uhci_state_scheme) option" where
  "uhci_read_string_desc env isr dev udev index sdesc s = do {
     let s = st8 (v_desc_len env) 0 s;
     (ntd, td, s) \<leftarrow> uhci_create_td_control_in udev UHCI_DR_REQ_GET_DESCRIPTOR
       (UHCI_DR_VAL_DESC_STRING OR ucast index) 0 1 (v_desc_len env) s;
     (result, s) \<leftarrow> run_entry env isr dev td ntd s;
     if \<not> result then do {
       s \<leftarrow> uhci_delete_td_control td s;
       Some (False, sdesc, s)
     }
     else do {
       s \<leftarrow> uhci_delete_td_control td s;
       let desc_len = ld8 (v_desc_len env) s;
       (sdesc, s) \<leftarrow> memalloc (ucast desc_len) s;
       let (_, s) = memfill sdesc 0 (ucast desc_len) s;
       (ntd, td, s) \<leftarrow> uhci_create_td_control_in udev UHCI_DR_REQ_GET_DESCRIPTOR
         (UHCI_DR_VAL_DESC_STRING OR ucast index) 0 (ucast desc_len) sdesc s;
       (result, s) \<leftarrow> run_entry env isr dev td ntd s;
       if \<not> result then do {
         s \<leftarrow> memfree sdesc s;
         s \<leftarrow> uhci_delete_td_control td s;
         Some (False, 0, s)
       }
       else do {
         s \<leftarrow> uhci_delete_td_control td s;
         Some (result, sdesc, s)
       }
     }
   }"


section \<open>Initialisation\<close>

text \<open>Converting a string descriptor, printing it with the text \<open>after\<close>, and freeing it.\<close>

definition print_string_desc ::
  "u32 \<Rightarrow> string \<Rightarrow> 'a display_state_scheme \<Rightarrow> 'a display_state_scheme option" where
  "print_string_desc sdesc after s = do {
     let buflen = (ucast ((ucast (ld8 (sd_length sdesc) s) - 2) div 2 + 1 :: u32) :: u8);
     (buf, s) \<leftarrow> memalloc (ucast buflen) s;
     let (_, s) = memfill buf 0 (ucast buflen) s;
     let (_, s) = wstr_to_str (sd_string sdesc) (ucast (ld8 (sd_length sdesc) s) - 2) buf (ucast buflen) s;
     s \<leftarrow> print_string buf s;
     let s = say after s;
     s \<leftarrow> memfree buf s;
     memfree sdesc s
   }"

text \<open>A port whose connect status has changed.\<close>

definition init_connected_port ::
  "uhci_env \<Rightarrow> 'a isr \<Rightarrow> u32 \<Rightarrow> u8 \<Rightarrow> 'a uhci_state_scheme \<Rightarrow> 'a uhci_state_scheme option" where
  "init_connected_port env isr uhci_dev i s = do {
     let port = ports ! unat i;
     let s = say ''CONNECT STATUS CHANGE detected on port '' s;
     s \<leftarrow> print_once env (uint i) 10 s;
     let s = say ''\<newline>'' s;
     let s = say ''LO: '' s;
     let (v, s) = uhci_read_16 (v_hw env) uhci_dev port s;
     s \<leftarrow> print_once env (uint (UHCI_PORTSC_LOW_SPEED v)) 16 s;
     let s = say ''\<newline>'' s;
     (ok, s) \<leftarrow> uhci_enable_device_on_port env isr uhci_dev port s;
     if \<not> ok then Some (say ''Device enablement failed'' s)
     else do {
       (usb_dev, s) \<leftarrow> memalloc sizeof_usb_device s;
       let (_, s) = memfill usb_dev 0 sizeof_usb_device s;
       let (v, s) = uhci_read_16 (v_hw env) uhci_dev port s;
       let s = st8 (usb_low_speed usb_dev) (if UHCI_PORTSC_LOW_SPEED v \<noteq> 0 then 1 else 0) s;
       (ok, s) \<leftarrow> uhci_read_dev_desc_maxpkg env isr uhci_dev usb_dev (usb_dev_desc usb_dev) s;
       if \<not> ok then memfree usb_dev (say ''Failed to retrive initial device descriptor'' s)
       else do {
         (ok, s) \<leftarrow> uhci_enable_device_on_port env isr uhci_dev port s;
         if \<not> ok then Some (say ''Device enablement failed 2'' s)
         else do {
           (ok, s) \<leftarrow> uhci_set_device_address env isr uhci_dev usb_dev (i + 1) s;
           if \<not> ok then memfree usb_dev (say ''Failed to set device address'' s)
           else do {
             (ok, s) \<leftarrow> uhci_read_dev_desc env isr uhci_dev usb_dev (usb_dev_desc usb_dev) s;
             if \<not> ok then memfree usb_dev (say ''Failed to retrive device descriptor'' s)
             else do {
               (ok, sdesc, s) \<leftarrow> uhci_read_string_desc env isr uhci_dev usb_dev (ld8 (usb_manufacturer_idx usb_dev) s) 0 s;
               let s = (if \<not> ok then say ''uhci_read_string_desc mfg FAIL'' s else s);
               s \<leftarrow> print_string_desc sdesc '': '' s;
               (ok, sdesc, s) \<leftarrow> uhci_read_string_desc env isr uhci_dev usb_dev (ld8 (usb_product_idx usb_dev) s) 0 s;
               let s = (if \<not> ok then say ''uhci_read_string_desc prod FAIL'' s else s);
               print_string_desc sdesc ''\<newline>'' s
             }
           }
         }
       }
     }
   }"

text \<open>The loop over the ports.\<close>

partial_function (option) init_ports ::
  "uhci_env \<Rightarrow> 'a isr \<Rightarrow> u32 \<Rightarrow> u8 \<Rightarrow> 'a uhci_state_scheme \<Rightarrow> 'a uhci_state_scheme option" where
  "init_ports env isr uhci_dev i s =
     (if i < ld8 (ud_portnum uhci_dev) s
      then (let (v, s) = uhci_read_16 (v_hw env) uhci_dev (ports ! unat i) s in
            if (v AND UHCI_PORTSC_CONNECT_STATUS_CHG) \<noteq> 0
            then init_connected_port env isr uhci_dev i s
            else do {
              let s = say ''Inactive port: '' s;
              s \<leftarrow> print_once env (uint i) 10 s;
              Some (say ''\<newline>'' s)
            }) \<bind>
        init_ports env isr uhci_dev (i + 1)
      else Some s)"

text \<open>\<open>pci_dev_init_cb\<close>, the \<open>init\<close> function of the driver; the part after the reset comes first.\<close>

definition start_controller ::
  "uhci_env \<Rightarrow> 'a isr \<Rightarrow> u32 \<Rightarrow> 'a uhci_state_scheme \<Rightarrow> 'a uhci_state_scheme option" where
  "start_controller env isr uhci_dev s = do {
     s \<leftarrow> uhci_init_frame_list uhci_dev s;
     let (n, s) = uhci_find_ports (v_hw env) uhci_dev s;
     let s = st8 (ud_portnum uhci_dev) n s;
     let s = uhci_write_16 uhci_dev UHCI_USBINTR
       (UHCI_USBINTR_SHORT_PKT_INT OR UHCI_USBINTR_INT_ON_COMPLETE OR UHCI_USBINTR_RESUME_INT OR
        UHCI_USBINTR_CRC_TIMEOUT_INT) s;
     let s = uhci_write_16 uhci_dev UHCI_USBCMD (UHCI_USBCMD_MAX_PKT_SIZE OR UHCI_USBCMD_RUN) s;
     let s = say ''UHCI init OK\<newline>'' s;
     let s = say ''UHCI INT line: '' s;
     s \<leftarrow> print_once env (uint (ld8 (hdr_interrupt_line (ld32 (ud_pci_dev uhci_dev) s)) s)) 10 s;
     let s = say ''\<newline>'' s;
     (h, s) \<leftarrow> memalloc sizeof_idt_int_handler s;
     let s = st32 (h_handler h) (v_uhci_isr env) s;
     let s = st32 (h_userdata h) uhci_dev s;
     s \<leftarrow> idt_reg_handler (ld8 (hdr_interrupt_line (ld32 (ud_pci_dev uhci_dev) s)) s + 32) h s;
     let s = say ''UHCI portnum: '' s;
     s \<leftarrow> print_once env (uint (ld8 (ud_portnum uhci_dev) s)) 10 s;
     let s = say ''\<newline>'' s;
     init_ports env isr uhci_dev 0 s
   }"

definition pci_dev_init_cb ::
  "uhci_env \<Rightarrow> 'a isr \<Rightarrow> u32 \<Rightarrow> 'a uhci_state_scheme \<Rightarrow> (bool \<times> 'a uhci_state_scheme) option" where
  "pci_dev_init_cb env isr dev s =
     (if \<not> is_UHCI_device dev s then Some (False, s)
      else do {
        (uhci_dev, s) \<leftarrow> memalloc sizeof_uhci_dev s;
        let s = st32 (ud_pci_dev uhci_dev) dev s;
        let s = say ''UHCI found\<newline>'' s;
        let s = pci_write_16 dev PCI_HOFF_UHCI_LEGSUP 0x2000 s;
        let s = (if (ld16 (hdr_command dev) s AND PCI_CMD_BUSMASTER_MASK) = 0
          then let s = st16 (hdr_command dev) (ld16 (hdr_command dev) s OR PCI_CMD_BUSMASTER_MASK) s
               in pci_write_16 dev PCI_HOFF_COMMAND (ld16 (hdr_command dev) s) s
          else s);
        let s = st16 (ud_iobase uhci_dev) (ucast (ld32 (hdr_bar dev USBBASE_BAR_IDX) s AND 0xfffe)) s;
        (failed, s) \<leftarrow> uhci_reset (v_hw env) isr uhci_dev s;
        if failed \<noteq> 0 then do {
          let s = say ''UHCI reset timed out\<newline>'' s;
          s \<leftarrow> print_pci_dev (v_print_buf env) dev s;
          s \<leftarrow> memfree uhci_dev s;
          Some (False, s)
        }
        else do { s \<leftarrow> start_controller env isr uhci_dev s; Some (True, s) }
      })"

text \<open>\<open>drv\<close> is the address of the local \<open>struct pci_dev_driver\<close>, \<open>init_cb\<close> that of \<open>pci_dev_init_cb\<close>.\<close>

definition uhci_init :: "u32 \<Rightarrow> u32 \<Rightarrow> 'a pci_state_scheme \<Rightarrow> 'a pci_state_scheme" where
  "uhci_init drv init_cb s = pci_register_driver drv (st32 drv init_cb s)"

end
