(* ===== verification/UhciTd.thy ===== *)
theory UhciTd
  imports Uhci PciProof
begin

text \<open>
  The transfer descriptors of a control transfer: what the five words of each descriptor hold
  after \<open>uhci_create_td_control\<close>, and that building them keeps the heap.
\<close>


section \<open>A descriptor as five words\<close>

abbreviation td_span :: "u32 \<Rightarrow> nat set" where
  "td_span \<equiv> span 20"

definition td_words :: "mem \<Rightarrow> u32 \<Rightarrow> u32 list" where
  "td_words m td = [load32 m (td_link_ptr td), load32 m (td_ctrl_status td), load32 m (td_token td),
     load32 m (td_buffer_ptr td), load32 m (td_swdata0 td)]"

lemma td_field_addr:
  assumes "span_ok 20 td"
  shows "unat (td_link_ptr td) = unat td" "unat (td_ctrl_status td) = unat td + 4" "unat (td_token td) = unat td + 8"
    "unat (td_buffer_ptr td) = unat td + 12" "unat (td_swdata0 td) = unat td + 16"
  using assms unfolding span_ok_def uhci_layout by (auto simp: unat_add_u32)

lemma td_words_same:
  assumes "same_on m m' S" and "td_span td \<subseteq> S" and "span_ok 20 td"
  shows "td_words m' td = td_words m td"
proof -
  have "load32 m' p = load32 m p" if "unat p = unat td + k" "k \<le> 16" for p k
    by (rule load32_same [OF assms(1)]) (use assms(2,3) that in \<open>auto simp: span_def span_ok_def subset_iff\<close>)
  from this [of _ 0] this [of _ 4] this [of _ 8] this [of _ 12] this [of _ 16]
  show ?thesis by (simp add: td_words_def td_field_addr [OF assms(3)])
qed

text \<open>\<open>wrote td ws s s'\<close>: from \<open>s\<close> to \<open>s'\<close> only the descriptor at \<open>td\<close> changed, and it holds \<open>ws\<close>.\<close>

definition wrote :: "u32 \<Rightarrow> u32 list \<Rightarrow> 'a heap_state_scheme \<Rightarrow> 'a heap_state_scheme \<Rightarrow> bool" where
  "wrote td ws s s' \<longleftrightarrow> td_words (mem s') td = ws \<and> writes_in (td_span td) s s'"

lemma td_stores:
  assumes "span_ok 20 td"
  shows "writes_in (td_span td) s (st32 (td_link_ptr td) v s)" "writes_in (td_span td) s (st32 (td_ctrl_status td) v s)"
    "writes_in (td_span td) s (st32 (td_token td) v s)" "writes_in (td_span td) s (st32 (td_buffer_ptr td) v s)"
    "writes_in (td_span td) s (st32 (td_swdata0 td) v s)"
  using assms by (intro writes_in_st; simp add: span_def span_ok_def td_field_addr [OF assms])+

lemma wrote_five:
  assumes "span_ok 20 td"
  shows "wrote td [a, b, c, d, e] s (st32 (td_swdata0 td) e (st32 (td_buffer_ptr td) d (st32 (td_token td) c
    (st32 (td_ctrl_status td) b (st32 (td_link_ptr td) a s)))))"
proof -
  have "unat td + 20 \<le> 4294967296" using assms by (simp add: span_ok_def)
  then have "td_words (mem (st32 (td_swdata0 td) e (st32 (td_buffer_ptr td) d (st32 (td_token td) c
      (st32 (td_ctrl_status td) b (st32 (td_link_ptr td) a s)))))) td = [a, b, c, d, e]"
    by (simp add: td_words_def load32_store32_other td_field_addr [OF assms])
  moreover have "writes_in (td_span td) s (st32 (td_swdata0 td) e (st32 (td_buffer_ptr td) d (st32 (td_token td) c
      (st32 (td_ctrl_status td) b (st32 (td_link_ptr td) a s)))))"
    by (rule writes_in_trans, rule writes_in_trans, rule writes_in_trans, rule writes_in_trans) (rule td_stores [OF assms])+
  ultimately show ?thesis by (simp only: wrote_def)
qed

lemma wrote_token:
  assumes "span_ok 20 td" and "wrote td [a, b, c, d, e] s s'"
  shows "wrote td [a, b, v, d, e] s (st32 (td_token td) v s')"
proof -
  have "unat td + 20 \<le> 4294967296" using assms(1) by (simp add: span_ok_def)
  then have "td_words (mem (st32 (td_token td) v s')) td = [a, b, v, d, e]"
    using assms(2) by (simp add: wrote_def td_words_def load32_store32_other td_field_addr [OF assms(1)])
  then show ?thesis
    using assms(2) td_stores(3) [OF assms(1)] writes_in_trans unfolding wrote_def by blast
qed

lemma wrote_words: "wrote td [a, b, c, d, e] s s' \<Longrightarrow> load32 (mem s') (td_token td) = c"
  by (simp add: wrote_def td_words_def)


section \<open>An array of descriptors\<close>

definition td_array :: "u32 \<Rightarrow> nat \<Rightarrow> nat set" where
  "td_array tds n = {unat tds..<unat tds + 32 * n}"

lemma unat_td_at:
  assumes "unat tds + 32 * n \<le> 4294967296" and "i < n"
  shows "unat (td_at tds i) = unat tds + 32 * i"
proof -
  have "unat (32 * of_nat i :: u32) = 32 * i"
    using unat_of_nat_u32 [of "32 * i"] assms by simp
  then show ?thesis
    unfolding td_at_def using assms by (subst unat_add_u32) auto
qed

lemma td_at_facts:
  assumes "unat tds + 32 * n \<le> 4294967296" and "tds \<noteq> 0" and "i < n"
  shows "span_ok 20 (td_at tds i)" and "td_span (td_at tds i) \<subseteq> td_array tds n"
proof -
  note u = unat_td_at [OF assms(1,3)]
  have "0 < unat tds" using assms(2) by (simp add: unat_gt_0)
  then have "td_at tds i \<noteq> 0" using u by (metis add_gr_0 less_numeral_extra(3) unat_0)
  then show "span_ok 20 (td_at tds i)" using u assms by (simp add: span_ok_def)
  show "td_span (td_at tds i) \<subseteq> td_array tds n"
    using u assms(3) by (auto simp: span_def td_array_def)
qed

lemma td_at_apart:
  assumes "unat tds + 32 * n \<le> 4294967296" and "i < n" and "j < n" and "i \<noteq> j"
  shows "td_span (td_at tds i) \<subseteq> - td_span (td_at tds j)"
  using unat_td_at [OF assms(1,2)] unat_td_at [OF assms(1,3)] assms(4) by (auto simp: span_def)

text \<open>A link to the next descriptor of an aligned array.\<close>

lemma aligned_low_bits:
  fixes p :: u32
  assumes "16 dvd unat p"
  shows "p AND 0xf = 0" and "p AND 0xfffffff0 = p"
proof -
  have "p AND mask 4 = 0"
    using assms by (simp add: word_unat_eq_iff unat_and_mask_mod)
  then show low: "p AND 0xf = 0" by (simp add: mask_eq_exp_minus_1)
  have "p AND NOT 0xf = p" using word_and_not_plus [of p "0xf"] low by simp
  moreover have "NOT 0xf = (0xfffffff0 :: u32)" by simp
  ultimately show "p AND 0xfffffff0 = p" by (simp only:)
qed

lemma or_flags:
  fixes p f :: u32
  assumes "16 dvd unat p" and "f AND 0xf = f"
  shows "p OR f = p + f"
proof -
  have "p AND f = (p AND 0xf) AND f" using assms(2) by (metis and.assoc and.commute)
  then have "p AND f = 0" using aligned_low_bits(1) [OF assms(1)] by simp
  then show ?thesis by (simp add: disjunctive_add_eq_or)
qed

lemma link_to_td:
  assumes "unat tds + 32 * n \<le> 4294967296" and "16 dvd unat tds" and "i < n"
  shows "UHCI_TD_LPTR_PTR (td_at tds i) OR UHCI_TD_LPTR_DEPTH = td_at tds i + 4"
    and "LINK_PTR_TO_TD (td_at tds i + 4) = td_at tds i"
    and "(td_at tds i + 4) AND UHCI_TD_LPTR_TERM = 0"
proof -
  have al: "16 dvd unat (td_at tds i)"
    using unat_td_at [OF assms(1,3)] assms(2) by (simp add: dvd_add)
  have o: "td_at tds i OR 4 = td_at tds i + 4" by (rule or_flags [OF al]) simp
  show "UHCI_TD_LPTR_PTR (td_at tds i) OR UHCI_TD_LPTR_DEPTH = td_at tds i + 4"
    using o by (simp add: uhci_macros aligned_low_bits(2) [OF al] push_bit_eq_mult)
  have "(td_at tds i OR 4) AND 0xfffffff0 = td_at tds i"
    by (simp add: bit.conj_disj_distrib2 aligned_low_bits(2) [OF al])
  then show "LINK_PTR_TO_TD (td_at tds i + 4) = td_at tds i"
    by (simp add: uhci_macros o)
  have "td_at tds i AND 1 = (td_at tds i AND 0xf) AND 1" by (simp add: and.assoc)
  then have "(td_at tds i OR 4) AND 1 = 0"
    using aligned_low_bits(1) [OF al] by (simp add: bit.conj_disj_distrib2)
  then show "(td_at tds i + 4) AND UHCI_TD_LPTR_TERM = 0"
    by (simp add: uhci_macros o)
qed


section \<open>The descriptors of a control transfer\<close>

text \<open>The words of a descriptor in terms of their fields.\<close>

definition td_ctrl :: "bool \<Rightarrow> bool \<Rightarrow> u32" where
  "td_ctrl low ioc = 0x18800000 OR (if low then 0x04000000 else 0) OR (if ioc then 0x01000000 else 0)"

definition td_tok :: "u8 \<Rightarrow> u8 \<Rightarrow> bool \<Rightarrow> nat \<Rightarrow> u32" where
  "td_tok pid addr toggle maxlen =
     ucast pid OR push_bit 8 (ucast addr AND 0x7f) OR (if toggle then 0x80000 else 0) OR push_bit 21 (of_nat maxlen)"

text \<open>
  Descriptor \<open>i\<close> of \<open>n\<close> as the code builds it: the setup stage, the data stage in packets of \<open>mps\<close> bytes
  with alternating toggle from \<open>DATA1\<close> on, the status stage, which interrupts and ends the list. The
  macro for the length keeps six bits: the length field of a packet is \<open>(mps - 1) mod 64\<close>, that of the
  status stage 63 (64 bytes) where the code passes the null packet, 0x7ff.
\<close>

definition control_td ::
  "bool \<Rightarrow> u8 \<Rightarrow> nat \<Rightarrow> u32 \<Rightarrow> u32 \<Rightarrow> u32 \<Rightarrow> nat \<Rightarrow> u8 \<Rightarrow> u8 \<Rightarrow> nat \<Rightarrow> u32 list" where
  "control_td low addr mps dr buf tds n pid_data pid_status i =
     (if i = 0 then [td_at tds 1 + 4, td_ctrl low False, td_tok 0x2d addr False 7, dr, 1]
      else if i = n - 1 then [1, td_ctrl low True, td_tok pid_status addr True 63, 0, of_nat n]
      else [td_at tds (i + 1) + 4, td_ctrl low False, td_tok pid_data addr (odd i) ((mps - 1) mod 64),
            buf + of_nat ((i - 1) * mps), of_nat i])"

lemma td_status_ctrl:
  "td_status dev s OR UHCI_TD_STATUS_ACTIVE = td_ctrl (ld8 dev s \<noteq> 0) False"
  "td_status dev s OR UHCI_TD_IOC OR UHCI_TD_STATUS_ACTIVE = td_ctrl (ld8 dev s \<noteq> 0) True"
  by (simp_all add: td_status_def td_ctrl_def uhci_macros usb_low_speed_def push_bit_eq_mult)

lemma max_len:
  assumes "0 < k"
  shows "UHCI_TD_MAX_LEN (of_nat k - 1) = push_bit 21 (of_nat ((k - 1) mod 64))"
proof -
  have "(of_nat k - 1 :: u32) = of_nat (k - 1)" using assms by (simp add: of_nat_diff)
  moreover have "(of_nat (k - 1) :: u32) AND mask 6 = of_nat ((k - 1) mod 64)"
    by (simp add: word_unat_eq_iff unat_and_mask_mod unat_of_nat mod_mod_cancel)
  ultimately show ?thesis by (simp add: UHCI_TD_MAX_LEN_def mask_eq_exp_minus_1)
qed

lemma tok_words:
  "UHCI_TD_MAX_LEN (sizeof_device_request - 1) OR UHCI_TD_DEV_ADDR addr OR ucast UHCI_TD_PID_SETUP = td_tok 0x2d addr False 7"
  "UHCI_TD_MAX_LEN 0x7ff OR UHCI_TD_DATA_TOGGLE OR UHCI_TD_DEV_ADDR addr OR ucast pid = td_tok pid addr True 63"
  "0 < k \<Longrightarrow> UHCI_TD_MAX_LEN (of_nat k - 1) OR UHCI_TD_DEV_ADDR addr OR ucast pid = td_tok pid addr False ((k - 1) mod 64)"
  "td_tok pid addr False m OR UHCI_TD_DATA_TOGGLE = td_tok pid addr True m"
proof -
  have l: "UHCI_TD_MAX_LEN (sizeof_device_request - 1) = push_bit 21 (of_nat 7)"
    "UHCI_TD_MAX_LEN 0x7ff = push_bit 21 (of_nat 63)"
    by (simp_all add: UHCI_TD_MAX_LEN_def sizeof_device_request_def)
  have t: "UHCI_TD_DATA_TOGGLE = 0x80000"
    by (simp add: UHCI_TD_DATA_TOGGLE_def push_bit_eq_mult)
  note defs = td_tok_def UHCI_TD_DEV_ADDR_def UHCI_TD_PID_SETUP_def if_True if_False or.right_neutral or.left_neutral l t max_len
  show "UHCI_TD_MAX_LEN (sizeof_device_request - 1) OR UHCI_TD_DEV_ADDR addr OR ucast UHCI_TD_PID_SETUP = td_tok 0x2d addr False 7"
    "UHCI_TD_MAX_LEN 0x7ff OR UHCI_TD_DATA_TOGGLE OR UHCI_TD_DEV_ADDR addr OR ucast pid = td_tok pid addr True 63"
    "td_tok pid addr False m OR UHCI_TD_DATA_TOGGLE = td_tok pid addr True m"
    by (simp_all only: defs or.assoc or.commute or.left_commute)
  show "UHCI_TD_MAX_LEN (of_nat k - 1) OR UHCI_TD_DEV_ADDR addr OR ucast pid = td_tok pid addr False ((k - 1) mod 64)" if "0 < k"
    by (simp only: defs that or.assoc or.commute or.left_commute)
qed

text \<open>One descriptor of the data stage. The device structure lies outside of the array.\<close>

definition dev_off :: "u32 \<Rightarrow> nat set \<Rightarrow> bool" where
  "dev_off dev S \<longleftrightarrow> unat dev \<notin> S \<and> unat (usb_addr dev) \<notin> S"

lemma dev_off_same:
  assumes "dev_off dev S" and "writes_in S s s'"
  shows "ld8 dev s' = ld8 dev s" and "ld8 (usb_addr dev) s' = ld8 (usb_addr dev) s"
  using assms load8_same [OF writes_in_same [OF assms(2)]] by (auto simp: dev_off_def)

lemma writes_in_mono: "writes_in S s s' \<Longrightarrow> S \<subseteq> T \<Longrightarrow> writes_in T s s'"
  unfolding writes_in_def by (blast intro: same_on_mono)

lemma data_td_wrote:
  assumes arr: "unat tds + 32 * n \<le> 4294967296" "tds \<noteq> 0" "16 dvd unat tds" and i: "i + 2 < n" and k: "0 < k"
    and off: "dev_off dev (td_array tds n)"
  shows "\<exists>s'. data_td tds dev (of_nat k) ds i (tg, buf, s) = (\<not> tg, buf + of_nat k, s') \<and>
    wrote (td_at tds (i + 1)) [td_at tds (i + 2) + 4, td_ctrl (ld8 dev s \<noteq> 0) False,
      td_tok ds (ld8 (usb_addr dev) s) tg ((k - 1) mod 64), buf, of_nat (i + 1)] s s'"
proof -
  let ?td = "td_at tds (i + 1)"
  have ok: "span_ok 20 ?td" and sub: "td_span ?td \<subseteq> td_array tds n"
    using td_at_facts [OF arr(1,2), of "i + 1"] i by auto
  have off': "dev_off dev (td_span ?td)" using off sub by (auto simp: dev_off_def)
  define s1 where "s1 = st32 (td_link_ptr ?td) (td_at tds (i + 2) + 4) s"
  define s2 where "s2 = st32 (td_ctrl_status ?td) (td_ctrl (ld8 dev s \<noteq> 0) False) s1"
  have w1: "writes_in (td_span ?td) s s1" unfolding s1_def by (rule td_stores [OF ok])
  have w2: "writes_in (td_span ?td) s s2"
    unfolding s2_def by (rule writes_in_trans [OF w1 td_stores(2) [OF ok]])
  note d1 = dev_off_same [OF off' w1] and d2 = dev_off_same [OF off' w2]
  define s5 where "s5 = st32 (td_swdata0 ?td) (of_nat (i + 1)) (st32 (td_buffer_ptr ?td) buf
    (st32 (td_token ?td) (td_tok ds (ld8 (usb_addr dev) s) False ((k - 1) mod 64)) s2))"
  have w5: "wrote ?td [td_at tds (i + 2) + 4, td_ctrl (ld8 dev s \<noteq> 0) False,
      td_tok ds (ld8 (usb_addr dev) s) False ((k - 1) mod 64), buf, of_nat (i + 1)] s s5"
    unfolding s5_def s2_def s1_def by (rule wrote_five [OF ok])
  have lnk: "UHCI_TD_LPTR_PTR (td_at tds (i + 2)) OR UHCI_TD_LPTR_DEPTH = td_at tds (i + 2) + 4"
    by (rule link_to_td(1) [OF arr(1,3) i])
  have id: "of_nat i + 1 = (of_nat (i + 1) :: u32)" by (simp add: add.commute)
  have run: "data_td tds dev (of_nat k) ds i (tg, buf, s) = (\<not> tg, buf + of_nat k,
      if tg then st32 (td_token ?td) (ld32 (td_token ?td) s5 OR UHCI_TD_DATA_TOGGLE) s5 else s5)"
    unfolding data_td_def Let_def prod.case lnk s1_def [symmetric] td_status_ctrl d1 s2_def [symmetric] d2
      tok_words(3) [OF k] id s5_def by (rule refl)
  show ?thesis
  proof (cases tg)
    case True
    show ?thesis
      using run True wrote_token [OF ok w5] by (simp only: if_True wrote_words [OF w5] tok_words(4)) blast
  next
    case False
    then show ?thesis using run w5 by auto
  qed
qed

text \<open>The whole data stage.\<close>

lemma data_tds:
  assumes arr: "unat tds + 32 * n \<le> 4294967296" "tds \<noteq> 0" "16 dvd unat tds" and k: "0 < k"
    and off: "dev_off dev (td_array tds n)"
  shows "j + 2 \<le> n \<Longrightarrow> \<exists>s'. fold (data_td tds dev (of_nat k) ds) [0..<j] (True, buf, s) =
      (even j, buf + of_nat (j * k), s') \<and> writes_in (td_array tds n - td_span (td_at tds 0)) s s' \<and>
    (\<forall>i. 0 < i \<and> i \<le> j \<longrightarrow> td_words (mem s') (td_at tds i) =
      [td_at tds (i + 1) + 4, td_ctrl (ld8 dev s \<noteq> 0) False,
       td_tok ds (ld8 (usb_addr dev) s) (odd i) ((k - 1) mod 64), buf + of_nat ((i - 1) * k), of_nat i])"
proof (induction j)
  case 0
  show ?case by (intro exI [of _ s]) simp
next
  case (Suc j)
  then obtain s1 where s1: "fold (data_td tds dev (of_nat k) ds) [0..<j] (True, buf, s) = (even j, buf + of_nat (j * k), s1)"
    "writes_in (td_array tds n - td_span (td_at tds 0)) s s1"
    "\<And>i. 0 < i \<Longrightarrow> i \<le> j \<Longrightarrow> td_words (mem s1) (td_at tds i) =
      [td_at tds (i + 1) + 4, td_ctrl (ld8 dev s \<noteq> 0) False,
       td_tok ds (ld8 (usb_addr dev) s) (odd i) ((k - 1) mod 64), buf + of_nat ((i - 1) * k), of_nat i]"
    by auto
  have off1: "dev_off dev (td_array tds n - td_span (td_at tds 0))" using off by (auto simp: dev_off_def)
  note d = dev_off_same [OF off1 s1(2)]
  have jn: "j + 2 < n" using Suc.prems by simp
  obtain s2 where s2: "data_td tds dev (of_nat k) ds j (even j, buf + of_nat (j * k), s1) =
      (\<not> even j, buf + of_nat (j * k) + of_nat k, s2)"
    and w: "wrote (td_at tds (j + 1)) [td_at tds (j + 2) + 4, td_ctrl (ld8 dev s \<noteq> 0) False,
      td_tok ds (ld8 (usb_addr dev) s) (even j) ((k - 1) mod 64), buf + of_nat (j * k), of_nat (j + 1)] s1 s2"
    using data_td_wrote [OF arr jn k off, of ds "even j" "buf + of_nat (j * k)" s1] unfolding d by blast
  have run: "fold (data_td tds dev (of_nat k) ds) [0..<Suc j] (True, buf, s) =
      (even (Suc j), buf + of_nat (Suc j * k), s2)"
    using s1(1) s2 by (simp add: algebra_simps)
  have w12: "writes_in (td_span (td_at tds (j + 1))) s1 s2" using w by (simp add: wrote_def)
  have "td_span (td_at tds (j + 1)) \<subseteq> td_array tds n - td_span (td_at tds 0)"
    using td_at_facts(2) [OF arr(1,2), of "j + 1"] td_at_apart [OF arr(1), of "j + 1" 0] jn by auto
  then have w2: "writes_in (td_array tds n - td_span (td_at tds 0)) s s2"
    by (rule writes_in_trans [OF s1(2) writes_in_mono [OF w12]])
  have "td_words (mem s2) (td_at tds i) =
      [td_at tds (i + 1) + 4, td_ctrl (ld8 dev s \<noteq> 0) False,
       td_tok ds (ld8 (usb_addr dev) s) (odd i) ((k - 1) mod 64), buf + of_nat ((i - 1) * k), of_nat i]"
    if i: "0 < i" "i \<le> Suc j" for i
  proof (cases "i = j + 1")
    case True
    then show ?thesis using w by (simp add: wrote_def)
  next
    case False
    have "td_words (mem s2) (td_at tds i) = td_words (mem s1) (td_at tds i)"
      using td_at_apart [OF arr(1), of i "j + 1"] td_at_facts(1) [OF arr(1,2), of i] False i jn
      by (intro td_words_same [OF writes_in_same [OF w12]]) auto
    then show ?thesis using s1(3) [of i] i False by simp
  qed
  with run w2 show ?case by blast
qed

text \<open>Setup, data and status stage, on an array that has been allocated.\<close>

definition fill_tds :: "u32 \<Rightarrow> u8 \<Rightarrow> u8 \<Rightarrow> nat \<Rightarrow> nat \<Rightarrow> u32 \<Rightarrow> u32 \<Rightarrow> u32 \<Rightarrow> 'a heap_state_scheme \<Rightarrow> 'a heap_state_scheme" where
  "fill_tds dev data_stage status_stage mps td_cnt buf dr out_td s =
    (let s = st32 (td_link_ptr out_td) (UHCI_TD_LPTR_PTR (td_at out_td 1) OR UHCI_TD_LPTR_DEPTH) s;
         s = st32 (td_ctrl_status out_td) (td_status dev s OR UHCI_TD_STATUS_ACTIVE) s;
         s = st32 (td_token out_td) (UHCI_TD_MAX_LEN (sizeof_device_request - 1) OR
               UHCI_TD_DEV_ADDR (ld8 (usb_addr dev) s) OR ucast UHCI_TD_PID_SETUP) s;
         s = st32 (td_buffer_ptr out_td) dr s;
         s = st32 (td_swdata0 out_td) 1 s;
         (_, _, s) = fold (data_td out_td dev (of_nat mps) data_stage) [0..<td_cnt - 2] (True, buf, s);
         last = td_at out_td (td_cnt - 1);
         s = st32 (td_link_ptr last) UHCI_TD_LPTR_TERM s;
         s = st32 (td_ctrl_status last) (td_status dev s OR UHCI_TD_IOC OR UHCI_TD_STATUS_ACTIVE) s;
         s = st32 (td_token last) (UHCI_TD_MAX_LEN 0x7ff OR UHCI_TD_DATA_TOGGLE OR
               UHCI_TD_DEV_ADDR (ld8 (usb_addr dev) s) OR ucast status_stage) s;
         s = st32 (td_buffer_ptr last) 0 s
     in st32 (td_swdata0 last) (of_nat td_cnt) s)"

text \<open>A descriptor outside of the data stage, written in the order of the code.\<close>

lemma outer_td:
  assumes ok: "span_ok 20 td" and off: "dev_off dev (td_span td)"
    and b: "\<And>t. ld8 dev t = ld8 dev s \<Longrightarrow> b t = bw"
    and c: "\<And>t. ld8 (usb_addr dev) t = ld8 (usb_addr dev) s \<Longrightarrow> c t = cw"
  shows "wrote td [a, bw, cw, d, e] s
    (let s = st32 (td_link_ptr td) a s; s = st32 (td_ctrl_status td) (b s) s; s = st32 (td_token td) (c s) s;
         s = st32 (td_buffer_ptr td) d s in st32 (td_swdata0 td) e s)"
proof -
  let ?s1 = "st32 (td_link_ptr td) a s"
  have w1: "writes_in (td_span td) s ?s1" by (rule td_stores [OF ok])
  have b1: "b ?s1 = bw" by (rule b) (rule dev_off_same [OF off w1])
  have w2: "writes_in (td_span td) s (st32 (td_ctrl_status td) bw ?s1)"
    by (rule writes_in_trans [OF w1 td_stores(2) [OF ok]])
  have c1: "c (st32 (td_ctrl_status td) bw ?s1) = cw" by (rule c) (rule dev_off_same [OF off w2])
  show ?thesis
    unfolding Let_def b1 c1 by (rule wrote_five [OF ok])
qed

lemma fill_tds_run:
  assumes arr: "unat tds + 32 * n \<le> 4294967296" "tds \<noteq> 0" "16 dvd unat tds" and n: "2 \<le> n" and k: "0 < k"
    and off: "dev_off dev (td_array tds n)"
  shows "writes_in (td_array tds n) s (fill_tds dev pid1 pid2 k n buf dr tds s)"
    and "i < n \<Longrightarrow> td_words (mem (fill_tds dev pid1 pid2 k n buf dr tds s)) (td_at tds i) =
      control_td (ld8 dev s \<noteq> 0) (ld8 (usb_addr dev) s) k dr buf tds n pid1 pid2 i"
proof -
  let ?low = "ld8 dev s \<noteq> 0" and ?addr = "ld8 (usb_addr dev) s" and ?last = "td_at tds (n - 1)"
  have z: "td_at tds 0 = tds" by (simp add: td_at_def)
  note facts = td_at_facts [OF arr(1,2)]
  have ok0: "span_ok 20 tds" "td_span tds \<subseteq> td_array tds n" using facts [of 0] n by (simp_all add: z)
  have okl: "span_ok 20 ?last" "td_span ?last \<subseteq> td_array tds n" using facts [of "n - 1"] n by simp_all
  define s1 where "s1 = (let s = st32 (td_link_ptr tds) (td_at tds 1 + 4) s;
      s = st32 (td_ctrl_status tds) (td_status dev s OR UHCI_TD_STATUS_ACTIVE) s;
      s = st32 (td_token tds) (UHCI_TD_MAX_LEN (sizeof_device_request - 1) OR UHCI_TD_DEV_ADDR (ld8 (usb_addr dev) s) OR ucast UHCI_TD_PID_SETUP) s;
      s = st32 (td_buffer_ptr tds) dr s in st32 (td_swdata0 tds) 1 s)"
  have w1: "wrote tds [td_at tds 1 + 4, td_ctrl ?low False, td_tok 0x2d ?addr False 7, dr, 1] s s1"
    unfolding s1_def td_status_ctrl tok_words
    by (rule outer_td [OF ok0(1), where dev = dev]) (use off ok0(2) in \<open>auto simp: dev_off_def\<close>)
  then have "writes_in (td_span tds) s s1" by (simp add: wrote_def)
  then have f1: "writes_in (td_array tds n) s s1" by (rule writes_in_mono [OF _ ok0(2)])
  note d1 = dev_off_same [OF off f1]
  have n2: "n - 2 + 2 \<le> n" using n by simp
  obtain s2 where s2: "fold (data_td tds dev (of_nat k) pid1) [0..<n - 2] (True, buf, s1) =
      (even (n - 2), buf + of_nat ((n - 2) * k), s2)"
    and f2: "writes_in (td_array tds n - td_span tds) s1 s2"
    and w2: "\<And>i. 0 < i \<Longrightarrow> i \<le> n - 2 \<Longrightarrow> td_words (mem s2) (td_at tds i) =
      [td_at tds (i + 1) + 4, td_ctrl ?low False, td_tok pid1 ?addr (odd i) ((k - 1) mod 64), buf + of_nat ((i - 1) * k), of_nat i]"
    using data_tds [OF arr k off n2, of pid1 buf s1] unfolding d1 z by blast
  have f12: "writes_in (td_array tds n) s s2"
    by (rule writes_in_trans [OF f1 writes_in_mono [OF f2]]) blast
  note d2 = dev_off_same [OF off f12]
  define s3 where "s3 = (let s = st32 (td_link_ptr ?last) UHCI_TD_LPTR_TERM s2;
      s = st32 (td_ctrl_status ?last) (td_status dev s OR UHCI_TD_IOC OR UHCI_TD_STATUS_ACTIVE) s;
      s = st32 (td_token ?last) (UHCI_TD_MAX_LEN 0x7ff OR UHCI_TD_DATA_TOGGLE OR UHCI_TD_DEV_ADDR (ld8 (usb_addr dev) s) OR ucast pid2) s;
      s = st32 (td_buffer_ptr ?last) 0 s in st32 (td_swdata0 ?last) (of_nat n) s)"
  have w3: "wrote ?last [1, td_ctrl ?low True, td_tok pid2 ?addr True 63, 0, of_nat n] s2 s3"
    unfolding s3_def td_status_ctrl tok_words UHCI_TD_LPTR_TERM_def
    by (rule outer_td [OF okl(1), where dev = dev]) (use off okl(2) d2 in \<open>auto simp: dev_off_def\<close>)
  have lnk: "UHCI_TD_LPTR_PTR (td_at tds 1) OR UHCI_TD_LPTR_DEPTH = td_at tds 1 + 4"
    using link_to_td(1) [OF arr(1,3), of 1] n by simp
  have run: "fill_tds dev pid1 pid2 k n buf dr tds s = s3"
    unfolding fill_tds_def lnk s3_def s1_def Let_def
    using s2 [unfolded s1_def Let_def] by (simp only: prod.case)
  have f3: "writes_in (td_span ?last) s2 s3" using w3 by (simp add: wrote_def)
  show "writes_in (td_array tds n) s (fill_tds dev pid1 pid2 k n buf dr tds s)"
    unfolding run by (rule writes_in_trans [OF f12 writes_in_mono [OF f3 okl(2)]])
  assume i: "i < n"
  have keep: "td_words (mem s3) (td_at tds i) = td_words (mem s2) (td_at tds i)" if "i \<noteq> n - 1"
    using td_at_apart [OF arr(1) i, of "n - 1"] facts(1) [OF i] that n
    by (intro td_words_same [OF writes_in_same [OF f3]]) auto
  have first: "td_words (mem s2) tds = td_words (mem s1) tds"
    by (rule td_words_same [OF writes_in_same [OF f2] _ ok0(1)]) blast
  consider "i = 0" "i \<noteq> n - 1" | "i = n - 1" "i \<noteq> 0" | "i \<noteq> 0" "i \<noteq> n - 1" "0 < i" "i \<le> n - 2"
    using i n by linarith
  then show "td_words (mem (fill_tds dev pid1 pid2 k n buf dr tds s)) (td_at tds i) =
      control_td ?low ?addr k dr buf tds n pid1 pid2 i"
    unfolding run
  proof cases
    case 1
    then show "td_words (mem s3) (td_at tds i) = control_td ?low ?addr k dr buf tds n pid1 pid2 i"
      using keep first w1 by (simp add: control_td_def z wrote_def)
  next
    case 2
    then show "td_words (mem s3) (td_at tds i) = control_td ?low ?addr k dr buf tds n pid1 pid2 i"
      using w3 by (simp add: control_td_def wrote_def)
  next
    case 3
    then show "td_words (mem s3) (td_at tds i) = control_td ?low ?addr k dr buf tds n pid1 pid2 i"
      using keep w2 [OF 3(3,4)] by (simp add: control_td_def)
  qed
qed

text \<open>The device request.\<close>

definition request_words :: "mem \<Rightarrow> u32 \<Rightarrow> u8 \<times> u8 \<times> u16 \<times> u16 \<times> u16" where
  "request_words m dr = (load8 m (dr_request_type dr), load8 m (dr_request dr), load16 m (dr_value dr),
     load16 m (dr_index dr), load16 m (dr_length dr))"

definition fill_request :: "u32 \<Rightarrow> u8 \<Rightarrow> u8 \<Rightarrow> u16 \<Rightarrow> u16 \<Rightarrow> u16 \<Rightarrow> 'a machine_scheme \<Rightarrow> 'a machine_scheme" where
  "fill_request dr t r v i l s =
     st16 (dr_length dr) l (st16 (dr_index dr) i (st16 (dr_value dr) v (st8 (dr_request dr) r (st8 (dr_request_type dr) t s))))"

lemma fill_request_words: "request_words (mem (fill_request dr t r v i l s)) dr = (t, r, v, i, l)"
  by (simp add: request_words_def fill_request_def uhci_layout load_store_differ)

lemma fill_request_writes:
  assumes "unat dr + 8 \<le> 4294967296"
  shows "writes_in (span 8 dr) s (fill_request dr t r v i l s)"
proof -
  have u: "unat (dr + 1) = unat dr + 1" "unat (dr + 2) = unat dr + 2" "unat (dr + 4) = unat dr + 4" "unat (dr + 6) = unat dr + 6"
    using assms by (simp_all add: unat_add_u32)
  show ?thesis
    unfolding fill_request_def uhci_layout
    by (rule writes_in_trans, rule writes_in_trans, rule writes_in_trans, rule writes_in_trans;
        rule writes_in_st; use assms in \<open>simp add: u span_def\<close>)
qed

lemma request_words_same:
  assumes "same_on m m' S" and "span 8 dr \<subseteq> S" and "unat dr + 8 \<le> 4294967296"
  shows "request_words m' dr = request_words m dr"
proof -
  have u: "unat (dr + 1) = unat dr + 1" "unat (dr + 2) = unat dr + 2" "unat (dr + 4) = unat dr + 4" "unat (dr + 6) = unat dr + 6"
    using assms by (simp_all add: unat_add_u32)
  have "load8 m' p = load8 m p" if "unat p = unat dr + k" "k < 8" for p k
    by (rule load8_same [OF assms(1)]) (use assms(2) that in \<open>auto simp: span_def\<close>)
  moreover have "load16 m' p = load16 m p" if "unat p = unat dr + k" "k + 2 \<le> 8" for p k
    by (rule load16_same [OF assms(1)]) (use assms(2,3) that in \<open>auto simp: span_def\<close>)
  ultimately show ?thesis
    using u by (simp add: request_words_def uhci_layout)
qed

lemma create_td_eq:
  "uhci_create_td_control dev t r v i l pid1 pid2 buf s = do {
     let k = max 8 (unat (ld8 (usb_max_packet_size dev) s));
     let n = 2 + (unat l + k - 1) div k;
     (dr, s) \<leftarrow> memalloc sizeof_device_request s;
     let s = fill_request dr t r v i l s;
     (tds, s) \<leftarrow> memalloc_aligned (sizeof_td * of_nat n) 16 s;
     Some (of_nat n, tds, fill_tds dev pid1 pid2 k n buf dr tds s)
   }"
proof -
  have "(if x < 8 then 8 else x) = max 8 x" for x :: nat by auto
  then show ?thesis
    unfolding uhci_create_td_control_def fill_request_def fill_tds_def Let_def
    by (simp add: split_def)
qed


section \<open>The heap around it\<close>

text \<open>What the caller of an allocation may rely on, and rely on after writing into the block.\<close>

lemma block_writes:
  assumes inv: "heap_inv lo hi s (L(p \<mapsto> (a, e)))" and "unat p + n \<le> e"
    and w: "writes_in (span n p) s s'"
  shows "heap_inv lo hi s' (L(p \<mapsto> (a, e)))" and "unat p + n < 4294967296"
proof -
  have "span n p \<subseteq> payload (L(p \<mapsto> (a, e)))"
    using assms(2) by (auto simp: span_def payload_def)
  then show "heap_inv lo hi s' (L(p \<mapsto> (a, e)))" by (intro writes_keep [OF inv w]) blast
  have "e \<le> hi" using heap_inv_range(2) [OF inv, of p a e] by simp
  moreover have "hi < 4294967296" using inv by (auto simp: heap_inv_def heap_ok_def)
  ultimately show "unat p + n < 4294967296" using assms(2) by simp
qed

lemma unat_td_bytes: "n \<le> 8194 \<Longrightarrow> unat (sizeof_td * of_nat n) = 32 * n"
  using unat_of_nat_u32 [of "32 * n"] by (simp add: sizeof_td_def)

lemma packets_bound:
  assumes "8 \<le> k" shows "2 + (unat (l :: u16) + k - 1) div k \<le> 8194"
proof -
  have "unat l + k - 1 < 8193 * k" using unat_u16_lt [of l] assms by linarith
  then have "(unat l + k - 1) div k < 8193" by (rule less_mult_imp_div_less)
  then show ?thesis by simp
qed

text \<open>The two blocks of a control transfer: the request and the descriptors.\<close>

lemma request_written:
  assumes inv: "heap_inv lo hi s L" and al: "memalloc_aligned sizeof_device_request 4 s = Some (dr, s1)" "dr \<noteq> 0"
    and s2: "s2 = fill_request dr t r v i l s1"
  obtains a e where "L dr = None" and "heap_inv lo hi s2 (L(dr \<mapsto> (a, e)))" and "unat dr + 8 \<le> e"
    and "span 8 dr \<subseteq> owned (L(dr \<mapsto> (a, e)))" and "unat dr + 8 \<le> 4294967296"
    and "same_on (mem s) (mem s2) (owned L \<union> - {lo..<hi})" and "request_words (mem s2) dr = (t, r, v, i, l)"
    and "heap_state.more s2 = heap_state.more s"
proof -
  obtain a e where G: "L dr = None" "a + 8 \<le> unat dr" "unat dr + unat sizeof_device_request \<le> e" "{a..<e} \<inter> owned L = {}"
    "lo \<le> a" "e \<le> hi" "hi < 4294967296" "heap_inv lo hi s1 (L(dr \<mapsto> (a, e)))"
    "same_on (mem s) (mem s1) (owned L \<union> - {lo..<hi})" "only_heap s s1" "\<forall>k. (4 :: u32) = 2 ^ k \<longrightarrow> unat (4 :: u32) dvd unat dr"
    by (rule granted [OF inv al])
  have room: "unat dr + 8 \<le> e" "unat dr + 8 \<le> 4294967296" using G(3,6,7) by (simp_all add: sizeof_device_request_def)
  have w: "writes_in (span 8 dr) s1 s2" unfolding s2 by (rule fill_request_writes [OF room(2)])
  have drin: "span 8 dr \<subseteq> {a..<e}" using G(2) room(1) by (auto simp: span_def)
  show thesis
  proof (rule that [OF G(1) block_writes(1) [OF G(8) room(1) w] room(1) _ room(2)])
    show "span 8 dr \<subseteq> owned (L(dr \<mapsto> (a, e)))" using drin owned_insert [where L = L and p = dr, OF G(1)] by blast
    show "same_on (mem s) (mem s2) (owned L \<union> - {lo..<hi})"
      by (rule same_on_trans [OF G(9) same_on_mono [OF writes_in_same [OF w]]]) (use drin G(4,5,6) in fastforce)
    show "request_words (mem s2) dr = (t, r, v, i, l)" unfolding s2 by (rule fill_request_words)
    show "heap_state.more s2 = heap_state.more s" using w G(10) by (auto simp: writes_in_def only_heap_def)
  qed
qed

lemma tds_written:
  assumes inv: "heap_inv lo hi s L" and al: "memalloc_aligned (sizeof_td * of_nat n) 16 s = Some (tds, s1)" "tds \<noteq> 0"
    and n: "2 \<le> n" "n \<le> 8194" and k: "8 \<le> k"
    and dev: "{unat dev..<unat dev + 24} \<subseteq> owned L \<union> - {lo..<hi}" "unat dev + 24 \<le> 4294967296"
    and s2: "s2 = fill_tds dev pid1 pid2 k n buf dr tds s1"
  obtains b f where "L tds = None" and "16 dvd unat tds" and "unat tds + 32 * n \<le> 4294967296"
    and "heap_inv lo hi s2 (L(tds \<mapsto> (b, f)))" and "unat tds + 32 * n \<le> f"
    and "\<forall>j < n. td_words (mem s2) (td_at tds j) =
      control_td (ld8 dev s \<noteq> 0) (ld8 (usb_addr dev) s) k dr buf tds n pid1 pid2 j"
    and "same_on (mem s) (mem s2) (owned L \<union> - {lo..<hi})" and "heap_state.more s2 = heap_state.more s"
proof -
  obtain b f where G: "L tds = None" "b + 8 \<le> unat tds" "unat tds + unat (sizeof_td * of_nat n) \<le> f" "{b..<f} \<inter> owned L = {}"
    "lo \<le> b" "f \<le> hi" "hi < 4294967296" "heap_inv lo hi s1 (L(tds \<mapsto> (b, f)))"
    "same_on (mem s) (mem s1) (owned L \<union> - {lo..<hi})" "only_heap s s1" "\<forall>k. (16 :: u32) = 2 ^ k \<longrightarrow> unat (16 :: u32) dvd unat tds"
    by (rule granted [OF inv al])
  have al16: "16 dvd unat tds" using G(11) [THEN spec, of 4] by simp
  have room: "unat tds + 32 * n \<le> f" "unat tds + 32 * n \<le> 4294967296" using G(3,6,7) unat_td_bytes [OF n(2)] by simp_all
  have keep: "owned L \<union> - {lo..<hi} \<subseteq> - td_array tds n"
  proof -
    have "td_array tds n \<subseteq> {b..<f}" using G(2) room(1) by (auto simp: td_array_def)
    moreover have "{b..<f} \<subseteq> {lo..<hi}" using G(5,6) by auto
    ultimately show ?thesis using G(4) by blast
  qed
  have out: "unat dev + j \<in> owned L \<union> - {lo..<hi}" if "j < 24" for j
    using dev(1) that by (simp add: subset_iff)
  have ua: "unat (usb_addr dev) = unat dev + 1" "unat (usb_max_packet_size dev) = unat dev + 9"
    using dev(2) by (simp_all add: uhci_layout unat_add_u32)
  have off: "dev_off dev (td_array tds n)"
    unfolding dev_off_def ua using out [of 0] out [of 1] keep by auto
  have ld: "ld8 dev s1 = ld8 dev s" "ld8 (usb_addr dev) s1 = ld8 (usb_addr dev) s"
    using out [of 0] out [of 1] by (auto intro!: load8_same [OF G(9)] simp: ua)
  note T = fill_tds_run [where ?k = k and s = s1 and ?pid1.0 = pid1 and ?pid2.0 = pid2 and buf = buf and dr = dr,
      OF room(2) al(2) al16 n(1) _ off, folded s2, unfolded ld]
  have w: "writes_in (td_array tds n) s1 s2" using T(1) k by simp
  show thesis
  proof (rule that [OF G(1) al16 room(2) _ room(1)])
    show "heap_inv lo hi s2 (L(tds \<mapsto> (b, f)))"
      by (rule block_writes(1) [OF G(8) room(1)]) (use w in \<open>simp add: td_array_def span_def\<close>)
    show "\<forall>j < n. td_words (mem s2) (td_at tds j) =
      control_td (ld8 dev s \<noteq> 0) (ld8 (usb_addr dev) s) k dr buf tds n pid1 pid2 j"
      using T(2) k by simp
    show "same_on (mem s) (mem s2) (owned L \<union> - {lo..<hi})"
      by (rule same_on_trans [OF G(9) same_on_mono [OF writes_in_same [OF w] keep]])
    show "heap_state.more s2 = heap_state.more s" using w G(10) by (auto simp: writes_in_def only_heap_def)
  qed
qed

lemma create_td_run:
  fixes l :: u16
  assumes inv: "heap_inv lo hi s L"
    and dev: "{unat dev..<unat dev + 24} \<subseteq> owned L \<union> - {lo..<hi}" "unat dev + 24 \<le> 4294967296"
    and k: "k = max 8 (unat (ld8 (usb_max_packet_size dev) s))" and n: "n = 2 + (unat l + k - 1) div k"
  obtains dr tds s' where
    "uhci_create_td_control dev t r v i l pid1 pid2 buf s = Some (of_nat n, tds, s')"
    and "\<exists>s1. memalloc sizeof_device_request s = Some (dr, s1)"
    and "dr \<noteq> 0 \<longrightarrow> tds \<noteq> 0 \<longrightarrow> L dr = None \<and> L tds = None \<and> dr \<noteq> tds \<and> 16 dvd unat tds \<and>
      unat tds + 32 * n \<le> 4294967296 \<and>
      (\<exists>a e b f. heap_inv lo hi s' (L(dr \<mapsto> (a, e), tds \<mapsto> (b, f))) \<and> unat dr + 8 \<le> e \<and> unat tds + 32 * n \<le> f) \<and>
      request_words (mem s') dr = (t, r, v, i, l) \<and>
      (\<forall>j < n. td_words (mem s') (td_at tds j) =
        control_td (ld8 dev s \<noteq> 0) (ld8 (usb_addr dev) s) k dr buf tds n pid1 pid2 j) \<and>
      same_on (mem s) (mem s') (owned L \<union> - {lo..<hi}) \<and> heap_state.more s' = heap_state.more s"
proof -
  note result = that
  have k8: "8 \<le> k" unfolding k by simp
  have nb: "2 \<le> n" "n \<le> 8194" using packets_bound [OF k8, of l] by (simp_all add: n)
  note eq = create_td_eq [of dev t r v i l pid1 pid2 buf s, folded k, unfolded Let_def, folded n, unfolded memalloc_def]
  obtain dr s1 where A: "memalloc_aligned sizeof_device_request 4 s = Some (dr, s1)"
    using heap.alloc_returns [OF inv] by blast
  let ?s2 = "fill_request dr t r v i l s1"
  have returns: thesis if inv': "heap_inv lo hi ?s2 L'" and null: "dr = 0 \<or> memalloc_aligned (sizeof_td * of_nat n) 16 ?s2 = Some (0, u)" for L' u
  proof -
    obtain tds s3 where B: "memalloc_aligned (sizeof_td * of_nat n) 16 ?s2 = Some (tds, s3)"
      using heap.alloc_returns [OF inv'] by blast
    then show thesis using null A by (intro result [of tds _ dr]) (auto simp: eq memalloc_def)
  qed
  show thesis
  proof (cases "dr = 0")
    case True
    have "s1 = s" using heap.alloc_null [OF inv] A True by blast
    have "writes_in (span 8 0) s (fill_request 0 t r v i l s)" by (rule fill_request_writes) simp
    moreover have "16 \<le> lo" using inv by (auto simp: heap_inv_def heap_ok_def)
    ultimately have "heap_inv lo hi ?s2 L"
      unfolding True \<open>s1 = s\<close> by (intro writes_keep [OF inv]) (auto simp: span_def)
    then show thesis using True by (intro returns) auto
  next
    case dr: False
    obtain a e where R: "L dr = None" "heap_inv lo hi ?s2 (L(dr \<mapsto> (a, e)))" "unat dr + 8 \<le> e"
      "span 8 dr \<subseteq> owned (L(dr \<mapsto> (a, e)))" "unat dr + 8 \<le> 4294967296" "same_on (mem s) (mem ?s2) (owned L \<union> - {lo..<hi})"
      "request_words (mem ?s2) dr = (t, r, v, i, l)" "heap_state.more ?s2 = heap_state.more s"
      by (rule request_written [OF inv A dr refl])
    let ?L1 = "L(dr \<mapsto> (a, e))"
    obtain tds s3 where B: "memalloc_aligned (sizeof_td * of_nat n) 16 ?s2 = Some (tds, s3)"
      using heap.alloc_returns [OF R(2)] by blast
    show thesis
    proof (cases "tds = 0")
      case True
      then show thesis using B R(2) by (intro returns) auto
    next
      case tds: False
      let ?s4 = "fill_tds dev pid1 pid2 k n buf dr tds s3"
      have own: "owned L \<subseteq> owned ?L1" using owned_insert [where L = L and p = dr, OF R(1)] by blast
      have dev1: "{unat dev..<unat dev + 24} \<subseteq> owned ?L1 \<union> - {lo..<hi}" using dev(1) own by blast
      have "unat dev + j \<in> owned L \<union> - {lo..<hi}" if "j < 24" for j
        using dev(1) that by (simp add: subset_iff)
      from this [of 0] this [of 1] have ld: "ld8 dev ?s2 = ld8 dev s" "ld8 (usb_addr dev) ?s2 = ld8 (usb_addr dev) s"
        using dev(2) by (auto intro!: load8_same [OF R(6)] simp: uhci_layout unat_add_u32)
      obtain b f where T: "?L1 tds = None" "16 dvd unat tds" "unat tds + 32 * n \<le> 4294967296" "heap_inv lo hi ?s4 (?L1(tds \<mapsto> (b, f)))"
        "unat tds + 32 * n \<le> f" "\<forall>j < n. td_words (mem ?s4) (td_at tds j) =
          control_td (ld8 dev ?s2 \<noteq> 0) (ld8 (usb_addr dev) ?s2) k dr buf tds n pid1 pid2 j"
        "same_on (mem ?s2) (mem ?s4) (owned ?L1 \<union> - {lo..<hi})" "heap_state.more ?s4 = heap_state.more ?s2"
        by (rule tds_written [OF R(2) B tds nb k8 dev1 dev(2) refl])
      have "request_words (mem ?s4) dr = (t, r, v, i, l)"
        using request_words_same [OF T(7) _ R(5)] R(4,7) by (simp add: le_supI1)
      moreover have "same_on (mem s) (mem ?s4) (owned L \<union> - {lo..<hi})"
        by (rule same_on_trans [OF R(6) same_on_mono [OF T(7)]]) (use own in blast)
      moreover have "L tds = None" "dr \<noteq> tds" using T(1) by (auto split: if_splits)
      moreover have "uhci_create_td_control dev t r v i l pid1 pid2 buf s = Some (of_nat n, tds, ?s4)"
        using A B by (simp add: eq)
      moreover have "\<exists>a e b f. heap_inv lo hi ?s4 (L(dr \<mapsto> (a, e), tds \<mapsto> (b, f))) \<and> unat dr + 8 \<le> e \<and> unat tds + 32 * n \<le> f"
        using T(4,5) R(3) by blast
      ultimately show thesis
        using A R(1,8) T(2,3,6,8) ld by (intro result [of tds ?s4 dr]) (simp_all add: memalloc_def)
    qed
  qed
qed

end
