(* ===== verification/UhciQueue.thy ===== *)
theory UhciQueue
  imports UhciTd
begin

text \<open>
  The two lists of the UHCI driver: the descriptors that the controller works through, linked by
  tagged pointers from the queue head on, and the entries of the transfers that the interrupt
  handler waits for. Scheduling appends to both.
\<close>


section \<open>The list the controller sees\<close>

text \<open>A link with the terminate bit ends the list; otherwise it is the address of a descriptor
  with flags in the low four bits.\<close>

fun td_list :: "mem \<Rightarrow> u32 \<Rightarrow> u32 list \<Rightarrow> bool" where
  "td_list m p [] \<longleftrightarrow> p AND UHCI_TD_LPTR_TERM \<noteq> 0"
| "td_list m p (td # tds) \<longleftrightarrow> p AND UHCI_TD_LPTR_TERM = 0 \<and> LINK_PTR_TO_TD p = td \<and>
     td_list m (load32 m (td_link_ptr td)) tds"

lemma td_list_same:
  "td_list m p tds \<Longrightarrow> (\<And>td. td \<in> set tds \<Longrightarrow> load32 m' (td_link_ptr td) = load32 m (td_link_ptr td)) \<Longrightarrow>
    td_list m' p tds"
  by (induction m p tds rule: td_list.induct) auto

lemma td_list_frame:
  assumes "td_list m p tds" and "same_on m m' (\<Union> (td_span ` set tds))" and "\<forall>td \<in> set tds. span_ok 20 td"
  shows "td_list m' p tds"
proof (rule td_list_same [OF assms(1)])
  fix td assume "td \<in> set tds"
  then have "td_words m' td = td_words m td"
    using assms(2,3) by (intro td_words_same) auto
  then show "load32 m' (td_link_ptr td) = load32 m (td_link_ptr td)" by (simp add: td_words_def)
qed

text \<open>The pointer the driver puts into a link: an aligned address without flags.\<close>

lemma flp_ptr:
  assumes "16 dvd unat p"
  shows "UHCI_FLP_PTR p = p" and "LINK_PTR_TO_TD p = p" and "p AND UHCI_TD_LPTR_TERM = 0"
proof -
  note a = aligned_low_bits [OF assms]
  show "UHCI_FLP_PTR p = p" "LINK_PTR_TO_TD p = p" using a by (simp_all add: uhci_macros)
  have "p AND 1 = (p AND 0xf) AND 1" by (simp add: and.assoc)
  then show "p AND UHCI_TD_LPTR_TERM = 0" using a(1) by (simp add: uhci_macros)
qed

text \<open>The descriptors of a control transfer form such a list.\<close>

lemma control_list:
  assumes arr: "unat tds + 32 * n \<le> 4294967296" "16 dvd unat tds" and n: "2 \<le> n"
    and w: "\<forall>j < n. td_words m (td_at tds j) = control_td low addr k dr buf tds n pid1 pid2 j"
  shows "td_list m tds (map (td_at tds) [0..<n])"
proof -
  have lnk: "load32 m (td_link_ptr (td_at tds j)) = (if j = n - 1 then 1 else td_at tds (j + 1) + 4)" if "j < n" for j
    using w that n by (auto simp: td_words_def control_td_def split: if_splits)
  have "td_list m p (map (td_at tds) [i..<n])"
    if "i < n" "LINK_PTR_TO_TD p = td_at tds i" "p AND UHCI_TD_LPTR_TERM = 0" for p i
    using that
  proof (induction "n - i" arbitrary: i p)
    case 0
    then show ?case by simp
  next
    case (Suc d)
    have tail: "td_list m (load32 m (td_link_ptr (td_at tds i))) (map (td_at tds) [Suc i..<n])"
    proof (cases "i = n - 1")
      case True
      then show ?thesis using lnk [OF Suc.prems(1)] n by (simp add: UHCI_TD_LPTR_TERM_def)
    next
      case False
      then have i: "Suc i < n" using Suc.prems(1) by simp
      have "td_list m (td_at tds (i + 1) + 4) (map (td_at tds) [Suc i..<n])"
        using Suc.hyps(2) i link_to_td(2,3) [OF arr, of "i + 1"] by (intro Suc.hyps(1)) simp_all
      then show ?thesis using lnk [OF Suc.prems(1)] False by simp
    qed
    then show ?case using Suc.prems by (simp add: upt_conv_Cons)
  qed
  from this [of 0 tds] show ?thesis
    using flp_ptr [OF arr(2)] n by (simp add: td_at_def)
qed

lemma last_td_run:
  "td_list (mem s) p (tds @ [td]) \<Longrightarrow> \<exists>q. last_td p s = Some q \<and> LINK_PTR_TO_TD q = td"
proof (induction tds arbitrary: p)
  case Nil
  then show ?case by (subst last_td.simps) simp
next
  case (Cons t tds)
  then have "ld32 (td_link_ptr t) s AND UHCI_TD_LPTR_TERM = 0" by (cases tds) auto
  with Cons show ?case by (subst last_td.simps) auto
qed

text \<open>Redirecting the last link appends a list.\<close>

lemma td_list_append:
  assumes "td_list m p (old @ [td])" and "td_list m q new"
    and "load32 m' (td_link_ptr td) = q"
    and "\<And>x. x \<in> set old \<union> set new \<Longrightarrow> load32 m' (td_link_ptr x) = load32 m (td_link_ptr x)"
  shows "td_list m' p (old @ td # new)"
  using assms(1,4)
proof (induction old arbitrary: p)
  case Nil
  have "td_list m' q new" using Nil.prems(2) by (intro td_list_same [OF assms(2)]) auto
  then show ?case using Nil.prems(1) assms(3) by simp
next
  case (Cons x old)
  then show ?case by auto
qed


section \<open>The queue of pending transfers\<close>

lemma unat_te_next: "span_ok 20 e \<Longrightarrow> unat (te_next e) = unat e + 16"
  unfolding span_ok_def te_next_def by (subst unat_add_u32) auto

interpretation pending: links te_next 20 last_pending
  by unfold_locales (simp add: unat_te_next, rule last_pending.simps)

text \<open>What scheduling writes: the successor field of an entry, one link.\<close>

definition link_bytes :: "u32 \<Rightarrow> u32 list \<Rightarrow> u32 list \<Rightarrow> nat set" where
  "link_bytes qh es tds =
     (\<Union>e \<in> set es. span 4 (te_next e)) \<union> (\<Union>td \<in> set tds. span 4 td) \<union> span 4 (qh_qelp qh)"

lemma spans_apart_append:
  "spans_apart sz (xs @ ys) \<longleftrightarrow> spans_apart sz xs \<and> spans_apart sz ys \<and> (\<forall>x \<in> set xs. \<forall>y \<in> set ys. span sz x \<inter> span sz y = {})"
  by (induction xs) auto

lemma qelp_bytes:
  assumes "span_ok 8 qh"
  shows "span 4 (qh_qelp qh) \<subseteq> span 8 qh" and "unat (qh_qelp qh) + 4 \<le> 4294967296"
proof -
  have "unat (qh_qelp qh) = unat qh + 4"
    using assms unfolding qh_qelp_def span_ok_def by (subst unat_add_u32) auto
  then show "span 4 (qh_qelp qh) \<subseteq> span 8 qh" "unat (qh_qelp qh) + 4 \<le> 4294967296"
    using assms by (auto simp: span_def span_ok_def)
qed

lemma store_span:
  assumes "span 4 p \<inter> S = {}" and "unat p + 4 \<le> 4294967296"
  shows "same_on m (store32 m p v) S"
  using assms by (intro same_on_store32) (auto simp: span_def)

lemma te_next_bytes: "span_ok 20 e \<Longrightarrow> span 4 (te_next e) \<subseteq> span 20 e"
  using pending.next_in_span [of e] by (simp add: span_def)

lemma link_in_td: "span 4 td \<subseteq> span 20 td"
  by (auto simp: span_def)

text \<open>First step: the entry goes to the end of the queue.\<close>

definition enqueue :: "u32 \<Rightarrow> 'a uhci_state_scheme \<Rightarrow> 'a uhci_state_scheme option" where
  "enqueue te s = (if pending_queue s \<noteq> 0
     then do { e \<leftarrow> last_pending (pending_queue s) s; Some (st32 (te_next e) te s) }
     else Some (s\<lparr>pending_queue := te\<rparr>))"

lemma pending_queue_st [simp, frame_simps]: "pending_queue (st32 p v s) = pending_queue s"
  by (simp add: st32_def)

lemma enqueue_run:
  assumes q: "linked te_next (mem s) (pending_queue s) es" and te: "ld32 (te_next te) s = 0"
    and apart: "spans_apart 20 (es @ [te])"
  obtains s' where "enqueue te s = Some s'" and "linked te_next (mem s') (pending_queue s') (es @ [te])"
    and "same_on (mem s) (mem s') (- (\<Union>e \<in> set es. span 4 (te_next e)))"
    and "\<exists>m p. s' = s\<lparr>mem := m, pending_queue := p\<rparr>"
proof (cases es rule: rev_cases)
  case Nil
  have te0: "te \<noteq> 0" using apart by (simp add: Nil span_ok_def)
  show thesis
  proof (rule that)
    show "enqueue te s = Some (s\<lparr>pending_queue := te\<rparr>)" using q by (simp add: enqueue_def Nil)
    have "s\<lparr>pending_queue := te\<rparr> = s\<lparr>mem := mem s, pending_queue := te\<rparr>" by simp
    then show "\<exists>m p. s\<lparr>pending_queue := te\<rparr> = s\<lparr>mem := m, pending_queue := p\<rparr>" by blast
  qed (use te te0 in \<open>simp_all add: Nil\<close>)
next
  case (snoc xs e)
  have ok: "span_ok 20 e" using apart spans_apart_ok [of 20 "es @ [te]" e] by (simp add: snoc)
  have nz: "pending_queue s \<noteq> 0" using linked_start [OF q [unfolded snoc]] .
  let ?s = "st32 (te_next e) te s"
  have apart': "spans_apart 20 (xs @ [e])" "span_ok 20 te" "\<forall>x \<in> set (xs @ [e]). span 20 x \<inter> span 20 te = {}"
    using apart by (auto simp: snoc spans_apart_append)
  show thesis
  proof (rule that)
    show "enqueue te s = Some ?s"
      using nz pending.seek_run [OF q [unfolded snoc]] by (simp add: enqueue_def)
    show "linked te_next (mem ?s) (pending_queue ?s) (es @ [te])"
      using pending.append_node [OF q [unfolded snoc] apart'(1) te apart'(2,3)] by (simp add: snoc)
    show "same_on (mem s) (mem ?s) (- (\<Union>e \<in> set es. span 4 (te_next e)))"
      unfolding mem_st by (rule store_span) (use pending.next_in_span(2) [OF ok] in \<open>auto simp: snoc\<close>)
    show "\<exists>m p. ?s = s\<lparr>mem := m, pending_queue := p\<rparr>"
      by (intro exI [of _ "mem ?s"] exI [of _ "pending_queue s"]) (simp add: st32_def)
  qed
qed

lemma td_list_in_frame:
  assumes "td_list (mem s) p tds" and "same_on (mem s) (mem s') (- (\<Union>e \<in> set es. span 4 (te_next e)))"
    and "spans_apart 20 (es @ tds)"
  shows "td_list (mem s') p tds"
proof (rule td_list_frame [OF assms(1)])
  show "\<forall>td \<in> set tds. span_ok 20 td" using assms(3) spans_apart_ok by (auto simp: spans_apart_append)
  have "span 4 (te_next e) \<inter> td_span td = {}" if "e \<in> set es" "td \<in> set tds" for e td
    using that assms(3) te_next_bytes [of e] spans_apart_ok [of 20 es e] by (auto simp: spans_apart_append)
  then show "same_on (mem s) (mem s') (\<Union> (td_span ` set tds))"
    by (intro same_on_mono [OF assms(2)]) blast
qed

text \<open>Second step: the list of the controller is extended, from the queue head or from the last
  descriptor.\<close>

definition hang_on :: "u32 \<Rightarrow> u32 \<Rightarrow> u32 \<Rightarrow> 'a machine_scheme \<Rightarrow> 'a machine_scheme option" where
  "hang_on queue endptr te s =
     (if (endptr AND UHCI_TD_LPTR_TERM) \<noteq> 0
      then Some (st32 (qh_qelp queue) (UHCI_FLP_PTR (ld32 (te_first te) s)) s)
      else do {
        endptr \<leftarrow> last_td endptr s;
        Some (st32 (td_link_ptr (LINK_PTR_TO_TD endptr)) (UHCI_FLP_PTR (ld32 (te_first te) s)) s)
      })"

lemma schedule_eq: "uhci_schedule_queue queue te s = enqueue te s \<bind> hang_on queue (ld32 (qh_qelp queue) s) te"
  unfolding uhci_schedule_queue_def enqueue_def hang_on_def by (simp add: Let_def)

lemma hang_on_run:
  assumes hw: "td_list (mem s) (ld32 (qh_qelp qh) s) old" and new: "td_list (mem s) (ld32 (te_first te) s) new"
    and al: "16 dvd unat (ld32 (te_first te) s)"
    and apart: "spans_apart 20 (old @ new)" and qh: "span_ok 8 qh" "\<forall>x \<in> set (old @ new). span 8 qh \<inter> span 20 x = {}"
  obtains s' where "hang_on qh (ld32 (qh_qelp qh) s) te s = Some s'"
    and "td_list (mem s') (ld32 (qh_qelp qh) s') (old @ new)"
    and "same_on (mem s) (mem s') (- ((\<Union>td \<in> set old. span 4 td) \<union> span 4 (qh_qelp qh)))"
    and "\<exists>m. s' = s\<lparr>mem := m\<rparr>"
proof (cases old rule: rev_cases)
  case Nil
  let ?s = "st32 (qh_qelp qh) (ld32 (te_first te) s) s"
  have f: "same_on (mem s) (mem ?s) (- span 4 (qh_qelp qh))"
    unfolding mem_st by (rule store_span) (use qelp_bytes(2) [OF qh(1)] in auto)
  show thesis
  proof (rule that)
    show "hang_on qh (ld32 (qh_qelp qh) s) te s = Some ?s"
      using hw by (simp add: Nil hang_on_def flp_ptr [OF al])
    have "td_list (mem ?s) (ld32 (te_first te) s) new"
    proof (rule td_list_frame [OF new])
      show "same_on (mem s) (mem ?s) (\<Union> (td_span ` set new))"
        by (rule same_on_mono [OF f]) (use qh(2) qelp_bytes(1) [OF qh(1)] in \<open>fastforce simp: Nil\<close>)
      show "\<forall>td \<in> set new. span_ok 20 td" using apart spans_apart_ok by (auto simp: Nil)
    qed
    then show "td_list (mem ?s) (ld32 (qh_qelp qh) ?s) (old @ new)" by (simp add: Nil)
    show "same_on (mem s) (mem ?s) (- ((\<Union>td \<in> set old. span 4 td) \<union> span 4 (qh_qelp qh)))"
      by (rule same_on_mono [OF f]) auto
  qed (auto simp: st32_def)
next
  case (snoc ts td)
  let ?s = "st32 (td_link_ptr td) (ld32 (te_first te) s) s"
  have tm: "ld32 (qh_qelp qh) s AND UHCI_TD_LPTR_TERM = 0"
    using hw by (cases ts) (auto simp: snoc)
  have ok: "span_ok 20 x" if "x \<in> set (old @ new)" for x using apart spans_apart_ok that by blast
  have okt: "unat td + 4 \<le> 4294967296" using ok [of td] by (simp add: snoc span_ok_def)
  have f: "same_on (mem s) (mem ?s) (- span 4 td)"
    unfolding mem_st td_link_ptr_def by (rule store_span) (use okt in auto)
  have other: "load32 (mem ?s) (td_link_ptr x) = load32 (mem s) (td_link_ptr x)" if x: "x \<in> set ts \<union> set new" for x
  proof -
    have "td_span x \<inter> td_span td = {}"
      using apart x by (auto simp: snoc spans_apart_append)
    then have "td_span x \<subseteq> - span 4 td" using link_in_td [of td] by blast
    from td_words_same [OF f this ok] x show ?thesis by (auto simp: snoc td_words_def)
  qed
  have q: "load32 (mem ?s) (qh_qelp qh) = load32 (mem s) (qh_qelp qh)"
  proof (rule load32_same [OF f])
    have "span 4 (qh_qelp qh) \<inter> span 4 td = {}"
      using qh(2) qelp_bytes(1) [OF qh(1)] link_in_td [of td] by (fastforce simp: snoc)
    then show "{unat (qh_qelp qh)..<unat (qh_qelp qh) + 4} \<subseteq> - span 4 td" by (auto simp: span_def)
  qed (rule qelp_bytes(2) [OF qh(1)])
  show thesis
  proof (rule that)
    show "hang_on qh (ld32 (qh_qelp qh) s) te s = Some ?s"
      using last_td_run [OF hw [unfolded snoc]] tm by (auto simp: hang_on_def flp_ptr [OF al])
    show "td_list (mem ?s) (ld32 (qh_qelp qh) ?s) (old @ new)"
      unfolding q using td_list_append [OF hw [unfolded snoc] new _ other] by (simp add: snoc)
    show "same_on (mem s) (mem ?s) (- ((\<Union>td \<in> set old. span 4 td) \<union> span 4 (qh_qelp qh)))"
      by (rule same_on_mono [OF f]) (auto simp: snoc)
  qed (auto simp: st32_def)
qed

lemma te_fields:
  assumes "span_ok 20 e"
  shows "unat (te_last e) = unat e" "unat (te_first e) = unat e + 4" "unat (te_handler e) = unat e + 8"
    "unat (te_userdata e) = unat e + 12"
  using assms unfolding span_ok_def te_last_def te_first_def te_handler_def te_userdata_def by (auto simp: unat_add_u32)

lemma schedule_run:
  assumes q: "linked te_next (mem s) (pending_queue s) es" and te: "ld32 (te_next te) s = 0"
    and hw: "td_list (mem s) (ld32 (qh_qelp qh) s) old" and new: "td_list (mem s) (ld32 (te_first te) s) new"
    and al: "16 dvd unat (ld32 (te_first te) s)"
    and apart: "spans_apart 20 (es @ te # old @ new)"
    and qh: "span_ok 8 qh" "\<forall>x \<in> set (es @ te # old @ new). span 8 qh \<inter> span 20 x = {}"
  obtains s' where "uhci_schedule_queue qh te s = Some s'"
    and "linked te_next (mem s') (pending_queue s') (es @ [te])"
    and "td_list (mem s') (ld32 (qh_qelp qh) s') (old @ new)"
    and "same_on (mem s) (mem s') (- link_bytes qh es old)"
    and "\<exists>m p. s' = s\<lparr>mem := m, pending_queue := p\<rparr>"
proof -
  have parts: "spans_apart 20 (es @ [te])" "spans_apart 20 (es @ old)" "spans_apart 20 (es @ new)" "spans_apart 20 (old @ new)"
    using apart by (auto simp: spans_apart_append)
  have qh': "\<forall>x \<in> set (old @ new). span 8 qh \<inter> span 20 x = {}" using qh(2) by auto
  obtain s1 where s1: "enqueue te s = Some s1" "linked te_next (mem s1) (pending_queue s1) (es @ [te])"
    "same_on (mem s) (mem s1) (- (\<Union>e \<in> set es. span 4 (te_next e)))" "\<exists>m p. s1 = s\<lparr>mem := m, pending_queue := p\<rparr>"
    by (rule enqueue_run [OF q te parts(1)])
  have te_ok: "span_ok 20 te" using parts(1) spans_apart_ok [of 20 "es @ [te]" te] by simp
  have away: "span 20 te \<inter> span 4 (te_next e) = {}" "span 8 qh \<inter> span 4 (te_next e) = {}" if "e \<in> set es" for e
  proof -
    have "span 20 e \<inter> span 20 te = {}" "span 8 qh \<inter> span 20 e = {}" "span_ok 20 e"
      using that parts(1) qh(2) spans_apart_ok [of 20 es e] by (auto simp: spans_apart_append)
    then show "span 20 te \<inter> span 4 (te_next e) = {}" "span 8 qh \<inter> span 4 (te_next e) = {}"
      using te_next_bytes [of e] by blast+
  qed
  have first: "ld32 (te_first te) s1 = ld32 (te_first te) s"
  proof (rule load32_same [OF s1(3)])
    have "{unat (te_first te)..<unat (te_first te) + 4} \<subseteq> span 20 te"
      using te_fields [OF te_ok] by (auto simp: span_def)
    then show "{unat (te_first te)..<unat (te_first te) + 4} \<subseteq> - (\<Union>e \<in> set es. span 4 (te_next e))"
      using away(1) by blast
  qed (use te_fields [OF te_ok] te_ok in \<open>simp add: span_ok_def\<close>)
  have qelp: "ld32 (qh_qelp qh) s1 = ld32 (qh_qelp qh) s"
  proof (rule load32_same [OF s1(3)])
    have "{unat (qh_qelp qh)..<unat (qh_qelp qh) + 4} \<subseteq> span 8 qh"
      using qelp_bytes(1) [OF qh(1)] by (simp add: span_def)
    then show "{unat (qh_qelp qh)..<unat (qh_qelp qh) + 4} \<subseteq> - (\<Union>e \<in> set es. span 4 (te_next e))"
      using away(2) by blast
  qed (rule qelp_bytes(2) [OF qh(1)])
  have hw1: "td_list (mem s1) (ld32 (qh_qelp qh) s1) old"
    unfolding qelp by (rule td_list_in_frame [OF hw s1(3) parts(2)])
  have new1: "td_list (mem s1) (ld32 (te_first te) s1) new"
    unfolding first by (rule td_list_in_frame [OF new s1(3) parts(3)])
  obtain s2 where s2: "hang_on qh (ld32 (qh_qelp qh) s1) te s1 = Some s2"
    "td_list (mem s2) (ld32 (qh_qelp qh) s2) (old @ new)"
    "same_on (mem s1) (mem s2) (- ((\<Union>td \<in> set old. span 4 td) \<union> span 4 (qh_qelp qh)))" "\<exists>m. s2 = s1\<lparr>mem := m\<rparr>"
    by (rule hang_on_run [OF hw1 new1 _ parts(4) qh(1) qh']) (use al first in auto)
  show thesis
  proof (rule that)
    show "uhci_schedule_queue qh te s = Some s2" using s1(1) s2(1) by (simp add: schedule_eq qelp)
    have p: "pending_queue s2 = pending_queue s1" using s2(4) by auto
    show "linked te_next (mem s2) (pending_queue s2) (es @ [te])"
      unfolding p
    proof (rule pending.linked_frame [OF s1(2) parts(1)])
      have "span 20 e \<inter> ((\<Union>td \<in> set old. span 4 td) \<union> span 4 (qh_qelp qh)) = {}" if e: "e \<in> set (es @ [te])" for e
      proof -
        have "span 20 e \<inter> td_span td = {}" if "td \<in> set old" for td
          using apart e that by (cases "e = te") (simp_all add: spans_apart_append)
        then have "span 20 e \<inter> (\<Union>td \<in> set old. span 4 td) = {}" using link_in_td by fast
        moreover have "span 8 qh \<inter> span 20 e = {}" using qh(2) e by auto
        ultimately show ?thesis using qelp_bytes(1) [OF qh(1)] by blast
      qed
      then show "same_on (mem s1) (mem s2) (\<Union> (span 20 ` set (es @ [te])))"
        by (intro same_on_mono [OF s2(3)]) blast
    qed
    show "td_list (mem s2) (ld32 (qh_qelp qh) s2) (old @ new)" by (fact s2(2))
    show "same_on (mem s) (mem s2) (- link_bytes qh es old)"
      by (rule same_on_trans [OF same_on_mono [OF s1(3)] same_on_mono [OF s2(3)]]) (auto simp: link_bytes_def)
    show "\<exists>m p. s2 = s\<lparr>mem := m, pending_queue := p\<rparr>" using s1(4) s2(4)
      by (intro exI [of _ "mem s2"] exI [of _ "pending_queue s2"]) (cases s, auto)
  qed
qed

end
