(* ===== verification/UhciIsr.thy ===== *)
theory UhciIsr
  imports UhciQueue
begin

text \<open>
  The interrupt handler of the UHCI driver: what the completion handler of a transfer prints
  and signals, the scan of the queue of pending transfers, and the acknowledgement.
\<close>


section \<open>Printing with a number buffer\<close>

definition chatter :: "u32 \<Rightarrow> nat set" where
  "chatter buf = text_page \<union> span 64 buf"

definition buffer_ok :: "u32 \<Rightarrow> bool" where
  "buffer_ok buf \<longleftrightarrow> unat buf + 64 \<le> 0xB8000 \<or> 0xB8000 + 8000 \<le> unat buf \<and> unat buf + 64 \<le> 4294967296"

text \<open>\<open>talks buf s s'\<close>: at most the screen, the cursor, the log and the buffer changed.\<close>

definition talks :: "u32 \<Rightarrow> 'a display_state_scheme \<Rightarrow> 'a display_state_scheme \<Rightarrow> bool" where
  "talks buf s s' \<longleftrightarrow> on_screen s' \<and> same_on (mem s) (mem s') (- chatter buf) \<and>
     (\<exists>m l r c. s' = s\<lparr>mem := m, io_log := l, curs_row := r, curs_col := c\<rparr>)"

lemma talks_refl: "on_screen s \<Longrightarrow> talks buf s s"
  unfolding talks_def
  by (intro conjI exI [of _ "mem s"] exI [of _ "io_log s"] exI [of _ "curs_row s"] exI [of _ "curs_col s"]) auto

lemma talks_trans:
  assumes "talks buf s s'" and "talks buf s' s''"
  shows "talks buf s s''"
proof -
  from assms obtain m l r c m' l' r' c' where
    "s' = s\<lparr>mem := m, io_log := l, curs_row := r, curs_col := c\<rparr>" "s'' = s'\<lparr>mem := m', io_log := l', curs_row := r', curs_col := c'\<rparr>"
    unfolding talks_def by blast
  then have "s'' = s\<lparr>mem := m', io_log := l', curs_row := r', curs_col := c'\<rparr>" by simp
  then show ?thesis
    using assms same_on_trans unfolding talks_def by blast
qed

lemma say_talks: "on_screen s \<Longrightarrow> talks buf s (say msg s)"
  using print_chars_safe(1,2) [of s "text_bytes msg"]
  unfolding talks_def display_only_def chatter_def by (auto intro: same_on_mono)

lemma print_once_talks:
  assumes "on_screen s" and "buffer_ok (v_itoa_fixed env)" and "\<bar>val\<bar> \<le> 2 ^ 31" and "2 \<le> base" and "base \<le> 36"
  shows "\<exists>s'. print_once env val base s = Some s' \<and> talks (v_itoa_fixed env) s s'"
proof -
  let ?buf = "v_itoa_fixed env" and ?t = "itoa_text val base"
  let ?s = "s\<lparr>mem := written (mem s) ?buf (?t @ [0])\<rparr>"
  have len: "length ?t \<le> 33" by (rule length_itoa_text(1) [OF assms(4,3)])
  have room: "unat ?buf + length ?t < 4294967296" "off_screen ?buf (length ?t)"
    using assms(2) len by (auto simp: buffer_ok_def intro!: off_screenI)
  have run: "print_once env val base s = Some (print_text ?t ?s)"
    using print_number_run [OF assms(4,5,3,1) room] by (simp add: print_once_def print_number_def itoa_once_def)
  have "same_on (mem s) (mem ?s) (- chatter ?buf)"
    using written_same [of ?buf "?t @ [0]" "mem s"] len room(1)
    by (auto simp: chatter_def span_def intro: same_on_mono)
  moreover have "on_screen ?s" using assms(1) by (simp add: on_screen_def)
  ultimately have "talks ?buf s ?s"
    unfolding talks_def
    by (intro conjI exI [of _ "mem ?s"] exI [of _ "io_log s"] exI [of _ "curs_row s"] exI [of _ "curs_col s"]) simp_all
  moreover have "talks ?buf ?s (print_text ?t ?s)"
    using print_chars_safe(1,2) [OF \<open>on_screen ?s\<close>, of ?t]
    unfolding talks_def display_only_def chatter_def by (auto intro: same_on_mono)
  ultimately show ?thesis using run talks_trans by blast
qed

lemma talks_on_screen: "talks buf s s' \<Longrightarrow> on_screen s'"
  by (simp add: talks_def)

lemma talks_ld:
  assumes "talks buf s s'"
  shows "{unat p..<unat p + 4} \<inter> chatter buf = {} \<Longrightarrow> unat p + 4 \<le> 4294967296 \<Longrightarrow> ld32 p s' = ld32 p s"
    and "unat p \<notin> chatter buf \<Longrightarrow> ld8 p s' = ld8 p s"
proof -
  have f: "same_on (mem s) (mem s') (- chatter buf)" using assms by (simp add: talks_def)
  show "{unat p..<unat p + 4} \<inter> chatter buf = {} \<Longrightarrow> unat p + 4 \<le> 4294967296 \<Longrightarrow> ld32 p s' = ld32 p s"
    by (rule load32_same [OF f]) auto
  show "unat p \<notin> chatter buf \<Longrightarrow> ld8 p s' = ld8 p s"
    by (rule load8_same [OF f]) auto
qed


section \<open>The status of a descriptor\<close>

definition td_error :: "u32 \<Rightarrow> bool" where
  "td_error status \<longleftrightarrow> status AND 0x007e0000 \<noteq> 0"

lemma td_field_bytes:
  assumes "span_ok 20 td"
  shows "{unat (td_ctrl_status td)..<unat (td_ctrl_status td) + 4} \<subseteq> td_span td" "unat (td_ctrl_status td) + 4 \<le> 4294967296"
    "{unat (td_link_ptr td)..<unat (td_link_ptr td) + 4} \<subseteq> td_span td" "unat (td_link_ptr td) + 4 \<le> 4294967296"
  using assms td_field_addr [OF assms] by (auto simp: span_def span_ok_def)

lemma report_talks:
  assumes "ld32 (td_ctrl_status td) s = st" and "on_screen s" and "td_span td \<inter> chatter buf = {}" and "span_ok 20 td"
  obtains s' where "report td flag msg (ok, s) = (ok \<and> st AND flag = 0, s')" and "talks buf s s'"
    and "ld32 (td_ctrl_status td) s' = st"
proof (cases "st AND flag = 0")
  case True
  show thesis by (rule that [of s]) (use assms True in \<open>simp_all add: report_def talks_refl\<close>)
next
  case False
  have c: "{unat (td_ctrl_status td)..<unat (td_ctrl_status td) + 4} \<inter> chatter buf = {}"
    "unat (td_ctrl_status td) + 4 \<le> 4294967296"
    using td_field_bytes [OF assms(4)] assms(3) by blast+
  note t = say_talks [OF assms(2), of buf msg]
  from False show thesis
    using that [of "say msg s"] t talks_ld(1) [OF t c] assms(1) by (simp add: report_def)
qed

lemma and_or_0: "x AND (a OR b) = 0 \<longleftrightarrow> x AND a = 0 \<and> x AND b = (0 :: 'a :: len word)"
  by (simp add: bit.conj_disj_distrib or_eq_0_iff)

lemma error_bits:
  "st AND UHCI_TD_STATUS_STALLED = 0 \<and> st AND UHCI_TD_STATUS_DATA_BUF_ERR = 0 \<and> st AND UHCI_TD_STATUS_BABBLE = 0 \<and>
    st AND UHCI_TD_STATUS_NAK = 0 \<and> st AND UHCI_TD_STATUS_CRC_TO = 0 \<and> st AND UHCI_TD_STATUS_BITSTUFF_ERR = 0 \<longleftrightarrow>
    \<not> td_error st"
proof -
  have e: "0x007e0000 = UHCI_TD_STATUS_STALLED OR (UHCI_TD_STATUS_DATA_BUF_ERR OR (UHCI_TD_STATUS_BABBLE OR
      (UHCI_TD_STATUS_NAK OR (UHCI_TD_STATUS_CRC_TO OR UHCI_TD_STATUS_BITSTUFF_ERR))))"
    by (simp add: uhci_macros push_bit_eq_mult)
  show ?thesis unfolding td_error_def e and_or_0 by blast
qed

lemma small_values:
  "\<bar>uint (drop_bit 27 (x AND push_bit 27 0x3) :: u32)\<bar> \<le> 2 ^ 31" "\<bar>sint (x :: u32)\<bar> \<le> 2 ^ 31"
proof -
  have "unat (drop_bit 27 (x AND push_bit 27 0x3)) \<le> 31"
    using less_mult_imp_div_less [of "unat (x AND push_bit 27 0x3)" 32 "2 ^ 27"] unat_u32_lt [of "x AND push_bit 27 0x3"]
    by (simp only: unat_drop_bit_div) simp
  then have "uint (drop_bit 27 (x AND push_bit 27 0x3)) \<le> 31"
    unfolding uint_nat by linarith
  moreover have "(31 :: int) \<le> 2 ^ 31" by simp
  ultimately show "\<bar>uint (drop_bit 27 (x AND push_bit 27 0x3) :: u32)\<bar> \<le> 2 ^ 31"
    using uint_ge_0 [of "drop_bit 27 (x AND push_bit 27 0x3)"] by linarith
  show "\<bar>sint x\<bar> \<le> 2 ^ 31"
    using sint_ge [of x] sint_lt [of x] by simp
qed

lemma print_td_status_run:
  assumes on: "on_screen s" and buf: "buffer_ok (v_itoa_fixed env)"
    and td: "td_span td \<inter> chatter (v_itoa_fixed env) = {}" "span_ok 20 td"
  shows "\<exists>s'. uhci_print_td_status env td s = Some (\<not> td_error (ld32 (td_ctrl_status td) s), s') \<and>
    talks (v_itoa_fixed env) s s'"
proof -
  let ?b = "v_itoa_fixed env" and ?st = "ld32 (td_ctrl_status td) s"
  define s0 where "s0 = (if (?st AND UHCI_TD_STATUS_ACTIVE) \<noteq> 0 then say ''TD active\<newline>'' s else s)"
  have t0: "talks ?b s s0" using say_talks [OF on] talks_refl [OF on] by (auto simp only: s0_def split: if_split)
  have st0: "ld32 (td_ctrl_status td) s0 = ?st"
    using talks_ld(1) [OF t0] td_field_bytes [OF td(2)] td(1) by blast
  obtain s1 where r1: "report td UHCI_TD_STATUS_STALLED ''TD stalled\<newline>'' (True, s0) = ((True \<and> ?st AND UHCI_TD_STATUS_STALLED = 0), s1)"
    and t1: "talks ?b s0 s1" and st1: "ld32 (td_ctrl_status td) s1 = ?st"
    by (rule report_talks [OF st0 talks_on_screen [OF t0] td])
  obtain s2 where r2: "report td UHCI_TD_STATUS_DATA_BUF_ERR ''TD data buffer error\<newline>'' ((True \<and> ?st AND UHCI_TD_STATUS_STALLED = 0), s1) = (((True \<and> ?st AND UHCI_TD_STATUS_STALLED = 0) \<and> ?st AND UHCI_TD_STATUS_DATA_BUF_ERR = 0), s2)"
    and t2: "talks ?b s1 s2" and st2: "ld32 (td_ctrl_status td) s2 = ?st"
    by (rule report_talks [OF st1 talks_on_screen [OF t1] td])
  obtain s3 where r3: "report td UHCI_TD_STATUS_BABBLE ''TD babble\<newline>'' (((True \<and> ?st AND UHCI_TD_STATUS_STALLED = 0) \<and> ?st AND UHCI_TD_STATUS_DATA_BUF_ERR = 0), s2) = ((((True \<and> ?st AND UHCI_TD_STATUS_STALLED = 0) \<and> ?st AND UHCI_TD_STATUS_DATA_BUF_ERR = 0) \<and> ?st AND UHCI_TD_STATUS_BABBLE = 0), s3)"
    and t3: "talks ?b s2 s3" and st3: "ld32 (td_ctrl_status td) s3 = ?st"
    by (rule report_talks [OF st2 talks_on_screen [OF t2] td])
  obtain s4 where r4: "report td UHCI_TD_STATUS_NAK ''TD nak\<newline>'' ((((True \<and> ?st AND UHCI_TD_STATUS_STALLED = 0) \<and> ?st AND UHCI_TD_STATUS_DATA_BUF_ERR = 0) \<and> ?st AND UHCI_TD_STATUS_BABBLE = 0), s3) = (((((True \<and> ?st AND UHCI_TD_STATUS_STALLED = 0) \<and> ?st AND UHCI_TD_STATUS_DATA_BUF_ERR = 0) \<and> ?st AND UHCI_TD_STATUS_BABBLE = 0) \<and> ?st AND UHCI_TD_STATUS_NAK = 0), s4)"
    and t4: "talks ?b s3 s4" and st4: "ld32 (td_ctrl_status td) s4 = ?st"
    by (rule report_talks [OF st3 talks_on_screen [OF t3] td])
  obtain s5 where r5: "report td UHCI_TD_STATUS_CRC_TO ''TD crc error or timeout\<newline>'' (((((True \<and> ?st AND UHCI_TD_STATUS_STALLED = 0) \<and> ?st AND UHCI_TD_STATUS_DATA_BUF_ERR = 0) \<and> ?st AND UHCI_TD_STATUS_BABBLE = 0) \<and> ?st AND UHCI_TD_STATUS_NAK = 0), s4) = ((((((True \<and> ?st AND UHCI_TD_STATUS_STALLED = 0) \<and> ?st AND UHCI_TD_STATUS_DATA_BUF_ERR = 0) \<and> ?st AND UHCI_TD_STATUS_BABBLE = 0) \<and> ?st AND UHCI_TD_STATUS_NAK = 0) \<and> ?st AND UHCI_TD_STATUS_CRC_TO = 0), s5)"
    and t5: "talks ?b s4 s5" and st5: "ld32 (td_ctrl_status td) s5 = ?st"
    by (rule report_talks [OF st4 talks_on_screen [OF t4] td])
  obtain s6 where r6: "report td UHCI_TD_STATUS_BITSTUFF_ERR ''TD bitstuff error\<newline>'' ((((((True \<and> ?st AND UHCI_TD_STATUS_STALLED = 0) \<and> ?st AND UHCI_TD_STATUS_DATA_BUF_ERR = 0) \<and> ?st AND UHCI_TD_STATUS_BABBLE = 0) \<and> ?st AND UHCI_TD_STATUS_NAK = 0) \<and> ?st AND UHCI_TD_STATUS_CRC_TO = 0), s5) = (((((((True \<and> ?st AND UHCI_TD_STATUS_STALLED = 0) \<and> ?st AND UHCI_TD_STATUS_DATA_BUF_ERR = 0) \<and> ?st AND UHCI_TD_STATUS_BABBLE = 0) \<and> ?st AND UHCI_TD_STATUS_NAK = 0) \<and> ?st AND UHCI_TD_STATUS_CRC_TO = 0) \<and> ?st AND UHCI_TD_STATUS_BITSTUFF_ERR = 0), s6)"
    and t6: "talks ?b s5 s6" and st6: "ld32 (td_ctrl_status td) s6 = ?st"
    by (rule report_talks [OF st5 talks_on_screen [OF t5] td])
  have ok: "((((((True \<and> ?st AND UHCI_TD_STATUS_STALLED = 0) \<and> ?st AND UHCI_TD_STATUS_DATA_BUF_ERR = 0) \<and> ?st AND UHCI_TD_STATUS_BABBLE = 0) \<and> ?st AND UHCI_TD_STATUS_NAK = 0) \<and> ?st AND UHCI_TD_STATUS_CRC_TO = 0) \<and> ?st AND UHCI_TD_STATUS_BITSTUFF_ERR = 0) \<longleftrightarrow> \<not> td_error ?st" using error_bits [of ?st] by blast
  note t = talks_trans [OF talks_trans [OF talks_trans [OF t0 t1] talks_trans [OF t2 t3]] talks_trans [OF talks_trans [OF t4 t5] t6]]
  have run: "uhci_print_td_status env td s =
      (if td_error ?st then do {
         let s = say ''ERR CNT: '' s6;
         s \<leftarrow> print_once env (uint (drop_bit 27 (ld32 (td_ctrl_status td) s AND push_bit 27 0x3))) 10 s;
         let s = say ''\<newline>'' s;
         let s = say ''SWDATA ID: '' s;
         s \<leftarrow> print_once env (sint (ld32 (td_swdata0 td) s)) 10 s;
         let s = say ''\<newline>'' s;
         Some (False, s)
       } else Some (True, s6))"
    unfolding uhci_print_td_status_def Let_def s0_def [symmetric] r1 r2 r3 r4 r5 r6 prod.case ok by simp
  show ?thesis
  proof (cases "td_error ?st")
    case False
    then show ?thesis using run t by auto
  next
    case True
    let ?s7 = "say ''ERR CNT: '' s6"
    have t7: "talks ?b s ?s7" by (rule talks_trans [OF t say_talks [OF talks_on_screen [OF t]]])
    obtain s8 where s8: "print_once env (uint (drop_bit 27 (ld32 (td_ctrl_status td) ?s7 AND push_bit 27 0x3))) 10 ?s7 = Some s8"
      "talks ?b ?s7 s8"
      using print_once_talks [OF talks_on_screen [OF t7] buf small_values(1), of 10] by auto
    let ?s9 = "say ''SWDATA ID: '' (say ''\<newline>'' s8)"
    have t9: "talks ?b s8 ?s9"
      by (rule talks_trans [OF say_talks [OF talks_on_screen [OF s8(2)]] say_talks [OF talks_on_screen [OF say_talks [OF talks_on_screen [OF s8(2)]]]]])
    obtain s10 where s10: "print_once env (sint (ld32 (td_swdata0 td) ?s9)) 10 ?s9 = Some s10" "talks ?b ?s9 s10"
      using print_once_talks [OF talks_on_screen [OF t9] buf small_values(2), of 10] by auto
    have "uhci_print_td_status env td s = Some (False, say ''\<newline>'' s10)"
      using True s8(1) s10(1) by (simp only: run if_True Let_def bind.bind_lunit)
    moreover have "talks ?b s (say ''\<newline>'' s10)"
      using talks_trans [OF t7 s8(2)] talks_trans [OF t9 s10(2)] say_talks [OF talks_on_screen [OF s10(2)]] talks_trans
      by blast
    ultimately show ?thesis using True by simp
  qed
qed


section \<open>The end of a transfer\<close>

text \<open>The descriptors from the first to the last one of a transfer.\<close>

fun td_path :: "mem \<Rightarrow> u32 list \<Rightarrow> bool" where
  "td_path m (td # td' # tds) \<longleftrightarrow> LINK_PTR_TO_TD (load32 m (td_link_ptr td)) = td' \<and> td_path m (td' # tds)"
| "td_path m _ \<longleftrightarrow> True"

lemma td_list_path: "td_list m p tds \<Longrightarrow> td_path m tds"
  by (induction m tds arbitrary: p rule: td_path.induct) auto

lemma td_path_frame:
  assumes "td_path m tds" and "same_on m m' (\<Union> (td_span ` set tds))" and "\<forall>td \<in> set tds. span_ok 20 td"
  shows "td_path m' tds"
  using assms
proof (induction m tds rule: td_path.induct)
  case (1 m td td' tds)
  have "same_on m m' (\<Union> (td_span ` set (td' # tds)))"
    by (rule same_on_mono [OF 1(3)]) auto
  then have "td_path m' (td' # tds)" using 1 by simp
  moreover have "td_words m' td = td_words m td"
    by (rule td_words_same [OF 1(3)]) (use 1(4) in auto)
  ultimately show ?case using 1(2) by (simp add: td_words_def)
qed simp_all

text \<open>A pending transfer in memory: the entry \<open>e\<close>, its descriptors and the flag to set.\<close>

definition transfer :: "uhci_env \<Rightarrow> mem \<Rightarrow> u32 \<Rightarrow> u32 list \<Rightarrow> u32 \<Rightarrow> bool" where
  "transfer env m e tds flag \<longleftrightarrow> tds \<noteq> [] \<and> td_path m tds \<and>
     load32 m (te_first e) = hd tds \<and> load32 m (te_last e) = last tds \<and>
     load32 m (te_handler e) = v_callback env \<and> load32 m (te_userdata e) = flag"

text \<open>The bytes of an entry before its successor field.\<close>

abbreviation entry_span :: "u32 \<Rightarrow> nat set" where
  "entry_span \<equiv> span 16"

lemma entry_in_span: "entry_span e \<subseteq> span 20 e"
  by (auto simp: span_def)

lemma entry_ld:
  assumes "same_on m m' S" and "entry_span e \<subseteq> S" and "span_ok 20 e"
  shows "load32 m' (te_last e) = load32 m (te_last e)" "load32 m' (te_first e) = load32 m (te_first e)"
    "load32 m' (te_handler e) = load32 m (te_handler e)" "load32 m' (te_userdata e) = load32 m (te_userdata e)"
proof -
  have "load32 m' p = load32 m p" if "unat p = unat e + k" "k \<le> 12" for p k
    by (rule load32_same [OF assms(1)]) (use assms(2,3) that in \<open>auto simp: span_def span_ok_def subset_iff\<close>)
  from this [of _ 0] this [of _ 4] this [of _ 8] this [of _ 12] te_fields [OF assms(3)]
  show "load32 m' (te_last e) = load32 m (te_last e)" "load32 m' (te_first e) = load32 m (te_first e)"
    "load32 m' (te_handler e) = load32 m (te_handler e)" "load32 m' (te_userdata e) = load32 m (te_userdata e)"
    by simp_all
qed

lemma transfer_frame:
  assumes "transfer env m e tds flag" and "same_on m m' S" and "entry_span e \<union> \<Union> (td_span ` set tds) \<subseteq> S"
    and "span_ok 20 e" and "\<forall>td \<in> set tds. span_ok 20 td"
  shows "transfer env m' e tds flag"
proof -
  have "td_path m' tds"
    by (rule td_path_frame [OF _ same_on_mono [OF assms(2)] assms(5)]) (use assms(1,3) in \<open>auto simp: transfer_def\<close>)
  moreover have "entry_span e \<subseteq> S" using assms(3) by blast
  ultimately show ?thesis
    using assms(1) entry_ld [OF assms(2) _ assms(4)] by (simp add: transfer_def)
qed

lemma trans_end_run:
  assumes buf: "buffer_ok (v_itoa_fixed env)" and te: "span_ok 20 te" "entry_span te \<inter> chatter (v_itoa_fixed env) = {}"
  shows "on_screen s \<Longrightarrow> tds \<noteq> [] \<Longrightarrow> td_path (mem s) tds \<Longrightarrow> distinct tds \<Longrightarrow> ld32 (te_last te) s = last tds \<Longrightarrow>
    \<forall>td \<in> set tds. span_ok 20 td \<and> td_span td \<inter> chatter (v_itoa_fixed env) = {} \<Longrightarrow>
    \<exists>s'. trans_end_loop env te (hd tds) s = Some s' \<and> talks (v_itoa_fixed env) s s' \<and>
      ((\<forall>td \<in> set (butlast tds). ld32 (td_ctrl_status td) s AND UHCI_TD_STATUS_MASK = 0) \<longrightarrow> s' = s)"
proof (induction tds arbitrary: s)
  case (Cons td tds)
  let ?b = "v_itoa_fixed env"
  note td = Cons.prems(6) [THEN bspec, of td, simplified]
  show ?case
  proof (cases tds)
    case Nil
    then show ?thesis
      using Cons.prems(1,5) talks_refl by (subst trans_end_loop.simps) simp
  next
    case (Cons td' ts)
    have ne: "td \<noteq> ld32 (te_last te) s"
      using Cons.prems(4,5) by (simp add: Cons) (metis last_in_set list.distinct(1))
    have "\<exists>s1. (if (ld32 (td_ctrl_status td) s AND UHCI_TD_STATUS_MASK) \<noteq> 0
          then uhci_print_td_status env td s \<bind> (\<lambda>(_, s). Some s) else Some s) = Some s1 \<and> talks ?b s s1 \<and>
        (ld32 (td_ctrl_status td) s AND UHCI_TD_STATUS_MASK = 0 \<longrightarrow> s1 = s)"
      using print_td_status_run [OF Cons.prems(1) buf, of td] td talks_refl [OF Cons.prems(1)] by auto
    then obtain s1 where s1: "(if (ld32 (td_ctrl_status td) s AND UHCI_TD_STATUS_MASK) \<noteq> 0
          then uhci_print_td_status env td s \<bind> (\<lambda>(_, s). Some s) else Some s) = Some s1" "talks ?b s s1"
        "ld32 (td_ctrl_status td) s AND UHCI_TD_STATUS_MASK = 0 \<longrightarrow> s1 = s" by blast
    have f: "same_on (mem s) (mem s1) (- chatter ?b)" using s1(2) by (simp add: talks_def)
    have p1: "td_path (mem s1) (td # tds)"
      by (rule td_path_frame [OF Cons.prems(3) same_on_mono [OF f]]) (use Cons.prems(6) in auto)
    have te': "entry_span te \<subseteq> - chatter ?b" using te(2) by blast
    have l1: "ld32 (te_last te) s1 = last tds"
      using entry_ld(1) [OF f te' te(1)] Cons.prems(5) by (simp add: Cons)
    have nxt: "LINK_PTR_TO_TD (ld32 (td_link_ptr td) s1) = hd tds" using p1 by (simp add: Cons)
    have "\<exists>s'. trans_end_loop env te (hd tds) s1 = Some s' \<and> talks ?b s1 s' \<and>
      ((\<forall>td \<in> set (butlast tds). ld32 (td_ctrl_status td) s1 AND UHCI_TD_STATUS_MASK = 0) \<longrightarrow> s' = s1)"
      using Cons.prems p1 l1 talks_on_screen [OF s1(2)] by (intro Cons.IH) (simp_all add: Cons)
    then obtain s2 where s2: "trans_end_loop env te (hd tds) s1 = Some s2" "talks ?b s1 s2"
      "(\<forall>td \<in> set (butlast tds). ld32 (td_ctrl_status td) s1 AND UHCI_TD_STATUS_MASK = 0) \<longrightarrow> s2 = s1" by blast
    have "trans_end_loop env te td s = Some s2"
      using ne s1(1) s2(1) by (subst trans_end_loop.simps) (simp only: if_True nxt bind.bind_lunit simp_thms not_False_eq_True)
    then show ?thesis
      using talks_trans [OF s1(2) s2(2)] s1(3) s2(3) by (simp add: Cons)
  qed
qed simp


section \<open>The pending transfers in memory\<close>

text \<open>
  \<open>es\<close> are the entries, \<open>T\<close> gives the descriptors of each and \<open>F\<close> its flag. None of them
  overlap, and none lie where messages are printed.
\<close>

definition pending_layout :: "uhci_env \<Rightarrow> u32 list \<Rightarrow> (u32 \<Rightarrow> u32 list) \<Rightarrow> (u32 \<Rightarrow> u32) \<Rightarrow> bool" where
  "pending_layout env es T F \<longleftrightarrow> buffer_ok (v_itoa_fixed env) \<and> spans_apart 20 (es @ concat (map T es)) \<and>
     (\<forall>x \<in> set (es @ concat (map T es)). span 20 x \<inter> (chatter (v_itoa_fixed env) \<union> (unat \<circ> F) ` set es) = {}) \<and>
     (\<forall>e \<in> set es. unat (F e) \<notin> chatter (v_itoa_fixed env)) \<and> inj_on F (set es)"

text \<open>What the handler may write: messages, the flags of \<open>A\<close>, the successor fields of \<open>Y\<close>.\<close>

definition touched :: "uhci_env \<Rightarrow> (u32 \<Rightarrow> u32) \<Rightarrow> u32 set \<Rightarrow> u32 set \<Rightarrow> nat set" where
  "touched env F A Y = chatter (v_itoa_fixed env) \<union> (unat \<circ> F) ` A \<union> (\<Union>y \<in> Y. span 4 (te_next y))"

lemma spans_apart_distinct: "0 < sz \<Longrightarrow> spans_apart sz xs \<Longrightarrow> distinct xs"
  by (induction xs) (auto simp: span_def span_ok_def)

lemma layout_facts:
  assumes "pending_layout env es T F" and "e \<in> set es"
  shows "span_ok 20 e" "\<forall>td \<in> set (T e). span_ok 20 td" "distinct (T e)"
    "span 20 e \<inter> chatter (v_itoa_fixed env) = {}" "\<forall>td \<in> set (T e). td_span td \<inter> chatter (v_itoa_fixed env) = {}"
proof -
  note L = assms(1) [unfolded pending_layout_def]
  show "span_ok 20 e" "\<forall>td \<in> set (T e). span_ok 20 td"
    using L assms(2) spans_apart_ok [of 20 "es @ concat (map T es)"] by auto
  have "distinct (concat (map T es))"
    using L spans_apart_distinct [of 20 "es @ concat (map T es)"] by auto
  then show "distinct (T e)" using assms(2) by (induction es) auto
  have "span 20 x \<inter> chatter (v_itoa_fixed env) = {}" if "x \<in> set (es @ concat (map T es))" for x
    using L that by blast
  then show "span 20 e \<inter> chatter (v_itoa_fixed env) = {}" "\<forall>td \<in> set (T e). td_span td \<inter> chatter (v_itoa_fixed env) = {}"
    using assms(2) by auto
qed

lemma layout_apart:
  assumes "pending_layout env es T F" and "e \<in> set es" and "y \<in> set es"
  shows "x \<in> set es \<Longrightarrow> x \<noteq> y \<Longrightarrow> span 20 x \<inter> span 4 (te_next y) = {}"
    and "td \<in> set (T e) \<Longrightarrow> td_span td \<inter> span 4 (te_next y) = {}"
    and "entry_span e \<inter> span 4 (te_next y) = {}"
proof -
  note L = assms(1) [unfolded pending_layout_def]
  have ok: "span_ok 20 y" "span_ok 20 e" using layout_facts(1) [OF assms(1)] assms(2,3) by simp_all
  note sub = te_next_bytes [OF ok(1)]
  have "distinct es" using L spans_apart_distinct [of 20 "es @ concat (map T es)"] by auto
  have pair: "span 20 x \<inter> span 20 y = {}" if "x \<in> set es" "x \<noteq> y" for x
  proof -
    have "spans_apart 20 es" using L by (simp add: spans_apart_append)
    then show ?thesis using that assms(3) by (induction es) auto
  qed
  then show "x \<in> set es \<Longrightarrow> x \<noteq> y \<Longrightarrow> span 20 x \<inter> span 4 (te_next y) = {}" using sub by blast
  have "td_span y \<inter> td_span td = {}" if "td \<in> set (T e)" for td
  proof -
    have "\<forall>x \<in> set es. \<forall>d \<in> set (concat (map T es)). span 20 x \<inter> td_span d = {}"
      using L unfolding spans_apart_append by blast
    moreover have "td \<in> set (concat (map T es))" using that assms(2) by auto
    ultimately show ?thesis using assms(3) by blast
  qed
  then show "td \<in> set (T e) \<Longrightarrow> td_span td \<inter> span 4 (te_next y) = {}" using sub by blast
  show "entry_span e \<inter> span 4 (te_next y) = {}"
  proof (cases "e = y")
    case True
    then show ?thesis using unat_te_next [OF ok(1)] by (auto simp: span_def)
  next
    case False
    then show ?thesis using entry_in_span [of e] pair [OF assms(2) False] sub by blast
  qed
qed

text \<open>The transfer has ended: the last descriptor is no longer active.\<close>

definition completed :: "mem \<Rightarrow> u32 \<Rightarrow> bool" where
  "completed m e \<longleftrightarrow> load32 m (td_ctrl_status (load32 m (te_last e))) AND UHCI_TD_STATUS_ACTIVE = 0"

lemma touched_avoids:
  assumes L: "pending_layout env es T F" and "e \<in> set es" and "A \<subseteq> set es" and "Y \<subseteq> set es"
  shows "entry_span e \<union> \<Union> (td_span ` set (T e)) \<subseteq> - touched env F A Y"
    and "e \<notin> Y \<Longrightarrow> span 20 e \<subseteq> - touched env F A Y"
    and "e \<notin> A \<Longrightarrow> unat (F e) \<notin> touched env F A Y"
proof -
  let ?c = "chatter (v_itoa_fixed env)"
  note l = L [unfolded pending_layout_def]
  have flag: "span 20 x \<inter> (?c \<union> (unat \<circ> F) ` A) = {}" if "x \<in> set (es @ concat (map T es))" for x
    using l that assms(3) by blast
  have nx: "span 20 e \<inter> (\<Union>y \<in> Y. span 4 (te_next y)) = {}" if "e \<notin> Y"
    using that layout_apart(1) [OF L assms(2), of _ e] assms(2,4) by blast
  have ny: "entry_span e \<inter> (\<Union>y \<in> Y. span 4 (te_next y)) = {}"
    using layout_apart(3) [OF L assms(2)] assms(4) by blast
  have nt: "td_span td \<inter> (\<Union>y \<in> Y. span 4 (te_next y)) = {}" if "td \<in> set (T e)" for td
    using layout_apart(2) [OF L assms(2)] that assms(4) by blast
  have "entry_span e \<subseteq> - touched env F A Y"
    using flag [of e] entry_in_span [of e] ny assms(2) unfolding touched_def by auto
  moreover have "td_span td \<subseteq> - touched env F A Y" if "td \<in> set (T e)" for td
    using flag [of td] nt [OF that] that assms(2) unfolding touched_def by auto
  ultimately show "entry_span e \<union> \<Union> (td_span ` set (T e)) \<subseteq> - touched env F A Y" by blast
  show "span 20 e \<subseteq> - touched env F A Y" if "e \<notin> Y"
    using flag [of e] nx [OF that] assms(2) unfolding touched_def by auto
  show "unat (F e) \<notin> touched env F A Y" if "e \<notin> A"
  proof -
    have "unat (F e) \<notin> ?c" using l assms(2) by blast
    moreover have "unat (F e) \<noteq> unat (F x)" if "x \<in> A" for x
      using l that assms(2,3) \<open>e \<notin> A\<close> by (metis inj_on_def subset_iff unsigned_word_eqI)
    moreover have "unat (F e) \<notin> span 4 (te_next y)" if "y \<in> Y" for y
    proof -
      have y: "y \<in> set es" using that assms(4) by blast
      have "span 20 y \<inter> (unat \<circ> F) ` set es = {}" using l y by auto
      then show ?thesis using te_next_bytes [OF layout_facts(1) [OF L y]] assms(2) by auto
    qed
    ultimately show ?thesis by (auto simp: touched_def)
  qed
qed


section \<open>The scan\<close>

text \<open>A step of the handler: where it wrote, and that the queue head of the driver is as given.\<close>

definition isr_step ::
  "uhci_env \<Rightarrow> (u32 \<Rightarrow> u32) \<Rightarrow> u32 set \<Rightarrow> u32 set \<Rightarrow> u32 \<Rightarrow> 'a uhci_state_scheme \<Rightarrow> 'a uhci_state_scheme \<Rightarrow> bool" where
  "isr_step env F A Y q s s' \<longleftrightarrow> on_screen s' \<and> same_on (mem s) (mem s') (- touched env F A Y) \<and>
     (\<exists>m l r c. s' = s\<lparr>mem := m, io_log := l, curs_row := r, curs_col := c, pending_queue := q\<rparr>)"

lemma isr_step_trans:
  assumes "isr_step env F A Y q s s'" and "isr_step env F B Z q' s' s''"
  shows "isr_step env F (A \<union> B) (Y \<union> Z) q' s s''"
proof -
  from assms obtain m l r c m' l' r' c' where
    "s' = s\<lparr>mem := m, io_log := l, curs_row := r, curs_col := c, pending_queue := q\<rparr>"
    "s'' = s'\<lparr>mem := m', io_log := l', curs_row := r', curs_col := c', pending_queue := q'\<rparr>"
    unfolding isr_step_def by blast
  then have "s'' = s\<lparr>mem := m', io_log := l', curs_row := r', curs_col := c', pending_queue := q'\<rparr>" by simp
  moreover have "same_on (mem s) (mem s'') (- touched env F (A \<union> B) (Y \<union> Z))"
    by (rule same_on_trans [where m' = "mem s'"]; rule same_on_mono [where S = "- touched env F A Y"] same_on_mono [where S = "- touched env F B Z"])
      (use assms in \<open>auto simp: isr_step_def touched_def\<close>)
  ultimately show ?thesis using assms(2) unfolding isr_step_def by blast
qed

lemma isr_step_simps:
  assumes "isr_step env F A Y q s s'"
  shows "on_screen s'" "pending_queue s' = q" "same_on (mem s) (mem s') (- touched env F A Y)"
  using assms by (auto simp: isr_step_def)

lemma isr_step_refl: "on_screen s \<Longrightarrow> isr_step env F {} {} (pending_queue s) s s"
  unfolding isr_step_def
  by (intro conjI same_on_refl exI [of _ "mem s"] exI [of _ "io_log s"] exI [of _ "curs_row s"] exI [of _ "curs_col s"]) auto

lemma isr_step_mono:
  "isr_step env F A Y q s s' \<Longrightarrow> A \<subseteq> B \<Longrightarrow> Y \<subseteq> Z \<Longrightarrow> isr_step env F B Z q s s'"
  unfolding isr_step_def touched_def by (blast intro: same_on_mono)

lemma callback_run:
  assumes L: "pending_layout env es T F" and e: "e \<in> set es" and t: "transfer env (mem s) e (T e) (F e)" and on: "on_screen s"
  shows "\<exists>s'. uhci_callback_trans_end env e s = Some s' \<and> isr_step env F {e} {} (pending_queue s) s s' \<and> ld8 (F e) s' = 1"
proof -
  let ?b = "v_itoa_fixed env"
  note lf = layout_facts [OF L e]
  have eb: "entry_span e \<inter> chatter ?b = {}" using lf(4) entry_in_span [of e] by blast
  have buf: "buffer_ok ?b" using L by (simp add: pending_layout_def)
  obtain s1 where s1: "trans_end_loop env e (hd (T e)) s = Some s1" "talks ?b s s1"
    using trans_end_run [OF buf lf(1) eb on, of "T e"] t lf(2,3,5) by (auto simp: transfer_def)
  have f: "same_on (mem s) (mem s1) (- chatter ?b)" using s1(2) by (simp add: talks_def)
  have u: "ld32 (te_userdata e) s1 = F e" "ld32 (te_first e) s = hd (T e)"
    using entry_ld(4) [OF f _ lf(1)] eb t by (auto simp: transfer_def)
  let ?s2 = "st8 (F e) 1 s1"
  have run: "uhci_callback_trans_end env e s = Some ?s2"
    by (simp add: uhci_callback_trans_end_def u s1(1))
  from s1(2) obtain m l r c where r: "s1 = s\<lparr>mem := m, io_log := l, curs_row := r, curs_col := c\<rparr>" "on_screen s1"
    by (auto simp: talks_def)
  have "same_on (mem s) (mem ?s2) (- touched env F {e} {})"
    unfolding mem_st
    by (rule same_on_trans [OF same_on_mono [OF f] same_on_store8]) (auto simp: touched_def)
  moreover have "?s2 = s\<lparr>mem := mem ?s2, io_log := l, curs_row := r, curs_col := c, pending_queue := pending_queue s\<rparr>"
    by (simp add: st8_def r(1))
  moreover have "on_screen ?s2" using r(2) by (simp add: on_screen_def st8_def)
  ultimately have "isr_step env F {e} {} (pending_queue s) s ?s2" unfolding isr_step_def by blast
  then show ?thesis using run by simp
qed

lemma step_keeps:
  assumes L: "pending_layout env es T F" and st: "isr_step env F A Y q s s'" and "A \<subseteq> set es" and "Y \<subseteq> set es" and e: "e \<in> set es"
  shows "transfer env (mem s) e (T e) (F e) \<Longrightarrow> transfer env (mem s') e (T e) (F e)"
    and "transfer env (mem s) e (T e) (F e) \<Longrightarrow> completed (mem s') e = completed (mem s) e"
    and "e \<notin> Y \<Longrightarrow> ld32 (te_next e) s' = ld32 (te_next e) s"
    and "e \<notin> A \<Longrightarrow> ld8 (F e) s' = ld8 (F e) s"
proof -
  note av = touched_avoids [OF L e assms(3,4)] and f = isr_step_simps(3) [OF st] and lf = layout_facts [OF L e]
  show tr: "transfer env (mem s) e (T e) (F e) \<Longrightarrow> transfer env (mem s') e (T e) (F e)"
    by (rule transfer_frame [OF _ f av(1) lf(1,2)])
  show "completed (mem s') e = completed (mem s) e" if t: "transfer env (mem s) e (T e) (F e)"
  proof -
    have l: "ld32 (te_last e) s' = last (T e)" "ld32 (te_last e) s = last (T e)" "T e \<noteq> []"
      using t tr [OF t] by (simp_all add: transfer_def)
    then have "td_span (last (T e)) \<subseteq> - touched env F A Y" "span_ok 20 (last (T e))"
      using av(1) lf(2) last_in_set [of "T e"] by blast+
    from td_words_same [OF f this] show ?thesis
      by (simp add: completed_def l td_words_def)
  qed
  show "ld32 (te_next e) s' = ld32 (te_next e) s" if "e \<notin> Y"
    by (rule load32_same [OF f]) (use av(2) [OF that] pending.next_in_span [OF lf(1)] in auto)
  show "ld8 (F e) s' = ld8 (F e) s" if "e \<notin> A"
    by (rule load8_same [OF f]) (use av(3) [OF that] in simp)
qed

text \<open>Taking an entry out of the queue, as the code does it.\<close>

definition unlink_entry :: "u32 \<Rightarrow> u32 \<Rightarrow> 'a uhci_state_scheme \<Rightarrow> 'a uhci_state_scheme" where
  "unlink_entry prev e s = (if prev \<noteq> 0 then st32 (te_next prev) (ld32 (te_next e) s) s else s\<lparr>pending_queue := 0\<rparr>)"

lemma unlink_step:
  assumes L: "pending_layout env es T F" and "on_screen s" and "prev = 0 \<or> prev \<in> set es"
  shows "isr_step env F {} ({prev} - {0}) (if prev = 0 then 0 else pending_queue s) s (unlink_entry prev e s)"
proof (cases "prev = 0")
  case True
  then have eq: "unlink_entry prev e s = s\<lparr>mem := mem s, io_log := io_log s, curs_row := curs_row s, curs_col := curs_col s, pending_queue := 0\<rparr>"
    by (simp add: unlink_entry_def)
  have "on_screen (unlink_entry prev e s)" "same_on (mem s) (mem (unlink_entry prev e s)) S" for S
    using assms(2) True by (simp_all add: unlink_entry_def on_screen_def)
  with eq show ?thesis unfolding isr_step_def if_P [OF True] by blast
next
  case False
  then have "prev \<in> set es" using assms(3) by blast
  note ok = layout_facts(1) [OF L this]
  let ?s = "st32 (te_next prev) (ld32 (te_next e) s) s"
  have "same_on (mem s) (mem ?s) (- touched env F {} {prev})"
    unfolding mem_st by (rule store_span) (use pending.next_in_span(2) [OF ok] in \<open>auto simp: touched_def\<close>)
  moreover have "?s = s\<lparr>mem := mem ?s, io_log := io_log s, curs_row := curs_row s, curs_col := curs_col s, pending_queue := pending_queue s\<rparr>"
    by (simp add: st32_def)
  moreover have "on_screen ?s" using assms(2) by (simp add: on_screen_def st32_def)
  ultimately have "isr_step env F {} {prev} (pending_queue s) s ?s" unfolding isr_step_def by blast
  then show ?thesis using False by (simp add: unlink_entry_def)
qed

text \<open>One round of the loop for an entry that has completed.\<close>

lemma scan_completed:
  assumes L: "pending_layout env es T F" and e: "e \<in> set es" and t: "transfer env (mem s) e (T e) (F e)" and on: "on_screen s"
    and prev: "prev = 0 \<or> prev \<in> set es \<and> prev \<noteq> e" and c: "completed (mem s) e"
  obtains s' where "isr_scan (te_dispatch env) prev e s = isr_scan (te_dispatch env) prev (ld32 (te_next e) s) s'"
    and "isr_step env F {e} ({prev} - {0}) (if prev = 0 then 0 else pending_queue s) s s'"
    and "ld8 (F e) s' = 1" and "prev \<noteq> 0 \<longrightarrow> ld32 (te_next prev) s' = ld32 (te_next e) s"
proof -
  let ?s1 = "unlink_entry prev e s"
  have u: "isr_step env F {} ({prev} - {0}) (if prev = 0 then 0 else pending_queue s) s ?s1"
    by (rule unlink_step [OF L on]) (use prev in blast)
  have ps: "{prev} - {0} \<subseteq> set es" using prev by blast
  note k1 = step_keeps [OF L u _ ps e]
  have t1: "transfer env (mem ?s1) e (T e) (F e)" using k1(1) t by simp
  obtain s2 where s2: "uhci_callback_trans_end env e ?s1 = Some s2" "isr_step env F {e} {} (pending_queue ?s1) ?s1 s2" "ld8 (F e) s2 = 1"
    using callback_run [OF L e t1 isr_step_simps(1) [OF u]] by blast
  have n1: "ld32 (te_next e) ?s1 = ld32 (te_next e) s" using k1(3) prev by auto
  have fields: "e \<noteq> 0" "ld32 (te_last e) s \<noteq> 0" "ld32 (te_handler e) ?s1 = v_callback env"
    using layout_facts(1,2) [OF L e] t t1 last_in_set [of "T e"] by (auto simp: span_ok_def transfer_def)
  have "isr_scan (te_dispatch env) prev e s = isr_scan (te_dispatch env) prev (ld32 (te_next e) s) s2"
    using fields c s2(1) n1
    by (subst isr_scan.simps) (simp add: completed_def unlink_entry_def [symmetric] te_dispatch_def Let_def)
  moreover have "isr_step env F {e} ({prev} - {0}) (if prev = 0 then 0 else pending_queue s) s s2"
    using isr_step_trans [OF u s2(2)] isr_step_simps(2) [OF u] by simp
  moreover have "ld32 (te_next prev) s2 = ld32 (te_next e) s" if "prev \<noteq> 0"
  proof -
    have p: "prev \<in> set es" using prev that by blast
    have "ld32 (te_next prev) s2 = ld32 (te_next prev) ?s1" using step_keeps(3) [OF L s2(2) _ _ p] e by simp
    then show ?thesis using that by (simp add: unlink_entry_def)
  qed
  ultimately show thesis using that s2(3) by blast
qed

lemma scan_active:
  assumes "e \<noteq> 0" and "\<not> completed (mem s) e"
  shows "isr_scan te_call prev e s = isr_scan te_call e (ld32 (te_next e) s) s"
  using assms by (subst isr_scan.simps) (simp add: completed_def)

lemma scan_run:
  assumes L: "pending_layout env E T F"
  shows "set es \<subseteq> set E \<Longrightarrow> distinct es \<Longrightarrow> on_screen s \<Longrightarrow> \<forall>e \<in> set es. transfer env (mem s) e (T e) (F e) \<Longrightarrow>
    linked te_next (mem s) entry es \<Longrightarrow> prev = 0 \<or> prev \<in> set E \<and> prev \<notin> set es \<and> ld32 (te_next prev) s = entry \<Longrightarrow>
    \<exists>s' q. isr_scan (te_dispatch env) prev entry s = Some s' \<and>
      isr_step env F {e \<in> set es. completed (mem s) e} (set es \<union> ({prev} - {0})) q s s' \<and>
      (\<forall>e \<in> set es. completed (mem s) e \<longrightarrow> ld8 (F e) s' = 1) \<and>
      (if prev \<noteq> 0 then q = pending_queue s \<and> linked te_next (mem s') (ld32 (te_next prev) s') (filter (\<lambda>e. \<not> completed (mem s) e) es)
       else if es \<noteq> [] \<and> completed (mem s) (hd es) then q = 0
       else q = pending_queue s \<and> linked te_next (mem s') entry (filter (\<lambda>e. \<not> completed (mem s) e) es))"
proof (induction es arbitrary: prev entry s)
  case Nil
  have z: "entry = 0" using Nil.prems(5) by simp
  have "isr_scan (te_dispatch env) prev entry s = Some s" unfolding z by (subst isr_scan.simps) simp
  moreover have "isr_step env F {} ({prev} - {0}) (pending_queue s) s s"
    by (rule isr_step_mono [OF isr_step_refl [OF Nil.prems(3)]]) auto
  ultimately show ?case
    using Nil.prems(6) z by (intro exI [of _ s] exI [of _ "pending_queue s"]) auto
next
  case (Cons e es)
  have e: "entry = e" "e \<noteq> 0" "linked te_next (mem s) (ld32 (te_next e) s) es" "e \<in> set E" "e \<notin> set es" "set es \<subseteq> set E"
    using Cons.prems(1,2,5) by auto
  have t: "transfer env (mem s) e (T e) (F e)" using Cons.prems(4) by simp
  show ?case
  proof (cases "completed (mem s) e")
    case False
    let ?A = "{x \<in> set es. completed (mem s) x}" and ?keep = "filter (\<lambda>x. \<not> completed (mem s) x) es"
    have "\<exists>s' q. isr_scan (te_dispatch env) e (ld32 (te_next e) s) s = Some s' \<and>
        isr_step env F ?A (set es \<union> ({e} - {0})) q s s' \<and> (\<forall>x \<in> set es. completed (mem s) x \<longrightarrow> ld8 (F x) s' = 1) \<and>
        q = pending_queue s \<and> linked te_next (mem s') (ld32 (te_next e) s') ?keep"
      using Cons.IH [of s "ld32 (te_next e) s" e] Cons.prems(2-4) e by simp
    then obtain s' where s': "isr_scan (te_dispatch env) e (ld32 (te_next e) s) s = Some s'"
      "isr_step env F ?A (set es \<union> ({e} - {0})) (pending_queue s) s s'"
      "\<forall>x \<in> set es. completed (mem s) x \<longrightarrow> ld8 (F x) s' = 1" "linked te_next (mem s') (ld32 (te_next e) s') ?keep"
      by blast
    have "isr_step env F {x \<in> set (e # es). completed (mem s) x} (set (e # es) \<union> ({prev} - {0})) (pending_queue s) s s'"
      by (rule isr_step_mono [OF s'(2)]) auto
    moreover have "ld32 (te_next prev) s' = e" if "prev \<noteq> 0"
    proof -
      have "prev \<in> set E" "prev \<notin> set es \<union> ({e} - {0})" "ld32 (te_next prev) s = e"
        using Cons.prems(6) that e(1) by auto
      then show ?thesis using step_keeps(3) [OF L s'(2), of prev] e(4,6) by auto
    qed
    moreover have "linked te_next (mem s') e (filter (\<lambda>x. \<not> completed (mem s) x) (e # es))"
      using False s'(4) e(2) by simp
    ultimately show ?thesis
      using s'(1,3) False scan_active [OF e(2) False, of "te_dispatch env" prev]
      by (intro exI [of _ s'] exI [of _ "pending_queue s"]) (auto simp: e(1))
  next
    case True
    let ?q = "if prev = 0 then 0 else pending_queue s"
    have pc: "prev = 0 \<or> prev \<in> set E \<and> prev \<noteq> e" using Cons.prems(6) by auto
    obtain s1 where s1: "isr_scan (te_dispatch env) prev e s = isr_scan (te_dispatch env) prev (ld32 (te_next e) s) s1"
      "isr_step env F {e} ({prev} - {0}) ?q s s1" "ld8 (F e) s1 = 1" "prev \<noteq> 0 \<longrightarrow> ld32 (te_next prev) s1 = ld32 (te_next e) s"
      by (rule scan_completed [OF L e(4) t Cons.prems(3) pc True])
    have ps: "{prev} - {0} \<subseteq> set E" using Cons.prems(6) by auto
    have k: "transfer env (mem s1) x (T x) (F x)" "completed (mem s1) x = completed (mem s) x"
      "ld32 (te_next x) s1 = ld32 (te_next x) s" if "x \<in> set es" for x
      using step_keeps [OF L s1(2) _ ps, of x] Cons.prems(4,6) that e(4,6) by auto
    have lk: "linked te_next (mem s1) (ld32 (te_next e) s) es"
      by (rule linked_same [OF e(3)]) (rule k(3))
    have A: "{x \<in> set es. completed (mem s1) x} = {x \<in> set es. completed (mem s) x}" using k(2) by blast
    have fl: "filter (\<lambda>x. \<not> completed (mem s1) x) es = filter (\<lambda>x. \<not> completed (mem s) x) es"
      by (rule filter_cong) (simp_all add: k(2))
    have pv: "prev = 0 \<or> prev \<in> set E \<and> prev \<notin> set es \<and> ld32 (te_next prev) s1 = ld32 (te_next e) s"
      using Cons.prems(6) s1(4) by auto
    obtain s' q where s': "isr_scan (te_dispatch env) prev (ld32 (te_next e) s) s1 = Some s'"
      "isr_step env F {x \<in> set es. completed (mem s) x} (set es \<union> ({prev} - {0})) q s1 s'"
      "\<forall>x \<in> set es. completed (mem s) x \<longrightarrow> ld8 (F x) s' = 1"
      "if prev \<noteq> 0 then q = pending_queue s1 \<and> linked te_next (mem s') (ld32 (te_next prev) s') (filter (\<lambda>x. \<not> completed (mem s) x) es)
       else q = 0"
      using Cons.IH [OF e(6) _ isr_step_simps(1) [OF s1(2)] _ lk pv] Cons.prems(2) k(1) isr_step_simps(2) [OF s1(2)]
      unfolding A fl by (auto split: if_splits simp: k(2))
    have "isr_step env F {x \<in> set (e # es). completed (mem s) x} (set (e # es) \<union> ({prev} - {0})) q s s'"
      by (rule isr_step_mono [OF isr_step_trans [OF s1(2) s'(2)]]) (use True in auto)
    moreover have "ld8 (F e) s' = 1"
      using step_keeps(4) [OF L s'(2) _ _ e(4)] s1(3) e(5,6) ps by auto
    ultimately show ?thesis
      using s'(1,3,4) s1(1) True isr_step_simps(2) [OF s1(2)] unfolding e(1)
      by (intro exI [of _ s'] exI [of _ q]) (auto split: if_splits)
  qed
qed


section \<open>The handler\<close>

text \<open>Those entries that stay in the queue. The first entry takes the whole queue with it.\<close>

definition left_pending :: "mem \<Rightarrow> u32 list \<Rightarrow> u32 list" where
  "left_pending m es = (if es \<noteq> [] \<and> completed m (hd es) then [] else filter (\<lambda>e. \<not> completed m e) es)"

lemma touched_mono: "A \<subseteq> B \<Longrightarrow> Y \<subseteq> Z \<Longrightarrow> touched env F A Y \<subseteq> touched env F B Z"
  by (auto simp: touched_def)

lemma isr_scan_result:
  assumes L: "pending_layout env es T F" and on: "on_screen s" and t: "\<forall>e \<in> set es. transfer env (mem s) e (T e) (F e)"
    and q: "linked te_next (mem s) (pending_queue s) es"
  shows "\<exists>s'. isr_scan (te_dispatch env) 0 (pending_queue s) s = Some s' \<and>
      isr_step env F {e \<in> set es. completed (mem s) e} (set es) (pending_queue s') s s' \<and>
      (\<forall>e \<in> set es. ld8 (F e) s' = (if completed (mem s) e then 1 else ld8 (F e) s)) \<and>
      linked te_next (mem s') (pending_queue s') (left_pending (mem s) es)"
proof -
  have "distinct es" using L spans_apart_distinct [of 20 "es @ concat (map T es)"] by (auto simp: pending_layout_def)
  then obtain s' q' where s': "isr_scan (te_dispatch env) 0 (pending_queue s) s = Some s'"
    "isr_step env F {e \<in> set es. completed (mem s) e} (set es) q' s s'" "\<forall>e \<in> set es. completed (mem s) e \<longrightarrow> ld8 (F e) s' = 1"
    "if es \<noteq> [] \<and> completed (mem s) (hd es) then q' = 0
     else q' = pending_queue s \<and> linked te_next (mem s') (pending_queue s) (filter (\<lambda>e. \<not> completed (mem s) e) es)"
    using scan_run [OF L order_refl _ on t q, of 0] by auto
  have "ld8 (F e) s' = ld8 (F e) s" if "e \<in> set es" "\<not> completed (mem s) e" for e
    using step_keeps(4) [OF L s'(2) _ _ that(1)] that(2) by auto
  with s' isr_step_simps(2) [OF s'(2)] show ?thesis
    by (intro exI [of _ s']) (auto simp: left_pending_def split: if_splits)
qed

lemma uhci_isr_run:
  assumes L: "pending_layout env es T F" and on: "on_screen s" and t: "\<forall>e \<in> set es. transfer env (mem s) e (T e) (F e)"
    and q: "linked te_next (mem s) (pending_queue s) es"
    and dev: "span 2 dev \<inter> touched env F (set es) (set es) = {}" "unat dev + 2 \<le> 4294967296"
    and st: "hw_inw hw (io_log s) (ld16 (ud_iobase dev) s + UHCI_USBSTS) \<noteq> 0"
  shows "\<exists>s1 s'. uhci_isr hw (te_dispatch env) n dev s = Some (True, s') \<and>
      isr_step env F {e \<in> set es. completed (mem s) e} (set es) (pending_queue s') s s1 \<and>
      s' = log_event (OutW (ld16 (ud_iobase dev) s + UHCI_USBSTS) 0x1f) s1 \<and>
      (\<forall>e \<in> set es. ld8 (F e) s' = (if completed (mem s) e then 1 else ld8 (F e) s)) \<and>
      linked te_next (mem s') (pending_queue s') (left_pending (mem s) es)"
proof -
  let ?p = "ld16 (ud_iobase dev) s + UHCI_USBSTS"
  let ?s0 = "log_event (InW ?p (hw_inw hw (io_log s) ?p)) s"
  have m0: "mem ?s0 = mem s" "pending_queue ?s0 = pending_queue s" "on_screen ?s0"
    using on by (simp_all add: log_event_def on_screen_def)
  obtain s1 where s1: "isr_scan (te_dispatch env) 0 (pending_queue s) ?s0 = Some s1"
    "isr_step env F {e \<in> set es. completed (mem s) e} (set es) (pending_queue s1) ?s0 s1"
    "\<forall>e \<in> set es. ld8 (F e) s1 = (if completed (mem s) e then 1 else ld8 (F e) s)"
    "linked te_next (mem s1) (pending_queue s1) (left_pending (mem s) es)"
    using isr_scan_result [OF L m0(3)] t q unfolding m0 by blast
  obtain m l r c where "s1 = ?s0\<lparr>mem := m, io_log := l, curs_row := r, curs_col := c, pending_queue := pending_queue s1\<rparr>"
    using s1(2) unfolding isr_step_def by blast
  then have "s1 = s\<lparr>mem := m, io_log := l, curs_row := r, curs_col := c, pending_queue := pending_queue s1\<rparr>"
    by (simp add: log_event_def)
  then have st1: "isr_step env F {e \<in> set es. completed (mem s) e} (set es) (pending_queue s1) s s1"
    using s1(2) unfolding isr_step_def m0(1) by blast
  have io: "ld16 (ud_iobase dev) s1 = ld16 (ud_iobase dev) s"
  proof (rule load16_same [OF isr_step_simps(3) [OF st1]])
    have "span 2 dev \<subseteq> - touched env F {e \<in> set es. completed (mem s) e} (set es)"
      using dev(1) touched_mono [of "{e \<in> set es. completed (mem s) e}" "set es" "set es" "set es"] by blast
    then show "{unat (ud_iobase dev)..<unat (ud_iobase dev) + 2} \<subseteq> - touched env F {e \<in> set es. completed (mem s) e} (set es)"
      by (simp add: span_def ud_iobase_def)
  qed (use dev(2) in \<open>simp add: ud_iobase_def\<close>)
  let ?s2 = "log_event (OutW ?p 0x1f) s1"
  have p2: "pending_queue ?s2 = pending_queue s1" by (simp add: log_event_def)
  have "uhci_isr hw (te_dispatch env) n dev s = Some (True, ?s2)"
    using s1(1) st
    by (simp add: uhci_isr_def uhci_read_16_def uhci_write_16_def inw_def outw_def Let_def io)
  with st1 s1(3,4) show ?thesis unfolding p2 [symmetric] by (intro exI [of _ s1] exI [of _ ?s2]) simp
qed

end
