(* ===== verification/UhciFrames.thy ===== *)
theory UhciFrames
  imports UhciQueue
begin

text \<open>
  The frame list that \<open>uhci_init_frame_list\<close> builds for the controller.
\<close>

lemma unat_frame:
  fixes fl :: u32
  assumes "unat fl + 4 * n \<le> 4294967296" and "i < n"
  shows "unat (fl + 4 * of_nat i) = unat fl + 4 * i"
proof -
  have "unat (4 * of_nat i :: u32) = 4 * i"
    using unat_of_nat_u32 [of "4 * i"] assms by simp
  then show ?thesis using assms by (subst unat_add_u32) auto
qed

lemma fill_frames:
  fixes fl :: u32
  assumes "unat fl + 4 * n \<le> 4294967296"
  shows "j \<le> n \<Longrightarrow> \<exists>s'. fold (\<lambda>i. st32 (fl_pointer (fl + 4 * of_nat i)) v) [0..<j] s = s' \<and>
    writes_in (span (4 * n) fl) s s' \<and> (\<forall>i < j. ld32 (fl + 4 * of_nat i) s' = v)"
proof (induction j)
  case (Suc j)
  then obtain s1 where s1: "fold (\<lambda>i. st32 (fl_pointer (fl + 4 * of_nat i)) v) [0..<j] s = s1"
    "writes_in (span (4 * n) fl) s s1" "\<forall>i < j. ld32 (fl + 4 * of_nat i) s1 = v" by auto
  let ?p = "fl + 4 * of_nat j" and ?s2 = "st32 (fl + 4 * of_nat j) v s1"
  have u: "unat ?p = unat fl + 4 * j" using unat_frame [OF assms, of j] Suc.prems by simp
  have "writes_in (span (4 * n) fl) s1 ?s2"
    using u assms Suc.prems by (intro writes_in_st) (auto simp: span_def)
  moreover have "ld32 (fl + 4 * of_nat i) ?s2 = v" if "i < Suc j" for i
  proof (cases "i = j")
    case False
    then have "ld32 (fl + 4 * of_nat i) ?s2 = ld32 (fl + 4 * of_nat i) s1"
      using unat_frame [OF assms, of i] u assms that Suc.prems unfolding mem_st
      by (intro load32_store32_other) auto
    then show ?thesis using s1(3) that False by simp
  qed simp
  ultimately show ?case
    using s1(1,2) by (intro exI [of _ ?s2]) (auto simp: fl_pointer_def intro: writes_in_trans)
qed auto

text \<open>The writes after the two allocations.\<close>

definition build_frames :: "u32 \<Rightarrow> u32 \<Rightarrow> u32 \<Rightarrow> 'a machine_scheme \<Rightarrow> 'a machine_scheme" where
  "build_frames dev fl qh s =
    (let s = st32 (qh_qhlp qh) UHCI_FLP_TERM s;
         s = st32 (qh_qelp qh) UHCI_FLP_TERM s;
         s = st32 (ud_qh1ms dev) qh s;
         s = fold (\<lambda>i. st32 (fl_pointer (fl + 4 * of_nat i)) (UHCI_FLP_PTR qh OR UHCI_FLP_QH)) [0..<1024] s;
         s = st32 (fl_pointer (ld32 (ud_frame_list_base dev) s)) (UHCI_FRBASEADD_PTR fl) s
     in uhci_write_32 dev UHCI_FRBASEADD (UHCI_FRBASEADD_PTR fl) s)"

lemma init_frame_list_eq:
  "uhci_init_frame_list dev s = do {
     (fl, s) \<leftarrow> memalloc_aligned (4 * 1024) 4096 s;
     (qh, s) \<leftarrow> memalloc_aligned sizeof_queue_head 16 s;
     Some (build_frames dev fl qh s)}"
  by (simp add: uhci_init_frame_list_def build_frames_def Let_def)

text \<open>
  \<open>uhci_dev\<close> at \<open>dev\<close>, the frame list and the queue head are apart; the field
  \<open>frame_list_base\<close>, which nothing initialises, holds \<open>fb\<close>.
\<close>

lemma page_aligned:
  fixes fl :: u32
  assumes "4096 dvd unat fl"
  shows "UHCI_FRBASEADD_PTR fl = fl"
proof -
  have "fl AND mask 12 = 0"
    using assms by (simp add: word_unat_eq_iff unat_and_mask_mod)
  then have "fl AND NOT (mask 12) = fl" using word_and_not_plus [of fl "mask 12"] by simp
  moreover have "NOT (mask 12) = (0xfffff000 :: u32)" by (simp add: mask_eq_exp_minus_1)
  ultimately show ?thesis unfolding UHCI_FRBASEADD_PTR_def by (simp only:)
qed

lemma writes_in_ld:
  assumes "writes_in W s s'"
  shows "span 4 p \<inter> W = {} \<Longrightarrow> unat p + 4 \<le> 4294967296 \<Longrightarrow> ld32 p s' = ld32 p s"
    and "span 2 p \<inter> W = {} \<Longrightarrow> unat p + 2 \<le> 4294967296 \<Longrightarrow> ld16 p s' = ld16 p s"
proof -
  note f = writes_in_same [OF assms]
  show "ld32 p s' = ld32 p s" if "span 4 p \<inter> W = {}" "unat p + 4 \<le> 4294967296"
    by (rule load32_same [OF f]) (use that in \<open>auto simp: span_def\<close>)
  show "ld16 p s' = ld16 p s" if "span 2 p \<inter> W = {}" "unat p + 2 \<le> 4294967296"
    by (rule load16_same [OF f]) (use that in \<open>auto simp: span_def\<close>)
qed

lemma span_field:
  fixes p k :: u32
  assumes "unat p + n \<le> 4294967296" and "unat k + m \<le> n" and "0 < m"
  shows "span m (p + k) \<subseteq> span n p" and "unat (p + k) + m \<le> 4294967296" and "unat (p + k) = unat p + unat k"
proof -
  show u: "unat (p + k) = unat p + unat k" using assms by (intro unat_add_u32) linarith
  show "span m (p + k) \<subseteq> span n p" "unat (p + k) + m \<le> 4294967296"
    using assms u by (auto simp: span_def)
qed

lemma st32_writes: "unat p + 4 \<le> 4294967296 \<Longrightarrow> writes_in (span 4 p) s (st32 p v s)"
  by (rule writes_in_st) (auto simp: span_def)

lemma io_log_fold_st32 [log_simps]: "io_log (fold (\<lambda>i. st32 (g i) v) is s) = io_log s"
  by (induction "is" arbitrary: s) simp_all

lemma build_frames_run:
  fixes fl qh dev fb :: u32
  assumes al: "4096 dvd unat fl" "16 dvd unat qh" and room: "unat fl + 4096 \<le> 4294967296" "unat qh + 8 \<le> 4294967296"
    "unat dev + 20 \<le> 4294967296" "unat fb + 4 \<le> 4294967296"
    and apart: "span 4096 fl \<inter> span 8 qh = {}" "span 20 dev \<inter> span 4096 fl = {}" "span 20 dev \<inter> span 8 qh = {}"
      "span 4 fb \<inter> (span 20 dev \<union> span 4096 fl \<union> span 8 qh) = {}"
    and fb: "fb = ld32 (ud_frame_list_base dev) s"
  defines "s' \<equiv> build_frames dev fl qh s"
  shows "\<forall>i < 1024. ld32 (fl + 4 * of_nat i) s' = qh + 2" and "ld32 (ud_qh1ms dev) s' = qh"
    and "ld32 (qh_qhlp qh) s' = 1" and "ld32 (qh_qelp qh) s' = 1" and "ld32 fb s' = fl"
    and "io_log s' = io_log s @ [OutL (ld16 dev s + 8) fl]"
    and "writes_in (span 8 qh \<union> span 4096 fl \<union> span 4 (ud_qh1ms dev) \<union> span 4 fb) s s'"
proof -
  have q: "span 4 qh \<subseteq> span 8 qh" "span 4 (qh + 4) \<subseteq> span 8 qh" "unat (qh + 4) + 4 \<le> 4294967296" "unat (qh + 4) = unat qh + 4"
    using span_field [OF room(2), of 4 4] by (auto simp: span_def)
  have d: "span 4 (dev + 16) \<subseteq> span 20 dev" "unat (dev + 16) + 4 \<le> 4294967296"
    "span 4 (dev + 4) \<subseteq> span 20 dev" "unat (dev + 4) + 4 \<le> 4294967296" "span 4 (dev + 4) \<inter> span 4 (dev + 16) = {}"
    "span 2 dev \<subseteq> span 20 dev" "span 2 dev \<inter> span 4 (dev + 16) = {}"
    using span_field [OF room(3), of 16 4] span_field [OF room(3), of 4 4] by (auto simp: span_def)
  note fp = flp_ptr [OF al(2)]
  have v: "UHCI_FLP_PTR qh OR UHCI_FLP_QH = qh + 2"
    using or_flags [OF al(2), of 2] by (simp add: fp(1) UHCI_FLP_QH_def push_bit_eq_mult)
  define s2 where "s2 = st32 (qh + 4) 1 (st32 qh 1 s)"
  define s3 where "s3 = st32 (dev + 16) qh s2"
  obtain s4 where s4: "fold (\<lambda>i. st32 (fl_pointer (fl + 4 * of_nat i)) (qh + 2)) [0..<1024] s3 = s4"
    "writes_in (span 4096 fl) s3 s4" "\<forall>i < 1024. ld32 (fl + 4 * of_nat i) s4 = qh + 2"
    using fill_frames [of fl 1024 1024 "qh + 2" s3] room(1) by auto
  define s5 where "s5 = st32 fb fl s4"
  have w2: "writes_in (span 8 qh) s s2"
    unfolding s2_def using room(2) q
    by (intro writes_in_trans [OF writes_in_mono [OF st32_writes] writes_in_mono [OF st32_writes]]) auto
  have w3: "writes_in (span 4 (dev + 16)) s2 s3" unfolding s3_def by (rule st32_writes) (rule d)
  have w5: "writes_in (span 4 fb) s4 s5" unfolding s5_def by (rule st32_writes) (rule room(4))
  note r2 = writes_in_ld [OF w2] and r3 = writes_in_ld [OF w3] and r4 = writes_in_ld [OF s4(2)] and r5 = writes_in_ld [OF w5]
  have D: "A \<inter> span 8 qh = {}" "A \<inter> span 4096 fl = {}" "A \<inter> span 4 fb = {}" if "A \<subseteq> span 20 dev" for A
    using that apart by blast+
  have fb4: "ld32 (dev + 4) s4 = fb"
    unfolding r4(1) [OF D(2) [OF d(3)] d(4)] r3(1) [OF d(5,4)] r2(1) [OF D(1) [OF d(3)] d(4)]
    using fb by (simp add: ud_frame_list_base_def)
  have d2: "unat dev + 2 \<le> 4294967296" using room(3) by simp
  have io: "ld16 dev s5 = ld16 dev s"
    unfolding r5(2) [OF D(3) [OF d(6)] d2] r4(2) [OF D(2) [OF d(6)] d2] r3(2) [OF d(7) d2] r2(2) [OF D(1) [OF d(6)] d2] ..
  have run: "s' = outl (ld16 dev s + 8) fl s5"
    unfolding s'_def build_frames_def Let_def v page_aligned [OF al(1)]
    using s4(1) fb4 by (simp add: uhci_layout uhci_macros uhci_write_32_def s2_def [symmetric] s3_def [symmetric] s5_def [symmetric] io)
  have m: "mem s' = mem s5" by (simp add: run outl_def)
  have Q: "A \<inter> span 4 (dev + 16) = {}" "A \<inter> span 4096 fl = {}" "A \<inter> span 4 fb = {}" if "A \<subseteq> span 8 qh" for A
    using that apart d(1) by blast+
  have "ld32 (fl + 4 * of_nat i) s5 = qh + 2" if "i < 1024" for i
  proof -
    have "unat (fl + 4 * of_nat i) = unat fl + 4 * i" using unat_frame [of fl 1024 i] room(1) that by simp
    then have "span 4 (fl + 4 * of_nat i) \<subseteq> span 4096 fl" "unat (fl + 4 * of_nat i) + 4 \<le> 4294967296"
      using that room(1) by (auto simp: span_def)
    then show ?thesis using r5(1) [of "fl + 4 * of_nat i"] apart(4) s4(3) that by auto
  qed
  then show "\<forall>i < 1024. ld32 (fl + 4 * of_nat i) s' = qh + 2" by (simp add: m)
  have "ld32 (dev + 16) s5 = ld32 (dev + 16) s3"
    unfolding r5(1) [OF D(3) [OF d(1)] d(2)] r4(1) [OF D(2) [OF d(1)] d(2)] ..
  then show "ld32 (ud_qh1ms dev) s' = qh" by (simp add: m s3_def ud_qh1ms_def)
  have q0: "unat qh + 4 \<le> 4294967296" using room(2) by simp
  have "ld32 qh s5 = ld32 qh s2"
    unfolding r5(1) [OF Q(3) [OF q(1)] q0] r4(1) [OF Q(2) [OF q(1)] q0] r3(1) [OF Q(1) [OF q(1)] q0] ..
  also have "\<dots> = 1"
    using room(2) q(4) unfolding s2_def by (simp add: load32_store32_other)
  finally show "ld32 (qh_qhlp qh) s' = 1" by (simp add: m qh_qhlp_def)
  have "ld32 (qh + 4) s5 = ld32 (qh + 4) s2"
    unfolding r5(1) [OF Q(3) [OF q(2)] q(3)] r4(1) [OF Q(2) [OF q(2)] q(3)] r3(1) [OF Q(1) [OF q(2)] q(3)] ..
  then show "ld32 (qh_qelp qh) s' = 1" by (simp add: m qh_qelp_def s2_def)
  show "ld32 fb s' = fl" by (simp add: m s5_def)
  have w: "writes_in (span 8 qh \<union> span 4096 fl \<union> span 4 (dev + 16) \<union> span 4 fb) s s5"
    by (rule writes_in_trans, rule writes_in_trans, rule writes_in_trans; rule writes_in_mono, rule w2 w3 s4(2) w5) auto
  have "io_log s4 = io_log s" unfolding s4(1) [symmetric] by (simp add: io_log_fold_st32 s3_def s2_def)
  then show "io_log s' = io_log s @ [OutL (ld16 dev s + 8) fl]" by (simp add: run outl_def s5_def)
  show "writes_in (span 8 qh \<union> span 4096 fl \<union> span 4 (ud_qh1ms dev) \<union> span 4 fb) s s'"
    unfolding run outl_def ud_qh1ms_def by (rule writes_in_trans [OF w writes_in_log])
qed

lemma payload_insert:
  assumes "L p = None"
  shows "payload L \<subseteq> payload (L(p \<mapsto> r))"
proof
  fix x assume "x \<in> payload L"
  then obtain q a e where q: "L q = Some (a, e)" "unat q \<le> x" "x < e" by (auto simp: payload_def)
  then have "(L(p \<mapsto> r)) q = Some (a, e)" using assms by auto
  with q show "x \<in> payload (L(p \<mapsto> r))" unfolding payload_def by blast
qed

lemma frame_list_built:
  assumes inv: "heap_inv lo hi s L"
    and dev: "span 20 dev \<subseteq> (owned L \<inter> payload L) \<union> - {lo..<hi}" "unat dev + 20 \<le> 4294967296"
    and fb: "fb = ld32 (ud_frame_list_base dev) s" "span 4 fb \<inter> ({lo..<hi} \<union> span 20 dev) = {}" "unat fb + 4 \<le> 4294967296"
    and A: "memalloc_aligned 4096 4096 s = Some (fl, s1)" "fl \<noteq> 0"
    and C: "memalloc_aligned sizeof_queue_head 16 s1 = Some (qh, s2)" "qh \<noteq> 0"
  defines "s' \<equiv> build_frames dev fl qh s2"
  shows "4096 dvd unat fl \<and> 16 dvd unat qh \<and> (\<forall>i < 1024. ld32 (fl + 4 * of_nat i) s' = qh + 2) \<and>
    ld32 (ud_qh1ms dev) s' = qh \<and> ld32 (qh_qhlp qh) s' = 1 \<and> ld32 (qh_qelp qh) s' = 1 \<and> ld32 fb s' = fl \<and>
    io_log s' = io_log s @ [OutL (ld16 dev s + 8) fl] \<and>
    (\<exists>a e b f. heap_inv lo hi s' (L(fl \<mapsto> (a, e), qh \<mapsto> (b, f))) \<and> unat fl + 4096 \<le> e \<and> unat qh + 8 \<le> f) \<and>
    L fl = None \<and> L qh = None \<and> fl \<noteq> qh \<and> heap_state.more s' = heap_state.more s \<and> (\<forall>bs. heap_ok lo hi s2 bs \<longrightarrow> heap_ok lo hi s' bs) \<and>
    same_on (mem s) (mem s') ((owned L \<union> - {lo..<hi}) - (span 4 (ud_qh1ms dev) \<union> span 4 fb))"
proof -
  have sz: "unat (4096 :: u32) = 4096" "unat sizeof_queue_head = 8" by (simp_all add: sizeof_queue_head_def)
  obtain a e where B: "L fl = None" "a + 8 \<le> unat fl" "unat fl + unat (4096 :: u32) \<le> e" "{a..<e} \<inter> owned L = {}"
    "lo \<le> a" "e \<le> hi" "hi < 4294967296" "heap_inv lo hi s1 (L(fl \<mapsto> (a, e)))"
    "same_on (mem s) (mem s1) (owned L \<union> - {lo..<hi})" "only_heap s s1" "\<forall>k. (4096 :: u32) = 2 ^ k \<longrightarrow> unat (4096 :: u32) dvd unat fl"
    by (rule granted [OF inv A])
  let ?L1 = "L(fl \<mapsto> (a, e))"
  obtain b f where D: "?L1 qh = None" "b + 8 \<le> unat qh" "unat qh + unat sizeof_queue_head \<le> f" "{b..<f} \<inter> owned ?L1 = {}"
    "lo \<le> b" "f \<le> hi" "hi < 4294967296" "heap_inv lo hi s2 (?L1(qh \<mapsto> (b, f)))"
    "same_on (mem s1) (mem s2) (owned ?L1 \<union> - {lo..<hi})" "only_heap s1 s2" "\<forall>k. (16 :: u32) = 2 ^ k \<longrightarrow> unat (16 :: u32) dvd unat qh"
    by (rule granted [OF B(8) C])
  let ?L2 = "?L1(qh \<mapsto> (b, f))"
  have al: "4096 dvd unat fl" "16 dvd unat qh"
    using B(11) [THEN spec, of 12] D(11) [THEN spec, of 4] by simp_all
  have own1: "owned ?L1 = owned L \<union> {a..<e}" using B(1) by (rule owned_insert)
  have inn: "span 4096 fl \<subseteq> {a..<e}" "span 8 qh \<subseteq> {b..<f}" "{a..<e} \<subseteq> {lo..<hi}" "{b..<f} \<subseteq> {lo..<hi}"
    using B(2,3,5,6) D(2,3,5,6) sz by (auto simp: span_def)
  have room: "unat fl + 4096 \<le> 4294967296" "unat qh + 8 \<le> 4294967296"
    using B(3,6,7) D(3,6) sz by simp_all
  have apart: "span 4096 fl \<inter> span 8 qh = {}" "span 20 dev \<inter> span 4096 fl = {}" "span 20 dev \<inter> span 8 qh = {}"
    "span 4 fb \<inter> (span 20 dev \<union> span 4096 fl \<union> span 8 qh) = {}"
    using inn own1 B(4) D(4) dev(1) fb(2) by blast+
  have same2: "same_on (mem s) (mem s2) (owned L \<union> - {lo..<hi})"
    by (rule same_on_trans [OF B(9) same_on_mono [OF D(9)]]) (use own1 in blast)
  have keep: "span 20 dev \<subseteq> owned L \<union> - {lo..<hi}" using dev(1) by blast
  have fb2: "fb = ld32 (ud_frame_list_base dev) s2"
  proof -
    have "ld32 (dev + 4) s2 = ld32 (dev + 4) s"
      by (rule load32_same [OF same2])
        (use keep span_field [OF dev(2), of 4 4] in \<open>auto simp: span_def subset_iff\<close>)
    then show ?thesis using fb(1) by (simp add: ud_frame_list_base_def)
  qed
  have io2: "ld16 dev s2 = ld16 dev s" "io_log s2 = io_log s"
  proof -
    have "{unat dev..<unat dev + 2} \<subseteq> span 20 dev" by (auto simp: span_def)
    then show "ld16 dev s2 = ld16 dev s" using load16_same [OF same2, of dev] keep dev(2) by auto
    show "io_log s2 = io_log s" using B(10) D(10) by (simp add: only_heap_def)
  qed
  note R = build_frames_run [OF al room dev(2) fb(3) apart fb2, folded s'_def]
  have L2: "payload L \<subseteq> payload ?L2" "span 4096 fl \<subseteq> payload ?L2" "span 8 qh \<subseteq> payload ?L2"
  proof -
    show "payload L \<subseteq> payload ?L2"
      using payload_insert [where L = L and p = fl and r = "(a, e)"] B(1)
        payload_insert [where L = ?L1 and p = qh and r = "(b, f)"] D(1) by blast
    have "span 4096 fl \<subseteq> payload ?L1" using B(3) sz by (auto simp: payload_def span_def)
    then show "span 4096 fl \<subseteq> payload ?L2" using payload_insert [where L = ?L1 and p = qh and r = "(b, f)"] D(1) by blast
    show "span 8 qh \<subseteq> payload ?L2" using D(3) sz by (auto simp: payload_def span_def)
  qed
  have "span 4 (ud_qh1ms dev) \<subseteq> payload L \<union> - {lo..<hi}"
    using span_field(1) [OF dev(2), of 16 4] dev(1) by (auto simp: ud_qh1ms_def)
  then have sub: "span 8 qh \<union> span 4096 fl \<union> span 4 (ud_qh1ms dev) \<union> span 4 fb \<subseteq> payload ?L2 \<union> - {lo..<hi}"
    using L2 fb(2) by blast
  have "heap_inv lo hi s' ?L2"
    by (rule writes_keep [OF D(8) R(7) sub])
  moreover have "\<forall>bs. heap_ok lo hi s2 bs \<longrightarrow> heap_ok lo hi s' bs"
    using write_keeps_free [OF D(8) same_on_mono [OF writes_in_same [OF R(7)]] writes_in_head [OF R(7)]] sub by blast
  moreover have "L qh = None" "fl \<noteq> qh" using D(1) by (auto split: if_splits)
  moreover have "heap_state.more s' = heap_state.more s"
    using B(10) D(10) R(7) by (auto simp: only_heap_def writes_in_def)
  moreover have "same_on (mem s) (mem s') ((owned L \<union> - {lo..<hi}) - (span 4 (ud_qh1ms dev) \<union> span 4 fb))"
  proof (rule same_on_trans [OF same_on_mono [OF same2] same_on_mono [OF writes_in_same [OF R(7)]]])
    have "(span 8 qh \<union> span 4096 fl) \<inter> (owned L \<union> - {lo..<hi}) = {}" using inn own1 B(4) D(4) by blast
    then show "(owned L \<union> - {lo..<hi}) - (span 4 (ud_qh1ms dev) \<union> span 4 fb) \<subseteq>
      - (span 8 qh \<union> span 4096 fl \<union> span 4 (ud_qh1ms dev) \<union> span 4 fb)" by blast
  qed blast
  ultimately show ?thesis using R(1-6) al io2 B(1,3) D(3) sz by auto
qed

lemma init_frame_list_run:
  assumes inv: "heap_inv lo hi s L"
    and dev: "span 20 dev \<subseteq> (owned L \<inter> payload L) \<union> - {lo..<hi}" "unat dev + 20 \<le> 4294967296"
    and fb: "fb = ld32 (ud_frame_list_base dev) s" "span 4 fb \<inter> ({lo..<hi} \<union> span 20 dev) = {}" "unat fb + 4 \<le> 4294967296"
  shows "\<exists>fl s1 qh s2 s'. memalloc_aligned 4096 4096 s = Some (fl, s1) \<and> memalloc_aligned sizeof_queue_head 16 s1 = Some (qh, s2) \<and>
    uhci_init_frame_list dev s = Some s' \<and> (fl \<noteq> 0 \<longrightarrow> qh \<noteq> 0 \<longrightarrow>
      4096 dvd unat fl \<and> 16 dvd unat qh \<and> (\<forall>i < 1024. ld32 (fl + 4 * of_nat i) s' = qh + 2) \<and>
      ld32 (ud_qh1ms dev) s' = qh \<and> ld32 (qh_qhlp qh) s' = 1 \<and> ld32 (qh_qelp qh) s' = 1 \<and> ld32 fb s' = fl \<and>
      io_log s' = io_log s @ [OutL (ld16 dev s + 8) fl] \<and>
      (\<exists>a e b f. heap_inv lo hi s' (L(fl \<mapsto> (a, e), qh \<mapsto> (b, f))) \<and> unat fl + 4096 \<le> e \<and> unat qh + 8 \<le> f) \<and>
      L fl = None \<and> L qh = None \<and> fl \<noteq> qh \<and> heap_state.more s' = heap_state.more s \<and> (\<forall>bs. heap_ok lo hi s2 bs \<longrightarrow> heap_ok lo hi s' bs) \<and>
      same_on (mem s) (mem s') ((owned L \<union> - {lo..<hi}) - (span 4 (ud_qh1ms dev) \<union> span 4 fb)))"
proof -
  have pg: "(4 * 1024 :: u32) = 4096" by simp
  have run: "uhci_init_frame_list dev s = Some (build_frames dev fl qh s2)"
    if "memalloc_aligned 4096 4096 s = Some (fl, s1)" "memalloc_aligned sizeof_queue_head 16 s1 = Some (qh, s2)" for fl s1 qh s2
    using that by (simp only: init_frame_list_eq pg bind.bind_lunit prod.case)
  obtain fl s1 where A: "memalloc_aligned 4096 4096 s = Some (fl, s1)"
    using heap.alloc_returns [OF inv] by blast
  show ?thesis
  proof (cases "fl = 0")
    case True
    have "s1 = s" using heap.alloc_null [OF inv] A True by blast
    then obtain qh s2 where "memalloc_aligned sizeof_queue_head 16 s1 = Some (qh, s2)"
      using heap.alloc_returns [OF inv] by blast
    then show ?thesis using A run [OF A] True by blast
  next
    case fl: False
    obtain a e where "heap_inv lo hi s1 (L(fl \<mapsto> (a, e)))" using granted [OF inv A fl] by metis
    then obtain qh s2 where C: "memalloc_aligned sizeof_queue_head 16 s1 = Some (qh, s2)"
      using heap.alloc_returns by blast
    show ?thesis using A C run [OF A C] frame_list_built [OF inv dev fb A _ C] by blast
  qed
qed

end
