(* ===== verification/UsbDevice.thy ===== *)
theory UsbDevice
  imports Machine
begin

text \<open>
  What the driver has on the other side of its memory: a UHCI controller that walks the queue it
  finds there, and a USB function that answers control transfers. Nothing of this is code of the
  program; it is the documented behaviour the driver is written for, and the theorems on transfers
  assume it of the hardware (\<open>usb_attached\<close>). The controller acts on nothing but what it reads in memory: a
  descriptor with another packet identifier, address, data toggle or length than the function
  expects at that point is not completed. Field offsets and packet identifiers are those of the UHCI
  and USB documents, as numbers; those of the driver are in \<open>UhciTypes\<close>.
\<close>


section \<open>A function on the bus\<close>

text \<open>
  Its address, speed, the size of the packets of its control endpoint, and what it has to say to a
  request (type, request, value, index, length). \<open>None\<close>: it refuses the request.
\<close>

type_synonym usb_request = "u8 \<times> u8 \<times> u16 \<times> u16 \<times> u16"

record usb_function =
  f_address :: u8
  f_low_speed :: bool
  f_packet :: nat
  f_answer :: "usb_request \<Rightarrow> u8 list option"

text \<open>
  The control endpoint between two packets: no transfer, bytes to be sent with the data toggle of the
  next packet, or a request without data that is to be confirmed.
\<close>

datatype usb_stage = Idle | Sending "u8 list" bool | Confirming

definition setup_request :: "u8 list \<Rightarrow> usb_request" where
  "setup_request bs = (bs ! 0, bs ! 1, ucast (bs ! 2) OR push_bit 8 (ucast (bs ! 3)),
     ucast (bs ! 4) OR push_bit 8 (ucast (bs ! 5)), ucast (bs ! 6) OR push_bit 8 (ucast (bs ! 7)))"

text \<open>A setup packet starts a transfer, whatever came before. Requests with data for the function are refused.\<close>

definition usb_setup :: "usb_function \<Rightarrow> u8 list \<Rightarrow> usb_stage option" where
  "usb_setup d bs =
     (if length bs \<noteq> 8 then None
      else let (t, r, v, i, l) = setup_request bs in
        case f_answer d (t, r, v, i, l) of
          None \<Rightarrow> None
        | Some answer \<Rightarrow> (if l = 0 then Some Confirming
            else if bit t 7 then Some (Sending (take (unat l) answer) True) else None))"

text \<open>The packet an IN token gets. The host takes it only with the data toggle it expects.\<close>

fun usb_in :: "usb_function \<Rightarrow> usb_stage \<Rightarrow> bool \<Rightarrow> (u8 list \<times> usb_stage) option" where
  "usb_in d (Sending bs t) toggle = (if toggle = t then Some (take (f_packet d) bs, Sending (drop (f_packet d) bs) (\<not> t)) else None)"
| "usb_in d Confirming toggle = (if toggle then Some ([], Idle) else None)"
| "usb_in d Idle toggle = None"

text \<open>
  An OUT token: the status stage of a transfer whose bytes have all been sent. What the packet
  contains makes no difference; the driver sends 64 bytes from address 0 there, not none.
\<close>

fun usb_out :: "usb_stage \<Rightarrow> bool \<Rightarrow> usb_stage option" where
  "usb_out (Sending [] t) toggle = (if toggle then Some Idle else None)"
| "usb_out u toggle = None"


section \<open>The controller\<close>

text \<open>The fields of the token of a transfer descriptor. A length of 0x7ff stands for no bytes.\<close>

definition token_pid :: "u32 \<Rightarrow> u8" where "token_pid tok = ucast tok"
definition token_address :: "u32 \<Rightarrow> u8" where "token_address tok = ucast (drop_bit 8 tok) AND 0x7f"
definition token_endpoint :: "u32 \<Rightarrow> u8" where "token_endpoint tok = ucast (drop_bit 15 tok) AND 0xf"
definition token_toggle :: "u32 \<Rightarrow> bool" where "token_toggle tok = bit tok 19"
definition token_length :: "u32 \<Rightarrow> nat" where "token_length tok = (unat (drop_bit 21 tok) + 1) mod 2048"

definition bytes_at :: "mem \<Rightarrow> u32 \<Rightarrow> nat \<Rightarrow> u8 list" where
  "bytes_at m p n = map (\<lambda>i. m (p + of_nat i)) [0..<n]"

definition put_bytes :: "mem \<Rightarrow> u32 \<Rightarrow> u8 list \<Rightarrow> mem" where
  "put_bytes m p bs = (\<lambda>x. if unat p \<le> unat x \<and> unat x < unat p + length bs then bs ! (unat x - unat p) else m x)"

text \<open>
  One transaction: the stage the function is in afterwards, the bytes for the buffer, and the length.
  \<open>None\<close>: nobody answers, the function refuses, or it sends more than the descriptor has room for.
\<close>

definition usb_transaction :: "usb_function \<Rightarrow> usb_stage \<Rightarrow> u32 \<Rightarrow> u8 list \<Rightarrow> (usb_stage \<times> u8 list \<times> nat) option" where
  "usb_transaction d u tok payload =
     (if token_address tok \<noteq> f_address d \<or> token_endpoint tok \<noteq> 0 then None
      else if token_pid tok = 0x2d \<and> \<not> token_toggle tok
        then map_option (\<lambda>u. (u, [], length payload)) (usb_setup d payload)
      else if token_pid tok = 0xe1 then map_option (\<lambda>u. (u, [], length payload)) (usb_out u (token_toggle tok))
      else if token_pid tok = 0x69 then
        (case usb_in d u (token_toggle tok) of
           None \<Rightarrow> None
         | Some (bs, u) \<Rightarrow> (if length bs \<le> token_length tok then Some (u, bs, length bs) else None))
      else None)"

text \<open>The status of a descriptor that has been completed: no longer active, with the length.\<close>

definition retired :: "u32 \<Rightarrow> nat \<Rightarrow> u32" where
  "retired cs n = (cs AND 0xff00f800) OR ((of_nat n - 1) AND 0x7ff)"

text \<open>
  One step: the descriptor the element link of the queue head at \<open>qh\<close> points to is executed, if there is
  one, it is active and for the speed of the function; its status is written, the element link moves
  on, and the interrupt is requested if the descriptor asks for it.
\<close>

type_synonym usb_machine = "usb_stage \<times> bool \<times> mem"

fun usb_step :: "usb_function \<Rightarrow> u32 \<Rightarrow> usb_machine \<Rightarrow> usb_machine option" where
  "usb_step d qh (u, irq, m) =
     (let q = load32 m (qh + 4); td = q AND 0xfffffff0; cs = load32 m (td + 4);
          tok = load32 m (td + 8); buf = load32 m (td + 12)
      in if q AND 3 \<noteq> 0 \<or> \<not> bit cs 23 \<or> bit cs 25 \<or> bit cs 26 \<noteq> f_low_speed d then None
         else case usb_transaction d u tok (bytes_at m buf (token_length tok)) of
           None \<Rightarrow> None
         | Some (u, bs, n) \<Rightarrow> Some (u, irq \<or> bit cs 24,
             store32 (store32 (put_bytes m buf bs) (td + 4) (retired cs n)) (qh + 4) (load32 m td)))"

text \<open>Up to \<open>c\<close> steps: the controller stops where it cannot go on.\<close>

fun usb_steps :: "usb_function \<Rightarrow> u32 \<Rightarrow> nat \<Rightarrow> usb_machine \<Rightarrow> usb_machine" where
  "usb_steps d qh 0 x = x"
| "usb_steps d qh (Suc c) x = (case usb_step d qh x of None \<Rightarrow> x | Some y \<Rightarrow> usb_steps d qh c y)"

definition usb_memory :: "usb_machine \<Rightarrow> mem" where "usb_memory x = snd (snd x)"
definition usb_interrupt :: "usb_machine \<Rightarrow> bool" where "usb_interrupt x = fst (snd x)"


section \<open>The hardware\<close>

text \<open>
  \<open>usb_attached hw d n port qh l\<close>: from the log \<open>l\<close> on the hardware is such a controller with the function
  \<open>d\<close>. While the processor halts, \<open>k\<close> timer interrupts arrive. Each time, and a last time after them, DMA
  leaves memory as some more steps of the controller leave it: \<open>c j\<close> are the steps it has done at the
  \<open>j\<close>-th halt, and it has done all it can (or 8194, more than there are descriptors in any transfer)
  at the last. If one of the descriptors it has completed asks for an interrupt, then the
  interrupt \<open>n\<close> arrives there, and the status register at \<open>port\<close> shows it.
\<close>

definition usb_attached :: "hw \<Rightarrow> usb_function \<Rightarrow> u8 \<Rightarrow> u16 \<Rightarrow> u32 \<Rightarrow> io_event list \<Rightarrow> bool" where
  "usb_attached hw d n port qh l \<longleftrightarrow>
     (\<exists>k u. (\<forall>j < k. hw_irq hw (l @ replicate j (Halt 32)) = 32) \<and>
       (\<forall>m. \<exists>c :: nat \<Rightarrow> nat. mono c \<and> c 0 = 0 \<and> 8194 \<le> c (Suc k) \<and>
          (\<forall>j \<le> k. hw_dma hw (l @ replicate j (Halt 32)) (usb_memory (usb_steps d qh (c j) (u, False, m))) =
             usb_memory (usb_steps d qh (c (Suc j)) (u, False, m))) \<and>
          (usb_interrupt (usb_steps d qh (c (Suc k)) (u, False, m)) \<longrightarrow>
             hw_irq hw (l @ replicate k (Halt 32)) = n \<and> hw_inw hw (l @ replicate k (Halt 32) @ [Halt n]) port \<noteq> 0)))"


section \<open>Basic facts\<close>

lemma length_bytes_at [simp]: "length (bytes_at m p n) = n"
  by (simp add: bytes_at_def)

lemma bytes_at_nth [simp]: "i < n \<Longrightarrow> bytes_at m p n ! i = m (p + of_nat i)"
  by (simp add: bytes_at_def)

lemma bytes_at_same:
  assumes "same_on m m' S" and "{unat p..<unat p + n} \<subseteq> S" and "unat p + n \<le> 4294967296"
  shows "bytes_at m' p n = bytes_at m p n"
proof -
  have "m' (p + of_nat i) = m (p + of_nat i)" if "i < n" for i
  proof (rule same_onD [OF assms(1)])
    have "unat (of_nat i :: u32) = i" using that assms(3) by (intro unat_of_nat_u32) simp
    then have "unat (p + of_nat i) = unat p + i" using that assms(3) by (simp add: unat_add_u32)
    then show "unat (p + of_nat i) \<in> S" using assms(2) that by auto
  qed
  then show ?thesis by (simp add: bytes_at_def)
qed

lemma put_nothing [simp]: "put_bytes m p [] = m"
  by (rule ext) (simp add: put_bytes_def, linarith)

lemma put_bytes_frame: "{unat p..<unat p + length bs} \<inter> S = {} \<Longrightarrow> same_on m (put_bytes m p bs) S"
  by (auto simp: same_on_def put_bytes_def)

lemma retired_inactive: "retired cs n AND 0x800000 = 0"
  unfolding retired_def
  by (simp only: bit.conj_disj_distrib2 and.assoc) simp

lemma usb_steps_stuck: "usb_step d qh (usb_steps d qh c x) = None \<Longrightarrow> c \<le> c' \<Longrightarrow> usb_steps d qh c' x = usb_steps d qh c x"
proof (induction d qh c x arbitrary: c' rule: usb_steps.induct)
  case (1 d qh x)
  then show ?case by (cases c') simp_all
next
  case (2 d qh c x)
  then show ?case by (cases c') (auto split: option.splits)
qed

lemma usb_steps_Suc: "usb_step d qh (usb_steps d qh c x) = Some y \<Longrightarrow> usb_steps d qh (Suc c) x = y"
  by (induction d qh c x rule: usb_steps.induct) (auto split: option.splits)

end
