(* ===== verification/UhciChain.thy ===== *)
theory UhciChain
  imports UhciTd UsbDevice
begin

text \<open>
  The controller on the descriptors of a control transfer: walking from the setup stage to the status
  stage it completes every one of them, and the bytes of the function end up in the buffer.
\<close>


section \<open>The descriptors as the controller reads them\<close>

lemma td_tok_fields:
  assumes "len < 2048"
  shows "token_pid (td_tok pid addr tg len) = pid" and "token_address (td_tok pid addr tg len) = addr AND 0x7f"
    and "token_endpoint (td_tok pid addr tg len) = 0" and "token_toggle (td_tok pid addr tg len) = tg"
    and "token_length (td_tok pid addr tg len) = (len + 1) mod 2048"
proof -
  have m: "(0x7f :: u32) = mask 7" "(0x7f :: u8) = mask 7" "(0xf :: u8) = mask 4"
    by (simp_all add: mask_eq_exp_minus_1)
  have t: "(if tg then 0x80000 else 0 :: u32) = push_bit 19 (of_bool tg)" by (simp add: push_bit_eq_mult)
  have len: "\<not> bit len i" if "11 \<le> i" for i
  proof -
    have "len < 2 ^ 11" using assms by simp
    then have "take_bit 11 len = len" by (simp only: take_bit_nat_eq_self_iff)
    then show ?thesis using that by (metis bit_take_bit_iff linorder_not_less)
  qed
  show "token_pid (td_tok pid addr tg len) = pid"
    unfolding token_pid_def td_tok_def m t by (rule bit_word_eqI) (auto simp: bit_simps dest: bit_imp_le_length)
  show "token_address (td_tok pid addr tg len) = addr AND 0x7f"
    unfolding token_address_def td_tok_def m t by (rule bit_word_eqI) (auto simp: bit_simps dest: bit_imp_le_length)
  show "token_endpoint (td_tok pid addr tg len) = 0"
    unfolding token_endpoint_def td_tok_def m t by (rule bit_word_eqI) (auto simp: bit_simps dest: bit_imp_le_length)
  show "token_toggle (td_tok pid addr tg len) = tg"
    unfolding token_toggle_def td_tok_def m t by (auto simp: bit_simps len dest: bit_imp_le_length)
  have "drop_bit 21 (td_tok pid addr tg len) = of_nat len"
    unfolding td_tok_def m t
    by (rule bit_word_eqI) (auto simp: bit_simps len dest: bit_imp_le_length)
  moreover have "unat (of_nat len :: u32) = len" using assms by (intro unat_of_nat_u32) simp
  ultimately show "token_length (td_tok pid addr tg len) = (len + 1) mod 2048" by (simp add: token_length_def)
qed

lemma td_ctrl_bits:
  "bit (td_ctrl low ioc) 23" "\<not> bit (td_ctrl low ioc) 25" "bit (td_ctrl low ioc) 26 \<longleftrightarrow> low" "bit (td_ctrl low ioc) 24 \<longleftrightarrow> ioc"
  by (cases low; cases ioc; simp add: td_ctrl_def bit_iff_odd_drop_bit drop_bit_eq_div)+


text \<open>What the controller reads in the tokens the driver has built. The lengths are those the driver's six
  bits leave: 64 bytes for the status stage, and packets of more than 64 bytes modulo 64.\<close>

definition control_token :: "u8 \<Rightarrow> nat \<Rightarrow> u8 \<Rightarrow> u8 \<Rightarrow> nat \<Rightarrow> nat \<Rightarrow> u32 \<Rightarrow> bool" where
  "control_token addr mps pid_data pid_status n i tok \<longleftrightarrow>
     token_pid tok = (if i = 0 then 0x2d else if i = n - 1 then pid_status else pid_data) \<and>
     token_address tok = addr AND 0x7f \<and> token_endpoint tok = 0 \<and> token_toggle tok = (odd i \<or> i = n - 1) \<and>
     token_length tok = (if i = 0 then 8 else if i = n - 1 then 64 else (mps - 1) mod 64 + 1)"

lemma control_td_token:
  assumes "td_words m td = control_td low addr mps dr buf tds n pid1 pid2 i" and "2 \<le> n"
  shows "control_token addr mps pid1 pid2 n i (load32 m (td_token td))"
proof -
  have l: "(mps - 1) mod 64 < 64" by simp
  then have "(mps - 1) mod 64 < 2048" "((mps - 1) mod 64 + 1) mod 2048 = (mps - 1) mod 64 + 1" by (linarith, intro mod_less, linarith)
  then show ?thesis
    using assms td_tok_fields [of 7] td_tok_fields [of 63] td_tok_fields [of "(mps - 1) mod 64"]
    by (auto simp: control_token_def td_words_def control_td_def)
qed


section \<open>A chain and how far the controller is\<close>

text \<open>Where a controller writes while it works through a queue: the link of the queue head, the
  status of the descriptors, and the buffer \<open>B\<close> of the data stage.\<close>

definition controller_area :: "u32 \<Rightarrow> u32 \<Rightarrow> nat \<Rightarrow> nat set \<Rightarrow> nat set" where
  "controller_area qh tds N B = span 4 (qh_qelp qh) \<union> (\<Union>j < N. span 4 (td_ctrl_status (td_at tds j))) \<union> B"

text \<open>
  The descriptors of a control transfer as the driver leaves them, behind a queue head, for an answer of
  \<open>n\<close> bytes. The descriptors, the request, the buffer and the element link do not overlap.
\<close>

definition control_chain ::
  "bool \<Rightarrow> u8 \<Rightarrow> u32 \<Rightarrow> u32 \<Rightarrow> nat \<Rightarrow> u32 \<Rightarrow> u32 \<Rightarrow> nat \<Rightarrow> u8 \<Rightarrow> u8 \<Rightarrow> nat \<Rightarrow> mem \<Rightarrow> bool" where
  "control_chain low addr qh tds N dr buf k pid_data pid_status n m \<longleftrightarrow>
     2 \<le> N \<and> tds \<noteq> 0 \<and> 16 dvd unat tds \<and> unat tds + 32 * N \<le> 4294967296 \<and> unat (qh_qelp qh) + 4 \<le> 4294967296 \<and>
     unat buf + n \<le> 4294967296 \<and> unat dr + 8 \<le> 4294967296 \<and>
     span 4 (qh_qelp qh) \<inter> td_array tds N = {} \<and> span n buf \<inter> (td_array tds N \<union> span 4 (qh_qelp qh)) = {} \<and>
     (\<forall>j < N. td_words m (td_at tds j) = control_td low addr k dr buf tds N pid_data pid_status j) \<and>
     load32 m (qh_qelp qh) = tds"

text \<open>The memory after \<open>i\<close> descriptors have been completed; \<open>bs\<close> are the bytes of the function.\<close>

definition chain_progress :: "bool \<Rightarrow> u32 \<Rightarrow> u32 \<Rightarrow> nat \<Rightarrow> u32 \<Rightarrow> nat \<Rightarrow> u8 list \<Rightarrow> mem \<Rightarrow> nat \<Rightarrow> mem \<Rightarrow> bool" where
  "chain_progress low qh tds N buf k bs m0 i m \<longleftrightarrow>
     same_on m0 m (- controller_area qh tds N (span (length bs) buf)) \<and>
     load32 m (qh_qelp qh) = (if i = 0 then tds else if i < N then td_at tds i + 4 else 1) \<and>
     (\<forall>j < N. load32 m (td_ctrl_status (td_at tds j)) AND UHCI_TD_STATUS_ACTIVE = 0 \<and> j < i \<or>
        load32 m (td_ctrl_status (td_at tds j)) = td_ctrl low (j = N - 1) \<and> i \<le> j) \<and>
     (\<forall>x < min (length bs) ((i - 1) * k). m (buf + of_nat x) = bs ! x)"

lemma chain_words:
  assumes "control_chain low addr qh tds N dr buf k pid1 pid2 n m" and "j < N"
  shows "load32 m (td_link_ptr (td_at tds j)) = (if j = N - 1 then 1 else td_at tds (j + 1) + 4)"
    and "load32 m (td_ctrl_status (td_at tds j)) = td_ctrl low (j = N - 1)"
    and "load32 m (td_token (td_at tds j)) = (if j = 0 then td_tok 0x2d addr False 7
      else if j = N - 1 then td_tok pid2 addr True 63 else td_tok pid1 addr (odd j) ((k - 1) mod 64))"
    and "load32 m (td_buffer_ptr (td_at tds j)) = (if j = 0 then dr else if j = N - 1 then 0 else buf + of_nat ((j - 1) * k))"
proof -
  have "td_words m (td_at tds j) = control_td low addr k dr buf tds N pid1 pid2 j" "2 \<le> N"
    using assms by (simp_all add: control_chain_def)
  then show "load32 m (td_link_ptr (td_at tds j)) = (if j = N - 1 then 1 else td_at tds (j + 1) + 4)"
    "load32 m (td_ctrl_status (td_at tds j)) = td_ctrl low (j = N - 1)"
    "load32 m (td_token (td_at tds j)) = (if j = 0 then td_tok 0x2d addr False 7
      else if j = N - 1 then td_tok pid2 addr True 63 else td_tok pid1 addr (odd j) ((k - 1) mod 64))"
    "load32 m (td_buffer_ptr (td_at tds j)) = (if j = 0 then dr else if j = N - 1 then 0 else buf + of_nat ((j - 1) * k))"
    by (auto simp: td_words_def control_td_def split: if_splits)
qed

lemma chain_start:
  assumes "control_chain low addr qh tds N dr buf k pid1 pid2 (length bs) m"
  shows "chain_progress low qh tds N buf k bs m 0 m"
  using assms chain_words(2) [OF assms] by (simp add: chain_progress_def control_chain_def)

text \<open>The fields of a descriptor, apart from what the controller writes.\<close>

lemma chain_places:
  assumes c: "control_chain low addr qh tds N dr buf k pid1 pid2 n m0" and j: "j < N"
  shows "unat (td_at tds j) = unat tds + 32 * j" and "unat (td_ctrl_status (td_at tds j)) = unat tds + 32 * j + 4"
    and "unat (td_token (td_at tds j)) = unat tds + 32 * j + 8" and "unat (td_buffer_ptr (td_at tds j)) = unat tds + 32 * j + 12"
    and "span_ok 20 (td_at tds j)"
proof -
  have arr: "unat tds + 32 * N \<le> 4294967296" "tds \<noteq> 0" using c by (simp_all add: control_chain_def)
  show ok: "span_ok 20 (td_at tds j)" by (rule td_at_facts(1) [OF arr j])
  show u: "unat (td_at tds j) = unat tds + 32 * j" by (rule unat_td_at [OF arr(1) j])
  show "unat (td_ctrl_status (td_at tds j)) = unat tds + 32 * j + 4" "unat (td_token (td_at tds j)) = unat tds + 32 * j + 8"
    "unat (td_buffer_ptr (td_at tds j)) = unat tds + 32 * j + 12"
    using td_field_addr [OF ok] u by simp_all
qed

lemma chain_static:
  assumes c: "control_chain low addr qh tds N dr buf k pid1 pid2 (length bs) m0"
    and p: "chain_progress low qh tds N buf k bs m0 i m" and j: "j < N"
  shows "load32 m (td_link_ptr (td_at tds j)) = load32 m0 (td_link_ptr (td_at tds j))"
    and "load32 m (td_token (td_at tds j)) = load32 m0 (td_token (td_at tds j))"
    and "load32 m (td_buffer_ptr (td_at tds j)) = load32 m0 (td_buffer_ptr (td_at tds j))"
proof -
  let ?D = "controller_area qh tds N (span (length bs) buf)"
  have f: "same_on m0 m (- ?D)" using p by (simp add: chain_progress_def)
  have arr: "span 4 (qh_qelp qh) \<inter> td_array tds N = {}" "span (length bs) buf \<inter> td_array tds N = {}" "unat tds + 32 * N \<le> 4294967296"
    using c by (auto simp: control_chain_def)
  have *: "load32 m q = load32 m0 q" if q: "unat q = unat tds + 32 * j + o'" "o' = 0 \<or> o' = 8 \<or> o' = 12" for q o'
  proof (rule load32_span [OF f])
    have "span 4 q \<subseteq> td_array tds N" using q j by (auto simp: span_def td_array_def)
    moreover have "span 4 q \<inter> span 4 (td_ctrl_status (td_at tds i)) = {}" if "i < N" for i
    proof -
      consider "i = j" | "32 * i + 32 \<le> 32 * j" | "32 * j + 32 \<le> 32 * i" by linarith
      then show ?thesis
        by cases (use q chain_places(2) [OF c \<open>i < N\<close>] in \<open>auto simp: span_def\<close>)
    qed
    ultimately show "span 4 q \<subseteq> - ?D" unfolding controller_area_def using arr by blast
    show "unat q + 4 \<le> 4294967296" using q arr(3) j by auto
  qed
  note u = chain_places [OF c j]
  show "load32 m (td_link_ptr (td_at tds j)) = load32 m0 (td_link_ptr (td_at tds j))"
    by (rule * [of _ 0]) (simp_all add: td_link_ptr_def u)
  show "load32 m (td_token (td_at tds j)) = load32 m0 (td_token (td_at tds j))" by (rule * [of _ 8]) (simp_all add: u)
  show "load32 m (td_buffer_ptr (td_at tds j)) = load32 m0 (td_buffer_ptr (td_at tds j))" by (rule * [of _ 12]) (simp_all add: u)
qed


text \<open>What the controller writes when it completes descriptor \<open>i\<close>.\<close>

lemma chain_buffer:
  assumes c: "control_chain low addr qh tds N dr buf k pid1 pid2 (length bs) m0"
    and room: "length bs \<le> (N - 2) * k" and i: "i < N"
    and old: "\<forall>x < min (length bs) ((i - 1) * k). m (buf + of_nat x) = bs ! x"
    and part_def: "part = (if i = 0 then [] else take k (drop ((i - 1) * k) bs))"
    and m1_def: "m1 = put_bytes m (load32 m0 (td_buffer_ptr (td_at tds i))) part"
  shows "same_on m m1 (- span (length bs) buf)" and "\<forall>x < min (length bs) (i * k). m1 (buf + of_nat x) = bs ! x"
proof -
  have top: "unat buf + length bs \<le> 4294967296" using c by (simp add: control_chain_def)
  have ub: "unat (buf + of_nat x) = unat buf + x" if "x < length bs" for x
    using that top by (simp add: unat_add_u32 unat_of_nat_u32)
  have "same_on m m1 (- span (length bs) buf) \<and> (\<forall>x < min (length bs) (i * k). m1 (buf + of_nat x) = bs ! x)"
  proof (cases "i = 0 \<or> length bs \<le> (i - 1) * k")
    case True
    then have "m1 = m" by (auto simp: m1_def part_def)
    moreover have "x < min (length bs) ((i - 1) * k)" if "x < min (length bs) (i * k)" for x using that True by auto
    ultimately show ?thesis using old by simp
  next
    case False
    let ?o = "(i - 1) * k"
    have "i \<noteq> N - 1" using False room by (auto simp: numeral_2_eq_2)
    then have "load32 m0 (td_buffer_ptr (td_at tds i)) = buf + of_nat ?o" using chain_words(4) [OF c i] False by simp
    then have m1: "m1 = put_bytes m (buf + of_nat ?o) part" by (simp add: m1_def)
    have part: "part = take k (drop ?o bs)" "length part = min (length bs - ?o) k" using False by (simp_all add: part_def)
    have uo: "unat (buf + of_nat ?o) = unat buf + ?o" by (rule ub) (use False in simp)
    have "same_on m m1 (- span (length bs) buf)"
      unfolding m1 by (rule put_bytes_frame) (use part(2) uo False in \<open>auto simp: span_def\<close>)
    moreover have "m1 (buf + of_nat x) = bs ! x" if x: "x < length bs" "x < i * k" for x
    proof (cases "x < ?o")
      case True
      then show ?thesis using old x ub [OF x(1)] uo by (simp add: m1 put_bytes_def)
    next
      case out: False
      have "i * k = ?o + k" using False by (cases i) simp_all
      then have "x < ?o + k" "?o \<le> x" using out x by simp_all
      then have o: "?o \<le> x" "x - ?o < length part" "?o + (x - ?o) = x" using x(1) unfolding part(2) by linarith+
      then have "part ! (x - ?o) = bs ! x" using x(1) by (simp add: part(1) del: One_nat_def)
      moreover have "m1 (buf + of_nat x) = part ! (unat (buf + of_nat x) - unat (buf + of_nat ?o))"
        unfolding m1 put_bytes_def by (rule if_P) (use o(1,2) ub [OF x(1)] uo in linarith)
      ultimately show ?thesis unfolding ub [OF x(1)] uo by simp
    qed
    ultimately show ?thesis by simp
  qed
  then show "same_on m m1 (- span (length bs) buf)" "\<forall>x < min (length bs) (i * k). m1 (buf + of_nat x) = bs ! x" by simp_all
qed

lemma chain_advance:
  assumes c: "control_chain low addr qh tds N dr buf k pid1 pid2 (length bs) m0"
    and room: "length bs \<le> (N - 2) * k"
    and p: "chain_progress low qh tds N buf k bs m0 i m" and i: "i < N" and cs: "cs AND UHCI_TD_STATUS_ACTIVE = 0"
  shows "chain_progress low qh tds N buf k bs m0 (Suc i)
    (store32 (store32 (put_bytes m (load32 m0 (td_buffer_ptr (td_at tds i))) (if i = 0 then [] else take k (drop ((i - 1) * k) bs)))
      (td_ctrl_status (td_at tds i)) cs) (qh_qelp qh) (load32 m0 (td_link_ptr (td_at tds i))))"
    (is "chain_progress _ _ _ _ _ _ _ _ _ (store32 (store32 ?m1 ?s cs) ?q ?l)")
proof -
  let ?m2 = "store32 ?m1 ?s cs" and ?m' = "store32 (store32 ?m1 ?s cs) ?q ?l"
  let ?B = "span (length bs) buf" and ?A = "td_array tds N"
  note C = c [unfolded control_chain_def] and P = p [unfolded chain_progress_def]
  have arr: "unat tds + 32 * N \<le> 4294967296" "unat ?q + 4 \<le> 4294967296" and top: "unat buf + length bs \<le> 4294967296" using C by simp_all
  have apart: "span 4 ?q \<inter> ?A = {}" "?B \<inter> ?A = {}" "?B \<inter> span 4 ?q = {}" using C by auto
  have s: "span 4 (td_ctrl_status (td_at tds j)) \<subseteq> ?A" "unat (td_ctrl_status (td_at tds j)) + 4 \<le> 4294967296"
    "unat (td_ctrl_status (td_at tds j)) = unat tds + 32 * j + 4" if "j < N" for j
    using chain_places(2) [OF c that] that arr(1) by (auto simp: span_def td_array_def)
  have "\<forall>x < min (length bs) ((i - 1) * k). m (buf + of_nat x) = bs ! x" using P by blast
  note b = chain_buffer [OF c room i this refl refl]
  note f1 = b(1)
  have f2: "same_on ?m1 ?m2 (- span 4 ?s)" by (rule same_on_store32) (use s(2) [OF i] in \<open>auto simp: span_def\<close>)
  have f3: "same_on ?m2 ?m' (- span 4 ?q)" by (rule same_on_store32) (use arr(2) in \<open>auto simp: span_def\<close>)
  show ?thesis
    unfolding chain_progress_def
  proof (intro conjI)
    have "?B \<union> span 4 ?s \<union> span 4 ?q \<subseteq> controller_area qh tds N ?B" using i by (auto simp: controller_area_def)
    then have "same_on m ?m' (- controller_area qh tds N ?B)"
      by (intro same_on_trans [OF same_on_mono [OF f1] same_on_trans [OF same_on_mono [OF f2] same_on_mono [OF f3]]]) auto
    then show "same_on m0 ?m' (- controller_area qh tds N ?B)" using P by (blast intro: same_on_trans)
    show "load32 ?m' ?q = (if Suc i = 0 then tds else if Suc i < N then td_at tds (Suc i) + 4 else 1)"
      using chain_words(1) [OF c i] i by auto
    show "\<forall>j < N. load32 ?m' (td_ctrl_status (td_at tds j)) AND UHCI_TD_STATUS_ACTIVE = 0 \<and> j < Suc i \<or>
        load32 ?m' (td_ctrl_status (td_at tds j)) = td_ctrl low (j = N - 1) \<and> Suc i \<le> j"
    proof (intro allI impI)
      fix j assume j: "j < N"
      have "load32 ?m' (td_ctrl_status (td_at tds j)) = load32 ?m2 (td_ctrl_status (td_at tds j))"
        by (rule load32_span [OF f3 _ s(2) [OF j]]) (use s(1) [OF j] apart(1) in blast)
      also have "\<dots> = (if j = i then cs else load32 m (td_ctrl_status (td_at tds j)))"
      proof (cases "j = i")
        case False
        then have "span 4 (td_ctrl_status (td_at tds j)) \<inter> span 4 ?s = {}"
          using s(3) [OF i] s(3) [OF j] by (cases "j < i") (auto simp: span_def)
        then have "load32 ?m2 (td_ctrl_status (td_at tds j)) = load32 ?m1 (td_ctrl_status (td_at tds j))"
          by (intro load32_span [OF f2 _ s(2) [OF j]]) blast
        also have "\<dots> = load32 m (td_ctrl_status (td_at tds j))"
          by (rule load32_span [OF f1 _ s(2) [OF j]]) (use s(1) [OF j] apart(2) in blast)
        finally show ?thesis using False by simp
      qed simp
      finally show "load32 ?m' (td_ctrl_status (td_at tds j)) AND UHCI_TD_STATUS_ACTIVE = 0 \<and> j < Suc i \<or>
        load32 ?m' (td_ctrl_status (td_at tds j)) = td_ctrl low (j = N - 1) \<and> Suc i \<le> j"
        using P cs j by (cases "j = i") (auto simp: le_less)
    qed
    show "\<forall>x < min (length bs) ((Suc i - 1) * k). ?m' (buf + of_nat x) = bs ! x"
    proof (intro allI impI)
      fix x assume x: "x < min (length bs) ((Suc i - 1) * k)"
      have "unat (buf + of_nat x) \<in> ?B" using x top by (simp add: unat_add_u32 unat_of_nat_u32 span_def)
      then have "unat (buf + of_nat x) \<in> - span 4 ?q" "unat (buf + of_nat x) \<in> - span 4 ?s" using apart s(1) [OF i] by blast+
      then have "?m' (buf + of_nat x) = ?m1 (buf + of_nat x)" using same_onD [OF f3] same_onD [OF f2] by simp
      then show "?m' (buf + of_nat x) = bs ! x" using b(2) P x by simp
    qed
  qed
qed

text \<open>One descriptor: when the function takes part in its transaction, the controller goes on to the next.\<close>

lemma chain_step:
  assumes c: "control_chain (f_low_speed d) addr qh tds N dr buf k pid1 pid2 (length bs) m0" and k: "0 < k"
    and room: "length bs \<le> (N - 2) * k"
    and p: "chain_progress (f_low_speed d) qh tds N buf k bs m0 i m" and i: "i < N"
    and t: "usb_transaction d u (load32 m0 (td_token (td_at tds i)))
        (bytes_at m (load32 m0 (td_buffer_ptr (td_at tds i))) (token_length (load32 m0 (td_token (td_at tds i))))) =
      Some (u', if i = 0 then [] else take k (drop ((i - 1) * k) bs), len)"
  shows "\<exists>m'. usb_step d qh (u, irq, m) = Some (u', irq \<or> i = N - 1, m') \<and>
    chain_progress (f_low_speed d) qh tds N buf k bs m0 (Suc i) m'"
proof -
  let ?td = "td_at tds i" and ?q = "qh_qelp qh" and ?D = "controller_area qh tds N (span (length bs) buf)"
  let ?part = "if i = 0 then [] else take k (drop ((i - 1) * k) bs)" and ?bp = "load32 m0 (td_buffer_ptr ?td)"
  note C = c [unfolded control_chain_def] and P = p [unfolded chain_progress_def]
  note w = chain_words [OF c i] and st = chain_static [OF c p i] and u = chain_places [OF c i]
  have arr: "unat tds + 32 * N \<le> 4294967296" "16 dvd unat tds" using C by simp_all
  have ctrl: "load32 m (td_ctrl_status ?td) = td_ctrl (f_low_speed d) (i = N - 1)" using P i by blast
  have flat: "qh + 4 = ?q" "?td + 4 = td_ctrl_status ?td" "?td + 8 = td_token ?td" "?td + 12 = td_buffer_ptr ?td" "?td = td_link_ptr ?td"
    by (simp_all add: uhci_layout)
  have q: "load32 m ?q = (if i = 0 then tds else ?td + 4)" using P i by simp
  have ptr: "load32 m ?q AND 0xfffffff0 = ?td" and low: "load32 m ?q AND 3 = 0"
  proof -
    have al: "16 dvd unat ?td" using u(1) arr(2) by simp
    have t0: "td_at tds 0 = tds" by (simp add: td_at_def)
    show "load32 m ?q AND 0xfffffff0 = ?td"
    proof (cases "i = 0")
      case True then show ?thesis using q t0 aligned_low_bits(2) [OF arr(2)] by simp
    next
      case False then show ?thesis using q link_to_td(2) [OF arr i] by (simp add: uhci_macros)
    qed
    have "?td AND 3 = (?td AND 0xf) AND 3" "tds AND 3 = (tds AND 0xf) AND 3" by (simp_all add: and.assoc)
    then have "?td AND 3 = 0" "tds AND 3 = 0" by (simp_all add: aligned_low_bits(1) [OF al] aligned_low_bits(1) [OF arr(2)])
    moreover have "?td + 4 = ?td OR 4" by (rule or_flags [OF al, symmetric]) simp
    ultimately show "load32 m ?q AND 3 = 0" using q by (simp add: bit.conj_disj_distrib2)
  qed
  let ?m1 = "put_bytes m ?bp ?part" and ?cs = "retired (td_ctrl (f_low_speed d) (i = N - 1)) len"
  let ?m' = "store32 (store32 ?m1 (td_ctrl_status ?td) ?cs) ?q (load32 m (td_link_ptr ?td))"
  have step: "usb_step d qh (u, irq, m) = Some (u', irq \<or> i = N - 1, ?m')"
    using t low st unfolding usb_step.simps Let_def ptr flat(1) flat(2-4)
    by (simp add: ctrl td_ctrl_bits ptr flat(1-4) td_link_ptr_def)
  have "chain_progress (f_low_speed d) qh tds N buf k bs m0 (Suc i) ?m'"
    using chain_advance [OF c room p i, of ?cs] st(1,3) retired_inactive by (simp add: UHCI_TD_STATUS_ACTIVE_def)
  with step show ?thesis by blast
qed


section \<open>The whole chain\<close>

text \<open>
  A function for which the descriptors are right: it answers the request with \<open>bs\<close>, which come in as
  many packets as there are descriptors, or there is no data stage and \<open>bs\<close> is empty.
\<close>

definition transfer_suits :: "usb_function \<Rightarrow> usb_request \<Rightarrow> nat \<Rightarrow> u8 list \<Rightarrow> bool" where
  "transfer_suits d rq k bs \<longleftrightarrow>
     (let (t, r, v, i, l) = rq in
        f_answer d rq = Some bs \<and> length bs = unat l \<and> 0 < k \<and> k \<le> 64 \<and> (bit t 7 \<or> l = 0) \<and>
        (f_packet d = k \<or> unat l \<le> k \<and> unat l \<le> f_packet d))"

text \<open>The stage of the function before descriptor \<open>i\<close> of \<open>N\<close>.\<close>

definition stage_before :: "usb_stage \<Rightarrow> nat \<Rightarrow> nat \<Rightarrow> u8 list \<Rightarrow> nat \<Rightarrow> usb_stage" where
  "stage_before u N k bs i =
     (if i = 0 then u else if i = N then Idle else if bs = [] then Confirming else Sending (drop ((i - 1) * k) bs) (odd i))"

lemma setup_request_at: "setup_request (bytes_at m dr 8) = request_words m dr"
  by (simp add: setup_request_def request_words_def load8_def load16_def uhci_layout add.commute)

lemma packets_room:
  fixes n k :: nat
  assumes "0 < k" shows "n \<le> (n + k - 1) div k * k" and "i + 1 < (n + k - 1) div k + 1 \<Longrightarrow> i * k < n"
proof -
  have "n + k - 1 < ((n + k - 1) div k + 1) * k" using assms by (simp add: dividend_less_div_times)
  then show "n \<le> (n + k - 1) div k * k" using assms by simp
  assume "i + 1 < (n + k - 1) div k + 1"
  then have "i + 1 \<le> (n + k - 1) div k" by simp
  then have "(i + 1) * k \<le> n + k - 1" using assms by (simp add: less_eq_div_iff_mult_less_eq)
  then show "i * k < n" using assms by simp
qed

lemma stage_transaction:
  fixes l :: u16
  assumes fit: "transfer_suits d (t, r, v, ix, l) k bs" and addr: "addr AND 0x7f = f_address d" and N: "N = 2 + (unat l + k - 1) div k"
    and pid: "l \<noteq> 0 \<longrightarrow> pid1 = 0x69" "pid2 = (if l = 0 then 0x69 else 0xe1)"
    and c: "control_chain (f_low_speed d) addr qh tds N dr buf k pid1 pid2 (length bs) m0" and rq: "request_words m0 dr = (t, r, v, ix, l)"
    and i: "i < N" and m: "i = 0 \<longrightarrow> m = m0"
  shows "\<exists>n. usb_transaction d (stage_before u N k bs i) (load32 m0 (td_token (td_at tds i)))
      (bytes_at m (load32 m0 (td_buffer_ptr (td_at tds i))) (token_length (load32 m0 (td_token (td_at tds i))))) =
    Some (stage_before u N k bs (Suc i), if i = 0 then [] else take k (drop ((i - 1) * k) bs), n)"
proof -
  note F = fit [unfolded transfer_suits_def Let_def prod.case]
  note w = chain_words(3,4) [OF c i]
  have k: "0 < k" "k \<le> 64" and len: "length bs = unat l" using F by simp_all
  have l0: "l = 0 \<longleftrightarrow> bs = []" using len by (auto simp: unat_eq_zero)
  have N2: "l = 0 \<longleftrightarrow> N = 2"
    using N k(1) packets_room(1) [OF k(1), of "unat l"] by (auto simp: div_eq_0_iff unat_eq_zero)
  have km: "(k - 1) mod 64 < 2048" "((k - 1) mod 64 + 1) mod 2048 = k" using k by auto
  consider "i = 0" | "i = N - 1" "i \<noteq> 0" | "0 < i" "i < N - 1" using i by linarith
  then show ?thesis
  proof cases
    case 1
    have "bytes_at m dr 8 = bytes_at m0 dr 8" using m 1 by simp
    then show ?thesis
      using w 1 N F td_tok_fields [of 7 "0x2d" addr False] addr rq l0 N2
      by (auto simp: usb_transaction_def usb_setup_def setup_request_at stage_before_def Let_def)
  next
    case 2
    note tf = td_tok_fields [of 63 pid2 addr True]
    have e: "drop ((i - 1) * k) bs = []" using packets_room(1) [OF k(1), of "unat l"] 2 N len by simp
    have tok: "load32 m0 (td_token (td_at tds i)) = td_tok pid2 addr True 63" using w(1) 2 by simp
    have st: "stage_before u N k bs (Suc i) = Idle" "stage_before u N k bs i = (if bs = [] then Confirming else Sending [] (odd i))"
      using 2 i e by (auto simp: stage_before_def)
    show ?thesis
      unfolding tok st using 2(2) tf(1-4) addr pid(2) l0 e by (cases "bs = []") (simp_all add: usb_transaction_def)
  next
    case 3
    have "bs \<noteq> []" using 3 N2 l0 by auto
    then have p1: "pid1 = 0x69" using pid(1) l0 by blast
    have lt: "(i - 1) * k < unat l" by (rule packets_room(2) [OF k(1)]) (use 3 N in simp)
    have pk: "take (f_packet d) (drop ((i - 1) * k) bs) = take k (drop ((i - 1) * k) bs)"
      "drop (f_packet d) (drop ((i - 1) * k) bs) = drop (i * k) bs"
    proof -
      have ik: "i * k = (i - 1) * k + k" using 3(1) by (cases i) simp_all
      have "f_packet d = k \<or> i = 1 \<and> length bs \<le> k \<and> length bs \<le> f_packet d"
      proof (rule disjCI)
        assume "\<not> (i = 1 \<and> length bs \<le> k \<and> length bs \<le> f_packet d)"
        moreover have "\<not> length bs \<le> k" if "i \<noteq> 1"
        proof -
          have "1 \<le> i - 1" using that 3(1) by simp
          then have "1 * k \<le> (i - 1) * k" by (rule mult_le_mono1)
          then show ?thesis using lt unfolding len mult_1 by linarith
        qed
        ultimately show "f_packet d = k" using F len by auto
      qed
      then show "take (f_packet d) (drop ((i - 1) * k) bs) = take k (drop ((i - 1) * k) bs)"
        "drop (f_packet d) (drop ((i - 1) * k) bs) = drop (i * k) bs" by (auto simp: ik add.commute)
    qed
    show ?thesis
      using w 3 td_tok_fields [OF km(1), of pid1 addr "odd i"] km(2) addr p1 pk \<open>bs \<noteq> []\<close>
      by (auto simp: usb_transaction_def stage_before_def)
  qed
qed


text \<open>The controller completes the whole chain, and requests the interrupt with its last descriptor.\<close>

definition chain_done :: "u32 \<Rightarrow> u32 \<Rightarrow> nat \<Rightarrow> u32 \<Rightarrow> u8 list \<Rightarrow> mem \<Rightarrow> bool" where
  "chain_done qh tds N buf bs m \<longleftrightarrow> load32 m (qh_qelp qh) = 1 \<and>
     (\<forall>j < N. load32 m (td_ctrl_status (td_at tds j)) AND UHCI_TD_STATUS_ACTIVE = 0) \<and> bytes_at m buf (length bs) = bs"

lemma chain_walk:
  fixes l :: u16
  assumes fit: "transfer_suits d (t, r, v, ix, l) k bs" and addr: "addr AND 0x7f = f_address d" and N: "N = 2 + (unat l + k - 1) div k"
    and pid: "l \<noteq> 0 \<longrightarrow> pid1 = 0x69" "pid2 = (if l = 0 then 0x69 else 0xe1)"
    and c: "control_chain (f_low_speed d) addr qh tds N dr buf k pid1 pid2 (length bs) m0" and rq: "request_words m0 dr = (t, r, v, ix, l)"
    and i: "i \<le> N"
  shows "\<exists>m. usb_steps d qh i (u, False, m0) = (stage_before u N k bs i, i = N, m) \<and>
    chain_progress (f_low_speed d) qh tds N buf k bs m0 i m"
  using i
proof (induction i)
  case 0
  have "2 \<le> N" using N by simp
  then show ?case using chain_start [OF c] by (simp add: stage_before_def)
next
  case (Suc i)
  then obtain m where m: "usb_steps d qh i (u, False, m0) = (stage_before u N k bs i, i = N, m)"
    "chain_progress (f_low_speed d) qh tds N buf k bs m0 i m" by auto
  have i: "i < N" and k: "0 < k" and room: "length bs \<le> (N - 2) * k"
    using Suc.prems fit packets_room(1) [of k "unat l"] N by (simp_all add: transfer_suits_def)
  obtain n where t: "usb_transaction d (stage_before u N k bs i) (load32 m0 (td_token (td_at tds i)))
      (bytes_at m (load32 m0 (td_buffer_ptr (td_at tds i))) (token_length (load32 m0 (td_token (td_at tds i))))) =
    Some (stage_before u N k bs (Suc i), if i = 0 then [] else take k (drop ((i - 1) * k) bs), n)"
    using stage_transaction [OF fit addr N pid c rq i, of m u] m(1) by (cases "i = 0") auto
  obtain m' where m': "usb_step d qh (stage_before u N k bs i, False, m) = Some (stage_before u N k bs (Suc i), False \<or> i = N - 1, m')"
    "chain_progress (f_low_speed d) qh tds N buf k bs m0 (Suc i) m'"
    using chain_step [OF c k room m(2) i t, of False] by blast
  have "usb_steps d qh (Suc i) (u, False, m0) = (stage_before u N k bs (Suc i), i = N - 1, m')"
    by (rule usb_steps_Suc) (use m(1) m'(1) i in simp)
  moreover have "i = N - 1 \<longleftrightarrow> Suc i = N" using i by auto
  ultimately show ?case using m'(2) by (intro exI [of _ m']) simp
qed

lemma chain_end:
  fixes l :: u16
  assumes "transfer_suits d (t, r, v, ix, l) k bs" and "addr AND 0x7f = f_address d" and N: "N = 2 + (unat l + k - 1) div k"
    and "l \<noteq> 0 \<longrightarrow> pid1 = 0x69" "pid2 = (if l = 0 then 0x69 else 0xe1)"
    and c: "control_chain (f_low_speed d) addr qh tds N dr buf k pid1 pid2 (length bs) m0" and "request_words m0 dr = (t, r, v, ix, l)"
  shows "same_on m0 (usb_memory (usb_steps d qh i (u, False, m0))) (- controller_area qh tds N (span (length bs) buf))"
    and "N \<le> i \<Longrightarrow> usb_interrupt (usb_steps d qh i (u, False, m0))"
    and "N \<le> i \<Longrightarrow> chain_done qh tds N buf bs (usb_memory (usb_steps d qh i (u, False, m0)))"
proof -
  note walk = chain_walk [OF assms, where u = u]
  obtain mN where mN: "usb_steps d qh N (u, False, m0) = (stage_before u N k bs N, True, mN)"
    "chain_progress (f_low_speed d) qh tds N buf k bs m0 N mN" using walk [of N] by auto
  have N2: "2 \<le> N" using N by simp
  have q: "load32 mN (qh_qelp qh) = 1" using mN(2) N2 by (simp add: chain_progress_def)
  then have stuck: "usb_step d qh (usb_steps d qh N (u, False, m0)) = None"
    unfolding mN(1) by (simp add: qh_qelp_def)
  have all: "usb_steps d qh i (u, False, m0) = (stage_before u N k bs N, True, mN)" if "N \<le> i" for i
    using usb_steps_stuck [OF stuck that] mN(1) by simp
  show "same_on m0 (usb_memory (usb_steps d qh i (u, False, m0))) (- controller_area qh tds N (span (length bs) buf))"
  proof (cases "i \<le> N")
    case True
    from walk [OF this] show ?thesis by (auto simp: chain_progress_def usb_memory_def)
  next
    case False
    then show ?thesis using all [of i] mN(2) by (simp add: chain_progress_def usb_memory_def)
  qed
  show "usb_interrupt (usb_steps d qh i (u, False, m0))" if "N \<le> i" using all [OF that] by (simp add: usb_interrupt_def)
  have "bytes_at mN buf (length bs) = bs"
  proof (rule nth_equalityI)
    fix x assume x: "x < length (bytes_at mN buf (length bs))"
    have "0 < k" "length bs = unat l" using assms(1) by (simp_all add: transfer_suits_def)
    then have "length bs \<le> (N - 1) * k" using packets_room(1) [of k "unat l"] N by simp
    then show "bytes_at mN buf (length bs) ! x = bs ! x" using mN(2) x by (simp add: chain_progress_def)
  qed simp
  moreover have "\<forall>j < N. load32 mN (td_ctrl_status (td_at tds j)) AND UHCI_TD_STATUS_ACTIVE = 0"
    using mN(2) by (auto simp: chain_progress_def)
  ultimately show "chain_done qh tds N buf bs (usb_memory (usb_steps d qh i (u, False, m0)))" if "N \<le> i"
    using all [OF that] q by (simp add: chain_done_def usb_memory_def)
qed

end
