(* ===== verification/UhciTheorems.thy ===== *)
theory UhciTheorems
  imports UhciIsr UhciFrames UhciChain HeapTheorems
begin

text \<open>
  What the UHCI driver guarantees: the descriptors it builds, the lists it keeps, what its
  interrupt handler does with them, and that no transfer is ever reported as failed.
\<close>


section \<open>A driver state to run on\<close>

definition usb_start :: uhci_state where
  "usb_start = \<lparr>mem = mem empty_heap, io_log = [], free_block_head = 0x8000, curs_row = 0, curs_col = 0,
     int_handlers = replicate 48 0, idtr_len = 0, idtr_offset = 0, timer_ms_left = 0, drivers = [0, 0, 0],
     registered_drivers = 0, pending_queue = 0\<rparr>"

lemma usb_start_ok: "heap_ok 0x8000 0xC000 usb_start [(0x8000, 0x4000)]"
  using empty_heap_ok by (simp add: heap_ok_def usb_start_def empty_heap_def init_memory_def Let_def)

lemma usb_start_inv: "heap_inv 0x8000 0xC000 usb_start Map.empty"
  using usb_start_ok
  by (intro heap_inv_def [THEN iffD2] exI [of _ "[(0x8000, 0x4000)]"]) (auto simp: live_ok_def)

lemma heap_ok_writes:
  assumes ok: "heap_ok lo hi s bs" and w: "writes_in W s s'" and "W \<inter> fbytes bs = {}"
  shows "heap_ok lo hi s' bs"
  by (rule heap_ok_same [OF ok same_on_mono [OF writes_in_same [OF w]] writes_in_head [OF w]]) (use assms(3) in blast)

lemma grants_at:
  assumes "heap_ok lo hi s bs" and "sz \<noteq> 0" and "align \<noteq> 0" and "unat sz = n"
    and "alloc_spec (start_at align) n bs = Some (g, bs')"
  shows "\<exists>p s'. memalloc_aligned sz align s = Some (p, s') \<and> unat p = g_ptr g \<and> heap_ok lo hi s' bs'"
  by (rule memalloc_aligned_grants [OF assms(1-3), unfolded assms(4), OF assms(5)]) blast

lemma usb_start_alloc:
  obtains s1 where "memalloc sizeof_device_request usb_start = Some (0x8008, s1)"
    and "heap_ok 0x8000 0xC000 s1 [(0x8010, 0x3FF0)]"
proof -
  have sp: "alloc_spec (start_at 4) 8 [(0x8000, 0x4000)] =
     Some (\<lparr>g_ptr = 0x8008, g_start = 0x8000, g_end = 0x8010\<rparr>, [(0x8010, 0x3FF0)])"
    by (simp add: fits_def start_at_def aligned_mem_start_def align_ptr_def granted_def carve_def
        slack_before_def slack_after_def)
  have u: "unat sizeof_device_request = 8" by (simp add: sizeof_device_request_def)
  obtain p s1 where p: "memalloc_aligned sizeof_device_request 4 usb_start = Some (p, s1)" "unat p = 0x8008"
    "heap_ok 0x8000 0xC000 s1 [(0x8010, 0x3FF0)]"
    using grants_at [OF usb_start_ok _ _ u sp] by (auto simp: sizeof_device_request_def)
  have "p = 0x8008" using p(2) by (simp add: word_unat_eq_iff)
  with p(1,3) show thesis by (intro that [of s1]) (simp_all add: memalloc_def)
qed

lemma tds_alloc:
  assumes "heap_ok 0x8000 0xC000 s [(0x8010, 0x3FF0)]"
  shows "\<exists>s'. memalloc_aligned (sizeof_td * of_nat 5) 16 s = Some (0x8020, s')"
proof -
  have sp: "alloc_spec (start_at 16) 160 [(0x8010, 0x3FF0)] =
     Some (\<lparr>g_ptr = 0x8020, g_start = 0x8018, g_end = 0x80C0\<rparr>, [(0x8010, 8), (0x80C0, 0x3F40)])"
    by (simp add: fits_def start_at_def aligned_mem_start_def align_ptr_def granted_def carve_def
        slack_before_def slack_after_def)
  have u: "unat (sizeof_td * of_nat 5) = 160" by (simp add: sizeof_td_def)
  obtain p s1 where p: "memalloc_aligned (sizeof_td * of_nat 5) 16 s = Some (p, s1)" "unat p = 0x8020"
    using grants_at [OF assms _ _ u sp] by (auto simp: sizeof_td_def)
  have "p = 0x8020" using p(2) by (simp add: word_unat_eq_iff)
  with p(1) show ?thesis by blast
qed


section \<open>Building and scheduling transfers\<close>

text \<open>C7: \<open>uhci_create_td_control\<close> always returns, with the number of descriptors, two more than the
  number of packets of at least 8 bytes. When neither allocation is refused, the descriptors
  hold, word for word, what the code builds (\<open>control_td\<close>): a setup stage, a data stage in packets and a
  status stage, in this order, linked depth first from one to the next up to the terminate bit of the
  last one, all active, the last one with the interrupt bit; the data stage alternates the toggle
  from \<open>DATA1\<close> on and advances the buffer by the packet size. Read by a controller (\<open>control_token\<close>) the
  tokens have the packet identifiers, the address and the toggles of a control transfer, but the macro
  for the length keeps six bits of eleven: packets of more than 64 bytes have a length
  modulo 64, and the status stage asks for 64 bytes where the code means the null packet. The
  request structure holds the request; both blocks are new live allocations and no live byte has
  changed.\<close>

theorem create_td_control_correct:
  fixes len :: u16
  assumes "heap_inv lo hi s L"
    and "{unat dev..<unat dev + 24} \<subseteq> owned L \<union> - {lo..<hi}" and "unat dev + 24 \<le> 4294967296"
  defines "mps \<equiv> max 8 (unat (ld8 (usb_max_packet_size dev) s))"
  defines "n \<equiv> 2 + (unat len + mps - 1) div mps"
  shows "n \<le> 8194 \<and>
    (\<exists>dr s1 tds s'. uhci_create_td_control dev rt rq val index len pid1 pid2 buf s = Some (of_nat n, tds, s') \<and>
      memalloc sizeof_device_request s = Some (dr, s1) \<and>
      (dr = 0 \<or> tds = 0 \<or>
       16 dvd unat tds \<and> request_words (mem s') dr = (rt, rq, val, index, len) \<and>
       (\<forall>i < n. td_words (mem s') (td_at tds i) =
          control_td (ld8 dev s \<noteq> 0) (ld8 (usb_addr dev) s) mps dr buf tds n pid1 pid2 i) \<and>
       (\<forall>i < n. control_token (ld8 (usb_addr dev) s) mps pid1 pid2 n i (ld32 (td_token (td_at tds i)) s')) \<and>
       td_list (mem s') tds (map (td_at tds) [0..<n]) \<and>
       same_on (mem s) (mem s') (owned L \<union> - {lo..<hi}) \<and> L dr = None \<and> L tds = None \<and>
       (\<exists>a e b f. heap_inv lo hi s' (L(dr \<mapsto> (a, e), tds \<mapsto> (b, f))))))"
proof -
  have "8 \<le> mps" by (simp add: mps_def)
  then have n: "n \<le> 8194" "2 \<le> n" using packets_bound [of mps len] by (simp_all add: n_def)
  have "mps = max 8 (unat (ld8 (usb_max_packet_size dev) s))" by (simp add: mps_def)
  then obtain dr tds s' where c: "uhci_create_td_control dev rt rq val index len pid1 pid2 buf s = Some (of_nat n, tds, s')"
    "\<exists>s1. memalloc sizeof_device_request s = Some (dr, s1)"
    "dr \<noteq> 0 \<longrightarrow> tds \<noteq> 0 \<longrightarrow> L dr = None \<and> L tds = None \<and> dr \<noteq> tds \<and> 16 dvd unat tds \<and> unat tds + 32 * n \<le> 4294967296 \<and>
      (\<exists>a e b f. heap_inv lo hi s' (L(dr \<mapsto> (a, e), tds \<mapsto> (b, f))) \<and> unat dr + 8 \<le> e \<and> unat tds + 32 * n \<le> f) \<and>
      request_words (mem s') dr = (rt, rq, val, index, len) \<and>
      (\<forall>j < n. td_words (mem s') (td_at tds j) =
        control_td (ld8 dev s \<noteq> 0) (ld8 (usb_addr dev) s) mps dr buf tds n pid1 pid2 j) \<and>
      same_on (mem s) (mem s') (owned L \<union> - {lo..<hi}) \<and> heap_state.more s' = heap_state.more s"
    by (rule create_td_run [OF assms(1-3) _ n_def [THEN meta_eq_to_obj_eq]])
  have "dr = 0 \<or> tds = 0 \<or> td_list (mem s') tds (map (td_at tds) [0..<n])"
    using c(3) control_list [OF _ _ n(2)] by metis
  moreover have "dr = 0 \<or> tds = 0 \<or> (\<forall>i < n. control_token (ld8 (usb_addr dev) s) mps pid1 pid2 n i (ld32 (td_token (td_at tds i)) s'))"
    using c(3) control_td_token [OF _ n(2)] by blast
  ultimately show ?thesis using c n(1) by metis
qed

theorem create_td_control_correct_witness:
  "\<exists>s'. uhci_create_td_control 0x5000 0x80 6 0x100 0 18 0x69 0xe1 0x6000 usb_start = Some (5, 0x8020, s') \<and>
     request_words (mem s') 0x8008 = (0x80, 6, 0x100, 0, 18) \<and>
     td_words (mem s') 0x8020 = [0x8044, 0x18800000, 0x00e0002d, 0x8008, 1] \<and>
     td_words (mem s') 0x8040 = [0x8064, 0x18800000, 0x00e80069, 0x6000, 1] \<and>
     td_words (mem s') 0x8060 = [0x8084, 0x18800000, 0x00e00069, 0x6008, 2] \<and>
     td_words (mem s') 0x8080 = [0x80a4, 0x18800000, 0x00e80069, 0x6010, 3] \<and>
     td_words (mem s') 0x80a0 = [1, 0x19800000, 0x07e800e1, 0, 5]"
proof -
  have z: "ld8 (usb_max_packet_size 0x5000) usb_start = 0" "ld8 0x5000 usb_start = 0" "ld8 (usb_addr 0x5000) usb_start = 0"
    by (simp_all add: usb_start_def empty_heap_def init_memory_def uhci_layout Let_def load8_def st32_def store32_def)
  have n: "max 8 (unat (ld8 (usb_max_packet_size 0x5000) usb_start)) = 8" "2 + (unat (18 :: u16) + 8 - 1) div 8 = 5"
    by (simp_all add: z)
  obtain s1 where s1: "memalloc sizeof_device_request usb_start = Some (0x8008, s1)"
    "heap_ok 0x8000 0xC000 s1 [(0x8010, 0x3FF0)]" by (rule usb_start_alloc)
  have "heap_ok 0x8000 0xC000 (fill_request 0x8008 0x80 6 0x100 0 18 s1) [(0x8010, 0x3FF0)]"
    by (rule heap_ok_writes [OF s1(2) fill_request_writes]) (simp_all add: span_def)
  then obtain s2 where "memalloc_aligned (sizeof_td * of_nat 5) 16 (fill_request 0x8008 0x80 6 0x100 0 18 s1) = Some (0x8020, s2)"
    using tds_alloc by blast
  then have run: "\<exists>s'. uhci_create_td_control 0x5000 0x80 6 0x100 0 18 0x69 0xe1 0x6000 usb_start = Some (5, 0x8020, s')"
    using s1(1) unfolding create_td_eq n Let_def by simp
  have dev: "{unat (0x5000 :: u32)..<unat (0x5000 :: u32) + 24} \<subseteq> owned Map.empty \<union> - {0x8000..<0xC000}"
    "unat (0x5000 :: u32) + 24 \<le> 4294967296" by auto
  obtain s' where s': "uhci_create_td_control 0x5000 0x80 6 0x100 0 18 0x69 0xe1 0x6000 usb_start = Some (5, 0x8020, s')"
    "request_words (mem s') 0x8008 = (0x80, 6, 0x100, 0, 18)"
    "\<forall>i < 5. td_words (mem s') (td_at 0x8020 i) = control_td False 0 8 0x8008 0x6000 0x8020 5 0x69 0xe1 i"
    using create_td_control_correct [OF usb_start_inv dev, of 18 "0x80" 6 "0x100" 0 "0x69" "0xe1" "0x6000", unfolded n] run s1(1)
    by (auto simp: z)
  have "td_at 0x8020 0 = 0x8020" "td_at 0x8020 1 = 0x8040" "td_at 0x8020 2 = 0x8060" "td_at 0x8020 3 = 0x8080" "td_at 0x8020 4 = 0x80a0"
    by (simp_all add: td_at_def)
  note w = s'(3) [THEN spec, of 0, unfolded this(1)] s'(3) [THEN spec, of 1, unfolded this(2)] s'(3) [THEN spec, of 2, unfolded this(3)]
    s'(3) [THEN spec, of 3, unfolded this(4)] s'(3) [THEN spec, of 4, unfolded this(5)]
  have "control_td False 0 8 0x8008 0x6000 0x8020 5 0x69 0xe1 i =
      [[0x8044, 0x18800000, 0x00e0002d, 0x8008, 1], [0x8064, 0x18800000, 0x00e80069, 0x6000, 1],
       [0x8084, 0x18800000, 0x00e00069, 0x6008, 2], [0x80a4, 0x18800000, 0x00e80069, 0x6010, 3],
       [1, 0x19800000, 0x07e800e1, 0, 5]] ! i" if "i < 5" for i
  proof -
    have "i \<in> {0, 1, 2, 3, 4}" using that by auto
    then show ?thesis
      by (auto simp: control_td_def td_ctrl_def td_tok_def td_at_def push_bit_eq_mult)
  qed
  with w s'(1,2) show ?thesis by (intro exI [of _ s']) simp
qed

text \<open>C13: Scheduling a transfer appends its entry to the queue of pending transfers and its
  descriptors to the list the controller works through (behind the queue head or behind the
  last descriptor), and writes one successor field and one link only, when the entries, the
  descriptors and the queue head do not overlap.\<close>

theorem schedule_queue_appends:
  assumes "linked te_next (mem s) (pending_queue s) es" and "ld32 (te_next te) s = 0"
    and "td_list (mem s) (ld32 (qh_qelp qh) s) old" and "td_list (mem s) (ld32 (te_first te) s) new"
    and "16 dvd unat (ld32 (te_first te) s)" and "spans_apart 20 (es @ te # old @ new)"
    and "span_ok 8 qh" and "\<forall>x \<in> set (es @ te # old @ new). span 8 qh \<inter> span 20 x = {}"
  shows "\<exists>s'. uhci_schedule_queue qh te s = Some s' \<and>
    linked te_next (mem s') (pending_queue s') (es @ [te]) \<and>
    td_list (mem s') (ld32 (qh_qelp qh) s') (old @ new) \<and>
    same_on (mem s) (mem s') (- link_bytes qh es old) \<and> io_log s' = io_log s"
  by (rule schedule_run [OF assms]) auto

text \<open>An example: entry \<open>A\<close> at \<open>0x1100\<close> with one completed descriptor at \<open>0x2000\<close>, entry \<open>B\<close> at
  \<open>0x1140\<close> with one active descriptor at \<open>0x2020\<close>, flags at \<open>0x3000\<close> and \<open>0x3001\<close>, and a queue
  head at \<open>0x1000\<close>; \<open>next\<close> is the successor of \<open>A\<close>.\<close>

definition demo_hw :: hw where
  "demo_hw = \<lparr>hw_inb = \<lambda>_ _. 0, hw_inw = \<lambda>_ _. 1, hw_inl = \<lambda>_ _. 0, hw_irq = \<lambda>_. 32, hw_dma = \<lambda>_ m. m\<rparr>"

definition demo_env :: uhci_env where
  "demo_env = \<lparr>v_hw = demo_hw, v_itoa_fixed = 0x4000, v_print_buf = 0x4100, v_callback = 0x5000, v_uhci_isr = 0x5010,
     v_done = 0x3000, v_desc_len = 0x3004\<rparr>"

definition demo_mem :: "u32 \<Rightarrow> mem" where
  "demo_mem next = fold (\<lambda>(p, v) m. store32 m p v)
     [(0x1000, 1), (0x1004, 0x2000),
      (0x1100, 0x2000), (0x1104, 0x2000), (0x1108, 0x5000), (0x110C, 0x3000), (0x1110, next),
      (0x1140, 0x2020), (0x1144, 0x2020), (0x1148, 0x5000), (0x114C, 0x3001), (0x1150, 0),
      (0x2000, 1), (0x2004, 0x18000000), (0x2020, 1), (0x2024, 0x18800000), (0x6000, 0xC000)] (\<lambda>_. 0)"

definition demo_state :: "u32 \<Rightarrow> uhci_state" where
  "demo_state next = usb_start\<lparr>mem := demo_mem next, pending_queue := 0x1100\<rparr>"

lemma demo_loads:
  "load32 (demo_mem n) 0x1004 = 0x2000" "load32 (demo_mem n) 0x1110 = n" "load32 (demo_mem n) 0x1150 = 0"
  "load32 (demo_mem n) 0x2000 = 1" "load32 (demo_mem n) 0x2020 = 1" "load32 (demo_mem n) 0x1144 = 0x2020"
  "load32 (demo_mem n) 0x1100 = 0x2000" "load32 (demo_mem n) 0x1104 = 0x2000" "load32 (demo_mem n) 0x1108 = 0x5000"
  "load32 (demo_mem n) 0x110C = 0x3000" "load32 (demo_mem n) 0x1140 = 0x2020" "load32 (demo_mem n) 0x1148 = 0x5000"
  "load32 (demo_mem n) 0x114C = 0x3001" "load32 (demo_mem n) 0x2004 = 0x18000000" "load32 (demo_mem n) 0x2024 = 0x18800000"
  by (simp_all add: demo_mem_def load32_store32_other)

lemma demo_bytes: "load16 (demo_mem n) 0x6000 = 0xC000" "load8 (demo_mem n) 0x3001 = 0"
  by (simp_all add: demo_mem_def load16_def load8_def store32_def)

lemmas demo_fields = te_last_def te_first_def te_handler_def te_userdata_def te_next_def qh_qelp_def
  td_link_ptr_def td_ctrl_status_def ud_iobase_def

theorem schedule_queue_appends_witness:
  "\<exists>s'. uhci_schedule_queue 0x1000 0x1140 (demo_state 0) = Some s' \<and>
     linked te_next (mem s') (pending_queue s') [0x1100, 0x1140] \<and> td_list (mem s') (ld32 0x1004 s') [0x2000, 0x2020]"
proof -
  let ?s = "demo_state 0"
  have m: "mem ?s = demo_mem 0" "pending_queue ?s = 0x1100" by (simp_all add: demo_state_def)
  have "\<exists>s'. uhci_schedule_queue 0x1000 0x1140 ?s = Some s' \<and>
      linked te_next (mem s') (pending_queue s') ([0x1100] @ [0x1140]) \<and>
      td_list (mem s') (ld32 (qh_qelp 0x1000) s') ([0x2000] @ [0x2020]) \<and>
      same_on (mem ?s) (mem s') (- link_bytes 0x1000 [0x1100] [0x2000]) \<and> io_log s' = io_log ?s"
    by (rule schedule_queue_appends)
      (simp_all add: m demo_loads demo_fields uhci_macros span_ok_def span_def)
  then show ?thesis by (auto simp: qh_qelp_def)
qed


section \<open>The interrupt handler\<close>

text \<open>C12: The interrupt handler declines when the status register reads zero. Otherwise it returns
  after it has set the flag of exactly those pending transfers whose last descriptor is no
  longer active, and acknowledges the interrupt last. The transfers that have not completed
  stay in the queue in their order, except that the whole queue is dropped when its first
  transfer has completed; nothing but the flags, the successor fields and the places messages
  are printed to is written.\<close>

theorem uhci_isr_completes:
  fixes s :: "'a uhci_state_scheme"
  assumes "pending_layout env es T F" and "on_screen s" and "\<forall>e \<in> set es. transfer env (mem s) e (T e) (F e)"
    and "linked te_next (mem s) (pending_queue s) es"
    and "span 2 dev \<inter> touched env F (set es) (set es) = {}" and "unat dev + 2 \<le> 4294967296"
  shows "let port = ld16 (ud_iobase dev) s + 2; status = hw_inw hw (io_log s) port in
    if status = 0 then uhci_isr hw (te_dispatch env) n dev s = Some (False, log_event (InW port status) s)
    else \<exists>s'. uhci_isr hw (te_dispatch env) n dev s = Some (True, s') \<and> last (io_log s') = OutW port 0x1f \<and>
      (\<forall>e \<in> set es. ld8 (F e) s' = (if completed (mem s) e then 1 else ld8 (F e) s)) \<and>
      linked te_next (mem s') (pending_queue s') (left_pending (mem s) es) \<and>
      same_on (mem s) (mem s') (- touched env F {e \<in> set es. completed (mem s) e} (set es))"
proof -
  let ?port = "ld16 (ud_iobase dev) s + UHCI_USBSTS"
  have p: "ld16 (ud_iobase dev) s + 2 = ?port" by (simp add: UHCI_USBSTS_def)
  show ?thesis
  proof (cases "hw_inw hw (io_log s) ?port = 0")
    case True
    then show ?thesis unfolding Let_def p by (simp add: uhci_isr_def uhci_read_16_def inw_def Let_def)
  next
    case False
    from uhci_isr_run [OF assms False, of n] obtain s1 s' where r: "uhci_isr hw (te_dispatch env) n dev s = Some (True, s')"
      "isr_step env F {e \<in> set es. completed (mem s) e} (set es) (pending_queue s') s s1"
      "s' = log_event (OutW ?port 0x1f) s1"
      "\<forall>e \<in> set es. ld8 (F e) s' = (if completed (mem s) e then 1 else ld8 (F e) s)"
      "linked te_next (mem s') (pending_queue s') (left_pending (mem s) es)" by blast
    have "last (io_log s') = OutW ?port 0x1f" "mem s' = mem s1" by (simp_all add: r(3))
    with r isr_step_simps(3) [OF r(2)] False show ?thesis unfolding Let_def p by auto
  qed
qed

theorem uhci_isr_completes_witness:
  "\<exists>s'. uhci_isr demo_hw (te_dispatch demo_env) 43 0x6000 (demo_state 0x1140) = Some (True, s') \<and>
     ld8 0x3000 s' = 1 \<and> ld8 0x3001 s' = 0 \<and> pending_queue s' = 0 \<and> last (io_log s') = OutW 0xC002 0x1f"
proof -
  let ?s = "demo_state 0x1140" and ?T = "\<lambda>e :: u32. [if e = 0x1100 then 0x2000 else 0x2020 :: u32]"
    and ?F = "\<lambda>e :: u32. if e = 0x1100 then 0x3000 else 0x3001 :: u32"
  have m: "mem ?s = demo_mem 0x1140" "pending_queue ?s = 0x1100" "on_screen ?s" "io_log ?s = []"
    by (simp_all add: demo_state_def on_screen_def usb_start_def)
  have L: "pending_layout demo_env [0x1100, 0x1140] ?T ?F"
    by (auto simp: pending_layout_def buffer_ok_def demo_env_def chatter_def span_ok_def span_def)
  have t: "\<forall>e \<in> set [0x1100, 0x1140]. transfer demo_env (mem ?s) e (?T e) (?F e)"
    by (simp add: m transfer_def demo_loads demo_fields demo_env_def)
  have q: "linked te_next (mem ?s) (pending_queue ?s) [0x1100, 0x1140]"
    by (simp add: m demo_loads demo_fields)
  have d: "span 2 0x6000 \<inter> touched demo_env ?F (set [0x1100, 0x1140]) (set [0x1100, 0x1140]) = {}"
    by (auto simp: touched_def chatter_def span_def demo_env_def demo_fields)
  have c: "completed (mem ?s) 0x1100" "\<not> completed (mem ?s) 0x1140"
    by (simp_all add: m completed_def demo_loads demo_fields uhci_macros push_bit_eq_mult)
  have p: "ld16 (ud_iobase 0x6000) ?s = 0xC000" "hw_inw demo_hw l r = 1" for l r
    by (simp_all add: m demo_bytes demo_fields demo_hw_def)
  from uhci_isr_completes [OF L m(3) t q d, of demo_hw 43] show ?thesis
    using c by (auto simp: p left_pending_def m demo_bytes ud_iobase_def Let_def)
qed

text \<open>\<open>uhci_print_td_status\<close> returns false exactly when an error bit (stall, data buffer, babble,
  NAK, CRC or time-out, bit stuffing) of the status is set, and writes to the screen and the
  number buffer only.\<close>

theorem print_td_status_verdict:
  assumes "on_screen s" and "buffer_ok (v_itoa_fixed env)"
    and "span 20 td \<inter> chatter (v_itoa_fixed env) = {}" and "span_ok 20 td"
  shows "\<exists>s'. uhci_print_td_status env td s = Some (ld32 (td_ctrl_status td) s AND 0x007e0000 = 0, s') \<and>
    on_screen s' \<and> same_on (mem s) (mem s') (- chatter (v_itoa_fixed env))"
  using print_td_status_run [OF assms] unfolding td_error_def talks_def by auto

theorem print_td_status_verdict_witness:
  "\<exists>s'. uhci_print_td_status demo_env 0x2000 ((demo_state 0)\<lparr>mem := store32 (demo_mem 0) 0x2004 0x18440000\<rparr>) = Some (False, s')"
proof -
  let ?s = "(demo_state 0)\<lparr>mem := store32 (demo_mem 0) 0x2004 0x18440000\<rparr>"
  have pre: "on_screen ?s" "buffer_ok (v_itoa_fixed demo_env)" "span 20 0x2000 \<inter> chatter (v_itoa_fixed demo_env) = {}" "span_ok 20 0x2000"
    by (auto simp: demo_state_def on_screen_def usb_start_def buffer_ok_def demo_env_def chatter_def span_def span_ok_def)
  have "ld32 (td_ctrl_status 0x2000) ?s = 0x18440000" by (simp add: td_ctrl_status_def)
  then have "\<not> (ld32 (td_ctrl_status 0x2000) ?s AND 0x007e0000 = 0)" by simp
  moreover obtain s' where "uhci_print_td_status demo_env 0x2000 ?s = Some (ld32 (td_ctrl_status 0x2000) ?s AND 0x007e0000 = 0, s')"
    using print_td_status_verdict [OF pre] by blast
  ultimately show ?thesis by (intro exI [of _ s']) simp
qed


section \<open>The frame list\<close>

text \<open>C14: \<open>uhci_init_frame_list\<close> returns; when neither allocation is refused, all 1024 entries of the
  page aligned frame list point to one queue head, which is empty and stored in \<open>uhci_dev\<close>, and
  the base register is written with the address of the list. It also stores that address
  through \<open>frame_list_base\<close>, a field that nothing has initialised: the theorem needs the four
  bytes it happens to point to not to matter.\<close>

theorem init_frame_list_correct:
  assumes "heap_inv lo hi s L"
    and "span 20 dev \<subseteq> (owned L \<inter> payload L) \<union> - {lo..<hi}" and "unat dev + 20 \<le> 4294967296"
    and "fb = ld32 (ud_frame_list_base dev) s" and "span 4 fb \<inter> ({lo..<hi} \<union> span 20 dev) = {}" and "unat fb + 4 \<le> 4294967296"
  shows "\<exists>fl s1 qh s2 s'. memalloc_aligned 4096 4096 s = Some (fl, s1) \<and> memalloc_aligned sizeof_queue_head 16 s1 = Some (qh, s2) \<and>
    uhci_init_frame_list dev s = Some s' \<and> (fl = 0 \<or> qh = 0 \<or>
      4096 dvd unat fl \<and> 16 dvd unat qh \<and> (\<forall>i < 1024. ld32 (fl + 4 * of_nat i) s' = qh + 2) \<and>
      ld32 (ud_qh1ms dev) s' = qh \<and> td_list (mem s') (ld32 (qh_qelp qh) s') [] \<and> ld32 fb s' = fl \<and>
      io_log s' = io_log s @ [OutL (ld16 (ud_iobase dev) s + 8) fl] \<and>
      (\<exists>a e b f. heap_inv lo hi s' (L(fl \<mapsto> (a, e), qh \<mapsto> (b, f)))))"
proof -
  obtain fl s1 qh s2 s' where al: "memalloc_aligned 4096 4096 s = Some (fl, s1)" "memalloc_aligned sizeof_queue_head 16 s1 = Some (qh, s2)"
    and r: "uhci_init_frame_list dev s = Some s'" "fl \<noteq> 0 \<longrightarrow> qh \<noteq> 0 \<longrightarrow>
      4096 dvd unat fl \<and> 16 dvd unat qh \<and> (\<forall>i < 1024. ld32 (fl + 4 * of_nat i) s' = qh + 2) \<and>
      ld32 (ud_qh1ms dev) s' = qh \<and> ld32 (qh_qhlp qh) s' = 1 \<and> ld32 (qh_qelp qh) s' = 1 \<and> ld32 fb s' = fl \<and>
      io_log s' = io_log s @ [OutL (ld16 dev s + 8) fl] \<and>
      (\<exists>a e b f. heap_inv lo hi s' (L(fl \<mapsto> (a, e), qh \<mapsto> (b, f))) \<and> unat fl + 4096 \<le> e \<and> unat qh + 8 \<le> f)"
    using init_frame_list_run [OF assms] by blast
  have "ld32 (qh_qelp qh) s' = 1 \<Longrightarrow> td_list (mem s') (ld32 (qh_qelp qh) s') []"
    by (simp add: UHCI_TD_LPTR_TERM_def)
  with al r show ?thesis
    unfolding ud_iobase_def by (intro exI [of _ fl] exI [of _ s1] exI [of _ qh] exI [of _ s2] exI [of _ s']) blast
qed

theorem init_frame_list_correct_witness:
  "\<exists>s'. uhci_init_frame_list 0x5000 usb_start = Some s' \<and> ld32 0x9000 s' = 0x8012 \<and> ld32 0x9FFC s' = 0x8012 \<and>
     ld32 (ud_qh1ms 0x5000) s' = 0x8010 \<and> io_log s' = [OutL 8 0x9000]"
proof -
  have z: "ld32 (ud_frame_list_base 0x5000) usb_start = 0" "ld16 (ud_iobase 0x5000) usb_start = 0" "io_log usb_start = []"
    by (simp_all add: usb_start_def empty_heap_def init_memory_def ud_frame_list_base_def ud_iobase_def Let_def
        load32_def load16_def st32_def store32_def)
  have d: "span 20 0x5000 \<subseteq> (owned Map.empty \<inter> payload Map.empty) \<union> - {0x8000..<0xC000}" by (auto simp: span_def)
  have f: "span 4 0 \<inter> ({0x8000..<0xC000} \<union> span 20 0x5000) = {}" by (auto simp: span_def)
  have sp: "alloc_spec (start_at 4096) 4096 [(0x8000, 0x4000)] =
     Some (\<lparr>g_ptr = 0x9000, g_start = 0x8FF8, g_end = 0xA000\<rparr>, [(0x8000, 0xFF8), (0xA000, 0x2000)])"
    "alloc_spec (start_at 16) 8 [(0x8000, 0xFF8), (0xA000, 0x2000)] =
     Some (\<lparr>g_ptr = 0x8010, g_start = 0x8008, g_end = 0x8018\<rparr>, [(0x8000, 8), (0x8018, 0xFE0), (0xA000, 0x2000)])"
    by (simp_all add: fits_def start_at_def aligned_mem_start_def align_ptr_def granted_def carve_def
        slack_before_def slack_after_def)
  obtain fl s1 where a: "memalloc_aligned 4096 4096 usb_start = Some (fl, s1)" "unat fl = 0x9000"
    "heap_ok 0x8000 0xC000 s1 [(0x8000, 0xFF8), (0xA000, 0x2000)]"
    using grants_at [OF usb_start_ok _ _ _ sp(1), of 4096] by auto
  obtain qh s2 where b: "memalloc_aligned sizeof_queue_head 16 s1 = Some (qh, s2)" "unat qh = 0x8010"
    using grants_at [OF a(3) _ _ _ sp(2), of sizeof_queue_head] by (auto simp: sizeof_queue_head_def)
  have p: "fl = 0x9000" "qh = 0x8010" using a(2) b(2) by (simp_all add: word_unat_eq_iff)
  obtain s' where s': "uhci_init_frame_list 0x5000 usb_start = Some s'" "\<forall>i < 1024. ld32 (0x9000 + 4 * of_nat i) s' = 0x8012"
    "ld32 (ud_qh1ms 0x5000) s' = 0x8010" "io_log s' = [OutL 8 0x9000]"
    using init_frame_list_correct [OF usb_start_inv d _ z(1) [symmetric] f] a(1) b(1) by (auto simp: p z)
  from s'(2) [THEN spec, of 0] s'(2) [THEN spec, of 1023] s' show ?thesis by auto
qed


section \<open>No transfer fails\<close>

lemma wait_true: "uhci_wait_entry_complete hw isr te s = Some r \<Longrightarrow> fst r"
  by (induction rule: uhci_wait_entry_complete.raw_induct [rotated 1, consumes 1])
    (auto split: if_splits Option.bind_splits)

lemma run_entry_true: "run_entry env isr dev td ntd s = Some r \<Longrightarrow> fst r"
  unfolding run_entry_def Let_def
  by (auto split: Option.bind_splits prod.splits dest!: wait_true)

text \<open>C15: No transfer is ever reported as failed: whatever the descriptors of a transfer say when it
  ends, the functions that read descriptors and set the address return true or do not return,
  so the error paths of their callers are dead code.\<close>

theorem transfers_never_fail:
  "uhci_read_dev_desc env isr dev udev desc s \<noteq> Some (False, s') \<and>
   uhci_read_dev_desc_maxpkg env isr dev udev desc s \<noteq> Some (False, s') \<and>
   uhci_set_device_address env isr dev udev addr s \<noteq> Some (False, s') \<and>
   uhci_read_string_desc env isr dev udev index sdesc s \<noteq> Some (False, sdesc', s')"
proof (intro conjI notI)
  assume "uhci_read_dev_desc env isr dev udev desc s = Some (False, s')"
  then show False
    unfolding uhci_read_dev_desc_def by (auto split: Option.bind_splits prod.splits dest!: run_entry_true)
next
  assume "uhci_read_dev_desc_maxpkg env isr dev udev desc s = Some (False, s')"
  then show False
    unfolding uhci_read_dev_desc_maxpkg_def by (auto split: Option.bind_splits prod.splits dest!: run_entry_true)
next
  assume "uhci_set_device_address env isr dev udev addr s = Some (False, s')"
  then show False
    unfolding uhci_set_device_address_def Let_def by (auto split: Option.bind_splits prod.splits dest!: run_entry_true)
next
  assume "uhci_read_string_desc env isr dev udev index sdesc s = Some (False, sdesc', s')"
  then show False
    unfolding uhci_read_string_desc_def Let_def
    by (auto split: Option.bind_splits prod.splits if_splits dest!: run_entry_true)
qed

end
