(* ===== verification/Stage2.thy ===== *)
theory Stage2
  imports Uhci PciProof SerialTheorems
begin

text \<open>
  The main program, \<open>boot/stage2.c\<close>: the order in which the components are started, and the
  wiring between them, which in the source is made of function pointers: the interrupt entries call
  \<open>idt_common_isr\<close>, which calls \<open>pit_timer_isr\<close> or \<open>uhci_isr\<close>, which calls the completion
  handler; the scan of the PCI bus calls \<open>pci_dev_init_cb\<close>.
\<close>

record boot_env =
  b_uhci :: uhci_env
  b_int_h :: u32
  b_pit_isr :: u32
  b_drv :: u32
  b_init_cb :: u32
  b_tmp_dev :: u32
  b_heap_start :: u32
  b_heap_end :: u32


section \<open>The wiring\<close>

definition uhci_handlers ::
  "boot_env \<Rightarrow> u32 \<Rightarrow> u8 \<Rightarrow> u32 \<Rightarrow> 'a uhci_state_scheme \<Rightarrow> (bool \<times> 'a uhci_state_scheme) option" where
  "uhci_handlers b f int_n userdata s =
     (if f = v_uhci_isr (b_uhci b)
      then uhci_isr (v_hw (b_uhci b)) (te_dispatch (b_uhci b)) int_n userdata s
      else None)"

definition boot_isr :: "boot_env \<Rightarrow> 'a isr" where
  "boot_isr b = idt_common_isr (v_itoa_fixed (b_uhci b)) (pit_dispatch (b_pit_isr b) (uhci_handlers b))"

definition init_dispatch ::
  "boot_env \<Rightarrow> u32 \<Rightarrow> u32 \<Rightarrow> 'a uhci_state_scheme \<Rightarrow> (bool \<times> 'a uhci_state_scheme) option" where
  "init_dispatch b f dev s =
     (if f = b_init_cb b then pci_dev_init_cb (b_uhci b) (boot_isr b) dev s else None)"


section \<open>\<open>stage2_main\<close>, up to its endless loop\<close>

definition stage2_setup :: "boot_env \<Rightarrow> 'a uhci_state_scheme \<Rightarrow> 'a uhci_state_scheme option" where
  "stage2_setup b s = do {
     let hw = v_hw (b_uhci b);
     let s = init_output hw s;
     s \<leftarrow> pit_init (b_int_h b) s;
     (ok, s) \<leftarrow> serial_init_port hw (boot_isr b) COM1 115200 s;
     let s = (if \<not> ok then print_text (text_bytes ''COM1 fail'') s else s);
     let s = print_text (text_bytes ''Hello from C!\<newline>'') s;
     let s = init_memory (b_heap_start b) (b_heap_end b) s;
     let s = uhci_init (b_drv b) (b_init_cb b) s;
     pci_init hw (init_dispatch b) (b_tmp_dev b) s
   }"

partial_function (option) idle :: "'a machine_scheme \<Rightarrow> 'a machine_scheme option" where
  "idle s = idle s"

definition stage2_main :: "boot_env \<Rightarrow> 'a uhci_state_scheme \<Rightarrow> 'a uhci_state_scheme option" where
  "stage2_main b s = stage2_setup b s \<bind> idle"


section \<open>Starting on a machine without PCI functions\<close>

text \<open>The position of the cursor that the display reports to \<open>get_vga_cursor\<close>.\<close>

definition reported_cursor :: "hw \<Rightarrow> io_event list \<Rightarrow> nat" where
  "reported_cursor hw l =
     (let lo = hw_inb hw (l @ [OutB 0x3d4 0xf]) 0x3d5;
          hi = hw_inb hw (l @ [OutB 0x3d4 0xf, InB 0x3d5 lo, OutB 0x3d4 0xe]) 0x3d5
      in unat lo + 256 * unat hi)"

lemma cursor_word:
  fixes lo hi :: u8
  shows "unat (ucast lo OR push_bit 8 (ucast hi) :: u16) = unat lo + 256 * unat hi"
proof -
  have "(ucast lo OR push_bit 8 (ucast hi) :: u16) = ucast lo + push_bit 8 (ucast hi)"
    by (rule disjunctive_add_eq_or [symmetric], rule bit_word_eqI)
      (auto simp: bit_simps dest: bit_imp_le_length)
  moreover have "unat (push_bit 8 (ucast hi) :: u16) = 256 * unat hi"
    using unat_u8_lt [of hi] by (simp add: push_bit_eq_mult unat_word_ariths)
  moreover have "unat lo + 256 * unat hi < 65536"
    using unat_u8_lt [of lo] unat_u8_lt [of hi] by linarith
  ultimately show ?thesis by (simp add: unat_add_u16)
qed

lemma cursor_split:
  fixes pos :: u16
  assumes "unat pos < 2000"
  shows "unat (ucast (pos mod 80) :: u8) < 80" and "unat (ucast (pos div 80) :: u8) < 25"
proof -
  have "unat (pos mod 80) = unat pos mod 80" "unat (pos div 80) = unat pos div 80"
    by (simp_all add: unat_mod_distrib unat_div_distrib)
  moreover have "unat pos mod 80 < 80" "unat pos div 80 < 25"
    using assms by (simp_all add: less_mult_imp_div_less)
  ultimately show "unat (ucast (pos mod 80) :: u8) < 80" "unat (ucast (pos div 80) :: u8) < 25"
    by (simp_all add: unsigned_ucast_eq take_bit_nat_eq_self)
qed

lemma get_vga_cursor_run:
  assumes "reported_cursor hw (io_log s) < 2000"
  shows "\<exists>column row l. get_vga_cursor hw s = ((column, row), s\<lparr>io_log := l\<rparr>) \<and> unat row < 25 \<and> unat column < 80"
proof -
  define lo where "lo = hw_inb hw (io_log s @ [OutB 0x3d4 0xf]) 0x3d5"
  define hi where "hi = hw_inb hw (io_log s @ [OutB 0x3d4 0xf, InB 0x3d5 lo, OutB 0x3d4 0xe]) 0x3d5"
  define pos :: u16 where "pos = ucast lo OR push_bit 8 (ucast hi)"
  have "unat pos < 2000"
    using assms by (simp add: reported_cursor_def Let_def pos_def cursor_word flip: lo_def hi_def)
  moreover have "\<exists>l. get_vga_cursor hw s = ((ucast (pos mod 80), ucast (pos div 80)), s\<lparr>io_log := l\<rparr>)"
    by (simp add: get_vga_cursor_def port_defs log_event_def Let_def pos_def flip: lo_def hi_def) blast
  ultimately show ?thesis using cursor_split by blast
qed

definition boot_ready :: "boot_env \<Rightarrow> 'a uhci_state_scheme \<Rightarrow> bool" where
  "boot_ready b s \<longleftrightarrow> int_handlers s = replicate 48 0 \<and> length (drivers s) = 3 \<and> registered_drivers s = 0 \<and>
     ld32 (h_handler (b_int_h b)) s = b_pit_isr b \<and> node_ok (b_int_h b) \<and> node (b_int_h b) \<inter> text_page = {}"

lemma display_only_tables:
  "display_only s s' \<Longrightarrow> int_handlers s' = int_handlers s \<and> drivers s' = drivers s \<and> registered_drivers s' = registered_drivers s \<and>
    pending_queue s' = pending_queue s"
  by (auto simp: display_only_def)

lemma ticked_tables:
  "ticked s s' \<Longrightarrow> int_handlers s' = int_handlers s \<and> drivers s' = drivers s \<and> registered_drivers s' = registered_drivers s \<and>
    curs_row s' = curs_row s \<and> curs_col s' = curs_col s \<and> pending_queue s' = pending_queue s"
  by (auto simp: ticked_def)

lemma init_output_run:
  assumes "reported_cursor hw (io_log s) < 2000"
  obtains l where "on_screen (init_output hw s)" and "display_only s (init_output hw s)" and "io_log (init_output hw s) = io_log s @ l"
proof -
  obtain column row l where c: "get_vga_cursor hw s = ((column, row), s\<lparr>io_log := l\<rparr>)" "unat row < 25" "unat column < 80"
    using get_vga_cursor_run [OF assms] by blast
  have "\<exists>l'. l = io_log s @ l'" using c(1) by (auto simp: get_vga_cursor_def port_defs log_event_def Let_def) (cases s, auto)
  then obtain l' where l': "l = io_log s @ l'" by blast
  let ?s = "s\<lparr>io_log := l, curs_col := column, curs_row := row\<rparr>"
  have on: "on_screen ?s" using c(2,3) by (simp add: on_screen_def)
  have "?s = s\<lparr>mem := mem s, io_log := l, curs_row := row, curs_col := column\<rparr>" by simp
  then have only: "display_only s ?s" by (metis display_onlyI same_on_refl)
  have run: "init_output hw s = print_text (text_bytes ''\<newline>'') ?s" by (simp add: init_output_def c(1))
  note p = print_chars_safe [OF on, of "text_bytes ''\<newline>''"]
  show thesis
    by (rule that [of "l' @ cursor_events (unat (curs_row (init_output hw s)) * 80 + unat (curs_col (init_output hw s)))"])
      (use p display_only_trans [OF only p(2)] in \<open>simp_all add: run l'\<close>)
qed

lemma pit_init_run:
  fixes s :: "'a uhci_state_scheme"
  assumes "int_handlers s = replicate 48 0" and "node_ok int_h" and "ld32 (h_handler int_h) s = pit_isr"
  obtains s' where "pit_init int_h s = Some s'" and "timer_inv pit_isr int_h s'"
    and "io_log s' = io_log s @ [OutB 0x43 0x34, OutB 0x40 0xA9, OutB 0x40 0x04]"
    and "int_handlers s' = (replicate 48 0)[32 := int_h]" and "on_screen s' = on_screen s"
    and "drivers s' = drivers s" and "registered_drivers s' = registered_drivers s" and "pending_queue s' = pending_queue s"
    and "same_on (mem s) (mem s') (- node int_h)"
proof -
  let ?s = "(st32 (h_next int_h) 0 s)\<lparr>int_handlers := (replicate 48 0)[32 := int_h]\<rparr>"
  let ?s' = "outb 0x40 0x04 (outb 0x40 0xA9 (outb 0x43 0x34 ?s))"
  have "idt_reg_handler 32 int_h s = Some ?s" using assms(1) by (simp add: idt_reg_handler_def Let_def)
  then have run: "pit_init int_h s = Some ?s'" by (simp add: pit_init_def Let_def)
  have "load32 (store32 (mem s) (h_next int_h) 0) (h_handler int_h) = load32 (mem s) (h_handler int_h)"
    by (simp add: h_next_def h_handler_def load32_def store32_def)
  then have inv: "timer_inv pit_isr int_h ?s'"
    using assms(2,3) by (simp add: timer_inv_def outb_def log_event_def node_ok_def)
  have "same_on (mem s) (store32 (mem s) (h_next int_h) 0) (- node int_h)"
    using assms(2) by (intro same_on_store32) (auto simp: h_next_def unat_add_u32 span_def span_ok_def)
  then show thesis
    by (intro that [OF run inv]) (simp_all add: port_defs log_event_def on_screen_def st32_def)
qed

lemma boot_timer:
  fixes s :: "'a uhci_state_scheme"
  assumes ready: "boot_ready b s" and cursor: "reported_cursor (v_hw (b_uhci b)) (io_log s) < 2000"
  obtains s1 l1 where "pit_init (b_int_h b) (init_output (v_hw (b_uhci b)) s) = Some s1"
    "timer_inv (b_pit_isr b) (b_int_h b) s1" "on_screen s1"
    "io_log s1 = io_log s @ l1 @ [OutB 0x43 0x34, OutB 0x40 0xA9, OutB 0x40 0x04]"
    "int_handlers s1 = (replicate 48 0)[32 := b_int_h b]" "drivers s1 = drivers s" "registered_drivers s1 = 0"
    "pending_queue s1 = pending_queue s" "same_on (mem s) (mem s1) (- (text_page \<union> node (b_int_h b)))"
proof -
  let ?hw = "v_hw (b_uhci b)" and ?h = "b_int_h b"
  have rdy: "int_handlers s = replicate 48 0" "registered_drivers s = 0" "ld32 (h_handler ?h) s = b_pit_isr b"
    "node_ok ?h" "node ?h \<inter> text_page = {}"
    using ready by (simp_all add: boot_ready_def)
  define s0 where "s0 = init_output ?hw s"
  obtain l1 where s0: "on_screen s0" "display_only s s0" "io_log s0 = io_log s @ l1"
    unfolding s0_def by (rule init_output_run [OF cursor])
  note t0 = display_only_tables [OF s0(2)]
  have "ld32 (h_handler ?h) s0 = ld32 (h_handler ?h) s"
  proof (rule load32_same)
    show "same_on (mem s) (mem s0) (- text_page)" using s0(2) by (simp add: display_only_def)
    have "{unat ?h..<unat ?h + 4} \<subseteq> node ?h" by (simp add: span_def)
    then show "{unat (h_handler ?h)..<unat (h_handler ?h) + 4} \<subseteq> - text_page"
      using rdy(5) by (simp add: h_handler_def) blast
    show "unat (h_handler ?h) + 4 \<le> 4294967296" using rdy(4) by (simp add: h_handler_def span_ok_def)
  qed
  then obtain s1 where s1: "pit_init ?h s0 = Some s1" "timer_inv (b_pit_isr b) ?h s1"
    "io_log s1 = io_log s0 @ [OutB 0x43 0x34, OutB 0x40 0xA9, OutB 0x40 0x04]"
    "int_handlers s1 = (replicate 48 0)[32 := ?h]" "on_screen s1 = on_screen s0"
    "drivers s1 = drivers s0" "registered_drivers s1 = registered_drivers s0" "pending_queue s1 = pending_queue s0"
    "same_on (mem s0) (mem s1) (- node ?h)"
    using pit_init_run [of s0 ?h "b_pit_isr b"] t0 rdy(1,3,4) by metis
  show thesis
  proof (rule that)
    show "pit_init ?h (init_output ?hw s) = Some s1" using s1(1) by (simp add: s0_def)
    show "io_log s1 = io_log s @ l1 @ [OutB 0x43 0x34, OutB 0x40 0xA9, OutB 0x40 0x04]" using s1(3) s0(3) by simp
    show "drivers s1 = drivers s" "registered_drivers s1 = 0" "pending_queue s1 = pending_queue s" using s1(6-8) t0 rdy(2) by simp_all
    show "same_on (mem s) (mem s1) (- (text_page \<union> node ?h))"
      by (rule same_on_trans [OF same_on_mono same_on_mono [OF s1(9)]]) (use s0(2) in \<open>auto simp: display_only_def\<close>)
  qed (use s1(2,4,5) s0(1) in simp_all)
qed

text \<open>Everything before the heap; \<open>S\<close> is what no DMA changes.\<close>

lemma boot_before_heap:
  fixes s :: "'a uhci_state_scheme"
  assumes ready: "boot_ready b s" and keeps: "\<And>l. timer_keeps (v_hw (b_uhci b)) (b_int_h b) S l 118"
    and cursor: "reported_cursor (v_hw (b_uhci b)) (io_log s) < 2000"
  obtains s4 l1 bs last l2 where "stage2_setup b s = pci_init (v_hw (b_uhci b)) (init_dispatch b) (b_tmp_dev b)
      (uhci_init (b_drv b) (b_init_cb b) (init_memory (b_heap_start b) (b_heap_end b) s4))"
    and "io_log s4 = io_log s @ l1 @ [OutB 0x43 0x34, OutB 0x40 0xA9, OutB 0x40 0x04] @
      setup_events COM1 1 @ wait_events (LINE_STATUS_REG COM1) bs @ last @ [OutB (MODEM_CTRL_REG COM1) 0x0f] @ l2"
    and "length bs \<le> 10" and "timer_inv (b_pit_isr b) (b_int_h b) s4" and "on_screen s4"
    and "int_handlers s4 = (replicate 48 0)[32 := b_int_h b]" and "drivers s4 = drivers s" and "registered_drivers s4 = 0"
    and "pending_queue s4 = pending_queue s" and "same_on (mem s) (mem s4) (S - (text_page \<union> node (b_int_h b)))"
proof -
  let ?hw = "v_hw (b_uhci b)" and ?h = "b_int_h b"
  obtain s1 l1 where s1: "pit_init ?h (init_output ?hw s) = Some s1" "timer_inv (b_pit_isr b) ?h s1" "on_screen s1"
    "io_log s1 = io_log s @ l1 @ [OutB 0x43 0x34, OutB 0x40 0xA9, OutB 0x40 0x04]"
    "int_handlers s1 = (replicate 48 0)[32 := ?h]" "drivers s1 = drivers s" "registered_drivers s1 = 0"
    "pending_queue s1 = pending_queue s" "same_on (mem s) (mem s1) (- (text_page \<union> node ?h))"
    by (rule boot_timer [OF ready cursor])
  have "(115200 :: u32) \<noteq> 0" by simp
  from serial_init_port_run [OF keeps s1(2) this, of "v_itoa_fixed (b_uhci b)" "uhci_handlers b" COM1]
  obtain ok s2 bs last where
    s2: "serial_init_port ?hw (boot_isr b) COM1 115200 s1 = Some (ok, s2)"
      "io_log s2 = io_log s1 @ setup_events COM1 1 @ wait_events (LINE_STATUS_REG COM1) bs @ last @ [OutB (MODEM_CTRL_REG COM1) 0x0f]"
      "length bs \<le> 10" "ticked s1 s2" "timer_inv (b_pit_isr b) ?h s2" "same_on (mem s1) (mem s2) S"
    by (auto simp: boot_isr_def)
  note t2 = ticked_tables [OF s2(4)]
  have on2: "on_screen s2" using s1(3) t2 by (simp add: on_screen_def)
  let ?s3 = "if \<not> ok then print_text (text_bytes ''COM1 fail'') s2 else s2"
  note p3 = print_chars_safe [OF on2, of "text_bytes ''COM1 fail''"]
  have s3: "on_screen ?s3" "display_only s2 ?s3" "\<exists>l. io_log ?s3 = io_log s2 @ l"
    using on2 p3 by auto
  let ?s4 = "print_text (text_bytes ''Hello from C!\<newline>'') ?s3"
  note p4 = print_chars_safe [OF s3(1), of "text_bytes ''Hello from C!\<newline>''"]
  note d4 = display_only_trans [OF s3(2) p4(2)]
  note t4 = display_only_tables [OF d4]
  have f4: "same_on (mem s2) (mem ?s4) (- text_page)" using d4 by (simp add: display_only_def)
  obtain l2 where l2: "io_log ?s4 = io_log s2 @ l2" using s3(3) p4(3) by auto
  have h: "node_ok ?h" "node ?h \<inter> text_page = {}" using ready by (simp_all add: boot_ready_def)
  have "timer_inv (b_pit_isr b) ?h (s2\<lparr>mem := mem ?s4\<rparr>)"
    by (rule timer_inv_dma [OF s2(5) same_on_mono [OF f4] h(1)]) (use h(2) in blast)
  then have tm: "timer_inv (b_pit_isr b) ?h ?s4" using t4 by (simp add: timer_inv_def)
  have fr: "same_on (mem s) (mem ?s4) (S - (text_page \<union> node ?h))"
    by (rule same_on_trans [OF same_on_mono [OF s1(9)] same_on_trans [OF same_on_mono [OF s2(6)] same_on_mono [OF f4]]]) auto
  show thesis
  proof (rule that)
    show "stage2_setup b s = pci_init ?hw (init_dispatch b) (b_tmp_dev b)
        (uhci_init (b_drv b) (b_init_cb b) (init_memory (b_heap_start b) (b_heap_end b) ?s4))"
      unfolding stage2_setup_def Let_def s1(1) s2(1) Option.bind.bind_lunit split by (rule refl)
    show "io_log ?s4 = io_log s @ l1 @ [OutB 0x43 0x34, OutB 0x40 0xA9, OutB 0x40 0x04] @
      setup_events COM1 1 @ wait_events (LINE_STATUS_REG COM1) bs @ last @ [OutB (MODEM_CTRL_REG COM1) 0x0f] @ l2"
      unfolding l2 s2(2) s1(4) by simp
    show "on_screen ?s4" by (rule p4(1))
  qed (use s2(3) tm fr t2 t4 s1(5-8) in simp_all)
qed

text \<open>The heap and the table of drivers are started on the side of everything else.\<close>

lemma boot_tables:
  assumes "registered_drivers s = 0"
  shows "io_log (uhci_init drv cb (init_memory lo hi s)) = io_log s"
    "int_handlers (uhci_init drv cb (init_memory lo hi s)) = int_handlers s"
    "free_block_head (uhci_init drv cb (init_memory lo hi s)) = lo"
    "drivers (uhci_init drv cb (init_memory lo hi s)) = (drivers s)[0 := cb]"
    "registered_drivers (uhci_init drv cb (init_memory lo hi s)) = 1"
  using assms by (simp_all add: uhci_init_def pci_register_driver_def init_memory_def st32_def Let_def)

lemma boot_heap:
  assumes "16 \<le> unat lo" and "unat lo + 8 \<le> unat hi" and "span 4 drv \<inter> {unat lo..<unat hi} = {}" and "unat drv + 4 \<le> 4294967296"
    and "registered_drivers s = 0"
  shows "heap_ok (unat lo) (unat hi) (uhci_init drv cb (init_memory lo hi s)) [(unat lo, unat hi - unat lo)]"
proof (rule heap_ok_same [OF init_memory_ok [OF assms(1,2), of s]])
  let ?s = "init_memory lo hi s"
  have "mem (uhci_init drv cb ?s) = store32 (mem ?s) drv cb" "free_block_head (uhci_init drv cb ?s) = free_block_head ?s"
    using assms(5) by (simp_all add: uhci_init_def pci_register_driver_def init_memory_def Let_def st32_def)
  then show "free_block_head (uhci_init drv cb ?s) = free_block_head ?s"
    "same_on (mem ?s) (mem (uhci_init drv cb ?s)) (fbytes [(unat lo, unat hi - unat lo)])"
    using assms(1-4) by (auto simp: span_def)
qed

text \<open>C34: The order of \<open>stage2_main\<close>, and its end on an empty bus. On a machine whose interrupts are timer
  ticks and whose cursor is on the screen, whatever is on the PCI bus, the program is as good as the scan of
  the bus from a state in which everything else has been started: the log has the programming of
  the timer and then that of the serial port COM1 for 115200 bit/s (divisor 1), the timer's handler is hooked, the UHCI driver is the only one registered, and
  the heap is one free block, when it has room for the header and the driver's structure lies outside. When the bus is empty the scan returns, so
  that \<open>stage2_main\<close> reaches its endless loop, having probed every device of every bus after all
  this, with heap head, driver table and handlers as they were.\<close>

theorem stage2_reaches_idle:
  fixes s :: "'a uhci_state_scheme"
  assumes ready: "boot_ready b s" and timer: "timer_only (v_hw (b_uhci b)) (b_int_h b)"
    and cursor: "reported_cursor (v_hw (b_uhci b)) (io_log s) < 2000"
  shows "\<exists>s6 l1 bs last l2. stage2_setup b s = pci_init (v_hw (b_uhci b)) (init_dispatch b) (b_tmp_dev b) s6 \<and> length bs \<le> 10 \<and>
    io_log s6 = io_log s @ l1 @ [OutB 0x43 0x34, OutB 0x40 0xA9, OutB 0x40 0x04] @
      setup_events COM1 1 @ wait_events (LINE_STATUS_REG COM1) bs @ last @ [OutB (MODEM_CTRL_REG COM1) 0x0f] @ l2 \<and>
    on_screen s6 \<and> free_block_head s6 = b_heap_start b \<and> registered_drivers s6 = 1 \<and> drivers s6 ! 0 = b_init_cb b \<and> int_handlers s6 ! 32 = b_int_h b \<and>
    (16 \<le> unat (b_heap_start b) \<and> unat (b_heap_start b) + 8 \<le> unat (b_heap_end b) \<and>
      span 4 (b_drv b) \<inter> {unat (b_heap_start b)..<unat (b_heap_end b)} = {} \<and> unat (b_drv b) + 4 \<le> 4294967296 \<longrightarrow>
      heap_ok (unat (b_heap_start b)) (unat (b_heap_end b)) s6 [(unat (b_heap_start b), unat (b_heap_end b) - unat (b_heap_start b))]) \<and>
    ((\<forall>l. hw_inw (v_hw (b_uhci b)) l 0xcfc = 0xffff) \<longrightarrow>
      (\<exists>s'. stage2_setup b s = Some s' \<and>
        io_log s' = io_log s6 @ concat (map (\<lambda>bus. concat (map (\<lambda>device. probe_events (of_nat bus) (of_nat device)) [0..<32])) [0..<256]) \<and>
        free_block_head s' = b_heap_start b \<and> registered_drivers s' = 1 \<and> drivers s' ! 0 = b_init_cb b \<and>
        int_handlers s' ! 32 = b_int_h b))"
proof -
  let ?hw = "v_hw (b_uhci b)" and ?h = "b_int_h b" and ?lo = "b_heap_start b" and ?hi = "b_heap_end b"
  let ?probes = "concat (map (\<lambda>bus. concat (map (\<lambda>device. probe_events (of_nat bus) (of_nat device)) [0..<32])) [0..<256])"
  have len: "length (drivers s) = 3" using ready by (simp add: boot_ready_def)
  obtain s4 l1 bs last l2 where s4: "stage2_setup b s = pci_init ?hw (init_dispatch b) (b_tmp_dev b)
      (uhci_init (b_drv b) (b_init_cb b) (init_memory ?lo ?hi s4))"
    "io_log s4 = io_log s @ l1 @ [OutB 0x43 0x34, OutB 0x40 0xA9, OutB 0x40 0x04] @
      setup_events COM1 1 @ wait_events (LINE_STATUS_REG COM1) bs @ last @ [OutB (MODEM_CTRL_REG COM1) 0x0f] @ l2"
    "length bs \<le> 10" "timer_inv (b_pit_isr b) ?h s4" "on_screen s4" "int_handlers s4 = (replicate 48 0)[32 := ?h]"
    "drivers s4 = drivers s" "registered_drivers s4 = 0" "pending_queue s4 = pending_queue s"
    "same_on (mem s) (mem s4) (node ?h - (text_page \<union> node ?h))"
    by (rule boot_before_heap [OF ready timer_only_keeps [OF timer] cursor])
  define s6 where "s6 = uhci_init (b_drv b) (b_init_cb b) (init_memory ?lo ?hi s4)"
  note s6 = boot_tables [OF s4(8), of "b_drv b" "b_init_cb b" ?lo ?hi, folded s6_def]
  have tables: "free_block_head s6 = ?lo" "registered_drivers s6 = 1" "drivers s6 ! 0 = b_init_cb b" "int_handlers s6 ! 32 = ?h"
    using s6(2-5) s4(6,7) len by simp_all
  have on: "on_screen s6"
    using s4(5) by (simp add: s6_def on_screen_def uhci_init_def pci_register_driver_def init_memory_def st32_def Let_def)
  have "\<exists>s'. stage2_setup b s = Some s' \<and> io_log s' = io_log s6 @ ?probes \<and> free_block_head s' = ?lo \<and>
      registered_drivers s' = 1 \<and> drivers s' ! 0 = b_init_cb b \<and> int_handlers s' ! 32 = ?h"
    if empty: "\<forall>l. hw_inw ?hw l 0xcfc = 0xffff"
  proof -
    obtain m where "stage2_setup b s = Some (s6\<lparr>mem := m, io_log := io_log s6 @ ?probes\<rparr>)"
      unfolding s4(1) pci_init_def s6_def by (rule enumerate_absent [OF empty [rule_format]])
    then show ?thesis using tables by (intro exI) (rule conjI, assumption, simp)
  qed
  moreover note s4(1) [folded s6_def] s4(3) s4(2) [folded s6(1)] on tables boot_heap [OF _ _ _ _ s4(8), of ?lo ?hi "b_drv b" "b_init_cb b", folded s6_def]
  ultimately show ?thesis
    by (intro exI [of _ s6], rule_tac exI [of _ l1], rule_tac exI [of _ bs], rule_tac exI [of _ last], rule_tac exI [of _ l2]) blast
qed

text \<open>A quiet machine: every port reads 1 and the configuration space is empty.\<close>

definition quiet_machine :: hw where
  "quiet_machine = \<lparr>hw_inb = \<lambda>_ _. 1, hw_inw = \<lambda>_ _. 0xffff, hw_inl = \<lambda>_ _. 0xffffffff, hw_irq = \<lambda>_. 32, hw_dma = \<lambda>_ m. m\<rparr>"

definition demo_boot :: boot_env where
  "demo_boot = \<lparr>b_uhci = \<lparr>v_hw = quiet_machine, v_itoa_fixed = 0x2000, v_print_buf = 0x2100, v_callback = 0x600, v_uhci_isr = 0x700,
       v_done = 0x2200, v_desc_len = 0x2300\<rparr>,
     b_int_h = 0x3000, b_pit_isr = 0x500, b_drv = 0x3100, b_init_cb = 0x800, b_tmp_dev = 0x3200,
     b_heap_start = 0x8000, b_heap_end = 0xC000\<rparr>"

definition demo_start :: uhci_state where
  "demo_start = \<lparr>mem = store32 (\<lambda>_. 0) 0x3000 0x500, io_log = [], free_block_head = 0, curs_row = 0, curs_col = 0,
     int_handlers = replicate 48 0, idtr_len = 0, idtr_offset = 0, timer_ms_left = 0, drivers = [0, 0, 0],
     registered_drivers = 0, pending_queue = 0\<rparr>"

theorem stage2_reaches_idle_witness:
  "\<exists>s'. stage2_setup demo_boot demo_start = Some s' \<and> drivers s' ! 0 = 0x800 \<and> free_block_head s' = 0x8000"
proof -
  have "boot_ready demo_boot demo_start"
    by (auto simp: boot_ready_def demo_boot_def demo_start_def h_handler_def span_ok_def span_def)
  moreover have "timer_only (v_hw (b_uhci demo_boot)) (b_int_h demo_boot)"
    by (simp add: timer_only_def demo_boot_def quiet_machine_def span_ok_def)
  moreover have "hw_inw (v_hw (b_uhci demo_boot)) l 0xcfc = 0xffff" for l
    by (simp add: demo_boot_def quiet_machine_def)
  moreover have "reported_cursor (v_hw (b_uhci demo_boot)) (io_log demo_start) < 2000"
    by (simp add: reported_cursor_def demo_boot_def quiet_machine_def)
  ultimately obtain s' where "stage2_setup demo_boot demo_start = Some s'"
    "drivers s' ! 0 = b_init_cb demo_boot" "free_block_head s' = b_heap_start demo_boot"
    using stage2_reaches_idle [of demo_boot demo_start] by blast
  then show ?thesis by (intro exI [of _ s']) (simp add: demo_boot_def)
qed

end
