(* ===== verification/UhciWait.thy ===== *)
theory UhciWait
  imports UhciFrames UhciIsr
begin

text \<open>
  Waiting for a transfer: the processor halts, the controller works through the descriptors by DMA
  and raises its interrupt, and \<open>uhci_isr\<close> takes the entry out of the queue. The interrupts come
  through the locale \<open>usb_interrupts\<close>, what the driver needs of their dispatch; \<open>UhciRun\<close> interprets it
  for the wiring of the program.
\<close>


section \<open>The controller\<close>

text \<open>
  The memory as the devices leave it up to the \<open>j\<close>-th halt from the log \<open>l\<close> on, when all interrupts so far
  have been the timer's, which change no memory.
\<close>

fun dma_after :: "hw \<Rightarrow> io_event list \<Rightarrow> nat \<Rightarrow> mem \<Rightarrow> mem" where
  "dma_after hw l 0 m = m"
| "dma_after hw l (Suc j) m = hw_dma hw (l @ replicate j (Halt 32)) (dma_after hw l j m)"

text \<open>
  \<open>serves hw l k n port D td m\<close>: from the log \<open>l\<close> and the memory \<open>m\<close> on, \<open>k\<close> timer interrupts arrive and then
  interrupt \<open>n\<close>; up to then DMA writes to \<open>D\<close> only, the last time it leaves the descriptor \<open>td\<close> no longer
  active, and the status register at \<open>port\<close> then says that the interrupt is the controller's. That a
  controller (\<open>usb_attached\<close>) does this on the descriptors of the driver is proved in \<open>UhciTransfer\<close>.
\<close>

definition serves :: "hw \<Rightarrow> io_event list \<Rightarrow> nat \<Rightarrow> u8 \<Rightarrow> u16 \<Rightarrow> nat set \<Rightarrow> u32 \<Rightarrow> mem \<Rightarrow> bool" where
  "serves hw l k n port D td m \<longleftrightarrow>
     (\<forall>j < k. hw_irq hw (l @ replicate j (Halt 32)) = 32) \<and> hw_irq hw (l @ replicate k (Halt 32)) = n \<and>
     (\<forall>j \<le> Suc k. same_on m (dma_after hw l j m) (- D)) \<and>
     load32 (dma_after hw l (Suc k) m) (td_ctrl_status td) AND UHCI_TD_STATUS_ACTIVE = 0 \<and>
     hw_inw hw (l @ replicate k (Halt 32) @ [Halt n]) port \<noteq> 0"

text \<open>A transfer depends on the links of its descriptors, not on what the controller writes.\<close>

lemma td_path_links:
  "td_path m tds \<Longrightarrow> (\<And>td. td \<in> set tds \<Longrightarrow> load32 m' (td_link_ptr td) = load32 m (td_link_ptr td)) \<Longrightarrow> td_path m' tds"
  by (induction m tds rule: td_path.induct) auto

lemma transfer_links:
  assumes t: "transfer env m e tds flag" and f: "same_on m m' S" and "entry_span e \<subseteq> S" and "span_ok 20 e"
    and "\<And>td. td \<in> set tds \<Longrightarrow> span 4 td \<subseteq> S \<and> span_ok 20 td"
  shows "transfer env m' e tds flag"
proof -
  have "load32 m' (td_link_ptr td) = load32 m (td_link_ptr td)" if "td \<in> set tds" for td
    by (rule load32_same [OF f]) (use assms(5) [OF that] in \<open>auto simp: td_link_ptr_def span_def span_ok_def\<close>)
  then have "td_path m' tds" using t by (auto intro: td_path_links simp: transfer_def)
  then show ?thesis using t entry_ld [OF f assms(3,4)] by (simp add: transfer_def)
qed


section \<open>Waiting\<close>

text \<open>What the driver needs of the dispatch of interrupts: the timer ticks, the controller's
  interrupt reaches \<open>uhci_isr\<close>, and both depend on the memory in \<open>keep\<close> only.\<close>

locale usb_interrupts =
  fixes env :: uhci_env and isr :: "'a isr" and dev :: u32 and n :: u8
    and inv :: "'a uhci_state_scheme \<Rightarrow> bool" and keep :: "nat set"
  assumes frame: "inv s \<Longrightarrow> same_on (mem s) (mem s') keep \<Longrightarrow> int_handlers s' = int_handlers s \<Longrightarrow> inv s'"
    and tick: "inv s \<Longrightarrow>
      isr 32 s = Some (if timer_ms_left s = 0 then s else s\<lparr>timer_ms_left := timer_ms_left s - 1\<rparr>)"
    and usb: "inv s \<Longrightarrow> uhci_isr (v_hw env) (te_dispatch env) n dev s = Some (True, s') \<Longrightarrow> isr n s = Some s'"

text \<open>A transfer that is being waited for; \<open>D\<close> is what the controller may write.\<close>

definition awaiting :: "uhci_env \<Rightarrow> nat set \<Rightarrow> u32 \<Rightarrow> u32 \<Rightarrow> u32 list \<Rightarrow> 'a uhci_state_scheme \<Rightarrow> bool" where
  "awaiting env D dev e tds s \<longleftrightarrow>
     pending_layout env [e] (\<lambda>_. tds) (\<lambda>_. v_done env) \<and> on_screen s \<and> transfer env (mem s) e tds (v_done env) \<and>
     pending_queue s = e \<and> ld32 (te_next e) s = 0 \<and> ld8 (v_done env) s = 0 \<and>
     (span 20 e \<union> {unat (v_done env)} \<union> \<Union> (span 4 ` set tds) \<union> span 2 dev) \<inter> D = {} \<and>
     span 2 dev \<inter> touched env (\<lambda>_. v_done env) {e} {e} = {} \<and> unat dev + 2 \<le> 4294967296"

lemma awaiting_frame:
  assumes a: "awaiting env D dev e tds s" and f: "same_on (mem s) m (- D)"
  shows "awaiting env D dev e tds (s\<lparr>mem := m, io_log := l, timer_ms_left := t\<rparr>)"
    and "ld16 (ud_iobase dev) (s\<lparr>mem := m\<rparr>) = ld16 (ud_iobase dev) s"
proof -
  note A = a [unfolded awaiting_def]
  have L: "pending_layout env [e] (\<lambda>_. tds) (\<lambda>_. v_done env)" using A by blast
  note lf = layout_facts [OF L, of e, simplified]
  have e: "span 20 e \<subseteq> - D" "unat (v_done env) \<in> - D" "span 2 dev \<subseteq> - D" using A by blast+
  have "transfer env m e tds (v_done env)"
  proof (rule transfer_links [OF _ f _ lf(1)])
    show "transfer env (mem s) e tds (v_done env)" using A by blast
    show "entry_span e \<subseteq> - D" using e(1) entry_in_span [of e] by blast
    show "span 4 td \<subseteq> - D \<and> span_ok 20 td" if "td \<in> set tds" for td using A lf(2) that by blast
  qed
  moreover have "load32 m (te_next e) = load32 (mem s) (te_next e)"
    by (rule load32_same [OF f]) (use e(1) pending.next_in_span [OF lf(1)] in blast)+
  moreover have "load8 m (v_done env) = load8 (mem s) (v_done env)" by (rule load8_same [OF f e(2)])
  ultimately show "awaiting env D dev e tds (s\<lparr>mem := m, io_log := l, timer_ms_left := t\<rparr>)"
    using A by (simp add: awaiting_def on_screen_def)
  show "ld16 (ud_iobase dev) (s\<lparr>mem := m\<rparr>) = ld16 (ud_iobase dev) s"
    using e(3) A by (auto intro!: load16_same [OF f, simplified] simp: ud_iobase_def span_def)
qed

lemma awaiting_flag: "awaiting env D dev e tds s \<Longrightarrow> ld8 (ld32 (te_userdata e) s) s = 0"
  by (simp add: awaiting_def transfer_def)

context usb_interrupts begin

lemma wait_ticks:
  assumes "\<forall>j < k. hw_irq (v_hw env) (l @ replicate j (Halt 32)) = 32"
    and "\<forall>j \<le> k. same_on (mem s) (dma_after (v_hw env) l j (mem s)) (- D)"
    and inv: "inv s" and D: "keep \<inter> D = {}" and a: "awaiting env D dev e tds s" and l: "io_log s = l"
  shows "\<exists>t. uhci_wait_entry_complete (v_hw env) isr e s = uhci_wait_entry_complete (v_hw env) isr e
    (s\<lparr>mem := dma_after (v_hw env) l k (mem s), io_log := l @ replicate k (Halt 32), timer_ms_left := t\<rparr>)"
  using assms(1,2)
proof (induction k)
  case 0
  have "s = s\<lparr>mem := mem s, io_log := l @ replicate 0 (Halt 32), timer_ms_left := timer_ms_left s\<rparr>" using l by simp
  then show ?case by (intro exI [of _ "timer_ms_left s"]) simp
next
  case (Suc k)
  let ?mk = "dma_after (v_hw env) l k (mem s)" and ?m = "dma_after (v_hw env) l (Suc k) (mem s)"
  obtain t where IH: "uhci_wait_entry_complete (v_hw env) isr e s =
    uhci_wait_entry_complete (v_hw env) isr e (s\<lparr>mem := ?mk, io_log := l @ replicate k (Halt 32), timer_ms_left := t\<rparr>)"
  proof -
    have i: "\<forall>j < k. hw_irq (v_hw env) (l @ replicate j (Halt 32)) = 32" using Suc.prems(1) by simp
    have m: "\<forall>j \<le> k. same_on (mem s) (dma_after (v_hw env) l j (mem s)) (- D)" using Suc.prems(2) by simp
    from Suc.IH [OF i m] show thesis by (elim exE) (rule that)
  qed
  let ?s = "s\<lparr>mem := ?mk, io_log := l @ replicate k (Halt 32), timer_ms_left := t\<rparr>"
  let ?s1 = "s\<lparr>mem := ?m, io_log := l @ replicate (Suc k) (Halt 32), timer_ms_left := t\<rparr>"
  have f0: "same_on (mem s) ?mk (- D)" and f: "same_on (mem s) ?m (- D)"
    using Suc.prems(2) [rule_format, of k] Suc.prems(2) [rule_format, of "Suc k"] by (simp_all only: order_refl le_SucI)
  have "inv ?s1" by (rule frame [OF inv]) (use D same_on_mono [OF f, of keep] in auto)
  from tick [OF this] have "isr 32 ?s1 = Some (s\<lparr>mem := ?m, io_log := l @ replicate (Suc k) (Halt 32), timer_ms_left := if t = 0 then t else t - 1\<rparr>)"
    by simp
  moreover have step: "log_event (Halt 32) (?s\<lparr>mem := ?m\<rparr>) = ?s1"
    by (simp add: log_event_def replicate_append_same)
  ultimately have "hlt (v_hw env) isr ?s = Some (s\<lparr>mem := ?m, io_log := l @ replicate (Suc k) (Halt 32), timer_ms_left := if t = 0 then t else t - 1\<rparr>)"
    using Suc.prems(1) step by (simp add: hlt_def)
  then have "uhci_wait_entry_complete (v_hw env) isr e ?s = uhci_wait_entry_complete (v_hw env) isr e
      (s\<lparr>mem := ?m, io_log := l @ replicate (Suc k) (Halt 32), timer_ms_left := if t = 0 then t else t - 1\<rparr>)"
    using awaiting_flag [OF awaiting_frame(1) [OF a f0]] by (subst uhci_wait_entry_complete.simps) simp
  with IH show ?case by (intro exI [of _ "if t = 0 then t else t - 1"]) simp
qed

lemma wait_run:
  assumes s: "serves (v_hw env) (io_log s) k n (ld16 (ud_iobase dev) s + 2) D (last tds) (mem s)"
    and inv: "inv s" and D: "keep \<inter> D = {}" and a: "awaiting env D dev e tds s"
  shows "\<exists>s'. uhci_wait_entry_complete (v_hw env) isr e s = Some (True, s') \<and> on_screen s' \<and> ld8 (v_done env) s' = 1 \<and>
    same_on (mem s) (mem s') (- (D \<union> touched env (\<lambda>_. v_done env) {e} {e})) \<and>
    last (io_log s') = OutW (ld16 (ud_iobase dev) s + 2) 0x1f \<and>
    same_on (dma_after (v_hw env) (io_log s) (Suc k) (mem s)) (mem s') (- touched env (\<lambda>_. v_done env) {e} {e}) \<and>
    (\<exists>m l r c t. s' = s\<lparr>mem := m, io_log := l, curs_row := r, curs_col := c, timer_ms_left := t, pending_queue := 0\<rparr>)"
proof -
  note S = s [unfolded serves_def]
  let ?l = "io_log s @ replicate k (Halt 32)" and ?p = "ld16 (ud_iobase dev) s + UHCI_USBSTS"
  have p: "ld16 (ud_iobase dev) s + 2 = ?p" by (simp add: UHCI_USBSTS_def)
  let ?mk = "dma_after (v_hw env) (io_log s) k (mem s)" and ?m = "dma_after (v_hw env) (io_log s) (Suc k) (mem s)"
  obtain t where w: "uhci_wait_entry_complete (v_hw env) isr e s =
    uhci_wait_entry_complete (v_hw env) isr e (s\<lparr>mem := ?mk, io_log := ?l, timer_ms_left := t\<rparr>)"
  proof -
    have i: "\<forall>j < k. hw_irq (v_hw env) (io_log s @ replicate j (Halt 32)) = 32" using S by simp
    have m: "\<forall>j \<le> k. same_on (mem s) (dma_after (v_hw env) (io_log s) j (mem s)) (- D)" using S by simp
    from wait_ticks [OF i m inv D a refl] show thesis by (elim exE) (rule that)
  qed
  let ?s = "s\<lparr>mem := ?mk, io_log := ?l, timer_ms_left := t\<rparr>"
  let ?s1 = "s\<lparr>mem := ?m, io_log := ?l @ [Halt n], timer_ms_left := t\<rparr>"
  have f0: "same_on (mem s) ?mk (- D)" and f: "same_on (mem s) ?m (- D)"
    using S le_SucI [OF order_refl, of k] by (blast, blast)
  have step: "log_event (Halt n) (?s\<lparr>mem := ?m\<rparr>) = ?s1" by (simp add: log_event_def)
  have hl: "hlt (v_hw env) isr ?s = isr n ?s1" using S step by (simp add: hlt_def)
  note a1 = awaiting_frame(1) [OF a f, where l = "?l @ [Halt n]" and t = t]
  note A = a1 [unfolded awaiting_def]
  have t1: "\<forall>x \<in> set [e]. transfer env (mem ?s1) x tds (v_done env)" using A by simp
  have L: "pending_layout env [e] (\<lambda>_. tds) (\<lambda>_. v_done env)" using A by blast
  have "e \<noteq> 0" using layout_facts(1) [OF L, of e] by (simp add: span_ok_def)
  then have q: "linked te_next (mem ?s1) (pending_queue ?s1) [e]" using A by simp
  have io: "ld16 (ud_iobase dev) ?s1 = ld16 (ud_iobase dev) s" using awaiting_frame(2) [OF a f] by simp
  have st: "hw_inw (v_hw env) (io_log ?s1) (ld16 (ud_iobase dev) ?s1 + UHCI_USBSTS) \<noteq> 0"
    using S unfolding io p by simp
  obtain s2 s' where r: "uhci_isr (v_hw env) (te_dispatch env) n dev ?s1 = Some (True, s')"
    "isr_step env (\<lambda>_. v_done env) {x \<in> set [e]. completed (mem ?s1) x} (set [e]) (pending_queue s') ?s1 s2"
    "s' = log_event (OutW (ld16 (ud_iobase dev) ?s1 + UHCI_USBSTS) 0x1f) s2"
    "\<forall>x \<in> set [e]. ld8 (v_done env) s' = (if completed (mem ?s1) x then 1 else ld8 (v_done env) ?s1)"
    "linked te_next (mem s') (pending_queue s') (left_pending (mem ?s1) [e])"
    using uhci_isr_run [OF L _ t1 q _ _ st, of n] A by auto
  have c: "completed (mem ?s1) e"
    using t1 S by (auto simp: completed_def transfer_def)
  have pq: "pending_queue s' = 0" and flag: "ld8 (v_done env) s' = 1"
    using r(4,5) c by (simp_all add: left_pending_def)
  have "{x \<in> set [e]. completed (mem ?s1) x} = {e}" using c by auto
  then have fr: "same_on (mem ?s1) (mem s') (- touched env (\<lambda>_. v_done env) {e} {e})"
    using isr_step_simps(3) [OF r(2)] by (simp only: r(3) log_event_fields list.set)
  have "inv ?s1" by (rule frame [OF inv]) (use D f in \<open>auto intro: same_on_mono\<close>)
  from usb [OF this r(1)] have h: "hlt (v_hw env) isr ?s = Some s'" using hl by simp
  have u: "ld32 (te_userdata e) s' = v_done env"
  proof -
    have "entry_span e \<union> \<Union> (td_span ` set tds) \<subseteq> - touched env (\<lambda>_. v_done env) {e} {e}"
      using touched_avoids(1) [OF L, where e = e and A = "{e}" and Y = "{e}"] by simp
    then have "entry_span e \<subseteq> - touched env (\<lambda>_. v_done env) {e} {e}" by blast
    from entry_ld(4) [OF fr this] show ?thesis using t1 layout_facts(1) [OF L, of e]
      by (simp add: transfer_def)
  qed
  have "uhci_wait_entry_complete (v_hw env) isr e s = Some (True, s')"
    using w awaiting_flag [OF awaiting_frame(1) [OF a f0, where l = ?l and t = t]] h flag u
    by (subst (asm) (2) uhci_wait_entry_complete.simps) (simp add: uhci_wait_entry_complete.simps)
  moreover have "on_screen s'" using isr_step_simps(1) [OF r(2)] by (simp add: r(3) on_screen_def log_event_def)
  moreover have "same_on (mem s) (mem s') (- (D \<union> touched env (\<lambda>_. v_done env) {e} {e}))"
    by (rule same_on_trans [OF same_on_mono [OF f]])
      (use fr in \<open>auto intro: same_on_mono\<close>)
  moreover have "last (io_log s') = OutW ?p 0x1f" using io by (simp add: r(3))
  moreover have "\<exists>m l r c t. s' = s\<lparr>mem := m, io_log := l, curs_row := r, curs_col := c, timer_ms_left := t, pending_queue := 0\<rparr>"
  proof -
    obtain m' l' r' c' where "s2 = ?s1\<lparr>mem := m', io_log := l', curs_row := r', curs_col := c', pending_queue := pending_queue s'\<rparr>"
      using r(2) unfolding isr_step_def by blast
    then have "s' = s\<lparr>mem := m', io_log := io_log s', curs_row := r', curs_col := c', timer_ms_left := t, pending_queue := 0\<rparr>"
      unfolding r(3) using pq by (simp add: log_event_def r(3))
    then show ?thesis by blast
  qed
  moreover have "same_on ?m (mem s') (- touched env (\<lambda>_. v_done env) {e} {e})" using fr by simp
  ultimately show ?thesis using flag unfolding p by blast
qed

end

end
