(* ===== verification/UhciEntry.thy ===== *)
theory UhciEntry
  imports UhciWait
begin

text \<open>
  The entry of a transfer: it is allocated, filled and put into the pending queue, and the
  descriptors become the list of the queue head. The lemmas say what the heap, the
  structures of the driver and the memory the controller may write to have to do with each other.
\<close>


section \<open>The entry of a transfer\<close>

definition fill_entry :: "uhci_env \<Rightarrow> u32 \<Rightarrow> u32 \<Rightarrow> u32 \<Rightarrow> 'a machine_scheme \<Rightarrow> 'a machine_scheme" where
  "fill_entry env e first tail s =
     st32 (te_next e) 0 (st32 (te_userdata e) (v_done env) (st32 (te_handler e) (v_callback env)
       (st32 (te_last e) tail (st32 (te_first e) first s))))"

lemma fill_entry_writes:
  assumes "span_ok 20 e"
  shows "writes_in (span 20 e) s (fill_entry env e first tail s)"
proof -
  note f = te_fields [OF assms] unat_te_next [OF assms]
  show ?thesis
    unfolding fill_entry_def
    by (rule writes_in_trans, rule writes_in_trans, rule writes_in_trans, rule writes_in_trans;
        rule writes_in_st; use assms in \<open>simp add: f span_def span_ok_def\<close>)
qed

lemma fill_entry_fields:
  assumes "span_ok 20 e"
  shows "ld32 (te_first e) (fill_entry env e first tail s) = first" "ld32 (te_last e) (fill_entry env e first tail s) = tail"
    "ld32 (te_handler e) (fill_entry env e first tail s) = v_callback env"
    "ld32 (te_userdata e) (fill_entry env e first tail s) = v_done env" "ld32 (te_next e) (fill_entry env e first tail s) = 0"
proof -
  note f = te_fields [OF assms] unat_te_next [OF assms]
  have ok: "unat e + 20 \<le> 4294967296" using assms by (simp add: span_ok_def)
  then show "ld32 (te_first e) (fill_entry env e first tail s) = first" "ld32 (te_last e) (fill_entry env e first tail s) = tail"
    "ld32 (te_handler e) (fill_entry env e first tail s) = v_callback env"
    "ld32 (te_userdata e) (fill_entry env e first tail s) = v_done env" "ld32 (te_next e) (fill_entry env e first tail s) = 0"
    by (simp_all add: fill_entry_def f load32_store32_other)
qed

lemma fill_entry_frame:
  "heap_state.more (fill_entry env e first tail s) = heap_state.more s" "io_log (fill_entry env e first tail s) = io_log s"
  by (simp_all add: fill_entry_def)

text \<open>
  The memory layout during a transfer: what is printed to and the flag are outside of the heap,
  the structures of the driver and the handler nodes (\<open>keep\<close>) are live or outside of it, the link of
  the queue head can be written, and none of them overlap.
\<close>

definition usb_layout :: "uhci_env \<Rightarrow> nat \<Rightarrow> nat \<Rightarrow> live \<Rightarrow> u32 \<Rightarrow> u32 \<Rightarrow> nat set \<Rightarrow> bool" where
  "usb_layout env lo hi L dev qh keep \<longleftrightarrow>
     buffer_ok (v_itoa_fixed env) \<and> unat (v_done env) \<notin> chatter (v_itoa_fixed env) \<and>
     (chatter (v_itoa_fixed env) \<union> {unat (v_done env)}) \<inter> {lo..<hi} = {} \<and>
     keep \<union> span 20 dev \<subseteq> owned L \<union> - {lo..<hi} \<and> unat dev + 20 \<le> 4294967296 \<and>
     span 4 (qh_qelp qh) \<subseteq> payload L \<union> - {lo..<hi} \<and> unat (qh_qelp qh) + 4 \<le> 4294967296 \<and>
     (keep \<union> span 20 dev) \<inter> (chatter (v_itoa_fixed env) \<union> {unat (v_done env)} \<union> span 4 (qh_qelp qh)) = {} \<and>
     (chatter (v_itoa_fixed env) \<union> {unat (v_done env)}) \<inter> span 4 (qh_qelp qh) = {}"

text \<open>An array of \<open>N\<close> descriptors in a live block that the queue head is not part of.\<close>

definition tds_live :: "live \<Rightarrow> u32 \<Rightarrow> u32 \<Rightarrow> nat \<Rightarrow> mem \<Rightarrow> bool" where
  "tds_live L qh tds N m \<longleftrightarrow> 2 \<le> N \<and> N \<le> 8194 \<and> 16 dvd unat tds \<and> tds \<noteq> 0 \<and> unat tds + 32 * N \<le> 4294967296 \<and>
     td_list m tds (map (td_at tds) [0..<N]) \<and>
     (\<exists>b f. L tds = Some (b, f) \<and> unat tds + 32 * N \<le> f \<and> span 4 (qh_qelp qh) \<inter> {b..<f} = {})"

text \<open>What the controller may write: nothing the driver relies on.\<close>

definition dma_area :: "uhci_env \<Rightarrow> nat \<Rightarrow> nat \<Rightarrow> live \<Rightarrow> u32 \<Rightarrow> nat set \<Rightarrow> u32 \<Rightarrow> nat \<Rightarrow> nat set \<Rightarrow> bool" where
  "dma_area env lo hi L dev keep tds N D \<longleftrightarrow> D \<subseteq> payload L \<union> - {lo..<hi} \<and>
     D \<inter> ({unat (v_done env)} \<union> keep \<union> span 20 dev \<union> (\<Union>j < N. span 4 (td_at tds j))) = {}"

lemma td_array_apart:
  assumes "unat tds + 32 * N \<le> 4294967296" and "tds \<noteq> 0"
  shows "n \<le> N \<Longrightarrow> spans_apart 20 (map (td_at tds) [0..<n])"
proof (induction n)
  case (Suc n)
  have "span_ok 20 (td_at tds n)" by (rule td_at_facts(1) [OF assms]) (use Suc.prems in simp)
  moreover have "span 20 (td_at tds j) \<inter> span 20 (td_at tds n) = {}" if "j < n" for j
    using td_at_apart [OF assms(1), of j n] that Suc.prems by (simp add: disjoint_eq_subset_Compl)
  ultimately show ?case using Suc by (simp add: spans_apart_append)
qed simp

lemma payload_owned:
  assumes "heap_inv lo hi s L"
  shows "payload L \<subseteq> owned L"
proof
  fix x assume "x \<in> payload L"
  then obtain p a e where p: "L p = Some (a, e)" "unat p \<le> x" "x < e" by (auto simp: payload_def)
  then have "a \<le> x" using heap_inv_range(3) [OF assms p(1)] by simp
  then show "x \<in> owned L" using p by (intro ownedI)
qed

lemma heap_range:
  assumes "heap_inv lo hi s L"
  shows "owned L \<subseteq> {lo..<hi}" and "hi < 4294967296"
proof -
  show "owned L \<subseteq> {lo..<hi}"
  proof
    fix x assume "x \<in> owned L"
    then obtain q a e where q: "L q = Some (a, e)" "a \<le> x" "x < e" unfolding owned_iff by blast
    then show "x \<in> {lo..<hi}" using heap_inv_range(1,2) [OF assms q(1)] by simp
  qed
  show "hi < 4294967296" using assms by (auto simp: heap_inv_def heap_ok_def)
qed

lemma live_mono:
  assumes "\<And>p r. L p = Some r \<Longrightarrow> L' p = Some r"
  shows "owned L \<subseteq> owned L'" and "payload L \<subseteq> payload L'"
proof -
  show "owned L \<subseteq> owned L'"
  proof
    fix x assume "x \<in> owned L"
    then obtain p a e where "L p = Some (a, e)" "a \<le> x" "x < e" unfolding owned_iff by blast
    then show "x \<in> owned L'" using assms by (intro ownedI)
  qed
  show "payload L \<subseteq> payload L'"
  proof
    fix x assume "x \<in> payload L"
    then obtain p a e where "L p = Some (a, e)" "unat p \<le> x" "x < e" unfolding payload_def by blast
    then show "x \<in> payload L'" using assms unfolding payload_def by blast
  qed
qed

lemma more_eq:
  "heap_state.more s = heap_state.more s' \<Longrightarrow> curs_row s = curs_row s' \<and> curs_col s = curs_col s' \<and>
    int_handlers s = int_handlers s' \<and> timer_ms_left s = timer_ms_left s' \<and> pending_queue s = pending_queue s'"
  by (cases s, cases s') auto

lemma dev_fields:
  assumes "unat dev + 20 \<le> 4294967296"
  shows "span 4 (ud_qh1ms dev) \<subseteq> span 20 dev" and "unat (ud_qh1ms dev) + 4 \<le> 4294967296"
    and "span 2 dev \<subseteq> span 20 dev"
proof -
  have "unat (ud_qh1ms dev) = unat dev + 16" using assms by (simp add: ud_qh1ms_def unat_add_u32)
  then show "span 4 (ud_qh1ms dev) \<subseteq> span 20 dev" "unat (ud_qh1ms dev) + 4 \<le> 4294967296" "span 2 dev \<subseteq> span 20 dev"
    using assms by (auto simp: span_def)
qed

lemma dev_offsets:
  assumes "unat dev + 20 \<le> 4294967296"
  shows "unat (ud_frame_list_base dev) = unat dev + 4" and "unat (ud_portnum dev) = unat dev + 8"
    and "unat (ud_pci_dev dev) = unat dev + 12" and "unat (ud_qh1ms dev) = unat dev + 16"
  using assms by (simp_all add: ud_frame_list_base_def ud_portnum_def ud_pci_dev_def ud_qh1ms_def unat_add_u32)

text \<open>A \<open>uhci_dev\<close> whose bytes are kept keeps its fields.\<close>

lemma dev_same:
  assumes "same_on m m' S" and "span 20 dev \<subseteq> S" and "unat dev + 20 \<le> 4294967296"
  shows "load16 m' (ud_iobase dev) = load16 m (ud_iobase dev)" and "load8 m' (ud_portnum dev) = load8 m (ud_portnum dev)"
    and "load32 m' (ud_pci_dev dev) = load32 m (ud_pci_dev dev)" and "load32 m' (ud_qh1ms dev) = load32 m (ud_qh1ms dev)"
proof -
  note o = dev_offsets [OF assms(3)]
  have f: "same_on m m' (span 20 dev)" using same_on_mono [OF assms(1,2)] .
  show "load16 m' (ud_iobase dev) = load16 m (ud_iobase dev)"
    by (rule load16_same [OF f]) (use assms(3) in \<open>auto simp: ud_iobase_def span_def\<close>)
  show "load8 m' (ud_portnum dev) = load8 m (ud_portnum dev)"
    by (rule load8_same [OF f]) (auto simp: o span_def)
  show "load32 m' (ud_pci_dev dev) = load32 m (ud_pci_dev dev)" "load32 m' (ud_qh1ms dev) = load32 m (ud_qh1ms dev)"
    by (rule load32_span [OF f]; use o assms(3) in \<open>auto simp: span_def\<close>)+
qed

text \<open>Allocating and filling the entry.\<close>

lemma entry_filled:
  fixes s s1 :: "'a uhci_state_scheme" and first tail :: u32
  assumes inv: "heap_inv lo hi s L" and d: "unat (v_done env) \<notin> {lo..<hi}"
    and al: "memalloc sizeof_transfer_entry (st8 (v_done env) 0 s) = Some (e, s1)" and e0: "e \<noteq> 0"
  defines "s2 \<equiv> fill_entry env e first tail s1"
  obtains a x where "heap_inv lo hi s2 (L(e \<mapsto> (a, x)))" and "L e = None" and "{a..<x} \<inter> owned L = {}"
    and "a + 8 \<le> unat e" and "unat e + 20 \<le> x" and "span_ok 20 e" and "span 20 e \<inter> (owned L \<union> - {lo..<hi}) = {}"
    and "same_on (mem (st8 (v_done env) 0 s)) (mem s2) (owned L \<union> - {lo..<hi})"
    and "heap_state.more s2 = heap_state.more s" and "io_log s2 = io_log s" and "span 20 e \<subseteq> {lo..<hi}"
proof -
  let ?s0 = "st8 (v_done env) 0 s"
  have w0: "writes_in {unat (v_done env)} s ?s0" by (rule writes_in_st) simp
  have inv0: "heap_inv lo hi ?s0 L" by (rule writes_keep [OF inv w0]) (use d in simp)
  obtain a x where A0: "a + 8 \<le> unat e" "unat e + unat sizeof_transfer_entry \<le> x" "{a..<x} \<inter> owned L = {}" "L e = None"
    "heap_inv lo hi s1 (L(e \<mapsto> (a, x)))" "same_on (mem ?s0) (mem s1) (owned L \<union> - {lo..<hi})" "only_heap ?s0 s1"
    by (rule alloc_known [OF inv0 al e0])
  note A = A0(1) A0(2) [unfolded sizeof_transfer_entry_def, simplified] A0(3-7)
  note rg = heap_inv_range [OF A(5), of e a x, simplified]
  have hi: "hi < 4294967296" using inv by (auto simp: heap_inv_def heap_ok_def)
  have eok: "span_ok 20 e" using e0 A(2) rg(2) hi by (simp add: span_ok_def)
  have ein: "span 20 e \<subseteq> {a..<x}" using A(1,2) by (auto simp: span_def)
  have eoff: "span 20 e \<inter> (owned L \<union> - {lo..<hi}) = {}" using ein A(3) rg(1,2) by fastforce
  have w2: "writes_in (span 20 e) s1 s2" unfolding s2_def by (rule fill_entry_writes [OF eok])
  have "heap_inv lo hi s2 (L(e \<mapsto> (a, x)))"
    by (rule writes_keep [OF A(5) w2]) (use A(1,2) in \<open>auto simp: payload_def span_def\<close>)
  moreover have "same_on (mem ?s0) (mem s2) (owned L \<union> - {lo..<hi})"
    by (rule same_on_trans [OF A(6) same_on_mono [OF writes_in_same [OF w2]]]) (use eoff in blast)
  moreover have "heap_state.more s2 = heap_state.more s" "io_log s2 = io_log s"
    using A(7) w0 by (auto simp: s2_def fill_entry_frame only_heap_def writes_in_def)
  moreover have "span 20 e \<subseteq> {lo..<hi}" using ein rg(1,2) by auto
  ultimately show thesis using that A(1-4) eok eoff by metis
qed

text \<open>The descriptors, apart from everything else.\<close>

lemma tds_apart:
  assumes inv: "heap_inv lo hi s L" and td: "tds_live L qh tds N m" and j: "j < N"
  shows "span 20 (td_at tds j) \<subseteq> owned L" and "span_ok 20 (td_at tds j)" and "span 20 (td_at tds j) \<subseteq> {lo..<hi}"
    and "span 20 (td_at tds j) \<inter> span 4 (qh_qelp qh) = {}"
proof -
  note t = td [unfolded tds_live_def]
  obtain b f where bf: "L tds = Some (b, f)" "unat tds + 32 * N \<le> f" "span 4 (qh_qelp qh) \<inter> {b..<f} = {}" using t by blast
  note rg = heap_inv_range [OF inv bf(1)]
  have "span 20 (td_at tds j) \<subseteq> {b..<f}" and ok: "span_ok 20 (td_at tds j)"
    using td_at_facts [of tds N j] t j bf(2) rg(3) by (auto simp: td_array_def)
  moreover have "{b..<f} \<subseteq> owned L" using bf(1) by (auto intro: ownedI)
  moreover have "{b..<f} \<subseteq> {lo..<hi}" using rg(1,2) by auto
  ultimately show "span 20 (td_at tds j) \<subseteq> owned L" "span_ok 20 (td_at tds j)" "span 20 (td_at tds j) \<subseteq> {lo..<hi}"
    "span 20 (td_at tds j) \<inter> span 4 (qh_qelp qh) = {}" using bf(3) by blast+
qed

lemma queued_layout:
  assumes inv: "heap_inv lo hi s L" and lay: "usb_layout env lo hi L dev qh keep" and td: "tds_live L qh tds N m"
    and e: "span_ok 20 e" "span 20 e \<inter> (owned L \<union> - {lo..<hi}) = {}" "span 20 e \<subseteq> {lo..<hi}"
  shows "pending_layout env [e] (\<lambda>_. map (td_at tds) [0..<N]) (\<lambda>_. v_done env)"
proof -
  let ?T = "map (td_at tds) [0..<N]" and ?X = "chatter (v_itoa_fixed env) \<union> {unat (v_done env)}"
  note t = tds_apart [OF inv td]
  have l: "?X \<inter> {lo..<hi} = {}" "buffer_ok (v_itoa_fixed env)" "unat (v_done env) \<notin> chatter (v_itoa_fixed env)"
    using lay by (simp_all add: usb_layout_def)
  have "tds \<noteq> 0" "unat tds + 32 * N \<le> 4294967296" using td by (simp_all add: tds_live_def)
  then have "spans_apart 20 ?T" using td_array_apart [of tds N N] by simp
  moreover have "span 20 e \<inter> span 20 y = {}" "span_ok 20 y" if "y \<in> set ?T" for y
    using that t(1,2) e(2) by fastforce+
  moreover have "span 20 y \<inter> ?X = {}" if "y = e \<or> y \<in> set ?T" for y
  proof -
    from that consider "y = e" | j where "j < N" "y = td_at tds j" by auto
    then have "span 20 y \<subseteq> {lo..<hi}" using t(3) e(3) by cases simp_all
    then show ?thesis using l(1) by blast
  qed
  ultimately show ?thesis using e(1) l(2,3) by (simp add: pending_layout_def)
qed

text \<open>The memory after the entry has been queued, and what it shows of the transfer.\<close>

lemma queued_transfer:
  assumes inv: "heap_inv lo hi s L" and td: "tds_live L qh tds N m" and d: "unat (v_done env) \<notin> {lo..<hi}"
    and f: "same_on m m2 ((owned L \<union> - {lo..<hi}) - {unat (v_done env)})"
    and e: "span_ok 20 e" "span 20 e \<inter> span 4 (qh_qelp qh) = {}" and q: "unat (qh_qelp qh) + 4 \<le> 4294967296"
    and F: "load32 m2 (te_first e) = tds" "load32 m2 (te_last e) = td_at tds (N - 1)" "load32 m2 (te_handler e) = v_callback env"
      "load32 m2 (te_userdata e) = v_done env"
  shows "transfer env (store32 m2 (qh_qelp qh) v) e (map (td_at tds) [0..<N]) (v_done env)"
proof -
  let ?T = "map (td_at tds) [0..<N]"
  have N: "?T \<noteq> []" "hd ?T = tds" "last ?T = td_at tds (N - 1)"
    using td by (simp_all add: tds_live_def hd_map last_map td_at_def)
  have T2: "td_list m2 tds ?T"
  proof (rule td_list_frame)
    show "td_list m tds ?T" using td by (simp add: tds_live_def)
    have "\<Union> (td_span ` set ?T) \<subseteq> owned L" "\<Union> (td_span ` set ?T) \<subseteq> {lo..<hi}" using tds_apart(1,3) [OF inv td] by fastforce+
    then show "same_on m m2 (\<Union> (td_span ` set ?T))" by (intro same_on_mono [OF f]) (use d in blast)
  qed (use tds_apart(2) [OF inv td] in auto)
  have t2: "transfer env m2 e ?T (v_done env)" using N td_list_path [OF T2] F by (simp add: transfer_def)
  have f3: "same_on m2 (store32 m2 (qh_qelp qh) v) (- span 4 (qh_qelp qh))" using q by (auto simp: span_def)
  show ?thesis
  proof (rule transfer_links [OF t2 f3 _ e(1)])
    show "entry_span e \<subseteq> - span 4 (qh_qelp qh)" using e(2) entry_in_span [of e] by blast
    fix y assume "y \<in> set ?T"
    then obtain j where j: "j < N" "y = td_at tds j" by auto
    have "span 4 y \<subseteq> span 20 y" by (auto simp: span_def)
    then show "span 4 y \<subseteq> - span 4 (qh_qelp qh) \<and> span_ok 20 y" using tds_apart(2,4) [OF inv td j(1)] unfolding j(2) by blast
  qed
qed

lemma entry_queued:
  fixes s :: "'a uhci_state_scheme"
  assumes inv: "heap_inv lo hi s L" and lay: "usb_layout env lo hi L dev (ld32 (ud_qh1ms dev) s) keep"
    and td: "tds_live L (ld32 (ud_qh1ms dev) s) tds N (mem s)" and D: "dma_area env lo hi L dev keep tds N D"
    and empty: "pending_queue s = 0" "ld32 (qh_qelp (ld32 (ud_qh1ms dev) s)) s AND UHCI_TD_LPTR_TERM \<noteq> 0" and on: "on_screen s"
    and al: "memalloc sizeof_transfer_entry (st8 (v_done env) 0 s) = Some (e, s1)" and e0: "e \<noteq> 0"
  obtains s3 a x where "run_entry env isr dev tds (of_nat N) s =
      uhci_wait_entry_complete (v_hw env) isr e s3 \<bind> (\<lambda>(result, s). memfree e s \<bind> (\<lambda>s. Some (result, s)))"
    and "awaiting env D dev e (map (td_at tds) [0..<N]) s3" and "heap_inv lo hi s3 (L(e \<mapsto> (a, x)))"
    and "L e = None" and "{a..<x} \<inter> owned L = {}" and "a + 8 \<le> unat e" and "unat e + 20 \<le> x"
    and "io_log s3 = io_log s" and "heap_state.more s3 = heap_state.more (s\<lparr>pending_queue := e\<rparr>)"
    and "same_on (mem s) (mem s3) ((owned L \<union> - {lo..<hi}) - {unat (v_done env)} - span 4 (qh_qelp (ld32 (ud_qh1ms dev) s)))"
    and "ld32 (qh_qelp (ld32 (ud_qh1ms dev) s)) s3 = tds"
proof -
  define qh where "qh = ld32 (ud_qh1ms dev) s"
  let ?d = "unat (v_done env)" and ?T = "map (td_at tds) [0..<N]" and ?q = "span 4 (qh_qelp qh)" and ?tail = "td_at tds (N - 1)"
  let ?X = "chatter (v_itoa_fixed env) \<union> {?d}" and ?safe = "owned L \<union> - {lo..<hi}"
  have l: "?X \<inter> {lo..<hi} = {}" "?d \<in> - {lo..<hi}" "span 20 dev \<subseteq> ?safe" "unat dev + 20 \<le> 4294967296" "?q \<subseteq> payload L \<union> - {lo..<hi}"
    "unat (qh_qelp qh) + 4 \<le> 4294967296" "span 20 dev \<inter> (?X \<union> ?q) = {}" "?X \<inter> ?q = {}"
  proof -
    have L: "?X \<inter> {lo..<hi} = {}" "keep \<union> span 20 dev \<subseteq> ?safe" "(keep \<union> span 20 dev) \<inter> (?X \<union> ?q) = {}"
      using lay by (simp_all only: usb_layout_def qh_def)
    then show "span 20 dev \<subseteq> ?safe" "span 20 dev \<inter> (?X \<union> ?q) = {}" "?d \<in> - {lo..<hi}" by blast+
  qed (use lay in \<open>simp_all only: usb_layout_def qh_def\<close>)
  have q: "?q \<subseteq> ?safe" using l(5) payload_owned [OF inv] by blast
  have t: "N \<le> 8194" "16 dvd unat tds" using td by (simp_all add: tds_live_def)
  define s2 where "s2 = fill_entry env e tds ?tail s1"
  obtain a x where A: "heap_inv lo hi s2 (L(e \<mapsto> (a, x)))" "L e = None" "{a..<x} \<inter> owned L = {}" "a + 8 \<le> unat e" "unat e + 20 \<le> x"
    and eok: "span_ok 20 e" and eoff: "span 20 e \<inter> ?safe = {}" and f02: "same_on (mem (st8 (v_done env) 0 s)) (mem s2) ?safe"
    and more2: "heap_state.more s2 = heap_state.more s" "io_log s2 = io_log s" and ein: "span 20 e \<subseteq> {lo..<hi}"
    using entry_filled [OF inv _ al e0, of tds ?tail] l(2) unfolding s2_def by (metis ComplD)
  note F = fill_entry_fields [OF eok, of env tds ?tail s1, folded s2_def]
  have w0: "writes_in {?d} s (st8 (v_done env) 0 s)" by (rule writes_in_st) simp
  have f2: "same_on (mem s) (mem s2) (?safe - {?d})"
    by (rule same_on_trans [OF same_on_mono [OF writes_in_same [OF w0]] same_on_mono [OF f02]]) auto
  have dv: "span 20 dev \<subseteq> ?safe - {?d}" "?q \<subseteq> ?safe - {?d}" using l(3,7,8) q by blast+
  note df = dev_fields [OF l(4)]
  have q2: "ld32 (ud_qh1ms dev) s2 = qh" "ld32 (qh_qelp qh) s2 = ld32 (qh_qelp qh) s"
    using load32_span [OF f2 subset_trans [OF df(1) dv(1)] df(2)] load32_span [OF f2 dv(2) l(6)] by (simp_all add: qh_def)
  define s3 where "s3 = st32 (qh_qelp qh) tds (s2\<lparr>pending_queue := e\<rparr>)"
  have sched: "uhci_schedule_queue qh e s2 = Some s3"
    using more_eq [OF more2(1)] empty(1) empty(2) F(1) t(2)
    by (simp add: uhci_schedule_queue_def q2 s3_def flp_ptr Let_def flip: qh_def)
  have m3: "mem s3 = store32 (mem s2) (qh_qelp qh) tds" by (simp add: s3_def)
  have f3: "same_on (mem s2) (mem s3) (- ?q)" unfolding m3 using l(6) by (auto simp: span_def)
  have qoff: "span 20 e \<inter> ?q = {}" using dv(2) eoff by blast
  have tr3: "transfer env (mem s3) e ?T (v_done env)"
    unfolding m3 by (rule queued_transfer [OF inv td [folded qh_def] _ f2 eok qoff l(6)]) (use l(2) F in simp_all)
  have nx: "ld32 (te_next e) s3 = 0"
  proof -
    have "span 4 (te_next e) \<subseteq> - ?q" using te_next_bytes [OF eok] qoff by blast
    from load32_span [OF f3 this] show ?thesis using pending.next_in_span(2) [OF eok] F(5) by simp
  qed
  have fl: "ld8 (v_done env) s3 = 0"
    using load8_same [OF f02, of "v_done env"] load8_same [OF f3, of "v_done env"] l(2,8) by auto
  have inv3: "heap_inv lo hi s3 (L(e \<mapsto> (a, x)))"
  proof (rule write_outcome [OF A(1)])
    have "payload L \<subseteq> payload (L(e \<mapsto> (a, x)))" by (rule live_mono(2)) (use A(2) in auto)
    then show "same_on (mem s2) (mem s3) ({lo..<hi} - payload (L(e \<mapsto> (a, x))))"
      by (intro same_on_mono [OF f3]) (use l(5) in blast)
  qed (simp add: s3_def st32_def)
  have more3: "heap_state.more s3 = heap_state.more (s\<lparr>pending_queue := e\<rparr>)"
    using more2 by (cases s, cases s2) (simp add: s3_def st32_def)
  have "awaiting env D dev e ?T s3"
    unfolding awaiting_def
  proof (intro conjI)
    show "on_screen s3" "pending_queue s3 = e" using on more_eq [OF more3] by (simp_all add: on_screen_def)
    have DD: "D \<subseteq> payload L \<union> - {lo..<hi}" "D \<inter> ({?d} \<union> keep \<union> span 20 dev \<union> (\<Union>j < N. span 4 (td_at tds j))) = {}"
      using D by (simp_all only: dma_area_def)
    have "D \<inter> span 20 dev = {}" "?d \<notin> D" "D \<inter> (\<Union>j < N. span 4 (td_at tds j)) = {}" "D \<subseteq> payload L \<union> - {lo..<hi}"
      using DD(1) DD(2) [unfolded Int_Un_distrib Un_empty] by simp_all
    moreover have "D \<inter> span 20 e = {}" using calculation(4) payload_owned [OF inv] eoff by blast
    moreover have "\<Union> (span 4 ` set ?T) = (\<Union>j < N. span 4 (td_at tds j))" by auto
    moreover have "D \<inter> span 2 dev = {}" using calculation(1) df(3) by blast
    ultimately show "(span 20 e \<union> {?d} \<union> \<Union> (span 4 ` set ?T) \<union> span 2 dev) \<inter> D = {}"
      by (simp only: Int_commute [of _ D] Int_Un_distrib Un_empty Int_insert_right if_False Int_empty_right simp_thms)
    have "span 20 dev \<inter> span 20 e = {}" using eoff l(3) by blast
    then have "span 2 dev \<inter> span 4 (te_next e) = {}" using df(3) te_next_bytes [OF eok] by blast
    moreover have "span 2 dev \<inter> ?X = {}" using l(7) df(3) by blast
    ultimately show "span 2 dev \<inter> touched env (\<lambda>_. v_done env) {e} {e} = {}"
      by (simp add: touched_def Int_Un_distrib)
  qed (use queued_layout [OF inv lay td eok eoff ein] tr3 nx fl l(4) in simp_all)
  moreover have "run_entry env isr dev tds (of_nat N) s =
      uhci_wait_entry_complete (v_hw env) isr e s3 \<bind> (\<lambda>(result, s). memfree e s \<bind> (\<lambda>s. Some (result, s)))"
  proof -
    have "unat (of_nat N :: u16) = N" using t(1) by (simp add: unat_of_nat)
    then show ?thesis
      using al sched q2(1) by (simp add: run_entry_def Let_def s2_def fill_entry_def)
  qed
  moreover have "io_log s3 = io_log s" using more2 by (simp add: s3_def)
  moreover have "same_on (mem s) (mem s3) (?safe - {?d} - ?q)"
    by (rule same_on_trans [OF same_on_mono [OF f2] same_on_mono [OF f3]]) auto
  moreover have "ld32 (qh_qelp qh) s3 = tds" by (simp add: m3)
  ultimately show thesis using that inv3 A(2-5) more3 by (simp flip: qh_def)
qed

end
