(* ===== verification/UhciTransfer.thy ===== *)
theory UhciTransfer
  imports UhciEntry UhciChain
begin

text \<open>
  A control transfer from its descriptors to its end: the descriptors are allocated and filled, the
  entry is allocated, queued and waited for, and everything is freed again. The heap and the
  structures of the driver are afterwards as they were before, and the buffer of the data stage
  holds what the device has sent.
\<close>

section \<open>A whole transfer\<close>

text \<open>What a transfer leaves alone.\<close>

definition spared :: "uhci_env \<Rightarrow> nat \<Rightarrow> nat \<Rightarrow> live \<Rightarrow> u32 \<Rightarrow> nat set \<Rightarrow> nat set" where
  "spared env lo hi L qh D =
     (owned L \<union> - {lo..<hi}) - (chatter (v_itoa_fixed env) \<union> {unat (v_done env)} \<union> span 4 (qh_qelp qh) \<union> D)"

lemma spared_layout:
  assumes "usb_layout env lo hi L dev qh keep" and "dma_area env lo hi L dev keep tds N D"
  shows "keep \<union> span 20 dev \<subseteq> spared env lo hi L qh D"
proof -
  have "keep \<union> span 20 dev \<subseteq> owned L \<union> - {lo..<hi}"
    "(keep \<union> span 20 dev) \<inter> (chatter (v_itoa_fixed env) \<union> {unat (v_done env)} \<union> span 4 (qh_qelp qh)) = {}"
    "D \<inter> (keep \<union> span 20 dev) = {}"
    using assms unfolding usb_layout_def dma_area_def by blast+
  then show ?thesis unfolding spared_def by blast
qed

text \<open>The memory when the wait begins: the first descriptor is behind the queue head.\<close>

definition queued :: "uhci_env \<Rightarrow> nat \<Rightarrow> nat \<Rightarrow> live \<Rightarrow> u32 \<Rightarrow> u32 \<Rightarrow> mem \<Rightarrow> mem \<Rightarrow> bool" where
  "queued env lo hi L qh tds m m' \<longleftrightarrow>
     same_on m m' ((owned L \<union> - {lo..<hi}) - {unat (v_done env)} - span 4 (qh_qelp qh)) \<and> load32 m' (qh_qelp qh) = tds"

context usb_interrupts begin

lemma run_entry_run:
  assumes hp: "heap_inv lo hi s L" and lay: "usb_layout env lo hi L dev (ld32 (ud_qh1ms dev) s) keep"
    and td: "tds_live L (ld32 (ud_qh1ms dev) s) tds N (mem s)" and D: "dma_area env lo hi L dev keep tds N D"
    and empty: "pending_queue s = 0" "ld32 (qh_qelp (ld32 (ud_qh1ms dev) s)) s AND UHCI_TD_LPTR_TERM \<noteq> 0" and on: "on_screen s"
    and al: "memalloc sizeof_transfer_entry (st8 (v_done env) 0 s) = Some (e, s1)" and e0: "e \<noteq> 0" and irq: "inv s"
    and srv: "\<And>m. queued env lo hi L (ld32 (ud_qh1ms dev) s) tds (mem s) m \<Longrightarrow>
      serves (v_hw env) (io_log s) k n (ld16 (ud_iobase dev) s + 2) D (td_at tds (N - 1)) m"
  shows "\<exists>s'. run_entry env isr dev tds (of_nat N) s = Some (True, s') \<and> heap_inv lo hi s' L \<and> inv s' \<and> on_screen s' \<and>
    pending_queue s' = 0 \<and> int_handlers s' = int_handlers s \<and> last (io_log s') = OutW (ld16 (ud_iobase dev) s + 2) 0x1f \<and>
    (\<exists>m. queued env lo hi L (ld32 (ud_qh1ms dev) s) tds (mem s) m \<and>
      same_on (dma_after (v_hw env) (io_log s) (Suc k) m) (mem s')
        ((owned L \<union> - {lo..<hi}) - (chatter (v_itoa_fixed env) \<union> {unat (v_done env)}))) \<and>
    same_on (mem s) (mem s') (spared env lo hi L (ld32 (ud_qh1ms dev) s) D)"
proof -
  define qh where "qh = ld32 (ud_qh1ms dev) s"
  let ?T = "map (td_at tds) [0..<N]" and ?c = "chatter (v_itoa_fixed env)" and ?d = "unat (v_done env)"
  obtain s3 a x where s3: "run_entry env isr dev tds (of_nat N) s =
      uhci_wait_entry_complete (v_hw env) isr e s3 \<bind> (\<lambda>(result, s). memfree e s \<bind> (\<lambda>s. Some (result, s)))"
    "awaiting env D dev e ?T s3" "heap_inv lo hi s3 (L(e \<mapsto> (a, x)))" "L e = None" "{a..<x} \<inter> owned L = {}"
    "a + 8 \<le> unat e" "unat e + 20 \<le> x" "io_log s3 = io_log s" "heap_state.more s3 = heap_state.more (s\<lparr>pending_queue := e\<rparr>)"
    "same_on (mem s) (mem s3) ((owned L \<union> - {lo..<hi}) - {?d} - span 4 (qh_qelp qh))" "ld32 (qh_qelp qh) s3 = tds"
    using entry_queued [OF hp lay td D empty on al e0, of isr] unfolding qh_def by metis
  note spl = spared_layout [OF lay D, folded qh_def]
  have f3: "same_on (mem s) (mem s3) (spared env lo hi L qh D)"
    by (rule same_on_mono [OF s3(10)]) (auto simp: spared_def)
  have d20: "unat dev + 20 \<le> 4294967296" using lay by (simp add: usb_layout_def)
  have devb: "span 2 dev \<subseteq> spared env lo hi L qh D" "unat dev + 2 \<le> 4294967296" "keep \<inter> D = {}"
    using spl dev_fields(3) [OF d20] d20 D unfolding dma_area_def by auto
  have io: "ld16 (ud_iobase dev) s3 = ld16 (ud_iobase dev) s"
    by (rule load16_same [OF f3]) (use devb in \<open>simp_all add: ud_iobase_def span_def\<close>)
  note more3 = more_eq [OF s3(9), simplified]
  have irq3: "inv s3" by (rule frame [OF irq same_on_mono [OF f3]]) (use spl more3 in auto)
  have q3: "queued env lo hi L qh tds (mem s) (mem s3)" using s3(10,11) by (simp add: queued_def)
  have tail: "last ?T = td_at tds (N - 1)" using td by (simp add: tds_live_def last_map)
  obtain s4 where s4: "uhci_wait_entry_complete (v_hw env) isr e s3 = Some (True, s4)" "on_screen s4"
    "same_on (mem s3) (mem s4) (- (D \<union> touched env (\<lambda>_. v_done env) {e} {e}))"
    "last (io_log s4) = OutW (ld16 (ud_iobase dev) s + 2) 0x1f"
    "same_on (dma_after (v_hw env) (io_log s) (Suc k) (mem s3)) (mem s4) (- touched env (\<lambda>_. v_done env) {e} {e})"
    "\<exists>m l r c t. s4 = s3\<lparr>mem := m, io_log := l, curs_row := r, curs_col := c, timer_ms_left := t, pending_queue := 0\<rparr>"
    using wait_run [OF _ irq3 devb(3) s3(2), of k] srv [OF q3 [unfolded qh_def]] unfolding io s3(8) tail by blast
  have p4: "pending_queue s4 = 0" "int_handlers s4 = int_handlers s3" "free_block_head s4 = free_block_head s3"
    using s4(6) by auto
  have lt: "?c \<union> {?d} \<subseteq> - {lo..<hi}" "D \<subseteq> payload L \<union> - {lo..<hi}" using lay D unfolding usb_layout_def dma_area_def by blast+
  have tc: "touched env (\<lambda>_. v_done env) {e} {e} = ?c \<union> {?d} \<union> span 4 (te_next e)" by (simp add: touched_def)
  have "span_ok 20 e" using s3(2) layout_facts(1) [of env "[e]" "\<lambda>_. ?T" "\<lambda>_. v_done env" e] by (simp add: awaiting_def)
  then have tn: "span 4 (te_next e) \<subseteq> span 20 e" by (rule te_next_bytes)
  have inv4: "heap_inv lo hi s4 (L(e \<mapsto> (a, x)))"
  proof (rule write_outcome [OF s3(3) same_on_mono [OF s4(3)] p4(3)])
    have "payload L \<subseteq> payload (L(e \<mapsto> (a, x)))" using s3(4) by (fastforce simp: payload_def)
    moreover have "span 20 e \<subseteq> payload (L(e \<mapsto> (a, x)))" using s3(7) by (auto simp: payload_def span_def)
    ultimately show "{lo..<hi} - payload (L(e \<mapsto> (a, x))) \<subseteq> - (D \<union> touched env (\<lambda>_. v_done env) {e} {e})"
      unfolding tc using lt tn by blast
  qed
  have Le: "(L(e \<mapsto> (a, x)))(e := None) = L" using s3(4) by auto
  obtain s5 where s5: "memfree e s4 = Some s5" "heap_inv lo hi s5 L"
    "same_on (mem s4) (mem s5) (owned L \<union> - {lo..<hi})" "only_heap s4 s5"
    by (rule release_outcome [OF inv4, of e a x, unfolded Le]) simp_all
  have eoff: "(owned L \<union> - {lo..<hi}) \<inter> span 20 e = {}"
  proof -
    have "span 20 e \<subseteq> {a..<x}" using s3(6,7) by (auto simp: span_def)
    moreover have "{a..<x} \<subseteq> {lo..<hi}" using heap_inv_range [OF s3(3), of e a x] by auto
    ultimately show ?thesis using s3(5) by blast
  qed
  have dma: "same_on (dma_after (v_hw env) (io_log s) (Suc k) (mem s3)) (mem s5) ((owned L \<union> - {lo..<hi}) - (?c \<union> {?d}))"
  proof -
    have "(owned L \<union> - {lo..<hi}) - (?c \<union> {?d}) \<subseteq> - touched env (\<lambda>_. v_done env) {e} {e}" unfolding tc using eoff tn by blast
    from same_on_trans [OF same_on_mono [OF s4(5) this] same_on_mono [OF s5(3)]] show ?thesis by blast
  qed
  have sp20: "spared env lo hi L qh D \<inter> span 20 e = {}" using eoff unfolding spared_def by blast
  have f5: "same_on (mem s) (mem s5) (spared env lo hi L qh D)"
  proof (rule same_on_trans [OF f3 same_on_trans [OF same_on_mono [OF s4(3)] same_on_mono [OF s5(3)]]])
    show "spared env lo hi L qh D \<subseteq> - (D \<union> touched env (\<lambda>_. v_done env) {e} {e})"
      unfolding tc using sp20 tn unfolding spared_def by blast
  qed (auto simp: spared_def)
  have more5: "heap_state.more s5 = heap_state.more s4" "io_log s5 = io_log s4" using s5(4) by (simp_all add: only_heap_def)
  note m5 = more_eq [OF more5(1)]
  have "inv s5" by (rule frame [OF irq same_on_mono [OF f5]]) (use spl m5 p4 more3 in auto)
  then show ?thesis
    using s3(1) s4(1,2,4) s5(1,2) f5 m5 p4 more3 more5(2) dma q3 unfolding qh_def
    by (intro exI [of _ s5]) (auto simp: on_screen_def simp del: dma_after.simps)
qed

end


text \<open>Building descriptors does not touch the hardware.\<close>

lemma memalloc_only_heap:
  assumes "memalloc_aligned sz al s = Some (p, s')"
  shows "only_heap s s'"
proof -
  have b: "io_log (carve_before q v c u) = io_log u" "heap_state.more (carve_before q v c u) = heap_state.more u" for q v c and u :: "'a heap_state_scheme"
    using carve_before_frame [of u q v c] by (simp_all add: only_heap_def)
  show ?thesis
    using assms unfolding memalloc_aligned_def Let_def
    by (auto simp: only_heap_def b split: if_splits Option.bind_splits prod.splits dest!: carve_after_frame)
qed

lemma data_tds_log: "io_log (snd (snd (fold (data_td tds dev k ds) is r))) = io_log (snd (snd r))"
proof (induction "is" arbitrary: r)
  case (Cons i "is")
  have "io_log (snd (snd (data_td tds dev k ds i r))) = io_log (snd (snd r))"
    by (cases r) (auto simp: data_td_def Let_def)
  then show ?case using Cons by simp
qed simp

lemma create_td_log:
  assumes "uhci_create_td_control dev t r v i l pid1 pid2 buf s = Some (n, tds, s')"
  shows "io_log s' = io_log s"
proof -
  have f: "io_log (fill_tds dev a b k m buf dr td u) = io_log u" for a b k m dr td and u :: "'a heap_state_scheme"
    by (simp add: fill_tds_def Let_def split_def data_tds_log)
  have "io_log u' = io_log u" if "memalloc_aligned sz al u = Some (p, u')" for sz al p and u u' :: "'a heap_state_scheme"
    using memalloc_only_heap [OF that] by (simp add: only_heap_def)
  then show ?thesis
    using assms unfolding create_td_eq memalloc_def Let_def
    by (auto simp: f fill_request_def split: Option.bind_splits prod.splits)
qed


section \<open>Descriptors, transfer, release\<close>

lemma block_apart:
  assumes "heap_inv lo hi s L" and "L p = Some (a, e)"
  shows "{a..<e} \<inter> owned (L(p := None)) = {}"
proof (unfold disjoint_iff_not_equal, intro ballI)
  from assms(1) obtain bs where bs: "live_ok s bs L" by (rule heap_invE)
  fix x y assume x: "x \<in> {a..<e}" and y: "y \<in> owned (L(p := None))"
  from y obtain q b f where q: "(L(p := None)) q = Some (b, f)" "b \<le> y" "y < f" unfolding owned_iff by blast
  then have "q \<noteq> p" "L q = Some (b, f)" by (simp_all split: if_splits)
  then have "{a..<e} \<inter> {b..<f} = {}" using live_ok_disjoint [OF bs assms(2)] by simp
  moreover have "y \<in> {b..<f}" using q(2,3) by simp
  ultimately show "x \<noteq> y" using x by blast
qed

lemma usb_layout_mono:
  assumes "usb_layout env lo hi L dev qh keep" and "owned L \<subseteq> owned L'" and "payload L \<subseteq> payload L'"
  shows "usb_layout env lo hi L' dev qh keep"
proof -
  note l = assms(1) [unfolded usb_layout_def]
  have "keep \<union> span 20 dev \<subseteq> owned L \<union> - {lo..<hi}" "span 4 (qh_qelp qh) \<subseteq> payload L \<union> - {lo..<hi}" using l by simp_all
  then have "keep \<union> span 20 dev \<subseteq> owned L' \<union> - {lo..<hi}" "span 4 (qh_qelp qh) \<subseteq> payload L' \<union> - {lo..<hi}"
    using assms(2,3) by blast+
  then show ?thesis using l unfolding usb_layout_def by simp
qed

lemma controller_area_ok:
  assumes hp: "heap_inv lo hi s L'" and L': "L' tds = Some (b, f)" "unat tds + 32 * N \<le> f" and t0: "tds \<noteq> 0"
    and sub: "owned L \<subseteq> owned (L'(tds := None))" "payload L \<subseteq> payload L'" "payload L \<subseteq> owned L"
    and lay: "usb_layout env lo hi L dev qh keep"
    and B: "B \<subseteq> payload L \<union> - {lo..<hi}" "B \<inter> ({unat (v_done env)} \<union> keep \<union> span 20 dev) = {}"
  shows "dma_area env lo hi L' dev keep tds N (controller_area qh tds N B)" and "span 4 (qh_qelp qh) \<inter> {b..<f} = {}"
proof -
  let ?q = "span 4 (qh_qelp qh)" and ?S = "\<Union>j < N. span 4 (td_ctrl_status (td_at tds j))" and ?K = "\<Union>j < N. span 4 (td_at tds j)"
  note rg = heap_inv_range [OF hp L'(1)]
  have fresh: "{b..<f} \<inter> (owned L \<union> - {lo..<hi}) = {}" using block_apart [OF hp L'(1)] sub(1) rg(1,2) by fastforce
  have arr: "unat tds + 32 * N \<le> 4294967296" using L'(2) rg(2) hp by (auto simp: heap_inv_def heap_ok_def)
  have u: "unat (td_at tds j) = unat tds + 32 * j" "unat (td_ctrl_status (td_at tds j)) = unat tds + 32 * j + 4" if "j < N" for j
    using unat_td_at [OF arr that] td_field_addr(2) [OF td_at_facts(1) [OF arr t0 that]] by simp_all
  have S: "?S \<subseteq> {unat tds..<f}" "?K \<subseteq> {unat tds..<f}" using u L'(2) by (auto simp: span_def)
  have b: "{unat tds..<f} \<subseteq> {b..<f}" using rg(3) by auto
  have SK: "?S \<inter> ?K = {}"
  proof -
    have "x \<notin> ?K" if "x \<in> ?S" for x
    proof -
      from that obtain j where j: "j < N" "unat tds + 32 * j + 4 \<le> x" "x < unat tds + 32 * j + 8"
        using u by (auto simp: span_def)
      have "\<not> (unat tds + 32 * i \<le> x \<and> x < unat tds + 32 * i + 4)" for i using j by presburger
      then show ?thesis using u by (auto simp: span_def)
    qed
    then show ?thesis by blast
  qed
  have P: "{unat tds..<f} \<subseteq> payload L'"
  proof
    fix x assume "x \<in> {unat tds..<f}"
    then show "x \<in> payload L'" unfolding payload_def using L'(1) by (intro CollectI exI [of _ tds] exI [of _ b] exI [of _ f]) simp
  qed
  have l: "?q \<subseteq> payload L \<union> - {lo..<hi}" "(keep \<union> span 20 dev) \<inter> ?q = {}" "unat (v_done env) \<notin> ?q"
    "keep \<union> span 20 dev \<subseteq> owned L \<union> - {lo..<hi}" "unat (v_done env) \<in> - {lo..<hi}"
  proof -
    show "?q \<subseteq> payload L \<union> - {lo..<hi}" "keep \<union> span 20 dev \<subseteq> owned L \<union> - {lo..<hi}"
      using lay by (simp_all add: usb_layout_def)
    have "(keep \<union> span 20 dev) \<inter> (chatter (v_itoa_fixed env) \<union> {unat (v_done env)} \<union> ?q) = {}"
      "(chatter (v_itoa_fixed env) \<union> {unat (v_done env)}) \<inter> ?q = {}"
      "(chatter (v_itoa_fixed env) \<union> {unat (v_done env)}) \<inter> {lo..<hi} = {}"
      using lay by (simp_all only: usb_layout_def)
    then show "(keep \<union> span 20 dev) \<inter> ?q = {}" "unat (v_done env) \<notin> ?q" "unat (v_done env) \<in> - {lo..<hi}"
      by blast+
  qed
  have qBL: "?q \<union> B \<subseteq> payload L \<union> - {lo..<hi}" using l(1) B(1) by (rule Un_least)
  have qB: "?q \<union> B \<subseteq> owned L \<union> - {lo..<hi}" "?q \<union> B \<subseteq> payload L' \<union> - {lo..<hi}"
    by (rule subset_trans [OF qBL], rule Un_mono [OF _ subset_refl], fact sub)+
  then have "(?q \<union> B) \<inter> {b..<f} = {}" using fresh by blast
  then show "?q \<inter> {b..<f} = {}" by blast
  have K: "(?q \<union> B) \<inter> ?K = {}" using \<open>(?q \<union> B) \<inter> {b..<f} = {}\<close> S(2) b by blast
  have S': "?S \<inter> ({unat (v_done env)} \<union> keep \<union> span 20 dev) = {}" using S(1) b fresh l(4,5) by blast
  have qB': "(?q \<union> B) \<inter> ({unat (v_done env)} \<union> keep \<union> span 20 dev) = {}" using l(2,3) B(2) by blast
  show "dma_area env lo hi L' dev keep tds N (controller_area qh tds N B)"
    unfolding dma_area_def controller_area_def
  proof (intro conjI)
    have "?S \<subseteq> payload L' \<union> - {lo..<hi}" using subset_trans [OF S(1) P] by (rule le_supI1)
    with qB(2) show "?q \<union> ?S \<union> B \<subseteq> payload L' \<union> - {lo..<hi}" by (simp only: Un_subset_iff)
    show "(?q \<union> ?S \<union> B) \<inter> ({unat (v_done env)} \<union> keep \<union> span 20 dev \<union> ?K) = {}"
      using K SK S' qB' by (simp only: Int_Un_distrib Int_Un_distrib2 Un_empty)
  qed
qed

lemma delete_run:
  assumes hp: "heap_inv lo hi s (L(dr \<mapsto> (a, x), tds \<mapsto> (b, f)))" and new: "L dr = None" "L tds = None" "dr \<noteq> tds"
    and bp: "ld32 (td_buffer_ptr tds) s = dr"
  obtains s' where "uhci_delete_td_control tds s = Some s'" and "heap_inv lo hi s' L"
    and "same_on (mem s) (mem s') (owned L \<union> - {lo..<hi})" and "only_heap s s'"
proof -
  let ?L1 = "(L(dr \<mapsto> (a, x), tds \<mapsto> (b, f)))(dr := None)"
  have L: "?L1(tds := None) = L" using new by (simp add: fun_eq_iff)
  have sub: "owned L \<subseteq> owned ?L1"
  proof (rule live_mono(1))
    fix p r assume "L p = Some r"
    then have "p \<noteq> dr" "p \<noteq> tds" using new by auto
    then show "?L1 p = Some r" using \<open>L p = Some r\<close> by simp
  qed
  obtain s1 where s1: "memfree dr s = Some s1" "heap_inv lo hi s1 ?L1"
    "same_on (mem s) (mem s1) (owned ?L1 \<union> - {lo..<hi})" "only_heap s s1"
    by (rule release_outcome [OF hp, of dr a x]) (use new in auto)
  obtain s2 where s2: "memfree tds s1 = Some s2" "heap_inv lo hi s2 L"
    "same_on (mem s1) (mem s2) (owned L \<union> - {lo..<hi})" "only_heap s1 s2"
    by (rule release_outcome [OF s1(2), of tds b f, unfolded L]) (use new in auto)
  show thesis
  proof (rule that)
    show "uhci_delete_td_control tds s = Some s2" using s1(1) s2(1) by (simp add: uhci_delete_td_control_def bp)
    show "same_on (mem s) (mem s2) (owned L \<union> - {lo..<hi})"
      by (rule same_on_trans [OF same_on_mono [OF s1(3)] s2(3)]) (use sub in blast)
  qed (use s1(4) s2(2,4) in \<open>simp_all add: only_heap_def\<close>)
qed


text \<open>The driver between two transfers: nothing pending, and the queue of the controller is empty.\<close>

definition usb_ready :: "uhci_env \<Rightarrow> nat \<Rightarrow> nat \<Rightarrow> live \<Rightarrow> u32 \<Rightarrow> nat set \<Rightarrow> 'a uhci_state_scheme \<Rightarrow> bool" where
  "usb_ready env lo hi L dev keep s \<longleftrightarrow> heap_inv lo hi s L \<and> on_screen s \<and> pending_queue s = 0 \<and>
     usb_layout env lo hi L dev (ld32 (ud_qh1ms dev) s) keep \<and>
     ld32 (qh_qelp (ld32 (ud_qh1ms dev) s)) s AND UHCI_TD_LPTR_TERM \<noteq> 0"

text \<open>What the controller may write to during a transfer.\<close>

definition transfer_area :: "u32 \<Rightarrow> u32 \<Rightarrow> nat \<Rightarrow> nat set \<Rightarrow> 'a machine_scheme \<Rightarrow> nat set" where
  "transfer_area dev tds N B s = controller_area (ld32 (ud_qh1ms dev) s) tds N B"

text \<open>The size of the packets of a device and the number of descriptors of a transfer.\<close>

definition packet_size :: "u32 \<Rightarrow> 'a machine_scheme \<Rightarrow> nat" where
  "packet_size udev s = max 8 (unat (ld8 (usb_max_packet_size udev) s))"

definition descriptors :: "u32 \<Rightarrow> u16 \<Rightarrow> 'a machine_scheme \<Rightarrow> nat" where
  "descriptors udev l s = 2 + (unat l + packet_size udev s - 1) div packet_size udev s"

lemma control_built:
  fixes l :: u16 and s s1 :: "'a uhci_state_scheme"
  assumes rdy: "usb_ready env lo hi L dev keep s"
    and udev: "span 24 udev \<subseteq> owned L \<union> - {lo..<hi}" "unat udev + 24 \<le> 4294967296"
    and c: "uhci_create_td_control udev t r v i l pid1 pid2 buf s = Some (ntd, tds, s1)"
    and dr: "memalloc sizeof_device_request s = Some (dr, s0)" "dr \<noteq> 0" "tds \<noteq> 0"
    and B: "B \<subseteq> payload L \<union> - {lo..<hi}" "B \<inter> ({unat (v_done env)} \<union> keep \<union> span 20 dev) = {}"
  defines "N \<equiv> descriptors udev l s"
  obtains a x b f where "ntd = of_nat N" and "L dr = None" and "L tds = None" and "dr \<noteq> tds"
    and "usb_ready env lo hi (L(dr \<mapsto> (a, x), tds \<mapsto> (b, f))) dev keep s1"
    and "tds_live (L(dr \<mapsto> (a, x), tds \<mapsto> (b, f))) (ld32 (ud_qh1ms dev) s) tds N (mem s1)"
    and "dma_area env lo hi (L(dr \<mapsto> (a, x), tds \<mapsto> (b, f))) dev keep tds N (transfer_area dev tds N B s)"
    and "same_on (mem s) (mem s1) (owned L \<union> - {lo..<hi})" and "io_log s1 = io_log s"
    and "heap_state.more s1 = heap_state.more s"
    and "ld32 (td_buffer_ptr tds) s1 = dr"
    and "td_array tds N \<subseteq> {b..<f}" and "{b..<f} \<inter> (owned L \<union> - {lo..<hi}) = {}"
    and "span 8 dr \<subseteq> owned (L(dr \<mapsto> (a, x), tds \<mapsto> (b, f)))" and "span 8 dr \<inter> (owned L \<union> - {lo..<hi}) = {}"
    and "unat dr + 8 \<le> 4294967296" and "request_words (mem s1) dr = (t, r, v, i, l)"
    and "\<forall>j < N. td_words (mem s1) (td_at tds j) =
      control_td (ld8 udev s \<noteq> 0) (ld8 (usb_addr udev) s) (packet_size udev s) dr buf tds N pid1 pid2 j"
proof -
  let ?k = "packet_size udev s"
  define qh where "qh = ld32 (ud_qh1ms dev) s"
  have hp: "heap_inv lo hi s L" using rdy by (simp add: usb_ready_def)
  have lay: "usb_layout env lo hi L dev qh keep" using rdy by (simp add: usb_ready_def qh_def)
  have sp: "{unat udev..<unat udev + 24} \<subseteq> owned L \<union> - {lo..<hi}" using udev(1) by (simp add: span_def)
  have N: "2 \<le> N" "N \<le> 8194" using packets_bound [of ?k l] by (simp_all add: N_def descriptors_def packet_size_def)
  obtain dr' tds' s1' where r:
    "uhci_create_td_control udev t r v i l pid1 pid2 buf s = Some (of_nat N, tds', s1')"
    "\<exists>s1. memalloc sizeof_device_request s = Some (dr', s1)"
    "dr' \<noteq> 0 \<longrightarrow> tds' \<noteq> 0 \<longrightarrow> L dr' = None \<and> L tds' = None \<and> dr' \<noteq> tds' \<and> 16 dvd unat tds' \<and>
      unat tds' + 32 * N \<le> 4294967296 \<and>
      (\<exists>a e b f. heap_inv lo hi s1' (L(dr' \<mapsto> (a, e), tds' \<mapsto> (b, f))) \<and> unat dr' + 8 \<le> e \<and> unat tds' + 32 * N \<le> f) \<and>
      request_words (mem s1') dr' = (t, r, v, i, l) \<and>
      (\<forall>j < N. td_words (mem s1') (td_at tds' j) =
        control_td (ld8 udev s \<noteq> 0) (ld8 (usb_addr udev) s) ?k dr' buf tds' N pid1 pid2 j) \<and>
      same_on (mem s) (mem s1') (owned L \<union> - {lo..<hi}) \<and> heap_state.more s1' = heap_state.more s"
    by (rule create_td_run [OF hp sp udev(2) packet_size_def N_def [THEN meta_eq_to_obj_eq, unfolded descriptors_def]])
  have eq: "ntd = of_nat N" "tds' = tds" "s1' = s1" "dr' = dr" using r(1,2) c dr(1) by auto
  obtain a x b f where A: "L dr = None" "L tds = None" "dr \<noteq> tds" "16 dvd unat tds" "unat tds + 32 * N \<le> 4294967296"
    "heap_inv lo hi s1 (L(dr \<mapsto> (a, x), tds \<mapsto> (b, f)))" "unat tds + 32 * N \<le> f"
    "\<forall>j < N. td_words (mem s1) (td_at tds j) =
        control_td (ld8 udev s \<noteq> 0) (ld8 (usb_addr udev) s) ?k dr buf tds N pid1 pid2 j"
    "same_on (mem s) (mem s1) (owned L \<union> - {lo..<hi})" "heap_state.more s1 = heap_state.more s"
    "request_words (mem s1) dr = (t, r, v, i, l)" "unat dr + 8 \<le> x"
    using r(3) dr(2,3) unfolding eq by blast
  let ?L = "L(dr \<mapsto> (a, x), tds \<mapsto> (b, f))"
  have mono: "?L p = Some q" "(?L(tds := None)) p = Some q" if "L p = Some q" for p q using that A(1,2) by auto
  have sub: "owned L \<subseteq> owned ?L" "payload L \<subseteq> payload ?L" "owned L \<subseteq> owned (?L(tds := None))"
    by (rule live_mono, erule mono)+
  have tb: "?L tds = Some (b, f)" by simp
  note rg = heap_inv_range [OF A(6) tb]
  note area = controller_area_ok [OF A(6) tb A(7) dr(3) sub(3,2) payload_owned [OF hp] lay B]
  have d20: "unat dev + 20 \<le> 4294967296" "span 20 dev \<subseteq> owned L \<union> - {lo..<hi}" using lay by (simp_all add: usb_layout_def)
  have q1: "ld32 (ud_qh1ms dev) s1 = qh"
    unfolding qh_def by (rule load32_span [OF A(9)]) (use dev_fields [OF d20(1)] d20(2) in blast)+
  have ql: "span 4 (qh_qelp qh) \<subseteq> payload L \<union> - {lo..<hi}" "unat (qh_qelp qh) + 4 \<le> 4294967296" using lay by (simp_all add: usb_layout_def)
  have "span 4 (qh_qelp qh) \<subseteq> owned L \<union> - {lo..<hi}" using ql(1) payload_owned [OF hp] by blast
  then have e1: "ld32 (qh_qelp qh) s1 = ld32 (qh_qelp qh) s" using ql(2) by (rule load32_span [OF A(9)])
  show thesis
  proof (rule that [OF eq(1) A(1-3) _ _ _ A(9) _ A(10)])
    show "usb_ready env lo hi ?L dev keep s1"
      using rdy A(6) more_eq [OF A(10)] usb_layout_mono [OF lay sub(1,2)]
      by (simp add: usb_ready_def q1 e1 on_screen_def flip: qh_def)
    show "tds_live ?L (ld32 (ud_qh1ms dev) s) tds N (mem s1)"
      unfolding tds_live_def using N A(4,5,7) dr(3) control_list [OF A(5,4) N(1) A(8)] area(2) tb
      by (intro conjI exI [of _ b] exI [of _ f]) (simp_all flip: qh_def)
    show "dma_area env lo hi ?L dev keep tds N (transfer_area dev tds N B s)"
      using area(1) by (simp add: transfer_area_def qh_def)
    show "io_log s1 = io_log s" by (rule create_td_log [OF c])
    show "ld32 (td_buffer_ptr tds) s1 = dr"
    proof -
      have "td_words (mem s1) (td_at tds 0) = control_td (ld8 udev s \<noteq> 0) (ld8 (usb_addr udev) s) ?k dr buf tds N pid1 pid2 0"
        using A(8) N(1) by simp
      then show ?thesis using N(1) by (simp add: td_words_def control_td_def td_at_def)
    qed
    show "td_array tds N \<subseteq> {b..<f}" using rg(3) A(7) by (auto simp: td_array_def)
    have "{b..<f} \<inter> owned L = {}" using block_apart [OF A(6) tb] sub(3) by blast
    moreover have "{b..<f} \<subseteq> {lo..<hi}" using rg(1,2) by auto
    ultimately show "{b..<f} \<inter> (owned L \<union> - {lo..<hi}) = {}" by blast
    have db: "?L dr = Some (a, x)" using A(3) by simp
    note rd = heap_inv_range [OF A(6) db]
    have in8: "span 8 dr \<subseteq> {a..<x}" using rd(3) A(12) by (auto simp: span_def)
    moreover have "{a..<x} \<subseteq> owned ?L" using db by (auto intro: ownedI)
    ultimately show "span 8 dr \<subseteq> owned ?L" by blast
    have "owned L \<subseteq> owned (?L(dr := None))" by (rule live_mono(1)) (use A(1,2) in auto)
    then have "{a..<x} \<inter> owned L = {}" using block_apart [OF A(6) db] by blast
    moreover have "{a..<x} \<subseteq> {lo..<hi}" using rd(1,2) by auto
    ultimately show "span 8 dr \<inter> (owned L \<union> - {lo..<hi}) = {}" using in8 by blast
    have "hi < 4294967296" using hp by (auto simp: heap_inv_def heap_ok_def)
    then show "unat dr + 8 \<le> 4294967296" using A(12) rd(2) by simp
  qed (rule A(11), rule A(8))
qed



section \<open>The controller serves the transfer\<close>

text \<open>
  The structure of a device at \<open>udev\<close> says the truth about the function \<open>d\<close>, which answers the request \<open>rq\<close>
  with \<open>bs\<close>, in packets the descriptors have room for.
\<close>

definition device_known :: "usb_function \<Rightarrow> u32 \<Rightarrow> 'a machine_scheme \<Rightarrow> bool" where
  "device_known d udev s \<longleftrightarrow>
     f_address d = ld8 (usb_addr udev) s AND 0x7f \<and> (f_low_speed d \<longleftrightarrow> ld8 (usb_low_speed udev) s \<noteq> 0)"

definition device_answers :: "usb_function \<Rightarrow> u32 \<Rightarrow> usb_request \<Rightarrow> u8 list \<Rightarrow> 'a machine_scheme \<Rightarrow> bool" where
  "device_answers d udev rq bs s \<longleftrightarrow> device_known d udev s \<and> transfer_suits d rq (packet_size udev s) bs"

text \<open>The descriptors at the time of the wait are still the ones that have been built.\<close>

lemma queued_chain:
  assumes q: "queued env lo hi L1 qh tds m1 m" and N: "2 \<le> N" "tds \<noteq> 0" "16 dvd unat tds" "unat tds + 32 * N \<le> 4294967296"
    and lay: "usb_layout env lo hi L dev qh keep" and own: "payload L \<subseteq> owned L" "owned L \<subseteq> owned L1"
    and arr: "td_array tds N \<subseteq> {b..<f}" "{b..<f} \<inter> (owned L \<union> - {lo..<hi}) = {}" "{b..<f} \<subseteq> owned L1"
    and dr: "span 8 dr \<subseteq> owned L1" "span 8 dr \<inter> (owned L \<union> - {lo..<hi}) = {}" "unat dr + 8 \<le> 4294967296"
    and buf: "span n buf \<subseteq> payload L \<union> - {lo..<hi}" "span n buf \<inter> span 4 (qh_qelp qh) = {}" "unat buf + n \<le> 4294967296"
    and words: "\<forall>j < N. td_words m1 (td_at tds j) = control_td low addr k dr buf tds N pid1 pid2 j"
  shows "control_chain low addr qh tds N dr buf k pid1 pid2 n m" and "request_words m dr = request_words m1 dr"
proof -
  let ?q = "span 4 (qh_qelp qh)" and ?S = "(owned L1 \<union> - {lo..<hi}) - {unat (v_done env)} - span 4 (qh_qelp qh)"
  have f: "same_on m1 m ?S" and l: "load32 m (qh_qelp qh) = tds" using q by (simp_all add: queued_def)
  have ql: "?q \<subseteq> payload L \<union> - {lo..<hi}" "unat (qh_qelp qh) + 4 \<le> 4294967296" "unat (v_done env) \<in> - {lo..<hi}"
    using lay by (simp_all add: usb_layout_def)
  then have qo: "?q \<subseteq> owned L \<union> - {lo..<hi}" using own(1) by blast
  have bo: "span n buf \<subseteq> owned L \<union> - {lo..<hi}" using buf(1) own(1) by blast
  have as: "td_array tds N \<subseteq> ?S" "?q \<inter> td_array tds N = {}" using arr qo ql(3) by blast+
  have ds: "span 8 dr \<subseteq> ?S" using dr(1,2) qo ql(3) by blast
  show "request_words m dr = request_words m1 dr" by (rule request_words_same [OF f ds dr(3)])
  have "td_words m (td_at tds j) = control_td low addr k dr buf tds N pid1 pid2 j" if "j < N" for j
    using td_words_same [OF f subset_trans [OF td_at_facts(2) [OF N(4,2) that] as(1)] td_at_facts(1) [OF N(4,2) that]] words that by simp
  moreover have "span n buf \<inter> td_array tds N = {}" using bo arr by blast
  ultimately show "control_chain low addr qh tds N dr buf k pid1 pid2 n m"
    using N l ql(2) buf(2,3) dr(3) as(2) by (simp add: control_chain_def Int_Un_distrib)
qed

text \<open>So a controller works through them, and the interrupt arrives.\<close>

lemma attached_serves:
  fixes l :: u16
  assumes att: "usb_attached hw d n port qh log" and sz: "8 \<le> sz" and fit: "transfer_suits d (t, r, v, ix, l) sz bs"
    "addr AND 0x7f = f_address d" "N = 2 + (unat l + sz - 1) div sz" "l \<noteq> 0 \<longrightarrow> pid1 = 0x69" "pid2 = (if l = 0 then 0x69 else 0xe1)"
  obtains k where "\<forall>m. control_chain (f_low_speed d) addr qh tds N dr buf sz pid1 pid2 (length bs) m \<and> request_words m dr = (t, r, v, ix, l) \<longrightarrow>
      serves hw log k n port (controller_area qh tds N (span (length bs) buf)) (td_at tds (N - 1)) m \<and>
      chain_done qh tds N buf bs (dma_after hw log (Suc k) m)"
proof -
  obtain k u where k: "\<forall>j < k. hw_irq hw (log @ replicate j (Halt 32)) = 32"
    and c: "\<And>m. \<exists>c :: nat \<Rightarrow> nat. mono c \<and> c 0 = 0 \<and> 8194 \<le> c (Suc k) \<and>
      (\<forall>j \<le> k. hw_dma hw (log @ replicate j (Halt 32)) (usb_memory (usb_steps d qh (c j) (u, False, m))) =
         usb_memory (usb_steps d qh (c (Suc j)) (u, False, m))) \<and>
      (usb_interrupt (usb_steps d qh (c (Suc k)) (u, False, m)) \<longrightarrow>
         hw_irq hw (log @ replicate k (Halt 32)) = n \<and> hw_inw hw (log @ replicate k (Halt 32) @ [Halt n]) port \<noteq> 0)"
    using att unfolding usb_attached_def by blast
  show thesis
  proof (rule that, intro allI impI, elim conjE)
    fix m
    assume A: "control_chain (f_low_speed d) addr qh tds N dr buf sz pid1 pid2 (length bs) m" "request_words m dr = (t, r, v, ix, l)"
    obtain c where c: "c 0 = 0" "8194 \<le> c (Suc k)"
      "\<forall>j \<le> k. hw_dma hw (log @ replicate j (Halt 32)) (usb_memory (usb_steps d qh (c j) (u, False, m))) =
         usb_memory (usb_steps d qh (c (Suc j)) (u, False, m))"
      "usb_interrupt (usb_steps d qh (c (Suc k)) (u, False, m)) \<longrightarrow>
         hw_irq hw (log @ replicate k (Halt 32)) = n \<and> hw_inw hw (log @ replicate k (Halt 32) @ [Halt n]) port \<noteq> 0"
      using c [of m] by blast
    have dma: "dma_after hw log j m = usb_memory (usb_steps d qh (c j) (u, False, m))" if "j \<le> Suc k" for j
      using that by (induction j) (use c(1,3) in \<open>simp_all add: usb_memory_def\<close>)
    note e = chain_end [OF fit A, where u = u]
    have "2 \<le> N" using fit(3) by simp
    have "N \<le> c (Suc k)" using packets_bound [OF sz, of l] c(2) fit(3) by simp
    note fin = e(2,3) [OF this, folded dma [OF order_refl]]
    have "serves hw log k n port (controller_area qh tds N (span (length bs) buf)) (td_at tds (N - 1)) m"
      unfolding serves_def using k c(4) fin e(1) dma \<open>2 \<le> N\<close> by (auto simp: chain_done_def simp del: dma_after.simps)
    with fin(2) show "serves hw log k n port (controller_area qh tds N (span (length bs) buf)) (td_at tds (N - 1)) m \<and>
      chain_done qh tds N buf bs (dma_after hw log (Suc k) m)" by blast
  qed
qed

text \<open>The driver between two transfers stays so when memory it does not use changes.\<close>

lemma usb_ready_frame:
  assumes rdy: "usb_ready env lo hi L dev keep s" and inv: "heap_inv lo hi s' L"
    and f: "same_on (mem s) (mem s') (span 20 dev \<union> span 4 (qh_qelp (ld32 (ud_qh1ms dev) s)))"
    and m: "curs_row s' = curs_row s" "curs_col s' = curs_col s" "pending_queue s' = pending_queue s"
  shows "usb_ready env lo hi L dev keep s'"
proof -
  let ?qh = "ld32 (ud_qh1ms dev) s"
  have lay: "unat dev + 20 \<le> 4294967296" "unat (qh_qelp ?qh) + 4 \<le> 4294967296" using rdy by (simp_all add: usb_ready_def usb_layout_def)
  have q: "ld32 (ud_qh1ms dev) s' = ?qh" by (rule load32_span [OF f]) (use dev_fields [OF lay(1)] in blast)+
  have e: "ld32 (qh_qelp ?qh) s' = ld32 (qh_qelp ?qh) s" by (rule load32_span [OF f _ lay(2)]) blast
  show ?thesis using rdy inv m by (simp add: usb_ready_def q e on_screen_def)
qed

text \<open>The controller leaves the pointer of the first descriptor alone, and so does the driver.\<close>

lemma spared_buffer:
  assumes lay: "usb_layout env lo hi L dev qh keep" and hp: "heap_inv lo hi s L" and B: "B \<subseteq> payload L \<union> - {lo..<hi}"
    and live: "tds_live L' qh tds N m" and arr: "td_array tds N \<subseteq> {b..<f}" "{b..<f} \<inter> (owned L \<union> - {lo..<hi}) = {}"
    and own: "{b..<f} \<subseteq> owned L1"
  shows "span 4 (td_buffer_ptr tds) \<subseteq> spared env lo hi L1 qh (controller_area qh tds N B)"
proof -
  let ?X = "chatter (v_itoa_fixed env) \<union> {unat (v_done env)}"
  have t: "2 \<le> N" "unat tds + 32 * N \<le> 4294967296" "tds \<noteq> 0" using live by (simp_all add: tds_live_def)
  note ua = td_field_addr [of tds]
  have ok: "span_ok 20 tds" using t by (simp add: span_ok_def)
  have "td_span tds \<subseteq> td_array tds N" using t(1) by (auto simp: td_array_def span_def)
  then have bs: "span 4 (td_buffer_ptr tds) \<subseteq> td_array tds N" using ua [OF ok] by (auto simp: span_def)
  moreover have "span 4 (td_buffer_ptr tds) \<inter> span 4 (td_ctrl_status (td_at tds j)) = {}" if "j < N" for j
    using ua [OF ok] td_field_addr(2) [OF td_at_facts(1) [OF t(2,3) that]] unat_td_at [OF t(2) that]
    by (cases j) (auto simp: span_def)
  moreover have "span 4 (qh_qelp qh) \<union> B \<union> ?X \<subseteq> owned L \<union> - {lo..<hi}"
    using lay B payload_owned [OF hp] by (auto simp: usb_layout_def)
  ultimately show ?thesis
    using arr own unfolding spared_def controller_area_def by blast
qed

text \<open>A buffer of the driver, apart from what the transfer itself uses.\<close>

definition buffer_apart :: "uhci_env \<Rightarrow> nat \<Rightarrow> nat \<Rightarrow> live \<Rightarrow> u32 \<Rightarrow> nat set \<Rightarrow> nat set \<Rightarrow> bool" where
  "buffer_apart env lo hi L dev keep B \<longleftrightarrow> B \<subseteq> payload L \<union> - {lo..<hi} \<and>
     B \<inter> (chatter (v_itoa_fixed env) \<union> {unat (v_done env)} \<union> keep \<union> span 20 dev) = {}"

lemma queue_head_kept:
  assumes rdy: "usb_ready env lo hi L dev keep s" and B: "buffer_apart env lo hi L dev keep B"
    and f: "same_on (mem s) (mem s') (spared env lo hi L (ld32 (ud_qh1ms dev) s) B)"
  shows "ld32 (ud_qh1ms dev) s' = ld32 (ud_qh1ms dev) s"
    and "keep \<union> span 20 dev \<subseteq> spared env lo hi L (ld32 (ud_qh1ms dev) s) B"
proof -
  let ?qh = "ld32 (ud_qh1ms dev) s" and ?X = "chatter (v_itoa_fixed env) \<union> {unat (v_done env)}"
  have "keep \<union> span 20 dev \<subseteq> owned L \<union> - {lo..<hi}" "(keep \<union> span 20 dev) \<inter> (?X \<union> span 4 (qh_qelp ?qh)) = {}"
    "B \<inter> (?X \<union> keep \<union> span 20 dev) = {}" and d: "unat dev + 20 \<le> 4294967296"
    using rdy B by (simp_all add: usb_ready_def usb_layout_def buffer_apart_def)
  then show s: "keep \<union> span 20 dev \<subseteq> spared env lo hi L ?qh B" unfolding spared_def by blast
  show "ld32 (ud_qh1ms dev) s' = ?qh" by (rule load32_span [OF f]) (use dev_fields [OF d] s in blast)+
qed

context usb_interrupts begin

lemma control_run:
  fixes l :: u16 and s s1 :: "'a uhci_state_scheme"
  assumes rdy: "usb_ready env lo hi L dev keep s" and irq: "inv s"
    and udev: "span 24 udev \<subseteq> owned L \<union> - {lo..<hi}" "unat udev + 24 \<le> 4294967296"
    and c: "uhci_create_td_control udev t r v i l pid1 pid2 buf s = Some (ntd, tds, s1)"
    and dr: "memalloc sizeof_device_request s = Some (dr, s0)" "dr \<noteq> 0" "tds \<noteq> 0"
    and e: "memalloc sizeof_transfer_entry (st8 (v_done env) 0 s1) = Some (e, s2)" "e \<noteq> 0"
    and buf: "buffer_apart env lo hi L dev keep (span (length bs) buf)" "unat buf + length bs \<le> 4294967296"
      "span (length bs) buf \<inter> span 4 (qh_qelp (ld32 (ud_qh1ms dev) s)) = {}"
    and ans: "device_answers d udev (t, r, v, i, l) bs s" and pid: "l \<noteq> 0 \<longrightarrow> pid1 = 0x69" "pid2 = (if l = 0 then 0x69 else 0xe1)"
    and att: "usb_attached (v_hw env) d n (ld16 (ud_iobase dev) s + 2) (ld32 (ud_qh1ms dev) s) (io_log s)"
  obtains s' a x b f where "run_entry env isr dev tds ntd s1 = Some (True, s')"
    and "usb_ready env lo hi (L(dr \<mapsto> (a, x), tds \<mapsto> (b, f))) dev keep s'" and "inv s'"
    and "ld32 (td_buffer_ptr tds) s' = dr" and "L dr = None" and "L tds = None" and "dr \<noteq> tds"
    and "same_on (mem s) (mem s') (spared env lo hi L (ld32 (ud_qh1ms dev) s) (span (length bs) buf))"
    and "bytes_at (mem s') buf (length bs) = bs"
    and "td_array tds (descriptors udev l s) \<subseteq> {b..<f}" and "{b..<f} \<inter> (owned L \<union> - {lo..<hi}) = {}"
proof -
  define N where "N = descriptors udev l s"
  define B where "B = span (length bs) buf"
  have B: "B \<subseteq> payload L \<union> - {lo..<hi}" "B \<inter> ({unat (v_done env)} \<union> keep \<union> span 20 dev) = {}" "B \<inter> chatter (v_itoa_fixed env) = {}"
    using buf(1) unfolding buffer_apart_def B_def by blast+
  let ?qh = "ld32 (ud_qh1ms dev) s" and ?D = "transfer_area dev tds N B s"
  let ?X = "chatter (v_itoa_fixed env) \<union> {unat (v_done env)}"
  obtain a x b f where A: "ntd = of_nat N" "L dr = None" "L tds = None" "dr \<noteq> tds"
    "usb_ready env lo hi (L(dr \<mapsto> (a, x), tds \<mapsto> (b, f))) dev keep s1"
    "tds_live (L(dr \<mapsto> (a, x), tds \<mapsto> (b, f))) ?qh tds N (mem s1)"
    "dma_area env lo hi (L(dr \<mapsto> (a, x), tds \<mapsto> (b, f))) dev keep tds N ?D"
    "same_on (mem s) (mem s1) (owned L \<union> - {lo..<hi})" "io_log s1 = io_log s" "heap_state.more s1 = heap_state.more s"
    "ld32 (td_buffer_ptr tds) s1 = dr" "td_array tds N \<subseteq> {b..<f}" "{b..<f} \<inter> (owned L \<union> - {lo..<hi}) = {}"
    "span 8 dr \<subseteq> owned (L(dr \<mapsto> (a, x), tds \<mapsto> (b, f)))" "span 8 dr \<inter> (owned L \<union> - {lo..<hi}) = {}" "unat dr + 8 \<le> 4294967296"
    "request_words (mem s1) dr = (t, r, v, i, l)" "\<forall>j < N. td_words (mem s1) (td_at tds j) =
      control_td (ld8 udev s \<noteq> 0) (ld8 (usb_addr udev) s) (packet_size udev s) dr buf tds N pid1 pid2 j"
    unfolding N_def by (rule control_built [OF rdy udev c dr B(1,2)])
  define L1 where "L1 = L(dr \<mapsto> (a, x), tds \<mapsto> (b, f))"
  note R = A(5) [folded L1_def]
  have lay: "usb_layout env lo hi L dev ?qh keep" using rdy by (simp add: usb_ready_def)
  have d: "unat dev + 20 \<le> 4294967296" "span 20 dev \<subseteq> owned L \<union> - {lo..<hi}" "keep \<subseteq> owned L \<union> - {lo..<hi}"
    using lay by (simp_all add: usb_layout_def)
  note df = dev_fields [OF d(1)]
  have q1: "ld32 (ud_qh1ms dev) s1 = ?qh" by (rule load32_span [OF A(8)]) (use df d(2) in blast)+
  have dv2: "span 2 dev \<subseteq> owned L \<union> - {lo..<hi}" using df(3) d(2) by (rule subset_trans)
  have io: "ld16 (ud_iobase dev) s1 = ld16 (ud_iobase dev) s"
    by (rule load16_same [OF A(8)]) (use dv2 d(1) in \<open>simp_all add: ud_iobase_def span_def\<close>)
  have i1: "inv s1" by (rule frame [OF irq same_on_mono [OF A(8) d(3)]]) (use more_eq [OF A(10)] in simp)
  have r1: "heap_inv lo hi s1 L1" "usb_layout env lo hi L1 dev (ld32 (ud_qh1ms dev) s1) keep"
    "tds_live L1 (ld32 (ud_qh1ms dev) s1) tds N (mem s1)" "pending_queue s1 = 0" "on_screen s1"
    "ld32 (qh_qelp (ld32 (ud_qh1ms dev) s1)) s1 AND UHCI_TD_LPTR_TERM \<noteq> 0"
    using R A(6) by (simp_all add: usb_ready_def L1_def q1)
  have hp: "heap_inv lo hi s L" using rdy by (simp add: usb_ready_def)
  have sub: "owned L \<subseteq> owned L1" by (rule live_mono(1)) (use A(2,3) in \<open>auto simp: L1_def\<close>)
  have t: "2 \<le> N" "unat tds + 32 * N \<le> 4294967296" "16 dvd unat tds" using A(6) by (simp_all add: tds_live_def)
  have bf: "{b..<f} \<subseteq> owned L1" by (auto simp: L1_def intro: ownedI)
  note an = ans [unfolded device_answers_def device_known_def usb_low_speed_def]
  have "8 \<le> packet_size udev s" "transfer_suits d (t, r, v, i, l) (packet_size udev s) bs" "ld8 (usb_addr udev) s AND 0x7f = f_address d"
    "N = 2 + (unat l + packet_size udev s - 1) div packet_size udev s"
    using an by (simp_all add: packet_size_def N_def descriptors_def)
  then obtain k where k: "\<forall>m. control_chain (f_low_speed d) (ld8 (usb_addr udev) s) ?qh tds N dr buf (packet_size udev s) pid1 pid2 (length bs) m \<and>
      request_words m dr = (t, r, v, i, l) \<longrightarrow>
      serves (v_hw env) (io_log s) k n (ld16 (ud_iobase dev) s + 2) (controller_area ?qh tds N (span (length bs) buf)) (td_at tds (N - 1)) m \<and>
      chain_done ?qh tds N buf bs (dma_after (v_hw env) (io_log s) (Suc k) m)"
    by (rule attached_serves [OF att]) (rule pid)+
  have served: "serves (v_hw env) (io_log s) k n (ld16 (ud_iobase dev) s + 2) ?D (td_at tds (N - 1)) m \<and>
      chain_done ?qh tds N buf bs (dma_after (v_hw env) (io_log s) (Suc k) m)" if q: "queued env lo hi L1 ?qh tds (mem s1) m" for m
  proof -
    have lw: "ld8 udev s \<noteq> 0 \<longleftrightarrow> f_low_speed d" using an by blast
    note ch = queued_chain [OF q t(1) dr(3) t(3,2) lay payload_owned [OF hp] sub A(12,13) bf A(14) [folded L1_def] A(15,16) B(1) [unfolded B_def]
        buf(3,2) A(18) [unfolded lw]]
    show ?thesis unfolding transfer_area_def B_def using k ch A(17) by simp
  qed
  obtain s' where s': "run_entry env isr dev tds (of_nat N) s1 = Some (True, s')" "heap_inv lo hi s' L1" "inv s'" "on_screen s'"
    "pending_queue s' = 0" "\<exists>m. queued env lo hi L1 ?qh tds (mem s1) m \<and>
      same_on (dma_after (v_hw env) (io_log s) (Suc k) m) (mem s') ((owned L1 \<union> - {lo..<hi}) - ?X)"
    "same_on (mem s1) (mem s') (spared env lo hi L1 ?qh ?D)"
    using run_entry_run [OF r1(1-3) A(7) [folded L1_def] r1(4,6,5) e i1, of k, unfolded q1 io A(9), OF served [THEN conjunct1]]
    by blast
  obtain m where m: "queued env lo hi L1 ?qh tds (mem s1) m"
    "same_on (dma_after (v_hw env) (io_log s) (Suc k) m) (mem s') ((owned L1 \<union> - {lo..<hi}) - ?X)"
    using s'(6) by blast
  note fin = served [OF m(1), THEN conjunct2, unfolded chain_done_def]
  have mL: "same_on (dma_after (v_hw env) (io_log s) (Suc k) m) (mem s') ((owned L \<union> - {lo..<hi}) - ?X)"
    by (rule same_on_mono [OF m(2)]) (use sub in blast)
  have st: "span 4 (td_ctrl_status (td_at tds j)) \<subseteq> td_array tds N" "unat (td_ctrl_status (td_at tds j)) = unat tds + 32 * j + 4"
    if "j < N" for j
    using td_field_addr(2) [OF td_at_facts(1) [OF t(2) dr(3) that]] unat_td_at [OF t(2) that] that
    by (auto simp: span_def td_array_def)
  have sp: "spared env lo hi L ?qh B \<subseteq> spared env lo hi L1 ?qh ?D"
    using sub st(1) A(12,13) unfolding spared_def transfer_area_def controller_area_def by blast
  have f: "same_on (mem s) (mem s') (spared env lo hi L ?qh B)"
    by (rule same_on_trans [OF same_on_mono [OF A(8)] same_on_mono [OF s'(7) sp]]) (auto simp: spared_def)
  have ql: "span 4 (qh_qelp ?qh) \<subseteq> (owned L \<union> - {lo..<hi}) - ?X" "unat (qh_qelp ?qh) + 4 \<le> 4294967296"
  proof -
    have "span 4 (qh_qelp ?qh) \<subseteq> payload L \<union> - {lo..<hi}" "?X \<inter> span 4 (qh_qelp ?qh) = {}" using lay by (simp_all add: usb_layout_def)
    then show "span 4 (qh_qelp ?qh) \<subseteq> (owned L \<union> - {lo..<hi}) - ?X"
      using payload_owned [of lo hi s L] rdy by (auto simp: usb_ready_def)
  qed (use lay in \<open>simp add: usb_layout_def\<close>)
  have "load32 (mem s') (qh_qelp ?qh) = load32 (dma_after (v_hw env) (io_log s) (Suc k) m) (qh_qelp ?qh)"
    by (rule load32_span [OF mL ql])
  then have qterm: "ld32 (qh_qelp ?qh) s' AND UHCI_TD_LPTR_TERM \<noteq> 0" using fin by (simp add: UHCI_TD_LPTR_TERM_def del: dma_after.simps)
  have dsp: "span 20 dev \<subseteq> spared env lo hi L1 ?qh ?D"
    using spared_layout [OF r1(2) A(7) [folded L1_def], unfolded q1] by blast
  have q2: "ld32 (ud_qh1ms dev) s' = ?qh"
    using load32_span [OF s'(7) subset_trans [OF df(1) dsp] df(2)] q1 by (rule trans)
  have ready: "usb_ready env lo hi L1 dev keep s'" using s'(2,4,5) r1(2) qterm by (simp add: usb_ready_def q1 q2)
  have bytes: "bytes_at (mem s') buf (length bs) = bs"
  proof -
    have "B \<subseteq> (owned L \<union> - {lo..<hi}) - ?X" using B payload_owned [OF hp] by blast
    then have "bytes_at (mem s') buf (length bs) = bytes_at (dma_after (v_hw env) (io_log s) (Suc k) m) buf (length bs)"
      by (intro bytes_at_same [OF mL _ buf(2)]) (simp add: B_def span_def)
    then show ?thesis using fin by simp
  qed
  have "span 4 (td_buffer_ptr tds) \<subseteq> spared env lo hi L1 ?qh ?D"
    unfolding transfer_area_def using spared_buffer [OF lay hp B(1) A(6) A(12,13) bf] by blast
  moreover have "unat (td_buffer_ptr tds) + 4 \<le> 4294967296"
    using td_field_addr(4) [of tds] t dr(3) by (simp add: span_ok_def)
  ultimately have bp: "ld32 (td_buffer_ptr tds) s' = dr" using load32_span [OF s'(7)] A(11) by simp
  show thesis
    by (rule that [of s' a x b f, folded L1_def N_def B_def])
      (use s'(1,3) ready bp A(1-4) A(12,13) f bytes in auto)
qed

lemma transfer_done:
  assumes rdy: "usb_ready env lo hi (L(dr \<mapsto> (a, x), tds \<mapsto> (b, f))) dev keep s"
    and lay: "usb_layout env lo hi L dev (ld32 (ud_qh1ms dev) s) keep" and irq: "inv s"
    and new: "L dr = None" "L tds = None" "dr \<noteq> tds" and bp: "ld32 (td_buffer_ptr tds) s = dr"
  obtains s' where "uhci_delete_td_control tds s = Some s'" and "usb_ready env lo hi L dev keep s'" and "inv s'"
    and "same_on (mem s) (mem s') (owned L \<union> - {lo..<hi})"
proof -
  let ?qh = "ld32 (ud_qh1ms dev) s"
  have hp: "heap_inv lo hi s (L(dr \<mapsto> (a, x), tds \<mapsto> (b, f)))" using rdy by (simp add: usb_ready_def)
  obtain s' where s': "uhci_delete_td_control tds s = Some s'" "heap_inv lo hi s' L"
    "same_on (mem s) (mem s') (owned L \<union> - {lo..<hi})" "only_heap s s'"
    by (rule delete_run [OF hp new bp])
  note m = more_eq [of s' s] only_heap_def [of s s', THEN iffD1, OF s'(4)]
  have d: "span 20 dev \<subseteq> owned L \<union> - {lo..<hi}" "keep \<subseteq> owned L \<union> - {lo..<hi}" "unat dev + 20 \<le> 4294967296"
    "span 4 (qh_qelp ?qh) \<subseteq> payload L \<union> - {lo..<hi}" "unat (qh_qelp ?qh) + 4 \<le> 4294967296"
    using lay by (simp_all add: usb_layout_def)
  have q: "span 4 (qh_qelp ?qh) \<subseteq> owned L \<union> - {lo..<hi}" using d(4) payload_owned [OF s'(2)] by blast
  have q': "ld32 (ud_qh1ms dev) s' = ?qh" by (rule load32_span [OF s'(3)]) (use dev_fields [OF d(3)] d(1) in blast)+
  have e: "ld32 (qh_qelp ?qh) s' = ld32 (qh_qelp ?qh) s" by (rule load32_span [OF s'(3) q d(5)])
  have "usb_ready env lo hi L dev keep s'"
    using rdy s'(2) m lay by (simp add: usb_ready_def q' e on_screen_def)
  moreover have "inv s'" by (rule frame [OF irq same_on_mono [OF s'(3) d(2)]]) (use m in simp)
  ultimately show thesis by (rule that [OF s'(1) _ _ s'(3)])
qed

end


text \<open>No allocation of a transfer is refused.\<close>

definition allocs_granted :: "uhci_env \<Rightarrow> (u16 \<times> u32 \<times> 'a uhci_state_scheme) option \<Rightarrow> 'a uhci_state_scheme \<Rightarrow> u32 \<Rightarrow> bool" where
  "allocs_granted env built s tds \<longleftrightarrow> tds \<noteq> 0 \<and>
     (\<exists>dr s0 ntd s1 e s2. memalloc sizeof_device_request s = Some (dr, s0) \<and> dr \<noteq> 0 \<and> built = Some (ntd, tds, s1) \<and>
        memalloc sizeof_transfer_entry (st8 (v_done env) 0 s1) = Some (e, s2) \<and> e \<noteq> 0)"

context usb_interrupts begin

lemma control_completes:
  fixes l :: u16 and s :: "'a uhci_state_scheme"
  assumes rdy: "usb_ready env lo hi L dev keep s" and irq: "inv s"
    and udev: "span 24 udev \<subseteq> owned L \<union> - {lo..<hi}" "unat udev + 24 \<le> 4294967296"
    and g: "allocs_granted env (uhci_create_td_control udev t r v i l pid1 pid2 buf s) s tds"
    and buf: "buffer_apart env lo hi L dev keep (span (length bs) buf)" "unat buf + length bs \<le> 4294967296"
      "span (length bs) buf \<inter> span 4 (qh_qelp (ld32 (ud_qh1ms dev) s)) = {}"
    and ans: "device_answers d udev (t, r, v, i, l) bs s" and pid: "l \<noteq> 0 \<longrightarrow> pid1 = 0x69" "pid2 = (if l = 0 then 0x69 else 0xe1)"
    and att: "usb_attached (v_hw env) d n (ld16 (ud_iobase dev) s + 2) (ld32 (ud_qh1ms dev) s) (io_log s)"
  obtains ntd s1 s' dr a x b f where "uhci_create_td_control udev t r v i l pid1 pid2 buf s = Some (ntd, tds, s1)"
    and "run_entry env isr dev tds ntd s1 = Some (True, s')"
    and "usb_ready env lo hi (L(dr \<mapsto> (a, x), tds \<mapsto> (b, f))) dev keep s'" and "inv s'"
    and "ld32 (td_buffer_ptr tds) s' = dr" and "L dr = None" and "L tds = None" and "dr \<noteq> tds"
    and "same_on (mem s) (mem s') (spared env lo hi L (ld32 (ud_qh1ms dev) s) (span (length bs) buf))"
    and "bytes_at (mem s') buf (length bs) = bs"
    and "span_ok 20 tds" and "td_span tds \<subseteq> {b..<f}" and "{b..<f} \<inter> (owned L \<union> - {lo..<hi}) = {}"
proof -
  obtain dr s0 ntd s1 e s2 where d: "memalloc sizeof_device_request s = Some (dr, s0)" "dr \<noteq> 0" "tds \<noteq> 0"
    and c: "uhci_create_td_control udev t r v i l pid1 pid2 buf s = Some (ntd, tds, s1)"
    and e: "memalloc sizeof_transfer_entry (st8 (v_done env) 0 s1) = Some (e, s2)" "e \<noteq> 0"
    using g unfolding allocs_granted_def by blast
  obtain s' a x b f where r: "run_entry env isr dev tds ntd s1 = Some (True, s')"
    "usb_ready env lo hi (L(dr \<mapsto> (a, x), tds \<mapsto> (b, f))) dev keep s'" "inv s'"
    "ld32 (td_buffer_ptr tds) s' = dr" "L dr = None" "L tds = None" "dr \<noteq> tds"
    "same_on (mem s) (mem s') (spared env lo hi L (ld32 (ud_qh1ms dev) s) (span (length bs) buf))"
    "bytes_at (mem s') buf (length bs) = bs"
    "td_array tds (descriptors udev l s) \<subseteq> {b..<f}" "{b..<f} \<inter> (owned L \<union> - {lo..<hi}) = {}"
    by (rule control_run [OF rdy irq udev c d e buf ans pid att])
  have hp: "heap_inv lo hi s' (L(dr \<mapsto> (a, x), tds \<mapsto> (b, f)))" using r(2) by (simp add: usb_ready_def)
  have tin: "td_span tds \<subseteq> {b..<f}" using r(10) by (auto simp: td_array_def span_def descriptors_def)
  have "f \<le> hi" "hi < 4294967296" using heap_inv_range [OF hp, of tds b f] hp by (auto simp: heap_inv_def heap_ok_def)
  moreover have "unat tds + 20 \<le> f"
  proof -
    have "unat tds + 19 \<in> td_span tds" by (simp add: span_def)
    then show ?thesis using tin by auto
  qed
  ultimately have ok: "span_ok 20 tds" using d(3) by (simp add: span_ok_def)
  show thesis by (rule that [OF c r(1-9) ok tin r(11)])
qed

text \<open>The common end of the functions: the descriptors are freed.\<close>

lemma read_completes:
  fixes l :: u16 and s :: "'a uhci_state_scheme"
  assumes rdy: "usb_ready env lo hi L dev keep s" and irq: "inv s"
    and udev: "span 24 udev \<subseteq> owned L \<union> - {lo..<hi}" "unat udev + 24 \<le> 4294967296"
    and g: "allocs_granted env (uhci_create_td_control udev t r v i l pid1 pid2 buf s) s tds"
    and buf: "buffer_apart env lo hi L dev keep (span (length bs) buf)" "unat buf + length bs \<le> 4294967296"
      "span (length bs) buf \<inter> span 4 (qh_qelp (ld32 (ud_qh1ms dev) s)) = {}"
    and ans: "device_answers d udev (t, r, v, i, l) bs s" and pid: "l \<noteq> 0 \<longrightarrow> pid1 = 0x69" "pid2 = (if l = 0 then 0x69 else 0xe1)"
    and att: "usb_attached (v_hw env) d n (ld16 (ud_iobase dev) s + 2) (ld32 (ud_qh1ms dev) s) (io_log s)"
  shows "\<exists>s'. uhci_create_td_control udev t r v i l pid1 pid2 buf s \<bind> (\<lambda>(ntd, td, s).
      run_entry env isr dev td ntd s \<bind> (\<lambda>(result, s). uhci_delete_td_control td s \<bind> (\<lambda>s. Some (result, s)))) = Some (True, s') \<and>
    usb_ready env lo hi L dev keep s' \<and> inv s' \<and> bytes_at (mem s') buf (length bs) = bs \<and>
    same_on (mem s) (mem s') (spared env lo hi L (ld32 (ud_qh1ms dev) s) (span (length bs) buf))"
proof -
  let ?qh = "ld32 (ud_qh1ms dev) s" and ?B = "span (length bs) buf"
  obtain ntd s1 s2 dr a x b f where r: "uhci_create_td_control udev t r v i l pid1 pid2 buf s = Some (ntd, tds, s1)"
    "run_entry env isr dev tds ntd s1 = Some (True, s2)"
    "usb_ready env lo hi (L(dr \<mapsto> (a, x), tds \<mapsto> (b, f))) dev keep s2" "inv s2"
    "ld32 (td_buffer_ptr tds) s2 = dr" "L dr = None" "L tds = None" "dr \<noteq> tds"
    "same_on (mem s) (mem s2) (spared env lo hi L ?qh ?B)" "bytes_at (mem s2) buf (length bs) = bs"
    by (rule control_completes [OF rdy irq udev g buf ans pid att])
  have lay: "usb_layout env lo hi L dev ?qh keep" using rdy by (simp add: usb_ready_def)
  have q: "ld32 (ud_qh1ms dev) s2 = ?qh" by (rule queue_head_kept(1) [OF rdy buf(1) r(9)])
  obtain s3 where d: "uhci_delete_td_control tds s2 = Some s3" "usb_ready env lo hi L dev keep s3" "inv s3"
    "same_on (mem s2) (mem s3) (owned L \<union> - {lo..<hi})"
    by (rule transfer_done [OF r(3) _ r(4,6,7,8,5)]) (use lay q in simp_all)
  have "heap_inv lo hi s L" using rdy by (simp add: usb_ready_def)
  from payload_owned [OF this] have BL: "?B \<subseteq> owned L \<union> - {lo..<hi}" using buf(1) unfolding buffer_apart_def by blast
  have "same_on (mem s) (mem s3) (spared env lo hi L ?qh ?B)"
    by (rule same_on_trans [OF r(9) same_on_mono [OF d(4)]]) (auto simp: spared_def)
  moreover have "bytes_at (mem s3) buf (length bs) = bs"
    using bytes_at_same [OF d(4) _ buf(2)] BL r(10) by (simp add: span_def)
  ultimately show ?thesis using r(1,2) d(1-3) by (intro exI [of _ s3]) simp
qed

end


context usb_interrupts begin

lemma address_completes:
  fixes s :: "'a uhci_state_scheme"
  assumes rdy: "usb_ready env lo hi L dev keep s" and irq: "inv s"
    and udev: "buffer_apart env lo hi L dev keep (span 24 udev)" "unat udev + 24 \<le> 4294967296"
      "span 24 udev \<inter> span 4 (qh_qelp (ld32 (ud_qh1ms dev) s)) = {}"
    and g: "allocs_granted env (uhci_create_td_control_out udev UHCI_DR_REQ_SET_ADDRESS (ucast addr) 0 0 0 s) s tds"
    and ans: "device_answers d udev (0, 5, ucast addr, 0, 0) [] s"
    and att: "usb_attached (v_hw env) d n (ld16 (ud_iobase dev) s + 2) (ld32 (ud_qh1ms dev) s) (io_log s)"
  shows "\<exists>s'. uhci_set_device_address env isr dev udev addr s = Some (True, s') \<and> ld8 (usb_addr udev) s' = addr \<and>
    usb_ready env lo hi L dev keep s' \<and> inv s' \<and>
    same_on (mem s) (mem s') (spared env lo hi L (ld32 (ud_qh1ms dev) s) {unat (usb_addr udev)})"
proof -
  let ?qh = "ld32 (ud_qh1ms dev) s"
  have hp: "heap_inv lo hi s L" and lay: "usb_layout env lo hi L dev ?qh keep" using rdy by (simp_all add: usb_ready_def)
  have uo: "span 24 udev \<subseteq> payload L \<union> - {lo..<hi}" using udev(1) by (simp add: buffer_apart_def)
  then have uo': "span 24 udev \<subseteq> owned L \<union> - {lo..<hi}" using payload_owned [OF hp] by blast
  have none: "buffer_apart env lo hi L dev keep {}" by (simp add: buffer_apart_def)
  have out: "uhci_create_td_control_out udev UHCI_DR_REQ_SET_ADDRESS (ucast addr) 0 0 0 s =
    uhci_create_td_control udev 0 5 (ucast addr) 0 0 UHCI_TD_PID_OUT 0x69 0 s"
    by (simp add: uhci_create_td_control_out_def Let_def uhci_macros)
  have s0: "span (length ([] :: u8 list)) 0 = {}" by (simp add: span_def)
  have c: "unat (0 :: u32) + length ([] :: u8 list) \<le> 4294967296" "{} \<inter> span 4 (qh_qelp ?qh) = {}"
    "(0 :: u16) \<noteq> 0 \<longrightarrow> UHCI_TD_PID_OUT = 0x69" "(0x69 :: u8) = (if (0 :: u16) = 0 then 0x69 else 0xe1)" by simp_all
  obtain ntd s1 s2 dr a x b f where r:
    "uhci_create_td_control udev 0 5 (ucast addr) 0 0 UHCI_TD_PID_OUT 0x69 0 s = Some (ntd, tds, s1)"
    "run_entry env isr dev tds ntd s1 = Some (True, s2)"
    "usb_ready env lo hi (L(dr \<mapsto> (a, x), tds \<mapsto> (b, f))) dev keep s2" "inv s2"
    "ld32 (td_buffer_ptr tds) s2 = dr" "L dr = None" "L tds = None" "dr \<noteq> tds"
    "same_on (mem s) (mem s2) (spared env lo hi L ?qh {})" "span_ok 20 tds" "td_span tds \<subseteq> {b..<f}"
    "{b..<f} \<inter> (owned L \<union> - {lo..<hi}) = {}"
    by (rule control_completes [where bs = "[]" and d = d, OF rdy irq uo' udev(2) g [unfolded out], unfolded s0, OF none c(1,2) ans c(3,4) att])
  let ?L = "L(dr \<mapsto> (a, x), tds \<mapsto> (b, f))" and ?s = "st8 (usb_addr udev) addr s2"
  have ua: "unat (usb_addr udev) = unat udev + 1" using udev(2) by (simp add: uhci_layout unat_add_u32)
  then have ub: "unat (usb_addr udev) \<in> span 24 udev" by (simp add: span_def)
  have q2: "ld32 (ud_qh1ms dev) s2 = ?qh" by (rule queue_head_kept(1) [OF rdy none r(9)])
  have w: "writes_in {unat (usb_addr udev)} s2 ?s" by (rule writes_in_st) simp
  have f2: "same_on (mem s2) (mem ?s) (- span 24 udev)"
    by (rule same_on_mono [OF writes_in_same [OF w]]) (use ub in blast)
  have hp2: "heap_inv lo hi s2 ?L" using r(3) by (simp add: usb_ready_def)
  have "payload L \<subseteq> payload ?L" by (rule live_mono(2)) (use r(6,7) in auto)
  then have hp3: "heap_inv lo hi ?s ?L" by (intro writes_keep [OF hp2 w]) (use uo ub in blast)
  have off: "(keep \<union> span 20 dev) \<inter> span 24 udev = {}" using udev(1) unfolding buffer_apart_def by blast
  have rdy3: "usb_ready env lo hi ?L dev keep ?s"
    by (rule usb_ready_frame [OF r(3) hp3 same_on_mono [OF f2]]) (use off udev(3) in \<open>auto simp: q2 st8_def\<close>)
  have i3: "inv ?s" by (rule frame [OF r(4) same_on_mono [OF f2]]) (use off in \<open>auto simp: st8_def\<close>)
  have q3: "ld32 (ud_qh1ms dev) ?s = ?qh"
  proof -
    have d: "unat dev + 20 \<le> 4294967296" using lay by (simp add: usb_layout_def)
    have "ld32 (ud_qh1ms dev) ?s = ld32 (ud_qh1ms dev) s2" by (rule load32_span [OF f2]) (use dev_fields [OF d] off in blast)+
    then show ?thesis using q2 by simp
  qed
  have bp: "ld32 (td_buffer_ptr tds) ?s = dr"
  proof -
    have "td_span tds \<inter> span 24 udev = {}" using r(11,12) uo' by blast
    then have "td_span tds \<subseteq> - span 24 udev" by blast
    from td_words_same [OF f2 this r(10)] r(5) show ?thesis by (simp add: td_words_def)
  qed
  obtain s3 where d: "uhci_delete_td_control tds ?s = Some s3" "usb_ready env lo hi L dev keep s3" "inv s3"
    "same_on (mem ?s) (mem s3) (owned L \<union> - {lo..<hi})"
    by (rule transfer_done [OF rdy3 _ i3 r(6-8) bp]) (use lay q3 in simp_all)
  have "ld8 (usb_addr udev) s3 = ld8 (usb_addr udev) ?s" by (rule load8_same [OF d(4)]) (use uo' ub in blast)
  moreover have "same_on (mem s) (mem s3) (spared env lo hi L ?qh {unat (usb_addr udev)})"
    by (rule same_on_trans [OF same_on_mono [OF r(9)] same_on_trans [OF same_on_mono [OF writes_in_same [OF w]] same_on_mono [OF d(4)]]])
      (auto simp: spared_def)
  ultimately show ?thesis
    using r(1,2) d(1-3) by (intro exI [of _ s3]) (simp add: uhci_set_device_address_def out)
qed

end

end
