(* ===== verification/UhciRun.thy ===== *)
theory UhciRun
  imports Stage2 UhciTransfer UhciTheorems
begin

text \<open>
  Control transfers of the program as \<open>Stage2\<close> wires it: the interrupts go through \<open>idt_common_isr\<close>
  to \<open>pit_timer_isr\<close> and \<open>uhci_isr\<close>, whose handlers are in the table that \<open>pit_init\<close> and
  \<open>pci_dev_init_cb\<close> fill.
\<close>


section \<open>The interrupts of the driver\<close>

text \<open>The timer's handler is the only one of interrupt 32, and the driver's the first of interrupt \<open>n\<close>.\<close>

definition wired :: "boot_env \<Rightarrow> u32 \<Rightarrow> u8 \<Rightarrow> u32 \<Rightarrow> 'a uhci_state_scheme \<Rightarrow> bool" where
  "wired b dev n h s \<longleftrightarrow> timer_inv (b_pit_isr b) (b_int_h b) s \<and> node_ok (b_int_h b) \<and>
     node_ok h \<and> unat n < max_isr_cnt \<and> int_handlers s ! unat n = h \<and>
     ld32 (h_handler h) s = v_uhci_isr (b_uhci b) \<and> ld32 (h_userdata h) s = dev \<and> b_pit_isr b \<noteq> v_uhci_isr (b_uhci b)"

definition handler_nodes :: "boot_env \<Rightarrow> u32 \<Rightarrow> nat set" where
  "handler_nodes b h = node (b_int_h b) \<union> node h"

lemma wired_frame:
  assumes w: "wired b dev n h s" and f: "same_on (mem s) (mem s') (handler_nodes b h)" and i: "int_handlers s' = int_handlers s"
  shows "wired b dev n h s'"
proof -
  note W = w [unfolded wired_def]
  have f1: "same_on (mem s) (mem s') (node (b_int_h b))" and f2: "same_on (mem s) (mem s') (node h)"
    by (rule same_on_mono [OF f], simp add: handler_nodes_def)+
  have "timer_inv (b_pit_isr b) (b_int_h b) (s\<lparr>mem := mem s'\<rparr>)" using W by (intro timer_inv_dma [OF _ f1]) simp_all
  then have "timer_inv (b_pit_isr b) (b_int_h b) s'" using i by (simp add: timer_inv_def)
  moreover have ok: "node_ok h" using W by simp
  have "load32 (mem s') (h_handler h) = load32 (mem s) (h_handler h)"
    by (rule load32_span [OF f2]) (use ok in \<open>auto simp: h_handler_def span_def span_ok_def\<close>)
  moreover have "unat (h_userdata h) = unat h + 4" using ok by (simp add: h_userdata_def unat_add_u32 span_ok_def)
  then have "load32 (mem s') (h_userdata h) = load32 (mem s) (h_userdata h)"
    by (intro load32_span [OF f2]) (use ok in \<open>auto simp: span_def span_ok_def\<close>)
  ultimately show ?thesis using W i by (simp add: wired_def)
qed

lemma wired_usb:
  assumes w: "wired b dev n h s"
    and r: "uhci_isr (v_hw (b_uhci b)) (te_dispatch (b_uhci b)) n dev s = Some (True, s')"
  shows "boot_isr b n s = Some s'"
proof -
  note W = w [unfolded wired_def]
  let ?call = "pit_dispatch (b_pit_isr b) (uhci_handlers b)"
  have nz: "\<not> (unat n \<ge> max_isr_cnt \<or> int_handlers s ! unat n = 0)" using W by (auto simp: span_ok_def)
  have "?call (ld32 (h_handler h) s) n (ld32 (h_userdata h) s) s = Some (True, s')"
    using W r by (auto simp: pit_dispatch_def uhci_handlers_def)
  then have "isr_chain ?call n h s = Some (True, s')" by (subst isr_chain.simps) simp
  then show ?thesis using W unfolding boot_isr_def idt_common_isr_def if_not_P [OF nz] by simp
qed

interpretation boot_irq: usb_interrupts "b_uhci b" "boot_isr b" dev n "wired b dev n h" "handler_nodes b h"
  for b dev n h
proof unfold_locales
  fix s s' :: "'a uhci_state_scheme"
  show "wired b dev n h s'" if "wired b dev n h s" "same_on (mem s) (mem s') (handler_nodes b h)" "int_handlers s' = int_handlers s"
    using wired_frame that by blast
  show "boot_isr b 32 s = Some (if timer_ms_left s = 0 then s else s\<lparr>timer_ms_left := timer_ms_left s - 1\<rparr>)"
    if "wired b dev n h s"
  proof -
    have "timer_inv (b_pit_isr b) (b_int_h b) s" using that by (simp add: wired_def)
    then show ?thesis unfolding boot_isr_def by (rule timer_tick)
  qed
  show "boot_isr b n s = Some s'" if "wired b dev n h s"
    "uhci_isr (v_hw (b_uhci b)) (te_dispatch (b_uhci b)) n dev s = Some (True, s')"
    using wired_usb that by blast
qed


text \<open>The request for the device descriptor, with the numbers of the USB document.\<close>

lemma get_descriptor:
  "uhci_create_td_control_in udev UHCI_DR_REQ_GET_DESCRIPTOR UHCI_DR_VAL_DESC_DEVICE 0 l buf s =
     uhci_create_td_control udev 0x80 6 0x100 0 l 0x69 0xe1 buf s"
  by (simp add: uhci_create_td_control_in_def Let_def uhci_macros push_bit_eq_mult)


section \<open>A machine to run on\<close>

text \<open>
  A function that tells its descriptor and takes an address, and hardware that is idle up to the first
  timer interrupt and then works through the queue it finds at the queue head 0x5200.
\<close>

definition demo_descriptor :: "nat \<Rightarrow> u8 list" where
  "demo_descriptor p = [0x12, 1, 0x10, 1, 0, 0, 0, of_nat p, 0x81, 7, 0x67, 0x55, 0, 1, 1, 2, 3, 1]"

definition demo_function :: "nat \<Rightarrow> usb_function" where
  "demo_function p = \<lparr>f_address = 0, f_low_speed = False, f_packet = p,
     f_answer = \<lambda>(t, r, v, i, l).
       if t = 0x80 \<and> r = 6 \<and> v = 0x100 \<and> i = 0 then Some (take (unat l) (demo_descriptor p))
       else if t = 0 \<and> r = 5 \<and> v < 0x80 \<and> l = 0 then Some [] else None\<rparr>"

definition usb_hw :: "usb_function \<Rightarrow> hw" where
  "usb_hw d = \<lparr>hw_inb = \<lambda>_ _. 0, hw_inw = \<lambda>_ _. 1, hw_inl = \<lambda>_ _. 0,
     hw_irq = \<lambda>l. if Halt 32 \<in> set l then 43 else 32,
     hw_dma = \<lambda>l m. if Halt 32 \<in> set l then usb_memory (usb_steps d 0x5200 8194 (Idle, False, m)) else m\<rparr>"

lemma usb_hw_attached: "usb_attached (usb_hw d) d 43 port 0x5200 []"
proof -
  let ?c = "\<lambda>j :: nat. if j \<le> 1 then 0 else 8194 :: nat"
  have "mono ?c" by (rule monoI) simp
  moreover have "hw_dma (usb_hw d) ([] @ replicate j (Halt 32)) (usb_memory (usb_steps d 0x5200 (?c j) (Idle, False, m))) =
      usb_memory (usb_steps d 0x5200 (?c (Suc j)) (Idle, False, m))" if "j \<le> 1" for j m
    using that by (cases j) (simp_all add: usb_hw_def usb_memory_def del: usb_steps.simps(2))
  ultimately show ?thesis
    unfolding usb_attached_def
    by (intro exI [of _ "1 :: nat"] exI [of _ Idle] conjI allI exI [of _ ?c]) (simp_all add: usb_hw_def)
qed

definition usb_boot :: "usb_function \<Rightarrow> boot_env" where
  "usb_boot d = demo_boot\<lparr>b_uhci := (b_uhci demo_boot)\<lparr>v_hw := usb_hw d\<rparr>\<rparr>"

definition usb_mem :: mem where
  "usb_mem = fold (\<lambda>(p, v) m. store32 m p v)
     [(0x3000, 0x500), (0x3100, 0x700), (0x3104, 0x5000), (0x5010, 0x5200), (0x5204, 1)] (mem usb_start)"

definition usb_idle :: uhci_state where
  "usb_idle = usb_start\<lparr>mem := usb_mem, int_handlers := (replicate 48 0)[32 := 0x3000, 43 := 0x3100]\<rparr>"

lemma usb_mem_values:
  "load32 usb_mem 0x3000 = 0x500" "load32 usb_mem 0x3008 = 0" "load32 usb_mem 0x3100 = 0x700" "load32 usb_mem 0x3104 = 0x5000"
  "load16 usb_mem 0x5000 = 0" "load8 usb_mem 0x5100 = 0" "load8 usb_mem 0x5101 = 0" "load32 usb_mem 0x5010 = 0x5200" "load32 usb_mem 0x5204 = 1" "load8 usb_mem 0x5109 = 0"
  by (simp_all add: usb_mem_def usb_start_def empty_heap_def init_memory_def Let_def load8_def load16_def
      load32_def st32_def store32_def)

lemma usb_idle_heap: "heap_ok 0x8000 0xC000 usb_idle [(0x8000, 0x4000)]"
proof -
  have w: "writes_in (- {0x8000..<0xC000}) s (st32 p v s)" if "unat p + 4 \<le> 0x8000" for p v and s :: uhci_state
    by (rule writes_in_mono [OF writes_in_st(3)]) (use that in auto)
  let ?s = "fold (\<lambda>(p, v). st32 p v) [(0x3000, 0x500), (0x3100, 0x700), (0x3104, 0x5000), (0x5010, 0x5200), (0x5204, 1)] usb_start"
  have "writes_in (- {0x8000..<0xC000}) usb_start ?s"
    by (simp, intro writes_in_trans [OF _ w] w) simp_all
  from heap_ok_writes [OF usb_start_ok this] have ok: "heap_ok 0x8000 0xC000 ?s [(0x8000, 0x4000)]" by simp
  have "mem usb_idle = mem ?s" "free_block_head usb_idle = free_block_head ?s" by (simp_all add: usb_idle_def usb_mem_def)
  then show ?thesis using ok by (simp add: heap_ok_def)
qed

lemma usb_idle_inv: "heap_inv 0x8000 0xC000 usb_idle Map.empty"
  using usb_idle_heap
  by (intro heap_inv_def [THEN iffD2] exI [of _ "[(0x8000, 0x4000)]"]) (auto simp: live_ok_def)

lemma usb_idle_ready: "usb_ready (b_uhci (usb_boot d)) 0x8000 0xC000 Map.empty 0x5000 (handler_nodes (usb_boot d) 0x3100) usb_idle"
proof -
  have "usb_layout (b_uhci (usb_boot d)) 0x8000 0xC000 Map.empty 0x5000 0x5200 (handler_nodes (usb_boot d) 0x3100)"
    by (auto simp: usb_layout_def usb_boot_def demo_boot_def buffer_ok_def chatter_def span_def handler_nodes_def uhci_layout payload_def owned_iff)
  then show ?thesis using usb_idle_inv usb_mem_values
    by (simp add: usb_ready_def usb_idle_def usb_start_def on_screen_def uhci_layout uhci_macros)
qed

lemma usb_idle_wired: "wired (usb_boot d) 0x5000 43 0x3100 usb_idle"
  using usb_mem_values
  by (simp add: wired_def timer_inv_def usb_idle_def usb_boot_def demo_boot_def span_ok_def h_handler_def h_userdata_def h_next_def)


lemma at_word: "unat p = unat q \<Longrightarrow> p = (q :: u32)"
  by (simp add: word_unat_eq_iff)

lemma usb_idle_granted:
  fixes l :: u16
  assumes n: "n = 2 \<or> n = 3 \<or> n = 5" and l: "2 + (unat l + 7) div 8 = n"
  shows "allocs_granted (b_uhci (usb_boot d)) (uhci_create_td_control 0x5100 t r v i l pid1 pid2 buf usb_idle) usb_idle 0x8020"
proof -
  have k: "max 8 (unat (ld8 (usb_max_packet_size 0x5100) usb_idle)) = 8"
    using usb_mem_values by (simp add: usb_idle_def uhci_layout)
  have u: "unat sizeof_device_request = 8" "unat (sizeof_td * of_nat n) = 32 * n" "unat sizeof_transfer_entry = 20"
    using n by (auto simp: sizeof_device_request_def sizeof_td_def sizeof_transfer_entry_def)
  note spec = fits_def start_at_def aligned_mem_start_def align_ptr_def granted_def carve_def slack_before_def slack_after_def
  have sp1: "alloc_spec (start_at 4) 8 [(0x8000, 0x4000)] =
     Some (\<lparr>g_ptr = 0x8008, g_start = 0x8000, g_end = 0x8010\<rparr>, [(0x8010, 0x3FF0)])" by (simp add: spec)
  obtain s1 where s1: "memalloc sizeof_device_request usb_idle = Some (0x8008, s1)" "heap_ok 0x8000 0xC000 s1 [(0x8010, 0x3FF0)]"
    using grants_at [OF usb_idle_heap _ _ u(1) sp1] at_word [of _ "0x8008"]
    by (auto simp: sizeof_device_request_def memalloc_def)
  let ?s2 = "fill_request 0x8008 t r v i l s1"
  have h2: "heap_ok 0x8000 0xC000 ?s2 [(0x8010, 0x3FF0)]"
    by (rule heap_ok_writes [OF s1(2) fill_request_writes]) (simp_all add: span_def)
  have sp2: "alloc_spec (start_at 16) (32 * n) [(0x8010, 0x3FF0)] =
     Some (\<lparr>g_ptr = 0x8020, g_start = 0x8018, g_end = 0x8020 + 32 * n\<rparr>, [(0x8010, 8), (0x8020 + 32 * n, 0x3FE0 - 32 * n)])"
    using n by (auto simp: spec)
  obtain s3 where s3: "memalloc_aligned (sizeof_td * of_nat n) 16 ?s2 = Some (0x8020, s3)"
    "heap_ok 0x8000 0xC000 s3 [(0x8010, 8), (0x8020 + 32 * n, 0x3FE0 - 32 * n)]"
    using grants_at [OF h2 _ _ u(2) sp2] at_word [of _ "0x8020"] n by (auto simp: sizeof_td_def)
  let ?s4 = "fill_tds 0x5100 pid1 pid2 8 n buf 0x8008 0x8020 s3"
  have "writes_in (td_array 0x8020 n) s3 ?s4"
    by (rule fill_tds_run) (use n in \<open>auto simp: dev_off_def td_array_def uhci_layout\<close>)
  then have h4: "heap_ok 0x8000 0xC000 ?s4 [(0x8010, 8), (0x8020 + 32 * n, 0x3FE0 - 32 * n)]"
    by (rule heap_ok_writes [OF s3(2)]) (auto simp: td_array_def)
  have "writes_in {0x2200} ?s4 (st8 0x2200 0 ?s4)" by (rule writes_in_st) auto
  then have h5: "heap_ok 0x8000 0xC000 (st8 0x2200 0 ?s4) [(0x8010, 8), (0x8020 + 32 * n, 0x3FE0 - 32 * n)]"
    by (rule heap_ok_writes [OF h4]) simp
  have "\<exists>bs. alloc_spec (start_at 4) 20 [(0x8010, 8), (0x8020 + 32 * n, 0x3FE0 - 32 * n)] =
     Some (\<lparr>g_ptr = 0x8028 + 32 * n, g_start = 0x8020 + 32 * n, g_end = 0x8020 + 32 * n + 28\<rparr>, bs)"
    using n by (auto simp: spec)
  then obtain bs where sp3: "alloc_spec (start_at 4) 20 [(0x8010, 8), (0x8020 + 32 * n, 0x3FE0 - 32 * n)] =
     Some (\<lparr>g_ptr = 0x8028 + 32 * n, g_start = 0x8020 + 32 * n, g_end = 0x8020 + 32 * n + 28\<rparr>, bs)" by blast
  obtain e s6 where "memalloc sizeof_transfer_entry (st8 0x2200 0 ?s4) = Some (e, s6)" "unat e = 0x8028 + 32 * n"
    using grants_at [OF h5 _ _ u(3) sp3] by (auto simp: sizeof_transfer_entry_def memalloc_def)
  moreover have "e \<noteq> 0" using calculation(2) by auto
  moreover have "uhci_create_td_control 0x5100 t r v i l pid1 pid2 buf usb_idle = Some (of_nat n, 0x8020, ?s4)"
  proof -
    have "2 + (unat l + 8 - 1) div 8 = n" using l by simp
    then show ?thesis unfolding create_td_eq k Let_def by (simp only: s1(1) s3(1) Option.bind.bind_lunit split)
  qed
  ultimately show ?thesis using s1(1)
    by (auto simp: allocs_granted_def usb_boot_def demo_boot_def)
qed

lemma usb_idle_attached:
  "usb_attached (v_hw (b_uhci (usb_boot d))) d 43 (ld16 (ud_iobase 0x5000) usb_idle + 2) (ld32 (ud_qh1ms 0x5000) usb_idle) (io_log usb_idle)"
proof -
  have "io_log usb_idle = []" "ld32 (ud_qh1ms 0x5000) usb_idle = 0x5200"
    using usb_mem_values by (simp_all add: usb_idle_def usb_start_def uhci_layout)
  then show ?thesis using usb_hw_attached by (simp add: usb_boot_def)
qed

lemma usb_idle_answers:
  assumes "f_answer (demo_function p) (t, r, v, i, l) = Some bs" and "length bs = unat l" and "bit t 7 \<or> l = 0"
    and "p = 8 \<or> unat l \<le> 8 \<and> 8 \<le> p"
  shows "device_answers (demo_function p) 0x5100 (t, r, v, i, l) bs usb_idle"
proof -
  have "packet_size 0x5100 usb_idle = 8" using usb_mem_values by (simp add: packet_size_def usb_idle_def uhci_layout)
  moreover have "device_known (demo_function p) 0x5100 usb_idle"
    using usb_mem_values by (simp add: device_known_def demo_function_def usb_idle_def uhci_layout)
  moreover have "f_packet (demo_function p) = p" by (simp add: demo_function_def)
  ultimately show ?thesis using assms by (auto simp: device_answers_def transfer_suits_def)
qed

lemma usb_idle_fits:
  assumes "B \<subseteq> span 24 0x5100"
  shows "buffer_apart (b_uhci (usb_boot d)) 0x8000 0xC000 L 0x5000 (handler_nodes (usb_boot d) 0x3100) B"
    and "B \<inter> span 4 (qh_qelp (ld32 (ud_qh1ms 0x5000) usb_idle)) = {}"
    and "span 24 0x5100 \<subseteq> owned L \<union> - {0x8000..<0xC000}" and "unat (0x5100 :: u32) + 24 \<le> 4294967296"
proof -
  have a: "x < 0x5118" "0x5100 \<le> x" if "x \<in> B" for x using assms that by (auto simp: span_def)
  show "buffer_apart (b_uhci (usb_boot d)) 0x8000 0xC000 L 0x5000 (handler_nodes (usb_boot d) 0x3100) B"
    using a by (force simp: buffer_apart_def usb_boot_def demo_boot_def chatter_def span_def handler_nodes_def)
  have "ld32 (ud_qh1ms 0x5000) usb_idle = 0x5200" using usb_mem_values by (simp add: usb_idle_def uhci_layout)
  then show "B \<inter> span 4 (qh_qelp (ld32 (ud_qh1ms 0x5000) usb_idle)) = {}"
    using a by (force simp: span_def uhci_layout)
qed (auto simp: span_def)


section \<open>Transfers complete\<close>

text \<open>C8: A request for the device descriptor completes. The hardware is assumed to be a controller with a
  USB function on its bus (\<open>usb_attached\<close>), which executes the descriptors it finds in memory one by one and
  halts at the first one the function does not take part in; the function is the one the structure
  \<open>udev\<close> describes, and answers the request for 18 bytes of its device descriptor (0x80, 6, 0x100, 0, 18)
  with \<open>bytes\<close>, in packets of the size \<open>udev\<close> gives, at most 64 (\<open>device_answers\<close>); no allocation is refused; and any
  number of timer interrupts may arrive before the controller's. Then \<open>uhci_read_dev_desc\<close> returns true and
  the buffer holds \<open>bytes\<close>. The entry has left the queue; the heap, the queue of the controller and the
  handler chains are as before, so the next transfer can follow; and no other byte that is allocated
  or outside of the heap has changed, except for the text that was printed, the flag and the queue
  head.\<close>

theorem read_dev_desc_completes:
  fixes s :: "'a uhci_state_scheme"
  assumes "usb_ready (b_uhci b) lo hi L dev (handler_nodes b h) s" and "wired b dev n h s"
    and "span 24 udev \<subseteq> owned L \<union> - {lo..<hi}" and "unat udev + 24 \<le> 4294967296"
    and "allocs_granted (b_uhci b) (uhci_create_td_control_in udev UHCI_DR_REQ_GET_DESCRIPTOR UHCI_DR_VAL_DESC_DEVICE 0 18 desc s) s tds"
    and "buffer_apart (b_uhci b) lo hi L dev (handler_nodes b h) (span 18 desc)" and "unat desc + 18 \<le> 4294967296"
    and "span 18 desc \<inter> span 4 (qh_qelp (ld32 (ud_qh1ms dev) s)) = {}"
    and "device_answers d udev (0x80, 6, 0x100, 0, 18) bytes s"
    and "usb_attached (v_hw (b_uhci b)) d n (ld16 (ud_iobase dev) s + 2) (ld32 (ud_qh1ms dev) s) (io_log s)"
  shows "\<exists>s'. uhci_read_dev_desc (b_uhci b) (boot_isr b) dev udev desc s = Some (True, s') \<and>
    bytes_at (mem s') desc 18 = bytes \<and>
    usb_ready (b_uhci b) lo hi L dev (handler_nodes b h) s' \<and> wired b dev n h s' \<and>
    same_on (mem s) (mem s') (spared (b_uhci b) lo hi L (ld32 (ud_qh1ms dev) s) (span 18 desc))"
proof -
  have len: "length bytes = 18" using assms(9) by (simp add: device_answers_def transfer_suits_def)
  have "\<exists>s'. uhci_create_td_control_in udev UHCI_DR_REQ_GET_DESCRIPTOR UHCI_DR_VAL_DESC_DEVICE 0 18 desc s \<bind> (\<lambda>(ntd, td, s).
      run_entry (b_uhci b) (boot_isr b) dev td ntd s \<bind> (\<lambda>(result, s). uhci_delete_td_control td s \<bind> (\<lambda>s. Some (result, s)))) = Some (True, s') \<and>
    usb_ready (b_uhci b) lo hi L dev (handler_nodes b h) s' \<and> wired b dev n h s' \<and> bytes_at (mem s') desc 18 = bytes \<and>
    same_on (mem s) (mem s') (spared (b_uhci b) lo hi L (ld32 (ud_qh1ms dev) s) (span 18 desc))"
    using boot_irq.read_completes [where bs = bytes and buf = desc, unfolded len, OF assms(1-4) assms(5) [unfolded get_descriptor] assms(6-9) _ _ assms(10)]
    unfolding get_descriptor by simp
  then show ?thesis unfolding uhci_read_dev_desc_def by blast
qed

theorem read_dev_desc_completes_witness:
  "\<exists>s'. uhci_read_dev_desc (b_uhci (usb_boot (demo_function 8))) (boot_isr (usb_boot (demo_function 8))) 0x5000 0x5100 0x5102 usb_idle = Some (True, s') \<and>
     ld8 0x5102 s' = 0x12 \<and> ld8 0x5113 s' = 1 \<and> bytes_at (mem s') 0x5102 18 = demo_descriptor 8 \<and>
     pending_queue s' = 0 \<and> heap_inv 0x8000 0xC000 s' Map.empty"
proof -
  let ?d = "demo_function 8"
  let ?b = "usb_boot ?d"
  have B: "span 18 0x5102 \<subseteq> span 24 0x5100" by (auto simp: span_def)
  have g: "allocs_granted (b_uhci ?b) (uhci_create_td_control_in 0x5100 UHCI_DR_REQ_GET_DESCRIPTOR UHCI_DR_VAL_DESC_DEVICE 0 18 0x5102 usb_idle)
      usb_idle 0x8020"
    unfolding uhci_create_td_control_in_def Let_def by (rule usb_idle_granted [of 5]) simp_all
  have top: "unat (0x5102 :: u32) + 18 \<le> 4294967296" by simp
  have a: "device_answers ?d 0x5100 (0x80, 6, 0x100, 0, 18) (demo_descriptor 8) usb_idle"
    by (rule usb_idle_answers) (simp_all add: demo_function_def demo_descriptor_def bit_iff_odd_drop_bit)
  obtain s' where s': "uhci_read_dev_desc (b_uhci ?b) (boot_isr ?b) 0x5000 0x5100 0x5102 usb_idle = Some (True, s')"
    "bytes_at (mem s') 0x5102 18 = demo_descriptor 8" "usb_ready (b_uhci ?b) 0x8000 0xC000 Map.empty 0x5000 (handler_nodes ?b 0x3100) s'"
    using read_dev_desc_completes [OF usb_idle_ready usb_idle_wired usb_idle_fits(3,4) [OF B] g usb_idle_fits(1) [OF B] top usb_idle_fits(2) [OF B] a
        usb_idle_attached] by blast
  have "mem s' (0x5102 + of_nat i) = demo_descriptor 8 ! i" if "i < 18" for i
    using that by (simp flip: s'(2))
  from this [of 0] this [of 17] have "mem s' 0x5102 = 0x12" "mem s' 0x5113 = 1" by (simp_all add: demo_descriptor_def)
  with s' show ?thesis by (intro exI [of _ s']) (simp add: usb_ready_def load8_def)
qed

text \<open>C16: The first request for 8 bytes of the device descriptor completes under the same assumptions. When the
  buffer is the one in the structure of the device and the function tells the size of its packets in
  byte 7, the structure then has that size: it is the one the descriptors of the next transfer
  are made for (\<open>packet_size\<close>), so that the structure describes the function again. Sizes above 64 do
  not fit into the descriptors; \<open>device_answers\<close> leaves them out of the transfers that follow.\<close>

theorem read_maxpkg_completes:
  fixes s :: "'a uhci_state_scheme"
  assumes "usb_ready (b_uhci b) lo hi L dev (handler_nodes b h) s" and "wired b dev n h s"
    and "buffer_apart (b_uhci b) lo hi L dev (handler_nodes b h) (span 24 udev)" and "unat udev + 24 \<le> 4294967296"
    and "span 24 udev \<inter> span 4 (qh_qelp (ld32 (ud_qh1ms dev) s)) = {}"
    and "allocs_granted (b_uhci b) (uhci_create_td_control_in udev UHCI_DR_REQ_GET_DESCRIPTOR UHCI_DR_VAL_DESC_DEVICE 0 8 (usb_dev_desc udev) s) s tds"
    and "device_answers d udev (0x80, 6, 0x100, 0, 8) bytes s" and "unat (bytes ! 7) = f_packet d"
    and "usb_attached (v_hw (b_uhci b)) d n (ld16 (ud_iobase dev) s + 2) (ld32 (ud_qh1ms dev) s) (io_log s)"
  shows "\<exists>s'. uhci_read_dev_desc_maxpkg (b_uhci b) (boot_isr b) dev udev (usb_dev_desc udev) s = Some (True, s') \<and>
    bytes_at (mem s') (usb_dev_desc udev) 8 = bytes \<and> packet_size udev s' = f_packet d \<and> device_known d udev s' \<and>
    usb_ready (b_uhci b) lo hi L dev (handler_nodes b h) s' \<and> wired b dev n h s' \<and>
    same_on (mem s) (mem s') (spared (b_uhci b) lo hi L (ld32 (ud_qh1ms dev) s) (span 8 (usb_dev_desc udev)))"
proof -
  let ?desc = "usb_dev_desc udev" and ?spared = "spared (b_uhci b) lo hi L (ld32 (ud_qh1ms dev) s) (span 8 (usb_dev_desc udev))"
  have len: "length bytes = 8" and fp: "8 \<le> f_packet d" using assms(7) by (auto simp: device_answers_def transfer_suits_def packet_size_def)
  have u: "unat ?desc = unat udev + 2" "unat (usb_addr udev) = unat udev + 1" "usb_low_speed udev = udev"
    "usb_max_packet_size udev = ?desc + of_nat 7"
    using assms(4) by (simp_all add: uhci_layout unat_add_u32)
  have sub: "span 8 ?desc \<subseteq> span 24 udev" by (auto simp: span_def u)
  have buf: "buffer_apart (b_uhci b) lo hi L dev (handler_nodes b h) (span 8 ?desc)" "unat ?desc + 8 \<le> 4294967296"
    "span 8 ?desc \<inter> span 4 (qh_qelp (ld32 (ud_qh1ms dev) s)) = {}"
    using assms(3-5) sub u(1) unfolding buffer_apart_def by (blast, simp, blast)
  have "heap_inv lo hi s L" using assms(1) by (simp add: usb_ready_def)
  then have own: "span 24 udev \<subseteq> owned L \<union> - {lo..<hi}"
    using assms(3) payload_owned [of lo hi s L] unfolding buffer_apart_def by blast
  have "\<exists>s'. uhci_create_td_control_in udev UHCI_DR_REQ_GET_DESCRIPTOR UHCI_DR_VAL_DESC_DEVICE 0 8 ?desc s \<bind> (\<lambda>(ntd, td, s).
      run_entry (b_uhci b) (boot_isr b) dev td ntd s \<bind> (\<lambda>(result, s). uhci_delete_td_control td s \<bind> (\<lambda>s. Some (result, s)))) = Some (True, s') \<and>
    usb_ready (b_uhci b) lo hi L dev (handler_nodes b h) s' \<and> wired b dev n h s' \<and> bytes_at (mem s') ?desc 8 = bytes \<and>
    same_on (mem s) (mem s') ?spared"
    using boot_irq.read_completes [where bs = bytes and buf = "?desc", unfolded len, OF assms(1,2) own assms(4) assms(6) [unfolded get_descriptor] buf assms(7) _ _ assms(9)]
    unfolding get_descriptor by simp
  then obtain s' where s': "uhci_read_dev_desc_maxpkg (b_uhci b) (boot_isr b) dev udev ?desc s = Some (True, s')"
    "usb_ready (b_uhci b) lo hi L dev (handler_nodes b h) s'" "wired b dev n h s'" "bytes_at (mem s') ?desc 8 = bytes" "same_on (mem s) (mem s') ?spared"
    unfolding uhci_read_dev_desc_maxpkg_def if_cancel by blast
  have "bytes_at (mem s') ?desc 8 ! 7 = mem s' (usb_max_packet_size udev)" unfolding u(4) by (rule bytes_at_nth) simp
  then have "packet_size udev s' = f_packet d" using s'(4) assms(8) fp by (simp add: packet_size_def load8_def)
  moreover have "device_known d udev s'"
  proof -
    have "{unat udev, unat (usb_addr udev)} \<subseteq> span 24 udev - span 8 ?desc" by (auto simp: span_def u)
    then have "{unat udev, unat (usb_addr udev)} \<subseteq> ?spared"
      using own assms(3,5) unfolding spared_def buffer_apart_def by blast
    then have "ld8 udev s' = ld8 udev s" "ld8 (usb_addr udev) s' = ld8 (usb_addr udev) s"
      using load8_same [OF s'(5)] by simp_all
    then show ?thesis using assms(7) by (simp add: device_answers_def device_known_def u(3))
  qed
  ultimately show ?thesis using s' by blast
qed

theorem read_maxpkg_completes_witness:
  "\<exists>s'. uhci_read_dev_desc_maxpkg (b_uhci (usb_boot (demo_function 64))) (boot_isr (usb_boot (demo_function 64)))
      0x5000 0x5100 0x5102 usb_idle = Some (True, s') \<and> packet_size 0x5100 usb_idle = 8 \<and> packet_size 0x5100 s' = 64"
proof -
  let ?d = "demo_function 64"
  let ?b = "usb_boot ?d"
  have g: "allocs_granted (b_uhci ?b) (uhci_create_td_control_in 0x5100 UHCI_DR_REQ_GET_DESCRIPTOR UHCI_DR_VAL_DESC_DEVICE 0 8 (usb_dev_desc 0x5100) usb_idle)
      usb_idle 0x8020"
    unfolding uhci_create_td_control_in_def Let_def by (rule usb_idle_granted [of 3]) simp_all
  have a: "device_answers ?d 0x5100 (0x80, 6, 0x100, 0, 8) (take 8 (demo_descriptor 64)) usb_idle"
    by (rule usb_idle_answers) (simp_all add: demo_function_def demo_descriptor_def bit_iff_odd_drop_bit)
  have f: "unat (take 8 (demo_descriptor 64) ! 7) = f_packet ?d" by (simp add: demo_descriptor_def demo_function_def)
  obtain s' where s': "uhci_read_dev_desc_maxpkg (b_uhci ?b) (boot_isr ?b) 0x5000 0x5100 (usb_dev_desc 0x5100) usb_idle = Some (True, s')"
    "packet_size 0x5100 s' = f_packet ?d"
    using read_maxpkg_completes [OF usb_idle_ready usb_idle_wired usb_idle_fits(1,4) [OF subset_refl] usb_idle_fits(2) [OF subset_refl] g a f
        usb_idle_attached] by blast
  have "packet_size 0x5100 usb_idle = 8" using usb_mem_values by (simp add: packet_size_def usb_idle_def uhci_layout)
  with s' show ?thesis by (intro exI [of _ s']) (simp add: uhci_layout demo_function_def)
qed

text \<open>C11: Setting the address of a device completes: when the function confirms the request (0, 5, address, 0, 0)
  and the other assumptions are as before, \<open>uhci_set_device_address\<close> returns true, with the new address
  in the structure of the device, and the driver ready for the next transfer.\<close>

theorem set_device_address_completes:
  fixes s :: "'a uhci_state_scheme"
  assumes "usb_ready (b_uhci b) lo hi L dev (handler_nodes b h) s" and "wired b dev n h s"
    and "buffer_apart (b_uhci b) lo hi L dev (handler_nodes b h) (span 24 udev)" and "unat udev + 24 \<le> 4294967296"
    and "span 24 udev \<inter> span 4 (qh_qelp (ld32 (ud_qh1ms dev) s)) = {}"
    and "allocs_granted (b_uhci b) (uhci_create_td_control_out udev UHCI_DR_REQ_SET_ADDRESS (ucast addr) 0 0 0 s) s tds"
    and "device_answers d udev (0, 5, ucast addr, 0, 0) [] s"
    and "usb_attached (v_hw (b_uhci b)) d n (ld16 (ud_iobase dev) s + 2) (ld32 (ud_qh1ms dev) s) (io_log s)"
  shows "\<exists>s'. uhci_set_device_address (b_uhci b) (boot_isr b) dev udev addr s = Some (True, s') \<and>
    ld8 (usb_addr udev) s' = addr \<and> usb_ready (b_uhci b) lo hi L dev (handler_nodes b h) s' \<and> wired b dev n h s' \<and>
    same_on (mem s) (mem s') (spared (b_uhci b) lo hi L (ld32 (ud_qh1ms dev) s) {unat (usb_addr udev)})"
  by (rule boot_irq.address_completes [OF assms])

theorem set_device_address_completes_witness:
  "\<exists>s'. uhci_set_device_address (b_uhci (usb_boot (demo_function 8))) (boot_isr (usb_boot (demo_function 8))) 0x5000 0x5100 7 usb_idle = Some (True, s') \<and>
     ld8 0x5101 s' = 7 \<and> pending_queue s' = 0 \<and> heap_inv 0x8000 0xC000 s' Map.empty"
proof -
  let ?d = "demo_function 8"
  let ?b = "usb_boot ?d"
  have g: "allocs_granted (b_uhci ?b) (uhci_create_td_control_out 0x5100 UHCI_DR_REQ_SET_ADDRESS (ucast (7 :: u8)) 0 0 0 usb_idle) usb_idle 0x8020"
    unfolding uhci_create_td_control_out_def Let_def by (rule usb_idle_granted [of 2]) simp_all
  have a: "device_answers ?d 0x5100 (0, 5, ucast (7 :: u8), 0, 0) [] usb_idle"
    by (rule usb_idle_answers) (simp_all add: demo_function_def)
  obtain s' where "uhci_set_device_address (b_uhci ?b) (boot_isr ?b) 0x5000 0x5100 7 usb_idle = Some (True, s')"
    "ld8 (usb_addr 0x5100) s' = 7" "usb_ready (b_uhci ?b) 0x8000 0xC000 Map.empty 0x5000 (handler_nodes ?b 0x3100) s'"
    using set_device_address_completes [OF usb_idle_ready usb_idle_wired usb_idle_fits(1,4) [OF subset_refl] usb_idle_fits(2) [OF subset_refl] g a
        usb_idle_attached] by blast
  then show ?thesis by (intro exI [of _ s']) (simp add: usb_ready_def uhci_layout)
qed

end
