(* ===== verification/UhciReset.thy ===== *)
theory UhciReset
  imports UhciEntry
begin

text \<open>
  The bounded waits of the UHCI driver: the reset of the controller and the enabling of a port, each
  a loop that sleeps and polls a register, and what the driver prints and gives back when the
  controller does not answer.
\<close>


section \<open>Printing a PCI device\<close>

text \<open>\<open>prints W s s'\<close>: printing has changed at most the screen, the cursor, the log and the buffer \<open>W\<close>.\<close>

definition prints :: "nat set \<Rightarrow> 'a display_state_scheme \<Rightarrow> 'a display_state_scheme \<Rightarrow> bool" where
  "prints W s s' \<longleftrightarrow> on_screen s' \<and> same_on (mem s) (mem s') (- (text_page \<union> W)) \<and>
     (\<exists>m l r c. s' = s\<lparr>mem := m, io_log := io_log s @ l, curs_row := r, curs_col := c\<rparr>)"

lemma prints_mono: "prints W s s' \<Longrightarrow> W \<subseteq> W' \<Longrightarrow> prints W' s s'"
  unfolding prints_def by (blast intro: same_on_mono)

lemma prints_refl: "on_screen s \<Longrightarrow> prints W s s"
  unfolding prints_def
  by (intro conjI exI [of _ "mem s"] exI [of _ "[]"] exI [of _ "curs_row s"] exI [of _ "curs_col s"]) auto

lemma prints_trans:
  assumes "prints W s s'" and "prints W s' s''"
  shows "prints W s s''"
proof -
  from assms obtain m l r c m' l' r' c' where
    "s' = s\<lparr>mem := m, io_log := io_log s @ l, curs_row := r, curs_col := c\<rparr>"
    "s'' = s'\<lparr>mem := m', io_log := io_log s' @ l', curs_row := r', curs_col := c'\<rparr>"
    unfolding prints_def by blast
  then have "s'' = s\<lparr>mem := m', io_log := io_log s @ l @ l', curs_row := r', curs_col := c'\<rparr>" by simp
  then show ?thesis using assms same_on_trans unfolding prints_def by blast
qed

lemma prints_text: "prints W s0 s \<Longrightarrow> prints W s0 (print_text t s)"
proof (rule prints_trans, assumption)
  assume "prints W s0 s"
  then have "on_screen s" by (simp add: prints_def)
  note p = print_chars_safe [OF this, of t]
  from p(2) obtain m l r c where "same_on (mem s) (mem (print_text t s)) (- text_page)"
    "print_text t s = s\<lparr>mem := m, io_log := l, curs_row := r, curs_col := c\<rparr>"
    unfolding display_only_def by blast
  moreover from this(2) p(3) obtain l' where "l = io_log s @ l'" by auto
  ultimately show "prints W s (print_text t s)" using p(1) unfolding prints_def by (auto intro: same_on_mono)
qed

text \<open>A local buffer of \<open>n\<close> bytes, apart from the screen.\<close>

definition local_buffer :: "nat \<Rightarrow> u32 \<Rightarrow> bool" where
  "local_buffer n buf \<longleftrightarrow> unat buf + n \<le> 0xB8000 \<or> 0xB8000 + 8000 \<le> unat buf \<and> unat buf + n \<le> 4294967296"

lemma prints_number:
  assumes p: "prints (span n buf) s0 s" and buf: "local_buffer n buf" and val: "0 \<le> val" "val < base ^ k" "k < n" "0 < k" "val \<le> 2 ^ 31"
    and base: "2 \<le> base" "base \<le> 36"
    and rest: "\<And>s1. prints (span n buf) s0 s1 \<Longrightarrow> \<exists>s'. g s1 = Some s' \<and> prints (span n buf) s0 s'"
  shows "\<exists>s'. (print_number buf val base s \<bind> g) = Some s' \<and> prints (span n buf) s0 s'"
proof -
  let ?t = "itoa_text val base"
  let ?s = "s\<lparr>mem := written (mem s) buf (?t @ [0])\<rparr>"
  have "nat val < nat base ^ k" using val(1,2) base(1) by (simp add: nat_power_eq [symmetric] nat_less_eq_zless)
  then have len: "length ?t \<le> k"
    using length_digits [of "nat base" "nat val" k] val(1,4) base(1) by (simp add: itoa_text_def)
  have room: "unat buf + length ?t < 4294967296" "off_screen buf (length ?t)"
    using buf len val(3) by (auto simp: local_buffer_def intro!: off_screenI)
  have on: "on_screen s" using p by (simp add: prints_def)
  have abs: "\<bar>val\<bar> \<le> 2 ^ 31" using val(1,5) by simp
  note run = print_number_run [OF base abs on room]
  have "same_on (mem s) (mem ?s) (- (text_page \<union> span n buf))"
    using written_same [of buf "?t @ [0]" "mem s"] len val(3) room(1) by (auto simp: span_def intro: same_on_mono)
  moreover have "on_screen ?s" using on by (simp add: on_screen_def)
  ultimately have "prints (span n buf) s ?s"
    unfolding prints_def
    by (intro conjI exI [of _ "mem ?s"] exI [of _ "[]"] exI [of _ "curs_row s"] exI [of _ "curs_col s"]) simp_all
  from rest [OF prints_text [OF prints_trans [OF p this]]] show ?thesis using run by simp
qed

lemma print_pci_dev_prints:
  assumes "on_screen s" and "local_buffer 8 buf"
  shows "\<exists>s'. print_pci_dev buf dev s = Some s' \<and> prints (span 8 buf) s s'"
proof -
  have b: "\<exists>s'. (print_number buf (uint (x :: u8)) base s1 \<bind> g) = Some s' \<and> prints (span 8 buf) s s'"
    if "prints (span 8 buf) s s1" "base = 10 \<or> base = 16"
      "\<And>s1. prints (span 8 buf) s s1 \<Longrightarrow> \<exists>s'. g s1 = Some s' \<and> prints (span 8 buf) s s'" for x base s1 g
    by (rule prints_number [OF that(1) assms(2), of _ _ 3]) (use uint_bounded [of x] that(2,3) in auto)
  have w: "\<exists>s'. (print_number buf (uint (x :: u16)) 16 s1 \<bind> g) = Some s' \<and> prints (span 8 buf) s s'"
    if "prints (span 8 buf) s s1"
      "\<And>s1. prints (span 8 buf) s s1 \<Longrightarrow> \<exists>s'. g s1 = Some s' \<and> prints (span 8 buf) s s'" for x s1 g
    by (rule prints_number [OF that(1) assms(2), of _ _ 4]) (use uint_bounded [of x] that(2) in auto)
  have e: "\<exists>s'. print_number buf (uint (x :: u8)) 16 s1 = Some s' \<and> prints (span 8 buf) s s'"
    if "prints (span 8 buf) s s1" for x s1
    using b [OF that, of 16 Some x] by simp
  show ?thesis
    unfolding print_pci_dev_def Let_def
    by (rule b prints_refl prints_text w e assms(1) disjI1 disjI2 refl | assumption)+
qed


section \<open>Polling a register\<close>

text \<open>What the driver keeps through a wait: the timer is hooked, and \<open>iobase\<close> is where it was.\<close>

definition waits :: "u32 \<Rightarrow> u32 \<Rightarrow> nat set \<Rightarrow> u32 \<Rightarrow> u16 \<Rightarrow> 'a uhci_state_scheme \<Rightarrow> bool" where
  "waits pit_isr int_h S dev io s \<longleftrightarrow> timer_inv pit_isr int_h s \<and> ld16 (ud_iobase dev) s = io \<and>
     span 2 dev \<subseteq> S \<and> unat dev + 2 \<le> 4294967296"

lemma waits_event: "waits pit_isr int_h S dev io (log_event e s) \<longleftrightarrow> waits pit_isr int_h S dev io s"
  by (simp add: waits_def timer_inv_def log_event_def)

text \<open>\<open>naps s s'\<close>: time has passed; memory in \<open>S\<close> is as it was.\<close>

definition naps :: "nat set \<Rightarrow> 'a uhci_state_scheme \<Rightarrow> 'a uhci_state_scheme \<Rightarrow> bool" where
  "naps S s s' \<longleftrightarrow> ticked s s' \<and> same_on (mem s) (mem s') S"

lemma naps_trans: "naps S s s' \<Longrightarrow> naps S s' s'' \<Longrightarrow> naps S s s''"
  unfolding naps_def by (blast intro: ticked_trans same_on_trans)

lemma naps_event: "naps S s (log_event e s)"
  by (simp add: naps_def ticked_event)

lemma naps_refl: "naps S s s"
  by (simp add: naps_def ticked_refl)

lemma sleep_waits:
  assumes "timer_keeps hw int_h S (io_log s) (unat ms)" and w: "waits pit_isr int_h S dev io s"
  obtains s' where "sleep hw (idt_common_isr itoa_fixed (pit_dispatch pit_isr other)) ms s = Some s'"
    and "io_log s' = io_log s @ replicate (unat ms) (Halt 32)" and "waits pit_isr int_h S dev io s'" and "naps S s s'"
proof -
  have t: "timer_inv pit_isr int_h s" and d: "span 2 dev \<subseteq> S" "unat dev + 2 \<le> 4294967296" "ld16 (ud_iobase dev) s = io"
    using w by (simp_all add: waits_def)
  show thesis
  proof (rule sleep_keeps [OF assms(1) t])
    fix s' assume r: "sleep hw (idt_common_isr itoa_fixed (pit_dispatch pit_isr other)) ms s = Some s'"
      "io_log s' = io_log s @ replicate (unat ms) (Halt 32)" "timer_inv pit_isr int_h s'" "ticked s s'"
      "same_on (mem s) (mem s') S"
    have "ld16 (ud_iobase dev) s' = ld16 (ud_iobase dev) s"
      by (rule load16_same [OF r(5)]) (use d in \<open>simp_all add: ud_iobase_def span_def\<close>)
    then show thesis using that r d by (simp add: waits_def naps_def)
  qed
qed

text \<open>The status reads of the two loops, with the sleep after or before each of them.\<close>

definition reset_polls :: "u16 \<Rightarrow> u16 list \<Rightarrow> io_event list" where
  "reset_polls port vs = concat (map (\<lambda>v. InW port v # replicate 10 (Halt 32)) vs)"

definition enable_polls :: "u16 \<Rightarrow> u16 list \<Rightarrow> io_event list" where
  "enable_polls port vs = concat (map (\<lambda>v. replicate 10 (Halt 32) @ [InW port v]) vs)"

lemma reset_wait_run:
  assumes t: "timer_keeps hw int_h S (io_log s) (11 * unat timeout)" and w: "waits pit_isr int_h S dev io s"
  shows "\<exists>tries s' vs last. reset_wait hw (idt_common_isr itoa_fixed (pit_dispatch pit_isr other)) dev timeout s = Some (tries, s') \<and>
    unat tries + length vs = unat timeout \<and> (\<forall>v \<in> set vs. v AND UHCI_USBCMD_HC_RESET \<noteq> 0 \<and> (\<exists>l. v = hw_inw hw l (io + UHCI_USBCMD))) \<and>
    io_log s' = io_log s @ reset_polls (io + UHCI_USBCMD) vs @ last \<and>
    (if tries = 0 then last = [] else \<exists>l. hw_inw hw l (io + UHCI_USBCMD) AND UHCI_USBCMD_HC_RESET = 0 \<and>
      last = [InW (io + UHCI_USBCMD) (hw_inw hw l (io + UHCI_USBCMD))]) \<and>
    waits pit_isr int_h S dev io s' \<and> naps S s s'"
  using t w
proof (induction "unat timeout" arbitrary: timeout s)
  case 0
  then have "timeout = 0" by (simp add: unat_eq_zero)
  with 0 show ?case
    by (intro exI [of _ 0] exI [of _ s] exI [of _ "[]"]) (simp add: reset_wait.simps reset_polls_def naps_refl)
next
  case (Suc k)
  let ?p = "io + UHCI_USBCMD" and ?isr = "idt_common_isr itoa_fixed (pit_dispatch pit_isr other)"
  let ?v = "hw_inw hw (io_log s) ?p"
  let ?s = "log_event (InW ?p ?v) s"
  have pos: "timeout > 0" using Suc.hyps(2) by (cases "timeout = 0") (auto simp: word_neq_0_conv)
  have wt: "waits pit_isr int_h S dev io ?s" using Suc.prems(2) by (simp add: waits_event)
  have io: "ld16 (ud_iobase dev) s = io" using Suc.prems(2) by (simp add: waits_def)
  note keep = Suc.prems(1) [folded Suc.hyps(2)]
  have t1: "timer_keeps hw int_h S (io_log ?s) (unat (10 :: u32))"
    using timer_keeps_later [OF keep, of "[InW ?p ?v]"] by (simp add: log_event_def)
  have unfold: "reset_wait hw ?isr dev timeout s =
      (if ?v AND UHCI_USBCMD_HC_RESET \<noteq> 0 then sleep hw ?isr 10 ?s \<bind> reset_wait hw ?isr dev (timeout - 1) else Some (timeout, ?s))"
    using pos by (subst reset_wait.simps) (simp add: uhci_read_16_def inw_def Let_def io)
  show ?case
  proof (cases "?v AND UHCI_USBCMD_HC_RESET = 0")
    case True
    then show ?thesis
      using unfold wt pos
      by (intro exI [of _ timeout] exI [of _ ?s] exI [of _ "[]"] exI [of _ "[InW ?p ?v]"]) (auto simp: reset_polls_def naps_event)
  next
    case False
    obtain s1 where n: "sleep hw ?isr 10 ?s = Some s1" "io_log s1 = io_log ?s @ replicate (unat (10 :: u32)) (Halt 32)"
      "waits pit_isr int_h S dev io s1" "naps S ?s s1"
      by (rule sleep_waits [OF t1 wt])
    have k: "k = unat (timeout - 1)" using Suc.hyps(2) pos by (simp add: unat_sub word_le_nat_alt)
    have "timer_keeps hw int_h S (io_log s1) (11 * unat (timeout - 1))"
      unfolding k [symmetric] using timer_keeps_later [OF keep, of "InW ?p ?v # replicate 10 (Halt 32)" "11 * k"] n(2)
      by (simp add: log_event_def)
    from Suc.hyps(1) [OF k this n(3)] obtain tries s' vs last where
      r: "reset_wait hw ?isr dev (timeout - 1) s1 = Some (tries, s')" "unat tries + length vs = unat (timeout - 1)"
        "\<forall>v \<in> set vs. v AND UHCI_USBCMD_HC_RESET \<noteq> 0 \<and> (\<exists>l. v = hw_inw hw l ?p)" "io_log s' = io_log s1 @ reset_polls ?p vs @ last"
        "if tries = 0 then last = [] else \<exists>l. hw_inw hw l ?p AND UHCI_USBCMD_HC_RESET = 0 \<and> last = [InW ?p (hw_inw hw l ?p)]"
        "waits pit_isr int_h S dev io s'" "naps S s1 s'" by blast
    have "io_log s' = io_log s @ reset_polls ?p (?v # vs) @ last" using r(4) n(2) by (simp add: reset_polls_def)
    moreover have "unat tries + length (?v # vs) = unat timeout" using r(2) k Suc.hyps(2) by simp
    moreover have "reset_wait hw ?isr dev timeout s = Some (tries, s')" using unfold False n(1) r(1) by simp
    moreover have "\<forall>v \<in> set (?v # vs). v AND UHCI_USBCMD_HC_RESET \<noteq> 0 \<and> (\<exists>l. v = hw_inw hw l ?p)" using False r(3) by auto
    moreover have "naps S s s'" using naps_trans [OF naps_event naps_trans [OF n(4) r(7)]] .
    ultimately show ?thesis using r(5,6) by blast
  qed
qed

lemma enable_wait_run:
  assumes t: "timer_keeps hw int_h S (io_log s) (11 * unat timeout)" and w: "waits pit_isr int_h S dev io s"
  shows "\<exists>tries s' vs last. enable_wait hw (idt_common_isr itoa_fixed (pit_dispatch pit_isr other)) dev port timeout s = Some (tries, s') \<and>
    unat tries + length vs = unat timeout \<and> (\<forall>v \<in> set vs. v AND UHCI_PORTSC_PORT_ENABLE = 0) \<and>
    io_log s' = io_log s @ enable_polls (io + port) (vs @ last) \<and>
    (if tries = 0 then last = [] else \<exists>v. last = [v] \<and> v AND UHCI_PORTSC_PORT_ENABLE \<noteq> 0) \<and>
    waits pit_isr int_h S dev io s' \<and> naps S s s'"
  using t w
proof (induction "unat timeout" arbitrary: timeout s)
  case 0
  then have "timeout = 0" by (simp add: unat_eq_zero)
  with 0 show ?case
    by (intro exI [of _ 0] exI [of _ s] exI [of _ "[]"]) (simp add: enable_wait.simps enable_polls_def naps_refl)
next
  case (Suc k)
  let ?p = "io + port" and ?isr = "idt_common_isr itoa_fixed (pit_dispatch pit_isr other)"
  have pos: "timeout \<noteq> 0" using Suc.hyps(2) by auto
  note keep = Suc.prems(1) [folded Suc.hyps(2)]
  have t1: "timer_keeps hw int_h S (io_log s) (unat (10 :: u32))" using timer_keeps_later [OF keep, of "[]"] by simp
  obtain s1 where n: "sleep hw ?isr 10 s = Some s1" "io_log s1 = io_log s @ replicate (unat (10 :: u32)) (Halt 32)"
    "waits pit_isr int_h S dev io s1" "naps S s s1"
    by (rule sleep_waits [OF t1 Suc.prems(2)])
  let ?v = "hw_inw hw (io_log s1) ?p"
  let ?s = "log_event (InW ?p ?v) s1"
  have wt: "waits pit_isr int_h S dev io ?s" using n(3) by (simp add: waits_event)
  have io: "ld16 (ud_iobase dev) s1 = io" using n(3) by (simp add: waits_def)
  have unfold: "enable_wait hw ?isr dev port timeout s =
      (if ?v AND UHCI_PORTSC_PORT_ENABLE \<noteq> 0 then Some (timeout, ?s) else enable_wait hw ?isr dev port (timeout - 1) ?s)"
    using pos n(1) by (subst enable_wait.simps) (simp add: uhci_read_16_def inw_def Let_def io)
  have l1: "io_log ?s = io_log s @ enable_polls ?p [?v]" using n(2) by (simp add: enable_polls_def)
  have nap: "naps S s ?s" using naps_trans [OF n(4) naps_event] .
  show ?case
  proof (cases "?v AND UHCI_PORTSC_PORT_ENABLE = 0")
    case False
    then show ?thesis
      using unfold wt pos l1 nap
      by (intro exI [of _ timeout] exI [of _ ?s] exI [of _ "[]"] exI [of _ "[?v]"]) auto
  next
    case True
    have k: "k = unat (timeout - 1)" using Suc.hyps(2) pos by (simp add: unat_minus_one)
    have "timer_keeps hw int_h S (io_log ?s) (11 * unat (timeout - 1))"
      unfolding k [symmetric] l1 using timer_keeps_later [OF keep, of "enable_polls ?p [?v]" "11 * k"] by (simp add: enable_polls_def)
    from Suc.hyps(1) [OF k this wt] obtain tries s' vs last where
      r: "enable_wait hw ?isr dev port (timeout - 1) ?s = Some (tries, s')" "unat tries + length vs = unat (timeout - 1)"
        "\<forall>v \<in> set vs. v AND UHCI_PORTSC_PORT_ENABLE = 0" "io_log s' = io_log ?s @ enable_polls ?p (vs @ last)"
        "if tries = 0 then last = [] else \<exists>v. last = [v] \<and> v AND UHCI_PORTSC_PORT_ENABLE \<noteq> 0"
        "waits pit_isr int_h S dev io s'" "naps S ?s s'" by blast
    have "io_log s' = io_log s @ enable_polls ?p ((?v # vs) @ last)" using r(4) l1 by (simp add: enable_polls_def)
    moreover have "unat tries + length (?v # vs) = unat timeout" using r(2) k Suc.hyps(2) by simp
    moreover have "enable_wait hw ?isr dev port timeout s = Some (tries, s')" using unfold True r(1) by simp
    moreover have "\<forall>v \<in> set (?v # vs). v AND UHCI_PORTSC_PORT_ENABLE = 0" using True r(3) by simp
    ultimately show ?thesis using r(5,6) naps_trans [OF nap r(7)] by blast
  qed
qed


section \<open>Resetting the controller\<close>

definition reset_events :: "u16 \<Rightarrow> io_event list" where
  "reset_events port = OutW port UHCI_USBCMD_GLOBAL_RESET # replicate 20 (Halt 32) @ [OutW port 0, OutW port UHCI_USBCMD_HC_RESET]"

lemma uhci_reset_run:
  fixes s :: "'a uhci_state_scheme"
  assumes t: "timer_keeps hw int_h S (io_log s) 1123" and w: "waits pit_isr int_h S dev io s"
  shows "\<exists>failed s' vs last. uhci_reset hw (idt_common_isr itoa_fixed (pit_dispatch pit_isr other)) dev s = Some (failed, s') \<and>
    length vs \<le> 100 \<and> (\<forall>v \<in> set vs. v AND UHCI_USBCMD_HC_RESET \<noteq> 0 \<and> (\<exists>l. v = hw_inw hw l (io + UHCI_USBCMD))) \<and>
    io_log s' = io_log s @ reset_events (io + UHCI_USBCMD) @ reset_polls (io + UHCI_USBCMD) vs @ last \<and>
    (if failed = 0 then \<exists>l. hw_inw hw l (io + UHCI_USBCMD) AND UHCI_USBCMD_HC_RESET = 0 \<and>
      last = [InW (io + UHCI_USBCMD) (hw_inw hw l (io + UHCI_USBCMD))]
     else last = [] \<and> length vs = 100) \<and>
    waits pit_isr int_h S dev io s' \<and> naps S s s'"
proof -
  let ?isr = "idt_common_isr itoa_fixed (pit_dispatch pit_isr other)" and ?p = "io + UHCI_USBCMD"
  let ?s1 = "log_event (OutW ?p UHCI_USBCMD_GLOBAL_RESET) s"
  have io: "ld16 (ud_iobase dev) s = io" using w by (simp add: waits_def)
  have "timer_keeps hw int_h S (io_log ?s1) (unat (20 :: u32))"
    using timer_keeps_later [OF t, of "[OutW ?p UHCI_USBCMD_GLOBAL_RESET]"] by (simp add: log_event_def)
  moreover have "waits pit_isr int_h S dev io ?s1" using w by (simp add: waits_event)
  ultimately obtain s2 where n: "sleep hw ?isr 20 ?s1 = Some s2" "io_log s2 = io_log ?s1 @ replicate (unat (20 :: u32)) (Halt 32)"
    "waits pit_isr int_h S dev io s2" "naps S ?s1 s2"
    by (rule sleep_waits)
  let ?s3 = "log_event (OutW ?p UHCI_USBCMD_HC_RESET) (log_event (OutW ?p 0) s2)"
  have io2: "ld16 (ud_iobase dev) s2 = io" using n(3) by (simp add: waits_def)
  have w3: "waits pit_isr int_h S dev io ?s3" using n(3) by (simp add: waits_event)
  have t3: "timer_keeps hw int_h S (io_log ?s3) (11 * unat (100 :: u8))"
    using timer_keeps_later [OF t, of "reset_events ?p"] n(2) by (simp add: reset_events_def log_event_def)
  obtain tries s' vs last where r: "reset_wait hw ?isr dev 100 ?s3 = Some (tries, s')" "unat tries + length vs = unat (100 :: u8)"
    "\<forall>v \<in> set vs. v AND UHCI_USBCMD_HC_RESET \<noteq> 0 \<and> (\<exists>l. v = hw_inw hw l ?p)" "io_log s' = io_log ?s3 @ reset_polls ?p vs @ last"
    "if tries = 0 then last = [] else \<exists>l. hw_inw hw l ?p AND UHCI_USBCMD_HC_RESET = 0 \<and> last = [InW ?p (hw_inw hw l ?p)]"
    "waits pit_isr int_h S dev io s'" "naps S ?s3 s'"
    using reset_wait_run [OF t3 w3, where itoa_fixed = itoa_fixed and other = other] by blast
  have run: "uhci_reset hw ?isr dev s = Some (if tries > 0 then 0 else 1, s')"
    using n(1) r(1) io io2 by (simp add: uhci_reset_def uhci_write_16_def outw_def Let_def)
  have "naps S s s'"
    by (rule naps_trans [OF naps_event], rule naps_trans [OF n(4)], rule naps_trans [OF naps_event],
        rule naps_trans [OF naps_event], rule r(7))
  moreover have "tries > 0 \<longleftrightarrow> tries \<noteq> 0" by (simp add: word_neq_0_conv)
  moreover have "io_log s' = io_log s @ reset_events ?p @ reset_polls ?p vs @ last"
    using r(4) n(2) by (simp add: reset_events_def)
  moreover have "length vs \<le> 100" "tries = 0 \<Longrightarrow> length vs = 100" using r(2) by auto
  ultimately show ?thesis using run r(3,5,6)
    by (intro exI [of _ "if tries > 0 then 0 else 1"] exI [of _ s'] exI [of _ vs] exI [of _ last]) auto
qed


section \<open>Enabling a port\<close>

definition enable_events :: "u16 \<Rightarrow> u16 \<Rightarrow> io_event list" where
  "enable_events port v =
     (let r = v AND NOT UHCI_PORTSC_CONNECT_STATUS_CHG
      in [InW port v, OutW port (r OR UHCI_PORTSC_RESET)] @ replicate 100 (Halt 32) @
         OutW port (r AND NOT UHCI_PORTSC_RESET) # replicate 50 (Halt 32) @ [OutW port (r OR UHCI_PORTSC_PORT_ENABLE)])"

lemma bringup_report:
  fixes s :: "'a uhci_state_scheme"
  assumes on: "on_screen s" and buf: "local_buffer 64 (v_itoa_fixed env)" "local_buffer 8 (v_print_buf env)"
  shows "\<exists>u s'. print_once env (uint (port :: u16)) 16 (say ''UHCI device bringup timed out on port '' s) = Some u \<and>
    print_pci_dev (v_print_buf env) (ld32 (ud_pci_dev dev) (say ''\<newline>'' u)) (say ''\<newline>'' u) = Some s' \<and>
    prints (span 64 (v_itoa_fixed env) \<union> span 8 (v_print_buf env)) s s'"
proof -
  let ?W = "span 64 (v_itoa_fixed env) \<union> span 8 (v_print_buf env)"
  have "\<exists>u. (print_number (v_itoa_fixed env) (uint port) 16 (say ''UHCI device bringup timed out on port '' s) \<bind> Some) = Some u \<and>
      prints (span 64 (v_itoa_fixed env)) s u"
    by (rule prints_number [OF prints_text [OF prints_refl [OF on]] buf(1), of _ _ 4]) (use uint_bounded [of port] in auto)
  then obtain u where u: "print_once env (uint port) 16 (say ''UHCI device bringup timed out on port '' s) = Some u"
    "prints (span 64 (v_itoa_fixed env)) s u"
    by (auto simp: print_once_def print_number_def itoa_once_def)
  have "prints ?W s u" by (rule prints_mono [OF u(2)]) blast
  note p = prints_text [OF this, of "text_bytes ''\<newline>''"]
  obtain s' where s': "print_pci_dev (v_print_buf env) (ld32 (ud_pci_dev dev) (say ''\<newline>'' u)) (say ''\<newline>'' u) = Some s'"
    "prints (span 8 (v_print_buf env)) (say ''\<newline>'' u) s'"
    using print_pci_dev_prints [OF _ buf(2)] p by (meson prints_def)
  have "prints ?W s s'" using prints_trans [OF p prints_mono [OF s'(2)]] by blast
  then show ?thesis using u(1) s'(1) by blast
qed

lemma enable_device_run:
  fixes s :: "'a uhci_state_scheme"
  assumes t: "timer_keeps (v_hw env) int_h S (io_log s) 264" and w: "waits pit_isr int_h S dev io s" and on: "on_screen s"
    and buf: "local_buffer 64 (v_itoa_fixed env)" "local_buffer 8 (v_print_buf env)"
  shows "\<exists>ok s' v vs last l. uhci_enable_device_on_port env (idt_common_isr (v_itoa_fixed env) (pit_dispatch pit_isr other)) dev port s = Some (ok, s') \<and>
    length (vs @ last) \<le> 10 \<and> (\<forall>v \<in> set vs. v AND UHCI_PORTSC_PORT_ENABLE = 0) \<and>
    io_log s' = io_log s @ enable_events (io + port) v @ enable_polls (io + port) (vs @ last) @ l \<and>
    (if ok then (\<exists>x y. last = [x] \<and> x AND UHCI_PORTSC_PORT_ENABLE \<noteq> 0 \<and> l = [InW (io + port) y, OutW (io + port) y])
     else last = [] \<and> length vs = 10) \<and>
    same_on (mem s) (mem s') (S - (text_page \<union> span 64 (v_itoa_fixed env) \<union> span 8 (v_print_buf env)))"
proof -
  let ?isr = "idt_common_isr (v_itoa_fixed env) (pit_dispatch pit_isr other)" and ?p = "io + port"
  let ?W = "span 64 (v_itoa_fixed env) \<union> span 8 (v_print_buf env)"
  let ?v = "hw_inw (v_hw env) (io_log s) ?p"
  let ?r = "?v AND NOT UHCI_PORTSC_CONNECT_STATUS_CHG"
  let ?s1 = "log_event (OutW ?p (?r OR UHCI_PORTSC_RESET)) (log_event (InW ?p ?v) s)"
  have io: "ld16 (ud_iobase dev) s = io" using w by (simp add: waits_def)
  have "timer_keeps (v_hw env) int_h S (io_log ?s1) (unat (100 :: u32))"
    using timer_keeps_later [OF t, of "[InW ?p ?v, OutW ?p (?r OR UHCI_PORTSC_RESET)]"] by (simp add: log_event_def)
  moreover have "waits pit_isr int_h S dev io ?s1" using w by (simp add: waits_event)
  ultimately obtain s2 where n1: "sleep (v_hw env) ?isr 100 ?s1 = Some s2" "io_log s2 = io_log ?s1 @ replicate (unat (100 :: u32)) (Halt 32)"
    "waits pit_isr int_h S dev io s2" "naps S ?s1 s2"
    by (rule sleep_waits)
  let ?s3 = "log_event (OutW ?p (?r AND NOT UHCI_PORTSC_RESET)) s2"
  have "timer_keeps (v_hw env) int_h S (io_log ?s3) (unat (50 :: u32))"
    using timer_keeps_later [OF t, of "[InW ?p ?v, OutW ?p (?r OR UHCI_PORTSC_RESET)] @ replicate 100 (Halt 32) @ [OutW ?p (?r AND NOT UHCI_PORTSC_RESET)]" 50]
      n1(2) by (simp add: log_event_def)
  moreover have "waits pit_isr int_h S dev io ?s3" using n1(3) by (simp add: waits_event)
  ultimately obtain s4 where n2: "sleep (v_hw env) ?isr 50 ?s3 = Some s4" "io_log s4 = io_log ?s3 @ replicate (unat (50 :: u32)) (Halt 32)"
    "waits pit_isr int_h S dev io s4" "naps S ?s3 s4"
    by (rule sleep_waits)
  let ?s5 = "log_event (OutW ?p (?r OR UHCI_PORTSC_PORT_ENABLE)) s4"
  have w5: "waits pit_isr int_h S dev io ?s5" using n2(3) by (simp add: waits_event)
  have t5: "timer_keeps (v_hw env) int_h S (io_log ?s5) (11 * unat (10 :: u16))"
    using timer_keeps_later [OF t, of "enable_events ?p ?v"] n1(2) n2(2) by (simp add: enable_events_def log_event_def Let_def)
  have ios: "ld16 (ud_iobase dev) s2 = io" "ld16 (ud_iobase dev) s4 = io" using n1(3) n2(3) by (simp_all add: waits_def)
  obtain tries s6 vs last where r: "enable_wait (v_hw env) ?isr dev port 10 ?s5 = Some (tries, s6)" "unat tries + length vs = unat (10 :: u16)"
    "\<forall>v \<in> set vs. v AND UHCI_PORTSC_PORT_ENABLE = 0" "io_log s6 = io_log ?s5 @ enable_polls ?p (vs @ last)"
    "if tries = 0 then last = [] else \<exists>v. last = [v] \<and> v AND UHCI_PORTSC_PORT_ENABLE \<noteq> 0"
    "waits pit_isr int_h S dev io s6" "naps S ?s5 s6"
    using enable_wait_run [OF t5 w5, where port = port and itoa_fixed = "v_itoa_fixed env" and other = other] by blast
  have nap: "naps S s s6"
    by (rule naps_trans [OF naps_event], rule naps_trans [OF naps_event], rule naps_trans [OF n1(4)], rule naps_trans [OF naps_event],
        rule naps_trans [OF n2(4)], rule naps_trans [OF naps_event], rule r(7))
  have log: "io_log s6 = io_log s @ enable_events ?p ?v @ enable_polls ?p (vs @ last)"
    using r(4) n1(2) n2(2) by (simp add: enable_events_def Let_def)
  have io6: "ld16 (ud_iobase dev) s6 = io" using r(6) by (simp add: waits_def)
  have same: "same_on (mem s) (mem s6) S" using nap by (simp add: naps_def)
  show ?thesis
  proof (cases "tries = 0")
    case False
    let ?y = "hw_inw (v_hw env) (io_log s6) ?p"
    let ?s' = "log_event (OutW ?p ?y) (log_event (InW ?p ?y) s6)"
    have "uhci_enable_device_on_port env ?isr dev port s = Some (True, ?s')"
      using n1(1) n2(1) r(1) False ios io io6
      by (simp add: uhci_enable_device_on_port_def uhci_read_16_def uhci_write_16_def inw_def outw_def Let_def)
    moreover have "io_log ?s' = io_log s @ enable_events ?p ?v @ enable_polls ?p (vs @ last) @ [InW ?p ?y, OutW ?p ?y]" using log by simp
    moreover have "length (vs @ last) \<le> 10"
    proof -
      have "0 < unat tries" using False by (simp add: unat_gt_0)
      then show ?thesis using r(2,5) False by auto
    qed
    ultimately show ?thesis
      using r(3,5) False same
      by (intro exI [of _ True] exI [of _ ?s'] exI [of _ ?v] exI [of _ vs] exI [of _ last] exI [of _ "[InW ?p ?y, OutW ?p ?y]"])
        (auto intro: same_on_mono)
  next
    case True
    have "on_screen s6" using nap on by (auto simp: naps_def ticked_def on_screen_def)
    from bringup_report [OF this buf, of port dev] obtain s8 s' where
      p2: "print_once env (uint port) 16 (say ''UHCI device bringup timed out on port '' s6) = Some s8" and
      p5: "print_pci_dev (v_print_buf env) (ld32 (ud_pci_dev dev) (say ''\<newline>'' s8)) (say ''\<newline>'' s8) = Some s'" and
      p6: "prints ?W s6 s'" by blast
    have "uhci_enable_device_on_port env ?isr dev port s = Some (False, s')"
      using n1(1) n2(1) r(1) True ios io p2 p5
      by (simp add: uhci_enable_device_on_port_def uhci_read_16_def uhci_write_16_def inw_def outw_def Let_def)
    moreover obtain l where "io_log s' = io_log s6 @ l" using p6 by (auto simp: prints_def)
    moreover have "same_on (mem s) (mem s') (S - (text_page \<union> ?W))"
      by (rule same_on_trans [OF same_on_mono [OF same] same_on_mono [of _ _ "- (text_page \<union> ?W)"]]) (use p6 in \<open>auto simp: prints_def\<close>)
    ultimately show ?thesis
      using r(2,3,5) True log by (intro exI [of _ False] exI [of _ s'] exI [of _ ?v] exI [of _ vs] exI [of _ last] exI [of _ l]) (auto simp: Un_assoc)
  qed
qed


section \<open>A controller that stays in reset\<close>

text \<open>The heap and the timer, through a step that writes to \<open>W\<close> only.\<close>

definition steady :: "u32 \<Rightarrow> u32 \<Rightarrow> nat \<Rightarrow> nat \<Rightarrow> live \<Rightarrow> 'a uhci_state_scheme \<Rightarrow> bool" where
  "steady pit_isr int_h lo hi L s \<longleftrightarrow> heap_inv lo hi s L \<and> timer_inv pit_isr int_h s \<and> node_ok int_h"

lemma steady_step:
  assumes st: "steady pit_isr int_h lo hi L s" and f: "same_on (mem s) (mem s') (- W)"
    and W: "W \<subseteq> payload L \<union> - {lo..<hi}" "W \<inter> node int_h = {}"
    and m: "free_block_head s' = free_block_head s" "int_handlers s' = int_handlers s"
  shows "steady pit_isr int_h lo hi L s'"
proof -
  note S = st [unfolded steady_def]
  have "heap_inv lo hi s' L"
    by (rule write_outcome [OF _ same_on_mono [OF f] m(1)]) (use S W(1) in auto)
  moreover have "timer_inv pit_isr int_h (s\<lparr>mem := mem s'\<rparr>)"
    by (rule timer_inv_dma [OF _ same_on_mono [OF f]]) (use S W(2) in auto)
  ultimately show ?thesis using S m(2) by (simp add: steady_def timer_inv_def)
qed

lemma prints_fields:
  "prints W s s' \<Longrightarrow> free_block_head s' = free_block_head s \<and> int_handlers s' = int_handlers s \<and> on_screen s' \<and>
    pending_queue s' = pending_queue s \<and> same_on (mem s) (mem s') (- (text_page \<union> W)) \<and> (\<exists>l. io_log s' = io_log s @ l)"
  unfolding prints_def by auto

lemma ticked_fields:
  "ticked s s' \<Longrightarrow> free_block_head s' = free_block_head s \<and> int_handlers s' = int_handlers s \<and> on_screen s' = on_screen s \<and>
    pending_queue s' = pending_queue s"
  by (auto simp: ticked_def on_screen_def)

text \<open>The first part of \<open>pci_dev_init_cb\<close>, up to the reset.\<close>

definition before_reset :: "u32 \<Rightarrow> u32 \<Rightarrow> 'a uhci_state_scheme \<Rightarrow> 'a uhci_state_scheme" where
  "before_reset dev p s =
     (let s = st32 (ud_pci_dev p) dev s;
          s = say ''UHCI found\<newline>'' s;
          s = pci_write_16 dev PCI_HOFF_UHCI_LEGSUP 0x2000 s;
          s = (if (ld16 (hdr_command dev) s AND push_bit 2 1) = 0
            then let s = st16 (hdr_command dev) (ld16 (hdr_command dev) s OR push_bit 2 1) s
                 in pci_write_16 dev 0x4 (ld16 (hdr_command dev) s) s
            else s)
      in st16 (ud_iobase p) (ucast (ld32 (hdr_bar dev 4) s AND 0xfffe)) s)"

lemma init_cb_eq:
  "is_UHCI_device dev s \<Longrightarrow> pci_dev_init_cb env isr dev s = do {
     (p, s) \<leftarrow> memalloc sizeof_uhci_dev s;
     (failed, s) \<leftarrow> uhci_reset (v_hw env) isr p (before_reset dev p s);
     if failed \<noteq> 0 then do {
       let s = say ''UHCI reset timed out\<newline>'' s;
       s \<leftarrow> print_pci_dev (v_print_buf env) dev s;
       s \<leftarrow> memfree p s;
       Some (False, s)
     }
     else do { s \<leftarrow> start_controller env isr p s; Some (True, s) }
   }"
  unfolding pci_dev_init_cb_def before_reset_def Let_def by (simp add: split_def)

text \<open>All of it but the last store.\<close>

lemma before_reset_steps:
  fixes s :: "'a uhci_state_scheme"
  assumes on: "on_screen s" and dev: "unat dev + 68 \<le> 4294967296"
  obtains s4 l where "before_reset dev p s = st16 (ud_iobase p) (ucast (ld32 (hdr_bar dev 4) s4 AND 0xfffe)) s4"
    and "same_on (mem (st32 (ud_pci_dev p) dev s)) (mem s4) (- (text_page \<union> span 2 (hdr_command dev)))"
    and "free_block_head s4 = free_block_head s" and "int_handlers s4 = int_handlers s" and "pending_queue s4 = pending_queue s"
    and "on_screen s4" and "io_log s4 = io_log s @ l" and "length l \<le> 8"
proof -
  let ?s1 = "st32 (ud_pci_dev p) dev s"
  let ?s2 = "say ''UHCI found\<newline>'' ?s1"
  let ?s3 = "pci_write_16 dev PCI_HOFF_UHCI_LEGSUP 0x2000 ?s2"
  let ?s4 = "if (ld16 (hdr_command dev) ?s3 AND push_bit 2 1) = 0
    then let s = st16 (hdr_command dev) (ld16 (hdr_command dev) ?s3 OR push_bit 2 1) ?s3 in pci_write_16 dev 0x4 (ld16 (hdr_command dev) s) s
    else ?s3"
  have on1: "on_screen ?s1" using on by (simp add: on_screen_def st32_def)
  note t2 = prints_fields [OF prints_text [OF prints_refl [OF on1], of "{}" "text_bytes ''UHCI found\<newline>''"]]
  have w: "mem (pci_write_16 d o' v u) = mem u" "free_block_head (pci_write_16 d o' v u) = free_block_head u"
    "int_handlers (pci_write_16 d o' v u) = int_handlers u" "pending_queue (pci_write_16 d o' v u) = pending_queue u"
    "on_screen (pci_write_16 d o' v u) = on_screen u" "io_log (pci_write_16 d o' v u) = io_log u @
      [OutL 0xcf8 (get_pci_dev_addr d (o' AND 0xfc) u), OutW (0xcfc + ucast (o' AND 0x3)) v]"
    for d o' v and u :: "'a uhci_state_scheme"
    by (simp_all add: pci_write_16_def Let_def port_defs log_event_def on_screen_def)
  have f4: "same_on (mem ?s3) (mem ?s4) (- span 2 (hdr_command dev))"
    using dev by (auto simp: Let_def w(1) span_def pci_layout unat_add_u32 intro!: same_on_store16)
  have m4: "free_block_head ?s4 = free_block_head ?s3" "int_handlers ?s4 = int_handlers ?s3" "pending_queue ?s4 = pending_queue ?s3"
    "on_screen ?s4 = on_screen ?s3"
    using w(2-5) by (auto simp: Let_def st16_def on_screen_def)
  have "\<exists>l. io_log ?s4 = io_log ?s3 @ l \<and> length l \<le> 2" by (auto simp: Let_def st16_def w(6))
  then obtain l4 where l4: "io_log ?s4 = io_log ?s3 @ l4" "length l4 \<le> 2" by blast
  obtain l2 where l2: "io_log ?s2 = io_log s @ l2" "length l2 = 4"
    using print_chars_safe(3) [OF on1] by (auto simp: cursor_events_def)
  show thesis
  proof (rule that)
    show "before_reset dev p s = st16 (ud_iobase p) (ucast (ld32 (hdr_bar dev 4) ?s4 AND 0xfffe)) ?s4"
      by (simp add: before_reset_def Let_def)
    show "same_on (mem ?s1) (mem ?s4) (- (text_page \<union> span 2 (hdr_command dev)))"
      by (rule same_on_trans [OF same_on_mono [of _ _ "- text_page"] same_on_mono [OF f4]]) (use t2 in \<open>auto simp: w(1)\<close>)
    show "on_screen ?s4" unfolding m4(4) w(5) using t2 by simp
    show "io_log ?s4 = io_log s @ l2 @ [OutL 0xcf8 (get_pci_dev_addr dev (PCI_HOFF_UHCI_LEGSUP AND 0xfc) ?s2),
        OutW (0xcfc + ucast (PCI_HOFF_UHCI_LEGSUP AND 0x3)) 0x2000] @ l4"
      unfolding l4(1) w(6) l2(1) append_assoc ..
  qed (use t2 m4(1-3) w(2-4) l2(2) l4(2) in simp_all)
qed

lemma before_reset_run:
  fixes s :: "'a uhci_state_scheme"
  assumes st: "steady pit_isr int_h lo hi L s" and on: "on_screen s"
    and p: "span 20 p \<subseteq> payload L" "span 20 p \<inter> span 68 dev = {}" "span 20 p \<inter> node int_h = {}" "unat p + 20 \<le> 4294967296"
    and dev: "span 68 dev \<subseteq> payload L \<union> - {lo..<hi}" "span 68 dev \<inter> (node int_h \<union> text_page) = {}" "unat dev + 68 \<le> 4294967296"
    and page: "text_page \<inter> ({lo..<hi} \<union> node int_h) = {}"
  defines "s' \<equiv> before_reset dev p s"
  shows "steady pit_isr int_h lo hi L s'" and "on_screen s'" and "int_handlers s' = int_handlers s"
    and "pending_queue s' = pending_queue s" and "ld16 (ud_iobase p) s' = ucast (ld32 (hdr_bar dev 4) s AND 0xfffe)"
    and "\<exists>l. io_log s' = io_log s @ l \<and> length l \<le> 8" and "same_on (mem s) (mem s') (- (span 20 p \<union> text_page \<union> span 2 (hdr_command dev)))"
    and "ld32 (ud_pci_dev p) s' = dev" and "ld32 (ud_frame_list_base p) s' = ld32 (ud_frame_list_base p) s"
    and "free_block_head s' = free_block_head s"
proof -
  let ?s1 = "st32 (ud_pci_dev p) dev s" and ?C = "span 2 (hdr_command dev)"
  obtain s4 l where S: "s' = st16 (ud_iobase p) (ucast (ld32 (hdr_bar dev 4) s4 AND 0xfffe)) s4"
    "same_on (mem ?s1) (mem s4) (- (text_page \<union> ?C))" "free_block_head s4 = free_block_head s" "int_handlers s4 = int_handlers s"
    "pending_queue s4 = pending_queue s" "on_screen s4" "io_log s4 = io_log s @ l" "length l \<le> 8"
    unfolding s'_def by (rule before_reset_steps [OF on dev(3)])
  note o = dev_offsets [OF p(4)]
  have pa: "unat (hdr_command dev) = unat dev + 8" "unat (hdr_bar dev 4) = unat dev + 36"
    using dev(3) by (simp_all add: pci_layout unat_add_u32)
  have "same_on (mem s) (mem ?s1) (- span 20 p)"
    unfolding mem_st by (rule same_on_store32) (use o p(4) in \<open>auto simp: span_def\<close>)
  then have all: "same_on (mem s) (mem s4) (- (span 20 p \<union> text_page \<union> ?C))"
    by (rule same_on_trans [OF same_on_mono same_on_mono [OF S(2)]]) auto
  have f5: "same_on (mem s4) (mem s') (- {unat p..<unat p + 2})"
    unfolding S(1) mem_st by (rule same_on_store16) (use p(4) in \<open>auto simp: ud_iobase_def\<close>)
  show fr: "same_on (mem s) (mem s') (- (span 20 p \<union> text_page \<union> ?C))"
    by (rule same_on_trans [OF all same_on_mono [OF f5]]) (auto simp: span_def)
  have c: "?C \<subseteq> span 68 dev" using pa(1) by (auto simp: span_def)
  have m: "free_block_head s' = free_block_head s" "int_handlers s' = int_handlers s" "pending_queue s' = pending_queue s"
    using S(3-5) by (simp_all add: S(1) st16_def)
  then show "int_handlers s' = int_handlers s" "pending_queue s' = pending_queue s" "free_block_head s' = free_block_head s" by simp_all
  show "on_screen s'" using S(6) by (simp add: S(1) on_screen_def st16_def)
  show "\<exists>l. io_log s' = io_log s @ l \<and> length l \<le> 8" using S(7,8) by (simp add: S(1))
  show "steady pit_isr int_h lo hi L s'"
  proof (rule steady_step [OF st fr _ _ m(1,2)])
    show "span 20 p \<union> text_page \<union> ?C \<subseteq> payload L \<union> - {lo..<hi}" using p(1) c dev(1) page by blast
    show "(span 20 p \<union> text_page \<union> ?C) \<inter> node int_h = {}" using p(3) c dev(2) page by blast
  qed
  have "span 4 (hdr_bar dev 4) \<subseteq> span 68 dev" "span 4 (hdr_bar dev 4) \<inter> ?C = {}"
    using pa by (auto simp: span_def)
  then have "ld32 (hdr_bar dev 4) s4 = ld32 (hdr_bar dev 4) s"
    by (intro load32_span [OF all]) (use p(2) dev(2,3) pa(2) in auto)
  then show "ld16 (ud_iobase p) s' = ucast (ld32 (hdr_bar dev 4) s AND 0xfffe)" by (simp add: S(1))
  have "text_page \<inter> payload L = {}" using payload_owned [of lo hi s L] heap_range(1) [of lo hi s L] st page by (auto simp: steady_def)
  then have pt: "span 20 p \<inter> (text_page \<union> ?C) = {}" using p(1,2) c by blast
  have f: "same_on (mem ?s1) (mem s') (span 20 p - {unat p..<unat p + 2})"
    by (rule same_on_trans [OF same_on_mono [OF S(2)] same_on_mono [OF f5]]) (use pt in auto)
  have "ld32 (ud_pci_dev p) s' = ld32 (ud_pci_dev p) ?s1" "ld32 (ud_frame_list_base p) s' = ld32 (ud_frame_list_base p) ?s1"
    by (rule load32_span [OF f]; use o p(4) in \<open>auto simp: span_def\<close>)+
  moreover have "ld32 (ud_frame_list_base p) ?s1 = ld32 (ud_frame_list_base p) s"
    unfolding mem_st by (rule load32_store32_other) (use o p(4) in auto)
  ultimately show "ld32 (ud_pci_dev p) s' = dev" "ld32 (ud_frame_list_base p) s' = ld32 (ud_frame_list_base p) s" by simp_all
qed

text \<open>The first allocation, and where the new structure lies.\<close>

lemma dev_allocated:
  fixes s :: "'a uhci_state_scheme"
  assumes hp: "heap_inv lo hi s L" and on: "on_screen s" and tm: "timer_inv pit_isr int_h s" and nok: "node_ok int_h"
    and al: "memalloc sizeof_uhci_dev s = Some (p, s1)" "p \<noteq> 0"
    and dev: "span 68 dev \<subseteq> payload L \<union> - {lo..<hi}" "unat dev + 68 \<le> 4294967296" "span 68 dev \<inter> node int_h = {}"
    and int_h: "node int_h \<subseteq> owned L \<union> - {lo..<hi}"
  obtains r where "L p = None" and "heap_inv lo hi s1 (L(p \<mapsto> r))" and "same_on (mem s) (mem s1) (owned L \<union> - {lo..<hi})"
    and "int_handlers s1 = int_handlers s" and "pending_queue s1 = pending_queue s" and "on_screen s1" and "io_log s1 = io_log s"
    and "steady pit_isr int_h lo hi (L(p \<mapsto> r)) s1" and "span 20 p \<subseteq> payload (L(p \<mapsto> r))" and "span 20 p \<inter> span 68 dev = {}"
    and "span 20 p \<inter> node int_h = {}" and "unat p + 20 \<le> 4294967296" and "span 68 dev \<subseteq> payload (L(p \<mapsto> r)) \<union> - {lo..<hi}"
    and "span 68 dev \<subseteq> owned L \<union> - {lo..<hi}" and "span 20 p \<inter> (owned L \<union> - {lo..<hi}) = {}"
    and "ld32 (hdr_bar dev 4) s1 = ld32 (hdr_bar dev 4) s"
proof -
  let ?safe = "owned L \<union> - {lo..<hi}"
  obtain a x where A: "a + 8 \<le> unat p" "unat p + unat sizeof_uhci_dev \<le> x" "{a..<x} \<inter> owned L = {}" "L p = None"
    "heap_inv lo hi s1 (L(p \<mapsto> (a, x)))" "same_on (mem s) (mem s1) ?safe" "only_heap s s1" "{a..<x} \<subseteq> {lo..<hi}"
    by (rule alloc_known [OF hp al])
  let ?L = "L(p \<mapsto> (a, x))"
  have room: "unat p + 20 \<le> x" using A(2) by (simp add: sizeof_uhci_dev_def)
  have hi: "x \<le> hi" "hi < 4294967296" using heap_inv_range(2) [OF A(5), of p a x] hp by (auto simp: heap_inv_def heap_ok_def)
  have top: "unat p + 20 \<le> 4294967296" using room hi by simp
  have pin: "span 20 p \<subseteq> {a..<x}" using A(1) room by (auto simp: span_def)
  have poff: "span 20 p \<inter> ?safe = {}" using pin A(3,8) by blast
  have devs: "span 68 dev \<subseteq> ?safe" using dev(1) payload_owned [OF hp] by blast
  have sub: "payload L \<subseteq> payload ?L" by (rule live_mono(2)) (use A(4) in auto)
  have m1: "int_handlers s1 = int_handlers s" "pending_queue s1 = pending_queue s" "on_screen s1" "io_log s1 = io_log s"
    using more_eq [of s1 s] A(7) on by (simp_all add: only_heap_def on_screen_def)
  have "timer_inv pit_isr int_h (s\<lparr>mem := mem s1\<rparr>)"
    by (rule timer_inv_dma [OF tm same_on_mono [OF A(6) int_h] nok])
  then have st1: "steady pit_isr int_h lo hi ?L s1" using A(5) nok m1(1) by (simp add: steady_def timer_inv_def)
  have b: "unat (hdr_bar dev 4) = unat dev + 36" using dev(2) by (simp add: pci_layout unat_add_u32)
  then have "span 4 (hdr_bar dev 4) \<subseteq> span 68 dev" by (auto simp: span_def)
  then have bar: "ld32 (hdr_bar dev 4) s1 = ld32 (hdr_bar dev 4) s"
    using b dev(2) devs by (intro load32_span [OF A(6)]) auto
  show thesis
  proof (rule that [OF A(4-6) m1 st1 _ _ _ top _ devs poff bar])
    show "span 20 p \<subseteq> payload ?L" using room by (auto simp: payload_def span_def)
    show "span 20 p \<inter> span 68 dev = {}" "span 20 p \<inter> node int_h = {}" using poff devs int_h by blast+
    show "span 68 dev \<subseteq> payload ?L \<union> - {lo..<hi}" using dev(1) sub by blast
  qed
qed


lemma init_reset_timeout:
  fixes s :: "'a uhci_state_scheme"
  assumes hp: "heap_inv lo hi s L" and tm: "timer_inv pit_isr int_h s" and on: "on_screen s"
    and t: "timer_keeps (v_hw env) int_h UNIV (io_log s) 1131" and al: "memalloc sizeof_uhci_dev s = Some (p, s1)" "p \<noteq> 0"
    and uhci: "is_UHCI_device dev s" and dev: "span 68 dev \<subseteq> payload L \<union> - {lo..<hi}" "unat dev + 68 \<le> 4294967296"
    and apart: "(span 68 dev \<union> span 8 (v_print_buf env) \<union> text_page) \<inter> node int_h = {}"
      "span 68 dev \<inter> text_page = {}" "(text_page \<union> span 8 (v_print_buf env)) \<inter> {lo..<hi} = {}" "node int_h \<subseteq> owned L \<union> - {lo..<hi}"
    and buf: "local_buffer 8 (v_print_buf env)"
    and stuck: "\<And>l. hw_inw (v_hw env) l (ucast (ld32 (hdr_bar dev 4) s AND 0xfffe) + UHCI_USBCMD) AND UHCI_USBCMD_HC_RESET \<noteq> 0"
  shows "\<exists>s' l1 vs l2. pci_dev_init_cb env (idt_common_isr (v_itoa_fixed env) (pit_dispatch pit_isr other)) dev s = Some (False, s') \<and>
    io_log s' = io_log s @ l1 @ reset_events (ucast (ld32 (hdr_bar dev 4) s AND 0xfffe) + UHCI_USBCMD) @
      reset_polls (ucast (ld32 (hdr_bar dev 4) s AND 0xfffe) + UHCI_USBCMD) vs @ l2 \<and> length vs = 100 \<and>
    heap_inv lo hi s' L \<and> int_handlers s' = int_handlers s \<and> pending_queue s' = pending_queue s \<and>
    same_on (mem s) (mem s') ((owned L \<union> - {lo..<hi}) - (text_page \<union> span 8 (v_print_buf env) \<union> span 2 (hdr_command dev)))"
proof -
  let ?io = "ucast (ld32 (hdr_bar dev 4) s AND 0xfffe) :: u16"
  let ?isr = "idt_common_isr (v_itoa_fixed env) (pit_dispatch pit_isr other)" and ?B = "span 8 (v_print_buf env)"
  let ?safe = "owned L \<union> - {lo..<hi}"
  have nok: "node_ok int_h" using t by (simp add: timer_keeps_def)
  have d: "span 68 dev \<inter> node int_h = {}" "span 68 dev \<inter> (node int_h \<union> text_page) = {}" "text_page \<inter> ({lo..<hi} \<union> node int_h) = {}"
    using apart(1-3) by blast+
  obtain r where A: "L p = None" "heap_inv lo hi s1 (L(p \<mapsto> r))" "same_on (mem s) (mem s1) ?safe"
    "int_handlers s1 = int_handlers s" "pending_queue s1 = pending_queue s" "on_screen s1" "io_log s1 = io_log s"
    "steady pit_isr int_h lo hi (L(p \<mapsto> r)) s1" "span 20 p \<subseteq> payload (L(p \<mapsto> r))" "span 20 p \<inter> span 68 dev = {}"
    "span 20 p \<inter> node int_h = {}" "unat p + 20 \<le> 4294967296" "span 68 dev \<subseteq> payload (L(p \<mapsto> r)) \<union> - {lo..<hi}"
    "span 68 dev \<subseteq> ?safe" "span 20 p \<inter> ?safe = {}" "ld32 (hdr_bar dev 4) s1 = ld32 (hdr_bar dev 4) s"
    by (rule dev_allocated [OF hp on tm nok al dev d(1) apart(4)])
  let ?L = "L(p \<mapsto> r)" and ?s2 = "before_reset dev p s1"
  note b = before_reset_run [OF A(8,6,9-13) d(2) dev(2) d(3)]
  have w2: "waits pit_isr int_h UNIV p ?io ?s2" using b(1,5) A(12,16) by (simp add: waits_def steady_def)
  have t2: "timer_keeps (v_hw env) int_h UNIV (io_log ?s2) 1123"
    using b(6) A(7) timer_keeps_later [OF t, of _ 1123] by auto
  obtain failed s3 vs last where U: "uhci_reset (v_hw env) ?isr p ?s2 = Some (failed, s3)" "length vs \<le> 100"
    "io_log s3 = io_log ?s2 @ reset_events (?io + UHCI_USBCMD) @ reset_polls (?io + UHCI_USBCMD) vs @ last"
    "if failed = 0 then \<exists>l. hw_inw (v_hw env) l (?io + UHCI_USBCMD) AND UHCI_USBCMD_HC_RESET = 0 \<and>
      last = [InW (?io + UHCI_USBCMD) (hw_inw (v_hw env) l (?io + UHCI_USBCMD))] else last = [] \<and> length vs = 100"
    "naps UNIV ?s2 s3" "waits pit_isr int_h UNIV p ?io s3"
    using uhci_reset_run [OF t2 w2, of "v_itoa_fixed env" other] by blast
  from U(4) stuck have f: "failed \<noteq> 0" "last = []" "length vs = 100" by (auto split: if_splits)
  have n: "ticked ?s2 s3" "same_on (mem ?s2) (mem s3) UNIV" using U(5) by (simp_all add: naps_def)
  note tk = ticked_fields [OF n(1)]
  have st3: "steady pit_isr int_h lo hi ?L s3" by (rule steady_step [OF b(1), of _ "{}"]) (use n tk in auto)
  have on3: "on_screen s3" using tk b(2) by simp
  note p4 = prints_text [OF prints_refl [OF on3], of ?B "text_bytes ''UHCI reset timed out\<newline>''"]
  have "on_screen (say ''UHCI reset timed out\<newline>'' s3)" using p4 by (simp add: prints_def)
  from print_pci_dev_prints [OF this buf, of dev] obtain s5 where
    p5: "print_pci_dev (v_print_buf env) dev (say ''UHCI reset timed out\<newline>'' s3) = Some s5" "prints ?B (say ''UHCI reset timed out\<newline>'' s3) s5"
    by blast
  note pf = prints_fields [OF prints_trans [OF p4 p5(2)]]
  have st5: "steady pit_isr int_h lo hi ?L s5"
    by (rule steady_step [OF st3, of _ "text_page \<union> ?B"]) (use pf apart in blast)+
  have Lp: "?L(p := None) = L" using A(1) by auto
  obtain s6 where s6: "memfree p s5 = Some s6" "heap_inv lo hi s6 L" "same_on (mem s5) (mem s6) ?safe" "only_heap s5 s6"
    using release_outcome [of lo hi s5 ?L p "fst r" "snd r"] st5 unfolding Lp steady_def by auto
  have m6: "int_handlers s6 = int_handlers s5" "pending_queue s6 = pending_queue s5" "io_log s6 = io_log s5"
    using more_eq [of s6 s5] s6(4) by (simp_all add: only_heap_def)
  have run: "pci_dev_init_cb env ?isr dev s = Some (False, s6)"
    unfolding init_cb_eq [OF uhci] using al(1) U(1) f(1) p5(1) s6(1) by simp
  obtain l1 l2 where l: "io_log ?s2 = io_log s1 @ l1" "io_log s5 = io_log s3 @ l2" using b(6) pf by blast
  have "io_log s6 = io_log s @ l1 @ reset_events (?io + UHCI_USBCMD) @ reset_polls (?io + UHCI_USBCMD) vs @ l2"
    using m6(3) l U(3) f(2) A(7) by simp
  moreover have "same_on (mem s) (mem s6) (?safe - (text_page \<union> ?B \<union> span 2 (hdr_command dev)))"
  proof (rule same_on_trans [OF same_on_mono [OF A(3)]])
    let ?S = "?safe - (text_page \<union> ?B \<union> span 2 (hdr_command dev))"
    have "same_on (mem s1) (mem ?s2) ?S" by (rule same_on_mono [OF b(7)]) (use A(15) in blast)
    moreover have "same_on (mem ?s2) (mem s3) ?S" using n(2) by (rule same_on_mono) simp
    moreover have "same_on (mem s3) (mem s5) ?S" by (rule same_on_mono [of _ _ "- (text_page \<union> ?B)"]) (use pf in blast)+
    moreover have "same_on (mem s5) (mem s6) ?S" by (rule same_on_mono [OF s6(3)]) blast
    ultimately show "same_on (mem s1) (mem s6) ?S" using same_on_trans by blast
  qed blast
  moreover have "int_handlers s6 = int_handlers s" "pending_queue s6 = pending_queue s"
    using m6(1,2) pf tk b(3,4) A(4,5) by simp_all
  ultimately show ?thesis using run s6(2) f(3) by blast
qed

end
