(* ===== verification/UhciInit.thy ===== *)
theory UhciInit
  imports UhciRun UhciReset
begin

text \<open>
  The initialisation of a UHCI controller whose ports have nothing new: it establishes what the
  transfers of \<open>UhciRun\<close> need, an empty queue the controller works on and the interrupt handler in
  its chain.
\<close>


section \<open>Steps that print and read registers\<close>

lemma prints_event: "prints W s0 s \<Longrightarrow> prints W s0 (log_event e s)"
proof (rule prints_trans, assumption)
  assume "prints W s0 s"
  then have "on_screen s" by (simp add: prints_def)
  then show "prints W s (log_event e s)"
    unfolding prints_def
    by (intro conjI exI [of _ "mem s"] exI [of _ "[e]"] exI [of _ "curs_row s"] exI [of _ "curs_col s"])
      (simp_all add: log_event_def on_screen_def)
qed

lemma prints_once:
  assumes p: "prints (span 64 (v_itoa_fixed env)) s0 s" and buf: "local_buffer 64 (v_itoa_fixed env)"
    and rest: "\<And>s1. prints (span 64 (v_itoa_fixed env)) s0 s1 \<Longrightarrow> \<exists>s'. g s1 = Some s' \<and> prints (span 64 (v_itoa_fixed env)) s0 s'"
  shows "\<exists>s'. (print_once env (uint (x :: u8)) 10 s \<bind> g) = Some s' \<and> prints (span 64 (v_itoa_fixed env)) s0 s'"
proof -
  have e: "print_once env val base s = print_number (v_itoa_fixed env) val base s" for val base
    by (simp add: print_once_def print_number_def itoa_once_def)
  show ?thesis unfolding e by (rule prints_number [OF p buf, of _ _ 3]) (use uint_bounded [of x] rest in auto)
qed

lemma find_ports_run:
  obtains n l where "uhci_find_ports hw dev s = (n, s\<lparr>io_log := io_log s @ l\<rparr>)" and "n \<le> 2"
proof -
  have two: "[0..<length ports] = [0, 1]" by (simp add: ports_def upt_rec)
  let ?p = "\<lambda>i. ld16 (ud_iobase dev) s + ports ! i"
  let ?v = "hw_inw hw (io_log s) (?p 0)"
  let ?w = "hw_inw hw (io_log s @ [InW (?p 0) ?v]) (?p 1)"
  define n :: u8 where "n = (if ?v AND UHCI_PORTSC_PORT_DETECT \<noteq> 0 then 1 else 0) + (if ?w AND UHCI_PORTSC_PORT_DETECT \<noteq> 0 then 1 else 0)"
  have "uhci_find_ports hw dev s = (n, s\<lparr>io_log := io_log s @ [InW (?p 0) ?v, InW (?p 1) ?w]\<rparr>)"
    unfolding uhci_find_ports_def two n_def by (simp add: uhci_read_16_def inw_def Let_def log_event_def)
  moreover have "n \<le> 2" by (simp add: n_def)
  ultimately show thesis by (rule that)
qed

text \<open>The loop over the ports, when none has a change to report.\<close>

definition no_change :: "hw \<Rightarrow> u16 \<Rightarrow> bool" where
  "no_change hw io \<longleftrightarrow> (\<forall>l. \<forall>port \<in> set ports. hw_inw hw l (io + port) AND UHCI_PORTSC_CONNECT_STATUS_CHG = 0)"

lemma prints_dev:
  assumes p: "prints (span 64 buf) s0 u" and dev: "span 20 dev \<inter> chatter buf = {}" "unat dev + 20 \<le> 4294967296"
  shows "ld16 (ud_iobase dev) u = ld16 (ud_iobase dev) s0" and "ld8 (ud_portnum dev) u = ld8 (ud_portnum dev) s0"
    and "ld32 (ud_pci_dev dev) u = ld32 (ud_pci_dev dev) s0" and "ld32 (ud_qh1ms dev) u = ld32 (ud_qh1ms dev) s0"
proof -
  have f: "same_on (mem s0) (mem u) (- chatter buf)" using p by (simp add: prints_def chatter_def)
  have "span 20 dev \<subseteq> - chatter buf" using dev(1) by blast
  from dev_same [OF f this dev(2)] show "ld16 (ud_iobase dev) u = ld16 (ud_iobase dev) s0" "ld8 (ud_portnum dev) u = ld8 (ud_portnum dev) s0"
    "ld32 (ud_pci_dev dev) u = ld32 (ud_pci_dev dev) s0" "ld32 (ud_qh1ms dev) u = ld32 (ud_qh1ms dev) s0" by simp_all
qed

lemma init_ports_idle:
  assumes io: "ld16 (ud_iobase dev) s0 = io" "ld8 (ud_portnum dev) s0 = n" and n: "n \<le> 2" and idle: "no_change (v_hw env) io"
    and buf: "local_buffer 64 (v_itoa_fixed env)" and dev: "span 20 dev \<inter> chatter (v_itoa_fixed env) = {}" "unat dev + 20 \<le> 4294967296"
  shows "i \<le> n \<Longrightarrow> prints (span 64 (v_itoa_fixed env)) s0 s \<Longrightarrow>
    \<exists>s'. init_ports env isr dev i s = Some s' \<and> prints (span 64 (v_itoa_fixed env)) s0 s'"
proof (induction "unat n - unat i" arbitrary: i s)
  let ?P = "prints (span 64 (v_itoa_fixed env)) s0"
  have keep: "ld16 (ud_iobase dev) u = io" "ld8 (ud_portnum dev) u = n" if "?P u" for u
    using prints_dev(1,2) [OF that dev] io by simp_all
  case 0
  then have "\<not> i < n" by (simp add: word_less_nat_alt)
  then show ?case using 0 keep [of s] by (subst init_ports.simps) simp
next
  let ?P = "prints (span 64 (v_itoa_fixed env)) s0"
  have keep: "ld16 (ud_iobase dev) u = io" "ld8 (ud_portnum dev) u = n" if "?P u" for u
    using prints_dev(1,2) [OF that dev] io by simp_all
  case (Suc k)
  have i: "i < n" using Suc.hyps(2) by (simp add: word_less_nat_alt)
  have i2: "unat i < 2" using i n by (simp add: word_less_nat_alt word_le_nat_alt)
  have i1: "unat (i + 1) = unat i + 1" using i2 by (simp add: unat_word_ariths)
  have IH: "\<exists>s'. init_ports env isr dev (i + 1) u = Some s' \<and> ?P s'" if "?P u" for u
    by (rule Suc.hyps(1)) (use Suc.hyps(2) i i1 that in \<open>auto simp: word_less_nat_alt word_le_nat_alt\<close>)
  let ?port = "ports ! unat i"
  let ?v = "hw_inw (v_hw env) (io_log s) (io + ?port)"
  let ?s1 = "log_event (InW (io + ?port) ?v) s"
  have "?port \<in> set ports" using i2 by (intro nth_mem) (simp add: ports_def)
  then have c: "?v AND UHCI_PORTSC_CONNECT_STATUS_CHG = 0" using idle by (simp add: no_change_def)
  have "init_ports env isr dev i s = print_once env (uint i) 10 (say ''Inactive port: '' ?s1) \<bind>
      (\<lambda>s. init_ports env isr dev (i + 1) (say ''\<newline>'' s))"
    using i c keep [OF Suc.prems(2)] by (subst init_ports.simps) (simp add: uhci_read_16_def inw_def Let_def)
  moreover have "\<exists>s'. (print_once env (uint i) 10 (say ''Inactive port: '' ?s1) \<bind> (\<lambda>s. init_ports env isr dev (i + 1) (say ''\<newline>'' s))) = Some s' \<and> ?P s'"
    by (rule prints_once [OF prints_text [OF prints_event [OF Suc.prems(2)]] buf]) (rule IH [OF prints_text])
  ultimately show ?case by simp
qed


section \<open>Starting the controller\<close>

text \<open>\<open>start_controller\<close> in three parts, around its allocations.\<close>

definition start_announce :: "uhci_env \<Rightarrow> u32 \<Rightarrow> 'a uhci_state_scheme \<Rightarrow> 'a uhci_state_scheme option" where
  "start_announce env p s = do {
     let (n, s) = uhci_find_ports (v_hw env) p s;
     let s = st8 (ud_portnum p) n s;
     let s = uhci_write_16 p UHCI_USBINTR
       (UHCI_USBINTR_SHORT_PKT_INT OR UHCI_USBINTR_INT_ON_COMPLETE OR UHCI_USBINTR_RESUME_INT OR
        UHCI_USBINTR_CRC_TIMEOUT_INT) s;
     let s = uhci_write_16 p UHCI_USBCMD (UHCI_USBCMD_MAX_PKT_SIZE OR UHCI_USBCMD_RUN) s;
     let s = say ''UHCI init OK\<newline>'' s;
     let s = say ''UHCI INT line: '' s;
     s \<leftarrow> print_once env (uint (ld8 (hdr_interrupt_line (ld32 (ud_pci_dev p) s)) s)) 10 s;
     Some (say ''\<newline>'' s)
   }"

definition start_prefix :: "uhci_env \<Rightarrow> u32 \<Rightarrow> 'a uhci_state_scheme \<Rightarrow> 'a uhci_state_scheme option" where
  "start_prefix env p s = uhci_init_frame_list p s \<bind> start_announce env p"

definition start_rest :: "uhci_env \<Rightarrow> 'a isr \<Rightarrow> u32 \<Rightarrow> u32 \<Rightarrow> 'a uhci_state_scheme \<Rightarrow> 'a uhci_state_scheme option" where
  "start_rest env isr p h s = do {
     let s = st32 (h_handler h) (v_uhci_isr env) s;
     let s = st32 (h_userdata h) p s;
     s \<leftarrow> idt_reg_handler (ld8 (hdr_interrupt_line (ld32 (ud_pci_dev p) s)) s + 32) h s;
     let s = say ''UHCI portnum: '' s;
     s \<leftarrow> print_once env (uint (ld8 (ud_portnum p) s)) 10 s;
     init_ports env isr p 0 (say ''\<newline>'' s)
   }"

lemma start_controller_eq:
  "start_controller env isr p s =
     start_prefix env p s \<bind> (\<lambda>s. memalloc sizeof_idt_int_handler s \<bind> (\<lambda>(h, s). start_rest env isr p h s))"
  unfolding start_controller_def start_prefix_def start_announce_def start_rest_def Let_def
  by (cases "uhci_init_frame_list p s") (simp_all add: split_def)

text \<open>Where the structures are: \<open>p\<close> is the \<open>uhci_dev\<close>, \<open>pd\<close> the PCI device, \<open>fb\<close> what its field that
  nothing has initialised points to.\<close>

definition init_layout :: "uhci_env \<Rightarrow> nat \<Rightarrow> nat \<Rightarrow> live \<Rightarrow> u32 \<Rightarrow> u32 \<Rightarrow> u32 \<Rightarrow> u32 \<Rightarrow> bool" where
  "init_layout env lo hi L p pd int_h fb \<longleftrightarrow>
     local_buffer 64 (v_itoa_fixed env) \<and> unat (v_done env) \<notin> chatter (v_itoa_fixed env) \<and>
     (chatter (v_itoa_fixed env) \<union> {unat (v_done env)}) \<inter> {lo..<hi} = {} \<and>
     span 20 p \<subseteq> payload L \<and> unat p + 20 \<le> 4294967296 \<and>
     span 68 pd \<subseteq> owned L \<union> - {lo..<hi} \<and> unat pd + 68 \<le> 4294967296 \<and>
     span 68 pd \<inter> (span 20 p \<union> span 4 fb \<union> chatter (v_itoa_fixed env)) = {} \<and>
     node_ok int_h \<and> node int_h \<subseteq> owned L \<union> - {lo..<hi} \<and>
     node int_h \<inter> (span 20 p \<union> span 4 fb \<union> chatter (v_itoa_fixed env) \<union> {unat (v_done env)}) = {} \<and>
     span 4 fb \<inter> {lo..<hi} = {} \<and> unat fb + 4 \<le> 4294967296"

lemma start_announce_run:
  fixes s :: "'a uhci_state_scheme"
  assumes on: "on_screen s" and buf: "local_buffer 64 (v_itoa_fixed env)"
    and p: "unat p + 20 \<le> 4294967296" "span 20 p \<inter> chatter (v_itoa_fixed env) = {}"
  obtains s' n where "start_announce env p s = Some s'" and "on_screen s'" and "ld8 (ud_portnum p) s' = n" and "n \<le> 2"
    and "ld16 (ud_iobase p) s' = ld16 (ud_iobase p) s" and "ld32 (ud_pci_dev p) s' = ld32 (ud_pci_dev p) s"
    and "ld32 (ud_qh1ms p) s' = ld32 (ud_qh1ms p) s" and "free_block_head s' = free_block_head s"
    and "int_handlers s' = int_handlers s" and "pending_queue s' = pending_queue s"
    and "same_on (mem s) (mem s') (- ({unat (ud_portnum p)} \<union> chatter (v_itoa_fixed env)))"
proof -
  let ?c = "chatter (v_itoa_fixed env)" and ?P = "span 64 (v_itoa_fixed env)"
  obtain n l' where fp: "uhci_find_ports (v_hw env) p s = (n, s\<lparr>io_log := io_log s @ l'\<rparr>)" "n \<le> 2" by (rule find_ports_run)
  let ?s2 = "st8 (ud_portnum p) n (s\<lparr>io_log := io_log s @ l'\<rparr>)"
  note ua = dev_offsets [OF p(1)]
  have f2: "same_on (mem s) (mem ?s2) (- {unat (ud_portnum p)})" by (simp add: same_on_store8)
  let ?s3 = "uhci_write_16 p UHCI_USBCMD (UHCI_USBCMD_MAX_PKT_SIZE OR UHCI_USBCMD_RUN)
     (uhci_write_16 p UHCI_USBINTR (UHCI_USBINTR_SHORT_PKT_INT OR UHCI_USBINTR_INT_ON_COMPLETE OR UHCI_USBINTR_RESUME_INT OR
        UHCI_USBINTR_CRC_TIMEOUT_INT) ?s2)"
  have m3: "mem ?s3 = mem ?s2" "on_screen ?s3" "int_handlers ?s3 = int_handlers s" "pending_queue ?s3 = pending_queue s"
    "free_block_head ?s3 = free_block_head s"
    using on by (simp_all add: uhci_write_16_def outw_def log_event_def on_screen_def st8_def)
  let ?s4 = "say ''UHCI INT line: '' (say ''UHCI init OK\<newline>'' ?s3)"
  have p4: "prints ?P ?s3 ?s4" by (rule prints_text [OF prints_text [OF prints_refl [OF m3(2)]]])
  have "\<exists>s'. (print_once env (uint (ld8 (hdr_interrupt_line (ld32 (ud_pci_dev p) ?s4)) ?s4)) 10 ?s4 \<bind> (\<lambda>s. Some (say ''\<newline>'' s))) = Some s' \<and>
      prints ?P ?s3 s'"
    by (rule prints_once [OF p4 buf]) (use prints_text in blast)
  then obtain s' where p5: "print_once env (uint (ld8 (hdr_interrupt_line (ld32 (ud_pci_dev p) ?s4)) ?s4)) 10 ?s4 \<bind> (\<lambda>s. Some (say ''\<newline>'' s)) = Some s'"
    "prints ?P ?s3 s'" by blast
  have run: "start_announce env p s = Some s'"
    unfolding start_announce_def Let_def using fp(1) p5(1) by simp
  note pf = prints_fields [OF p5(2)]
  note pd = prints_dev [OF p5(2) p(2,1)]
  have d: "ld16 (ud_iobase p) ?s2 = ld16 (ud_iobase p) s" "ld32 (ud_pci_dev p) ?s2 = ld32 (ud_pci_dev p) s"
    "ld32 (ud_qh1ms p) ?s2 = ld32 (ud_qh1ms p) s"
  proof -
    show "ld16 (ud_iobase p) ?s2 = ld16 (ud_iobase p) s"
      by (rule load16_same [OF f2]) (use ua p(1) in \<open>auto simp: ud_iobase_def\<close>)
    show "ld32 (ud_pci_dev p) ?s2 = ld32 (ud_pci_dev p) s" "ld32 (ud_qh1ms p) ?s2 = ld32 (ud_qh1ms p) s"
      by (rule load32_span [OF f2]; use ua p(1) in \<open>auto simp: span_def\<close>)+
  qed
  have m3': "ld16 a ?s3 = ld16 a ?s2" "ld32 a ?s3 = ld32 a ?s2" "ld8 a ?s3 = ld8 a ?s2" for a by (simp_all only: m3(1))
  have "same_on (mem ?s2) (mem s') (- ?c)" using pf m3(1) by (simp add: chatter_def)
  then have f: "same_on (mem s) (mem s') (- ({unat (ud_portnum p)} \<union> ?c))"
    by (intro same_on_trans [OF same_on_mono [OF f2] same_on_mono]) auto
  show thesis
  proof (rule that [OF run _ _ fp(2) _ _ _ _ _ _ f])
    show "ld8 (ud_portnum p) s' = n" unfolding pd(2) m3' by simp
    show "ld32 (ud_qh1ms p) s' = ld32 (ud_qh1ms p) s" unfolding pd(4) m3' by (rule d)
    show "ld16 (ud_iobase p) s' = ld16 (ud_iobase p) s" unfolding pd(1) m3' by (rule d)
    show "ld32 (ud_pci_dev p) s' = ld32 (ud_pci_dev p) s" unfolding pd(3) m3' by (rule d)
  qed (use pf m3 in simp_all)
qed

lemma start_prefix_run:
  fixes s :: "'a uhci_state_scheme"
  assumes hp: "heap_inv lo hi s L" and on: "on_screen s"
    and lay: "init_layout env lo hi L p pd int_h fb" and pd: "pd = ld32 (ud_pci_dev p) s" and fb: "fb = ld32 (ud_frame_list_base p) s"
    and al: "memalloc_aligned 4096 4096 s = Some (fl, u1)" "fl \<noteq> 0" "memalloc_aligned sizeof_queue_head 16 u1 = Some (qh, u2)" "qh \<noteq> 0"
  obtains s' L' n where "start_prefix env p s = Some s'" and "heap_inv lo hi s' L'" and "on_screen s'"
    and "\<forall>q r. L q = Some r \<longrightarrow> L' q = Some r" and "span 8 qh \<subseteq> payload L'" and "span 8 qh \<inter> (owned L \<union> - {lo..<hi}) = {}"
    and "unat qh + 8 \<le> 4294967296" and "ld32 (ud_qh1ms p) s' = qh" and "ld32 (qh_qelp qh) s' = 1"
    and "ld8 (ud_portnum p) s' = n" and "n \<le> 2" and "ld16 (ud_iobase p) s' = ld16 (ud_iobase p) s" and "ld32 (ud_pci_dev p) s' = pd"
    and "int_handlers s' = int_handlers s" and "pending_queue s' = pending_queue s"
    and "same_on (mem s) (mem s') ((owned L \<union> - {lo..<hi}) - (span 20 p \<union> span 4 fb \<union> chatter (v_itoa_fixed env)))"
    and "\<forall>bs. heap_ok lo hi u2 bs \<longrightarrow> heap_ok lo hi s' bs"
proof -
  let ?c = "chatter (v_itoa_fixed env)"
  have l: "local_buffer 64 (v_itoa_fixed env)" "span 20 p \<subseteq> payload L" "unat p + 20 \<le> 4294967296" "span 4 fb \<inter> {lo..<hi} = {}"
    "unat fb + 4 \<le> 4294967296" "?c \<inter> {lo..<hi} = {}"
    using lay unfolding init_layout_def Int_Un_distrib2 Un_empty by simp_all
  have pin: "span 20 p \<subseteq> (owned L \<inter> payload L) \<union> - {lo..<hi}" "span 20 p \<subseteq> {lo..<hi}"
    using l(2) payload_owned [OF hp] heap_range(1) [OF hp] by blast+
  have fbp: "span 4 fb \<inter> ({lo..<hi} \<union> span 20 p) = {}" using l(4) pin(2) by blast
  have pc: "span 20 p \<inter> ?c = {}" using pin(2) l(6) by blast
  obtain s1 a e b f where F: "uhci_init_frame_list p s = Some s1" "ld32 (ud_qh1ms p) s1 = qh" "ld32 (qh_qelp qh) s1 = 1"
    "heap_inv lo hi s1 (L(fl \<mapsto> (a, e), qh \<mapsto> (b, f)))" "unat qh + 8 \<le> f" "L fl = None" "L qh = None" "fl \<noteq> qh"
    "heap_state.more s1 = heap_state.more s"
    "\<forall>bs. heap_ok lo hi u2 bs \<longrightarrow> heap_ok lo hi s1 bs"
    "same_on (mem s) (mem s1) ((owned L \<union> - {lo..<hi}) - (span 4 (ud_qh1ms p) \<union> span 4 fb))"
    using init_frame_list_run [OF hp pin(1) l(3) fb fbp l(5)] al by auto
  let ?L = "L(fl \<mapsto> (a, e), qh \<mapsto> (b, f))"
  have mono: "?L q = Some r" if "L q = Some r" for q r using that F(6,7) by auto
  have Lq: "?L qh = Some (b, f)" by simp
  note rq = heap_inv_range [OF F(4) Lq] and hr = heap_range [OF F(4)]
  have qb: "span 8 qh \<subseteq> {b..<f}" "unat qh + 8 \<le> 4294967296" using rq F(5) hr(2) by (auto simp: span_def)
  have qp: "span 8 qh \<subseteq> payload ?L"
  proof
    fix x assume "x \<in> span 8 qh"
    then have "unat qh \<le> x" "x < f" using F(5) by (auto simp: span_def)
    then show "x \<in> payload ?L" unfolding payload_def using Lq by blast
  qed
  have "owned L \<subseteq> owned (?L(qh := None))" by (rule live_mono(1)) (use F(6,7) in auto)
  moreover have "{b..<f} \<subseteq> {lo..<hi}" using rq(1,2) by auto
  ultimately have qoff: "span 8 qh \<inter> (owned L \<union> - {lo..<hi}) = {}" using block_apart [OF F(4) Lq] qb(1) by blast
  note m1 = more_eq [OF F(9)]
  have on1: "on_screen s1" using on m1 by (simp add: on_screen_def)
  obtain s' n where A: "start_announce env p s1 = Some s'" "on_screen s'" "ld8 (ud_portnum p) s' = n" "n \<le> 2"
    "ld16 (ud_iobase p) s' = ld16 (ud_iobase p) s1" "ld32 (ud_pci_dev p) s' = ld32 (ud_pci_dev p) s1"
    "ld32 (ud_qh1ms p) s' = ld32 (ud_qh1ms p) s1" "free_block_head s' = free_block_head s1"
    "int_handlers s' = int_handlers s1" "pending_queue s' = pending_queue s1"
    "same_on (mem s1) (mem s') (- ({unat (ud_portnum p)} \<union> ?c))"
    by (rule start_announce_run [OF on1 l(1,3) pc])
  note ua = dev_offsets [OF l(3)]
  have pn: "unat (ud_portnum p) \<in> span 20 p" "span 4 (ud_qh1ms p) \<subseteq> span 20 p" by (auto simp: ua span_def)
  have w: "same_on (mem s1) (mem s') ({lo..<hi} - payload ?L)"
  proof (rule same_on_mono [OF A(11)])
    have "unat (ud_portnum p) \<in> payload ?L" using pn(1) l(2) live_mono(2) [of L ?L, OF mono] by blast
    then show "{lo..<hi} - payload ?L \<subseteq> - ({unat (ud_portnum p)} \<union> ?c)" using l(6) by blast
  qed
  have inv': "heap_inv lo hi s' ?L" by (rule write_outcome [OF F(4) w A(8)])
  have fr: "\<forall>bs. heap_ok lo hi u2 bs \<longrightarrow> heap_ok lo hi s' bs" using F(10) write_keeps_free [OF F(4) w A(8)] by blast
  have k: "span 2 p \<union> span 4 (ud_pci_dev p) \<subseteq> (owned L \<union> - {lo..<hi}) - (span 4 (ud_qh1ms p) \<union> span 4 fb)"
  proof -
    have "span 2 p \<union> span 4 (ud_pci_dev p) \<subseteq> span 20 p" "(span 2 p \<union> span 4 (ud_pci_dev p)) \<inter> span 4 (ud_qh1ms p) = {}"
      by (auto simp: ua span_def)
    then show ?thesis using pin(1) fbp by blast
  qed
  have d0: "ld16 (ud_iobase p) s1 = ld16 (ud_iobase p) s" "ld32 (ud_pci_dev p) s1 = pd"
  proof -
    show "ld16 (ud_iobase p) s1 = ld16 (ud_iobase p) s"
      by (rule load16_same [OF F(11)]) (use k l(3) in \<open>auto simp: ud_iobase_def span_def\<close>)
    have "span 4 (ud_pci_dev p) \<subseteq> (owned L \<union> - {lo..<hi}) - (span 4 (ud_qh1ms p) \<union> span 4 fb)" using k by simp
    from load32_span [OF F(11) this] show "ld32 (ud_pci_dev p) s1 = pd" using ua l(3) pd by simp
  qed
  have qe: "ld32 (qh_qelp qh) s' = 1"
  proof -
    have q4: "span 4 (qh_qelp qh) \<subseteq> span 8 qh" "unat (qh_qelp qh) + 4 \<le> 4294967296"
      using span_field [OF qb(2), of 4 4] by (simp_all add: qh_qelp_def)
    have "unat (ud_portnum p) \<in> owned L" using pn(1) l(2) payload_owned [OF hp] by blast
    moreover have "?c \<subseteq> - {lo..<hi}" using l(6) by blast
    ultimately have "{unat (ud_portnum p)} \<union> ?c \<subseteq> owned L \<union> - {lo..<hi}" by blast
    then have "span 4 (qh_qelp qh) \<subseteq> - ({unat (ud_portnum p)} \<union> ?c)" using qoff q4(1) by blast
    from load32_span [OF A(11) this q4(2)] show ?thesis using F(3) by simp
  qed
  have frame: "same_on (mem s) (mem s') ((owned L \<union> - {lo..<hi}) - (span 20 p \<union> span 4 fb \<union> ?c))"
    by (rule same_on_trans [OF same_on_mono [OF F(11)] same_on_mono [OF A(11)]]) (use pn in blast)+
  have run: "start_prefix env p s = Some s'" using F(1) A(1) by (simp add: start_prefix_def)
  show thesis
  proof (rule that [OF run inv' A(2) _ qp qoff qb(2) _ qe A(3,4) _ _ _ _ frame fr])
    show "\<forall>q r. L q = Some r \<longrightarrow> ?L q = Some r" using mono by blast
  qed (use A d0 F(2) m1 in simp_all)
qed

text \<open>The handler node: filled, registered as the only handler of its interrupt.\<close>

lemma register_isr_run:
  fixes s :: "'a uhci_state_scheme"
  assumes h: "node_ok h" and n: "unat n < max_isr_cnt" "int_handlers s ! unat n = 0" "length (int_handlers s) = max_isr_cnt"
  obtains s' where "idt_reg_handler n h (st32 (h_userdata h) p (st32 (h_handler h) f s)) = Some s'"
    and "ld32 (h_handler h) s' = f" and "ld32 (h_userdata h) s' = p" and "same_on (mem s) (mem s') (- node h)"
    and "int_handlers s' = (int_handlers s)[unat n := h]" and "free_block_head s' = free_block_head s"
    and "pending_queue s' = pending_queue s" and "on_screen s' = on_screen s" and "io_log s' = io_log s"
proof -
  let ?s = "st32 (h_userdata h) p (st32 (h_handler h) f s)"
  let ?s' = "(st32 (h_next h) 0 ?s)\<lparr>int_handlers := (int_handlers s)[unat n := h]\<rparr>"
  have run: "idt_reg_handler n h ?s = Some ?s'" using n(1,2) by (simp add: idt_reg_handler_def Let_def)
  note a = handler_fields(1,2) [OF h] h_next_range [OF h]
  have v: "ld32 (h_handler h) ?s' = f" "ld32 (h_userdata h) ?s' = p"
    using handler_fields(3) [OF h] by (simp_all add: load32_store32_other a)
  have w: "same_on m (store32 m q x) (- node h)" if "q = h_handler h \<or> q = h_userdata h \<or> q = h_next h" for q x m
    using that a h by (auto intro!: same_on_store32 simp: span_def span_ok_def)
  have "same_on (mem s) (mem ?s') (- node h)"
    by simp (intro same_on_trans [OF w same_on_trans [OF w w]]; simp)
  then show thesis
    by (rule that [OF run v]) (simp_all add: st32_def on_screen_def)
qed

text \<open>The handler node is allocated and registered at the line of the PCI device.\<close>

lemma hook_run:
  fixes s :: "'a uhci_state_scheme"
  assumes hp: "heap_inv lo hi s L" and al: "memalloc sizeof_idt_int_handler s = Some (h, u)" "h \<noteq> 0" and w: "w = st32 (h_userdata h) p (st32 (h_handler h) f u)"
    and on: "on_screen s" and p: "span 20 p \<subseteq> owned L \<union> - {lo..<hi}" "unat p + 20 \<le> 4294967296"
    and pd: "pd = ld32 (ud_pci_dev p) s" "span 68 pd \<subseteq> owned L \<union> - {lo..<hi}" "unat pd + 68 \<le> 4294967296"
    and n: "n = ld8 (hdr_interrupt_line pd) s + 32" "unat n < max_isr_cnt" "int_handlers s ! unat n = 0" "length (int_handlers s) = max_isr_cnt"
  obtains s' a e where "idt_reg_handler (ld8 (hdr_interrupt_line (ld32 (ud_pci_dev p) w)) w + 32) h w = Some s'"
    and "heap_inv lo hi s' (L(h \<mapsto> (a, e)))" and "L h = None" and "node_ok h" and "node h \<subseteq> payload (L(h \<mapsto> (a, e)))"
    and "node h \<inter> (owned L \<union> - {lo..<hi}) = {}" and "same_on (mem s) (mem s') (owned L \<union> - {lo..<hi})"
    and "ld32 (h_handler h) s' = f" and "ld32 (h_userdata h) s' = p"
    and "int_handlers s' = (int_handlers s)[unat n := h]" and "pending_queue s' = pending_queue s" and "on_screen s'"
proof -
  obtain a e where H: "a + 8 \<le> unat h" "unat h + unat sizeof_idt_int_handler \<le> e" "{a..<e} \<inter> owned L = {}" "L h = None"
    "heap_inv lo hi u (L(h \<mapsto> (a, e)))" "same_on (mem s) (mem u) (owned L \<union> - {lo..<hi})" "only_heap s u" "{a..<e} \<subseteq> {lo..<hi}"
    by (rule alloc_known [OF hp al])
  let ?L = "L(h \<mapsto> (a, e))"
  have room: "unat h + 12 \<le> e" using H(2) by (simp add: sizeof_idt_int_handler_def)
  have "e \<le> hi" using heap_inv_range(2) [OF H(5), of h a e] by simp
  then have hok: "node_ok h" using al(2) room heap_range(2) [OF hp] by (simp add: span_ok_def)
  have hin: "node h \<subseteq> {a..<e}" using H(1) room by (auto simp: span_def)
  have hoff: "node h \<inter> (owned L \<union> - {lo..<hi}) = {}" using hin H(3,8) by blast
  have hpay: "node h \<subseteq> payload ?L" using room unfolding payload_def span_def by fastforce
  have m: "int_handlers u = int_handlers s" "pending_queue u = pending_queue s" "on_screen u"
    using more_eq [of u s] H(7) on by (simp_all add: only_heap_def on_screen_def)
  obtain s' where R: "idt_reg_handler n h w = Some s'" "ld32 (h_handler h) s' = f" "ld32 (h_userdata h) s' = p"
    "same_on (mem u) (mem s') (- node h)" "int_handlers s' = (int_handlers s)[unat n := h]" "free_block_head s' = free_block_head u"
    "pending_queue s' = pending_queue s" "on_screen s'"
    unfolding w by (rule register_isr_run [OF hok n(2), of u p "f"]) (use n(3,4) m in simp_all)
  have fr: "same_on (mem s) (mem s') (owned L \<union> - {lo..<hi})"
    by (rule same_on_trans [OF H(6) same_on_mono [OF R(4)]]) (use hoff in blast)
  have inv: "heap_inv lo hi s' ?L"
    by (rule write_outcome [OF H(5) same_on_mono [OF R(4)] R(6)]) (use hpay in blast)
  have "same_on (mem u) (mem w) (- node h)"
    unfolding w mem_st by (rule same_on_trans [OF same_on_store32 same_on_store32])
      (use handler_fields [OF hok] in \<open>auto simp: span_def\<close>)
  then have fw: "same_on (mem s) (mem w) (owned L \<union> - {lo..<hi})"
    using hoff by (intro same_on_trans [OF H(6) same_on_mono]) blast+
  have "unat (hdr_interrupt_line pd) \<in> span 68 pd" using pd(3) by (simp add: hdr_interrupt_line_def unat_add_u32 span_def)
  then have "ld8 (hdr_interrupt_line (ld32 (ud_pci_dev p) w)) w + 32 = n"
    using dev_same(3) [OF fw p] load8_same [OF fw, of "hdr_interrupt_line pd"] pd(1,2) n(1) by auto
  then show thesis using that [OF _ inv H(4) hok hpay hoff fr R(2,3,5,7,8)] R(1) by simp
qed

text \<open>The ports have nothing to report: what is left only prints.\<close>

lemma ports_run:
  fixes s :: "'a uhci_state_scheme"
  assumes "on_screen s" and buf: "local_buffer 64 (v_itoa_fixed env)"
    and n: "ld8 (ud_portnum p) s \<le> 2" "no_change (v_hw env) (ld16 (ud_iobase p) s)"
    and p: "span 20 p \<inter> chatter (v_itoa_fixed env) = {}" "unat p + 20 \<le> 4294967296"
  shows "\<exists>s'. (print_once env (uint (ld8 (ud_portnum p) (say ''UHCI portnum: '' s))) 10 (say ''UHCI portnum: '' s) \<bind>
      (\<lambda>s. init_ports env isr p 0 (say ''\<newline>'' s))) = Some s' \<and> prints (span 64 (v_itoa_fixed env)) s s'"
proof (rule prints_once [OF prints_text [OF prints_refl [OF assms(1)]] buf])
  fix u assume "prints (span 64 (v_itoa_fixed env)) s u"
  from init_ports_idle [OF refl refl n buf p _ prints_text [OF this]]
  show "\<exists>s'. init_ports env isr p 0 (say ''\<newline>'' u) = Some s' \<and> prints (span 64 (v_itoa_fixed env)) s s'" by simp
qed

text \<open>The layout a transfer needs, from that of the initialisation.\<close>

lemma started_layout:
  assumes lay: "init_layout env lo hi L p pd int_h fb" and inv: "heap_inv lo hi s L" "heap_inv lo hi s1 L1" "heap_inv lo hi s2 L2"
    and mono: "owned L \<subseteq> owned L1" "owned L1 \<subseteq> owned L2" "payload L1 \<subseteq> payload L2"
    and qh: "span 8 qh \<subseteq> payload L1" "span 8 qh \<inter> (owned L \<union> - {lo..<hi}) = {}" "unat qh + 8 \<le> 4294967296"
    and h: "node h \<subseteq> payload L2" "node h \<inter> (owned L1 \<union> - {lo..<hi}) = {}"
  shows "usb_layout env lo hi L2 p qh (node int_h \<union> node h)"
  unfolding usb_layout_def
proof (intro conjI)
  let ?c = "chatter (v_itoa_fixed env)" and ?d = "unat (v_done env)"
  have l: "local_buffer 64 (v_itoa_fixed env)" "?d \<notin> ?c" "(?c \<union> {?d}) \<inter> {lo..<hi} = {}" "span 20 p \<subseteq> payload L" "unat p + 20 \<le> 4294967296"
    "node int_h \<subseteq> owned L \<union> - {lo..<hi}" "node int_h \<inter> (span 20 p \<union> span 4 fb \<union> ?c \<union> {?d}) = {}"
    using lay by (simp_all only: init_layout_def not_False_eq_True)
  have qf: "span 4 (qh_qelp qh) \<subseteq> span 8 qh" "unat (qh_qelp qh) + 4 \<le> 4294967296"
    using span_field [OF qh(3), of 4 4] by (simp_all add: qh_qelp_def)
  have i: "node int_h \<union> span 20 p \<subseteq> owned L \<union> - {lo..<hi}" "span 20 p \<subseteq> {lo..<hi}" "node h \<subseteq> {lo..<hi}" "span 8 qh \<subseteq> owned L1"
    using l(4,6) qh(1) h(2) payload_owned [OF inv(1)] payload_owned [OF inv(2)] heap_range(1) [OF inv(1)] by blast+
  show "node int_h \<union> node h \<union> span 20 p \<subseteq> owned L2 \<union> - {lo..<hi}"
    using i(1) mono(1,2) h(1) payload_owned [OF inv(3)] by blast
  show "span 4 (qh_qelp qh) \<subseteq> payload L2 \<union> - {lo..<hi}" using qf(1) qh(1) mono(3) by blast
  have k1: "node int_h \<inter> (?c \<union> {?d}) = {}" using l(7) by blast
  have k2: "(node h \<union> span 20 p) \<inter> (?c \<union> {?d}) = {}" using i(2,3) l(3) by blast
  have k3: "(node int_h \<union> span 20 p) \<inter> span 8 qh = {}" using i(1) qh(2) by blast
  have k4: "node h \<inter> span 8 qh = {}" using h(2) i(4) by blast
  have k5: "(node int_h \<union> node h \<union> span 20 p) \<inter> span 4 (qh_qelp qh) = {}" using k3 k4 qf(1) by blast
  have k6: "(node int_h \<union> node h \<union> span 20 p) \<inter> (?c \<union> {?d}) = {}" using k1 k2 by (simp only: Int_Un_distrib2 Un_empty)
  show "(node int_h \<union> node h \<union> span 20 p) \<inter> (?c \<union> {?d} \<union> span 4 (qh_qelp qh)) = {}"
    using k5 k6 by (simp only: Int_Un_distrib [of _ "?c \<union> {?d}"] Un_empty)
  show "(?c \<union> {?d}) \<inter> span 4 (qh_qelp qh) = {}"
    using i(4) heap_range(1) [OF inv(2)] l(3) qf(1) by blast
  show "buffer_ok (v_itoa_fixed env)" "?d \<notin> ?c" "(?c \<union> {?d}) \<inter> {lo..<hi} = {}" "unat p + 20 \<le> 4294967296" "unat (qh_qelp qh) + 4 \<le> 4294967296"
    using l qf(2) by (simp_all add: local_buffer_def buffer_ok_def)
qed

text \<open>The timer keeps its handler when another interrupt gets one.\<close>

lemma timer_inv_hooked:
  assumes tm: "timer_inv isr int_h s" and ok: "node_ok int_h" and same: "same_on (mem s) (mem s') (node int_h)"
    and hooked: "int_handlers s' = (int_handlers s)[unat n := h]" "int_handlers s ! unat n = 0"
  shows "timer_inv isr int_h s'"
proof -
  have "timer_inv isr int_h (s\<lparr>mem := mem s'\<rparr>)" by (rule timer_inv_dma [OF tm same ok])
  moreover have "int_handlers s ! 32 \<noteq> 0" using tm by (auto simp: timer_inv_def)
  then have "unat n \<noteq> 32" using hooked(2) by auto
  ultimately show ?thesis using hooked(1) by (simp add: timer_inv_def)
qed

lemma start_controller_run:
  fixes s :: "'a uhci_state_scheme"
  assumes hp: "heap_inv lo hi s L" and on: "on_screen s" and pq: "pending_queue s = 0" and tm: "timer_inv pit_isr int_h s"
    and lay: "init_layout env lo hi L p pd int_h fb" and pd: "pd = ld32 (ud_pci_dev p) s" and fb: "fb = ld32 (ud_frame_list_base p) s"
    and al: "memalloc_aligned 4096 4096 s = Some (fl, u1)" "fl \<noteq> 0" "memalloc_aligned sizeof_queue_head 16 u1 = Some (qh, u2)" "qh \<noteq> 0"
    and alh: "start_prefix env p s = Some u3" "memalloc sizeof_idt_int_handler u3 = Some (h, u4)" "h \<noteq> 0"
    and n: "n = ld8 (hdr_interrupt_line pd) s + 32" "unat n < max_isr_cnt" "int_handlers s ! unat n = 0" "length (int_handlers s) = max_isr_cnt"
    and idle: "no_change (v_hw env) (ld16 (ud_iobase p) s)"
  shows "\<exists>s' L'. start_controller env isr p s = Some s' \<and> (\<forall>q r. L q = Some r \<longrightarrow> L' q = Some r) \<and>
    usb_ready env lo hi L' p (node int_h \<union> node h) s' \<and> timer_inv pit_isr int_h s' \<and> node_ok h \<and>
    int_handlers s' = (int_handlers s)[unat n := h] \<and> ld32 (h_handler h) s' = v_uhci_isr env \<and> ld32 (h_userdata h) s' = p \<and>
    node h \<union> span 20 p \<union> span 4 (qh_qelp (ld32 (ud_qh1ms p) s')) \<subseteq> {lo..<hi}"
proof -
  let ?c = "chatter (v_itoa_fixed env)" and ?P = "span 64 (v_itoa_fixed env)" and ?d = "unat (v_done env)"
  obtain s1 L1 pn where A: "start_prefix env p s = Some s1" "heap_inv lo hi s1 L1" "on_screen s1"
    "\<forall>q r. L q = Some r \<longrightarrow> L1 q = Some r" "span 8 qh \<subseteq> payload L1" "span 8 qh \<inter> (owned L \<union> - {lo..<hi}) = {}"
    "unat qh + 8 \<le> 4294967296" "ld32 (ud_qh1ms p) s1 = qh" "ld32 (qh_qelp qh) s1 = 1" "ld8 (ud_portnum p) s1 = pn" "pn \<le> 2"
    "ld16 (ud_iobase p) s1 = ld16 (ud_iobase p) s" "ld32 (ud_pci_dev p) s1 = pd" "int_handlers s1 = int_handlers s"
    "pending_queue s1 = pending_queue s" "same_on (mem s) (mem s1) ((owned L \<union> - {lo..<hi}) - (span 20 p \<union> span 4 fb \<union> ?c))"
    "\<forall>bs. heap_ok lo hi u2 bs \<longrightarrow> heap_ok lo hi s1 bs"
    by (rule start_prefix_run [OF hp on lay pd fb al])
  have u3: "u3 = s1" using alh(1) A(1) by simp
  have l: "local_buffer 64 (v_itoa_fixed env)" "(?c \<union> {?d}) \<inter> {lo..<hi} = {}" "span 20 p \<subseteq> payload L" "unat p + 20 \<le> 4294967296"
    "span 68 pd \<subseteq> owned L \<union> - {lo..<hi}" "unat pd + 68 \<le> 4294967296" "span 68 pd \<inter> (span 20 p \<union> span 4 fb \<union> ?c) = {}"
    "node_ok int_h" "node int_h \<subseteq> owned L \<union> - {lo..<hi}" "node int_h \<inter> (span 20 p \<union> span 4 fb \<union> ?c \<union> {?d}) = {}"
    using lay by (simp_all only: init_layout_def not_False_eq_True)
  have own: "owned L \<subseteq> owned L1" by (rule live_mono(1)) (use A(4) in auto)
  note hr = heap_range [OF hp] and po = payload_owned [OF hp]
  have p1: "span 20 p \<subseteq> owned L1 \<union> - {lo..<hi}" "span 20 p \<inter> ?c = {}" "span 68 pd \<subseteq> owned L1 \<union> - {lo..<hi}" "span 20 p \<subseteq> {lo..<hi}"
    using l(2,3,5) po own hr(1) by blast+
  have "unat (hdr_interrupt_line pd) \<in> span 68 pd" using l(6) by (simp add: hdr_interrupt_line_def unat_add_u32 span_def)
  then have "ld8 (hdr_interrupt_line pd) s1 = ld8 (hdr_interrupt_line pd) s" by (intro load8_same [OF A(16)]) (use l(5,7) in blast)
  then have n1: "n = ld8 (hdr_interrupt_line pd) s1 + 32" using n(1) by simp
  obtain s5 a e where R: "idt_reg_handler (ld8 (hdr_interrupt_line (ld32 (ud_pci_dev p) (st32 (h_userdata h) p (st32 (h_handler h) (v_uhci_isr env) u4))))
      (st32 (h_userdata h) p (st32 (h_handler h) (v_uhci_isr env) u4)) + 32) h (st32 (h_userdata h) p (st32 (h_handler h) (v_uhci_isr env) u4)) = Some s5"
    "heap_inv lo hi s5 (L1(h \<mapsto> (a, e)))" "L1 h = None" "node_ok h" "node h \<subseteq> payload (L1(h \<mapsto> (a, e)))"
    "node h \<inter> (owned L1 \<union> - {lo..<hi}) = {}" "same_on (mem s1) (mem s5) (owned L1 \<union> - {lo..<hi})"
    "ld32 (h_handler h) s5 = v_uhci_isr env" "ld32 (h_userdata h) s5 = p"
    "int_handlers s5 = (int_handlers s1)[unat n := h]" "pending_queue s5 = pending_queue s1" "on_screen s5"
    by (rule hook_run [OF A(2) alh(2) [unfolded u3] alh(3) refl A(3) p1(1) l(4) A(13) [symmetric] p1(3) l(6) n1 n(2-4) [folded A(14)]])
  let ?L = "L1(h \<mapsto> (a, e))"
  note d5 = dev_same [OF R(7) p1(1) l(4), unfolded A(8,10,12,13)]
  have "ld8 (ud_portnum p) s5 \<le> 2" "no_change (v_hw env) (ld16 (ud_iobase p) s5)" using A(11) idle d5 by simp_all
  then obtain s' where p7: "print_once env (uint (ld8 (ud_portnum p) (say ''UHCI portnum: '' s5))) 10 (say ''UHCI portnum: '' s5) \<bind>
      (\<lambda>s. init_ports env isr p 0 (say ''\<newline>'' s)) = Some s'" "prints ?P s5 s'"
    using ports_run [OF R(12) l(1) _ _ p1(2) l(4)] by blast
  have run: "start_controller env isr p s = Some s'"
    unfolding start_controller_eq A(1) Option.bind.bind_lunit alh(2) [unfolded u3] split start_rest_def Let_def R(1) by (rule p7(1))
  note pf = prints_fields [OF p7(2)]
  have f5: "same_on (mem s5) (mem s') (- ?c)" using pf by (simp add: chatter_def)
  have inv': "heap_inv lo hi s' ?L" by (rule write_outcome [OF R(2) same_on_mono [OF f5]]) (use pf l(2) in auto)
  have f1': "same_on (mem s1) (mem s') ((owned L1 \<union> - {lo..<hi}) - ?c)"
    by (rule same_on_trans [OF same_on_mono [OF R(7)] same_on_mono [OF f5]]) auto
  have mono: "owned L1 \<subseteq> owned ?L" "payload L1 \<subseteq> payload ?L" by (rule live_mono; use R(3) in auto)+
  have qf: "span 4 (qh_qelp qh) \<subseteq> span 8 qh" "unat (qh_qelp qh) + 4 \<le> 4294967296"
    using span_field [OF A(7), of 4 4] by (simp_all add: qh_qelp_def)
  have qo: "span 8 qh \<subseteq> owned L1" "span 8 qh \<subseteq> {lo..<hi}" using A(5) payload_owned [OF A(2)] heap_range(1) [OF A(2)] by blast+
  have "ld32 (qh_qelp qh) s' = ld32 (qh_qelp qh) s1" by (rule load32_span [OF f1' _ qf(2)]) (use qf(1) qo l(2) in blast)
  then have q': "ld32 (ud_qh1ms p) s' = qh" "ld32 (qh_qelp qh) s' = 1"
    using prints_dev(4) [OF p7(2) p1(2) l(4)] d5(4) A(9) by simp_all
  have rdy: "usb_ready env lo hi ?L p (node int_h \<union> node h) s'"
    using inv' pf started_layout [OF lay hp A(2) inv' own mono A(5,6,7) R(5,6)] R(11) A(15) pq
    by (simp add: usb_ready_def q' UHCI_TD_LPTR_TERM_def)
  have k: "node int_h \<subseteq> (owned L \<union> - {lo..<hi}) - (span 20 p \<union> span 4 fb \<union> ?c)" "node int_h \<subseteq> (owned L1 \<union> - {lo..<hi}) - ?c"
    using l(9,10) own by blast+
  have hs: "int_handlers s' = (int_handlers s)[unat n := h]" using pf R(10) A(14) by simp
  have tm': "timer_inv pit_isr int_h s'"
    by (rule timer_inv_hooked [OF tm l(8) _ hs n(3)]) (rule same_on_trans [OF same_on_mono [OF A(16) k(1)] same_on_mono [OF f1' k(2)]])
  have hh: "node h \<subseteq> {lo..<hi}" using R(6) by blast
  then have "node h \<subseteq> - ?c" using l(2) by blast
  then have "ld32 (h_handler h) s' = v_uhci_isr env" "ld32 (h_userdata h) s' = p"
    using load32_span [OF f5, of "h_handler h"] load32_span [OF f5, of "h_userdata h"] handler_fields [OF R(4)] R(8,9) by auto
  moreover have "\<forall>q r. L q = Some r \<longrightarrow> ?L q = Some r" using A(4) R(3) by (metis fun_upd_other option.distinct(1))
  moreover have "node h \<union> span 20 p \<union> span 4 (qh_qelp (ld32 (ud_qh1ms p) s')) \<subseteq> {lo..<hi}"
    using hh p1(4) qf(1) qo(2) unfolding q'(1) by blast
  ultimately show ?thesis using run rdy tm' hs R(4) by blast
qed


section \<open>The whole initialisation\<close>

text \<open>Where things must be before the initialisation of the PCI device \<open>dev\<close>.\<close>

definition init_place :: "uhci_env \<Rightarrow> nat \<Rightarrow> nat \<Rightarrow> live \<Rightarrow> u32 \<Rightarrow> u32 \<Rightarrow> u32 \<Rightarrow> bool" where
  "init_place env lo hi L dev int_h fb \<longleftrightarrow>
     local_buffer 64 (v_itoa_fixed env) \<and> unat (v_done env) \<notin> chatter (v_itoa_fixed env) \<and>
     (chatter (v_itoa_fixed env) \<union> {unat (v_done env)}) \<inter> {lo..<hi} = {} \<and>
     span 68 dev \<subseteq> payload L \<union> - {lo..<hi} \<and> unat dev + 68 \<le> 4294967296 \<and>
     span 68 dev \<inter> (span 4 fb \<union> chatter (v_itoa_fixed env) \<union> node int_h) = {} \<and>
     node_ok int_h \<and> node int_h \<subseteq> owned L \<union> - {lo..<hi} \<and>
     node int_h \<inter> (span 4 fb \<union> chatter (v_itoa_fixed env) \<union> {unat (v_done env)}) = {} \<and>
     span 4 fb \<inter> {lo..<hi} = {} \<and> unat fb + 4 \<le> 4294967296"

text \<open>
  What an initialisation that succeeds obtains: the \<open>uhci_dev\<close>, the address found in its field
  \<open>frame_list_base\<close> that nothing has initialised, and the handler node. The controller leaves reset
  and no allocation is refused.
\<close>

definition init_obtains :: "uhci_env \<Rightarrow> 'a isr \<Rightarrow> u32 \<Rightarrow> 'a uhci_state_scheme \<Rightarrow> (u32 \<times> u32 \<times> u32) option" where
  "init_obtains env isr dev s = do {
     (p, s) \<leftarrow> memalloc sizeof_uhci_dev s;
     let fb = ld32 (ud_frame_list_base p) s;
     (failed, s) \<leftarrow> uhci_reset (v_hw env) isr p (before_reset dev p s);
     (fl, u) \<leftarrow> memalloc_aligned 4096 4096 s;
     (qh, u) \<leftarrow> memalloc_aligned sizeof_queue_head 16 u;
     u \<leftarrow> start_prefix env p s;
     (h, u) \<leftarrow> memalloc sizeof_idt_int_handler u;
     if failed = 0 \<and> 0 \<notin> {p, fl, qh, h} then Some (p, fb, h) else None
   }"

text \<open>The first allocation, and where the new structure lies.\<close>

lemma init_begin:
  fixes s :: "'a uhci_state_scheme"
  assumes hp: "heap_inv lo hi s L" and on: "on_screen s" and tm: "timer_inv pit_isr int_h s" and pl: "init_place env lo hi L dev int_h fb"
    and al: "memalloc sizeof_uhci_dev s = Some (p, s1)" "p \<noteq> 0"
  obtains r where "L p = None" and "heap_inv lo hi s1 (L(p \<mapsto> r))" and "same_on (mem s) (mem s1) (owned L \<union> - {lo..<hi})"
    and "int_handlers s1 = int_handlers s" and "pending_queue s1 = pending_queue s" and "on_screen s1" and "io_log s1 = io_log s"
    and "steady pit_isr int_h lo hi (L(p \<mapsto> r)) s1" and "span 20 p \<subseteq> payload (L(p \<mapsto> r))" and "span 20 p \<inter> span 68 dev = {}"
    and "span 20 p \<inter> node int_h = {}" and "unat p + 20 \<le> 4294967296" and "span 68 dev \<subseteq> payload (L(p \<mapsto> r)) \<union> - {lo..<hi}"
    and "span 68 dev \<inter> (node int_h \<union> text_page) = {}" and "text_page \<inter> ({lo..<hi} \<union> node int_h) = {}"
    and "span 68 dev \<subseteq> owned L \<union> - {lo..<hi}" and "ld32 (hdr_bar dev 4) s1 = ld32 (hdr_bar dev 4) s" and "init_layout env lo hi (L(p \<mapsto> r)) p dev int_h fb"
proof -
  let ?c = "chatter (v_itoa_fixed env)" and ?safe = "owned L \<union> - {lo..<hi}"
  have P: "local_buffer 64 (v_itoa_fixed env)" "unat (v_done env) \<notin> ?c" "(?c \<union> {unat (v_done env)}) \<inter> {lo..<hi} = {}"
    "span 68 dev \<subseteq> payload L \<union> - {lo..<hi}" "unat dev + 68 \<le> 4294967296" "span 68 dev \<inter> (span 4 fb \<union> ?c \<union> node int_h) = {}"
    "node_ok int_h" "node int_h \<subseteq> ?safe" "node int_h \<inter> (span 4 fb \<union> ?c \<union> {unat (v_done env)}) = {}"
    "span 4 fb \<inter> {lo..<hi} = {}" "unat fb + 4 \<le> 4294967296"
    using pl by (simp_all only: init_place_def not_False_eq_True)
  have page: "text_page \<subseteq> ?c" by (simp add: chatter_def)
  have d: "span 68 dev \<inter> node int_h = {}" "span 68 dev \<inter> (node int_h \<union> text_page) = {}" "text_page \<inter> ({lo..<hi} \<union> node int_h) = {}"
    using P(3,6,9) page by blast+
  obtain r where A: "L p = None" "heap_inv lo hi s1 (L(p \<mapsto> r))" "same_on (mem s) (mem s1) ?safe"
    "int_handlers s1 = int_handlers s" "pending_queue s1 = pending_queue s" "on_screen s1" "io_log s1 = io_log s"
    "steady pit_isr int_h lo hi (L(p \<mapsto> r)) s1" "span 20 p \<subseteq> payload (L(p \<mapsto> r))" "span 20 p \<inter> span 68 dev = {}"
    "span 20 p \<inter> node int_h = {}" "unat p + 20 \<le> 4294967296" "span 68 dev \<subseteq> payload (L(p \<mapsto> r)) \<union> - {lo..<hi}"
    "span 68 dev \<subseteq> ?safe" "span 20 p \<inter> ?safe = {}" "ld32 (hdr_bar dev 4) s1 = ld32 (hdr_bar dev 4) s"
    by (rule dev_allocated [OF hp on tm P(7) al P(4,5) d(1) P(8)])
  let ?L = "L(p \<mapsto> r)"
  have own: "owned L \<subseteq> owned ?L" by (rule live_mono(1)) (use A(1) in auto)
  have "init_layout env lo hi ?L p dev int_h fb"
    unfolding init_layout_def
  proof (intro conjI)
    show "span 68 dev \<subseteq> owned ?L \<union> - {lo..<hi}" "node int_h \<subseteq> owned ?L \<union> - {lo..<hi}" using A(14) P(8) own by blast+
    show "span 68 dev \<inter> (span 20 p \<union> span 4 fb \<union> ?c) = {}" using A(10) P(6) by blast
    show "node int_h \<inter> (span 20 p \<union> span 4 fb \<union> ?c \<union> {unat (v_done env)}) = {}" using A(11) P(9) by blast
  qed (use P A(9,12) in simp_all)
  then show thesis by (rule that [OF A(1-13) d(2,3) A(14,16)])
qed

lemma init_run:
  fixes s :: "'a uhci_state_scheme"
  defines "n \<equiv> \<lambda>dev s :: 'a uhci_state_scheme. ld8 (hdr_interrupt_line dev) s + 32"
  assumes hp: "heap_inv lo hi s L" and on: "on_screen s" and pq: "pending_queue s = 0" and tm: "timer_inv pit_isr int_h s"
    and t: "timer_keeps (v_hw env) int_h UNIV (io_log s) 1131" and uhci: "is_UHCI_device dev s"
    and ob: "init_obtains env (idt_common_isr (v_itoa_fixed env) (pit_dispatch pit_isr other)) dev s = Some (p, fb, h)"
    and pl: "init_place env lo hi L dev int_h fb"
    and line: "unat (n dev s) < max_isr_cnt" "int_handlers s ! unat (n dev s) = 0" "length (int_handlers s) = max_isr_cnt"
    and idle: "no_change (v_hw env) (ucast (ld32 (hdr_bar dev 4) s AND 0xfffe))"
  shows "\<exists>s' L'. pci_dev_init_cb env (idt_common_isr (v_itoa_fixed env) (pit_dispatch pit_isr other)) dev s = Some (True, s') \<and>
    (\<forall>q r. L q = Some r \<longrightarrow> L' q = Some r) \<and>
    usb_ready env lo hi L' p (node int_h \<union> node h) s' \<and> timer_inv pit_isr int_h s' \<and> node_ok h \<and>
    int_handlers s' = (int_handlers s)[unat (n dev s) := h] \<and> ld32 (h_handler h) s' = v_uhci_isr env \<and> ld32 (h_userdata h) s' = p \<and>
    node h \<union> span 20 p \<union> span 4 (qh_qelp (ld32 (ud_qh1ms p) s')) \<subseteq> {lo..<hi}"
proof -
  let ?io = "ucast (ld32 (hdr_bar dev 4) s AND 0xfffe) :: u16"
  let ?isr = "idt_common_isr (v_itoa_fixed env) (pit_dispatch pit_isr other)" and ?c = "chatter (v_itoa_fixed env)"
  let ?safe = "owned L \<union> - {lo..<hi}"
  from ob obtain s1 s2 fl u1 qh u2 u3 u4 where O: "memalloc sizeof_uhci_dev s = Some (p, s1)" "p \<noteq> 0"
    "fb = ld32 (ud_frame_list_base p) s1" "uhci_reset (v_hw env) ?isr p (before_reset dev p s1) = Some (0, s2)"
    "memalloc_aligned 4096 4096 s2 = Some (fl, u1)" "fl \<noteq> 0" "memalloc_aligned sizeof_queue_head 16 u1 = Some (qh, u2)" "qh \<noteq> 0"
    "start_prefix env p s2 = Some u3" "memalloc sizeof_idt_int_handler u3 = Some (h, u4)" "h \<noteq> 0"
    unfolding init_obtains_def Let_def by (auto split: Option.bind_splits if_splits)
  have top: "unat dev + 68 \<le> 4294967296" using pl by (simp add: init_place_def)
  obtain r where A: "L p = None" "heap_inv lo hi s1 (L(p \<mapsto> r))" "same_on (mem s) (mem s1) ?safe"
    "int_handlers s1 = int_handlers s" "pending_queue s1 = pending_queue s" "on_screen s1" "io_log s1 = io_log s"
    "steady pit_isr int_h lo hi (L(p \<mapsto> r)) s1" "span 20 p \<subseteq> payload (L(p \<mapsto> r))" "span 20 p \<inter> span 68 dev = {}"
    "span 20 p \<inter> node int_h = {}" "unat p + 20 \<le> 4294967296" "span 68 dev \<subseteq> payload (L(p \<mapsto> r)) \<union> - {lo..<hi}"
    "span 68 dev \<inter> (node int_h \<union> text_page) = {}" "text_page \<inter> ({lo..<hi} \<union> node int_h) = {}"
    "span 68 dev \<subseteq> ?safe" "ld32 (hdr_bar dev 4) s1 = ld32 (hdr_bar dev 4) s" "init_layout env lo hi (L(p \<mapsto> r)) p dev int_h fb"
    by (rule init_begin [OF hp on tm pl O(1,2)])
  let ?L = "L(p \<mapsto> r)"
  note q = A(9-15) and devs = A(16)
  have ub: "unat (hdr_interrupt_line dev) = unat dev + 64" "unat (hdr_command dev) = unat dev + 8"
    using top by (simp_all add: pci_layout unat_add_u32 hdr_interrupt_line_def)
  note b = before_reset_run [OF A(8,6) q(1-6) top q(7)]
  let ?s = "before_reset dev p s1"
  have w2: "waits pit_isr int_h UNIV p ?io ?s" using b(1,5) A(17) q(4) by (simp add: waits_def steady_def)
  have t2: "timer_keeps (v_hw env) int_h UNIV (io_log ?s) 1123"
    using b(6) A(7) timer_keeps_later [OF t, of _ 1123] by auto
  from uhci_reset_run [OF t2 w2, of "v_itoa_fixed env" other] O(4) have N: "ticked ?s s2" "same_on (mem ?s) (mem s2) UNIV" "waits pit_isr int_h UNIV p ?io s2"
    by (auto simp: naps_def)
  note tk = ticked_fields [OF N(1)]
  have m2: "mem s2 = mem ?s" using N(2) by (auto simp: same_on_def)
  have hp2: "heap_inv lo hi s2 ?L" "timer_inv pit_isr int_h s2"
    using steady_step [OF b(1), of s2 "{}"] N(2) tk by (auto simp: steady_def)
  have ln: "ld8 (hdr_interrupt_line dev) s2 = ld8 (hdr_interrupt_line dev) s"
  proof -
    have i: "unat (hdr_interrupt_line dev) \<in> span 68 dev" "unat (hdr_interrupt_line dev) \<notin> span 2 (hdr_command dev)" using ub by (auto simp: span_def)
    have "ld8 (hdr_interrupt_line dev) s2 = ld8 (hdr_interrupt_line dev) s1" unfolding m2
      by (rule load8_same [OF b(7)]) (use i q(2,6) in blast)
    also have "\<dots> = ld8 (hdr_interrupt_line dev) s" by (rule load8_same [OF A(3)]) (use i devs in blast)
    finally show ?thesis .
  qed
  have f2: "dev = ld32 (ud_pci_dev p) s2" "fb = ld32 (ud_frame_list_base p) s2" using b(8,9) O(3) m2 by simp_all
  have h2: "int_handlers s2 = int_handlers s" "pending_queue s2 = 0" "on_screen s2" using tk b(2-4) A(4,5) pq by simp_all
  have io2: "no_change (v_hw env) (ld16 (ud_iobase p) s2)" using idle N(3) by (simp add: waits_def)
  obtain s' L' where R: "start_controller env ?isr p s2 = Some s'" "\<forall>q r. ?L q = Some r \<longrightarrow> L' q = Some r"
    "usb_ready env lo hi L' p (node int_h \<union> node h) s'" "timer_inv pit_isr int_h s'" "node_ok h"
    "int_handlers s' = (int_handlers s2)[unat (n dev s) := h]" "ld32 (h_handler h) s' = v_uhci_isr env" "ld32 (h_userdata h) s' = p"
    "node h \<union> span 20 p \<union> span 4 (qh_qelp (ld32 (ud_qh1ms p) s')) \<subseteq> {lo..<hi}"
    using start_controller_run [OF hp2(1) h2(3,2) hp2(2) A(18) f2 O(5-8) O(9-11), of "n dev s" ?isr, OF _ line(1)] line(2,3) ln h2(1) io2
    by (auto simp: n_def)
  have "pci_dev_init_cb env ?isr dev s = Some (True, s')"
    unfolding init_cb_eq [OF uhci] using O(1,4) R(1) by simp
  moreover have "\<forall>q r. L q = Some r \<longrightarrow> L' q = Some r" using R(2) A(1) by (metis fun_upd_other option.distinct(1))
  ultimately show ?thesis using R(3-9) unfolding h2(1) by blast
qed

end
