(* ===== verification/HeapRoom.thy ===== *)
theory HeapRoom
  imports HeapClient
begin

text \<open>
  When allocations cannot be refused: a free block that is large enough for a sequence of them, and
  the exact result of an allocation at the front of a heap that is still in one piece.
\<close>


section \<open>A large free block\<close>

definition roomy :: "nat \<Rightarrow> block list \<Rightarrow> bool" where
  "roomy k bs \<longleftrightarrow> (\<exists>(a, n) \<in> set bs. k \<le> n)"

lemma roomy_alloc:
  assumes r: "roomy k bs" and k: "j + sz + al + 8 \<le> k" "8 \<le> j"
    and st: "\<forall>(a, n) \<in> set bs. k \<le> n \<longrightarrow> a + 8 \<le> start a \<and> start a \<le> a + 8 + al"
  obtains g bs' where "alloc_spec start sz bs = Some (g, bs')" and "roomy j bs'"
proof -
  obtain a n where an: "(a, n) \<in> set bs" "k \<le> n" using r by (auto simp: roomy_def)
  have s: "a + 8 \<le> start a" "start a \<le> a + 8 + al" using st an by auto
  have f: "fits start sz (a, n)" using s an(2) k(1) by (simp add: fits_def)
  then have "alloc_spec start sz bs \<noteq> None" using an(1) by (auto simp: alloc_spec_None_iff)
  then obtain g bs' where sp: "alloc_spec start sz bs = Some (g, bs')" by auto
  then obtain pre c m post where c: "bs = pre @ (c, m) # post" "\<forall>b \<in> set pre. \<not> fits start sz b"
    "bs' = pre @ carve c m (start c) sz @ post"
    by (rule alloc_spec_SomeE)
  have "roomy j bs'"
  proof (cases "(a, n) = (c, m)")
    case True
    have sl: "j \<le> slack_after a n (start a) sz" using s an(2) k(1) by (simp add: slack_after_def)
    then have "8 \<le> slack_after a n (start a) sz" using k(2) by linarith
    then have "(start a + sz, slack_after a n (start a) sz) \<in> set bs'" using True by (simp add: c(3) carve_def)
    then show ?thesis using sl unfolding roomy_def by blast
  next
    case False
    then have "(a, n) \<in> set bs'" using an(1) c(1,3) by auto
    then show ?thesis using an(2) k(1) unfolding roomy_def by (intro bexI [of _ "(a, n)"]) simp_all
  qed
  with sp show thesis by (rule that)
qed

lemma start_at_bounds:
  assumes "a + 8 + unat al \<le> 4294967296" and "al \<noteq> 0"
  shows "a + 8 \<le> start_at al a" and "start_at al a \<le> a + 8 + unat al"
proof -
  have m: "unat (al - 1) = unat al - 1" using assms(2) by (simp add: unat_minus_one)
  have a: "unat (of_nat a :: u32) = a" using assms by (intro unat_of_nat_u32) simp
  have al: "0 < unat al" using assms(2) by (simp add: unat_gt_0)
  have "unat (of_nat a + 8 :: u32) = a + 8" using a assms(1) al by (subst unat_add_u32) auto
  moreover from this have "unat (of_nat a + 8 + (al - 1)) = a + 8 + (unat al - 1)"
    using m assms(1) al by (subst unat_add_u32) auto
  ultimately show "a + 8 \<le> start_at al a" "start_at al a \<le> a + 8 + unat al"
    using unat_and_not_ge [of "of_nat a + 8 + (al - 1)" "al - 1"] unat_and_le1 [of "of_nat a + 8 + (al - 1)" "NOT (al - 1)"] m
    by (simp_all add: start_at_def aligned_mem_start_def align_ptr_def)
qed

text \<open>An allocation with room is granted, and there is still room.\<close>

lemma roomy_grants:
  assumes ok: "heap_ok lo hi s bs" and r: "roomy k bs" and k: "j + unat sz + unat al + 8 \<le> k" "8 \<le> j"
    and sz: "sz \<noteq> 0" "al \<noteq> 0"
  obtains p s' bs' where "memalloc_aligned sz al s = Some (p, s')" and "p \<noteq> 0" and "heap_ok lo hi s' bs'" and "roomy j bs'"
    and "fbytes bs' \<subseteq> fbytes bs" and "same_on (mem s) (mem s') (- fbytes bs)" and "only_heap s s'"
proof -
  have wf: "free_wf lo hi bs" "hi < 4294967296" using ok by (simp_all add: heap_ok_def)
  have st: "\<forall>(a, n) \<in> set bs. k \<le> n \<longrightarrow> a + 8 \<le> start_at al a \<and> start_at al a \<le> a + 8 + unat al"
  proof (intro ballI, safe)
    fix a n assume a: "(a, n) \<in> set bs" "k \<le> n"
    then have "a + 8 + unat al \<le> 4294967296" using free_wf_mem [OF wf(1) a(1)] wf(2) k by simp
    from start_at_bounds [OF this sz(2)] show "a + 8 \<le> start_at al a" "start_at al a \<le> a + 8 + unat al" .
  qed
  obtain g bs' where sp: "alloc_spec (start_at al) (unat sz) bs = Some (g, bs')" "roomy j bs'"
    by (rule roomy_alloc [OF r k st])
  obtain p s' where p: "memalloc_aligned sz al s = Some (p, s')" "p \<noteq> 0" "heap_ok lo hi s' bs'"
    "same_on (mem s) (mem s') (- fbytes bs)" "only_heap s s'"
    by (rule memalloc_aligned_grants [OF ok sz sp(1)])
  have "fbytes bs' \<subseteq> fbytes bs" using alloc_spec_wf(2) [OF sp(1) wf(1)] sz(1) by (auto simp: unat_gt_0)
  with p sp(2) show thesis by (intro that)
qed


section \<open>The front of a heap in one piece\<close>

text \<open>
  The payload is the bytes behind the header at the front of the block; of these the allocation changes
  none, only the header and the header of the rest.
\<close>

lemma alloc_front:
  fixes c :: u32
  assumes ok: "heap_ok lo hi s [(unat c, n)]" and c: "c AND 3 = 0" and sz: "sz \<noteq> 0" "unat sz + 16 \<le> n"
  obtains s' where "memalloc sz s = Some (c + 8, s')" and "heap_ok lo hi s' [(unat c + 8 + unat sz, n - 8 - unat sz)]"
    and "same_on (mem s) (mem s') (- ({unat c..<unat c + 8} \<union> {unat c + 8 + unat sz..<unat c + 16 + unat sz}))" and "only_heap s s'"
proof -
  have h: "free_block_head s = c" "c \<noteq> 0" "ld32 c s = of_nat n" "ld32 (c + 4) s = 0" "unat c + n \<le> hi" "hi < 4294967296" "16 \<le> unat c"
  proof -
    have l: "free_list s [(unat c, n)]" "free_wf lo hi [(unat c, n)]" "16 \<le> lo" "hi < 4294967296" using ok by (simp_all add: heap_ok_def)
    then have hd: "free_block_head s = c" by (simp add: word_unat_eq_iff)
    then show "free_block_head s = c" "c \<noteq> 0" "ld32 c s = of_nat n" "ld32 (c + 4) s = 0" "unat c + n \<le> hi" "hi < 4294967296" "16 \<le> unat c"
      using l by auto
  qed
  have u: "unat (c + 8) = unat c + 8" "unat (c + 4) = unat c + 4" using h(5,6) sz(2) by (simp_all add: unat_add_u32)
  have u2: "unat (c + 8 + sz) = unat c + 8 + unat sz" "unat (c + 8 + sz + 4) = unat c + 12 + unat sz"
  proof -
    show 1: "unat (c + 8 + sz) = unat c + 8 + unat sz" using u(1) h(5,6) sz(2) by (subst unat_add_u32) simp_all
    show "unat (c + 8 + sz + 4) = unat c + 12 + unat sz" using 1 h(5,6) sz(2) by (subst unat_add_u32) simp_all
  qed
  have al: "aligned_mem_start c 4 = c + 8"
  proof -
    have "unat (c + 8 + 3) = unat c + 11" using u(1) h(5,6) sz(2) by (subst unat_add_u32) simp_all
    moreover have "unat c mod 4 = 0" using c unat_and_mask_mod [of c 2] by (simp add: mask_eq_exp_minus_1)
    moreover have "(c + 8 + 3) AND 3 = 3 \<longleftrightarrow> unat (c + 8 + 3) mod 4 = 3"
      using unat_and_mask_mod [of "c + 8 + 3" 2] by (simp add: word_unat_eq_iff mask_eq_exp_minus_1)
    ultimately have "(c + 8 + 3) AND 3 = 3" by presburger
    then have "(c + 8 + 3) AND NOT 3 = c + 8" by (simp only: word_and_not_plus add_diff_cancel_right')
    moreover have "(4 :: u32) - 1 = 3" by simp
    ultimately show ?thesis by (simp only: aligned_mem_start_def align_ptr_def)
  qed
  have sa: "start_at 4 (unat c) = unat c + 8" using al u(1) by (simp add: start_at_def)
  have sp: "alloc_spec (start_at 4) (unat sz) [(unat c, n)] =
      Some (granted (unat c) n (unat c + 8) (unat sz), [(unat c + 8 + unat sz, n - 8 - unat sz)])"
    using sz(2) sa by (simp add: fits_def carve_def slack_before_def slack_after_def)
  obtain p s' where p: "memalloc_aligned sz 4 s = Some (p, s')" "unat p = g_ptr (granted (unat c) n (unat c + 8) (unat sz))"
    "heap_ok lo hi s' [(unat c + 8 + unat sz, n - 8 - unat sz)]" "only_heap s s'"
    by (rule memalloc_aligned_grants [OF ok sz(1) _ sp]) simp_all
  have pc: "p = c + 8" using p(2) u(1) by (simp add: granted_def word_unat_eq_iff)
  have nz: "c + 8 \<noteq> 0" using u(1) by auto
  let ?r = "c + 8 + sz"
  let ?s1 = "st32 (?r + 4) 0 (st32 ?r (of_nat n - (c + 8 + sz - c)) s)"
  have nn: "unat (of_nat n :: u32) = n" using h(5,6) by (intro unat_of_nat_u32) simp
  have "fits (start_at 4) (unat sz) (unat c, n)" using sz(2) sa by (simp add: fits_def)
  then have "\<not> aligned_size c 4 s < sz"
    using aligned_size_fits [OF refl _ h(7) _ sz(1), of s n 4] h(3,5,6) nn sz(2) by simp
  moreover have ca: "carve_after sz (c + 8) 0 c s = (sz + 8, ?s1\<lparr>free_block_head := ?r\<rparr>)"
  proof -
    have "unat (8 + sz) = 8 + unat sz" using h(5,6) sz(2) by (subst unat_add_u32) simp_all
    then have "unat (of_nat n - (8 + sz)) = n - (8 + unat sz)" using nn sz(2) by (subst unat_diff_u32) simp_all
    then have "8 \<le> (of_nat n :: u32) - (8 + sz)" using sz(2) by (simp add: word_le_nat_alt)
    moreover have "c + 8 + sz - c = 8 + sz" "c + 8 - 8 + (sz + 8) = ?r" by simp_all
    ultimately show ?thesis using h(3,4) by (simp add: carve_after_def Let_def link_to_def add_ac)
  qed
  moreover have cb: "carve_before (c + 8) 0 c t = st32 (c + 4) 0 t" for t :: "'a heap_state_scheme"
    by (simp add: carve_before_def Let_def)
  ultimately have "find_fit sz 4 0 c s = Some (0, c)" by (subst find_fit.simps) simp
  then have "memalloc_aligned sz 4 s = Some (c + 8, st32 c (sz + 8) (st32 (c + 4) 0 (?s1\<lparr>free_block_head := ?r\<rparr>)))"
    unfolding memalloc_aligned_def using sz(1) h(1,2) al nz ca cb by (simp add: Let_def)
  then have "mem s' = mem (st32 c (sz + 8) (st32 (c + 4) 0 ?s1))" using p(1) by (simp add: st32_def)
  then have "same_on (mem s) (mem s') (- ({unat c..<unat c + 8} \<union> {unat c + 8 + unat sz..<unat c + 16 + unat sz}))"
    using u u2 h(5,6) sz(2) by (auto intro!: same_on_trans [OF _ same_on_store32] same_on_refl)
  then show thesis using that p(1,3,4) pc by (simp add: memalloc_def)
qed

end
