(* ===== verification/UhciBoot.thy ===== *)
theory UhciBoot
  imports UhciInit HeapRoom
begin

text \<open>
  The initialisation of a controller on a heap that is still in one piece: no allocation is refused,
  and the structures are at known addresses.
\<close>


section \<open>No allocation is refused\<close>

definition leaves_reset :: "hw \<Rightarrow> u16 \<Rightarrow> bool" where
  "leaves_reset hw io \<longleftrightarrow> (\<forall>l. hw_inw hw l (io + UHCI_USBCMD) AND UHCI_USBCMD_HC_RESET = 0)"

lemma init_obtains_front:
  fixes s :: "'a uhci_state_scheme"
  assumes hp: "heap_inv lo hi s L" and on: "on_screen s" and tm: "timer_inv pit_isr int_h s"
    and t: "timer_keeps (v_hw env) int_h UNIV (io_log s) 1131"
    and front: "heap_ok lo hi s [(unat c, n)]" "c AND 3 = 0" "9216 \<le> n"
    and fb: "fb = ld32 (ud_frame_list_base (c + 8)) s" and pl: "init_place env lo hi L dev int_h fb"
    and up: "leaves_reset (v_hw env) (ucast (ld32 (hdr_bar dev 4) s AND 0xfffe))"
  obtains h where "init_obtains env (idt_common_isr (v_itoa_fixed env) (pit_dispatch pit_isr other)) dev s = Some (c + 8, fb, h)"
proof -
  let ?io = "ucast (ld32 (hdr_bar dev 4) s AND 0xfffe) :: u16" and ?p = "c + 8"
  let ?isr = "idt_common_isr (v_itoa_fixed env) (pit_dispatch pit_isr other)"
  have z: "unat sizeof_uhci_dev = 20" "sizeof_uhci_dev \<noteq> 0" by (simp_all add: sizeof_uhci_dev_def)
  have bound: "unat c + n \<le> hi" "hi < 4294967296" using front(1) by (auto simp: heap_ok_def)
  have up8: "unat ?p = unat c + 8" using bound front(3) by (simp add: unat_add_u32)
  obtain s1 where s1: "memalloc sizeof_uhci_dev s = Some (?p, s1)" "heap_ok lo hi s1 [(unat c + 28, n - 28)]"
    "same_on (mem s) (mem s1) (- ({unat c..<unat c + 8} \<union> {unat c + 28..<unat c + 36}))" "only_heap s s1"
    by (rule alloc_front [OF front(1,2) z(2)]) (use front(3) z(1) in \<open>simp_all add: add.commute\<close>)
  have "?p \<noteq> 0" using up8 by auto
  then obtain r where A: "L ?p = None" "heap_inv lo hi s1 (L(?p \<mapsto> r))" "same_on (mem s) (mem s1) (owned L \<union> - {lo..<hi})"
    "int_handlers s1 = int_handlers s" "pending_queue s1 = pending_queue s" "on_screen s1" "io_log s1 = io_log s"
    "steady pit_isr int_h lo hi (L(?p \<mapsto> r)) s1" "span 20 ?p \<subseteq> payload (L(?p \<mapsto> r))" "span 20 ?p \<inter> span 68 dev = {}"
    "span 20 ?p \<inter> node int_h = {}" "unat ?p + 20 \<le> 4294967296" "span 68 dev \<subseteq> payload (L(?p \<mapsto> r)) \<union> - {lo..<hi}"
    "span 68 dev \<inter> (node int_h \<union> text_page) = {}" "text_page \<inter> ({lo..<hi} \<union> node int_h) = {}"
    "span 68 dev \<subseteq> owned L \<union> - {lo..<hi}" "init_layout env lo hi (L(?p \<mapsto> r)) ?p dev int_h fb"
    by (rule init_begin [OF hp on tm pl s1(1)])
  let ?L = "L(?p \<mapsto> r)"
  have top: "unat dev + 68 \<le> 4294967296" using pl by (simp add: init_place_def)
  have ub: "unat (hdr_bar dev 4) = unat dev + 36" "unat (hdr_command dev) = unat dev + 8"
    using top by (simp_all add: pci_layout unat_add_u32)
  have bar: "ld32 (hdr_bar dev 4) s1 = ld32 (hdr_bar dev 4) s"
  proof -
    have "span 4 (hdr_bar dev 4) \<subseteq> span 68 dev" using ub(1) by (auto simp: span_def)
    then show ?thesis using top A(16) ub(1) by (intro load32_span [OF A(3)]) auto
  qed
  note b = before_reset_run [OF A(8,6,9-14) top A(15)]
  let ?s = "before_reset dev ?p s1"
  have w2: "waits pit_isr int_h UNIV ?p ?io ?s" using b(1,5) bar A(12) by (simp add: waits_def steady_def)
  have t2: "timer_keeps (v_hw env) int_h UNIV (io_log ?s) 1123"
    using b(6) A(7) timer_keeps_later [OF t, of _ 1123] by auto
  from uhci_reset_run [OF t2 w2, of "v_itoa_fixed env" other] obtain failed s2 vs where
    R: "uhci_reset (v_hw env) ?isr ?p ?s = Some (failed, s2)" "naps UNIV ?s s2" "failed \<noteq> 0 \<Longrightarrow> length vs = 100"
      "\<forall>v \<in> set vs. v AND UHCI_USBCMD_HC_RESET \<noteq> 0 \<and> (\<exists>l. v = hw_inw (v_hw env) l (?io + UHCI_USBCMD))"
    by (metis (no_types, lifting))
  have "vs = []" using R(4) up unfolding leaves_reset_def by (cases vs) auto
  then have ok: "failed = 0" using R(3) by auto
  have m2: "mem s2 = mem ?s" "free_block_head s2 = free_block_head s1" "on_screen s2"
    using R(2) b(2,10) ticked_fields [of ?s s2] by (auto simp: naps_def same_on_def)
  have hp2: "heap_inv lo hi s2 ?L" "heap_ok lo hi s2 [(unat c + 28, n - 28)]"
  proof -
    have W: "same_on (mem s1) (mem s2) ({lo..<hi} - payload ?L)"
    proof (rule same_on_mono [OF b(7) [folded m2(1)]])
      have "span 2 (hdr_command dev) \<subseteq> span 68 dev" using ub(2) by (auto simp: span_def)
      then show "{lo..<hi} - payload ?L \<subseteq> - (span 20 ?p \<union> text_page \<union> span 2 (hdr_command dev))" using A(9,13,15) by blast
    qed
    show "heap_inv lo hi s2 ?L" by (rule write_outcome [OF A(2) W m2(2)])
    show "heap_ok lo hi s2 [(unat c + 28, n - 28)]" by (rule write_keeps_free [OF A(2) W m2(2) s1(2)])
  qed
  have fb1: "fb = ld32 (ud_frame_list_base ?p) s1"
  proof -
    have "unat (ud_frame_list_base ?p) = unat c + 12" using bound front(3) by (simp add: ud_frame_list_base_def unat_add_u32)
    then have "span 4 (ud_frame_list_base ?p) \<subseteq> - ({unat c..<unat c + 8} \<union> {unat c + 28..<unat c + 36})" by (auto simp: span_def)
    from load32_span [OF s1(3) this] show ?thesis using fb \<open>unat (ud_frame_list_base ?p) = unat c + 12\<close> bound front(3) by simp
  qed
  have f2: "dev = ld32 (ud_pci_dev ?p) s2" "fb = ld32 (ud_frame_list_base ?p) s2" using b(8,9) fb1 m2(1) by simp_all
  have r1: "roomy (n - 28) [(unat c + 28, n - 28)]" by (simp add: roomy_def)
  obtain fl u1 bs1 where u1: "memalloc_aligned 4096 4096 s2 = Some (fl, u1)" "fl \<noteq> 0" "heap_ok lo hi u1 bs1" "roomy (n - 8228) bs1"
    "fbytes bs1 \<subseteq> fbytes [(unat c + 28, n - 28)]" "same_on (mem s2) (mem u1) (- fbytes [(unat c + 28, n - 28)])" "only_heap s2 u1"
    by (rule roomy_grants [OF hp2(2) r1, of "n - 8228" 4096 4096]) (use front(3) in simp_all)
  obtain qh u2 bs2 where u2: "memalloc_aligned sizeof_queue_head 16 u1 = Some (qh, u2)" "qh \<noteq> 0" "heap_ok lo hi u2 bs2" "roomy 64 bs2"
    "fbytes bs2 \<subseteq> fbytes bs1" "same_on (mem u1) (mem u2) (- fbytes bs1)" "only_heap u1 u2"
    by (rule roomy_grants [OF u1(3,4), of 64 sizeof_queue_head 16]) (use front(3) in \<open>simp_all add: sizeof_queue_head_def\<close>)
  obtain u3 where u3: "start_prefix env ?p s2 = Some u3" "\<forall>bs. heap_ok lo hi u2 bs \<longrightarrow> heap_ok lo hi u3 bs"
    by (rule start_prefix_run [OF hp2(1) m2(3) A(17) f2 u1(1,2) u2(1,2)]) blast
  then have "heap_ok lo hi u3 bs2" using u2(3) by blast
  then obtain h u4 bs4 where u4: "memalloc_aligned sizeof_idt_int_handler 4 u3 = Some (h, u4)" "h \<noteq> 0" "heap_ok lo hi u4 bs4" "roomy 8 bs4"
    "fbytes bs4 \<subseteq> fbytes bs2" "same_on (mem u3) (mem u4) (- fbytes bs2)" "only_heap u3 u4"
    by (rule roomy_grants [OF _ u2(4), of _ _ _ 8 sizeof_idt_int_handler 4]) (simp_all add: sizeof_idt_int_handler_def)
  have "init_obtains env ?isr dev s = Some (?p, fb, h)"
    unfolding init_obtains_def Let_def
    using s1(1) fb1 R(1) ok u1(1,2) u2(1,2) u3(1) u4(1,2) \<open>?p \<noteq> 0\<close> by (simp add: memalloc_def)
  then show thesis by (rule that)
qed

end
