(* ===== verification/UhciResetTheorems.thy ===== *)
theory UhciResetTheorems
  imports UhciReset UhciTheorems
begin

text \<open>
  What the UHCI driver does with a controller or a port that does not answer: every wait is bounded,
  and a controller that never leaves reset costs nothing but time.
\<close>


section \<open>A machine whose controller stays in reset\<close>

definition stuck_hw :: hw where
  "stuck_hw = \<lparr>hw_inb = \<lambda>_ _. 0, hw_inw = \<lambda>_ _. 2, hw_inl = \<lambda>_ _. 0, hw_irq = \<lambda>_. 32, hw_dma = \<lambda>_ m. m\<rparr>"

definition stuck_env :: uhci_env where
  "stuck_env = \<lparr>v_hw = stuck_hw, v_itoa_fixed = 0x2000, v_print_buf = 0x2100, v_callback = 0x600, v_uhci_isr = 0x700,
     v_done = 0x2200, v_desc_len = 0x2300\<rparr>"

text \<open>The timer's handler at \<open>0x3000\<close>, a PCI device with the class codes of a UHCI controller at \<open>0x5000\<close>.\<close>

definition stuck_state :: uhci_state where
  "stuck_state = usb_start\<lparr>mem := store32 (store32 (mem usb_start) 0x3000 0x500) 0x500c 0x0c030000,
     int_handlers := (replicate 48 0)[32 := 0x3000]\<rparr>"

lemma stuck_values:
  "ld32 0x3000 stuck_state = 0x500" "ld32 0x3008 stuck_state = 0" "ld8 0x500d stuck_state = 0" "ld8 0x500e stuck_state = 3"
  "ld8 0x500f stuck_state = 0x0c" "ld32 0x5024 stuck_state = 0" "ld16 0x5000 stuck_state = 0"
  by (simp_all add: stuck_state_def usb_start_def empty_heap_def init_memory_def Let_def load8_def load16_def load32_def
      st32_def store32_def)

lemma stuck_heap: "heap_ok 0x8000 0xC000 stuck_state [(0x8000, 0x4000)]"
proof -
  have w: "writes_in (- {0x8000..<0xC000}) s (st32 p v s)" if "unat p + 4 \<le> 0x8000" for p v and s :: uhci_state
    by (rule writes_in_mono [OF writes_in_st(3)]) (use that in auto)
  let ?s = "st32 0x500c 0x0c030000 (st32 0x3000 0x500 usb_start)"
  have "writes_in (- {0x8000..<0xC000}) usb_start ?s" by (intro writes_in_trans [OF _ w] w) simp_all
  from heap_ok_writes [OF usb_start_ok this] have ok: "heap_ok 0x8000 0xC000 ?s [(0x8000, 0x4000)]" by simp
  have "mem stuck_state = mem ?s" "free_block_head stuck_state = free_block_head ?s" by (simp_all add: stuck_state_def)
  then show ?thesis using ok by (simp add: heap_ok_def)
qed

lemma stuck_inv: "heap_inv 0x8000 0xC000 stuck_state Map.empty"
  using stuck_heap
  by (intro heap_inv_def [THEN iffD2] exI [of _ "[(0x8000, 0x4000)]"]) (auto simp: live_ok_def)

lemma stuck_timer: "timer_inv 0x500 0x3000 stuck_state" "timer_keeps stuck_hw 0x3000 UNIV l n"
  using stuck_values by (simp_all add: timer_inv_def timer_keeps_def stuck_hw_def h_next_def h_handler_def span_ok_def stuck_state_def)

lemma stuck_waits: "waits 0x500 0x3000 UNIV 0x5000 0 stuck_state"
  using stuck_timer(1) stuck_values by (simp add: waits_def ud_iobase_def)

lemma stuck_alloc: "\<exists>s1. memalloc sizeof_uhci_dev stuck_state = Some (0x8008, s1)"
proof -
  have sp: "alloc_spec (start_at 4) 20 [(0x8000, 0x4000)] =
     Some (\<lparr>g_ptr = 0x8008, g_start = 0x8000, g_end = 0x801C\<rparr>, [(0x801C, 0x3FE4)])"
    by (simp add: fits_def start_at_def aligned_mem_start_def align_ptr_def granted_def carve_def slack_before_def slack_after_def)
  obtain p s1 where p: "memalloc_aligned sizeof_uhci_dev 4 stuck_state = Some (p, s1)" "unat p = 0x8008"
    using grants_at [OF stuck_heap _ _ _ sp, of sizeof_uhci_dev] by (auto simp: sizeof_uhci_dev_def)
  have "p = 0x8008" using p(2) by (simp add: word_unat_eq_iff)
  then show ?thesis using p(1) by (simp add: memalloc_def)
qed


section \<open>Bounded waits\<close>

text \<open>C19: With a timer that ticks for the next 1123 events, \<open>uhci_reset\<close> always returns: after the global reset of 20 ms it polls
  the command register at most 100 times, 10 ms apart, and succeeds exactly when a poll has shown
  the reset bit clear; otherwise all 100 polls have shown it set. Nothing but the log, the timer and
  what DMA may write to has changed.\<close>

theorem uhci_reset_bounded:
  assumes "timer_keeps hw int_h S (io_log s) 1123" and "waits pit_isr int_h S dev io s"
  shows "\<exists>failed s' vs last. uhci_reset hw (idt_common_isr itoa_fixed (pit_dispatch pit_isr other)) dev s = Some (failed, s') \<and>
    length vs \<le> 100 \<and> (\<forall>v \<in> set vs. v AND UHCI_USBCMD_HC_RESET \<noteq> 0) \<and>
    io_log s' = io_log s @ reset_events (io + UHCI_USBCMD) @ reset_polls (io + UHCI_USBCMD) vs @ last \<and>
    (if failed = 0 then \<exists>v. last = [InW (io + UHCI_USBCMD) v] \<and> v AND UHCI_USBCMD_HC_RESET = 0
     else last = [] \<and> length vs = 100) \<and>
    same_on (mem s) (mem s') S"
proof -
  obtain failed s' vs last where r:
    "uhci_reset hw (idt_common_isr itoa_fixed (pit_dispatch pit_isr other)) dev s = Some (failed, s')"
    "length vs \<le> 100" "\<forall>v \<in> set vs. v AND UHCI_USBCMD_HC_RESET \<noteq> 0"
    "io_log s' = io_log s @ reset_events (io + UHCI_USBCMD) @ reset_polls (io + UHCI_USBCMD) vs @ last"
    "if failed = 0 then \<exists>l. hw_inw hw l (io + UHCI_USBCMD) AND UHCI_USBCMD_HC_RESET = 0 \<and>
      last = [InW (io + UHCI_USBCMD) (hw_inw hw l (io + UHCI_USBCMD))] else last = [] \<and> length vs = 100"
    "naps S s s'"
    using uhci_reset_run [OF assms, of itoa_fixed other] by blast
  have "if failed = 0 then \<exists>v. last = [InW (io + UHCI_USBCMD) v] \<and> v AND UHCI_USBCMD_HC_RESET = 0 else last = [] \<and> length vs = 100"
    using r(5) by (auto split: if_splits)
  then show ?thesis using r(1-4,6) unfolding naps_def by blast
qed

theorem uhci_reset_bounded_witness:
  "\<exists>failed s'. uhci_reset stuck_hw (idt_common_isr 0x2000 (pit_dispatch 0x500 (\<lambda>_ _ _ _. None))) 0x5000 stuck_state = Some (failed, s') \<and>
     length (io_log s') \<le> 1125 \<and> take 2 (io_log s') = [OutW 0 4, Halt 32]"
proof -
  obtain failed s' vs last where r: "uhci_reset stuck_hw (idt_common_isr 0x2000 (pit_dispatch 0x500 (\<lambda>_ _ _ _. None))) 0x5000 stuck_state = Some (failed, s')"
    "length vs \<le> 100" "io_log s' = io_log stuck_state @ reset_events (0 + UHCI_USBCMD) @ reset_polls (0 + UHCI_USBCMD) vs @ last"
    "if failed = 0 then \<exists>v. last = [InW (0 + UHCI_USBCMD) v] \<and> v AND UHCI_USBCMD_HC_RESET = 0 else last = [] \<and> length vs = 100"
    using uhci_reset_bounded [OF stuck_timer(2) stuck_waits, of "0x2000" "\<lambda>_ _ _ _. None"] by blast
  have "io_log stuck_state = []" by (simp add: stuck_state_def usb_start_def)
  moreover have "length (reset_polls p vs) = 11 * length vs" for p by (induction vs) (simp_all add: reset_polls_def)
  moreover have "length last \<le> 1" using r(4) by (auto split: if_splits)
  ultimately have "length (io_log s') \<le> 1125" "take 2 (io_log s') = [OutW 0 4, Halt 32]"
    using r(2,3) by (simp_all add: reset_events_def uhci_macros UHCI_USBCMD_def numeral_eq_Suc)
  then show ?thesis using r(1) by blast
qed

text \<open>C18: With a timer that ticks for the next 264 events, enabling a port always returns: the port is reset for 100 ms, given 50 ms, then enabled and
  polled at most ten times, 10 ms apart. The result is true exactly when a poll has shown the enable
  bit; the change bits are then acknowledged by writing back what was read. Otherwise all ten polls
  have shown it clear, and a message is printed; only the screen and the two number
  buffers have changed, and what DMA may write to.\<close>

theorem enable_device_bounded:
  fixes s :: "'a uhci_state_scheme"
  assumes "timer_keeps (v_hw env) int_h S (io_log s) 264" and "waits pit_isr int_h S dev io s" and "on_screen s"
    and "local_buffer 64 (v_itoa_fixed env)" and "local_buffer 8 (v_print_buf env)"
  shows "\<exists>ok s' v vs last l.
    uhci_enable_device_on_port env (idt_common_isr (v_itoa_fixed env) (pit_dispatch pit_isr other)) dev port s = Some (ok, s') \<and>
    length (vs @ last) \<le> 10 \<and> (\<forall>v \<in> set vs. v AND UHCI_PORTSC_PORT_ENABLE = 0) \<and>
    io_log s' = io_log s @ enable_events (io + port) v @ enable_polls (io + port) (vs @ last) @ l \<and>
    (if ok then (\<exists>x y. last = [x] \<and> x AND UHCI_PORTSC_PORT_ENABLE \<noteq> 0 \<and> l = [InW (io + port) y, OutW (io + port) y])
     else last = [] \<and> length vs = 10) \<and>
    same_on (mem s) (mem s') (S - (text_page \<union> span 64 (v_itoa_fixed env) \<union> span 8 (v_print_buf env)))"
  by (rule enable_device_run [OF assms])

theorem enable_device_bounded_witness:
  "\<exists>ok s'. uhci_enable_device_on_port stuck_env (idt_common_isr (v_itoa_fixed stuck_env) (pit_dispatch 0x500 (\<lambda>_ _ _ _. None)))
       0x5000 0x10 stuck_state = Some (ok, s') \<and> ld32 0x3000 s' = 0x500"
proof -
  have "timer_keeps (v_hw stuck_env) 0x3000 UNIV (io_log stuck_state) 264" using stuck_timer(2) by (simp add: stuck_env_def)
  moreover have "on_screen stuck_state" by (simp add: on_screen_def stuck_state_def usb_start_def)
  moreover have "local_buffer 64 (v_itoa_fixed stuck_env)" "local_buffer 8 (v_print_buf stuck_env)"
    by (simp_all add: local_buffer_def stuck_env_def)
  ultimately obtain ok s' where
    "uhci_enable_device_on_port stuck_env (idt_common_isr (v_itoa_fixed stuck_env) (pit_dispatch 0x500 (\<lambda>_ _ _ _. None))) 0x5000 0x10 stuck_state
       = Some (ok, s')"
    "same_on (mem stuck_state) (mem s') (UNIV - (text_page \<union> span 64 (v_itoa_fixed stuck_env) \<union> span 8 (v_print_buf stuck_env)))"
    using enable_device_bounded [OF _ stuck_waits, of stuck_env "\<lambda>_ _ _ _. None" "0x10"] by blast
  moreover from this(2) have "ld32 0x3000 s' = ld32 0x3000 stuck_state"
    by (rule load32_same) (auto simp: stuck_env_def span_def)
  ultimately show ?thesis using stuck_values(1) by auto
qed

text \<open>C17: When the controller never leaves reset, its initialisation function gives up after 100 polls and
  returns false, and leaves no trace: what it allocated is freed, the heap holds the same live
  blocks, no interrupt handler has been registered, no transfer is pending, and no allocated byte
  has changed but the copy of the command register in the PCI device.\<close>

theorem reset_timeout_releases:
  fixes s :: "'a uhci_state_scheme"
  assumes "heap_inv lo hi s L" and "timer_inv pit_isr int_h s" and "on_screen s"
    and "timer_keeps (v_hw env) int_h UNIV (io_log s) 1131" and "memalloc sizeof_uhci_dev s = Some (p, s1)" and "p \<noteq> 0"
    and "is_UHCI_device dev s" and "span 68 dev \<subseteq> payload L \<union> - {lo..<hi}" and "unat dev + 68 \<le> 4294967296"
    and "(span 68 dev \<union> span 8 (v_print_buf env) \<union> text_page) \<inter> node int_h = {}" and "span 68 dev \<inter> text_page = {}"
    and "(text_page \<union> span 8 (v_print_buf env)) \<inter> {lo..<hi} = {}" and "node int_h \<subseteq> owned L \<union> - {lo..<hi}"
    and "local_buffer 8 (v_print_buf env)"
    and "\<And>l. hw_inw (v_hw env) l (ucast (ld32 (hdr_bar dev 4) s AND 0xfffe) + UHCI_USBCMD) AND UHCI_USBCMD_HC_RESET \<noteq> 0"
  shows "\<exists>s' l1 vs l2. pci_dev_init_cb env (idt_common_isr (v_itoa_fixed env) (pit_dispatch pit_isr other)) dev s = Some (False, s') \<and>
    io_log s' = io_log s @ l1 @ reset_events (ucast (ld32 (hdr_bar dev 4) s AND 0xfffe) + UHCI_USBCMD) @
      reset_polls (ucast (ld32 (hdr_bar dev 4) s AND 0xfffe) + UHCI_USBCMD) vs @ l2 \<and> length vs = 100 \<and>
    heap_inv lo hi s' L \<and> int_handlers s' = int_handlers s \<and> pending_queue s' = pending_queue s \<and>
    same_on (mem s) (mem s') ((owned L \<union> - {lo..<hi}) - (text_page \<union> span 8 (v_print_buf env) \<union> span 2 (hdr_command dev)))"
  by (rule init_reset_timeout [OF assms(1-4) assms(5,6) assms(7) assms(8,9) assms(10-13) assms(14,15)])

theorem reset_timeout_releases_witness:
  "\<exists>s'. pci_dev_init_cb stuck_env (idt_common_isr (v_itoa_fixed stuck_env) (pit_dispatch 0x500 (\<lambda>_ _ _ _. None))) 0x5000 stuck_state
      = Some (False, s') \<and> heap_inv 0x8000 0xC000 s' Map.empty \<and> int_handlers s' = int_handlers stuck_state"
proof -
  obtain s1 where a: "memalloc sizeof_uhci_dev stuck_state = Some (0x8008, s1)" using stuck_alloc by blast
  have e: "v_hw stuck_env = stuck_hw" "v_print_buf stuck_env = 0x2100" by (simp_all add: stuck_env_def)
  have "is_UHCI_device 0x5000 stuck_state" using stuck_values by (simp add: is_UHCI_device_def pci_layout)
  moreover have "on_screen stuck_state" by (simp add: on_screen_def stuck_state_def usb_start_def)
  moreover have "hw_inw stuck_hw l q AND UHCI_USBCMD_HC_RESET \<noteq> 0" for l q by (simp add: stuck_hw_def uhci_macros)
  moreover have "(span 68 0x5000 \<union> span 8 0x2100 \<union> text_page) \<inter> node 0x3000 = {}" "span 68 0x5000 \<inter> text_page = {}"
    "(text_page \<union> span 8 0x2100) \<inter> {0x8000..<0xC000} = {}" "node 0x3000 \<subseteq> owned Map.empty \<union> - {0x8000..<0xC000}"
    "span 68 0x5000 \<subseteq> payload Map.empty \<union> - {0x8000..<0xC000}" "local_buffer 8 0x2100"
    by (auto simp: span_def local_buffer_def)
  moreover have "unat (0x5000 :: u32) + 68 \<le> 4294967296" "(0x8008 :: u32) \<noteq> 0" by simp_all
  ultimately show ?thesis
    using reset_timeout_releases [OF stuck_inv stuck_timer(1), of stuck_env, unfolded e, OF _ stuck_timer(2) a, of "0x5000" "\<lambda>_ _ _ _. None"] by blast
qed

end
