(* ===== verification/UhciInitTheorems.thy ===== *)
theory UhciInitTheorems
  imports UhciBoot UhciResetTheorems
begin

text \<open>
  The initialisation of a controller leaves what a transfer starts from, and a machine on which it does.
\<close>


section \<open>A machine whose controller answers\<close>

definition calm_hw :: hw where
  "calm_hw = \<lparr>hw_inb = \<lambda>_ _. 0, hw_inw = \<lambda>_ _. 0, hw_inl = \<lambda>_ _. 0, hw_irq = \<lambda>_. 32, hw_dma = \<lambda>_ m. m\<rparr>"

definition calm_boot :: boot_env where
  "calm_boot = demo_boot\<lparr>b_uhci := (b_uhci demo_boot)\<lparr>v_hw := calm_hw\<rparr>\<rparr>"

lemma calm_env:
  "v_hw (b_uhci calm_boot) = calm_hw" "v_itoa_fixed (b_uhci calm_boot) = 0x2000" "v_done (b_uhci calm_boot) = 0x2200"
  "v_uhci_isr (b_uhci calm_boot) = 0x700" "b_int_h calm_boot = 0x3000" "b_pit_isr calm_boot = 0x500"
  by (simp_all add: calm_boot_def demo_boot_def)

text \<open>The machine of \<open>stuck_state\<close>, its controller on interrupt line 11.\<close>

definition line_state :: uhci_state where
  "line_state = st32 0x5040 11 stuck_state"

lemma line_values:
  "ld32 0x3000 line_state = 0x500" "ld32 0x3008 line_state = 0" "ld8 0x500d line_state = 0" "ld8 0x500e line_state = 3"
  "ld8 0x500f line_state = 0x0c" "ld32 0x5024 line_state = 0" "ld16 0x5000 line_state = 0" "ld8 0x5040 line_state = 11"
  "ld32 0x8000 line_state = 0x4000" "ld32 0x8004 line_state = 0" "ld32 0x800C line_state = 0" "free_block_head line_state = 0x8000"
  by (simp_all add: line_state_def stuck_state_def usb_start_def empty_heap_def init_memory_def Let_def load8_def load16_def load32_def
      st32_def store32_def)

lemma line_heap: "heap_ok 0x8000 0xC000 line_state [(0x8000, 0x4000)]"
proof -
  have "writes_in (- {0x8000..<0xC000}) stuck_state line_state"
    unfolding line_state_def by (rule writes_in_mono [OF writes_in_st(3)]) auto
  from heap_ok_writes [OF stuck_heap this] show ?thesis by simp
qed

lemma line_fields:
  "int_handlers line_state = (replicate 48 0)[32 := 0x3000]" "pending_queue line_state = 0" "on_screen line_state" "io_log line_state = []"
  by (simp_all add: line_state_def stuck_state_def usb_start_def on_screen_def st32_def)

lemma line_inv: "heap_inv 0x8000 0xC000 line_state Map.empty"
  using line_heap
  by (intro heap_inv_def [THEN iffD2] exI [of _ "[(0x8000, 0x4000)]"]) (auto simp: live_ok_def)

lemma line_timer: "timer_inv 0x500 0x3000 line_state" "timer_keeps calm_hw 0x3000 UNIV l n"
  using line_values line_fields by (simp_all add: timer_inv_def timer_keeps_def calm_hw_def h_next_def h_handler_def span_ok_def)

lemma line_place: "init_place (b_uhci calm_boot) 0x8000 0xC000 Map.empty 0x5000 0x3000 0"
  by (auto simp: init_place_def calm_env local_buffer_def chatter_def span_def span_ok_def)

lemma line_obtains: "\<exists>h. init_obtains (b_uhci calm_boot) (boot_isr calm_boot) 0x5000 line_state = Some (0x8008, 0, h)"
proof -
  have c: "(0x8008 :: u32) = 0x8000 + 8" by simp
  have fb: "0 = ld32 (ud_frame_list_base (0x8000 + 8)) line_state" using line_values(11) by (simp add: ud_frame_list_base_def)
  have ok: "heap_ok 0x8000 0xC000 line_state [(unat (0x8000 :: u32), 0x4000)]" using line_heap by simp
  obtain h where "init_obtains (b_uhci calm_boot) (idt_common_isr (v_itoa_fixed (b_uhci calm_boot))
      (pit_dispatch (b_pit_isr calm_boot) (uhci_handlers calm_boot))) 0x5000 line_state = Some (0x8000 + 8, 0, h)"
    by (rule init_obtains_front [OF line_inv line_fields(3) _ _ ok _ _ fb line_place])
      (use line_timer in \<open>simp_all add: calm_env leaves_reset_def calm_hw_def\<close>)
  then show ?thesis unfolding c boot_isr_def by blast
qed


section \<open>The initialisation makes the driver ready\<close>

text \<open>C10: When the controller leaves reset, no allocation is refused (\<open>init_obtains\<close>), no handler is registered
  for the interrupt line yet and no port ever reports a change (so that no device is initialised), the
  initialisation of a PCI device with the class codes of a UHCI controller returns true and leaves
  what a transfer starts from: the queue head is in the heap and empty, no transfer is pending, the
  heap invariant holds and every block that was live still is, and the driver's handler is in the
  chain of the interrupt line the device names, in front of none, with the controller as its user
  data; the timer is still hooked.\<close>

theorem init_makes_ready:
  fixes s :: "'a uhci_state_scheme"
  assumes "heap_inv lo hi s L" and "on_screen s" and "pending_queue s = 0" and "timer_inv (b_pit_isr b) (b_int_h b) s"
    and "timer_keeps (v_hw (b_uhci b)) (b_int_h b) UNIV (io_log s) 1131" and "is_UHCI_device dev s"
    and "init_obtains (b_uhci b) (boot_isr b) dev s = Some (p, fb, h)"
    and "init_place (b_uhci b) lo hi L dev (b_int_h b) fb"
    and "n = ld8 (hdr_interrupt_line dev) s + 32" and "unat n < max_isr_cnt" and "int_handlers s ! unat n = 0"
    and "length (int_handlers s) = max_isr_cnt" and "b_pit_isr b \<noteq> v_uhci_isr (b_uhci b)"
    and "no_change (v_hw (b_uhci b)) (ucast (ld32 (hdr_bar dev 4) s AND 0xfffe))"
  shows "\<exists>s' L'. pci_dev_init_cb (b_uhci b) (boot_isr b) dev s = Some (True, s') \<and>
    (\<forall>q r. L q = Some r \<longrightarrow> L' q = Some r) \<and>
    usb_ready (b_uhci b) lo hi L' p (handler_nodes b h) s' \<and> wired b p n h s' \<and>
    int_handlers s' = (int_handlers s)[unat n := h]"
proof -
  note a = assms
  obtain s' L' where r: "pci_dev_init_cb (b_uhci b) (boot_isr b) dev s = Some (True, s')" "\<forall>q r. L q = Some r \<longrightarrow> L' q = Some r"
    "usb_ready (b_uhci b) lo hi L' p (handler_nodes b h) s'" "timer_inv (b_pit_isr b) (b_int_h b) s'" "node_ok h"
    "int_handlers s' = (int_handlers s)[unat n := h]" "ld32 (h_handler h) s' = v_uhci_isr (b_uhci b)" "ld32 (h_userdata h) s' = p"
    using init_run [OF a(1-6) a(7) [unfolded boot_isr_def] a(8) _ _ a(12,14)] a(10,11)
    unfolding boot_isr_def [symmetric] handler_nodes_def a(9) by blast
  moreover have "node_ok (b_int_h b)" using a(5) by (simp add: timer_keeps_def)
  ultimately have "wired b p n h s'" using a(10,12,13) by (simp add: wired_def)
  then show ?thesis using r by blast
qed

theorem init_makes_ready_witness:
  "\<exists>s' L' h. pci_dev_init_cb (b_uhci calm_boot) (boot_isr calm_boot) 0x5000 line_state = Some (True, s') \<and>
     usb_ready (b_uhci calm_boot) 0x8000 0xC000 L' 0x8008 (handler_nodes calm_boot h) s' \<and> wired calm_boot 0x8008 43 h s' \<and>
     int_handlers s' = (replicate 48 0)[32 := 0x3000, 43 := h]"
proof -
  note e = calm_env line_values line_fields
  obtain h where ob: "init_obtains (b_uhci calm_boot) (boot_isr calm_boot) 0x5000 line_state = Some (0x8008, 0, h)"
    using line_obtains by blast
  have u: "is_UHCI_device 0x5000 line_state" using line_values by (simp add: is_UHCI_device_def pci_layout)
  have l: "43 = ld8 (hdr_interrupt_line 0x5000) line_state + 32" using line_values(8) by (simp add: hdr_interrupt_line_def)
  have n: "unat (43 :: u8) < max_isr_cnt" "int_handlers line_state ! unat (43 :: u8) = 0" "length (int_handlers line_state) = max_isr_cnt"
    by (simp_all add: line_fields)
  have c: "no_change calm_hw (ucast (ld32 (hdr_bar 0x5000 4) line_state AND 0xfffe))" by (simp add: no_change_def calm_hw_def)
  from init_makes_ready [OF line_inv line_fields(3,2), of calm_boot, unfolded calm_env, OF line_timer u ob [unfolded calm_env] line_place l n _ c]
  show ?thesis unfolding line_fields by auto
qed

end
