(* ===== verification/PciScan.thy ===== *)
theory PciScan
  imports PciHeader
begin

text \<open>
  The scan of a machine with one PCI function: the probes of the devices that are absent leave
  everything but \<open>tmp_dev\<close> alone, and the one that is present is scanned once.
\<close>


section \<open>Probing one device\<close>

lemma fill_loop_writes:
  "{unat dst..<unat e} \<subseteq> W \<Longrightarrow> writes_in W s (fill_loop dst byte e s)"
proof (induction dst byte e s rule: fill_loop.induct)
  case (1 dst byte e s)
  show ?case
  proof (cases "dst < e")
    case True
    then have lt: "unat dst < unat e" by (simp add: word_less_nat_alt)
    then have "unat dst + 1 < 4294967296" using unat_u32_lt [of e] by linarith
    then have "unat (dst + 1) = unat dst + 1" by (subst unat_add_u32) simp_all
    then have "writes_in W (st8 dst byte s) (fill_loop (dst + 1) byte e (st8 dst byte s))"
      using 1(2) True by (intro 1(1)) auto
    moreover have "writes_in W s (st8 dst byte s)" using 1(2) lt by (intro writes_in_st) auto
    ultimately show ?thesis using True by (subst fill_loop.simps) (auto intro: writes_in_trans)
  next
    case False
    then show ?thesis by (subst fill_loop.simps) simp
  qed
qed

text \<open>What \<open>pci_read_device\<close> does before it looks at the answer.\<close>

definition probe_setup :: "u32 \<Rightarrow> u8 \<Rightarrow> u8 \<Rightarrow> 'a machine_scheme \<Rightarrow> 'a machine_scheme" where
  "probe_setup tmp bus device s =
     st8 (dev_func tmp) 0 (st8 (dev_device tmp) device (st8 (dev_bus tmp) bus (fill_loop tmp 0 (tmp + sizeof_pci_dev) s)))"

lemma probe_setup_run:
  assumes tmp: "unat tmp + 68 < 4294967296"
  shows "writes_in (dev_bytes tmp) s (probe_setup tmp bus device s)"
    and "get_pci_dev_addr tmp reg (probe_setup tmp bus device s) = config_addr bus device 0 reg"
proof -
  have top: "unat tmp + 68 \<le> 4294967296" using tmp by simp
  have "unat (tmp + sizeof_pci_dev) = unat tmp + 68" using tmp by (simp add: sizeof_pci_dev_def unat_add_u32)
  then have "writes_in (dev_bytes tmp) s (fill_loop tmp 0 (tmp + sizeof_pci_dev) s)"
    by (intro fill_loop_writes) (simp add: dev_bytes_def)
  then show "writes_in (dev_bytes tmp) s (probe_setup tmp bus device s)"
    unfolding probe_setup_def dev_bus_def dev_device_def dev_func_def
    by (intro then_st8 [OF top] then_st8_first) simp_all
  show "get_pci_dev_addr tmp reg (probe_setup tmp bus device s) = config_addr bus device 0 reg"
    by (simp add: get_pci_dev_addr_eq probe_setup_def dev_bus_def dev_device_def dev_func_def load8_def store8_def)
qed

text \<open>The answer of the host bridge to the first read.\<close>

definition vendor :: "mem \<Rightarrow> u8 \<Rightarrow> u8 \<Rightarrow> u16" where
  "vendor space bus device = load16 space (config_addr bus device 0 0)"

lemma probe_vendor:
  assumes hw: "config_space hw space" and tmp: "unat tmp + 68 < 4294967296"
  obtains s' where "pci_read_16 hw tmp 0 (probe_setup tmp bus device s) = (vendor space bus device, s')"
    and "writes_in (dev_bytes tmp) s s'" and "get_pci_dev_addr tmp reg s' = config_addr bus device 0 reg"
proof -
  let ?s = "probe_setup tmp bus device s"
  let ?A = "config_addr bus device 0 0"
  let ?s' = "log_event (InW 0xcfc (vendor space bus device)) (log_event (OutL 0xcf8 ?A) ?s)"
  note r = probe_setup_run [OF tmp]
  have "\<forall>l. hw_inw hw (l @ [OutL 0xcf8 ?A]) (0xcfc + 0) = load16 space (?A + 0)"
    using hw unfolding config_space_def by (metis insertI1 ucast_0)
  then have "pci_read_16 hw tmp 0 ?s = (vendor space bus device, ?s')"
    by (simp add: pci_read_16_def Let_def port_defs log_event_def r(2) vendor_def)
  moreover have "writes_in (dev_bytes tmp) s ?s'" by (rule writes_in_trans [OF writes_in_trans [OF r(1) writes_in_log] writes_in_log])
  moreover have "get_pci_dev_addr tmp reg ?s' = config_addr bus device 0 reg"
    using r(2) [where bus = bus and device = device and s = s and reg = reg] by (simp add: get_pci_dev_addr_eq log_event_def)
  ultimately show thesis by (rule that)
qed

lemma read_device_absent_in:
  assumes "config_space hw space" and "unat tmp + 68 < 4294967296" and "vendor space bus device = 0xffff"
  shows "\<exists>s'. pci_read_device hw init_call tmp bus device s = Some s' \<and> writes_in (dev_bytes tmp) s s'"
proof -
  obtain s' where "pci_read_16 hw tmp 0 (probe_setup tmp bus device s) = (0xffff, s')" "writes_in (dev_bytes tmp) s s'"
    by (rule probe_vendor [OF assms(1,2), of bus device s 0, unfolded assms(3)])
  then show ?thesis by (simp add: pci_read_device_def Let_def probe_setup_def [symmetric])
qed

lemma read_device_single:
  assumes hw: "config_space hw space" and tmp: "unat tmp + 68 < 4294967296" and here: "vendor space bus device \<noteq> 0xffff"
    and single: "space (config_addr bus device 0 0 + 0xe) AND 0x80 = 0"
  obtains s1 where "writes_in (dev_bytes tmp) s s1" and "pci_read_device hw init_call tmp bus device s = scan_function hw init_call bus device 0 s1"
proof -
  obtain s' where v: "pci_read_16 hw tmp 0 (probe_setup tmp bus device s) = (vendor space bus device, s')"
    "writes_in (dev_bytes tmp) s s'" "get_pci_dev_addr tmp 0xc s' = config_addr bus device 0 0xc"
    by (rule probe_vendor [OF hw tmp])
  let ?t = "space (config_addr bus device 0 0 + 0xe)"
  have "hw_inb hw (l @ [OutL 0xcf8 (config_addr bus device 0 (0xe AND 0xfc))]) (0xcfc + ucast ((0xe :: u8) AND 0x3)) =
      load8 space (config_addr bus device 0 0 + ucast (0xe :: u8))" for l
  proof -
    have "ucast ((0xe :: u8) AND 0x3) < (4 :: u16)" by simp
    then show ?thesis using hw unfolding config_space_def by (simp only: config_addr_byte)
  qed
  from this [of "io_log s'"] have b: "pci_read_8 hw tmp 0xe s' = (?t, log_event (InB 0xcfe ?t) (log_event (OutL 0xcf8 (config_addr bus device 0 0xc)) s'))" (is "_ = (_, ?s1)")
    by (simp add: pci_read_8_def Let_def port_defs log_event_def v(3) load8_def)
  have "scan_functions hw init_call bus device 0 1 u = scan_function hw init_call bus device 0 u" for u
  proof -
    have "scan_functions hw init_call bus device 1 1 w = Some w" for w by (subst scan_functions.simps) simp
    then have "scan_functions hw init_call bus device 1 1 = Some" by (rule ext)
    then show ?thesis by (subst scan_functions.simps) (simp add: Option.bind_runit)
  qed
  then have "pci_read_device hw init_call tmp bus device s = scan_function hw init_call bus device 0 ?s1"
    using v(1) b here single by (simp add: pci_read_device_def Let_def probe_setup_def [symmetric])
  moreover have "writes_in (dev_bytes tmp) s ?s1" by (rule writes_in_trans [OF writes_in_trans [OF v(2) writes_in_log] writes_in_log])
  ultimately show thesis using that by blast
qed


section \<open>The whole scan\<close>

lemma for_each_nested: "for_each (\<lambda>x. for_each (f x) ys) xs s = for_each (\<lambda>(x, y). f x y) (List.product xs ys) s"
proof (induction xs arbitrary: s)
  case (Cons x xs)
  have "for_each (\<lambda>(x, y). f x y) (map (Pair x) ys) t = for_each (f x) ys t" for t
    by (induction ys arbitrary: t) (simp_all cong: Option.bind_cong)
  then show ?case using Cons by (simp add: for_each_append cong: Option.bind_cong)
qed simp

lemma for_each_writes:
  assumes "\<And>x s. x \<in> set xs \<Longrightarrow> \<exists>s'. f x s = Some s' \<and> writes_in W s s'"
  shows "\<exists>s'. for_each f xs s = Some s' \<and> writes_in W s s'"
  using assms
proof (induction xs arbitrary: s)
  case (Cons x xs)
  obtain s1 where 1: "f x s = Some s1" "writes_in W s s1" using Cons.prems [of x s] by auto
  obtain s2 where "for_each f xs s1 = Some s2" "writes_in W s1 s2" using Cons.IH [of s1] Cons.prems by auto
  with 1 show ?case by (auto intro: writes_in_trans)
qed auto

text \<open>The one function of the machine is function 0 of device \<open>D\<close> on bus \<open>B\<close>.\<close>

definition sole_function :: "mem \<Rightarrow> nat \<Rightarrow> nat \<Rightarrow> bool" where
  "sole_function space B D \<longleftrightarrow> B < 256 \<and> D < 32 \<and>
     (\<forall>bus < 256. \<forall>device < 32. vendor space (of_nat bus) (of_nat device) = 0xffff \<longleftrightarrow> (bus, device) \<noteq> (B, D)) \<and>
     space (config_addr (of_nat B) (of_nat D) 0 0 + 0xe) AND 0x80 = 0"

lemma enumerate_sole:
  assumes hw: "config_space hw space" and tmp: "unat tmp + 68 < 4294967296" and sole: "sole_function space B D"
    and scan: "\<forall>s1. writes_in (dev_bytes tmp) s s1 \<longrightarrow> (\<exists>s2. scan_function hw init_call (of_nat B) (of_nat D) 0 s1 = Some s2 \<and> P s2)"
  obtains s2 s3 where "pci_enumerate_devices hw init_call tmp s = Some s3" and "P s2" and "writes_in (dev_bytes tmp) s2 s3"
proof -
  let ?f = "\<lambda>(bus, device). pci_read_device hw init_call tmp (of_nat bus) (of_nat device)"
  have S: "B < 256" "D < 32" "\<forall>bus < 256. \<forall>device < 32. vendor space (of_nat bus) (of_nat device) = 0xffff \<longleftrightarrow> (bus, device) \<noteq> (B, D)"
    "space (config_addr (of_nat B) (of_nat D) 0 0 + 0xe) AND 0x80 = 0"
    using sole by (auto simp: sole_function_def)
  have "(B, D) \<in> set (List.product [0..<256] [0..<32])" unfolding set_product set_upt using S(1,2) by simp
  then obtain pre post where sp: "List.product [0..<256] [0..<32] = pre @ (B, D) # post" by (meson split_list)
  have "distinct (List.product [0..<256 :: nat] [0..<32 :: nat])" by (intro distinct_product distinct_upt)
  then have "distinct (pre @ (B, D) # post)" unfolding sp .
  then have off: "(B, D) \<notin> set (pre @ post)" by simp
  have away: "\<exists>s'. ?f x s = Some s' \<and> writes_in (dev_bytes tmp) s s'" if "x \<in> set (pre @ post)" for x s
  proof -
    obtain bus device where x: "x = (bus, device)" by (cases x)
    have "x \<in> set (List.product [0..<256] [0..<32])" using that unfolding sp by auto
    then have "bus < 256" "device < 32" unfolding x set_product set_upt by simp_all
    moreover have "(bus, device) \<noteq> (B, D)" using that off x by metis
    ultimately have "vendor space (of_nat bus) (of_nat device) = 0xffff" using S(3) by blast
    from read_device_absent_in [OF hw tmp this] show ?thesis by (simp add: x)
  qed
  obtain s0 where s0: "for_each ?f pre s = Some s0" "writes_in (dev_bytes tmp) s s0"
    using for_each_writes [of pre ?f "dev_bytes tmp" s, OF away] by auto
  have "vendor space (of_nat B) (of_nat D) \<noteq> 0xffff" using S(1,2) S(3) [THEN spec [of _ B]] by simp
  then obtain s1 where s1: "writes_in (dev_bytes tmp) s0 s1"
    "pci_read_device hw init_call tmp (of_nat B) (of_nat D) s0 = scan_function hw init_call (of_nat B) (of_nat D) 0 s1"
    by (rule read_device_single [OF hw tmp _ S(4)])
  obtain s2 where s2: "scan_function hw init_call (of_nat B) (of_nat D) 0 s1 = Some s2" "P s2"
    using scan writes_in_trans [OF s0(2) s1(1)] by blast
  obtain s3 where s3: "for_each ?f post s2 = Some s3" "writes_in (dev_bytes tmp) s2 s3"
    using for_each_writes [of post ?f "dev_bytes tmp" s2, OF away] by auto
  have "pci_enumerate_devices hw init_call tmp s = Some s3"
    unfolding pci_enumerate_devices_def for_each_nested sp 
    by (simp only: for_each_append for_each.simps s0(1) s1(2) s2(1) s3(1) Option.bind.bind_lunit prod.case)
  then show thesis using that s2(2) s3(2) by blast
qed

end
