(* ===== verification/BootDevice.thy ===== *)
theory BootDevice
  imports UhciBoot PciScan UhciRun
begin

text \<open>
  The program on a machine whose one PCI function is a UHCI controller: from the first instruction of
  \<open>stage2_main\<close> to the endless loop, with the driver ready for transfers.
\<close>


section \<open>Where things are\<close>

text \<open>
  The statics and locals of the program are outside of the heap and apart from each other. The word
  \<open>fb\<close> is what the driver takes for an address without having stored one.
\<close>

definition boot_layout :: "boot_env \<Rightarrow> u32 \<Rightarrow> bool" where
  "boot_layout b fb \<longleftrightarrow>
     (let heap = {unat (b_heap_start b)..<unat (b_heap_end b)}; c = chatter (v_itoa_fixed (b_uhci b)); d = unat (v_done (b_uhci b))
      in 16 \<le> unat (b_heap_start b) \<and> unat (b_heap_start b) + 9300 \<le> unat (b_heap_end b) \<and> b_heap_start b AND 3 = 0 \<and>
        local_buffer 64 (v_itoa_fixed (b_uhci b)) \<and> d \<notin> c \<and> (c \<union> {d}) \<inter> heap = {} \<and>
        node_ok (b_int_h b) \<and> node (b_int_h b) \<inter> (heap \<union> c \<union> {d} \<union> span 4 fb) = {} \<and>
        span 4 fb \<inter> heap = {} \<and> unat fb + 4 \<le> 4294967296 \<and>
        unat (b_tmp_dev b) + 68 < 4294967296 \<and> dev_bytes (b_tmp_dev b) \<inter> (heap \<union> node (b_int_h b)) = {} \<and>
        unat (b_drv b) + 4 \<le> 4294967296 \<and> span 4 (b_drv b) \<inter> (heap \<union> node (b_int_h b)) = {} \<and>
        b_pit_isr b \<noteq> v_uhci_isr (b_uhci b))"

text \<open>A state in which the driver can be initialised, with the heap in one piece from \<open>c\<close> on.\<close>

definition boot_state :: "boot_env \<Rightarrow> u32 \<Rightarrow> 'a uhci_state_scheme \<Rightarrow> bool" where
  "boot_state b fb s \<longleftrightarrow>
     (let lo = unat (b_heap_start b); hi = unat (b_heap_end b)
      in heap_ok lo hi s [(lo, hi - lo)] \<and> heap_inv lo hi s Map.empty \<and> on_screen s \<and> timer_inv (b_pit_isr b) (b_int_h b) s \<and>
        pending_queue s = 0 \<and> int_handlers s = (replicate 48 0)[32 := b_int_h b] \<and> registered_drivers s = 1 \<and>
        drivers s ! 0 = b_init_cb b \<and> ld32 (b_heap_start b + 88) s = fb)"

lemma boot_state_writes:
  assumes l: "boot_layout b fb" and s: "boot_state b fb s" and w: "writes_in (dev_bytes (b_tmp_dev b)) s s'"
  shows "boot_state b fb s'"
proof -
  let ?lo = "unat (b_heap_start b)" and ?hi = "unat (b_heap_end b)"
  have L: "?lo + 9300 \<le> ?hi" "dev_bytes (b_tmp_dev b) \<inter> ({?lo..<?hi} \<union> node (b_int_h b)) = {}" "node_ok (b_int_h b)"
    using l by (simp_all only: boot_layout_def Let_def)
  have S: "heap_ok ?lo ?hi s [(?lo, ?hi - ?lo)]" "heap_inv ?lo ?hi s Map.empty" "on_screen s" "timer_inv (b_pit_isr b) (b_int_h b) s"
    "pending_queue s = 0" "int_handlers s = (replicate 48 0)[32 := b_int_h b]" "registered_drivers s = 1"
    "drivers s ! 0 = b_init_cb b" "ld32 (b_heap_start b + 88) s = fb"
    using s by (simp_all only: boot_state_def Let_def)
  have f: "same_on (mem s) (mem s') ({?lo..<?hi} \<union> node (b_int_h b))"
    by (rule same_on_mono [OF writes_in_same [OF w]]) (use L(2) in blast)
  have m: "on_screen s'" "pending_queue s' = 0" "int_handlers s' = int_handlers s" "registered_drivers s' = 1"
    "drivers s' ! 0 = b_init_cb b" "free_block_head s' = free_block_head s"
    using w S by (auto simp: writes_in_def on_screen_def)
  have "heap_inv ?lo ?hi s' Map.empty" by (rule write_outcome [OF S(2) same_on_mono [OF f] m(6)]) blast
  moreover have "heap_ok ?lo ?hi s' [(?lo, ?hi - ?lo)]" by (rule write_keeps_free [OF S(2) same_on_mono [OF f] m(6) S(1)]) blast
  moreover have "timer_inv (b_pit_isr b) (b_int_h b) (s\<lparr>mem := mem s'\<rparr>)"
    by (rule timer_inv_dma [OF S(4) same_on_mono [OF f] L(3)]) blast
  then have "timer_inv (b_pit_isr b) (b_int_h b) s'" using m(3) by (simp add: timer_inv_def)
  moreover have "ld32 (b_heap_start b + 88) s' = fb"
  proof -
    have top: "?lo + 9300 < 4294967296" using L(1) unat_u32_lt [of "b_heap_end b"] by linarith
    then have a: "unat (b_heap_start b + 88) = ?lo + 88" by (subst unat_add_u32) auto
    have "ld32 (b_heap_start b + 88) s' = ld32 (b_heap_start b + 88) s"
      by (rule load32_span [OF f]) (use a L(1) top in \<open>auto simp: span_def\<close>)
    then show ?thesis using S(9) by simp
  qed
  ultimately show ?thesis using m(1-5) S(6) by (simp only: boot_state_def Let_def)
qed

text \<open>The state in which the scan starts.\<close>

lemma boot_reaches_scan:
  fixes s :: "'a uhci_state_scheme"
  assumes ready: "boot_ready b s" and quiet: "\<And>l n. timer_keeps (v_hw (b_uhci b)) (b_int_h b) UNIV l n"
    and cursor: "reported_cursor (v_hw (b_uhci b)) (io_log s) < 2000" and pq: "pending_queue s = 0"
    and l: "boot_layout b (ld32 (b_heap_start b + 88) s)"
  obtains s6 where "stage2_setup b s = pci_init (v_hw (b_uhci b)) (init_dispatch b) (b_tmp_dev b) s6"
    and "boot_state b (ld32 (b_heap_start b + 88) s) s6"
proof -
  let ?lo = "unat (b_heap_start b)" and ?hi = "unat (b_heap_end b)" and ?h = "b_int_h b" and ?c = "chatter (v_itoa_fixed (b_uhci b))"
  have L: "16 \<le> ?lo" "?lo + 9300 \<le> ?hi" "(?c \<union> {unat (v_done (b_uhci b))}) \<inter> {?lo..<?hi} = {}" "node_ok ?h"
    "node ?h \<inter> ({?lo..<?hi} \<union> ?c \<union> {unat (v_done (b_uhci b))} \<union> span 4 (ld32 (b_heap_start b + 88) s)) = {}"
    "unat (b_drv b) + 4 \<le> 4294967296" "span 4 (b_drv b) \<inter> ({?lo..<?hi} \<union> node ?h) = {}"
    using l by (simp_all only: boot_layout_def Let_def)
  have len: "length (drivers s) = 3" using ready by (simp add: boot_ready_def)
  obtain s4 l1 bs last l2 where s4: "stage2_setup b s = pci_init (v_hw (b_uhci b)) (init_dispatch b) (b_tmp_dev b)
      (uhci_init (b_drv b) (b_init_cb b) (init_memory (b_heap_start b) (b_heap_end b) s4))"
    "io_log s4 = io_log s @ l1 @ [OutB 0x43 0x34, OutB 0x40 0xA9, OutB 0x40 0x04] @
      setup_events COM1 1 @ wait_events (LINE_STATUS_REG COM1) bs @ last @ [OutB (MODEM_CTRL_REG COM1) 0x0f] @ l2"
    "length bs \<le> 10" "timer_inv (b_pit_isr b) ?h s4" "on_screen s4" "int_handlers s4 = (replicate 48 0)[32 := ?h]"
    "drivers s4 = drivers s" "registered_drivers s4 = 0" "pending_queue s4 = pending_queue s"
    "same_on (mem s) (mem s4) (UNIV - (text_page \<union> node ?h))"
    by (rule boot_before_heap [OF ready quiet cursor])
  let ?s5 = "init_memory (b_heap_start b) (b_heap_end b) s4"
  let ?s6 = "uhci_init (b_drv b) (b_init_cb b) ?s5"
  note s6 = boot_tables [OF s4(8), of "b_drv b" "b_init_cb b" "b_heap_start b" "b_heap_end b"]
  have top: "?lo + 9300 < 4294967296" using L(2) unat_u32_lt [of "b_heap_end b"] by linarith
  then have a: "unat (b_heap_start b + 88) = ?lo + 88" "unat (b_heap_start b + 4) = ?lo + 4"
    by (simp_all add: unat_add_u32)
  have m5: "same_on (mem s4) (mem ?s5) (- {?lo..<?lo + 8})"
    using a(2) top
    by (auto simp: init_memory_def Let_def intro!: same_on_trans [OF same_on_store32 same_on_store32])
  have m6: "same_on (mem ?s5) (mem ?s6) (- span 4 (b_drv b))"
    unfolding uhci_init_def pci_register_driver_def using L(6) by (auto simp: span_def)
  have h6: "free_block_head ?s6 = free_block_head ?s5" using s6(3) by (simp add: init_memory_def Let_def)
  have ok5: "heap_ok ?lo ?hi ?s5 [(?lo, ?hi - ?lo)]" by (rule init_memory_ok) (use L(1,2) in simp_all)
  have inv5: "heap_inv ?lo ?hi ?s5 Map.empty"
    using ok5 L(2) by (intro heap_inv_def [THEN iffD2] exI [of _ "[(?lo, ?hi - ?lo)]"]) (auto simp: live_ok_def)
  have f6: "same_on (mem ?s5) (mem ?s6) ({?lo..<?hi} - payload Map.empty)" by (rule same_on_mono [OF m6]) (use L(7) in blast)
  have "heap_inv ?lo ?hi ?s6 Map.empty" by (rule write_outcome [OF inv5 f6 h6])
  moreover have "heap_ok ?lo ?hi ?s6 [(?lo, ?hi - ?lo)]" by (rule write_keeps_free [OF inv5 f6 h6 ok5])
  moreover have "timer_inv (b_pit_isr b) ?h ?s6"
  proof -
    have "{?lo..<?lo + 8} \<subseteq> {?lo..<?hi}" using L(2) by auto
    then have "same_on (mem s4) (mem ?s6) (node ?h)"
      using L(5,7) by (intro same_on_trans [OF same_on_mono [OF m5] same_on_mono [OF m6]]) blast+
    from timer_inv_dma [OF s4(4) this L(4)] show ?thesis using s6(2) by (simp add: timer_inv_def)
  qed
  moreover have "on_screen ?s6 \<and> pending_queue ?s6 = 0"
    using s4(5,9) pq by (auto simp: on_screen_def uhci_init_def pci_register_driver_def init_memory_def st32_def Let_def)
  moreover have "ld32 (b_heap_start b + 88) ?s6 = ld32 (b_heap_start b + 88) s"
  proof -
    have w: "span 4 (b_heap_start b + 88) \<subseteq> {?lo + 8..<?hi}" using a(1) L(2) by (auto simp: span_def)
    have p: "text_page \<inter> {?lo..<?hi} = {}" using L(3) unfolding chatter_def by blast
    have n: "node ?h \<inter> {?lo..<?hi} = {}" using L(5) by blast
    have i: "{?lo + 8..<?hi} \<subseteq> {?lo..<?hi}" "{?lo + 8..<?hi} \<inter> {?lo..<?lo + 8} = {}" by auto
    have "same_on (mem s) (mem ?s6) {?lo + 8..<?hi}"
      by (rule same_on_trans [OF same_on_mono [OF s4(10)] same_on_trans [OF same_on_mono [OF m5] same_on_mono [OF m6]]])
        (use p n i L(7) in blast)+
    from load32_span [OF same_on_mono [OF this w]] show ?thesis using a(1) top by simp
  qed
  ultimately have "boot_state b (ld32 (b_heap_start b + 88) s) ?s6"
    using s6(2,4,5) s4(6,7) len by (simp add: boot_state_def Let_def)
  with s4(1) show thesis by (rule that)
qed


section \<open>The scan finds the controller\<close>

definition uhci_function :: "mem \<Rightarrow> u32 \<Rightarrow> bool" where
  "uhci_function space A \<longleftrightarrow> space (A + 9) = 0 \<and> space (A + 0xa) = 0x03 \<and> space (A + 0xb) = 0x0c \<and> space (A + 0xe) = 0"

lemma copied_uhci:
  assumes c: "copied_config space bus device func dev ({0..<50} \<union> {60..<64}) s" and A: "A = config_addr bus device func 0"
  shows "uhci_function space A \<Longrightarrow> is_UHCI_device dev s" and "ld32 (hdr_bar dev 4) s = load32 space (A + 0x20)"
    and "ld8 (hdr_interrupt_line dev) s = space (A + 0x3c)"
proof -
  have at: "mem s (dev + (4 + k)) = space (A + k)" if "unat k \<in> {0..<50} \<union> {60..<64}" for k
  proof -
    have "mem s (dev + 4 + k) = space (A + k)" using c that unfolding copied_config_def A by blast
    then show ?thesis by (simp add: add.assoc)
  qed
  note b = at [of 9] at [of "0xa"] at [of "0xb"] at [of "0x20"] at [of "0x21"] at [of "0x22"] at [of "0x23"] at [of "0x3c"]
  show "is_UHCI_device dev s" if "uhci_function space A"
    using that b(1-3) by (simp add: is_UHCI_device_def uhci_function_def pci_layout load8_def)
  show "ld32 (hdr_bar dev 4) s = load32 space (A + 0x20)"
    using b(4-7) by (simp add: pci_layout load32_def add.assoc)
  show "ld8 (hdr_interrupt_line dev) s = space (A + 0x3c)"
    using b(8) by (simp add: pci_layout load8_def)
qed

text \<open>What the scan leaves.\<close>

definition boot_done :: "boot_env \<Rightarrow> u32 \<Rightarrow> u8 \<Rightarrow> u32 \<Rightarrow> live \<Rightarrow> 'a uhci_state_scheme \<Rightarrow> bool" where
  "boot_done b p n h L s \<longleftrightarrow>
     (let lo = unat (b_heap_start b); hi = unat (b_heap_end b)
      in usb_ready (b_uhci b) lo hi L p (handler_nodes b h) s \<and> wired b p n h s \<and>
        int_handlers s = (replicate 48 0)[32 := b_int_h b, unat n := h] \<and>
        node h \<union> span 20 p \<union> span 4 (qh_qelp (ld32 (ud_qh1ms p) s)) \<subseteq> {lo..<hi})"

text \<open>The scan copies the header into the first block of the heap and offers it.\<close>

lemma scan_copies:
  fixes s :: "'a uhci_state_scheme"
  assumes l: "boot_layout b fb" and s: "boot_state b fb s" and hw: "config_space (v_hw (b_uhci b)) space"
    and A: "A = config_addr bus device 0 0" and fn: "uhci_function space A"
  defines "dev \<equiv> b_heap_start b + 8"
  obtains s' r where "scan_function (v_hw (b_uhci b)) (init_dispatch b) bus device 0 s =
      offer_drivers (init_dispatch b) 0 dev s' \<bind> (\<lambda>(taken, s). if taken then Some s else memfree dev s)"
    and "heap_inv (unat (b_heap_start b)) (unat (b_heap_end b)) s' [dev \<mapsto> r]" and "span 68 dev \<subseteq> payload [dev \<mapsto> r]"
    and "drivers s' = drivers s" and "registered_drivers s' = registered_drivers s"
    and "copied_config space bus device 0 dev ({0..<50} \<union> {60..<64}) s'"
    and "on_screen s'" and "pending_queue s' = 0" and "int_handlers s' = int_handlers s"
    and "heap_ok (unat (b_heap_start b)) (unat (b_heap_end b)) s'
      [(unat (b_heap_start b + 76), unat (b_heap_end b) - unat (b_heap_start b) - 76)]"
    and "timer_inv (b_pit_isr b) (b_int_h b) s'" and "ld32 (b_heap_start b + 88) s' = fb"
proof -
  let ?lo = "unat (b_heap_start b)" and ?hi = "unat (b_heap_end b)" and ?h = "b_int_h b"
  have L: "16 \<le> ?lo" "?lo + 9300 \<le> ?hi" "b_heap_start b AND 3 = 0" "node_ok ?h" "node ?h \<inter> {?lo..<?hi} = {}"
    using l by (auto simp: boot_layout_def Let_def)
  have S: "heap_ok ?lo ?hi s [(?lo, ?hi - ?lo)]" "heap_inv ?lo ?hi s Map.empty" "on_screen s" "timer_inv (b_pit_isr b) ?h s"
    "pending_queue s = 0" "ld32 (b_heap_start b + 88) s = fb"
    using s by (simp_all only: boot_state_def Let_def)
  have top: "?lo + 9300 < 4294967296" using L(2) unat_u32_lt [of "b_heap_end b"] by linarith
  have a: "unat dev = ?lo + 8" "unat (b_heap_start b + 76) = ?lo + 76" "unat (b_heap_start b + 88) = ?lo + 88"
    using top by (simp_all add: dev_def unat_add_u32)
  have dz: "dev \<noteq> 0" using a(1) by auto
  have z: "unat sizeof_pci_dev = 68" "sizeof_pci_dev \<noteq> 0" by (simp_all add: sizeof_pci_dev_def)
  obtain s1 where s1: "memalloc sizeof_pci_dev s = Some (dev, s1)" "heap_ok ?lo ?hi s1 [(?lo + 76, ?hi - ?lo - 76)]"
    "same_on (mem s) (mem s1) (- ({?lo..<?lo + 8} \<union> {?lo + 76..<?lo + 84}))" "only_heap s s1"
    unfolding dev_def by (rule alloc_front [OF S(1) L(3) z(2)]) (use L(2) z(1) in \<open>simp_all add: add.commute\<close>)
  have here: "space (A + 0xb) \<noteq> 0xff" "space (A + 0xe) \<noteq> 0xff" "space (A + 0xe) AND 0x7f = 0" using fn by (simp_all add: uhci_function_def)
  obtain s2 r where s2: "scan_function (v_hw (b_uhci b)) (init_dispatch b) bus device 0 s =
      offer_drivers (init_dispatch b) 0 dev s2 \<bind> (\<lambda>(taken, s). if taken then Some s else memfree dev s)"
    "heap_inv ?lo ?hi s2 (Map.empty(dev \<mapsto> r))" "Map.empty dev = (None :: (nat \<times> nat) option)" "drivers s2 = drivers s" "registered_drivers s2 = registered_drivers s"
    "copied_config space bus device 0 dev ({0..<50} \<union> {60..<64}) s2" "same_on (mem s) (mem s2) (owned Map.empty \<union> - {?lo..<?hi})"
    "writes_in (dev_bytes dev) s1 s2" "dev_bytes dev \<subseteq> payload (Map.empty(dev \<mapsto> r))"
    by (rule scan_function_present [OF S(2) s1(1) dz hw A here])
  have db: "dev_bytes dev = span 68 dev" by (simp add: dev_bytes_def span_def)
  have "heap_state.more s2 = heap_state.more s" using s2(8) s1(4) by (auto simp: writes_in_def only_heap_def)
  note m = more_eq [OF this]
  have ok2: "heap_ok ?lo ?hi s2 [(unat (b_heap_start b + 76), ?hi - ?lo - 76)]"
    unfolding a(2) by (rule heap_ok_writes [OF s1(2) s2(8)]) (use a(1) in \<open>auto simp: dev_bytes_def\<close>)
  have "timer_inv (b_pit_isr b) ?h (s\<lparr>mem := mem s2\<rparr>)"
    by (rule timer_inv_dma [OF S(4) same_on_mono [OF s2(7)] L(4)]) (use L(5) in blast)
  then have tm2: "timer_inv (b_pit_isr b) ?h s2" using m by (simp add: timer_inv_def)
  have w: "span 4 (b_heap_start b + 88) \<subseteq> - ({?lo..<?lo + 8} \<union> {?lo + 76..<?lo + 84})" "span 4 (b_heap_start b + 88) \<subseteq> - dev_bytes dev"
    using a(1,3) by (auto simp: span_def dev_bytes_def)
  have u: "unat (b_heap_start b + 88) + 4 \<le> 4294967296" using a(3) top by simp
  have fb2: "ld32 (b_heap_start b + 88) s2 = fb"
    using load32_span [OF s1(3) w(1) u] load32_span [OF writes_in_same [OF s2(8)] w(2) u] S(6) by simp
  show thesis
    by (rule that [OF s2(1,2) _ s2(4-6) _ _ _ ok2 tm2 fb2]) (use m S(3,5) s2(9) db in \<open>simp_all add: on_screen_def\<close>)
qed

lemma boot_place:
  assumes l: "boot_layout b fb" and L: "span 68 (b_heap_start b + 8) \<subseteq> payload L"
  shows "init_place (b_uhci b) (unat (b_heap_start b)) (unat (b_heap_end b)) L (b_heap_start b + 8) (b_int_h b) fb"
  unfolding init_place_def
proof (intro conjI)
  let ?lo = "unat (b_heap_start b)" and ?hi = "unat (b_heap_end b)" and ?h = "b_int_h b" and ?dev = "b_heap_start b + 8"
  let ?c = "chatter (v_itoa_fixed (b_uhci b))" and ?d = "unat (v_done (b_uhci b))"
  have B: "?lo + 9300 \<le> ?hi" "local_buffer 64 (v_itoa_fixed (b_uhci b))" "?d \<notin> ?c"
    "(?c \<union> {?d}) \<inter> {?lo..<?hi} = {}" "node_ok ?h" "node ?h \<inter> ({?lo..<?hi} \<union> ?c \<union> {?d} \<union> span 4 fb) = {}"
    "span 4 fb \<inter> {?lo..<?hi} = {}" "unat fb + 4 \<le> 4294967296"
    using l by (simp_all only: boot_layout_def Let_def not_False_eq_True)
  have "?lo + 9300 < 4294967296" using B(1) unat_u32_lt [of "b_heap_end b"] by linarith
  then have d: "unat ?dev = ?lo + 8" "unat ?dev + 68 \<le> 4294967296" by (simp_all add: unat_add_u32)
  then have dh: "span 68 ?dev \<subseteq> {?lo..<?hi}" using B(1) by (auto simp: span_def)
  show "span 68 ?dev \<subseteq> payload L \<union> - {?lo..<?hi}" using L by blast
  show "span 68 ?dev \<inter> (span 4 fb \<union> ?c \<union> node ?h) = {}" using dh B(4,6,7) by blast
  show "node ?h \<subseteq> owned L \<union> - {?lo..<?hi}" "node ?h \<inter> (span 4 fb \<union> ?c \<union> {?d}) = {}" using B(6) by blast+
  show "unat ?dev + 68 \<le> 4294967296" by (rule d)
qed (use l in \<open>simp_all only: boot_layout_def Let_def not_False_eq_True\<close>)

lemma aligned_76:
  fixes p :: u32
  assumes "p AND 3 = 0" and "unat (p + 76) = unat p + 76"
  shows "p + 76 AND 3 = 0"
proof -
  have "unat p mod 4 = 0" using assms(1) unat_and_mask_mod [of p 2] by (simp add: mask_eq_exp_minus_1)
  then have "unat (p + 76) mod 4 = 0" unfolding assms(2) by presburger
  then show ?thesis using unat_and_mask_mod [of "p + 76" 2] by (simp add: word_unat_eq_iff mask_eq_exp_minus_1)
qed

lemma scan_readies:
  fixes s :: "'a uhci_state_scheme"
  assumes l: "boot_layout b fb" and s: "boot_state b fb s"
    and quiet: "\<And>l n. timer_keeps (v_hw (b_uhci b)) (b_int_h b) UNIV l n"
    and hw: "config_space (v_hw (b_uhci b)) space" and A: "A = config_addr bus device 0 0" and fn: "uhci_function space A"
    and io: "io = ucast (load32 space (A + 0x20) AND 0xfffe)" "leaves_reset (v_hw (b_uhci b)) io" "no_change (v_hw (b_uhci b)) io"
    and n: "n = space (A + 0x3c) + 32" "unat n < max_isr_cnt" "n \<noteq> 32"
  shows "\<exists>s' L h. scan_function (v_hw (b_uhci b)) (init_dispatch b) bus device 0 s = Some s' \<and> boot_done b (b_heap_start b + 84) n h L s'"
proof -
  let ?lo = "unat (b_heap_start b)" and ?hi = "unat (b_heap_end b)" and ?hw = "v_hw (b_uhci b)" and ?h = "b_int_h b"
  let ?dev = "b_heap_start b + 8"
  have L: "?lo + 9300 \<le> ?hi" "b_heap_start b AND 3 = 0" "node_ok ?h" "b_pit_isr b \<noteq> v_uhci_isr (b_uhci b)"
    using l by (simp_all add: boot_layout_def Let_def)
  have S: "int_handlers s = (replicate 48 0)[32 := ?h]" "registered_drivers s = 1" "drivers s ! 0 = b_init_cb b"
    using s by (simp_all only: boot_state_def Let_def)
  have top: "?lo + 9300 < 4294967296" using L(1) unat_u32_lt [of "b_heap_end b"] by linarith
  obtain s2 r where s2: "scan_function ?hw (init_dispatch b) bus device 0 s =
      offer_drivers (init_dispatch b) 0 ?dev s2 \<bind> (\<lambda>(taken, s). if taken then Some s else memfree ?dev s)"
    "heap_inv ?lo ?hi s2 [?dev \<mapsto> r]" "span 68 ?dev \<subseteq> payload [?dev \<mapsto> r]" "drivers s2 = drivers s" "registered_drivers s2 = registered_drivers s"
    "copied_config space bus device 0 ?dev ({0..<50} \<union> {60..<64}) s2" "on_screen s2" "pending_queue s2 = 0" "int_handlers s2 = int_handlers s"
    "heap_ok ?lo ?hi s2 [(unat (b_heap_start b + 76), ?hi - ?lo - 76)]" "timer_inv (b_pit_isr b) ?h s2" "ld32 (b_heap_start b + 88) s2 = fb"
    by (rule scan_copies [OF l s hw A fn])
  note pl = boot_place [OF l s2(3)]
  have al: "b_heap_start b + 76 AND 3 = 0" by (rule aligned_76 [OF L(2)]) (use top in \<open>simp add: unat_add_u32\<close>)
  have c84: "b_heap_start b + 76 + 8 = b_heap_start b + 84" by simp
  have "ud_frame_list_base (b_heap_start b + 76 + 8) = b_heap_start b + 88" by (simp add: ud_frame_list_base_def)
  then have fb2: "fb = ld32 (ud_frame_list_base (b_heap_start b + 76 + 8)) s2" using s2(12) by simp
  note cu = copied_uhci [OF s2(6) A]
  have bar: "ucast (ld32 (hdr_bar ?dev 4) s2 AND 0xfffe) = io" using cu(2) io(1) by simp
  have u76: "unat (b_heap_start b + 76) = ?lo + 76" using top by (simp add: unat_add_u32)
  obtain h where ob: "init_obtains (b_uhci b) (idt_common_isr (v_itoa_fixed (b_uhci b)) (pit_dispatch (b_pit_isr b) (uhci_handlers b))) ?dev s2 =
      Some (b_heap_start b + 84, fb, h)"
    by (rule init_obtains_front [OF s2(2,7,11) quiet s2(10) al _ fb2 pl, unfolded bar c84, OF _ io(2)]) (use L(1) u76 in simp_all)
  have ln: "ld8 (hdr_interrupt_line ?dev) s2 + 32 = n" using cu(3) n(1) by simp
  have "unat n \<noteq> unat (32 :: u8)" using n(3) by (simp only: word_unat_eq_iff simp_thms)
  then have free: "int_handlers s2 ! unat n = 0" "length (int_handlers s2) = max_isr_cnt" using s2(9) S(1) n(2) by simp_all
  from init_run [OF s2(2,7,8,11) quiet cu(1) [OF fn] ob pl, unfolded ln bar, OF n(2) free io(3)]
  obtain s' L' where I: "pci_dev_init_cb (b_uhci b) (boot_isr b) ?dev s2 = Some (True, s')"
    "usb_ready (b_uhci b) ?lo ?hi L' (b_heap_start b + 84) (node ?h \<union> node h) s'" "timer_inv (b_pit_isr b) ?h s'" "node_ok h"
    "int_handlers s' = (int_handlers s2)[unat n := h]" "ld32 (h_handler h) s' = v_uhci_isr (b_uhci b)" "ld32 (h_userdata h) s' = b_heap_start b + 84"
    "node h \<union> span 20 (b_heap_start b + 84) \<union> span 4 (qh_qelp (ld32 (ud_qh1ms (b_heap_start b + 84)) s')) \<subseteq> {?lo..<?hi}"
    unfolding boot_isr_def by blast
  have "init_dispatch b (drivers s2 ! unat (0 :: u8)) ?dev s2 = Some (True, s')"
    using s2(4) S(3) I(1) by (simp add: init_dispatch_def)
  then have "offer_drivers (init_dispatch b) 0 ?dev s2 = Some (True, s')"
    using s2(5) S(2) by (subst offer_drivers.simps) simp
  then have run: "scan_function ?hw (init_dispatch b) bus device 0 s = Some s'" using s2(1) by simp
  have "wired b (b_heap_start b + 84) n h s'"
    using I(3-7) L(3,4) n(2) free(2) by (simp add: wired_def)
  then have "boot_done b (b_heap_start b + 84) n h L' s'"
    using I(2,5,8) s2(9) S(1) by (simp add: boot_done_def handler_nodes_def)
  with run show ?thesis by blast
qed

text \<open>The probes behind it change nothing of that.\<close>

lemma boot_done_writes:
  assumes l: "boot_layout b fb" and d: "boot_done b p n h L s" and w: "writes_in (dev_bytes (b_tmp_dev b)) s s'"
  shows "boot_done b p n h L s'"
proof -
  let ?lo = "unat (b_heap_start b)" and ?hi = "unat (b_heap_end b)"
  have off: "dev_bytes (b_tmp_dev b) \<inter> ({?lo..<?hi} \<union> node (b_int_h b)) = {}"
    using l by (simp_all only: boot_layout_def Let_def)
  have D: "usb_ready (b_uhci b) ?lo ?hi L p (handler_nodes b h) s" "wired b p n h s" "int_handlers s = (replicate 48 0)[32 := b_int_h b, unat n := h]"
    "node h \<union> span 20 p \<union> span 4 (qh_qelp (ld32 (ud_qh1ms p) s)) \<subseteq> {?lo..<?hi}"
    using d by (simp_all only: boot_done_def Let_def)
  have f: "same_on (mem s) (mem s') ({?lo..<?hi} \<union> node (b_int_h b))"
    by (rule same_on_mono [OF writes_in_same [OF w]]) (use off in blast)
  have m: "int_handlers s' = int_handlers s" "on_screen s' = on_screen s" "pending_queue s' = pending_queue s" "free_block_head s' = free_block_head s"
    using w by (auto simp: writes_in_def on_screen_def)
  have U: "heap_inv ?lo ?hi s L" "on_screen s" "pending_queue s = 0" "usb_layout (b_uhci b) ?lo ?hi L p (ld32 (ud_qh1ms p) s) (handler_nodes b h)"
    "ld32 (qh_qelp (ld32 (ud_qh1ms p) s)) s AND UHCI_TD_LPTR_TERM \<noteq> 0"
    using D(1) by (simp_all add: usb_ready_def)
  have t: "unat p + 20 \<le> 4294967296" "unat (qh_qelp (ld32 (ud_qh1ms p) s)) + 4 \<le> 4294967296" using U(4) by (simp_all add: usb_layout_def)
  have q: "ld32 (ud_qh1ms p) s' = ld32 (ud_qh1ms p) s"
    by (rule load32_span [OF f _ dev_fields(2) [OF t(1)]]) (use dev_fields(1) [OF t(1)] D(4) in blast)
  have e: "ld32 (qh_qelp (ld32 (ud_qh1ms p) s)) s' = ld32 (qh_qelp (ld32 (ud_qh1ms p) s)) s"
    by (rule load32_span [OF f _ t(2)]) (use D(4) in blast)
  have "heap_inv ?lo ?hi s' L" by (rule write_outcome [OF U(1) same_on_mono [OF f] m(4)]) blast
  then have "usb_ready (b_uhci b) ?lo ?hi L p (handler_nodes b h) s'" using U(2-5) q e m by (simp add: usb_ready_def)
  moreover have "wired b p n h s'"
    by (rule wired_frame [OF D(2) same_on_mono [OF f] m(1)]) (use D(4) in \<open>auto simp: handler_nodes_def\<close>)
  ultimately show ?thesis using D(3,4) q m(1) by (simp add: boot_done_def)
qed

end
