(* ===== verification/BootTheorems.thy ===== *)
theory BootTheorems
  imports BootDevice
begin

text \<open>
  The whole start of the program on a machine with a UHCI controller, and such a machine.
\<close>


section \<open>A machine with one controller\<close>

lemma config_addr_nat:
  assumes "B < 256" and "D < 32"
  shows "unat (config_addr (of_nat B) (of_nat D) 0 0) = 2147483648 + 65536 * B + 2048 * D"
proof -
  define t b d :: u32 where "t = push_bit 31 1" and "b = push_bit 16 (ucast (of_nat B :: u8))" and "d = push_bit 11 (ucast ((of_nat D :: u8) AND 0x1f))"
  have m: "(0x1f :: u8) = mask 5" by (simp add: mask_eq_exp_minus_1)
  have bits: "bit b n \<Longrightarrow> 16 \<le> n \<and> n < 24" "bit d n \<Longrightarrow> 11 \<le> n \<and> n < 16" "bit t n \<longleftrightarrow> n = 31" for n
  proof -
    show "bit b n \<Longrightarrow> 16 \<le> n \<and> n < 24" "bit d n \<Longrightarrow> 11 \<le> n \<and> n < 16"
      by (auto simp: b_def d_def m bit_simps dest: bit_imp_le_length)
    show "bit t n \<longleftrightarrow> n = 31" unfolding t_def bit_push_bit_iff bit_1_iff by auto
  qed
  have "\<not> bit (t AND b) n" "\<not> bit ((t OR b) AND d) n" for n
    using bits [of n] by (auto simp: bit_and_iff bit_or_iff)
  then have z: "t AND b = 0" "(t OR b) AND d = 0" by (auto intro!: bit_word_eqI)
  have "t OR b OR d = (t OR b) + d" unfolding or.assoc [symmetric] by (rule disjunctive_add_eq_or [OF z(2), symmetric])
  also have "\<dots> = t + b + d" by (simp only: disjunctive_add_eq_or [OF z(1)])
  finally have "t OR b OR d = t + b + d" .
  then have c: "config_addr (of_nat B) (of_nat D) 0 0 = t + b + d" by (simp add: config_addr_def t_def b_def d_def or.assoc)
  have ub: "unat (of_nat B :: u8) = B" "unat ((of_nat D :: u8) AND 0x1f) = D"
    using assms by (simp_all add: m unat_and_mask_mod unat_of_nat)
  have u: "unat t = 2147483648" "unat b = 65536 * B" "unat d = 2048 * D"
    using assms ub by (simp_all add: t_def b_def d_def push_bit_eq_mult unat_word_ariths)
  have "unat (t + b) = 2147483648 + 65536 * B" using assms u by (subst unat_add_u32) simp_all
  then show ?thesis unfolding c using assms u by (subst unat_add_u32) simp_all
qed

text \<open>The controller is device 1 on bus 0, its registers are at \<open>0xc000\<close>, its interrupt is line 11.\<close>

definition controller_header :: "nat \<Rightarrow> u8" where
  "controller_header k =
     (if k = 0 then 0x86 else if k = 1 then 0x80 else if k = 0xa then 0x03 else if k = 0xb then 0x0c else
      if k = 0x21 then 0xc0 else if k = 0x3c then 11 else 0)"

definition one_controller :: mem where
  "one_controller a = (if 0x80000800 \<le> unat a \<and> unat a < 0x80000900 then controller_header (unat a - 0x80000800) else 0xff)"

definition window :: "io_event list \<Rightarrow> u16 \<Rightarrow> u32 option" where
  "window l p = (case rev l of OutL q a # _ \<Rightarrow> if q = 0xcf8 \<and> 0xcfc \<le> p \<and> p \<le> 0xcff then Some (a + ucast (p - 0xcfc)) else None | _ \<Rightarrow> None)"

definition pc_hw :: hw where
  "pc_hw = \<lparr>hw_inb = \<lambda>l p. (case window l p of Some a \<Rightarrow> load8 one_controller a | None \<Rightarrow> 0),
     hw_inw = \<lambda>l p. (case window l p of Some a \<Rightarrow> load16 one_controller a | None \<Rightarrow> 0),
     hw_inl = \<lambda>l p. (case window l p of Some a \<Rightarrow> load32 one_controller a | None \<Rightarrow> 0), hw_irq = \<lambda>_. 32, hw_dma = \<lambda>_ m. m\<rparr>"

definition pc_boot :: boot_env where
  "pc_boot = demo_boot\<lparr>b_uhci := (b_uhci demo_boot)\<lparr>v_hw := pc_hw\<rparr>\<rparr>"

lemma pc_space: "config_space pc_hw one_controller"
proof -
  have w: "window (l @ [OutL 0xcf8 a]) (0xcfc + k) = Some (a + ucast k)" if "k < 4" for l a and k :: u16
  proof -
    have "k = 0 \<or> k = 1 \<or> k = 2 \<or> k = 3" using that by (simp add: word_less_nat_alt word_unat_eq_iff) arith
    then show ?thesis by (auto simp: window_def)
  qed
  from w w [of 0] w [of 2] show ?thesis by (auto simp: config_space_def pc_hw_def)
qed

lemma pc_bus: "sole_function one_controller 0 1"
proof -
  have v: "vendor one_controller (of_nat B) (of_nat D) = 0xffff \<longleftrightarrow> (B, D) \<noteq> (0, 1)" if "B < 256" "D < 32" for B D
  proof (cases "(B, D) = (0, 1)")
    case True
    then show ?thesis by (simp add: vendor_def config_addr_def load16_def one_controller_def controller_header_def)
  next
    case False
    let ?A = "config_addr (of_nat B) (of_nat D) 0 0"
    have A: "unat ?A = 2147483648 + 65536 * B + 2048 * D" by (rule config_addr_nat [OF that])
    then have A1: "unat (?A + 1) = unat ?A + 1" using that by (subst unat_add_u32) simp_all
    have "B \<noteq> 0 \<or> D = 0 \<or> 2 \<le> D" using False by auto
    then have "65536 * B + 2048 * D + e < 2048 \<or> 2304 \<le> 65536 * B + 2048 * D + e" if "e \<le> 1" for e
      using that \<open>D < 32\<close> by (cases "B = 0") auto
    from this [of 0] this [of 1] have "one_controller ?A = 0xff" "one_controller (?A + 1) = 0xff"
      unfolding one_controller_def A1 A by auto
    then show ?thesis using False by (simp add: vendor_def load16_def)
  qed
  have "one_controller (config_addr (of_nat 0) (of_nat 1) 0 0 + 0xe) AND 0x80 = 0"
    by (simp add: config_addr_def one_controller_def controller_header_def)
  then show ?thesis using v by (simp add: sole_function_def)
qed

lemma pc_function: "uhci_function one_controller 0x80000800" "load32 one_controller (0x80000800 + 0x20) = 0xc000"
  "one_controller (0x80000800 + 0x3c) = 11"
  by (simp_all add: uhci_function_def one_controller_def controller_header_def load32_def)

lemma pc_registers: "leaves_reset pc_hw 0xc000" "no_change pc_hw 0xc000"
  by (auto simp: leaves_reset_def no_change_def pc_hw_def window_def ports_def UHCI_USBCMD_def UHCI_PORTSC1_def UHCI_PORTSC2_def
      split: list.splits io_event.splits)


section \<open>From the start to the endless loop\<close>

text \<open>C9: On a machine whose only PCI function is a UHCI controller that leaves reset and on which no port ever
  reports a change of its connection, as when nothing is plugged in, and whose interrupt line is not
  the timer's, the program,
  started with the tables as the linker leaves them, initialises the display, the timer, the serial
  port and the heap, finds the controller in the scan of all buses, whatever its place, and reaches
  the endless loop with the driver ready: the queue head in the heap and empty, no transfer pending,
  the heap invariant intact, and the chains of the timer interrupt and of the controller's interrupt
  leading to their handlers, the latter with the controller as its user data.\<close>

theorem stage2_readies_controller:
  fixes s :: "'a uhci_state_scheme"
  assumes "boot_ready b s" and "pending_queue s = 0" and "reported_cursor (v_hw (b_uhci b)) (io_log s) < 2000"
    and "boot_layout b (ld32 (b_heap_start b + 88) s)" and "\<And>l k. timer_keeps (v_hw (b_uhci b)) (b_int_h b) UNIV l k"
    and "config_space (v_hw (b_uhci b)) space" and "sole_function space B D"
    and "A = config_addr (of_nat B) (of_nat D) 0 0" and "uhci_function space A"
    and "io = ucast (load32 space (A + 0x20) AND 0xfffe)" and "leaves_reset (v_hw (b_uhci b)) io" and "no_change (v_hw (b_uhci b)) io"
    and "n = space (A + 0x3c) + 32" and "unat n < max_isr_cnt" and "n \<noteq> 32"
  shows "\<exists>s' L p h. stage2_setup b s = Some s' \<and>
    usb_ready (b_uhci b) (unat (b_heap_start b)) (unat (b_heap_end b)) L p (handler_nodes b h) s' \<and> wired b p n h s' \<and>
    int_handlers s' = (replicate 48 0)[32 := b_int_h b, unat n := h]"
proof -
  note a = assms
  let ?fb = "ld32 (b_heap_start b + 88) s"
  obtain s6 where s6: "stage2_setup b s = pci_init (v_hw (b_uhci b)) (init_dispatch b) (b_tmp_dev b) s6" "boot_state b ?fb s6"
    by (rule boot_reaches_scan [OF a(1,5,3,2,4)])
  have tmp: "unat (b_tmp_dev b) + 68 < 4294967296" using a(4) by (simp add: boot_layout_def Let_def)
  have "\<forall>s1. writes_in (dev_bytes (b_tmp_dev b)) s6 s1 \<longrightarrow>
      (\<exists>s2. scan_function (v_hw (b_uhci b)) (init_dispatch b) (of_nat B) (of_nat D) 0 s1 = Some s2 \<and>
        (\<exists>L h. boot_done b (b_heap_start b + 84) n h L s2))"
    using scan_readies [OF a(4) boot_state_writes [OF a(4) s6(2)] a(5,6,8-15)] by blast
  then obtain s2 s' where s': "pci_enumerate_devices (v_hw (b_uhci b)) (init_dispatch b) (b_tmp_dev b) s6 = Some s'"
    "\<exists>L h. boot_done b (b_heap_start b + 84) n h L s2" "writes_in (dev_bytes (b_tmp_dev b)) s2 s'"
    by (rule enumerate_sole [OF a(6) tmp a(7)])
  then obtain L h where "boot_done b (b_heap_start b + 84) n h L s'" using boot_done_writes [OF a(4)] by blast
  then show ?thesis using s6(1) s'(1) unfolding boot_done_def Let_def pci_init_def by auto
qed

theorem stage2_readies_controller_witness:
  "\<exists>s' L p h. stage2_setup pc_boot demo_start = Some s' \<and> usb_ready (b_uhci pc_boot) 0x8000 0xC000 L p (handler_nodes pc_boot h) s' \<and>
     wired pc_boot p 43 h s' \<and> int_handlers s' = (replicate 48 0)[32 := 0x3000, 43 := h]"
proof -
  have e: "v_hw (b_uhci pc_boot) = pc_hw" "b_int_h pc_boot = 0x3000" "b_heap_start pc_boot = 0x8000" "b_heap_end pc_boot = 0xC000"
    by (simp_all add: pc_boot_def demo_boot_def)
  have r: "boot_ready pc_boot demo_start"
    by (auto simp: boot_ready_def pc_boot_def demo_boot_def demo_start_def h_handler_def span_ok_def span_def)
  have q: "pending_queue demo_start = 0" by (simp add: demo_start_def)
  have c: "reported_cursor pc_hw (io_log demo_start) < 2000"
    by (simp add: reported_cursor_def pc_hw_def window_def demo_start_def)
  have f: "ld32 (0x8000 + 88) demo_start = 0" by (simp add: demo_start_def load32_def store32_def)
  have l: "boot_layout pc_boot (ld32 (b_heap_start pc_boot + 88) demo_start)"
    unfolding e f by (auto simp: boot_layout_def Let_def pc_boot_def demo_boot_def local_buffer_def chatter_def span_def span_ok_def dev_bytes_def)
  have t: "timer_keeps pc_hw 0x3000 UNIV l k" for l k by (simp add: timer_keeps_def pc_hw_def span_ok_def)
  have A: "0x80000800 = config_addr (of_nat 0) (of_nat 1) 0 0" by (simp add: config_addr_def)
  have io: "0xc000 = (ucast (load32 one_controller (0x80000800 + 0x20) AND 0xfffe) :: u16)" unfolding pc_function(2) by simp
  have n: "43 = one_controller (0x80000800 + 0x3c) + 32" unfolding pc_function(3) by simp
  have "unat (43 :: u8) < max_isr_cnt" "(43 :: u8) \<noteq> 32" by simp_all
  from stage2_readies_controller [OF r q _ l, unfolded e, OF c t pc_space pc_bus A pc_function(1) io pc_registers n this]
  show ?thesis by simp
qed

end
