(* ===== verification/GdbStub.thy ===== *)
theory GdbStub
  imports Serial MemOps
begin

text \<open>
  The debugger stub: the C part of \<open>utils/i386-stub.c\<close> and \<open>utils/gdbstub.c\<close>, that is, the
  packet protocol over the serial port, hexadecimal conversion, the command interpreter and the
  installation of the exception handlers.

  The two packet buffers and the array \<open>registers\<close> are ranges of memory (the commands \<open>m\<close> and
  \<open>M\<close> can read and write them), whose addresses are fields of \<open>gdb_env\<close>, with those of the
  functions and locals whose address is taken. \<open>v_faults\<close> says which addresses cannot be
  accessed and \<open>v_errcode\<close> is the error code the processor pushes then; \<open>v_junk\<close> is what the
  register with the result holds after such an access.
\<close>

record gdb_state = idt_state +
  initialized :: u8
  remote_debug :: u32
  gdb_i386vector :: u32
  gdb_i386errcode :: u32
  mem_fault_routine :: u32
  mem_err :: u32
  stackPtr :: u32

record gdb_env =
  v_ghw :: hw
  v_in_buffer :: u32
  v_out_buffer :: u32
  v_registers :: u32
  v_gdb_print_buf :: u32
  v_set_mem_err :: u32
  v_faults :: "u32 \<Rightarrow> bool"
  v_errcode :: "u32 \<Rightarrow> u32"
  v_junk :: u8
  v_idtr :: u32
  v_stack_end :: u32
  v_catch :: "nat \<Rightarrow> u32"
  v_hook_return :: "u32 \<Rightarrow> u32"
  v_handler_return :: u32

abbreviation (input) BUFMAX :: nat where "BUFMAX \<equiv> 400"
abbreviation (input) NUMREGS :: nat where "NUMREGS \<equiv> 16"
abbreviation (input) NUMREGBYTES :: nat where "NUMREGBYTES \<equiv> NUMREGS * 4"


section \<open>\<open>gdbstub.c\<close>\<close>

definition putDebugChar :: "hw \<Rightarrow> u8 \<Rightarrow> 'a machine_scheme \<Rightarrow> 'a machine_scheme option" where
  "putDebugChar hw ch s = serial_write hw COM1 ch s"

partial_function (option) getDebugChar :: "hw \<Rightarrow> 'a machine_scheme \<Rightarrow> (u8 \<times> 'a machine_scheme) option" where
  "getDebugChar hw s =
     (let (ready, s) = serial_data_ready hw COM1 s
      in if \<not> ready then getDebugChar hw s else Some (serial_read hw COM1 s))"

text \<open>\<open>idtr\<close> is the local structure of \<open>exceptionHandler\<close>, \<open>gate\<close> the table it points to. The gate is a trap
  gate, except for exception 2 and from 32 on; the head comment of \<open>i386-stub.c\<close> asks for an interrupt
  gate.\<close>

definition exceptionHandler :: "u32 \<Rightarrow> nat \<Rightarrow> u32 \<Rightarrow> 'a idt_state_scheme \<Rightarrow> 'a idt_state_scheme" where
  "exceptionHandler idtr exception_number exception_address s =
     (let gate_type = IDT_GATE_32TRAP;
          s = idt_get idtr s;
          gate_type = (if exception_number = 2 \<or> exception_number \<ge> 32 then IDT_GATE_32INT else gate_type);
          gate = ld32 (idtr_offset_at idtr) s + sizeof_idt_gate * of_nat exception_number;
          s = st16 (gate_offset_high gate) (ucast (drop_bit 16 exception_address)) s;
          s = st16 (gate_offset_low gate) (ucast (exception_address AND 0xffff)) s;
          s = st16 (gate_flags_at gate) (IDT_GATE_PRESENT OR IDT_GATE_DPL_RING0 OR gate_type) s
      in idt_set idtr s)"


section \<open>Hexadecimal digits\<close>

definition hexchars :: "nat \<Rightarrow> u8" where
  "hexchars k = of_char (''0123456789abcdef'' ! k)"

definition hex :: "u8 \<Rightarrow> int" where
  "hex ch =
     (if ch \<ge> 0x61 \<and> ch \<le> 0x66 then uint ch - 0x61 + 10
      else if ch \<ge> 0x30 \<and> ch \<le> 0x39 then uint ch - 0x30
      else if ch \<ge> 0x41 \<and> ch \<le> 0x46 then uint ch - 0x41 + 10
      else - 1)"

text \<open>\<open>(unsigned char)(hex(c1) << 4) + (unsigned char)hex(c2)\<close>, as in \<open>getpacket\<close> and \<open>hex2mem\<close>.\<close>

definition hex_pair :: "u8 \<Rightarrow> u8 \<Rightarrow> u8" where
  "hex_pair c1 c2 = word_of_int (hex c1 * 16) + word_of_int (hex c2)"


section \<open>Packets\<close>

partial_function (option) wait_dollar :: "hw \<Rightarrow> 'a machine_scheme \<Rightarrow> 'a machine_scheme option" where
  "wait_dollar hw s = do { (ch, s) \<leftarrow> getDebugChar hw s; if ch \<noteq> 0x24 then wait_dollar hw s else Some s }"

text \<open>From \<open>retry\<close> on; \<open>ch\<close> is the last character, \<open>$\<close> restarts the packet.\<close>

partial_function (option) read_body ::
  "hw \<Rightarrow> u32 \<Rightarrow> u8 \<Rightarrow> u8 \<Rightarrow> nat \<Rightarrow> 'a machine_scheme \<Rightarrow> (u8 \<times> u8 \<times> nat \<times> 'a machine_scheme) option" where
  "read_body hw buffer ch checksum count s =
     (if count < BUFMAX - 1
      then do {
        (ch, s) \<leftarrow> getDebugChar hw s;
        if ch = 0x24 then read_body hw buffer ch 0 0 s
        else if ch = 0x23 then Some (ch, checksum, count, s)
        else read_body hw buffer ch (checksum + ch) (count + 1) (st8 (buffer + of_nat count) ch s)
      }
      else Some (ch, checksum, count, s))"

definition bad_checksum :: "gdb_env \<Rightarrow> u8 \<Rightarrow> u8 \<Rightarrow> 'a display_state_scheme \<Rightarrow> 'a display_state_scheme option" where
  "bad_checksum env checksum xmitcsum s = do {
     let s = print_text (text_bytes ''bad checksum.  My count = 0x'') s;
     s \<leftarrow> print_number (v_gdb_print_buf env) (uint checksum) 16 s;
     let s = print_text (text_bytes '', sent=0x'') s;
     s \<leftarrow> print_number (v_gdb_print_buf env) (uint xmitcsum) 16 s;
     let s = print_text (text_bytes ''. buf='') s;
     print_string (v_in_buffer env) s
   }"

text \<open>The acknowledgement of a packet whose checksum is right.\<close>

definition accept_packet :: "gdb_env \<Rightarrow> 'a machine_scheme \<Rightarrow> (u32 \<times> 'a machine_scheme) option" where
  "accept_packet env s = do {
     s \<leftarrow> putDebugChar (v_ghw env) 0x2B s;
     let buffer = v_in_buffer env;
     if ld8 (buffer + 2) s = 0x3A then do {
       s \<leftarrow> putDebugChar (v_ghw env) (ld8 buffer s) s;
       s \<leftarrow> putDebugChar (v_ghw env) (ld8 (buffer + 1) s) s;
       Some (buffer + 3, s)
     }
     else Some (buffer, s)
   }"

partial_function (option) getpacket :: "gdb_env \<Rightarrow> 'a gdb_state_scheme \<Rightarrow> (u32 \<times> 'a gdb_state_scheme) option" where
  "getpacket env s = do {
     s \<leftarrow> wait_dollar (v_ghw env) s;
     (ch, checksum, count, s) \<leftarrow> read_body (v_ghw env) (v_in_buffer env) 0x24 0 0 s;
     let s = st8 (v_in_buffer env + of_nat count) 0 s;
     if ch = 0x23 then do {
       (c1, s) \<leftarrow> getDebugChar (v_ghw env) s;
       (c2, s) \<leftarrow> getDebugChar (v_ghw env) s;
       let xmitcsum = hex_pair c1 c2;
       if checksum \<noteq> xmitcsum then do {
         s \<leftarrow> (if remote_debug s \<noteq> 0 then bad_checksum env checksum xmitcsum s else Some s);
         s \<leftarrow> putDebugChar (v_ghw env) 0x2D s;
         getpacket env s
       }
       else accept_packet env s
     }
     else getpacket env s
   }"

partial_function (option) send_body ::
  "hw \<Rightarrow> u32 \<Rightarrow> u8 \<Rightarrow> 'a machine_scheme \<Rightarrow> (u8 \<times> 'a machine_scheme) option" where
  "send_body hw buffer checksum s =
     (if ld8 buffer s \<noteq> 0
      then let ch = ld8 buffer s in putDebugChar hw ch s \<bind> send_body hw (buffer + 1) (checksum + ch)
      else Some (checksum, s))"

partial_function (option) putpacket :: "hw \<Rightarrow> u32 \<Rightarrow> 'a machine_scheme \<Rightarrow> 'a machine_scheme option" where
  "putpacket hw buffer s = do {
     s \<leftarrow> putDebugChar hw 0x24 s;
     (checksum, s) \<leftarrow> send_body hw buffer 0 s;
     s \<leftarrow> putDebugChar hw 0x23 s;
     s \<leftarrow> putDebugChar hw (hexchars (unat (drop_bit 4 checksum))) s;
     s \<leftarrow> putDebugChar hw (hexchars (unat (checksum mod 16))) s;
     (ch, s) \<leftarrow> getDebugChar hw s;
     if ch \<noteq> 0x2B then putpacket hw buffer s else Some s
   }"


section \<open>Memory as hexadecimal text\<close>

text \<open>\<open>set_mem_err\<close>, and the two accesses that may fault. A fault while \<open>mem_fault_routine\<close> is set
  ends in that routine, after which the access returns; otherwise it is an exception like any
  other, from which the access does not come back. The assembly that does this, \<open>mem_fault\<close>, is in \<open>GdbCpu\<close>;
  the lemma \<open>access_fault_assembly\<close> in \<open>GdbInstall\<close> shows that it amounts to \<open>access_fault\<close>, for a \<open>get_char\<close> and
  \<open>set_char\<close> that have a frame pointer.\<close>

definition set_mem_err :: "'a gdb_state_scheme \<Rightarrow> 'a gdb_state_scheme" where
  "set_mem_err s = s\<lparr>mem_err := 1\<rparr>"

definition access_fault :: "gdb_env \<Rightarrow> u32 \<Rightarrow> 'a gdb_state_scheme \<Rightarrow> 'a gdb_state_scheme option" where
  "access_fault env addr s =
     (if mem_fault_routine s \<noteq> 0
      then Some (set_mem_err (s\<lparr>gdb_i386errcode := v_errcode env addr, mem_fault_routine := 0\<rparr>))
      else None)"

definition get_char :: "gdb_env \<Rightarrow> u32 \<Rightarrow> 'a gdb_state_scheme \<Rightarrow> (u8 \<times> 'a gdb_state_scheme) option" where
  "get_char env addr s =
     (if v_faults env addr then do { s \<leftarrow> access_fault env addr s; Some (v_junk env, s) }
      else Some (ld8 addr s, s))"

definition set_char :: "gdb_env \<Rightarrow> u32 \<Rightarrow> u8 \<Rightarrow> 'a gdb_state_scheme \<Rightarrow> 'a gdb_state_scheme option" where
  "set_char env addr val s = (if v_faults env addr then access_fault env addr s else Some (st8 addr val s))"

text \<open>The loops run \<open>count\<close> times, never for a negative count; the result says whether they ran to
  the end.\<close>

definition times :: "u32 \<Rightarrow> nat" where
  "times count = nat (sint count)"

fun mem2hex_loop ::
  "gdb_env \<Rightarrow> nat \<Rightarrow> u32 \<Rightarrow> u32 \<Rightarrow> bool \<Rightarrow> 'a gdb_state_scheme \<Rightarrow> (bool \<times> u32 \<times> 'a gdb_state_scheme) option" where
  "mem2hex_loop env 0 m buf may_fault s = Some (True, buf, s)"
| "mem2hex_loop env (Suc n) m buf may_fault s = do {
     (ch, s) \<leftarrow> get_char env m s;
     if may_fault \<and> mem_err s \<noteq> 0 then Some (False, buf, s)
     else do {
       let s = st8 buf (hexchars (unat (drop_bit 4 ch))) s;
       let s = st8 (buf + 1) (hexchars (unat (ch mod 16))) s;
       mem2hex_loop env n (m + 1) (buf + 2) may_fault s
     }
   }"

definition mem2hex ::
  "gdb_env \<Rightarrow> u32 \<Rightarrow> u32 \<Rightarrow> u32 \<Rightarrow> bool \<Rightarrow> 'a gdb_state_scheme \<Rightarrow> (u32 \<times> 'a gdb_state_scheme) option" where
  "mem2hex env m buf count may_fault s = do {
     let s = (if may_fault then s\<lparr>mem_fault_routine := v_set_mem_err env\<rparr> else s);
     (complete, buf, s) \<leftarrow> mem2hex_loop env (times count) m buf may_fault s;
     if \<not> complete then Some (buf, s)
     else do {
       let s = st8 buf 0 s;
       let s = (if may_fault then s\<lparr>mem_fault_routine := 0\<rparr> else s);
       Some (buf, s)
     }
   }"

fun hex2mem_loop ::
  "gdb_env \<Rightarrow> nat \<Rightarrow> u32 \<Rightarrow> u32 \<Rightarrow> bool \<Rightarrow> 'a gdb_state_scheme \<Rightarrow> (bool \<times> u32 \<times> 'a gdb_state_scheme) option" where
  "hex2mem_loop env 0 buf m may_fault s = Some (True, m, s)"
| "hex2mem_loop env (Suc n) buf m may_fault s = do {
     s \<leftarrow> set_char env m (hex_pair (ld8 buf s) (ld8 (buf + 1) s)) s;
     if may_fault \<and> mem_err s \<noteq> 0 then Some (False, m + 1, s)
     else hex2mem_loop env n (buf + 2) (m + 1) may_fault s
   }"

definition hex2mem ::
  "gdb_env \<Rightarrow> u32 \<Rightarrow> u32 \<Rightarrow> u32 \<Rightarrow> bool \<Rightarrow> 'a gdb_state_scheme \<Rightarrow> (u32 \<times> 'a gdb_state_scheme) option" where
  "hex2mem env buf m count may_fault s = do {
     let s = (if may_fault then s\<lparr>mem_fault_routine := v_set_mem_err env\<rparr> else s);
     (complete, m, s) \<leftarrow> hex2mem_loop env (times count) buf m may_fault s;
     Some (m, if complete \<and> may_fault then s\<lparr>mem_fault_routine := 0\<rparr> else s)
   }"


section \<open>Commands\<close>

definition computeSignal :: "int \<Rightarrow> nat" where
  "computeSignal exceptionVector =
     (if exceptionVector = 0 then 8
      else if exceptionVector = 1 then 5
      else if exceptionVector = 3 then 5
      else if exceptionVector = 4 then 16
      else if exceptionVector = 5 then 16
      else if exceptionVector = 6 then 4
      else if exceptionVector = 7 then 8
      else if exceptionVector = 8 then 7
      else if exceptionVector = 9 then 11
      else if exceptionVector = 10 then 11
      else if exceptionVector = 11 then 11
      else if exceptionVector = 12 then 11
      else if exceptionVector = 13 then 11
      else if exceptionVector = 14 then 11
      else if exceptionVector = 16 then 7
      else 7)"

text \<open>\<open>hexToInt(&ptr, &value)\<close>: the number of digits, the value and the new \<open>ptr\<close>.\<close>

partial_function (option) hexToInt_loop ::
  "u32 \<Rightarrow> u32 \<Rightarrow> u32 \<Rightarrow> 'a machine_scheme \<Rightarrow> (u32 \<times> u32 \<times> u32) option" where
  "hexToInt_loop ptr intValue numChars s =
     (if ld8 ptr s \<noteq> 0
      then if hex (ld8 ptr s) \<ge> 0
           then hexToInt_loop (ptr + 1) (push_bit 4 intValue OR word_of_int (hex (ld8 ptr s))) (numChars + 1) s
           else Some (numChars, intValue, ptr)
      else Some (numChars, intValue, ptr))"

definition hexToInt :: "u32 \<Rightarrow> 'a machine_scheme \<Rightarrow> (u32 \<times> u32 \<times> u32) option" where
  "hexToInt ptr s = hexToInt_loop ptr 0 0 s"

definition rESP :: nat where "rESP = 4"
definition rEBP :: nat where "rEBP = 5"
definition rPC :: nat where "rPC = 8"
definition rPS :: nat where "rPS = 9"

definition reg_at :: "gdb_env \<Rightarrow> nat \<Rightarrow> u32" where
  "reg_at env k = v_registers env + 4 * of_nat k"

text \<open>\<open>scopy(remcomOutBuffer, msg)\<close> for a string constant.\<close>

definition reply :: "gdb_env \<Rightarrow> string \<Rightarrow> 'a machine_scheme \<Rightarrow> 'a machine_scheme" where
  "reply env msg s = s\<lparr>mem := written (mem s) (v_out_buffer env) (text_bytes msg @ [0])\<rparr>"

text \<open>\<open>if (ptr) scopy(remcomOutBuffer, msg)\<close>, the end of the commands \<open>m\<close> and \<open>M\<close>, whose \<open>ptr\<close> is
  zero when they have succeeded.\<close>

definition refuse :: "gdb_env \<Rightarrow> string \<Rightarrow> u32 \<Rightarrow> 'a machine_scheme \<Rightarrow> 'a machine_scheme" where
  "refuse env msg ptr s = (if ptr \<noteq> 0 then reply env msg s else s)"

definition cmd_status :: "gdb_env \<Rightarrow> nat \<Rightarrow> 'a machine_scheme \<Rightarrow> 'a machine_scheme" where
  "cmd_status env sigval s =
     (let out = v_out_buffer env;
          s = st8 out 0x53 s;
          s = st8 (out + 1) (hexchars (sigval div 16)) s;
          s = st8 (out + 2) (hexchars (sigval mod 16)) s
      in st8 (out + 3) 0 s)"

definition cmd_set_register :: "gdb_env \<Rightarrow> u32 \<Rightarrow> 'a gdb_state_scheme \<Rightarrow> 'a gdb_state_scheme option" where
  "cmd_set_register env ptr s = do {
     (n, regno, ptr) \<leftarrow> hexToInt ptr s;
     if n \<noteq> 0 \<and> ld8 ptr s = 0x3D \<and> sint regno \<ge> 0 then do {
       (_, s) \<leftarrow> (if sint regno < int NUMREGS
         then hex2mem env (ptr + 1) (reg_at env (unat regno)) 4 False s else Some (0, s));
       Some (reply env ''OK'' s)
     }
     else Some (reply env ''E01'' s)
   }"

definition cmd_read_memory :: "gdb_env \<Rightarrow> u32 \<Rightarrow> 'a gdb_state_scheme \<Rightarrow> 'a gdb_state_scheme option" where
  "cmd_read_memory env ptr s = do {
     (n, addr, ptr) \<leftarrow> hexToInt ptr s;
     if n = 0 then Some (refuse env ''E01'' ptr s)
     else if ld8 ptr s \<noteq> 0x2C then Some (refuse env ''E01'' (ptr + 1) s)
     else do {
       (n, len, ptr) \<leftarrow> hexToInt (ptr + 1) s;
       if n = 0 then Some (refuse env ''E01'' ptr s)
       else do {
         let s = s\<lparr>mem_err := 0\<rparr>;
         (_, s) \<leftarrow> mem2hex env addr (v_out_buffer env) len True s;
         if mem_err s \<noteq> 0 then Some (print_text (text_bytes ''memory fault'') (reply env ''E03'' s))
         else Some s
       }
     }
   }"

definition cmd_write_memory :: "gdb_env \<Rightarrow> u32 \<Rightarrow> 'a gdb_state_scheme \<Rightarrow> 'a gdb_state_scheme option" where
  "cmd_write_memory env ptr s = do {
     (n, addr, ptr) \<leftarrow> hexToInt ptr s;
     if n = 0 then Some (refuse env ''E02'' ptr s)
     else if ld8 ptr s \<noteq> 0x2C then Some (refuse env ''E02'' (ptr + 1) s)
     else do {
       (n, len, ptr) \<leftarrow> hexToInt (ptr + 1) s;
       if n = 0 then Some (refuse env ''E02'' ptr s)
       else if ld8 ptr s \<noteq> 0x3A then Some (refuse env ''E02'' (ptr + 1) s)
       else do {
         let s = s\<lparr>mem_err := 0\<rparr>;
         (_, s) \<leftarrow> hex2mem env (ptr + 1) addr len True s;
         if mem_err s \<noteq> 0 then Some (print_text (text_bytes ''memory fault'') (reply env ''E03'' s))
         else Some (reply env ''OK'' s)
       }
     }
   }"

definition cmd_resume :: "gdb_env \<Rightarrow> bool \<Rightarrow> u32 \<Rightarrow> 'a machine_scheme \<Rightarrow> 'a machine_scheme option" where
  "cmd_resume env stepping ptr s = do {
     (n, addr, ptr) \<leftarrow> hexToInt ptr s;
     let s = (if n \<noteq> 0 then st32 (reg_at env rPC) addr s else s);
     let s = st32 (reg_at env rPS) (ld32 (reg_at env rPS) s AND 0xfffffeff) s;
     let s = (if stepping then st32 (reg_at env rPS) (ld32 (reg_at env rPS) s OR 0x100) s else s);
     Some s
   }"

text \<open>The switch on the command; the result says whether the program resumes.\<close>

definition run_command :: "gdb_env \<Rightarrow> nat \<Rightarrow> u32 \<Rightarrow> 'a gdb_state_scheme \<Rightarrow> (bool \<times> 'a gdb_state_scheme) option" where
  "run_command env sigval ptr s =
     (let c = ld8 ptr s; ptr = ptr + 1 in
      if c = 0x3F then Some (False, cmd_status env sigval s)
      else if c = 0x64 then Some (False, s\<lparr>remote_debug := if remote_debug s = 0 then 1 else 0\<rparr>)
      else if c = 0x67 then do {
        (_, s) \<leftarrow> mem2hex env (v_registers env) (v_out_buffer env) (of_nat NUMREGBYTES) False s;
        Some (False, s)
      }
      else if c = 0x47 then do {
        (_, s) \<leftarrow> hex2mem env ptr (v_registers env) (of_nat NUMREGBYTES) False s;
        Some (False, reply env ''OK'' s)
      }
      else if c = 0x50 then do { s \<leftarrow> cmd_set_register env ptr s; Some (False, s) }
      else if c = 0x6D then do { s \<leftarrow> cmd_read_memory env ptr s; Some (False, s) }
      else if c = 0x4D then do { s \<leftarrow> cmd_write_memory env ptr s; Some (False, s) }
      else if c = 0x73 then do { s \<leftarrow> cmd_resume env True ptr s; Some (True, s) }
      else if c = 0x63 then do { s \<leftarrow> cmd_resume env False ptr s; Some (True, s) }
      else Some (False, s))"

partial_function (option) command_loop :: "gdb_env \<Rightarrow> nat \<Rightarrow> 'a gdb_state_scheme \<Rightarrow> 'a gdb_state_scheme option" where
  "command_loop env sigval s = do {
     let s = st8 (v_out_buffer env) 0 s;
     (ptr, s) \<leftarrow> getpacket env s;
     (resumes, s) \<leftarrow> run_command env sigval ptr s;
     if resumes then Some s
     else putpacket (v_ghw env) (v_out_buffer env) s \<bind> command_loop env sigval
   }"

text \<open>One register of the stop reply: its number, a colon, its value and a semicolon.\<close>

definition report_register :: "gdb_env \<Rightarrow> nat \<Rightarrow> u32 \<times> 'a gdb_state_scheme \<Rightarrow> (u32 \<times> 'a gdb_state_scheme) option" where
  "report_register env reg = (\<lambda>(ptr, s). do {
     let s = st8 ptr (hexchars reg) s;
     let s = st8 (ptr + 1) 0x3A s;
     (ptr, s) \<leftarrow> mem2hex env (reg_at env reg) (ptr + 2) 4 False s;
     Some (ptr + 1, st8 ptr 0x3B s)
   })"

definition stop_reply :: "gdb_env \<Rightarrow> nat \<Rightarrow> 'a gdb_state_scheme \<Rightarrow> 'a gdb_state_scheme option" where
  "stop_reply env sigval s = do {
     let ptr = v_out_buffer env;
     let s = st8 ptr 0x54 s;
     let s = st8 (ptr + 1) (hexchars (sigval div 16)) s;
     let s = st8 (ptr + 2) (hexchars (sigval mod 16)) s;
     r \<leftarrow> report_register env rESP (ptr + 3, s);
     r \<leftarrow> report_register env rEBP r;
     (ptr, s) \<leftarrow> report_register env rPC r;
     Some (st8 ptr 0 s)
   }"

definition handle_exception :: "gdb_env \<Rightarrow> u32 \<Rightarrow> 'a gdb_state_scheme \<Rightarrow> 'a gdb_state_scheme option" where
  "handle_exception env exceptionVector s = do {
     let s = s\<lparr>gdb_i386vector := exceptionVector\<rparr>;
     s \<leftarrow> (if remote_debug s \<noteq> 0 then do {
         let s = print_text (text_bytes ''vector='') s;
         s \<leftarrow> print_number (v_gdb_print_buf env) (sint exceptionVector) 10 s;
         let s = print_text (text_bytes '', sr=0x'') s;
         s \<leftarrow> print_number (v_gdb_print_buf env) (sint (ld32 (reg_at env rPS) s)) 16 s;
         let s = print_text (text_bytes '', pc=0x'') s;
         s \<leftarrow> print_number (v_gdb_print_buf env) (sint (ld32 (reg_at env rPC) s)) 16 s;
         Some (print_text (text_bytes ''\<newline>'') s)
       } else Some s);
     let sigval = computeSignal (sint exceptionVector);
     s \<leftarrow> stop_reply env sigval s;
     s \<leftarrow> putpacket (v_ghw env) (v_out_buffer env) s;
     command_loop env sigval s
   }"


section \<open>Installation\<close>

definition trap_vectors :: "nat list" where
  "trap_vectors = [0, 1, 3, 4, 5, 6, 7, 8, 9, 10, 11, 12, 13, 14, 16]"

definition set_debug_traps :: "gdb_env \<Rightarrow> 'a gdb_state_scheme \<Rightarrow> 'a gdb_state_scheme" where
  "set_debug_traps env s =
     (let s = s\<lparr>stackPtr := v_stack_end env\<rparr>;
          s = fold (\<lambda>n. exceptionHandler (v_idtr env) n (v_catch env n)) trap_vectors s
      in s\<lparr>initialized := 1\<rparr>)"

end
