(* ===== verification/GdbCpu.thy ===== *)
theory GdbCpu
  imports GdbStub
begin

text \<open>
  The assembly part of \<open>utils/i386-stub.c\<close>: the entry points of the exceptions, which save the
  registers of the interrupted program in the array \<open>registers\<close> and call \<open>handle_exception\<close> on a
  stack of its own, the way back to the program, and the way out of an access to memory that
  faults.

  The instructions are translated one by one on the registers of the processor. Segments are
  flat, so loading a segment register only changes that register; the flags that \<open>cmpl\<close> sets are
  left out, as nothing reads them after the jump. The compiled C code changes the general
  registers too, which makes no difference: \<open>return_to_prog\<close> loads all of them.
\<close>

record cpu_state = gdb_state +
  cpu_eax :: u32
  cpu_ecx :: u32
  cpu_edx :: u32
  cpu_ebx :: u32
  cpu_esp :: u32
  cpu_ebp :: u32
  cpu_esi :: u32
  cpu_edi :: u32
  cpu_eip :: u32
  cpu_eflags :: u32
  cpu_cs :: u16
  cpu_ss :: u16
  cpu_ds :: u16
  cpu_es :: u16
  cpu_fs :: u16
  cpu_gs :: u16


section \<open>Instructions\<close>

definition pushl :: "u32 \<Rightarrow> 'a cpu_state_scheme \<Rightarrow> 'a cpu_state_scheme" where
  "pushl v s = (let s = s\<lparr>cpu_esp := cpu_esp s - 4\<rparr> in st32 (cpu_esp s) v s)"

definition popl :: "'a cpu_state_scheme \<Rightarrow> u32 \<times> 'a cpu_state_scheme" where
  "popl s = (ld32 (cpu_esp s) s, s\<lparr>cpu_esp := cpu_esp s + 4\<rparr>)"

definition pop_eax :: "'a cpu_state_scheme \<Rightarrow> 'a cpu_state_scheme" where
  "pop_eax s = (let (v, s) = popl s in s\<lparr>cpu_eax := v\<rparr>)"

definition pop_ebx :: "'a cpu_state_scheme \<Rightarrow> 'a cpu_state_scheme" where
  "pop_ebx s = (let (v, s) = popl s in s\<lparr>cpu_ebx := v\<rparr>)"

definition pop_ecx :: "'a cpu_state_scheme \<Rightarrow> 'a cpu_state_scheme" where
  "pop_ecx s = (let (v, s) = popl s in s\<lparr>cpu_ecx := v\<rparr>)"

definition pop_edx :: "'a cpu_state_scheme \<Rightarrow> 'a cpu_state_scheme" where
  "pop_edx s = (let (v, s) = popl s in s\<lparr>cpu_edx := v\<rparr>)"

definition leave :: "'a cpu_state_scheme \<Rightarrow> 'a cpu_state_scheme" where
  "leave s = (let (v, s) = popl (s\<lparr>cpu_esp := cpu_ebp s\<rparr>) in s\<lparr>cpu_ebp := v\<rparr>)"

definition iret :: "'a cpu_state_scheme \<Rightarrow> 'a cpu_state_scheme" where
  "iret s =
     (let (ip, s) = popl s; (c, s) = popl s; (fl, s) = popl s
      in s\<lparr>cpu_eip := ip, cpu_cs := ucast c, cpu_eflags := fl\<rparr>)"

text \<open>What the processor does when it takes an exception through a trap gate: it pushes the flags,
  the code segment and the instruction pointer, and for some exceptions an error code.\<close>

definition take_exception :: "u32 \<Rightarrow> u32 option \<Rightarrow> 'a cpu_state_scheme \<Rightarrow> 'a cpu_state_scheme" where
  "take_exception handler code s =
     (let s = pushl (cpu_eip s) (pushl (ucast (cpu_cs s)) (pushl (cpu_eflags s) s));
          s = (case code of None \<Rightarrow> s | Some c \<Rightarrow> pushl c s)
      in s\<lparr>cpu_eip := handler, cpu_eflags := cpu_eflags s AND NOT 0x100\<rparr>)"


section \<open>Saving and restoring the registers\<close>

definition return_to_prog :: "gdb_env \<Rightarrow> 'a cpu_state_scheme \<Rightarrow> 'a cpu_state_scheme" where
  "return_to_prog env s =
     (let r = v_registers env;
          s = s\<lparr>cpu_ss := ld16 (r + 44) s\<rparr>;
          s = s\<lparr>cpu_esp := ld32 (r + 16) s\<rparr>;
          s = s\<lparr>cpu_ecx := ld32 (r + 4) s\<rparr>;
          s = s\<lparr>cpu_edx := ld32 (r + 8) s\<rparr>;
          s = s\<lparr>cpu_ebx := ld32 (r + 12) s\<rparr>;
          s = s\<lparr>cpu_ebp := ld32 (r + 20) s\<rparr>;
          s = s\<lparr>cpu_esi := ld32 (r + 24) s\<rparr>;
          s = s\<lparr>cpu_edi := ld32 (r + 28) s\<rparr>;
          s = s\<lparr>cpu_ds := ld16 (r + 48) s\<rparr>;
          s = s\<lparr>cpu_es := ld16 (r + 52) s\<rparr>;
          s = s\<lparr>cpu_fs := ld16 (r + 56) s\<rparr>;
          s = s\<lparr>cpu_gs := ld16 (r + 60) s\<rparr>;
          s = s\<lparr>cpu_eax := ld32 (r + 36) s\<rparr>;
          s = pushl (cpu_eax s) s;
          s = s\<lparr>cpu_eax := ld32 (r + 40) s\<rparr>;
          s = pushl (cpu_eax s) s;
          s = s\<lparr>cpu_eax := ld32 (r + 32) s\<rparr>;
          s = pushl (cpu_eax s) s;
          s = s\<lparr>cpu_eax := ld32 r s\<rparr>
      in iret s)"

definition returnFromException :: "gdb_env \<Rightarrow> 'a cpu_state_scheme \<Rightarrow> 'a cpu_state_scheme" where
  "returnFromException env s = return_to_prog env s"

definition SAVE_REGISTERS1 :: "gdb_env \<Rightarrow> 'a cpu_state_scheme \<Rightarrow> 'a cpu_state_scheme" where
  "SAVE_REGISTERS1 env s =
     (let r = v_registers env;
          s = st32 r (cpu_eax s) s;
          s = st32 (r + 4) (cpu_ecx s) s;
          s = st32 (r + 8) (cpu_edx s) s;
          s = st32 (r + 12) (cpu_ebx s) s;
          s = st32 (r + 20) (cpu_ebp s) s;
          s = st32 (r + 24) (cpu_esi s) s;
          s = st32 (r + 28) (cpu_edi s) s;
          s = s\<lparr>cpu_eax := cpu_eax s AND 0xffff0000\<rparr>;
          s = st16 (r + 48) (cpu_ds s) s;
          s = st16 (r + 50) (ucast (cpu_eax s)) s;
          s = st16 (r + 52) (cpu_es s) s;
          s = st16 (r + 54) (ucast (cpu_eax s)) s;
          s = st16 (r + 56) (cpu_fs s) s;
          s = st16 (r + 58) (ucast (cpu_eax s)) s;
          s = st16 (r + 60) (cpu_gs s) s
      in st16 (r + 62) (ucast (cpu_eax s)) s)"

definition SAVE_ERRCODE :: "'a cpu_state_scheme \<Rightarrow> 'a cpu_state_scheme" where
  "SAVE_ERRCODE s = (let s = pop_ebx s in s\<lparr>gdb_i386errcode := cpu_ebx s\<rparr>)"

definition SAVE_REGISTERS2 :: "gdb_env \<Rightarrow> 'a cpu_state_scheme \<Rightarrow> 'a cpu_state_scheme" where
  "SAVE_REGISTERS2 env s =
     (let r = v_registers env;
          s = pop_ebx s;
          s = st32 (r + 32) (cpu_ebx s) s;
          s = pop_ebx s;
          s = st32 (r + 40) (cpu_ebx s) s;
          s = st16 (r + 42) (ucast (cpu_eax s)) s;
          s = pop_ebx s;
          s = st32 (r + 36) (cpu_ebx s) s;
          s = st16 (r + 44) (cpu_ss s) s;
          s = st16 (r + 46) (ucast (cpu_eax s)) s
      in st32 (r + 16) (cpu_esp s) s)"


section \<open>Faults of the stub's own accesses\<close>

text \<open>\<open>mem_fault\<close> ends in the routine \<open>mem_fault_routine\<close> points to, as if the function whose access
  has faulted had been that routine.\<close>

definition mem_fault :: "'a cpu_state_scheme \<Rightarrow> 'a cpu_state_scheme" where
  "mem_fault s =
     (let s = pop_eax s;
          s = s\<lparr>gdb_i386errcode := cpu_eax s\<rparr>;
          s = pop_eax s;
          s = s\<lparr>cpu_eax := mem_fault_routine s\<rparr>;
          s = pop_ecx s;
          s = pop_edx s;
          s = leave s;
          s = pushl (cpu_edx s) s;
          s = pushl (cpu_ecx s) s;
          s = pushl (cpu_eax s) s;
          s = s\<lparr>cpu_eax := 0\<rparr>;
          s = s\<lparr>mem_fault_routine := cpu_eax s\<rparr>
      in iret s)"

text \<open>\<open>CHECK_FAULT\<close>, with what follows it.\<close>

definition CHECK_FAULT ::
  "('a cpu_state_scheme \<Rightarrow> 'a cpu_state_scheme option) \<Rightarrow> 'a cpu_state_scheme \<Rightarrow> 'a cpu_state_scheme option" where
  "CHECK_FAULT k s = (if mem_fault_routine s \<noteq> 0 then Some (mem_fault s) else k s)"


section \<open>The entry points\<close>

text \<open>\<open>handle_exception\<close> never returns to its caller: it ends in \<open>_returnFromException\<close>.\<close>

definition remcomHandler :: "gdb_env \<Rightarrow> 'a cpu_state_scheme \<Rightarrow> 'a cpu_state_scheme option" where
  "remcomHandler env s = do {
     let s = pop_eax s;
     let s = pop_eax s;
     let s = s\<lparr>cpu_esp := stackPtr s\<rparr>;
     let s = pushl (cpu_eax s) s;
     let s = pushl (v_handler_return env) s;
     s \<leftarrow> handle_exception env (ld32 (cpu_esp s + 4) s) s;
     Some (returnFromException env s)
   }"

text \<open>\<open>CALL_HOOK\<close>; \<open>v_hook_return\<close> is the address behind the call, which is dropped.\<close>

definition CALL_HOOK :: "gdb_env \<Rightarrow> u32 \<Rightarrow> 'a cpu_state_scheme \<Rightarrow> 'a cpu_state_scheme option" where
  "CALL_HOOK env n s = remcomHandler env (pushl (v_hook_return env n) s)"

definition catchException3 :: "gdb_env \<Rightarrow> 'a cpu_state_scheme \<Rightarrow> 'a cpu_state_scheme option" where
  "catchException3 env s = CALL_HOOK env 3 (pushl 3 (SAVE_REGISTERS2 env (SAVE_REGISTERS1 env s)))"

definition catchException1 :: "gdb_env \<Rightarrow> 'a cpu_state_scheme \<Rightarrow> 'a cpu_state_scheme option" where
  "catchException1 env s = CALL_HOOK env 1 (pushl 1 (SAVE_REGISTERS2 env (SAVE_REGISTERS1 env s)))"

definition catchException0 :: "gdb_env \<Rightarrow> 'a cpu_state_scheme \<Rightarrow> 'a cpu_state_scheme option" where
  "catchException0 env s = CALL_HOOK env 0 (pushl 0 (SAVE_REGISTERS2 env (SAVE_REGISTERS1 env s)))"

definition catchException4 :: "gdb_env \<Rightarrow> 'a cpu_state_scheme \<Rightarrow> 'a cpu_state_scheme option" where
  "catchException4 env s = CALL_HOOK env 4 (pushl 4 (SAVE_REGISTERS2 env (SAVE_REGISTERS1 env s)))"

definition catchException5 :: "gdb_env \<Rightarrow> 'a cpu_state_scheme \<Rightarrow> 'a cpu_state_scheme option" where
  "catchException5 env s = CALL_HOOK env 5 (pushl 5 (SAVE_REGISTERS2 env (SAVE_REGISTERS1 env s)))"

definition catchException6 :: "gdb_env \<Rightarrow> 'a cpu_state_scheme \<Rightarrow> 'a cpu_state_scheme option" where
  "catchException6 env s = CALL_HOOK env 6 (pushl 6 (SAVE_REGISTERS2 env (SAVE_REGISTERS1 env s)))"

definition catchException7 :: "gdb_env \<Rightarrow> 'a cpu_state_scheme \<Rightarrow> 'a cpu_state_scheme option" where
  "catchException7 env s = CALL_HOOK env 7 (pushl 7 (SAVE_REGISTERS2 env (SAVE_REGISTERS1 env s)))"

definition catchException8 :: "gdb_env \<Rightarrow> 'a cpu_state_scheme \<Rightarrow> 'a cpu_state_scheme option" where
  "catchException8 env s = CALL_HOOK env 8 (pushl 8 (SAVE_REGISTERS2 env (SAVE_ERRCODE (SAVE_REGISTERS1 env s))))"

definition catchException9 :: "gdb_env \<Rightarrow> 'a cpu_state_scheme \<Rightarrow> 'a cpu_state_scheme option" where
  "catchException9 env s = CALL_HOOK env 9 (pushl 9 (SAVE_REGISTERS2 env (SAVE_REGISTERS1 env s)))"

definition catchException10 :: "gdb_env \<Rightarrow> 'a cpu_state_scheme \<Rightarrow> 'a cpu_state_scheme option" where
  "catchException10 env s = CALL_HOOK env 10 (pushl 10 (SAVE_REGISTERS2 env (SAVE_ERRCODE (SAVE_REGISTERS1 env s))))"

definition catchException12 :: "gdb_env \<Rightarrow> 'a cpu_state_scheme \<Rightarrow> 'a cpu_state_scheme option" where
  "catchException12 env s = CALL_HOOK env 12 (pushl 12 (SAVE_REGISTERS2 env (SAVE_ERRCODE (SAVE_REGISTERS1 env s))))"

definition catchException16 :: "gdb_env \<Rightarrow> 'a cpu_state_scheme \<Rightarrow> 'a cpu_state_scheme option" where
  "catchException16 env s = CALL_HOOK env 16 (pushl 16 (SAVE_REGISTERS2 env (SAVE_REGISTERS1 env s)))"

definition catchException13 :: "gdb_env \<Rightarrow> 'a cpu_state_scheme \<Rightarrow> 'a cpu_state_scheme option" where
  "catchException13 env s = CHECK_FAULT (\<lambda>s.
     CALL_HOOK env 13 (pushl 13 (SAVE_REGISTERS2 env (SAVE_ERRCODE (SAVE_REGISTERS1 env s))))) s"

definition catchException11 :: "gdb_env \<Rightarrow> 'a cpu_state_scheme \<Rightarrow> 'a cpu_state_scheme option" where
  "catchException11 env s = CHECK_FAULT (\<lambda>s.
     CALL_HOOK env 11 (pushl 11 (SAVE_REGISTERS2 env (SAVE_ERRCODE (SAVE_REGISTERS1 env s))))) s"

definition catchException14 :: "gdb_env \<Rightarrow> 'a cpu_state_scheme \<Rightarrow> 'a cpu_state_scheme option" where
  "catchException14 env s = CHECK_FAULT (\<lambda>s.
     CALL_HOOK env 14 (pushl 14 (SAVE_REGISTERS2 env (SAVE_ERRCODE (SAVE_REGISTERS1 env s))))) s"

text \<open>The instruction \<open>int $3\<close> goes through the gate of vector 3 of the interrupt table. \<open>other\<close> is
  the code at any address that is not the stub's.\<close>

definition gate_target :: "nat \<Rightarrow> 'a idt_state_scheme \<Rightarrow> u32" where
  "gate_target n s =
     (let gate = idtr_offset s + 8 * of_nat n in
      ucast (ld16 gate s) OR push_bit 16 (ucast (ld16 (gate + 6) s)))"

definition BREAKPOINT ::
  "gdb_env \<Rightarrow> (u32 \<Rightarrow> 'a cpu_state_scheme \<Rightarrow> 'a cpu_state_scheme option) \<Rightarrow>
   'a cpu_state_scheme \<Rightarrow> 'a cpu_state_scheme option" where
  "BREAKPOINT env other s =
     (let target = gate_target 3 s; s = take_exception target None s in
      if target = v_catch env 3 then catchException3 env s else other target s)"

definition breakpoint ::
  "gdb_env \<Rightarrow> (u32 \<Rightarrow> 'a cpu_state_scheme \<Rightarrow> 'a cpu_state_scheme option) \<Rightarrow>
   'a cpu_state_scheme \<Rightarrow> 'a cpu_state_scheme option" where
  "breakpoint env other s = (if initialized s \<noteq> 0 then BREAKPOINT env other s else Some s)"

end
