(* ===== verification/GdbWire.thy ===== *)
theory GdbWire
  imports GdbStub
begin

text \<open>
  The serial line seen as two streams. \<open>rx log\<close> and \<open>tx log\<close> are the bytes the log of hardware
  events shows as received and sent. \<open>host_line hw host\<close> says that the other end is \<open>host\<close>: the
  next byte it sends is a function of the bytes exchanged so far, however often the status is
  polled in between; the line becomes ready again after finitely many polls, and a byte that has
  arrived stays until it is read.
\<close>

section \<open>The streams\<close>

fun rx_byte :: "io_event \<Rightarrow> u8 option" where
  "rx_byte (InB port b) = (if port = RECV_BUF COM1 then Some b else None)"
| "rx_byte _ = None"

fun tx_byte :: "io_event \<Rightarrow> u8 option" where
  "tx_byte (OutB port b) = (if port = SEND_BUF COM1 then Some b else None)"
| "tx_byte _ = None"

definition rx :: "io_event list \<Rightarrow> u8 list" where
  "rx l = List.map_filter rx_byte l"

definition tx :: "io_event list \<Rightarrow> u8 list" where
  "tx l = List.map_filter tx_byte l"

lemma stream_append [simp]:
  "rx (l @ l') = rx l @ rx l'" "tx (l @ l') = tx l @ tx l'"
  by (simp_all add: rx_def tx_def map_filter_def)

lemma stream_Nil [simp]: "rx [] = []" "tx [] = []"
  by (simp_all add: rx_def tx_def map_filter_def)

lemma stream_Cons [simp]:
  "rx (InB p b # l) = (if p = RECV_BUF COM1 then b # rx l else rx l)" "tx (InB p b # l) = tx l"
  "rx (OutB p b # l) = rx l" "tx (OutB p b # l) = (if p = SEND_BUF COM1 then b # tx l else tx l)"
  by (simp_all add: rx_def tx_def map_filter_def)

lemma status_not_data [simp]: "LINE_STATUS_REG COM1 = RECV_BUF COM1 \<longleftrightarrow> False"
  by (simp add: LINE_STATUS_REG_def RECV_BUF_def COM1_def)

text \<open>One poll of the line status.\<close>

definition poll :: "hw \<Rightarrow> io_event list \<Rightarrow> io_event list" where
  "poll hw l = l @ [InB (LINE_STATUS_REG COM1) (hw_inb hw l (LINE_STATUS_REG COM1))]"

lemma rx_poll [simp]: "rx (poll hw l) = rx l" and tx_poll [simp]: "tx (poll hw l) = tx l"
  by (simp_all add: poll_def)

lemma streams_polls [simp]: "rx ((poll hw ^^ k) l) = rx l" "tx ((poll hw ^^ k) l) = tx l"
  by (induction k) simp_all

abbreviation line_status :: "hw \<Rightarrow> io_event list \<Rightarrow> u8" where
  "line_status hw l \<equiv> hw_inb hw l (LINE_STATUS_REG COM1)"

definition host_line :: "hw \<Rightarrow> (u8 list \<Rightarrow> u8 list \<Rightarrow> u8) \<Rightarrow> bool" where
  "host_line hw host \<longleftrightarrow>
     (\<forall>l. \<exists>k. (line_status hw ((poll hw ^^ k) l) AND 0x20) \<noteq> 0) \<and>
     (\<forall>l. \<exists>k. (line_status hw ((poll hw ^^ k) l) AND 0x01) \<noteq> 0) \<and>
     (\<forall>l. (line_status hw l AND 0x01) \<noteq> 0 \<longrightarrow> (line_status hw (poll hw l) AND 0x01) \<noteq> 0) \<and>
     (\<forall>l. hw_inb hw l (RECV_BUF COM1) = host (rx l) (tx l))"


section \<open>What an exchange of bytes leaves\<close>

text \<open>From \<open>s\<close> to \<open>s'\<close> only the log has grown, by receiving \<open>r\<close> and sending \<open>t\<close>.\<close>

definition talk :: "'a machine_scheme \<Rightarrow> u8 list \<Rightarrow> u8 list \<Rightarrow> 'a machine_scheme \<Rightarrow> bool" where
  "talk s r t s' \<longleftrightarrow> s' = s\<lparr>io_log := io_log s'\<rparr> \<and> rx (io_log s') = rx (io_log s) @ r \<and> tx (io_log s') = tx (io_log s) @ t"

lemma talk_refl: "talk s [] [] s"
  by (simp add: talk_def)

lemma talk_trans:
  assumes "talk s r t s'" and "talk s' r' t' s''"
  shows "talk s (r @ r') (t @ t') s''"
proof -
  have "s'' = s'\<lparr>io_log := io_log s''\<rparr>" "s' = s\<lparr>io_log := io_log s'\<rparr>" using assms by (simp_all add: talk_def)
  then have "s'' = s\<lparr>io_log := io_log s'\<rparr>\<lparr>io_log := io_log s''\<rparr>" by metis
  then have "s'' = s\<lparr>io_log := io_log s''\<rparr>" by simp
  then show ?thesis using assms by (simp add: talk_def)
qed

lemma talk_streams:
  assumes "talk s r t s'"
  shows "rx (io_log s') = rx (io_log s) @ r" and "tx (io_log s') = tx (io_log s) @ t"
  using assms by (simp_all add: talk_def)

lemma talk_mem: "talk s r t s' \<Longrightarrow> mem s' = mem s"
  by (metis talk_def machine.select_convs(1) machine.surjective machine.update_convs(2))

text \<open>A change of memory commutes with an exchange.\<close>

lemma talk_upd_mem: "talk s r t s' \<Longrightarrow> talk (s\<lparr>mem := m\<rparr>) r t (s'\<lparr>mem := m\<rparr>)"
  by (cases s, cases s') (simp add: talk_def)

text \<open>The host sends \<open>bs\<close> next, as long as nothing is sent to it.\<close>

definition says :: "(u8 list \<Rightarrow> u8 list \<Rightarrow> u8) \<Rightarrow> u8 list \<Rightarrow> u8 list \<Rightarrow> u8 list \<Rightarrow> bool" where
  "says host r t bs \<longleftrightarrow> (\<forall>i < length bs. host (r @ take i bs) t = bs ! i)"

lemma says_Nil [simp]: "says host r t []"
  by (simp add: says_def)

lemma says_Cons [simp]:
  "says host r t (b # bs) \<longleftrightarrow> host r t = b \<and> says host (r @ [b]) t bs"
  by (auto simp: says_def less_Suc_eq_0_disj)

lemma says_append:
  "says host r t (bs @ cs) \<longleftrightarrow> says host r t bs \<and> says host (r @ bs) t cs"
  by (induction bs arbitrary: r) simp_all


section \<open>One byte\<close>

lemma wait_fifo_polls:
  assumes "(line_status hw ((poll hw ^^ k) (io_log s)) AND 0x20) \<noteq> 0"
  shows "\<exists>s'. wait_fifo hw COM1 s = Some s' \<and> talk s [] [] s'"
  using assms
proof (induction k arbitrary: s)
  case 0
  then show ?case
    by (subst wait_fifo.simps) (simp add: fifo_empty_def inb_def talk_def log_event_def Let_def)
next
  case (Suc k)
  let ?s = "log_event (InB (LINE_STATUS_REG COM1) (line_status hw (io_log s))) s"
  have log: "io_log ?s = poll hw (io_log s)" by (simp add: poll_def)
  have st: "talk s [] [] ?s" by (simp add: talk_def log_event_def)
  have unfold: "wait_fifo hw COM1 s = (if (line_status hw (io_log s) AND 0x20) \<noteq> 0 then Some ?s else wait_fifo hw COM1 ?s)"
    by (subst wait_fifo.simps) (simp add: fifo_empty_def inb_def Let_def)
  have "(line_status hw ((poll hw ^^ k) (io_log ?s)) AND 0x20) \<noteq> 0"
    using Suc.prems unfolding log by (simp add: funpow_swap1)
  from Suc.IH [OF this] obtain s' where "wait_fifo hw COM1 ?s = Some s'" "talk ?s [] [] s'" by blast
  moreover have "talk s [] [] s'" using talk_trans [OF st] calculation(2) by fastforce
  ultimately show ?case using unfold st by auto
qed

lemma putDebugChar_run:
  assumes "host_line hw host"
  obtains s' where "putDebugChar hw ch s = Some s'" and "talk s [] [ch] s'"
proof -
  obtain k where "(line_status hw ((poll hw ^^ k) (io_log s)) AND 0x20) \<noteq> 0"
    using assms unfolding host_line_def by metis
  from wait_fifo_polls [OF this] obtain s1 where s1: "wait_fifo hw COM1 s = Some s1" "talk s [] [] s1"
    by blast
  have "talk s1 [] [ch] (outb (SEND_BUF COM1) ch s1)" by (simp add: talk_def outb_def log_event_def)
  from talk_trans [OF s1(2) this] show thesis
    using that [of "outb (SEND_BUF COM1) ch s1"] by (simp add: putDebugChar_def serial_write_def s1(1))
qed

abbreviation heard :: "(u8 list \<Rightarrow> u8 list \<Rightarrow> u8) \<Rightarrow> 'a machine_scheme \<Rightarrow> u8" where
  "heard host s \<equiv> host (rx (io_log s)) (tx (io_log s))"

lemma getDebugChar_ready:
  assumes "host_line hw host" and "(line_status hw (io_log s) AND 0x01) \<noteq> 0"
  shows "\<exists>s'. getDebugChar hw s = Some (heard host s, s') \<and> talk s [heard host s] [] s'"
proof -
  let ?l = "io_log s"
  have "(line_status hw (poll hw ?l) AND 0x01) \<noteq> 0"
    using assms by (simp add: host_line_def)
  moreover have "hw_inb hw (poll hw (poll hw ?l)) (RECV_BUF COM1) = host (rx ?l) (tx ?l)"
    using assms(1) by (simp add: host_line_def)
  ultimately show ?thesis using assms(2)
    by (subst getDebugChar.simps)
      (simp add: serial_data_ready_def serial_read_def inb_def talk_def log_event_def Let_def poll_def)
qed

lemma getDebugChar_polls:
  assumes "host_line hw host" and "(line_status hw ((poll hw ^^ k) (io_log s)) AND 0x01) \<noteq> 0"
  shows "\<exists>s'. getDebugChar hw s = Some (heard host s, s') \<and> talk s [heard host s] [] s'"
  using assms(2)
proof (induction k arbitrary: s)
  case 0
  then show ?case by (intro getDebugChar_ready [OF assms(1)]) simp
next
  case (Suc k)
  let ?s = "log_event (InB (LINE_STATUS_REG COM1) (line_status hw (io_log s))) s"
  have log: "io_log ?s = poll hw (io_log s)" by (simp add: poll_def)
  have st: "talk s [] [] ?s" by (simp add: talk_def log_event_def)
  show ?case
  proof (cases "(line_status hw (io_log s) AND 0x01) = 0")
    case True
    then have unfold: "getDebugChar hw s = getDebugChar hw ?s"
      by (subst getDebugChar.simps) (simp add: serial_data_ready_def inb_def Let_def)
    have "(line_status hw ((poll hw ^^ k) (io_log ?s)) AND 0x01) \<noteq> 0"
      using Suc.prems unfolding log by (simp add: funpow_swap1)
    from Suc.IH [OF this] obtain s' where "getDebugChar hw ?s = Some (heard host s, s')" "talk ?s [heard host s] [] s'"
      unfolding log by auto
    moreover have "talk s [heard host s] [] s'" using talk_trans [OF st] calculation(2) by fastforce
    ultimately show ?thesis using unfold by auto
  qed (rule getDebugChar_ready [OF assms(1)])
qed

lemma getDebugChar_run:
  assumes "host_line hw host"
  obtains s' where "getDebugChar hw s = Some (heard host s, s')" and "talk s [heard host s] [] s'"
proof -
  obtain k where "(line_status hw ((poll hw ^^ k) (io_log s)) AND 0x01) \<noteq> 0"
    using assms unfolding host_line_def by metis
  from getDebugChar_polls [OF assms this] show thesis using that by blast
qed

end
