(* ===== verification/GdbPacket.thy ===== *)
theory GdbPacket
  imports GdbWire
begin

text \<open>
  Packets on the line: what \<open>getpacket\<close> makes of what the host sends, and what \<open>putpacket\<close> puts
  on the line, with the hexadecimal digits both use.
\<close>

section \<open>Hexadecimal digits\<close>

lemma digit_table_16:
  "list_all (\<lambda>k. hex (hexchars k) = int k \<and> hexchars k \<notin> {0, 0x23, 0x24}) [0..<16]"
  by code_simp

lemma hex_hexchars: "k < 16 \<Longrightarrow> hex (hexchars k) = int k"
  using digit_table_16 by (simp add: list_all_iff)

lemma hexchars_not: "k < 16 \<Longrightarrow> hexchars k \<notin> {0, 0x23, 0x24}"
  using digit_table_16 by (simp only: list_all_iff set_upt atLeastLessThan_iff) simp

text \<open>The two digits of a byte.\<close>

definition hex_byte :: "u8 \<Rightarrow> u8 list" where
  "hex_byte b = [hexchars (unat (drop_bit 4 b)), hexchars (unat (b mod 16))]"

lemma nibbles:
  "unat (drop_bit 4 b :: u8) = unat b div 16" "unat (b mod 16 :: u8) = unat b mod 16"
  by (simp_all add: unat_drop_bit_div unat_mod_distrib)

lemma nibbles_lt: "unat (drop_bit 4 b :: u8) < 16" "unat (b mod 16 :: u8) < 16"
  using unat_u8_lt [of b] unfolding nibbles by (simp_all add: less_mult_imp_div_less)

lemma hex_pair_byte: "hex_pair (hexchars (unat (drop_bit 4 b))) (hexchars (unat (b mod 16))) = b"
proof -
  have "hex_pair (hexchars (unat (drop_bit 4 b))) (hexchars (unat (b mod 16))) =
      word_of_int (int (unat b div 16) * 16 + int (unat b mod 16))"
    unfolding hex_pair_def hex_hexchars [OF nibbles_lt(1)] hex_hexchars [OF nibbles_lt(2)]
    unfolding nibbles wi_hom_add ..
  also have "int (unat b div 16) * 16 + int (unat b mod 16) = int (unat b div 16 * 16 + unat b mod 16)"
    by (simp only: of_nat_add of_nat_mult of_nat_numeral)
  also have "\<dots> = uint b" by (simp only: div_mult_mod_eq uint_nat)
  finally show ?thesis by simp
qed

section \<open>Sending\<close>

text \<open>\<open>$\<close>, the data, \<open>#\<close> and the two digits of the sum of the data.\<close>

definition frame :: "u8 list \<Rightarrow> u8 list" where
  "frame bs = 0x24 # bs @ 0x23 # hex_byte (sum_list bs)"

lemma send_body_run:
  assumes "host_line hw host" and "cstring (mem s) p n"
  shows "\<exists>s'. send_body hw p cs s = Some (cs + sum_list (read_bytes (mem s) p n), s') \<and> talk s [] (read_bytes (mem s) p n) s'"
  using assms(2)
proof (induction n arbitrary: p cs s)
  case 0
  then show ?case by (subst send_body.simps) (simp add: talk_refl read_bytes_def)
next
  case (Suc n)
  let ?b = "load8 (mem s) p"
  obtain s1 where s1: "putDebugChar hw ?b s = Some s1" "talk s [] [?b] s1"
    by (rule putDebugChar_run [OF assms(1)])
  have m: "mem s1 = mem s" by (rule talk_mem [OF s1(2)])
  have nz: "?b \<noteq> 0" "cstring (mem s1) (p + 1) n" using Suc.prems by (simp_all add: cstring_Suc m)
  from Suc.IH [OF nz(2)] obtain s' where
    s': "send_body hw (p + 1) (cs + ?b) s1 = Some (cs + ?b + sum_list (read_bytes (mem s) (p + 1) n), s')"
      "talk s1 [] (read_bytes (mem s) (p + 1) n) s'"
    unfolding m by blast
  have "talk s [] (read_bytes (mem s) p (Suc n)) s'"
    using talk_trans [OF s1(2) s'(2)] by (simp add: read_bytes_Suc)
  then show ?case
    using nz(1) s1(1) s'(1) by (subst send_body.simps) (simp add: Let_def read_bytes_Suc add.assoc)
qed

text \<open>One transmission, and what the host says to it.\<close>

lemma send_frame_run:
  assumes "host_line hw host" and "cstring (mem s) p n"
  defines "f \<equiv> frame (read_bytes (mem s) p n)"
  obtains s' c where "c = host (rx (io_log s)) (tx (io_log s) @ f)" and "talk s [c] f s'"
    and "putpacket hw p s = (if c \<noteq> 0x2B then putpacket hw p s' else Some s')"
proof -
  let ?bs = "read_bytes (mem s) p n"
  obtain s1 where s1: "putDebugChar hw 0x24 s = Some s1" "talk s [] [0x24] s1"
    by (rule putDebugChar_run [OF assms(1)])
  have "cstring (mem s1) p n" using assms(2) talk_mem [OF s1(2)] by simp
  from send_body_run [OF assms(1) this, of 0] obtain s2 where
    s2: "send_body hw p 0 s1 = Some (sum_list ?bs, s2)" "talk s1 [] ?bs s2"
    unfolding talk_mem [OF s1(2)] by auto
  obtain s3 where s3: "putDebugChar hw 0x23 s2 = Some s3" "talk s2 [] [0x23] s3"
    by (rule putDebugChar_run [OF assms(1)])
  obtain s4 where s4: "putDebugChar hw (hexchars (unat (drop_bit 4 (sum_list ?bs)))) s3 = Some s4"
    "talk s3 [] [hexchars (unat (drop_bit 4 (sum_list ?bs)))] s4"
    by (rule putDebugChar_run [OF assms(1)])
  obtain s5 where s5: "putDebugChar hw (hexchars (unat (sum_list ?bs mod 16))) s4 = Some s5"
    "talk s4 [] [hexchars (unat (sum_list ?bs mod 16))] s5"
    by (rule putDebugChar_run [OF assms(1)])
  have t5: "talk s [] f s5"
    using talk_trans [OF talk_trans [OF talk_trans [OF talk_trans [OF s1(2) s2(2)] s3(2)] s4(2)] s5(2)]
    by (simp add: f_def frame_def hex_byte_def)
  obtain s6 where s6: "getDebugChar hw s5 = Some (heard host s5, s6)" "talk s5 [heard host s5] [] s6"
    by (rule getDebugChar_run [OF assms(1)])
  have c: "heard host s5 = host (rx (io_log s)) (tx (io_log s) @ f)"
    using talk_streams [OF t5] by simp
  have "talk s [heard host s5] f s6" using talk_trans [OF t5 s6(2)] by simp
  moreover have "putpacket hw p s = (if heard host s5 \<noteq> 0x2B then putpacket hw p s6 else Some s6)"
    by (subst putpacket.simps) (simp add: s1(1) s2(1) s3(1) s4(1) s5(1) s6(1))
  ultimately show thesis using that c by blast
qed

definition answers :: "(u8 list \<Rightarrow> u8 list \<Rightarrow> u8) \<Rightarrow> u8 list \<Rightarrow> u8 list \<Rightarrow> u8 list \<Rightarrow> u8 list \<Rightarrow> bool" where
  "answers host r t f as \<longleftrightarrow> (\<forall>i < length as. host (r @ take i as) (t @ concat (replicate (Suc i) f)) = as ! i)"

lemma answers_Cons:
  "answers host r t f (a # as) \<longleftrightarrow> host r (t @ f) = a \<and> answers host (r @ [a]) (t @ f) f as"
  by (auto simp: answers_def less_Suc_eq_0_disj)

lemma putpacket_run:
  assumes "host_line hw host" and "cstring (mem s) p n"
    and "answers host (rx (io_log s)) (tx (io_log s)) (frame (read_bytes (mem s) p n)) (naks @ [0x2B])"
    and "0x2B \<notin> set naks"
  shows "\<exists>s'. putpacket hw p s = Some s' \<and>
    talk s (naks @ [0x2B]) (concat (replicate (Suc (length naks)) (frame (read_bytes (mem s) p n)))) s'"
  using assms(2-4)
proof (induction naks arbitrary: s)
  case Nil
  let ?f = "frame (read_bytes (mem s) p n)"
  obtain s' c where r: "c = host (rx (io_log s)) (tx (io_log s) @ ?f)" "talk s [c] ?f s'"
    "putpacket hw p s = (if c \<noteq> 0x2B then putpacket hw p s' else Some s')"
    by (rule send_frame_run [OF assms(1) Nil.prems(1)])
  have "c = 0x2B" using Nil.prems(2) r(1) by (simp add: answers_Cons)
  then show ?case using r(2,3) by auto
next
  case (Cons a naks)
  let ?f = "frame (read_bytes (mem s) p n)"
  obtain s1 c where r: "c = host (rx (io_log s)) (tx (io_log s) @ ?f)" "talk s [c] ?f s1"
    "putpacket hw p s = (if c \<noteq> 0x2B then putpacket hw p s1 else Some s1)"
    by (rule send_frame_run [OF assms(1) Cons.prems(1)])
  have c: "c = a" "a \<noteq> 0x2B" using Cons.prems(2,3) r(1) by (auto simp: answers_Cons)
  note m = talk_mem [OF r(2)] and st = talk_streams [OF r(2)]
  have "answers host (rx (io_log s1)) (tx (io_log s1)) ?f (naks @ [0x2B])"
    using Cons.prems(2) by (simp add: st c(1) answers_Cons)
  from Cons.IH [of s1, unfolded m, OF Cons.prems(1) this] obtain s' where
    s': "putpacket hw p s1 = Some s'" "talk s1 (naks @ [0x2B]) (concat (replicate (Suc (length naks)) ?f)) s'"
    using Cons.prems(3) by auto
  have "talk s ((a # naks) @ [0x2B]) (concat (replicate (Suc (length (a # naks))) ?f)) s'"
    using talk_trans [OF r(2) s'(2)] c(1) by simp
  then show ?case using r(3) s'(1) c by auto
qed


section \<open>Receiving\<close>

lemma wait_dollar_run:
  assumes "host_line hw host" and "says host (rx (io_log s)) (tx (io_log s)) (noise @ [0x24])" and "0x24 \<notin> set noise"
  shows "\<exists>s'. wait_dollar hw s = Some s' \<and> talk s (noise @ [0x24]) [] s'"
  using assms(2,3)
proof (induction noise arbitrary: s)
  case Nil
  obtain s' where "getDebugChar hw s = Some (heard host s, s')" "talk s [heard host s] [] s'"
    by (rule getDebugChar_run [OF assms(1)])
  then show ?case using Nil.prems(1) by (subst wait_dollar.simps) simp
next
  case (Cons c noise)
  obtain s1 where s1: "getDebugChar hw s = Some (heard host s, s1)" "talk s [heard host s] [] s1"
    by (rule getDebugChar_run [OF assms(1)])
  have c: "heard host s = c" "c \<noteq> 0x24" using Cons.prems by auto
  have "says host (rx (io_log s1)) (tx (io_log s1)) (noise @ [0x24])"
    using Cons.prems(1) talk_streams [OF s1(2)] c(1) by simp
  from Cons.IH [OF this] obtain s' where s': "wait_dollar hw s1 = Some s'" "talk s1 (noise @ [0x24]) [] s'"
    using Cons.prems(2) by auto
  have "talk s ((c # noise) @ [0x24]) [] s'" using talk_trans [OF s1(2) s'(2)] c(1) by simp
  then show ?case using s1(1) s'(1) c by (subst wait_dollar.simps) simp
qed

text \<open>The bytes of a packet are none of the two markers, and fit into the buffer.\<close>

definition plain :: "u8 list \<Rightarrow> bool" where
  "plain bs \<longleftrightarrow> 0x24 \<notin> set bs \<and> 0x23 \<notin> set bs"

lemma written_Cons:
  assumes "length bs < 4294967295"
  shows "written (store8 m p b) (p + 1) bs = written m p (b # bs)"
proof
  fix x
  show "written (store8 m p b) (p + 1) bs x = written m p (b # bs) x"
  proof (cases "x = p")
    case True
    have "unat (- 1 :: u32) = 4294967295" by (simp add: unsigned_minus_1_eq_mask mask_eq_exp_minus_1)
    then show ?thesis using True assms by (simp add: written_def store8_def)
  next
    case False
    then have "x - p \<noteq> 0" by simp
    moreover have "x - (p + 1) = (x - p) - 1" by simp
    ultimately have "unat (x - p) = Suc (unat (x - (p + 1)))"
      by (metis Suc_pred' unat_gt_0 unat_pred_u32)
    then show ?thesis using False by (simp add: written_def store8_def)
  qed
qed

lemma mem_upd_same: "s\<lparr>mem := mem s\<rparr> = s"
  by (cases s) simp

text \<open>The loop reads plain bytes into the buffer.\<close>

lemma read_body_run:
  assumes "host_line hw host" and "says host (rx (io_log s)) (tx (io_log s)) bs"
    and "plain bs" and "k + length bs \<le> BUFMAX - 1"
  shows "\<exists>s' ch'. talk s bs [] s' \<and> (bs = [] \<longrightarrow> ch' = ch) \<and> (bs \<noteq> [] \<longrightarrow> ch' = last bs) \<and>
    read_body hw buffer ch cs k s =
    read_body hw buffer ch' (cs + sum_list bs) (k + length bs) (s'\<lparr>mem := written (mem s) (buffer + of_nat k) bs\<rparr>)"
  using assms(2-4)
proof (induction bs arbitrary: s k cs ch)
  case Nil
  show ?case by (intro exI [of _ s] exI [of _ ch]) (simp add: talk_refl)
next
  case (Cons b bs)
  obtain s1 where s1: "getDebugChar hw s = Some (heard host s, s1)" "talk s [heard host s] [] s1"
    by (rule getDebugChar_run [OF assms(1)])
  have b: "heard host s = b" "b \<noteq> 0x24" "b \<noteq> 0x23" "plain bs" using Cons.prems by (auto simp: plain_def)
  note m = talk_mem [OF s1(2)]
  let ?s1 = "st8 (buffer + of_nat k) b s1"
  have "says host (rx (io_log ?s1)) (tx (io_log ?s1)) bs"
    using Cons.prems(1) talk_streams [OF s1(2)] b(1) by simp
  from Cons.IH [OF this b(4), of "Suc k" b "cs + b"] obtain s' ch' where
    s': "talk ?s1 bs [] s'" "bs = [] \<longrightarrow> ch' = b" "bs \<noteq> [] \<longrightarrow> ch' = last bs"
      "read_body hw buffer b (cs + b) (Suc k) ?s1 = read_body hw buffer ch' (cs + b + sum_list bs) (Suc k + length bs)
        (s'\<lparr>mem := written (mem ?s1) (buffer + of_nat (Suc k)) bs\<rparr>)"
    using Cons.prems(3) by auto
  have w: "written (mem ?s1) (buffer + of_nat (Suc k)) bs = written (mem s) (buffer + of_nat k) (b # bs)"
    using written_Cons [of bs "mem s" "buffer + of_nat k" b] Cons.prems(3) by (simp add: m ac_simps)
  have t: "talk s (b # bs) [] (s'\<lparr>mem := mem s\<rparr>)"
  proof -
    have "talk s1 bs [] (s'\<lparr>mem := mem s\<rparr>)"
      using talk_upd_mem [OF s'(1), of "mem s1"] by (simp add: st8_def mem_upd_same flip: m)
    from talk_trans [OF s1(2) this] show ?thesis using b(1) by simp
  qed
  have r: "read_body hw buffer ch cs k s = read_body hw buffer b (cs + b) (Suc k) ?s1"
    using b s1(1) Cons.prems(3) by (subst read_body.simps) simp
  show ?case
    by (intro exI [of _ "s'\<lparr>mem := mem s\<rparr>"] exI [of _ ch'])
      (use t r s'(2-4) w in \<open>simp add: add.assoc\<close>)
qed

text \<open>A marker ends the loop or restarts it.\<close>

lemma read_body_marker:
  assumes "host_line hw host" and "heard host s \<in> {0x23, 0x24}" and "k < BUFMAX - 1"
  obtains s' where "talk s [heard host s] [] s'"
    and "read_body hw buffer ch cs k s =
      (if heard host s = 0x23 then Some (0x23, cs, k, s') else read_body hw buffer 0x24 0 0 s')"
proof -
  obtain s' where s': "getDebugChar hw s = Some (heard host s, s')" "talk s [heard host s] [] s'"
    by (rule getDebugChar_run [OF assms(1)])
  have "read_body hw buffer ch cs k s =
      (if heard host s = 0x23 then Some (0x23, cs, k, s') else read_body hw buffer 0x24 0 0 s')"
    using assms(2,3) s'(1) by (subst read_body.simps) auto
  then show thesis using that s'(2) by blast
qed

lemma read_marked_run:
  assumes "host_line hw host" and "says host (rx (io_log s)) (tx (io_log s)) (bs @ [c])"
    and "plain bs" and "length bs < BUFMAX - 1" and "c \<in> {0x23, 0x24}"
  shows "\<exists>s'. talk s (bs @ [c]) [] s' \<and> (let s' = s'\<lparr>mem := written (mem s) buffer bs\<rparr> in
    read_body hw buffer ch 0 0 s =
      (if c = 0x23 then Some (0x23, sum_list bs, length bs, s') else read_body hw buffer 0x24 0 0 s'))"
proof -
  let ?m = "written (mem s) buffer bs"
  from assms(2) have says: "says host (rx (io_log s)) (tx (io_log s)) bs"
    "host (rx (io_log s) @ bs) (tx (io_log s)) = c" by (simp_all add: says_append)
  have "0 + length bs \<le> BUFMAX - 1" using assms(4) by simp
  from read_body_run [OF assms(1) says(1) assms(3) this, of ch buffer 0] obtain s1 ch1 where
    s1: "talk s bs [] s1"
      "read_body hw buffer ch 0 0 s = read_body hw buffer ch1 (sum_list bs) (length bs) (s1\<lparr>mem := ?m\<rparr>)"
    by auto
  have c: "heard host (s1\<lparr>mem := ?m\<rparr>) = c" using talk_streams [OF s1(1)] says(2) by simp
  obtain s2 where s2: "talk (s1\<lparr>mem := ?m\<rparr>) [c] [] s2"
    "read_body hw buffer ch1 (sum_list bs) (length bs) (s1\<lparr>mem := ?m\<rparr>) =
      (if c = 0x23 then Some (0x23, sum_list bs, length bs, s2) else read_body hw buffer 0x24 0 0 s2)"
    using read_body_marker [OF assms(1), of "s1\<lparr>mem := ?m\<rparr>" "length bs" buffer ch1 "sum_list bs"] c assms(4,5)
    by auto
  have "talk s1 [c] [] (s2\<lparr>mem := mem s1\<rparr>)"
    using talk_upd_mem [OF s2(1), of "mem s1"] by (simp add: mem_upd_same)
  from talk_trans [OF s1(1) this] have "talk s (bs @ [c]) [] (s2\<lparr>mem := mem s1\<rparr>)" by simp
  moreover have "s2\<lparr>mem := mem s1, mem := ?m\<rparr> = s2"
    using talk_mem [OF s2(1)] mem_upd_same [of s2] by simp
  ultimately show ?thesis
    by (intro exI [of _ "s2\<lparr>mem := mem s1\<rparr>"]) (simp add: Let_def s1(2) s2(2) c del: machine.update_convs)
qed

text \<open>Packets the host has begun and then given up with another \<open>$\<close>.\<close>

definition given_up :: "u8 list list \<Rightarrow> u8 list" where
  "given_up ps = concat (map (\<lambda>p. p @ [0x24]) ps)"

definition fits :: "u8 list \<Rightarrow> bool" where
  "fits bs \<longleftrightarrow> plain bs \<and> length bs < BUFMAX - 1"

definition buffered :: "mem \<Rightarrow> u32 \<Rightarrow> u8 list list \<Rightarrow> mem" where
  "buffered m buffer ps = fold (\<lambda>p m. written m buffer p) ps m"

lemma read_packet_run:
  assumes "host_line hw host" and "says host (rx (io_log s)) (tx (io_log s)) (given_up ps @ bs @ [0x23])"
    and "\<forall>p \<in> set ps. fits p" and "fits bs"
  shows "\<exists>s'. talk s (given_up ps @ bs @ [0x23]) [] s' \<and>
    read_body hw buffer ch 0 0 s =
      Some (0x23, sum_list bs, length bs, s'\<lparr>mem := buffered (mem s) buffer (ps @ [bs])\<rparr>)"
  using assms(2,3)
proof (induction ps arbitrary: s ch)
  case Nil
  have "plain bs" "length bs < BUFMAX - 1" using assms(4) by (simp_all add: fits_def)
  from read_marked_run [OF assms(1) _ this, of s "0x23" buffer ch] show ?case
    using Nil.prems(1) by (simp add: given_up_def buffered_def Let_def)
next
  case (Cons p ps)
  have p: "plain p" "length p < BUFMAX - 1" using Cons.prems(2) by (simp_all add: fits_def)
  have says: "says host (rx (io_log s)) (tx (io_log s)) (p @ [0x24])"
    "says host (rx (io_log s) @ p @ [0x24]) (tx (io_log s)) (given_up ps @ bs @ [0x23])"
    using Cons.prems(1) by (simp_all add: given_up_def says_append)
  from read_marked_run [OF assms(1) says(1) p, of buffer ch] obtain s1 where
    s1: "talk s (p @ [0x24]) [] s1"
      "read_body hw buffer ch 0 0 s = read_body hw buffer 0x24 0 0 (s1\<lparr>mem := written (mem s) buffer p\<rparr>)"
    by (auto simp: Let_def)
  let ?s1 = "s1\<lparr>mem := written (mem s) buffer p\<rparr>"
  have "says host (rx (io_log ?s1)) (tx (io_log ?s1)) (given_up ps @ bs @ [0x23])"
    using says(2) talk_streams [OF s1(1)] by simp
  from Cons.IH [OF this, of "0x24"] Cons.prems(2) obtain s' where
    s': "talk ?s1 (given_up ps @ bs @ [0x23]) [] s'"
      "read_body hw buffer 0x24 0 0 ?s1 =
        Some (0x23, sum_list bs, length bs, s'\<lparr>mem := buffered (mem ?s1) buffer (ps @ [bs])\<rparr>)"
    by auto
  have "talk s1 (given_up ps @ bs @ [0x23]) [] (s'\<lparr>mem := mem s1\<rparr>)"
    using talk_upd_mem [OF s'(1), of "mem s1"] by (simp add: mem_upd_same)
  from talk_trans [OF s1(1) this]
  have "talk s (given_up (p # ps) @ bs @ [0x23]) [] (s'\<lparr>mem := mem s1\<rparr>)" by (simp add: given_up_def)
  then show ?case
    using s1(2) s'(2) by (intro exI [of _ "s'\<lparr>mem := mem s1\<rparr>"]) (simp add: buffered_def)
qed


section \<open>\<open>getpacket\<close>, up to the verdict on the checksum\<close>

definition packet :: "u8 list \<Rightarrow> u8 list list \<Rightarrow> u8 list \<Rightarrow> u8 \<Rightarrow> u8 \<Rightarrow> u8 list" where
  "packet noise ps bs c1 c2 = noise @ [0x24] @ given_up ps @ bs @ [0x23, c1, c2]"

lemma getpacket_verdict:
  fixes s :: "'a gdb_state_scheme"
  assumes "host_line (v_ghw env) host" and "says host (rx (io_log s)) (tx (io_log s)) (packet noise ps bs c1 c2)"
    and "0x24 \<notin> set noise" and "\<forall>p \<in> set ps. fits p" and "fits bs"
  obtains s' where "talk s (packet noise ps bs c1 c2) [] s'"
    and "getpacket env s =
      (let s' = s'\<lparr>mem := buffered (mem s) (v_in_buffer env) (ps @ [bs @ [0]])\<rparr> in
       if sum_list bs \<noteq> hex_pair c1 c2 then do {
         s \<leftarrow> (if remote_debug s' \<noteq> 0 then bad_checksum env (sum_list bs) (hex_pair c1 c2) s' else Some s');
         s \<leftarrow> putDebugChar (v_ghw env) 0x2D s;
         getpacket env s
       } else accept_packet env s')"
proof -
  let ?hw = "v_ghw env" and ?in = "v_in_buffer env"
  let ?m1 = "buffered (mem s) ?in (ps @ [bs])"
  let ?m2 = "buffered (mem s) ?in (ps @ [bs @ [0]])"
  have says: "says host (rx (io_log s)) (tx (io_log s)) (noise @ [0x24])"
    "says host (rx (io_log s) @ noise @ [0x24]) (tx (io_log s)) (given_up ps @ bs @ [0x23])"
    "says host (rx (io_log s) @ noise @ [0x24] @ given_up ps @ bs @ [0x23]) (tx (io_log s)) [c1, c2]"
    using assms(2) by (simp_all add: packet_def says_append)
  from wait_dollar_run [OF assms(1) says(1) assms(3)] obtain s1 where
    s1: "wait_dollar ?hw s = Some s1" "talk s (noise @ [0x24]) [] s1" by blast
  have "says host (rx (io_log s1)) (tx (io_log s1)) (given_up ps @ bs @ [0x23])"
    using says(2) talk_streams [OF s1(2)] by simp
  from read_packet_run [OF assms(1) this assms(4,5), of ?in "0x24"] obtain s2 where
    s2: "talk s1 (given_up ps @ bs @ [0x23]) [] s2"
      "read_body ?hw ?in 0x24 0 0 s1 = Some (0x23, sum_list bs, length bs, s2\<lparr>mem := ?m1\<rparr>)"
    unfolding talk_mem [OF s1(2)] by blast
  have len: "length bs < 4294967296" using assms(5) by (simp add: fits_def)
  have st: "st8 (?in + of_nat (length bs)) 0 (s2\<lparr>mem := ?m1\<rparr>) = s2\<lparr>mem := ?m2\<rparr>"
    using written_snoc [OF len] by (simp add: st8_def buffered_def)
  let ?s2 = "s2\<lparr>mem := ?m2\<rparr>"
  note t2 = talk_trans [OF s1(2) s2(1)]
  have h1: "heard host ?s2 = c1" using says(3) talk_streams [OF t2] by simp
  obtain s3 where s3: "getDebugChar ?hw ?s2 = Some (c1, s3)" "talk ?s2 [c1] [] s3"
    using getDebugChar_run [OF assms(1), of ?s2] unfolding h1 by blast
  have h2: "heard host s3 = c2" using says(3) talk_streams [OF s3(2)] talk_streams [OF t2] by simp
  obtain s4 where s4: "getDebugChar ?hw s3 = Some (c2, s4)" "talk s3 [c2] [] s4"
    using getDebugChar_run [OF assms(1), of s3] unfolding h2 by blast
  let ?s' = "s4\<lparr>mem := mem s2\<rparr>"
  have t34: "talk ?s2 [c1, c2] [] s4" using talk_trans [OF s3(2) s4(2)] by simp
  have "talk s2 [c1, c2] [] ?s'"
    using talk_upd_mem [OF t34, of "mem s2"] by (simp add: mem_upd_same)
  from talk_trans [OF t2 this] have t: "talk s (packet noise ps bs c1 c2) [] ?s'"
    by (simp add: packet_def)
  have eq: "?s'\<lparr>mem := ?m2\<rparr> = s4" using talk_mem [OF t34] mem_upd_same [of s4] by simp
  have "getpacket env s =
     (if sum_list bs \<noteq> hex_pair c1 c2 then do {
         s \<leftarrow> (if remote_debug s4 \<noteq> 0 then bad_checksum env (sum_list bs) (hex_pair c1 c2) s4 else Some s4);
         s \<leftarrow> putDebugChar ?hw 0x2D s;
         getpacket env s
       } else accept_packet env s4)"
    by (subst getpacket.simps) (simp add: s1(1) s2(2) st s3(1) s4(1) Let_def)
  then show thesis using that [OF t] by (simp add: Let_def eq del: machine.update_convs)
qed

end
