(* ===== verification/GdbMem.thy ===== *)
theory GdbMem
  imports GdbPacket
begin

text \<open>
  Memory as hexadecimal text: what \<open>mem2hex\<close> and \<open>hex2mem\<close> write, up to the first address that
  faults, and the numbers \<open>hexToInt\<close> reads.
\<close>

section \<open>Texts\<close>

definition hex_text :: "u8 list \<Rightarrow> u8 list" where
  "hex_text bs = concat (map hex_byte bs)"

fun unhex :: "u8 list \<Rightarrow> u8 list" where
  "unhex (c1 # c2 # cs) = hex_pair c1 c2 # unhex cs"
| "unhex _ = []"

lemma hex_text_simps [simp]:
  "hex_text [] = []" "hex_text (b # bs) = hex_byte b @ hex_text bs"
  by (simp_all add: hex_text_def)

lemma length_hex_text [simp]: "length (hex_text bs) = 2 * length bs"
  by (induction bs) (simp_all add: hex_byte_def)

lemma length_unhex [simp]: "length (unhex cs) = length cs div 2"
  by (induction cs rule: unhex.induct) simp_all

lemma unhex_hex_text [simp]: "unhex (hex_text bs) = bs"
  by (induction bs) (simp_all add: hex_byte_def hex_pair_byte)

lemma take_hex_text: "take (2 * k) (hex_text bs) = hex_text (take k bs)"
proof (induction bs arbitrary: k)
  case (Cons b bs)
  then show ?case by (cases k) (simp_all add: hex_byte_def)
qed simp

lemma hex_text_no_marker: "set (hex_text bs) \<inter> {0, 0x23, 0x24} = {}"
  using hexchars_not [OF nibbles_lt(1)] hexchars_not [OF nibbles_lt(2)]
  by (induction bs) (auto simp: hex_byte_def)


section \<open>Ranges that do not meet\<close>

text \<open>None of the \<open>n\<close> bytes from \<open>p\<close> is one of the \<open>m\<close> bytes from \<open>q\<close>.\<close>

definition away :: "u32 \<Rightarrow> nat \<Rightarrow> u32 \<Rightarrow> nat \<Rightarrow> bool" where
  "away p n q m \<longleftrightarrow> (\<forall>i < n. m \<le> unat (p + of_nat i - q))"

lemma away_mono: "away p n q m \<Longrightarrow> n' \<le> n \<Longrightarrow> m' \<le> m \<Longrightarrow> away p n' q m'"
  unfolding away_def by (meson less_le_trans le_trans)

lemma awayI:
  assumes "unat p + n \<le> unat q \<or> unat q + m \<le> unat p"
    and "unat p + n \<le> 4294967296" and "unat q + m \<le> 4294967296"
  shows "away p n q m"
  unfolding away_def
proof (intro allI impI)
  fix i assume i: "i < n"
  have u: "unat (p + of_nat i) = unat p + i"
    using assms(2) i by (subst unat_add_u32) (simp_all add: unat_of_nat_u32)
  show "m \<le> unat (p + of_nat i - q)"
  proof (cases "unat p + n \<le> unat q")
    case True
    then have "unat (p + of_nat i - q) = 4294967296 + (unat p + i) - unat q"
      using unat_diff_wrap_u32 [of "p + of_nat i" q] u i by simp
    then show ?thesis using assms(3) by simp
  next
    case False
    then have "unat (p + of_nat i - q) = unat p + i - unat q"
      using unat_diff_u32 [of q "p + of_nat i"] u assms(1) by simp
    then show ?thesis using assms(1) False by simp
  qed
qed

lemma away_read:
  assumes "away p n q (length bs)"
  shows "read_bytes (written m q bs) p n = read_bytes m p n"
  using assms by (intro read_bytes_cong load8_written_other) (simp add: away_def)

lemma offset_pred:
  fixes x :: u32
  assumes "Suc k \<le> unat (x - q)"
  shows "k \<le> unat (x - (q + 1))"
proof -
  have "x - q \<noteq> 0" using assms by (metis not_less_eq_eq unat_0 zero_le)
  then have "unat (x - q - 1) = unat (x - q) - 1" by (rule unat_pred_u32)
  then have "k \<le> unat (x - q - 1)" using assms by simp
  then show ?thesis by (simp add: diff_diff_eq)
qed

lemma away_step1:
  assumes "away p (Suc n) q (Suc m)"
  shows "away (p + 1) n (q + 1) m"
  unfolding away_def
proof (intro allI impI)
  fix i assume "i < n"
  then have "Suc m \<le> unat (p + of_nat (Suc i) - q)" using assms unfolding away_def by (metis Suc_less_eq)
  from offset_pred [OF this] show "m \<le> unat (p + 1 + of_nat i - (q + 1))" by (simp add: add.assoc)
qed

lemma away_dest:
  assumes "away p n q (Suc m)"
  shows "away p n (q + 1) m"
  using assms offset_pred unfolding away_def by blast

lemma away_src: "away p (Suc n) q m \<Longrightarrow> away (p + 1) n q m"
  unfolding away_def by (metis (no_types) Suc_less_eq add.assoc of_nat_Suc)

lemma read_two_more:
  "read_bytes m p (2 * Suc n) = load8 m p # load8 m (p + 1) # read_bytes m (p + 2) (2 * n)"
proof -
  have "p + 1 + 1 = p + 2" by simp
  then show ?thesis by (simp add: read_bytes_Suc add.commute [of 2])
qed

lemma written_two:
  assumes "length bs < 4294967294"
  shows "written (store8 (store8 m p b) (p + 1) c) (p + 2) bs = written m p (b # c # bs)"
proof -
  have "p + 2 = p + 1 + 1" by simp
  then show ?thesis
    using assms written_Cons [of bs "store8 m p b" "p + 1" c] written_Cons [of "c # bs" m p b]
    by (simp add: add.commute [of 2])
qed


section \<open>\<open>mem2hex\<close>\<close>

definition accessible :: "gdb_env \<Rightarrow> u32 \<Rightarrow> nat \<Rightarrow> bool" where
  "accessible env a n \<longleftrightarrow> (\<forall>i < n. \<not> v_faults env (a + of_nat i))"

lemma accessible_Suc: "accessible env a (Suc n) \<longleftrightarrow> \<not> v_faults env a \<and> accessible env (a + 1) n"
  unfolding accessible_def by (auto simp: less_Suc_eq_0_disj add.assoc)

lemma mem2hex_loop_run:
  assumes "accessible env a n" and "away a n buf (2 * n)" and "2 * n < 4294967294"
    and "may_fault \<longrightarrow> mem_err s = 0"
  shows "mem2hex_loop env (n + k) a buf may_fault s =
    mem2hex_loop env k (a + of_nat n) (buf + of_nat (2 * n)) may_fault
      (s\<lparr>mem := written (mem s) buf (hex_text (read_bytes (mem s) a n))\<rparr>)"
  using assms
proof (induction n arbitrary: a buf s)
  case 0
  then show ?case by (simp add: read_bytes_def mem_upd_same)
next
  case (Suc n)
  let ?b = "load8 (mem s) a"
  let ?c1 = "hexchars (unat (drop_bit 4 ?b))" and ?c2 = "hexchars (unat (?b mod 16))"
  let ?s = "st8 (buf + 1) ?c2 (st8 buf ?c1 s)"
  have ok: "\<not> v_faults env a" "accessible env (a + 1) n" using Suc.prems(1) by (simp_all add: accessible_Suc)
  have aw: "away (a + 1) n buf 2" "away (a + 1) n (buf + 2) (2 * n)"
  proof -
    have "away (a + 1) n buf (Suc (Suc (2 * n)))" using away_src Suc.prems(2) by simp
    then show "away (a + 1) n buf 2" by (rule away_mono) simp_all
    have "away (a + 1) n (buf + 1 + 1) (2 * n)"
      by (intro away_dest) (use \<open>away (a + 1) n buf (Suc (Suc (2 * n)))\<close> in simp)
    then show "away (a + 1) n (buf + 2) (2 * n)" by (simp add: add.assoc)
  qed
  have m: "mem ?s = written (mem s) buf [?c1, ?c2]"
    using written_two [of "[]" "mem s" buf ?c1 ?c2] by simp
  have rd: "read_bytes (mem ?s) (a + 1) n = read_bytes (mem s) (a + 1) n"
    unfolding m by (rule away_read) (use aw(1) in \<open>simp add: numeral_2_eq_2\<close>)
  have "mem2hex_loop env (Suc n + k) a buf may_fault s = mem2hex_loop env (n + k) (a + 1) (buf + 2) may_fault ?s"
    using ok(1) Suc.prems(4) by (auto simp: get_char_def Let_def)
  also have "\<dots> = mem2hex_loop env k (a + 1 + of_nat n) (buf + 2 + of_nat (2 * n)) may_fault
      (?s\<lparr>mem := written (mem ?s) (buf + 2) (hex_text (read_bytes (mem ?s) (a + 1) n))\<rparr>)"
    by (rule Suc.IH [OF ok(2) aw(2)]) (use Suc.prems(3,4) in \<open>simp_all add: st8_def\<close>)
  also have "written (mem ?s) (buf + 2) (hex_text (read_bytes (mem ?s) (a + 1) n)) =
      written (mem s) buf (hex_text (read_bytes (mem s) a (Suc n)))"
    unfolding rd using Suc.prems(3) by (simp add: written_two read_bytes_Suc hex_byte_def)
  also have "?s\<lparr>mem := written (mem s) buf (hex_text (read_bytes (mem s) a (Suc n)))\<rparr> =
      s\<lparr>mem := written (mem s) buf (hex_text (read_bytes (mem s) a (Suc n)))\<rparr>"
    by (simp add: st8_def)
  finally show ?case by (simp add: add.assoc)
qed

lemma times_of_nat: "n < 2147483648 \<Longrightarrow> times (of_nat n) = n"
  by (simp add: times_def signed_of_nat signed_take_bit_int_eq_self)

lemma mem2hex_run:
  assumes "accessible env a n" and "away a n buf (2 * n)" and "n < 2147483647"
    and "may_fault \<longrightarrow> mem_err s = 0"
  shows "mem2hex env a buf (of_nat n) may_fault s =
    Some (buf + of_nat (2 * n),
      s\<lparr>mem := written (mem s) buf (hex_text (read_bytes (mem s) a n) @ [0]),
        mem_fault_routine := if may_fault then 0 else mem_fault_routine s\<rparr>)"
proof -
  let ?s = "if may_fault then s\<lparr>mem_fault_routine := v_set_mem_err env\<rparr> else s"
  let ?t = "hex_text (read_bytes (mem s) a n)"
  have t: "times (of_nat n) = n" using assms(3) by (simp add: times_of_nat)
  have "mem2hex_loop env n a buf may_fault ?s =
      Some (True, buf + of_nat (2 * n), ?s\<lparr>mem := written (mem s) buf ?t\<rparr>)"
    using mem2hex_loop_run [OF assms(1,2), of may_fault ?s 0] assms(3,4) by simp
  moreover have "store8 (written (mem s) buf ?t) (buf + of_nat (2 * n)) 0 = written (mem s) buf (?t @ [0])"
    using written_snoc [of ?t] assms(3) by simp
  ultimately show ?thesis
    unfolding mem2hex_def t by (simp add: Let_def st8_def)
qed

text \<open>At the first address that faults the routine armed for it has run, and nothing is armed
  any more.\<close>

definition after_fault :: "gdb_env \<Rightarrow> u32 \<Rightarrow> 'a gdb_state_scheme \<Rightarrow> 'a gdb_state_scheme" where
  "after_fault env a s = s\<lparr>gdb_i386errcode := v_errcode env a, mem_fault_routine := 0, mem_err := 1\<rparr>"

lemma mem2hex_fault:
  assumes "accessible env a k" and "v_faults env (a + of_nat k)" and "k < n"
    and "away a k buf (2 * k)" and "n < 2147483647" and "mem_err s = 0" and "v_set_mem_err env \<noteq> 0"
  shows "mem2hex env a buf (of_nat n) True s =
    Some (buf + of_nat (2 * k), after_fault env (a + of_nat k)
      (s\<lparr>mem := written (mem s) buf (hex_text (read_bytes (mem s) a k))\<rparr>))"
proof -
  let ?s = "s\<lparr>mem_fault_routine := v_set_mem_err env\<rparr>"
  have t: "times (of_nat n) = k + Suc (n - k - 1)" using assms(3,5) by (simp add: times_of_nat)
  let ?s1 = "?s\<lparr>mem := written (mem s) buf (hex_text (read_bytes (mem s) a k))\<rparr>"
  have "mem2hex_loop env (k + Suc (n - k - 1)) a buf True ?s =
      mem2hex_loop env (Suc (n - k - 1)) (a + of_nat k) (buf + of_nat (2 * k)) True ?s1"
    by (subst mem2hex_loop_run [OF assms(1,4)]) (use assms(3,5,6) in simp_all)
  also have "\<dots> = Some (False, buf + of_nat (2 * k), after_fault env (a + of_nat k) ?s1)"
    using assms(2,7) by (simp add: get_char_def access_fault_def set_mem_err_def after_fault_def)
  finally have r: "mem2hex_loop env (k + Suc (n - k - 1)) a buf True ?s =
      Some (False, buf + of_nat (2 * k), after_fault env (a + of_nat k) ?s1)" .
  show ?thesis
    unfolding mem2hex_def t Let_def if_True r by (simp add: after_fault_def)
qed


section \<open>\<open>hex2mem\<close>\<close>

lemma hex2mem_loop_run:
  assumes "accessible env a n" and "away buf (2 * n) a n" and "2 * n < 4294967294"
    and "may_fault \<longrightarrow> mem_err s = 0"
  shows "hex2mem_loop env (n + k) buf a may_fault s =
    hex2mem_loop env k (buf + of_nat (2 * n)) (a + of_nat n) may_fault
      (s\<lparr>mem := written (mem s) a (unhex (read_bytes (mem s) buf (2 * n)))\<rparr>)"
  using assms
proof (induction n arbitrary: a buf s)
  case 0
  then show ?case by (simp add: read_bytes_def mem_upd_same)
next
  case (Suc n)
  let ?b = "hex_pair (load8 (mem s) buf) (load8 (mem s) (buf + 1))"
  let ?s = "st8 a ?b s"
  have ok: "\<not> v_faults env a" "accessible env (a + 1) n" using Suc.prems(1) by (simp_all add: accessible_Suc)
  have aw: "away (buf + 2) (2 * n) a 1" "away (buf + 2) (2 * n) (a + 1) n"
  proof -
    have "away (buf + 1 + 1) (2 * n) a (Suc n)" by (intro away_src) (use Suc.prems(2) in simp)
    then have "away (buf + 2) (2 * n) a (Suc n)" by (simp add: add.assoc)
    then show "away (buf + 2) (2 * n) a 1" "away (buf + 2) (2 * n) (a + 1) n"
      by (auto intro: away_mono away_dest)
  qed
  have m: "mem ?s = written (mem s) a [?b]"
    using written_Cons [of "[]" "mem s" a ?b] by simp
  have rd: "read_bytes (mem ?s) (buf + 2) (2 * n) = read_bytes (mem s) (buf + 2) (2 * n)"
    unfolding m by (rule away_read) (use aw(1) in simp)
  have "hex2mem_loop env (Suc n + k) buf a may_fault s = hex2mem_loop env (n + k) (buf + 2) (a + 1) may_fault ?s"
    using ok(1) Suc.prems(4) by (auto simp: set_char_def st8_def)
  also have "\<dots> = hex2mem_loop env k (buf + 2 + of_nat (2 * n)) (a + 1 + of_nat n) may_fault
      (?s\<lparr>mem := written (mem ?s) (a + 1) (unhex (read_bytes (mem ?s) (buf + 2) (2 * n)))\<rparr>)"
    by (rule Suc.IH [OF ok(2) aw(2)]) (use Suc.prems(3,4) in \<open>simp_all add: st8_def\<close>)
  also have "written (mem ?s) (a + 1) (unhex (read_bytes (mem ?s) (buf + 2) (2 * n))) =
      written (mem s) a (unhex (read_bytes (mem s) buf (2 * Suc n)))"
    unfolding rd read_two_more using Suc.prems(3) by (simp add: written_Cons)
  also have "?s\<lparr>mem := written (mem s) a (unhex (read_bytes (mem s) buf (2 * Suc n)))\<rparr> =
      s\<lparr>mem := written (mem s) a (unhex (read_bytes (mem s) buf (2 * Suc n)))\<rparr>"
    by (simp add: st8_def)
  finally show ?case by (simp add: add.assoc)
qed

lemma hex2mem_run:
  assumes "accessible env a n" and "away buf (2 * n) a n" and "n < 2147483647"
    and "may_fault \<longrightarrow> mem_err s = 0"
  shows "hex2mem env buf a (of_nat n) may_fault s =
    Some (a + of_nat n,
      s\<lparr>mem := written (mem s) a (unhex (read_bytes (mem s) buf (2 * n))),
        mem_fault_routine := if may_fault then 0 else mem_fault_routine s\<rparr>)"
proof -
  let ?s = "if may_fault then s\<lparr>mem_fault_routine := v_set_mem_err env\<rparr> else s"
  have t: "times (of_nat n) = n" using assms(3) by (simp add: times_of_nat)
  have "hex2mem_loop env n buf a may_fault ?s =
      Some (True, a + of_nat n, ?s\<lparr>mem := written (mem s) a (unhex (read_bytes (mem s) buf (2 * n)))\<rparr>)"
    using hex2mem_loop_run [OF assms(1,2), of may_fault ?s 0] assms(3,4) by simp
  then show ?thesis unfolding hex2mem_def t by (simp add: Let_def)
qed


text \<open>A fault while writing: the bytes before it have been written.\<close>

lemma hex2mem_fault:
  assumes "accessible env a k" and "v_faults env (a + of_nat k)" and "k < n"
    and "away buf (2 * k) a k" and "n < 2147483647" and "mem_err s = 0" and "v_set_mem_err env \<noteq> 0"
  shows "hex2mem env buf a (of_nat n) True s =
    Some (a + of_nat k + 1, after_fault env (a + of_nat k)
      (s\<lparr>mem := written (mem s) a (unhex (read_bytes (mem s) buf (2 * k)))\<rparr>))"
proof -
  let ?s = "s\<lparr>mem_fault_routine := v_set_mem_err env\<rparr>"
  have t: "times (of_nat n) = k + Suc (n - k - 1)" using assms(3,5) by (simp add: times_of_nat)
  let ?s1 = "?s\<lparr>mem := written (mem s) a (unhex (read_bytes (mem s) buf (2 * k)))\<rparr>"
  have "hex2mem_loop env (k + Suc (n - k - 1)) buf a True ?s =
      hex2mem_loop env (Suc (n - k - 1)) (buf + of_nat (2 * k)) (a + of_nat k) True ?s1"
    by (subst hex2mem_loop_run [OF assms(1,4)]) (use assms(3,5,6) in simp_all)
  also have "\<dots> = Some (False, a + of_nat k + 1, after_fault env (a + of_nat k) ?s1)"
    using assms(2,7) by (simp add: set_char_def access_fault_def set_mem_err_def after_fault_def)
  finally have r: "hex2mem_loop env (k + Suc (n - k - 1)) buf a True ?s =
      Some (False, a + of_nat k + 1, after_fault env (a + of_nat k) ?s1)" .
  show ?thesis
    unfolding hex2mem_def t Let_def if_True r by (simp add: after_fault_def)
qed


section \<open>\<open>hexToInt\<close>\<close>

definition hex_value :: "u8 list \<Rightarrow> int" where
  "hex_value ds = foldl (\<lambda>v d. 16 * v + hex d) 0 ds"

lemma hex_lt_16: "hex d < 16"
  by (simp add: hex_def word_le_def)

lemma shift_or:
  assumes "0 \<le> h" and "h < 16"
  shows "push_bit 4 v OR word_of_int h = (word_of_int (16 * uint v + h) :: u32)"
proof -
  have "push_bit 4 v OR (word_of_int h :: u32) = push_bit 4 v + word_of_int h"
  proof (rule disjunctive_add_eq_or [symmetric], rule bit_eqI)
    fix i
    have "take_bit 4 h = h" using assms by (simp add: take_bit_int_eq_self)
    then have "\<not> bit h i" if "4 \<le> i" using that by (metis bit_take_bit_iff not_le)
    then show "bit (push_bit 4 v AND word_of_int h) i = bit 0 i" by (auto simp: bit_simps)
  qed
  also have "\<dots> = word_of_int (16 * uint v + h)"
    by (simp add: push_bit_eq_mult wi_hom_syms)
  finally show ?thesis .
qed

lemma hexToInt_loop_run:
  assumes "read_bytes (mem s) p (length ds) = ds" and "\<forall>d \<in> set ds. 0 \<le> hex d"
    and "hex (load8 (mem s) (p + of_nat (length ds))) < 0"
  shows "hexToInt_loop p (word_of_int v) k s =
    Some (k + of_nat (length ds), word_of_int (foldl (\<lambda>v d. 16 * v + hex d) v ds), p + of_nat (length ds))"
  using assms
proof (induction ds arbitrary: p v k)
  case Nil
  then show ?case by (subst hexToInt_loop.simps) simp
next
  case (Cons d ds)
  have d: "load8 (mem s) p = d" "read_bytes (mem s) (p + 1) (length ds) = ds"
    using Cons.prems(1) by (simp_all add: read_bytes_Suc)
  have h: "0 \<le> hex d" using Cons.prems(2) by simp
  then have "d \<noteq> 0" by (auto simp: hex_def)
  moreover have "push_bit 4 (word_of_int v) OR word_of_int (hex d) = (word_of_int (16 * v + hex d) :: u32)"
    unfolding shift_or [OF h hex_lt_16] by (simp add: wi_hom_syms word_of_int_uint)
  ultimately have "hexToInt_loop p (word_of_int v) k s = hexToInt_loop (p + 1) (word_of_int (16 * v + hex d)) (k + 1) s"
    using h by (subst hexToInt_loop.simps) (simp add: d(1))
  also have "\<dots> = Some (k + 1 + of_nat (length ds), word_of_int (foldl (\<lambda>v d. 16 * v + hex d) (16 * v + hex d) ds),
      p + 1 + of_nat (length ds))"
    by (rule Cons.IH) (use d(2) Cons.prems(2,3) in \<open>simp_all add: add.assoc\<close>)
  finally show ?case by (simp add: add.assoc)
qed

lemma hexToInt_run:
  assumes "read_bytes (mem s) p (length ds) = ds" and "\<forall>d \<in> set ds. 0 \<le> hex d"
    and "hex (load8 (mem s) (p + of_nat (length ds))) < 0"
  shows "hexToInt p s = Some (of_nat (length ds), word_of_int (hex_value ds), p + of_nat (length ds))"
  using hexToInt_loop_run [OF assms, of 0 0] by (simp add: hexToInt_def hex_value_def)


section \<open>The conversions return\<close>

lemma hexToInt_total:
  assumes "mem s q = 0"
  shows "\<exists>r. hexToInt_loop p v n s = Some r"
proof (induction "unat (q - p)" arbitrary: p v n rule: less_induct)
  case less
  show ?case
  proof (cases "p = q")
    case True
    then show ?thesis using assms by (subst hexToInt_loop.simps) (simp add: load8_def)
  next
    case False
    then have "q - p \<noteq> 0" by simp
    then have "unat (q - p - 1) < unat (q - p)" by (rule measure_unat)
    then have "unat (q - (p + 1)) < unat (q - p)" by (simp add: diff_diff_eq)
    from less [OF this] show ?thesis by (subst hexToInt_loop.simps) simp
  qed
qed

lemma mem2hex_loop_total:
  fixes s :: "'a gdb_state_scheme"
  assumes "accessible env a n \<or> mem_fault_routine s \<noteq> 0 \<and> may_fault"
  shows "\<exists>r. mem2hex_loop env n a buf may_fault s = Some r"
  using assms
proof (induction n arbitrary: a buf s)
  case (Suc n)
  show ?case
  proof (cases "v_faults env a")
    case True
    then show ?thesis using Suc.prems
      by (auto simp: get_char_def access_fault_def set_mem_err_def accessible_Suc)
  next
    case False
    have "\<exists>r. mem2hex_loop env n (a + 1) (buf + 2) may_fault s1 = Some r"
      if "mem_fault_routine s1 = mem_fault_routine s" for s1 :: "'a gdb_state_scheme"
      using Suc.IH [of "a + 1" s1] Suc.prems that by (auto simp: accessible_Suc)
    then show ?thesis using False by (auto simp: get_char_def Let_def st8_def)
  qed
qed auto

lemma hex2mem_loop_total:
  fixes s :: "'a gdb_state_scheme"
  assumes "accessible env a n \<or> mem_fault_routine s \<noteq> 0 \<and> may_fault"
  shows "\<exists>r. hex2mem_loop env n buf a may_fault s = Some r"
  using assms
proof (induction n arbitrary: a buf s)
  case (Suc n)
  show ?case
  proof (cases "v_faults env a")
    case True
    then show ?thesis using Suc.prems
      by (auto simp: set_char_def access_fault_def set_mem_err_def accessible_Suc)
  next
    case False
    have "\<exists>r. hex2mem_loop env n (buf + 2) (a + 1) may_fault s1 = Some r"
      if "mem_fault_routine s1 = mem_fault_routine s" for s1 :: "'a gdb_state_scheme"
      using Suc.IH [of "a + 1" s1] Suc.prems that by (auto simp: accessible_Suc)
    then show ?thesis using False by (auto simp: set_char_def st8_def)
  qed
qed auto

text \<open>The conversions return: where they may fault because the fault routine is armed, where not
  because nothing faults.\<close>

lemma memory_text_total:
  assumes "may_fault \<and> v_set_mem_err env \<noteq> 0 \<or> \<not> may_fault \<and> accessible env a (times n)"
  shows "\<exists>p s'. mem2hex env a buf n may_fault s = Some (p, s')"
    and "\<exists>p s'. hex2mem env buf a n may_fault s = Some (p, s')"
proof -
  let ?s = "if may_fault then s\<lparr>mem_fault_routine := v_set_mem_err env\<rparr> else s"
  have a: "accessible env a (times n) \<or> mem_fault_routine ?s \<noteq> 0 \<and> may_fault" using assms by auto
  show "\<exists>p s'. mem2hex env a buf n may_fault s = Some (p, s')"
    using mem2hex_loop_total [OF a, of buf] by (auto simp: mem2hex_def Let_def)
  show "\<exists>p s'. hex2mem env buf a n may_fault s = Some (p, s')"
    using hex2mem_loop_total [OF a, of buf] by (auto simp: hex2mem_def Let_def)
qed

lemma accessible_part: "accessible env a n \<Longrightarrow> k + m \<le> n \<Longrightarrow> accessible env (a + of_nat k) m"
  unfolding accessible_def
proof (intro allI impI)
  fix i assume a: "\<forall>i < n. \<not> v_faults env (a + of_nat i)" "k + m \<le> n" "i < m"
  then have "k + i < n" by simp
  with a(1) have "\<not> v_faults env (a + of_nat (k + i))" by blast
  then show "\<not> v_faults env (a + of_nat k + of_nat i)" by (simp add: add.assoc)
qed

end
