(* ===== verification/GdbSave.thy ===== *)
theory GdbSave
  imports GdbCpu GdbMem
begin

text \<open>
  The registers in memory: the entry of an exception leaves the registers of the interrupted
  program in the array \<open>registers\<close>, and \<open>return_to_prog\<close> loads the processor from it.
\<close>

section \<open>Accesses of 16 and 32 bits\<close>

text \<open>Words of 32 bits are equal when their four bytes are.\<close>

lemma bytes_eqI:
  fixes x y :: u32
  assumes "\<And>n. n < 8 \<Longrightarrow> bit x n = bit y n"
    and "\<And>n. n < 8 \<Longrightarrow> bit x (n + 8) = bit y (n + 8)"
    and "\<And>n. n < 8 \<Longrightarrow> bit x (n + 16) = bit y (n + 16)"
    and "\<And>n. n < 8 \<Longrightarrow> bit x (n + 24) = bit y (n + 24)"
  shows "x = y"
proof (rule bit_word_eqI)
  fix n assume n: "n < LENGTH(32)"
  consider "n < 8" | "8 \<le> n" "n - 8 < 8" | "16 \<le> n" "n - 16 < 8" | "24 \<le> n" "n - 24 < 8"
    using n by (simp, linarith)
  then show "bit x n = bit y n"
    by cases (use assms(1) [of n] assms(2) [of "n - 8"] assms(3) [of "n - 16"] assms(4) [of "n - 24"] in auto)
qed

lemma no_bit_u8: "8 \<le> n \<Longrightarrow> \<not> bit (b :: u8) n"
  using bit_imp_le_length [of b n] by auto

lemma no_bit_u16: "16 \<le> n \<Longrightarrow> \<not> bit (b :: u16) n"
  using bit_imp_le_length [of b n] by auto

lemma load32_halves: "load32 m p = ucast (load16 m p) OR push_bit 16 (ucast (load16 m (p + 2)))"
proof -
  have "p + 2 + 1 = p + 3" by simp
  then show ?thesis
    unfolding load32_def load16_def by (intro bytes_eqI) (simp_all add: bit_simps no_bit_u8 add.commute [of 3])
qed

lemma low_half: "(ucast (load32 m p) :: u16) = load16 m p"
  unfolding load32_halves by (rule bit_word_eqI) (auto simp: bit_simps)

lemma load16_store16_next: "load16 (store16 m (p + 2) w) p = load16 m p"
  by (simp add: load16_def store16_def)

lemma load32_low_only:
  "load16 m p = w \<Longrightarrow> load16 m (p + 2) = 0 \<Longrightarrow> load32 m p = ucast w"
  by (simp add: load32_halves)

text \<open>Accesses that do not meet.\<close>

definition clear_of :: "u32 \<Rightarrow> nat \<Rightarrow> u32 \<Rightarrow> nat \<Rightarrow> bool" where
  "clear_of p n q m \<longleftrightarrow> unat p + n \<le> 4294967296 \<and> unat q + m \<le> 4294967296 \<and> (unat q + m \<le> unat p \<or> unat p + n \<le> unat q)"

lemma load_store_clear:
  "clear_of p 4 q 4 \<Longrightarrow> load32 (store32 m p v) q = load32 m q"
  "clear_of p 2 q 4 \<Longrightarrow> load32 (store16 m p w) q = load32 m q"
  "clear_of p 4 q 2 \<Longrightarrow> load16 (store32 m p v) q = load16 m q"
  "clear_of p 2 q 2 \<Longrightarrow> load16 (store16 m p w) q = load16 m q"
  unfolding clear_of_def
  by (rule load32_same [where S = "span 4 q"] load16_same [where S = "span 2 q"];
      (intro same_on_store32 same_on_store16)?; auto simp: span_def)+

lemma reg_clear:
  assumes "unat r + 64 \<le> 4294967296"
  shows "unat a + n \<le> 64 \<Longrightarrow> unat b + m \<le> 64 \<Longrightarrow> unat b + m \<le> unat a \<or> unat a + n \<le> unat b \<Longrightarrow>
      0 < n \<Longrightarrow> 0 < m \<Longrightarrow> clear_of (r + a) n (r + b) m"
    and "unat a + n \<le> 64 \<Longrightarrow> m \<le> unat a \<Longrightarrow> 0 < n \<Longrightarrow> clear_of (r + a) n r m"
    and "unat b + m \<le> 64 \<Longrightarrow> n \<le> unat b \<Longrightarrow> 0 < m \<Longrightarrow> clear_of r n (r + b) m"
  using assms by (auto simp: clear_of_def unat_add_u32)


section \<open>The registers of the program\<close>

text \<open>The general registers in the order of the array, and the segment registers.\<close>

definition general :: "'a cpu_state_scheme \<Rightarrow> u32 list" where
  "general s = [cpu_eax s, cpu_ecx s, cpu_edx s, cpu_ebx s, cpu_esp s, cpu_ebp s, cpu_esi s, cpu_edi s]"

definition segments :: "'a cpu_state_scheme \<Rightarrow> u16 list" where
  "segments s = [cpu_cs s, cpu_ss s, cpu_ds s, cpu_es s, cpu_fs s, cpu_gs s]"

definition saved_general :: "mem \<Rightarrow> u32 \<Rightarrow> u32 list" where
  "saved_general m r = [load32 m r, load32 m (r + 4), load32 m (r + 8), load32 m (r + 12),
     load32 m (r + 16), load32 m (r + 20), load32 m (r + 24), load32 m (r + 28)]"

definition saved_segments :: "mem \<Rightarrow> u32 \<Rightarrow> u32 list" where
  "saved_segments m r = [load32 m (r + 40), load32 m (r + 44), load32 m (r + 48), load32 m (r + 52),
     load32 m (r + 56), load32 m (r + 60)]"


section \<open>Saving\<close>

text \<open>What \<open>SAVE_REGISTERS1\<close> and \<open>SAVE_REGISTERS2\<close> store.\<close>

definition save1 :: "u32 \<Rightarrow> 'a cpu_state_scheme \<Rightarrow> mem \<Rightarrow> mem" where
  "save1 r s m =
     (let m = store32 m r (cpu_eax s);
          m = store32 m (r + 4) (cpu_ecx s);
          m = store32 m (r + 8) (cpu_edx s);
          m = store32 m (r + 12) (cpu_ebx s);
          m = store32 m (r + 20) (cpu_ebp s);
          m = store32 m (r + 24) (cpu_esi s);
          m = store32 m (r + 28) (cpu_edi s);
          m = store16 m (r + 48) (cpu_ds s);
          m = store16 m (r + 50) 0;
          m = store16 m (r + 52) (cpu_es s);
          m = store16 m (r + 54) 0;
          m = store16 m (r + 56) (cpu_fs s);
          m = store16 m (r + 58) 0;
          m = store16 m (r + 60) (cpu_gs s)
      in store16 m (r + 62) 0)"

definition save2 :: "u32 \<Rightarrow> u32 \<Rightarrow> u32 \<Rightarrow> u32 \<Rightarrow> 'a cpu_state_scheme \<Rightarrow> mem \<Rightarrow> mem" where
  "save2 r ip c fl s m =
     (let m = store32 m (r + 32) ip;
          m = store32 m (r + 40) c;
          m = store16 m (r + 42) 0;
          m = store32 m (r + 36) fl;
          m = store16 m (r + 44) (cpu_ss s);
          m = store16 m (r + 46) 0
      in store32 m (r + 16) (cpu_esp s))"

lemma ax_zero: "(ucast ((a :: u32) AND 0xffff0000) :: u16) = 0"
proof -
  have eq: "(0xffff0000 :: u32) = push_bit 16 (mask 16)" by (simp add: push_bit_eq_mult mask_eq_exp_minus_1)
  show ?thesis unfolding eq by (rule bit_word_eqI) (auto simp: bit_simps)
qed

lemma SAVE_REGISTERS1_run:
  "SAVE_REGISTERS1 env s =
    s\<lparr>mem := save1 (v_registers env) s (mem s), cpu_eax := cpu_eax s AND 0xffff0000\<rparr>"
  unfolding SAVE_REGISTERS1_def save1_def by (simp add: Let_def st32_def st16_def ax_zero)

text \<open>Stores inside a set leave the rest of memory as it was.\<close>

lemma stores_inside:
  "same_on m m' (- A) \<Longrightarrow> span 4 p \<subseteq> A \<Longrightarrow> unat p + 4 \<le> 4294967296 \<Longrightarrow> same_on m (store32 m' p v) (- A)"
  "same_on m m' (- A) \<Longrightarrow> span 2 p \<subseteq> A \<Longrightarrow> unat p + 2 \<le> 4294967296 \<Longrightarrow> same_on m (store16 m' p w) (- A)"
  by (erule same_on_trans, rule same_on_store32 same_on_store16, assumption, force simp: span_def)+

lemma reg_span:
  assumes "unat r + 64 \<le> 4294967296"
  shows "n \<le> 64 \<Longrightarrow> span n r \<subseteq> span 64 r"
    and "unat k + n \<le> 64 \<Longrightarrow> 0 < n \<Longrightarrow> span n (r + k) \<subseteq> span 64 r"
    and "n \<le> 64 \<Longrightarrow> unat r + n \<le> 4294967296"
    and "unat k + n \<le> 64 \<Longrightarrow> 0 < n \<Longrightarrow> unat (r + k) + n \<le> 4294967296"
    and "unat k + 2 \<le> 64 \<Longrightarrow> unat (r + k) \<le> 4294967294"
    and "unat k + 4 \<le> 64 \<Longrightarrow> unat (r + k) \<le> 4294967292"
  using assms by (auto simp: span_def unat_add_u32)

lemma save_others:
  assumes "unat r + 64 \<le> 4294967296"
  shows "same_on m (save1 r s m) (- span 64 r)" and "same_on m (save2 r ip c fl s m) (- span 64 r)"
  unfolding save1_def save2_def Let_def
  by ((intro stores_inside same_on_refl; simp add: reg_span [OF assms]),
      (intro stores_inside same_on_refl; simp add: reg_span [OF assms]))

lemma load16_store32_same: "load16 (store32 m p v) p = ucast v"
  using low_half [of "store32 m p v" p] by simp

lemma saved_registers:
  assumes "unat r + 64 \<le> 4294967296" and m': "m' = save2 r ip c fl s (save1 r s m)"
  shows "saved_general m' r = general s" and "load32 m' (r + 32) = ip" and "load32 m' (r + 36) = fl"
    and "saved_segments m' r = ucast (ucast c :: u16) # map ucast (tl (segments s))"
proof -
  note clr = reg_clear [OF assms(1)]
  show "load32 m' (r + 32) = ip" "load32 m' (r + 36) = fl"
    unfolding m' save2_def Let_def by (simp_all add: load_store_clear clr)
  show "saved_general m' r = general s"
    unfolding m' save2_def save1_def saved_general_def general_def Let_def
    by (simp add: load_store_clear clr)
  have "load32 m' (r + 40) = ucast (ucast c :: u16)" "load32 m' (r + 44) = ucast (cpu_ss s)"
    unfolding m' save2_def Let_def
    by (rule load32_low_only; simp add: load_store_clear clr load16_store32_same add.assoc)+
  moreover have "load32 m' (r + 48) = ucast (cpu_ds s)" "load32 m' (r + 52) = ucast (cpu_es s)"
    "load32 m' (r + 56) = ucast (cpu_fs s)" "load32 m' (r + 60) = ucast (cpu_gs s)"
    unfolding m' save2_def save1_def Let_def
    by (rule load32_low_only; simp add: load_store_clear clr add.assoc)+
  ultimately show "saved_segments m' r = ucast (ucast c :: u16) # map ucast (tl (segments s))"
    by (simp add: saved_segments_def segments_def)
qed

text \<open>A stack of \<open>n\<close> bytes at \<open>e\<close> that does not meet the array.\<close>

definition stack_apart :: "nat \<Rightarrow> u32 \<Rightarrow> u32 \<Rightarrow> bool" where
  "stack_apart n e r \<longleftrightarrow> unat e + n \<le> 4294967296 \<and> unat r + 64 \<le> 4294967296 \<and> span n e \<inter> span 64 r = {}"

lemma stack_clear:
  assumes "stack_apart n e r"
  shows "unat j + 4 \<le> n \<Longrightarrow> unat k + l \<le> 64 \<Longrightarrow> 0 < l \<Longrightarrow> clear_of (r + k) l (e + j) 4"
    and "4 \<le> n \<Longrightarrow> unat k + l \<le> 64 \<Longrightarrow> 0 < l \<Longrightarrow> clear_of (r + k) l e 4"
    and "unat j + 4 \<le> n \<Longrightarrow> unat k + l \<le> 64 \<Longrightarrow> 0 < l \<Longrightarrow> clear_of (e + j) 4 (r + k) l"
    and "4 \<le> n \<Longrightarrow> unat k + l \<le> 64 \<Longrightarrow> 0 < l \<Longrightarrow> clear_of e 4 (r + k) l"
    and "unat j + 4 \<le> n \<Longrightarrow> l \<le> 64 \<Longrightarrow> 0 < l \<Longrightarrow> clear_of (e + j) 4 r l"
    and "4 \<le> n \<Longrightarrow> l \<le> 64 \<Longrightarrow> 0 < l \<Longrightarrow> clear_of e 4 r l"
proof -
  have b: "unat e + n \<le> 4294967296" "unat r + 64 \<le> 4294967296" using assms by (simp_all add: stack_apart_def)
  have d: "unat r + 64 \<le> unat e \<or> unat e + n \<le> unat r" if "0 < n"
  proof (rule ccontr)
    assume "\<not> ?thesis"
    then have "max (unat e) (unat r) \<in> span n e \<inter> span 64 r" using that by (auto simp: span_def)
    then show False using assms unfolding stack_apart_def by blast
  qed
  have k: "unat (r + k) = unat r + unat k" if "unat k < 64" for k using b(2) that by (simp add: unat_add_u32)
  have j: "unat (e + j) = unat e + unat j" if "unat j < n" for j using b(1) that by (simp add: unat_add_u32)
  show "unat j + 4 \<le> n \<Longrightarrow> unat k + l \<le> 64 \<Longrightarrow> 0 < l \<Longrightarrow> clear_of (r + k) l (e + j) 4"
    "4 \<le> n \<Longrightarrow> unat k + l \<le> 64 \<Longrightarrow> 0 < l \<Longrightarrow> clear_of (r + k) l e 4"
    "unat j + 4 \<le> n \<Longrightarrow> unat k + l \<le> 64 \<Longrightarrow> 0 < l \<Longrightarrow> clear_of (e + j) 4 (r + k) l"
    "4 \<le> n \<Longrightarrow> unat k + l \<le> 64 \<Longrightarrow> 0 < l \<Longrightarrow> clear_of e 4 (r + k) l"
    "unat j + 4 \<le> n \<Longrightarrow> l \<le> 64 \<Longrightarrow> 0 < l \<Longrightarrow> clear_of (e + j) 4 r l"
    "4 \<le> n \<Longrightarrow> l \<le> 64 \<Longrightarrow> 0 < l \<Longrightarrow> clear_of e 4 r l"
    using b d by (auto simp: clear_of_def k j)
qed

lemma SAVE_REGISTERS2_run:
  assumes "stack_apart 12 (cpu_esp s) (v_registers env)" and "(ucast (cpu_eax s) :: u16) = 0"
  shows "SAVE_REGISTERS2 env s =
    (let m = mem s; e = cpu_esp s; fl = load32 m (e + 8); s = s\<lparr>cpu_esp := e + 12, cpu_ebx := fl\<rparr>
     in s\<lparr>mem := save2 (v_registers env) (load32 m e) (load32 m (e + 4)) fl s m\<rparr>)"
  using assms(2)
  by (simp add: SAVE_REGISTERS2_def save2_def pop_ebx_def popl_def Let_def st32_def st16_def
      load_store_clear stack_clear [OF assms(1)] add.assoc)

lemma load32_store32_next:
  "load32 (store32 m p v) (p + 4) = load32 m (p + 4)"
  "load32 (store32 m p v) (p + 8) = load32 m (p + 8)"
  "load32 (store32 m (p + 4) v) (p + 8) = load32 m (p + 8)"
  "load32 (store32 m (p + 4) v) p = load32 m p"
  by (simp_all add: load32_def store32_def add.assoc)

text \<open>What the entry of an exception leaves in memory: the frame the processor pushes, and the
  registers.\<close>

definition pushed :: "'a cpu_state_scheme \<Rightarrow> mem" where
  "pushed s = (let e = cpu_esp s in
     store32 (store32 (store32 (mem s) (e - 4) (cpu_eflags s)) (e - 8) (ucast (cpu_cs s))) (e - 12) (cpu_eip s))"

definition entry_mem :: "u32 \<Rightarrow> 'a cpu_state_scheme \<Rightarrow> mem" where
  "entry_mem r s = save2 r (cpu_eip s) (ucast (cpu_cs s)) (cpu_eflags s) s (save1 r s (pushed s))"

lemma pushed_loads:
  "load32 (pushed s) (cpu_esp s - 12) = cpu_eip s"
  "load32 (pushed s) (cpu_esp s - 8) = ucast (cpu_cs s)"
  "load32 (pushed s) (cpu_esp s - 4) = cpu_eflags s"
proof -
  obtain e where e: "cpu_esp s = e + 12" by (metis diff_add_cancel)
  have eqs: "e + 12 - 4 = e + 8" "e + 12 - 8 = e + 4" "e + 12 - 12 = e" by simp_all
  show "load32 (pushed s) (cpu_esp s - 12) = cpu_eip s" "load32 (pushed s) (cpu_esp s - 8) = ucast (cpu_cs s)"
    "load32 (pushed s) (cpu_esp s - 4) = cpu_eflags s"
    unfolding pushed_def Let_def e eqs by (simp_all only: load32_store32_next load32_store32)
qed

lemma narrow_wide [simp]: "(ucast (ucast (c :: u16) :: u32) :: u16) = c"
  by (rule bit_word_eqI) (auto simp: bit_simps)

lemma pushed_others:
  assumes "12 \<le> unat (cpu_esp s)"
  shows "same_on (mem s) (pushed s) (- span 12 (cpu_esp s - 12))"
proof -
  define n where "n = unat (cpu_esp s)"
  have b: "12 \<le> n" "n < 4294967296" using assms by (simp_all add: n_def)
  have u: "unat (cpu_esp s - 12) = n - 12" "unat (cpu_esp s - 8) = n - 8" "unat (cpu_esp s - 4) = n - 4"
    using assms by (simp_all add: unat_diff_u32 n_def)
  show ?thesis
    unfolding pushed_def Let_def
    by (intro stores_inside same_on_refl; use b in \<open>auto simp: span_def u\<close>)
qed

lemma entry_registers:
  assumes "unat r + 64 \<le> 4294967296"
  shows "saved_general (entry_mem r s) r = general s"
    and "load32 (entry_mem r s) (r + 32) = cpu_eip s" and "load32 (entry_mem r s) (r + 36) = cpu_eflags s"
    and "saved_segments (entry_mem r s) r = map ucast (segments s)"
  using saved_registers [OF assms entry_mem_def] by (simp_all add: segments_def)

lemma entry_others:
  assumes "unat r + 64 \<le> 4294967296" and "12 \<le> unat (cpu_esp s)"
  shows "same_on (mem s) (entry_mem r s) (- (span 12 (cpu_esp s - 12) \<union> span 64 r))"
  unfolding entry_mem_def
  by (rule same_on_trans [OF same_on_mono [OF pushed_others [OF assms(2)]]],
      auto intro: same_on_trans [OF same_on_mono [OF save_others(1) [OF assms(1)]] same_on_mono [OF save_others(2) [OF assms(1)]]])

text \<open>The state in which the entry of an exception without error code calls the hook.\<close>

definition entered :: "gdb_env \<Rightarrow> u32 \<Rightarrow> 'a cpu_state_scheme \<Rightarrow> 'a cpu_state_scheme" where
  "entered env handler s = s\<lparr>mem := entry_mem (v_registers env) s, cpu_eax := cpu_eax s AND 0xffff0000,
     cpu_ebx := cpu_eflags s, cpu_eip := handler, cpu_eflags := cpu_eflags s AND NOT 0x100\<rparr>"

lemma entry_run:
  assumes "stack_apart 12 (cpu_esp s - 12) (v_registers env)"
  shows "SAVE_REGISTERS2 env (SAVE_REGISTERS1 env (take_exception handler None s)) = entered env handler s"
proof -
  let ?r = "v_registers env" and ?e = "cpu_esp s - 12"
  let ?x = "take_exception handler None s"
  have x: "?x = s\<lparr>mem := pushed s, cpu_esp := ?e, cpu_eip := handler, cpu_eflags := cpu_eflags s AND NOT 0x100\<rparr>"
    by (simp add: take_exception_def pushl_def pushed_def st32_def Let_def)
  let ?m = "save1 ?r s (pushed s)"
  let ?y = "?x\<lparr>mem := ?m, cpu_eax := cpu_eax s AND 0xffff0000\<rparr>"
  have "SAVE_REGISTERS1 env ?x = ?y"
    unfolding SAVE_REGISTERS1_run by (simp add: x save1_def)
  moreover have "load32 ?m ?e = cpu_eip s" "load32 ?m (?e + 4) = ucast (cpu_cs s)" "load32 ?m (?e + 8) = cpu_eflags s"
  proof -
    have r: "unat ?r + 64 \<le> 4294967296" "unat ?e + 12 \<le> 4294967296" "span 12 ?e \<inter> span 64 ?r = {}"
      using assms by (simp_all add: stack_apart_def)
    have k: "unat (?e + 4) = unat ?e + 4" "unat (?e + 8) = unat ?e + 8"
      by (subst unat_add_u32; use r(2) in simp)+
    have "load32 ?m q = load32 (pushed s) q" if "unat ?e \<le> unat q" "unat q + 4 \<le> unat ?e + 12" for q
    proof (rule load32_same [OF save_others(1) [OF r(1)]])
      have "{unat q..<unat q + 4} \<subseteq> span 12 ?e" using that by (auto simp: span_def)
      then show "{unat q..<unat q + 4} \<subseteq> - span 64 ?r" using r(3) by blast
      show "unat q + 4 \<le> 4294967296" using that(2) r(2) by linarith
    qed
    from this [of ?e] this [of "?e + 4"] this [of "?e + 8"]
    show "load32 ?m ?e = cpu_eip s" "load32 ?m (?e + 4) = ucast (cpu_cs s)" "load32 ?m (?e + 8) = cpu_eflags s"
      using pushed_loads [of s] k by simp_all
  qed
  moreover have "SAVE_REGISTERS2 env ?y =
    (let m = ?m; fl = load32 m (?e + 8); s = ?y\<lparr>cpu_esp := ?e + 12, cpu_ebx := fl\<rparr>
     in s\<lparr>mem := save2 ?r (load32 m ?e) (load32 m (?e + 4)) fl s m\<rparr>)"
    by (subst SAVE_REGISTERS2_run) (use assms in \<open>simp_all add: x ax_zero Let_def\<close>)
  ultimately show ?thesis
    by (simp add: Let_def x entered_def entry_mem_def save2_def)
qed


section \<open>Calling the handler\<close>

text \<open>The vector and the return addresses go through the stack of the program and that of the stub.\<close>

definition hooked :: "gdb_env \<Rightarrow> u32 \<Rightarrow> 'a cpu_state_scheme \<Rightarrow> 'a cpu_state_scheme" where
  "hooked env n s =
     (let e = cpu_esp s; p = stackPtr s;
          m = store32 (store32 (mem s) (e - 4) n) (e - 8) (v_hook_return env n)
      in s\<lparr>cpu_eax := n, mem := store32 (store32 m (p - 4) n) (p - 8) (v_handler_return env), cpu_esp := p - 8\<rparr>)"

lemma pushl_eq: "pushl v s = s\<lparr>mem := store32 (mem s) (cpu_esp s - 4) v, cpu_esp := cpu_esp s - 4\<rparr>"
  by (simp add: pushl_def st32_def Let_def)

lemma pop_eax_eq: "pop_eax s = s\<lparr>cpu_eax := ld32 (cpu_esp s) s, cpu_esp := cpu_esp s + 4\<rparr>"
  by (simp add: pop_eax_def popl_def)

lemma iret_eq: "iret s = s\<lparr>cpu_esp := cpu_esp s + 12, cpu_eip := ld32 (cpu_esp s) s,
    cpu_cs := ucast (ld32 (cpu_esp s + 4) s), cpu_eflags := ld32 (cpu_esp s + 8) s\<rparr>"
  by (simp add: iret_def popl_def add.commute)

lemma CALL_HOOK_run:
  "CALL_HOOK env n (pushl n s) = handle_exception env n (hooked env n s) \<bind> (\<lambda>s. Some (return_to_prog env s))"
proof -
  have up: "load32 (store32 (store32 m (e - 4) v) (e - 8) w) (e - 4) = v" for m e v w
    using load32_store32_next(1) [of "store32 m (e - 4) v" "e - 8" w] by simp
  show ?thesis
    by (simp add: CALL_HOOK_def remcomHandler_def pushl_eq pop_eax_eq hooked_def Let_def up returnFromException_def)
qed

lemma mem_hooked: "mem (s\<lparr>cpu_eax := a, mem := m, cpu_esp := p\<rparr>) = m"
  by simp

lemma hooked_others:
  assumes "8 \<le> unat (cpu_esp s)" and "8 \<le> unat (stackPtr s)"
  shows "same_on (mem s) (mem (hooked env n s)) (- (span 8 (cpu_esp s - 8) \<union> span 8 (stackPtr s - 8)))"
proof -
  define e p where "e = unat (cpu_esp s)" and "p = unat (stackPtr s)"
  have b: "8 \<le> e" "e < 4294967296" "8 \<le> p" "p < 4294967296" using assms by (simp_all add: e_def p_def)
  have u: "unat (cpu_esp s - 4) = e - 4" "unat (cpu_esp s - 8) = e - 8"
    "unat (stackPtr s - 4) = p - 4" "unat (stackPtr s - 8) = p - 8"
    using assms by (simp_all add: unat_diff_u32 e_def p_def)
  show ?thesis
    unfolding hooked_def Let_def machine.select_convs machine.update_convs mem_hooked
    by (intro stores_inside same_on_refl; use b in \<open>auto simp: span_def u\<close>)
qed

lemma catchException3_run:
  assumes "stack_apart 12 (cpu_esp s - 12) (v_registers env)"
  shows "catchException3 env (take_exception handler None s) =
    handle_exception env 3 (hooked env 3 (entered env handler s)) \<bind> (\<lambda>s. Some (return_to_prog env s))"
  unfolding catchException3_def entry_run [OF assms] by (rule CALL_HOOK_run)


section \<open>Restoring\<close>

definition frame_for :: "mem \<Rightarrow> u32 \<Rightarrow> mem" where
  "frame_for m r = (let e = load32 m (r + 16) in
     store32 (store32 (store32 m (e - 4) (load32 m (r + 36))) (e - 8) (load32 m (r + 40))) (e - 12) (load32 m (r + 32)))"

lemma return_to_prog_run:
  assumes "stack_apart 12 (ld32 (v_registers env + 16) s - 12) (v_registers env)"
  defines "r \<equiv> v_registers env" and "m \<equiv> mem s"
  shows "return_to_prog env s = s\<lparr>mem := frame_for m r,
     cpu_eax := load32 m r, cpu_ecx := load32 m (r + 4), cpu_edx := load32 m (r + 8), cpu_ebx := load32 m (r + 12),
     cpu_esp := load32 m (r + 16), cpu_ebp := load32 m (r + 20), cpu_esi := load32 m (r + 24), cpu_edi := load32 m (r + 28),
     cpu_eip := load32 m (r + 32), cpu_eflags := load32 m (r + 36), cpu_cs := ucast (load32 m (r + 40)),
     cpu_ss := load16 m (r + 44), cpu_ds := load16 m (r + 48), cpu_es := load16 m (r + 52),
     cpu_fs := load16 m (r + 56), cpu_gs := load16 m (r + 60)\<rparr>"
proof -
  obtain e where e: "load32 m (r + 16) = e + 12" by (metis diff_add_cancel)
  have sa: "stack_apart 12 e r" using assms(1) e by (simp add: r_def m_def)
  note clr = load_store_clear stack_clear [OF sa]
  have r: "v_registers env = r" "mem s = m" by (simp_all add: r_def m_def)
  let ?m1 = "store32 m (e + 8) (load32 m (r + 36))"
  let ?m2 = "store32 ?m1 (e + 4) (load32 m (r + 40))"
  let ?m3 = "store32 ?m2 e (load32 m (r + 32))"
  have l: "load32 ?m1 (r + 40) = load32 m (r + 40)" "load32 ?m2 (r + 32) = load32 m (r + 32)"
    "load32 ?m3 r = load32 m r"
    by (simp_all add: clr)
  have f: "load32 ?m3 e = load32 m (r + 32)" "load32 ?m3 (e + 4) = load32 m (r + 40)"
    "load32 ?m3 (e + 8) = load32 m (r + 36)"
    by (simp_all only: load32_store32_next load32_store32)
  show ?thesis
    by (simp add: return_to_prog_def iret_eq pushl_eq Let_def frame_for_def r e l f [simplified] l [simplified] add.commute [of _ e])
qed

lemma restored:
  assumes "stack_apart 12 (ld32 (v_registers env + 16) s - 12) (v_registers env)"
    and "12 \<le> unat (ld32 (v_registers env + 16) s)"
  shows "general (return_to_prog env s) = saved_general (mem s) (v_registers env)"
    and "segments (return_to_prog env s) = map ucast (saved_segments (mem s) (v_registers env))"
    and "cpu_eip (return_to_prog env s) = ld32 (v_registers env + 32) s"
    and "cpu_eflags (return_to_prog env s) = ld32 (v_registers env + 36) s"
    and "same_on (mem s) (mem (return_to_prog env s)) (- span 12 (ld32 (v_registers env + 16) s - 12))"
    and "gdb_i386vector (return_to_prog env s) = gdb_i386vector s" and "io_log (return_to_prog env s) = io_log s"
proof -
  note run = return_to_prog_run [OF assms(1)]
  show "general (return_to_prog env s) = saved_general (mem s) (v_registers env)"
    "segments (return_to_prog env s) = map ucast (saved_segments (mem s) (v_registers env))"
    by (simp_all add: run general_def saved_general_def segments_def saved_segments_def low_half)
  show "cpu_eip (return_to_prog env s) = ld32 (v_registers env + 32) s"
    "cpu_eflags (return_to_prog env s) = ld32 (v_registers env + 36) s"
    "gdb_i386vector (return_to_prog env s) = gdb_i386vector s" "io_log (return_to_prog env s) = io_log s"
    by (simp_all add: run)
  define n where "n = unat (ld32 (v_registers env + 16) s)"
  have b: "12 \<le> n" "n < 4294967296" using assms(2) by (simp_all add: n_def)
  let ?e = "ld32 (v_registers env + 16) s"
  have u: "unat (?e - 12) = n - 12" "unat (?e - 8) = n - 8" "unat (?e - 4) = n - 4"
    using assms(2) by (simp_all add: unat_diff_u32 n_def)
  have "mem (return_to_prog env s) = frame_for (mem s) (v_registers env)" by (simp add: run)
  then show "same_on (mem s) (mem (return_to_prog env s)) (- span 12 (?e - 12))"
    unfolding frame_for_def Let_def
    by (simp only:) (intro stores_inside same_on_refl; use b in \<open>auto simp: span_def u\<close>)
qed

end
