(* ===== verification/GdbSession.thy ===== *)
theory GdbSession
  imports GdbSave
begin

text \<open>
  A stop of the program: the stop reply, and a command of the host.
\<close>

section \<open>The stop reply\<close>

lemma written_append:
  assumes "length as + length bs < 4294967296"
  shows "written (written m p as) (p + of_nat (length as)) bs = written m p (as @ bs)"
  using assms
proof (induction bs arbitrary: as)
  case Nil
  then show ?case by simp
next
  case (Cons b bs)
  have "written (written m p as) (p + of_nat (length as)) (b # bs) =
      written (store8 (written m p as) (p + of_nat (length as)) b) (p + of_nat (length as) + 1) bs"
    using Cons.prems by (simp add: written_Cons)
  also have "\<dots> = written (written m p (as @ [b])) (p + of_nat (length (as @ [b]))) bs"
    using Cons.prems by (simp add: written_snoc add.assoc add.commute [of 1])
  also have "\<dots> = written m p ((as @ [b]) @ bs)" by (rule Cons.IH) (use Cons.prems in simp)
  finally show ?case by simp
qed

lemma away_shift:
  assumes "away p n q (k + m)" and "k < 4294967296"
  shows "away p n (q + of_nat k) m"
  using assms
proof (induction k arbitrary: q)
  case (Suc k)
  have "away p n (q + 1) (k + m)" using Suc.prems(1) by (intro away_dest) simp
  from Suc.IH [OF this] Suc.prems(2) show ?case by (simp add: add.assoc)
qed simp

definition register_text :: "mem \<Rightarrow> gdb_env \<Rightarrow> nat \<Rightarrow> u8 list" where
  "register_text m env reg = [hexchars reg, 0x3A] @ hex_text (read_bytes m (reg_at env reg) 4) @ [0x3B]"

lemma length_register_text [simp]: "length (register_text m env reg) = 11"
  by (simp add: register_text_def)

lemma fault_routine_same: "s\<lparr>mem_fault_routine := mem_fault_routine s\<rparr> = s"
  by (cases s) simp

lemma report_register_run:
  assumes "accessible env (reg_at env reg) 4" and "away (reg_at env reg) 4 (v_out_buffer env) 400"
    and "length txt \<le> 300" and "mem s = written m (v_out_buffer env) txt" and "p = v_out_buffer env + of_nat (length txt)"
  shows "report_register env reg (p, s) = (let txt = txt @ register_text m env reg in
    Some (v_out_buffer env + of_nat (length txt), s\<lparr>mem := written m (v_out_buffer env) txt\<rparr>))"
proof -
  let ?out = "v_out_buffer env"
  let ?t1 = "txt @ [hexchars reg, 0x3A]"
  let ?t2 = "hex_text (read_bytes m (reg_at env reg) 4)"
  let ?s1 = "s\<lparr>mem := written m ?out ?t1\<rparr>"
  have s1: "st8 (p + 1) 0x3A (st8 p (hexchars reg) s) = ?s1"
  proof -
    have "store8 (mem s) p (hexchars reg) = written m ?out (txt @ [hexchars reg])"
      using assms(3) by (simp add: assms(4,5) written_snoc)
    moreover have "store8 (written m ?out (txt @ [hexchars reg])) (p + 1) 0x3A = written m ?out ?t1"
      using written_snoc [of "txt @ [hexchars reg]" m ?out "0x3A"] assms(3) by (simp add: assms(5) ac_simps)
    ultimately show ?thesis by (simp add: st8_def)
  qed
  have "away (reg_at env reg) 4 ?out (length ?t1 + 2 * 4)"
    by (rule away_mono [OF assms(2)]) (use assms(3) in simp_all)
  from away_shift [OF this] assms(3) have aw: "away (reg_at env reg) 4 (?out + of_nat (length ?t1)) (2 * 4)" by simp
  have p2: "p + 2 = ?out + of_nat (length ?t1)" by (simp add: assms(5) ac_simps)
  have rd: "read_bytes (mem ?s1) (reg_at env reg) 4 = read_bytes m (reg_at env reg) 4"
    using away_read [OF away_mono [OF assms(2), of 4 "length ?t1"]] assms(3) by simp
  have "mem2hex env (reg_at env reg) (p + 2) (of_nat 4) False ?s1 =
      Some (p + 2 + of_nat (2 * 4), ?s1\<lparr>mem := written (mem ?s1) (p + 2) (?t2 @ [0])\<rparr>)"
    unfolding p2 by (subst mem2hex_run [OF assms(1) aw]) (simp_all add: rd [simplified] fault_routine_same)
  also have "written (mem ?s1) (p + 2) (?t2 @ [0]) = written m ?out (?t1 @ ?t2 @ [0])"
    using written_append [of ?t1 "?t2 @ [0]" m ?out] assms(3) by (simp add: p2)
  finally have m2h: "mem2hex env (reg_at env reg) (p + 2) 4 False ?s1 =
      Some (?out + of_nat (length (?t1 @ ?t2)), s\<lparr>mem := written m ?out (?t1 @ ?t2 @ [0])\<rparr>)"
    by (simp add: p2 ac_simps)
  have "store8 (written m ?out ((?t1 @ ?t2) @ [0])) (?out + of_nat (length (?t1 @ ?t2))) 0x3B =
      written m ?out (((?t1 @ ?t2) @ [0])[length (?t1 @ ?t2) := 0x3B])"
    by (rule store8_written) (use assms(3) in simp_all)
  also have "((?t1 @ ?t2) @ [0])[length (?t1 @ ?t2) := 0x3B] = txt @ register_text m env reg"
    unfolding list_update_length by (simp add: register_text_def)
  finally have st: "store8 (written m ?out (?t1 @ ?t2 @ [0])) (?out + of_nat (length (?t1 @ ?t2))) 0x3B =
      written m ?out (txt @ register_text m env reg)" by simp
  show ?thesis
    unfolding report_register_def split s1 Let_def m2h
    using st by (simp add: st8_def ac_simps)
qed

text \<open>The reply gives the signal and the registers \<open>ESP\<close>, \<open>EBP\<close> and \<open>PC\<close>.\<close>

definition stop_text :: "mem \<Rightarrow> gdb_env \<Rightarrow> nat \<Rightarrow> u8 list" where
  "stop_text m env sigval = [0x54, hexchars (sigval div 16), hexchars (sigval mod 16)] @
     register_text m env rESP @ register_text m env rEBP @ register_text m env rPC"

text \<open>The stub's own data: the two buffers and the array do not meet and can be accessed.\<close>

definition stub_layout :: "gdb_env \<Rightarrow> bool" where
  "stub_layout env \<longleftrightarrow>
     unat (v_registers env) + 64 \<le> 4294967296 \<and> unat (v_in_buffer env) + 400 \<le> 4294967296 \<and>
     unat (v_out_buffer env) + 400 \<le> 4294967296 \<and>
     span 64 (v_registers env) \<inter> span 400 (v_in_buffer env) = {} \<and>
     span 64 (v_registers env) \<inter> span 400 (v_out_buffer env) = {} \<and>
     span 400 (v_in_buffer env) \<inter> span 400 (v_out_buffer env) = {} \<and>
     accessible env (v_registers env) 64"

lemma away_span:
  assumes "span n p \<inter> span m q = {}" and "unat p + n \<le> 4294967296" and "unat q + m \<le> 4294967296"
  shows "away p n q m"
proof (cases "n = 0 \<or> m = 0")
  case True
  then show ?thesis by (auto simp: away_def)
next
  case False
  then have "unat p \<in> span n p" "unat q \<in> span m q" by (simp_all add: span_def)
  then have "unat p \<notin> span m q" "unat q \<notin> span n p" using assms(1) by blast+
  then have "unat p + n \<le> unat q \<or> unat q + m \<le> unat p" by (simp add: span_def) linarith
  then show ?thesis using assms(2,3) by (rule awayI)
qed

lemma register_ok:
  assumes "stub_layout env" and "reg < 16"
  shows "unat (reg_at env reg) = unat (v_registers env) + 4 * reg" and "accessible env (reg_at env reg) 4"
    and "away (reg_at env reg) 4 (v_out_buffer env) 400"
proof -
  have "unat (4 * of_nat reg :: u32) = 4 * reg"
    using assms(2) by (simp add: unat_word_ariths unat_of_nat_u32)
  then show u: "unat (reg_at env reg) = unat (v_registers env) + 4 * reg"
    using assms by (simp add: reg_at_def stub_layout_def unat_add_u32)
  have "reg_at env reg + of_nat i = v_registers env + of_nat (4 * reg + i)" for i by (simp add: reg_at_def)
  moreover have "\<not> v_faults env (v_registers env + of_nat (4 * reg + i))" if "i < 4" for i
    using assms that by (simp only: stub_layout_def accessible_def) simp
  ultimately show "accessible env (reg_at env reg) 4" by (simp add: accessible_def add.assoc)
  have "span 4 (reg_at env reg) \<subseteq> span 64 (v_registers env)" using u assms(2) by (auto simp: span_def)
  then have sp: "span 4 (reg_at env reg) \<inter> span 400 (v_out_buffer env) = {}"
    using assms(1) unfolding stub_layout_def by blast
  show "away (reg_at env reg) 4 (v_out_buffer env) 400"
    by (rule away_span [OF sp]) (use assms u in \<open>simp_all add: stub_layout_def\<close>)
qed

lemma stop_reply_run:
  assumes "stub_layout env"
  shows "stop_reply env sigval s =
    Some (s\<lparr>mem := written (mem s) (v_out_buffer env) (stop_text (mem s) env sigval @ [0])\<rparr>)"
proof -
  let ?out = "v_out_buffer env" and ?m = "mem s"
  let ?t0 = "[0x54, hexchars (sigval div 16), hexchars (sigval mod 16)]"
  let ?t1 = "?t0 @ register_text ?m env rESP"
  let ?t2 = "?t1 @ register_text ?m env rEBP"
  let ?t3 = "?t2 @ register_text ?m env rPC"
  have lt: "rESP < 16" "rEBP < 16" "rPC < 16" by (simp_all add: rESP_def rEBP_def rPC_def)
  note ok = register_ok(2,3) [OF assms]
  have s0: "st8 (?out + 2) (hexchars (sigval mod 16)) (st8 (?out + 1) (hexchars (sigval div 16)) (st8 ?out 0x54 s)) =
      s\<lparr>mem := written ?m ?out ?t0\<rparr>"
    using written_snoc [of "[]" ?m ?out "0x54"] written_snoc [of "[0x54]" ?m ?out "hexchars (sigval div 16)"]
      written_snoc [of "[0x54, hexchars (sigval div 16)]" ?m ?out "hexchars (sigval mod 16)"]
    by (simp add: st8_def)
  have r1: "report_register env rESP (?out + 3, s\<lparr>mem := written ?m ?out ?t0\<rparr>) =
      Some (?out + of_nat (length ?t1), s\<lparr>mem := written ?m ?out ?t1\<rparr>)"
    using report_register_run [OF ok [OF lt(1)], of ?t0 "s\<lparr>mem := written ?m ?out ?t0\<rparr>" ?m] by (simp add: Let_def)
  have r2: "report_register env rEBP (?out + of_nat (length ?t1), s\<lparr>mem := written ?m ?out ?t1\<rparr>) =
      Some (?out + of_nat (length ?t2), s\<lparr>mem := written ?m ?out ?t2\<rparr>)"
    using report_register_run [OF ok [OF lt(2)], of ?t1 "s\<lparr>mem := written ?m ?out ?t1\<rparr>" ?m] by (simp add: Let_def)
  have r3: "report_register env rPC (?out + of_nat (length ?t2), s\<lparr>mem := written ?m ?out ?t2\<rparr>) =
      Some (?out + of_nat (length ?t3), s\<lparr>mem := written ?m ?out ?t3\<rparr>)"
    using report_register_run [OF ok [OF lt(3)], of ?t2 "s\<lparr>mem := written ?m ?out ?t2\<rparr>" ?m] by (simp add: Let_def)
  have z: "st8 (?out + of_nat (length ?t3)) 0 (s\<lparr>mem := written ?m ?out ?t3\<rparr>) = s\<lparr>mem := written ?m ?out (?t3 @ [0])\<rparr>"
    using written_snoc [of ?t3 ?m ?out 0] by (simp add: st8_def)
  have "stop_reply env sigval s = Some (s\<lparr>mem := written ?m ?out (?t3 @ [0])\<rparr>)"
    unfolding stop_reply_def Let_def s0 r1 Option.bind.bind_lunit r2 r3 split z ..
  then show ?thesis by (simp add: stop_text_def)
qed

lemma stop_text_plain: "sigval < 256 \<Longrightarrow> 0 \<notin> set (stop_text m env sigval)"
  using hexchars_not [of "sigval div 16"] hexchars_not [of "sigval mod 16"] hex_text_no_marker
    hexchars_not [of rESP] hexchars_not [of rEBP] hexchars_not [of rPC]
  by (auto simp: stop_text_def register_text_def rESP_def rEBP_def rPC_def)

lemma length_stop_text [simp]: "length (stop_text m env sigval) = 36"
  by (simp add: stop_text_def)

lemma computeSignal_bound: "computeSignal v < 256"
  by (simp add: computeSignal_def)


section \<open>The commands that resume the program\<close>

text \<open>Their effect on the array: the new \<open>PC\<close>, if there is one, and the trace bit.\<close>

definition resumed :: "gdb_env \<Rightarrow> u32 option \<Rightarrow> bool \<Rightarrow> mem \<Rightarrow> mem" where
  "resumed env pc stepping m =
     (let m = (case pc of None \<Rightarrow> m | Some a \<Rightarrow> store32 m (reg_at env rPC) a);
          flags = load32 m (reg_at env rPS) AND 0xfffffeff
      in store32 m (reg_at env rPS) (if stepping then flags OR 0x100 else flags))"

definition resume_pc :: "u8 list \<Rightarrow> u32 option" where
  "resume_pc ds = (if ds = [] then None else Some (word_of_int (hex_value ds)))"

lemma store32_twice: "store32 (store32 m p v) p w = store32 m p w"
  by (auto simp: store32_def fun_eq_iff)

lemma cmd_resume_run:
  assumes "read_bytes (mem s) p (length ds) = ds" and "\<forall>d \<in> set ds. 0 \<le> hex d"
    and "hex (ld8 (p + of_nat (length ds)) s) < 0" and "length ds < 4294967296"
  shows "cmd_resume env stepping p s = Some (s\<lparr>mem := resumed env (resume_pc ds) stepping (mem s)\<rparr>)"
proof -
  note hex = hexToInt_run [OF assms(1-3)]
  show ?thesis
  proof (cases "ds = []")
    case True
    then show ?thesis
      using hex by (simp add: cmd_resume_def resume_pc_def resumed_def st32_def store32_twice Let_def)
  next
    case False
    have "unat (of_nat (length ds) :: u32) \<noteq> 0" using unat_of_nat_u32 [OF assms(4)] False by simp
    then have "(of_nat (length ds) :: u32) \<noteq> 0" by (metis unat_0)
    then show ?thesis
      using False by (simp add: cmd_resume_def hex resume_pc_def resumed_def st32_def store32_twice Let_def
          del: of_nat_eq_0_iff word_of_nat_eq_0_iff)
  qed
qed

text \<open>The bytes of a received packet in the buffer.\<close>

lemma packet_bytes:
  assumes "length ds < 399"
  shows "load8 (written m p (c # ds @ [0])) p = c"
    and "read_bytes (written m p (c # ds @ [0])) (p + 1) (length ds) = ds"
    and "load8 (written m p (c # ds @ [0])) (p + 1 + of_nat (length ds)) = 0"
    and "load8 (written m p (c # ds @ [0])) (p + 2) =
      (if ds = [] then load8 m (p + 2) else if length ds = 1 then 0 else ds ! 1)"
proof -
  let ?m = "written m p (c # ds @ [0])"
  have nth: "load8 ?m (p + of_nat i) = (c # ds @ [0]) ! i" if "i < length ds + 2" for i
    using that assms by (intro load8_written) simp_all
  show "load8 ?m p = c" using nth [of 0] by simp
  show "read_bytes ?m (p + 1) (length ds) = ds"
  proof (rule nth_equalityI)
    fix i assume "i < length (read_bytes ?m (p + 1) (length ds))"
    then have i: "i < length ds" by simp
    then show "read_bytes ?m (p + 1) (length ds) ! i = ds ! i"
      using nth [of "Suc i"] by (simp add: read_bytes_def add.assoc nth_append)
  qed simp
  show "load8 ?m (p + 1 + of_nat (length ds)) = 0"
    using nth [of "Suc (length ds)"] by (simp add: add.assoc)
  show "load8 ?m (p + 2) = (if ds = [] then load8 m (p + 2) else if length ds = 1 then 0 else ds ! 1)"
  proof (cases "ds = []")
    case True
    then show ?thesis by (simp add: load8_written_other)
  next
    case False
    then have "2 < length ds + 2" by (cases ds) simp_all
    then show ?thesis using nth [of 2] False by (cases ds) (simp_all add: nth_append)
  qed
qed

lemma resume_run:
  fixes s :: "'a gdb_state_scheme"
  assumes lay: "stub_layout env" and host: "host_line (v_ghw env) host"
    and says: "says host (rx (io_log s)) (tx (io_log s)) (packet [] [] (c # ds) c1 c2)"
    and c: "c = 0x63 \<or> c = 0x73" and ds: "\<forall>d \<in> set ds. 0 \<le> hex d" and fits: "fits (c # ds)"
    and sum: "hex_pair c1 c2 = sum_list (c # ds)" and stale: "ds = [] \<longrightarrow> ld8 (v_in_buffer env + 2) s \<noteq> 0x3A"
  shows "\<exists>s1. talk s (packet [] [] (c # ds) c1 c2) [0x2B] s1 \<and>
    command_loop env sigval s = Some (s1\<lparr>mem := resumed env (resume_pc ds) (c = 0x73)
      (written (store8 (mem s) (v_out_buffer env) 0) (v_in_buffer env) (c # ds @ [0]))\<rparr>)"
proof -
  let ?in = "v_in_buffer env" and ?out = "v_out_buffer env" and ?hw = "v_ghw env"
  let ?s0 = "st8 ?out 0 s"
  define m where "m = written (mem ?s0) ?in (c # ds @ [0])"
  have len: "length ds < 399" using fits by (simp add: fits_def)
  note bytes = packet_bytes [OF len, of "mem ?s0" ?in c, folded m_def]
  have says0: "says host (rx (io_log ?s0)) (tx (io_log ?s0)) (packet [] [] (c # ds) c1 c2)"
    using says by simp
  obtain s1 where s1: "talk ?s0 (packet [] [] (c # ds) c1 c2) [] s1"
    "getpacket env ?s0 = accept_packet env (s1\<lparr>mem := m\<rparr>)"
    by (rule getpacket_verdict [OF host says0 _ _ fits])
      (use sum in \<open>simp_all add: buffered_def m_def Let_def del: machine.update_convs\<close>)
  obtain s2 where s2: "putDebugChar ?hw 0x2B (s1\<lparr>mem := m\<rparr>) = Some s2" "talk (s1\<lparr>mem := m\<rparr>) [] [0x2B] s2"
    by (rule putDebugChar_run [OF host])
  have m2: "mem s2 = m" using talk_mem [OF s2(2)] by simp
  have "?out \<noteq> ?in + 2"
  proof
    assume o: "?out = ?in + 2"
    have "unat (?in + 2) = unat ?in + 2" using lay by (simp add: stub_layout_def unat_add_u32)
    then have "unat ?out \<in> span 400 ?in \<inter> span 400 ?out" by (simp add: o span_def)
    then show False using lay unfolding stub_layout_def by blast
  qed
  then have "load8 (mem ?s0) (?in + 2) = ld8 (?in + 2) s" by (simp add: mem_simps)
  moreover have "ds ! 1 \<noteq> 0x3A" if "ds \<noteq> []" "length ds \<noteq> 1"
  proof -
    have "ds ! 1 \<in> set ds" using that by (intro nth_mem) (cases ds, simp_all)
    then show ?thesis using ds by (auto simp: hex_def)
  qed
  ultimately have "load8 m (?in + 2) \<noteq> 0x3A" using bytes(4) stale by auto
  then have acc: "accept_packet env (s1\<lparr>mem := m\<rparr>) = Some (?in, s2)"
    by (simp add: accept_packet_def s2(1) m2 Let_def)
  have "cmd_resume env stepping (?in + 1) s2 = Some (s2\<lparr>mem := resumed env (resume_pc ds) stepping m\<rparr>)" for stepping
    unfolding m2 [symmetric]
    by (rule cmd_resume_run) (use ds len bytes in \<open>simp_all add: m2 hex_def\<close>)
  then have run: "run_command env sigval ?in s2 =
      Some (True, s2\<lparr>mem := resumed env (resume_pc ds) (c = 0x73) m\<rparr>)"
    using c bytes(1) by (auto simp: run_command_def m2 Let_def)
  have loop: "command_loop env sigval s = Some (s2\<lparr>mem := resumed env (resume_pc ds) (c = 0x73) m\<rparr>)"
    by (subst command_loop.simps) (simp add: s1(2) acc run Let_def)
  have "talk s (packet [] [] (c # ds) c1 c2) [0x2B] (s2\<lparr>mem := mem s\<rparr>)"
  proof -
    have a: "talk s (packet [] [] (c # ds) c1 c2) [] (s1\<lparr>mem := mem s\<rparr>)"
      using talk_upd_mem [OF s1(1), of "mem s"] by (simp add: st8_def mem_upd_same)
    have "talk (s1\<lparr>mem := mem s\<rparr>) [] [0x2B] (s2\<lparr>mem := mem s\<rparr>)"
      using talk_upd_mem [OF s2(2), of "mem s"] by simp
    from talk_trans [OF a this] show ?thesis by simp
  qed
  then show ?thesis using loop by (intro exI [of _ "s2\<lparr>mem := mem s\<rparr>"]) (simp add: m_def)
qed


section \<open>An exception, from the stop reply to the command that resumes\<close>

definition stop_frame :: "gdb_env \<Rightarrow> u32 \<Rightarrow> mem \<Rightarrow> u8 list" where
  "stop_frame env vec m = frame (stop_text m env (computeSignal (sint vec)))"

definition stop_exchange :: "(u8 list \<Rightarrow> u8 list \<Rightarrow> u8) \<Rightarrow> u8 list \<Rightarrow> u8 list \<Rightarrow> u8 list \<Rightarrow> u8 list \<Rightarrow> u8 list \<Rightarrow> bool" where
  "stop_exchange host r t f naks p \<longleftrightarrow> 0x2B \<notin> set naks \<and> answers host r t f (naks @ [0x2B]) \<and>
     says host (r @ naks @ [0x2B]) (t @ concat (replicate (Suc (length naks)) f)) p"

text \<open>A packet that resumes: \<open>c\<close> or \<open>s\<close> with the digits of an address, or none.\<close>

definition resume_packet :: "u8 \<Rightarrow> u8 list \<Rightarrow> u8 \<Rightarrow> u8 \<Rightarrow> bool" where
  "resume_packet c ds c1 c2 \<longleftrightarrow> (c = 0x63 \<or> c = 0x73) \<and> (\<forall>d \<in> set ds. 0 \<le> hex d) \<and> fits (c # ds) \<and>
     hex_pair c1 c2 = sum_list (c # ds)"

lemma read_written_prefix:
  assumes "length as + length bs \<le> 4294967296"
  shows "read_bytes (written m p (as @ bs)) p (length as) = as"
  using assms by (intro nth_equalityI) (simp_all add: read_bytes_def load8_written nth_append)

lemma handle_exception_run:
  fixes s :: "'a gdb_state_scheme"
  assumes lay: "stub_layout env" and host: "host_line (v_ghw env) host" and dbg: "remote_debug s = 0"
    and ex: "stop_exchange host (rx (io_log s)) (tx (io_log s)) (stop_frame env vec (mem s)) naks (packet [] [] (c # ds) c1 c2)"
    and pkt: "resume_packet c ds c1 c2" and stale: "ds = [] \<longrightarrow> ld8 (v_in_buffer env + 2) s \<noteq> 0x3A"
  shows "\<exists>l m. handle_exception env vec s =
      Some (s\<lparr>gdb_i386vector := vec, mem := resumed env (resume_pc ds) (c = 0x73) m, io_log := l\<rparr>) \<and>
    rx l = rx (io_log s) @ naks @ [0x2B] @ packet [] [] (c # ds) c1 c2 \<and>
    tx l = tx (io_log s) @ concat (replicate (Suc (length naks)) (stop_frame env vec (mem s))) @ [0x2B] \<and>
    same_on (mem s) m (- (span 400 (v_in_buffer env) \<union> span 400 (v_out_buffer env)))"
proof -
  let ?in = "v_in_buffer env" and ?out = "v_out_buffer env" and ?hw = "v_ghw env"
  let ?sig = "computeSignal (sint vec)"
  let ?t = "stop_text (mem s) env ?sig"
  let ?f = "stop_frame env vec (mem s)"
  define m1 where "m1 = written (mem s) ?out (?t @ [0])"
  define s1 where "s1 = s\<lparr>gdb_i386vector := vec, mem := m1\<rparr>"
  have ranges: "unat ?in + 400 \<le> 4294967296" "unat ?out + 400 \<le> 4294967296" "span 400 ?in \<inter> span 400 ?out = {}"
    using lay by (simp_all add: stub_layout_def)
  have stop: "stop_reply env ?sig (s\<lparr>gdb_i386vector := vec\<rparr>) = Some s1"
    unfolding stop_reply_run [OF lay] by (simp add: s1_def m1_def)
  have rd: "read_bytes (mem s1) ?out 36 = ?t"
    using read_written_prefix [of ?t "[0]" "mem s" ?out] by (simp add: s1_def m1_def)
  have str: "cstring (mem s1) ?out 36"
    using cstring_written [of ?t "mem s" ?out] stop_text_plain [OF computeSignal_bound]
    by (simp add: s1_def m1_def)
  have log1: "io_log s1 = io_log s" by (simp add: s1_def)
  have ans: "answers host (rx (io_log s1)) (tx (io_log s1)) (frame (read_bytes (mem s1) ?out 36)) (naks @ [0x2B])"
    using ex by (simp add: stop_exchange_def rd log1 stop_frame_def)
  have naks: "0x2B \<notin> set naks" using ex by (simp add: stop_exchange_def)
  from putpacket_run [OF host str ans naks] obtain s2 where
    s2: "putpacket ?hw ?out s1 = Some s2" "talk s1 (naks @ [0x2B]) (concat (replicate (Suc (length naks)) ?f)) s2"
    unfolding rd stop_frame_def by blast
  have m2: "mem s2 = m1" using talk_mem [OF s2(2)] by (simp add: s1_def)
  have says2: "says host (rx (io_log s2)) (tx (io_log s2)) (packet [] [] (c # ds) c1 c2)"
    using ex talk_streams [OF s2(2)] by (simp add: stop_exchange_def log1)
  have stale2: "ds = [] \<longrightarrow> ld8 (?in + 2) s2 \<noteq> 0x3A"
  proof -
    have "unat (?in + 2) = unat ?in + 2" using ranges(1) by (simp add: unat_add_u32)
    then have "unat (?in + 2) \<in> span 400 ?in" by (simp add: span_def)
    then have "unat (?in + 2) \<notin> span 400 ?out" using ranges(3) by blast
    then have "unat (?in + 2) \<in> - {unat ?out..<unat ?out + length (?t @ [0])}" by (auto simp: span_def)
    moreover have "same_on (mem s) m1 (- {unat ?out..<unat ?out + length (?t @ [0])})"
      unfolding m1_def by (rule written_same) (use ranges(2) in simp)
    ultimately have "ld8 (?in + 2) s2 = ld8 (?in + 2) s"
      unfolding m2 by (metis load8_same)
    then show ?thesis using stale by simp
  qed
  from pkt have pk: "c = 0x63 \<or> c = 0x73" "\<forall>d \<in> set ds. 0 \<le> hex d" "fits (c # ds)" "hex_pair c1 c2 = sum_list (c # ds)"
    by (simp_all add: resume_packet_def)
  let ?m = "written (store8 (mem s2) ?out 0) ?in (c # ds @ [0])"
  from resume_run [OF lay host says2 pk stale2, of ?sig] obtain s3 where
    s3: "talk s2 (packet [] [] (c # ds) c1 c2) [0x2B] s3"
      "command_loop env ?sig s2 = Some (s3\<lparr>mem := resumed env (resume_pc ds) (c = 0x73) ?m\<rparr>)"
    by blast
  have t13: "talk s1 (naks @ [0x2B] @ packet [] [] (c # ds) c1 c2) (concat (replicate (Suc (length naks)) ?f) @ [0x2B]) s3"
    using talk_trans [OF s2(2) s3(1)] by simp
  have s3': "s3 = s1\<lparr>io_log := io_log s3\<rparr>" using t13 by (simp add: talk_def)
  have "handle_exception env vec s = Some (s3\<lparr>mem := resumed env (resume_pc ds) (c = 0x73) ?m\<rparr>)"
    using dbg by (simp add: handle_exception_def stop s2(1) s3(2))
  also have "s3\<lparr>mem := resumed env (resume_pc ds) (c = 0x73) ?m\<rparr> =
      s\<lparr>gdb_i386vector := vec, mem := resumed env (resume_pc ds) (c = 0x73) ?m, io_log := io_log s3\<rparr>"
    by (subst s3') (simp add: s1_def)
  finally have "handle_exception env vec s =
      Some (s\<lparr>gdb_i386vector := vec, mem := resumed env (resume_pc ds) (c = 0x73) ?m, io_log := io_log s3\<rparr>)" .
  moreover have "same_on (mem s) ?m (- (span 400 ?in \<union> span 400 ?out))"
  proof -
    have "same_on (mem s) m1 (- (span 400 ?in \<union> span 400 ?out))"
      unfolding m1_def by (rule same_on_mono [OF written_same]) (use ranges(2) in \<open>auto simp: span_def\<close>)
    moreover have "same_on m1 (store8 m1 ?out 0) (- (span 400 ?in \<union> span 400 ?out))"
      by (rule same_on_store8) (simp add: span_def)
    moreover have "same_on (store8 m1 ?out 0) (written (store8 m1 ?out 0) ?in (c # ds @ [0])) (- (span 400 ?in \<union> span 400 ?out))"
      by (rule same_on_mono [OF written_same]) (use ranges(1) pk(3) in \<open>auto simp: span_def fits_def\<close>)
    ultimately show ?thesis unfolding m2 by (blast intro: same_on_trans)
  qed
  ultimately show ?thesis
    using talk_streams [OF t13] by (intro exI [of _ "io_log s3"] exI [of _ ?m]) (simp add: log1)
qed


section \<open>The registers after the command\<close>

lemma reg_at_numeral:
  "reg_at env rPC = v_registers env + 32" "reg_at env rPS = v_registers env + 36"
  "reg_at env rESP = v_registers env + 16" "reg_at env rEBP = v_registers env + 20"
  by (simp_all add: reg_at_def rPC_def rPS_def rESP_def rEBP_def)

lemma resumed_registers:
  assumes "unat (v_registers env) + 64 \<le> 4294967296"
  defines "r \<equiv> v_registers env"
  shows "saved_general (resumed env pc st m) r = saved_general m r"
    and "saved_segments (resumed env pc st m) r = saved_segments m r"
    and "load32 (resumed env pc st m) (r + 32) = (case pc of None \<Rightarrow> load32 m (r + 32) | Some a \<Rightarrow> a)"
    and "load32 (resumed env pc st m) (r + 36) =
      (let flags = load32 m (r + 36) AND 0xfffffeff in if st then flags OR 0x100 else flags)"
    and "same_on m (resumed env pc st m) (- span 64 r)"
proof -
  have rr: "unat r + 64 \<le> 4294967296" using assms by simp
  note clr = load_store_clear reg_clear [OF rr]
  show "saved_general (resumed env pc st m) r = saved_general m r"
    "saved_segments (resumed env pc st m) r = saved_segments m r"
    "load32 (resumed env pc st m) (r + 32) = (case pc of None \<Rightarrow> load32 m (r + 32) | Some a \<Rightarrow> a)"
    "load32 (resumed env pc st m) (r + 36) =
      (let flags = load32 m (r + 36) AND 0xfffffeff in if st then flags OR 0x100 else flags)"
    unfolding resumed_def reg_at_numeral r_def [symmetric] saved_general_def saved_segments_def
    by (cases pc; simp add: clr Let_def)+
  show "same_on m (resumed env pc st m) (- span 64 r)"
    unfolding resumed_def reg_at_numeral r_def [symmetric] Let_def
    by (cases pc; simp only: option.case; intro stores_inside same_on_refl; simp add: reg_span [OF rr])
qed

lemma saved_same:
  assumes "same_on m m' (span 64 r)" and "unat r + 64 \<le> 4294967296"
  shows "saved_general m' r = saved_general m r" and "saved_segments m' r = saved_segments m r"
    and "load32 m' (r + 32) = load32 m (r + 32)" and "load32 m' (r + 36) = load32 m (r + 36)"
proof -
  have l: "load32 m' (r + k) = load32 m (r + k)" if "unat k + 4 \<le> 64" for k
    by (rule load32_same [OF assms(1)])
      (use reg_span(2) [OF assms(2), of k 4] reg_span(4) [OF assms(2), of k 4] that in \<open>simp_all add: span_def\<close>)
  have l0: "load32 m' r = load32 m r" using l [of 0] by simp
  show "saved_general m' r = saved_general m r" "saved_segments m' r = saved_segments m r"
    "load32 m' (r + 32) = load32 m (r + 32)" "load32 m' (r + 36) = load32 m (r + 36)"
    by (simp_all add: saved_general_def saved_segments_def l l0)
qed

text \<open>The stop frame in terms of the registers it reports.\<close>

definition bytes32 :: "u32 \<Rightarrow> u8 list" where
  "bytes32 v = [ucast v, ucast (drop_bit 8 v), ucast (drop_bit 16 v), ucast (drop_bit 24 v)]"

definition register_line :: "nat \<Rightarrow> u32 \<Rightarrow> u8 list" where
  "register_line reg v = [hexchars reg, 0x3A] @ hex_text (bytes32 v) @ [0x3B]"

lemma bytes32_load32: "bytes32 (load32 m p) = read_bytes m p 4"
proof -
  have "read_bytes m p 4 = [m p, m (p + 1), m (p + 2), m (p + 3)]"
    by (simp add: read_bytes_def upt_rec load8_def)
  moreover have "(ucast (load32 m p) :: u8) = m p" "(ucast (drop_bit 8 (load32 m p)) :: u8) = m (p + 1)"
    "(ucast (drop_bit 16 (load32 m p)) :: u8) = m (p + 2)" "(ucast (drop_bit 24 (load32 m p)) :: u8) = m (p + 3)"
    unfolding load32_def by (rule bit_word_eqI; simp add: bit_simps no_bit_u8)+
  ultimately show ?thesis by (simp add: bytes32_def)
qed

definition cpu_stop_frame :: "nat \<Rightarrow> 'a cpu_state_scheme \<Rightarrow> u8 list" where
  "cpu_stop_frame sigval s = frame ([0x54, hexchars (sigval div 16), hexchars (sigval mod 16)] @
     register_line rESP (cpu_esp s) @ register_line rEBP (cpu_ebp s) @ register_line rPC (cpu_eip s))"

lemma stop_frame_cpu:
  assumes "saved_general m (v_registers env) = general s" and "load32 m (v_registers env + 32) = cpu_eip s"
  shows "stop_frame env vec m = cpu_stop_frame (computeSignal (sint vec)) s"
proof -
  have "load32 m (v_registers env + 16) = cpu_esp s" "load32 m (v_registers env + 20) = cpu_ebp s"
    using assms(1) by (simp_all add: saved_general_def general_def)
  then show ?thesis
    using assms(2)
    by (simp add: stop_frame_def stop_text_def cpu_stop_frame_def register_text_def register_line_def
        reg_at_numeral flip: bytes32_load32)
qed


section \<open>The whole of it\<close>

text \<open>The stacks of the program and of the stub do not meet the stub's data.\<close>

definition stacks_ok :: "gdb_env \<Rightarrow> 'a cpu_state_scheme \<Rightarrow> bool" where
  "stacks_ok env s \<longleftrightarrow> 12 \<le> unat (cpu_esp s) \<and> 8 \<le> unat (stackPtr s) \<and>
     (span 12 (cpu_esp s - 12) \<union> span 8 (stackPtr s - 8)) \<inter> (span 64 (v_registers env) \<union> span 400 (v_in_buffer env)) = {}"

definition stub_memory :: "gdb_env \<Rightarrow> 'a cpu_state_scheme \<Rightarrow> nat set" where
  "stub_memory env s = span 64 (v_registers env) \<union> span 400 (v_in_buffer env) \<union> span 400 (v_out_buffer env) \<union>
     span 12 (cpu_esp s - 12) \<union> span 8 (stackPtr s - 8)"

lemma span_below:
  assumes "n \<le> unat e" and "k \<le> n"
  shows "span k (e - of_nat k) \<subseteq> span n (e - of_nat n)"
proof -
  have b: "unat e < 4294967296" by simp
  have "unat (of_nat k :: u32) = k" "unat (of_nat n :: u32) = n"
    using assms b by (simp_all only: unat_of_nat_u32)
  then have "unat (e - of_nat k) = unat e - k" "unat (e - of_nat n) = unat e - n"
    using assms by (simp_all add: unat_diff_u32)
  then show ?thesis using assms by (auto simp: span_def)
qed

lemma stop_and_resume:
  fixes s :: "'a cpu_state_scheme"
  assumes lay: "stub_layout env" and stk: "stacks_ok env s" and host: "host_line (v_ghw env) host"
    and dbg: "remote_debug s = 0" and pkt: "resume_packet c ds c1 c2"
    and ex: "stop_exchange host (rx (io_log s)) (tx (io_log s)) (cpu_stop_frame 5 s) naks (packet [] [] (c # ds) c1 c2)"
    and stale: "ds = [] \<longrightarrow> ld8 (v_in_buffer env + 2) s \<noteq> 0x3A"
  shows "\<exists>s'. catchException3 env (take_exception handler None s) = Some s' \<and>
    general s' = general s \<and> segments s' = segments s \<and>
    cpu_eip s' = (if ds = [] then cpu_eip s else word_of_int (hex_value ds)) \<and>
    cpu_eflags s' = (let flags = cpu_eflags s AND 0xfffffeff in if c = 0x73 then flags OR 0x100 else flags) \<and>
    same_on (mem s) (mem s') (- stub_memory env s) \<and>
    rx (io_log s') = rx (io_log s) @ naks @ [0x2B] @ packet [] [] (c # ds) c1 c2 \<and>
    tx (io_log s') = tx (io_log s) @ concat (replicate (Suc (length naks)) (cpu_stop_frame 5 s)) @ [0x2B] \<and>
    gdb_i386vector s' = 3"
proof -
  let ?r = "v_registers env" and ?in = "v_in_buffer env" and ?out = "v_out_buffer env"
  let ?P = "span 12 (cpu_esp s - 12)" and ?S = "span 8 (stackPtr s - 8)"
  let ?R = "span 64 ?r" and ?I = "span 400 ?in" and ?O = "span 400 ?out"
  let ?x = "entered env handler s"
  let ?h = "hooked env 3 ?x"
  have r: "unat ?r + 64 \<le> 4294967296" using lay by (simp add: stub_layout_def)
  have e12: "12 \<le> unat (cpu_esp s)" "8 \<le> unat (stackPtr s)" using stk by (simp_all add: stacks_ok_def)
  have apart: "?P \<inter> ?R = {}" "?S \<inter> ?R = {}" "?P \<inter> ?I = {}" "?S \<inter> ?I = {}" "?R \<inter> ?I = {}" "?R \<inter> ?O = {}"
    using stk lay unfolding stacks_ok_def stub_layout_def by blast+
  have sa: "stack_apart 12 (cpu_esp s - 12) ?r"
    using apart(1) r e12 by (simp add: stack_apart_def unat_diff_u32)
  have x: "mem ?x = entry_mem ?r s" "cpu_esp ?x = cpu_esp s" "stackPtr ?x = stackPtr s" "io_log ?x = io_log s"
    by (simp_all add: entered_def)
  have "same_on (mem s) (mem ?x) (- (?P \<union> ?R))"
    unfolding x(1) by (rule entry_others [OF r e12(1)])
  moreover have P8: "span 8 (cpu_esp s - 8) \<subseteq> ?P" using span_below [OF e12(1), of 8] by simp
  have xh: "same_on (mem ?x) (mem ?h) (- (?P \<union> ?S))"
    using hooked_others [of ?x env 3] e12 P8 unfolding x(2,3) by (auto intro: same_on_mono)
  ultimately have sh: "same_on (mem s) (mem ?h) (- (?P \<union> ?R \<union> ?S))"
    by (auto intro: same_on_trans same_on_mono)
  have regs_h: "same_on (mem ?x) (mem ?h) ?R" by (rule same_on_mono [OF xh]) (use apart(1,2) in blast)
  note saved = saved_same [OF regs_h r] entry_registers [OF r, of s]
  have gen: "saved_general (mem ?h) ?r = general s" "load32 (mem ?h) (?r + 32) = cpu_eip s"
    "load32 (mem ?h) (?r + 36) = cpu_eflags s" "saved_segments (mem ?h) ?r = map ucast (segments s)"
    using saved by (simp_all add: x(1))
  have h: "io_log ?h = io_log s" "remote_debug ?h = 0" "stackPtr ?h = stackPtr s"
    using dbg by (simp_all add: hooked_def entered_def Let_def)
  have "computeSignal (sint (3 :: u32)) = 5" by (simp add: computeSignal_def)
  then have fr: "stop_frame env 3 (mem ?h) = cpu_stop_frame 5 s"
    using stop_frame_cpu [OF gen(1,2), of 3] by simp
  have ex': "stop_exchange host (rx (io_log ?h)) (tx (io_log ?h)) (stop_frame env 3 (mem ?h)) naks (packet [] [] (c # ds) c1 c2)"
    using ex by (simp add: fr h)
  have in2: "unat (?in + 2) \<in> ?I"
    using lay by (simp add: stub_layout_def unat_add_u32 span_def)
  have "ld8 (?in + 2) ?h = ld8 (?in + 2) s"
    by (rule load8_same [OF sh]) (use in2 apart in blast)
  then have stale': "ds = [] \<longrightarrow> ld8 (?in + 2) ?h \<noteq> 0x3A" using stale by simp
  from handle_exception_run [OF lay host h(2) ex' pkt stale'] obtain l m where
    run: "handle_exception env 3 ?h = Some (?h\<lparr>gdb_i386vector := 3, mem := resumed env (resume_pc ds) (c = 0x73) m, io_log := l\<rparr>)"
    and l: "rx l = rx (io_log s) @ naks @ [0x2B] @ packet [] [] (c # ds) c1 c2"
      "tx l = tx (io_log s) @ concat (replicate (Suc (length naks)) (cpu_stop_frame 5 s)) @ [0x2B]"
    and m: "same_on (mem ?h) m (- (?I \<union> ?O))"
    unfolding fr h by blast
  let ?k = "?h\<lparr>gdb_i386vector := 3, mem := resumed env (resume_pc ds) (c = 0x73) m, io_log := l\<rparr>"
  have mR: "same_on (mem ?h) m ?R" by (rule same_on_mono [OF m]) (use apart(5,6) in blast)
  note res = saved_same [OF mR r] gen
  have k: "saved_general (mem ?k) ?r = general s" "saved_segments (mem ?k) ?r = map ucast (segments s)"
    "ld32 (?r + 32) ?k = (if ds = [] then cpu_eip s else word_of_int (hex_value ds))"
    "ld32 (?r + 36) ?k = (let flags = cpu_eflags s AND 0xfffffeff in if c = 0x73 then flags OR 0x100 else flags)"
    using res by (simp_all add: resumed_registers [OF r] resume_pc_def Let_def)
  have esp: "ld32 (?r + 16) ?k = cpu_esp s"
    using k(1) by (simp add: saved_general_def general_def)
  have sa': "stack_apart 12 (ld32 (?r + 16) ?k - 12) ?r" "12 \<le> unat (ld32 (?r + 16) ?k)"
    unfolding esp using sa e12 by simp_all
  note ret = restored [OF sa', unfolded esp]
  have "catchException3 env (take_exception handler None s) = Some (return_to_prog env ?k)"
    unfolding catchException3_run [OF sa] run by simp
  moreover have "segments (return_to_prog env ?k) = segments s"
    unfolding ret(2) k(2) by (simp add: segments_def)
  moreover have "same_on (mem s) (mem (return_to_prog env ?k)) (- stub_memory env s)"
  proof -
    have a: "same_on (mem s) (mem ?h) (- stub_memory env s)"
      by (rule same_on_mono [OF sh]) (auto simp: stub_memory_def)
    have b: "same_on (mem ?h) m (- stub_memory env s)"
      by (rule same_on_mono [OF m]) (auto simp: stub_memory_def)
    have c: "same_on m (mem ?k) (- stub_memory env s)"
      by (simp, rule same_on_mono [OF resumed_registers(5) [OF r]]) (auto simp: stub_memory_def)
    have d: "same_on (mem ?k) (mem (return_to_prog env ?k)) (- stub_memory env s)"
      by (rule same_on_mono [OF ret(5)]) (auto simp: stub_memory_def)
    show ?thesis by (rule same_on_trans [OF a same_on_trans [OF b same_on_trans [OF c d]]])
  qed
  ultimately show ?thesis
    using ret(1,3,4,6,7) k(1,3,4) l by (intro exI [of _ "return_to_prog env ?k"]) simp
qed

end
