(* ===== verification/GdbTheorems.thy ===== *)
theory GdbTheorems
  imports GdbSession
begin

text \<open>
  What the debugger stub guarantees.
\<close>

section \<open>A host that follows a script\<close>

definition script_hw :: "u8 list \<Rightarrow> hw" where
  "script_hw bs = \<lparr>hw_inb = \<lambda>l p. if p = RECV_BUF COM1 then (let n = length (rx l) in if n < length bs then bs ! n else 0) else 0x21,
     hw_inw = \<lambda>_ _. 0, hw_inl = \<lambda>_ _. 0, hw_irq = \<lambda>_. 32, hw_dma = \<lambda>_ m. m\<rparr>"

definition script_host :: "u8 list \<Rightarrow> u8 list \<Rightarrow> u8 list \<Rightarrow> u8" where
  "script_host bs r t = (if length r < length bs then bs ! length r else 0)"

lemma script_line: "host_line (script_hw bs) (script_host bs)"
  by (simp add: host_line_def script_hw_def script_host_def Let_def)

lemma says_script: "length r = length as \<Longrightarrow> says (script_host (as @ bs)) r t bs"
  by (simp add: says_def script_host_def nth_append)

text \<open>An environment, and a processor about to take a breakpoint.\<close>

definition demo_stub :: "u8 list \<Rightarrow> gdb_env" where
  "demo_stub bs = \<lparr>v_ghw = script_hw bs, v_in_buffer = 0x1000, v_out_buffer = 0x2000, v_registers = 0x3000,
     v_gdb_print_buf = 0x3100, v_set_mem_err = 0x9000, v_faults = \<lambda>a. unat a \<ge> 0x80000000, v_errcode = \<lambda>_. 0,
     v_junk = 0, v_idtr = 0x3200, v_stack_end = 0x6000, v_catch = \<lambda>n. 0x9100 + of_nat n,
     v_hook_return = \<lambda>_. 0x9200, v_handler_return = 0x9300\<rparr>"

definition demo_cpu :: cpu_state where
  "demo_cpu = \<lparr>mem = store16 (\<lambda>_. 0) 0x4018 0x9103, io_log = [], free_block_head = 0, curs_row = 0, curs_col = 0,
     int_handlers = replicate 48 0, idtr_len = 383, idtr_offset = 0x4000,
     initialized = 1, remote_debug = 0, gdb_i386vector = - 1, gdb_i386errcode = 0, mem_fault_routine = 0,
     mem_err = 0, stackPtr = 0x6000,
     cpu_eax = 1, cpu_ecx = 2, cpu_edx = 3, cpu_ebx = 4, cpu_esp = 0x7000, cpu_ebp = 0x7100, cpu_esi = 7, cpu_edi = 8,
     cpu_eip = 0x8001, cpu_eflags = 0x102, cpu_cs = 8, cpu_ss = 16, cpu_ds = 16, cpu_es = 16, cpu_fs = 16, cpu_gs = 16\<rparr>"

lemma demo_layout: "stub_layout (demo_stub bs)"
  unfolding stub_layout_def demo_stub_def accessible_def span_def
  by (simp add: unat_word_ariths unat_of_nat_u32)

lemma demo_stacks: "stacks_ok (demo_stub bs) demo_cpu"
  by (auto simp: stacks_ok_def demo_stub_def demo_cpu_def span_def)


lemma answers_Nil: "answers host r t f []"
  by (simp add: answers_def)


section \<open>Stop and resume\<close>

text \<open>C24: A call of \<open>breakpoint\<close>, which takes exception 3, and the command \<open>c\<close> or \<open>s\<close>, with an address or,
  when byte 2 of the input buffer is not a colon, without one (a colon that an earlier packet has left
  there makes \<open>getpacket\<close> drop a command of one letter). The stub sends the stop reply for
  signal 5 with the registers \<open>ESP\<close>, \<open>EBP\<close> and \<open>PC\<close> of the interrupted program, once more for every
  answer that is not \<open>+\<close>, acknowledges the command, and returns to the program with every
  register as it was, except that \<open>PC\<close> is the address in the command, if it has one, and the trace
  flag is set for \<open>s\<close> and cleared for \<open>c\<close>. Memory changes only in the stub's buffers, the array of
  registers and the stacks.\<close>

theorem breakpoint_stop_and_resume:
  fixes s :: "'a cpu_state_scheme"
  assumes "stub_layout env" and "stacks_ok env s" and "host_line (v_ghw env) host"
    and "remote_debug s = 0" and "resume_packet c ds c1 c2"
    and "stop_exchange host (rx (io_log s)) (tx (io_log s)) (cpu_stop_frame 5 s) naks (packet [] [] (c # ds) c1 c2)"
    and "ds = [] \<longrightarrow> ld8 (v_in_buffer env + 2) s \<noteq> 0x3A"
    and "initialized s \<noteq> 0" and "gate_target 3 s = v_catch env 3"
  shows "\<exists>s'. breakpoint env other s = Some s' \<and>
    general s' = general s \<and> segments s' = segments s \<and>
    cpu_eip s' = (if ds = [] then cpu_eip s else word_of_int (hex_value ds)) \<and>
    cpu_eflags s' = (let flags = cpu_eflags s AND 0xfffffeff in if c = 0x73 then flags OR 0x100 else flags) \<and>
    same_on (mem s) (mem s') (- stub_memory env s) \<and>
    rx (io_log s') = rx (io_log s) @ naks @ [0x2B] @ packet [] [] (c # ds) c1 c2 \<and>
    tx (io_log s') = tx (io_log s) @ concat (replicate (Suc (length naks)) (cpu_stop_frame 5 s)) @ [0x2B] \<and>
    gdb_i386vector s' = 3"
proof -
  have "breakpoint env other s = catchException3 env (take_exception (v_catch env 3) None s)"
    using assms(8,9) by (simp add: breakpoint_def BREAKPOINT_def Let_def)
  then show ?thesis by (simp only:) (rule stop_and_resume [OF assms(1-6)], rule assms(7))
qed

text \<open>The host answers the first reply with \<open>-\<close>, the second with \<open>+\<close>, and sends \<open>$c8004#2f\<close>.\<close>

theorem breakpoint_stop_and_resume_witness:
  "\<exists>s'. breakpoint (demo_stub ([0x2D, 0x2B] @ text_bytes ''$c8004#2f'')) (\<lambda>_ _. None) demo_cpu = Some s' \<and>
    cpu_eax s' = 1 \<and> cpu_esp s' = 0x7000 \<and> cpu_eip s' = 0x8004 \<and> cpu_eflags s' = 2"
proof -
  let ?p = "packet [] [] (0x63 # text_bytes ''8004'') 0x32 0x66"
  let ?bs = "[0x2D, 0x2B] @ text_bytes ''$c8004#2f''"
  have p: "text_bytes ''$c8004#2f'' = ?p" by (simp add: packet_def given_up_def)
  have says: "says (script_host ?bs) [0x2D, 0x2B] t ?p" for t
    unfolding p by (rule says_script) simp
  have ex: "stop_exchange (script_host ?bs) [] [] f [0x2D] ?p" for f
    using says by (simp add: stop_exchange_def answers_Cons answers_Nil script_host_def)
  have pk: "resume_packet 0x63 (text_bytes ''8004'') 0x32 0x66"
    by (simp add: resume_packet_def fits_def plain_def hex_def hex_pair_def)
  have line: "host_line (v_ghw (demo_stub ?bs)) (script_host ?bs)"
    using script_line by (simp add: demo_stub_def)
  have start: "remote_debug demo_cpu = 0" "io_log demo_cpu = []" by (simp_all add: demo_cpu_def)
  have gate: "initialized demo_cpu \<noteq> 0" "gate_target 3 demo_cpu = v_catch (demo_stub ?bs) 3"
    by (simp_all add: demo_cpu_def gate_target_def demo_stub_def mem_simps) (simp add: load16_def store16_def)?
  obtain s' where s': "breakpoint (demo_stub ?bs) (\<lambda>_ _. None) demo_cpu = Some s'"
    "general s' = general demo_cpu"
    "cpu_eip s' = (if text_bytes ''8004'' = [] then cpu_eip demo_cpu else word_of_int (hex_value (text_bytes ''8004'')))"
    "cpu_eflags s' = (let flags = cpu_eflags demo_cpu AND 0xfffffeff in if (0x63 :: u8) = 0x73 then flags OR 0x100 else flags)"
    using breakpoint_stop_and_resume [OF demo_layout demo_stacks line start(1) pk, where naks = "[0x2D]" and other = "\<lambda>_ _. None",
      unfolded start(2) stream_Nil, OF ex _ gate] by auto
  then show ?thesis
    by (intro exI [of _ s']) (simp add: hex_value_def hex_def general_def demo_cpu_def)
qed


section \<open>Packets\<close>

lemma accept_packet_run:
  assumes "host_line (v_ghw env) host"
  shows "\<exists>s'. talk s [] (if ld8 (v_in_buffer env + 2) s = 0x3A
        then [0x2B, ld8 (v_in_buffer env) s, ld8 (v_in_buffer env + 1) s] else [0x2B]) s' \<and>
    accept_packet env s = Some (if ld8 (v_in_buffer env + 2) s = 0x3A then v_in_buffer env + 3 else v_in_buffer env, s')"
proof -
  let ?in = "v_in_buffer env" and ?hw = "v_ghw env"
  obtain s1 where s1: "putDebugChar ?hw 0x2B s = Some s1" "talk s [] [0x2B] s1"
    by (rule putDebugChar_run [OF assms])
  obtain s2 where s2: "putDebugChar ?hw (ld8 ?in s) s1 = Some s2" "talk s1 [] [ld8 ?in s] s2"
    by (rule putDebugChar_run [OF assms])
  obtain s3 where s3: "putDebugChar ?hw (ld8 (?in + 1) s) s2 = Some s3" "talk s2 [] [ld8 (?in + 1) s] s3"
    by (rule putDebugChar_run [OF assms])
  note m = talk_mem [OF s1(2)] talk_mem [OF s2(2)]
  have "talk s [] [0x2B, ld8 ?in s, ld8 (?in + 1) s] s3"
    using talk_trans [OF talk_trans [OF s1(2) s2(2)] s3(2)] by simp
  then show ?thesis
    using s1 s2(1) s3(1) by (simp add: accept_packet_def m Let_def)
qed

text \<open>C25: \<open>getpacket\<close> skips everything before the first \<open>$\<close> and every packet that another \<open>$\<close>
  cuts short, and accepts a packet whose checksum, in hexadecimal digits of either case, is the
  sum of its bytes modulo 256. It sends exactly one \<open>+\<close>, and the buffer holds the data as a
  string. When the third byte of the buffer is a colon it echoes the two bytes before it and the
  packet begins after it; that byte is looked at even if the packet is shorter, so for packets of
  fewer than two bytes a byte of an earlier packet decides.\<close>

theorem getpacket_accepts:
  fixes s :: "'a gdb_state_scheme"
  assumes host: "host_line (v_ghw env) host" and "0x24 \<notin> set noise" and "\<forall>p \<in> set ps. fits p" and "fits bs"
    and "says host (rx (io_log s)) (tx (io_log s)) (packet noise ps bs c1 c2)" and sum: "hex_pair c1 c2 = sum_list bs"
  defines "m \<equiv> buffered (mem s) (v_in_buffer env) (ps @ [bs @ [0]])"
  shows "\<exists>s'. talk s (packet noise ps bs c1 c2)
      (if load8 m (v_in_buffer env + 2) = 0x3A then [0x2B, load8 m (v_in_buffer env), load8 m (v_in_buffer env + 1)] else [0x2B]) s' \<and>
    getpacket env s = Some
      (if load8 m (v_in_buffer env + 2) = 0x3A then v_in_buffer env + 3 else v_in_buffer env, s'\<lparr>mem := m\<rparr>)"
proof -
  obtain s1 where s1: "talk s (packet noise ps bs c1 c2) [] s1"
    "getpacket env s = accept_packet env (s1\<lparr>mem := m\<rparr>)"
    by (rule getpacket_verdict [OF host assms(5,2,3,4)])
      (use sum in \<open>simp_all add: m_def Let_def del: machine.update_convs\<close>)
  let ?t = "if load8 m (v_in_buffer env + 2) = 0x3A
    then [0x2B, load8 m (v_in_buffer env), load8 m (v_in_buffer env + 1)] else [0x2B]"
  obtain s2 where s2: "talk (s1\<lparr>mem := m\<rparr>) [] ?t s2" "accept_packet env (s1\<lparr>mem := m\<rparr>) =
      Some (if load8 m (v_in_buffer env + 2) = 0x3A then v_in_buffer env + 3 else v_in_buffer env, s2)"
    using accept_packet_run [OF host, of "s1\<lparr>mem := m\<rparr>", unfolded mem_upd] by blast
  have "talk s1 [] ?t (s2\<lparr>mem := mem s1\<rparr>)"
    using talk_upd_mem [OF s2(1), of "mem s1"] by (simp add: mem_upd_same)
  from talk_trans [OF s1(1) this] have "talk s (packet noise ps bs c1 c2) ?t (s2\<lparr>mem := mem s1\<rparr>)" by simp
  moreover have "s2\<lparr>mem := mem s1, mem := m\<rparr> = s2" using talk_mem [OF s2(1)] mem_upd_same [of s2] by simp
  ultimately show ?thesis using s1(2) s2(2) by (intro exI [of _ "s2\<lparr>mem := mem s1\<rparr>"]) (simp del: machine.update_convs)
qed

text \<open>Noise, a packet cut short, and \<open>$g#67\<close> behind an earlier packet that has left \<open>1::\<close> in the
  buffer: the stub answers \<open>+g\<close> and a zero byte, and takes what follows the colon for the packet.\<close>

theorem getpacket_accepts_witness:
  "\<exists>s'. getpacket (demo_stub (text_bytes ''x$ab$g#67'')) (demo_cpu\<lparr>mem := written (\<lambda>_. 0) 0x1000 (text_bytes ''1::'')\<rparr>) =
      Some (0x1003, s') \<and> tx (io_log s') = [0x2B, 0x67, 0]"
proof -
  let ?bs = "text_bytes ''x$ab$g#67''" and ?s = "demo_cpu\<lparr>mem := written (\<lambda>_. 0) 0x1000 (text_bytes ''1::'')\<rparr>"
  let ?p = "packet (text_bytes ''x'') [text_bytes ''ab''] (text_bytes ''g'') 0x36 0x37"
  have p: "?bs = ?p" by (simp add: packet_def given_up_def)
  have says: "says (script_host ?bs) (rx (io_log ?s)) (tx (io_log ?s)) ?p"
    using says_script [of "[]" "[]" ?p "[]"] unfolding p by (simp add: demo_cpu_def)
  have line: "host_line (v_ghw (demo_stub ?bs)) (script_host ?bs)"
    using script_line by (simp add: demo_stub_def)
  have f: "\<forall>p \<in> set [text_bytes ''ab'']. fits p" "fits (text_bytes ''g'')" "0x24 \<notin> set (text_bytes ''x'')"
    "hex_pair 0x36 0x37 = sum_list (text_bytes ''g'')"
    by (simp_all add: fits_def plain_def hex_pair_def hex_def)
  from getpacket_accepts [OF line f(3,1,2) says f(4)] show ?thesis
    by (force simp: demo_stub_def buffered_def written_def load8_def talk_def demo_cpu_def)
qed

text \<open>C32: A packet with a wrong checksum, when debug output is off, is answered by exactly one \<open>-\<close>,
  and \<open>getpacket\<close> goes on as if it had just been called, with the data of the bad packet left in
  the buffer.\<close>

theorem getpacket_rejects:
  fixes s :: "'a gdb_state_scheme"
  assumes host: "host_line (v_ghw env) host" and "0x24 \<notin> set noise" and "\<forall>p \<in> set ps. fits p" and "fits bs"
    and "says host (rx (io_log s)) (tx (io_log s)) (packet noise ps bs c1 c2)" and sum: "hex_pair c1 c2 \<noteq> sum_list bs"
    and dbg: "remote_debug s = 0"
  defines "m \<equiv> buffered (mem s) (v_in_buffer env) (ps @ [bs @ [0]])"
  shows "\<exists>s'. talk s (packet noise ps bs c1 c2) [0x2D] s' \<and> getpacket env s = getpacket env (s'\<lparr>mem := m\<rparr>)"
proof -
  obtain s1 where s1: "talk s (packet noise ps bs c1 c2) [] s1"
    "getpacket env s = (if remote_debug (s1\<lparr>mem := m\<rparr>) \<noteq> 0
      then bad_checksum env (sum_list bs) (hex_pair c1 c2) (s1\<lparr>mem := m\<rparr>) else Some (s1\<lparr>mem := m\<rparr>)) \<bind>
        (\<lambda>s. putDebugChar (v_ghw env) 0x2D s \<bind> getpacket env)"
    by (rule getpacket_verdict [OF host assms(5,2,3,4)])
      (use sum in \<open>simp_all add: m_def Let_def del: machine.update_convs\<close>)
  have "s1 = s\<lparr>io_log := io_log s1\<rparr>" using s1(1) by (simp add: talk_def)
  then have "remote_debug s1 = remote_debug (s\<lparr>io_log := io_log s1\<rparr>)" by metis
  then have d: "remote_debug (s1\<lparr>mem := m\<rparr>) = 0" using dbg by simp
  obtain s2 where s2: "putDebugChar (v_ghw env) 0x2D (s1\<lparr>mem := m\<rparr>) = Some s2" "talk (s1\<lparr>mem := m\<rparr>) [] [0x2D] s2"
    by (rule putDebugChar_run [OF host])
  have "talk s1 [] [0x2D] (s2\<lparr>mem := mem s1\<rparr>)"
    using talk_upd_mem [OF s2(2), of "mem s1"] by (simp add: mem_upd_same)
  from talk_trans [OF s1(1) this] have "talk s (packet noise ps bs c1 c2) [0x2D] (s2\<lparr>mem := mem s1\<rparr>)" by simp
  moreover have "s2\<lparr>mem := mem s1, mem := m\<rparr> = s2" using talk_mem [OF s2(2)] mem_upd_same [of s2] by simp
  moreover have "getpacket env s = getpacket env s2" 
    using d s2(1) by (subst s1(2)) simp
  ultimately show ?thesis by (intro exI [of _ "s2\<lparr>mem := mem s1\<rparr>"]) (simp del: machine.update_convs)
qed

text \<open>\<open>$g#66\<close> is wrong by one.\<close>

theorem getpacket_rejects_witness:
  "\<exists>s'. getpacket (demo_stub (text_bytes ''$g#66'')) demo_cpu = getpacket (demo_stub (text_bytes ''$g#66'')) s' \<and>
    tx (io_log s') = [0x2D] \<and> read_bytes (mem s') 0x1000 2 = [0x67, 0]"
proof -
  let ?bs = "text_bytes ''$g#66''" and ?p = "packet [] [] (text_bytes ''g'') 0x36 0x36"
  have p: "?bs = ?p" by (simp add: packet_def given_up_def)
  have says: "says (script_host ?bs) (rx (io_log demo_cpu)) (tx (io_log demo_cpu)) ?p"
    using says_script [of "[]" "[]" ?p "[]"] unfolding p by (simp add: demo_cpu_def)
  have line: "host_line (v_ghw (demo_stub ?bs)) (script_host ?bs)"
    using script_line by (simp add: demo_stub_def)
  have f: "\<forall>p \<in> set []. fits p" "fits (text_bytes ''g'')" "0x24 \<notin> set []"
    "hex_pair 0x36 0x36 \<noteq> sum_list (text_bytes ''g'')" "remote_debug demo_cpu = 0"
    by (simp_all add: fits_def plain_def hex_pair_def hex_def demo_cpu_def)
  from getpacket_rejects [OF line f(3,1,2) says f(4,5)] obtain s' where
    s': "talk demo_cpu ?p [0x2D] s'" "getpacket (demo_stub ?bs) demo_cpu = getpacket (demo_stub ?bs)
      (s'\<lparr>mem := buffered (mem demo_cpu) (v_in_buffer (demo_stub ?bs)) ([] @ [text_bytes ''g'' @ [0]])\<rparr>)"
    by blast
  then show ?thesis
    by (intro exI [of _ "s'\<lparr>mem := buffered (mem demo_cpu) (v_in_buffer (demo_stub ?bs)) ([] @ [text_bytes ''g'' @ [0]])\<rparr>"])
      (simp add: talk_def demo_cpu_def buffered_def demo_stub_def read_bytes_def written_def load8_def upt_rec)
qed

text \<open>C28: \<open>putpacket\<close> sends \<open>$\<close>, the string in the buffer, \<open>#\<close> and the two digits of its sum, again
  for every answer other than \<open>+\<close>, and returns at the first \<open>+\<close>.\<close>

theorem putpacket_sends:
  assumes "host_line hw host" and "cstring (mem s) p n"
    and "answers host (rx (io_log s)) (tx (io_log s)) (frame (read_bytes (mem s) p n)) (naks @ [0x2B])"
    and "0x2B \<notin> set naks"
  shows "\<exists>s'. putpacket hw p s = Some s' \<and>
    talk s (naks @ [0x2B]) (concat (replicate (Suc (length naks)) (frame (read_bytes (mem s) p n)))) s'"
  by (rule putpacket_run [OF assms])

theorem putpacket_sends_witness:
  "\<exists>s'. putpacket (script_hw [0x2B]) 0x2000 (demo_cpu\<lparr>mem := written (\<lambda>_. 0) 0x2000 (text_bytes ''OK'')\<rparr>) = Some s' \<and>
    tx (io_log s') = text_bytes ''$OK#9a''"
proof -
  let ?s = "demo_cpu\<lparr>mem := written (\<lambda>_. 0) 0x2000 (text_bytes ''OK'')\<rparr>"
  have "cstring (mem ?s) 0x2000 (Suc (Suc 0))"
    by (simp add: cstring_Suc written_def load8_def)
  then have c: "cstring (mem ?s) 0x2000 2" by (simp add: numeral_2_eq_2)
  have r: "read_bytes (mem ?s) 0x2000 2 = text_bytes ''OK''"
    by (simp add: read_bytes_def written_def load8_def upt_rec)
  have a: "answers (script_host [0x2B]) (rx (io_log ?s)) (tx (io_log ?s)) f ([] @ [0x2B])" for f
    by (simp add: answers_Cons answers_Nil script_host_def demo_cpu_def)
  have "hexchars 9 = 0x39" "hexchars 10 = 0x61" by (simp_all add: hexchars_def)
  then have f: "frame (text_bytes ''OK'') = text_bytes ''$OK#9a''"
    by (simp add: frame_def hex_byte_def)
  obtain s' where s': "putpacket (script_hw [0x2B]) 0x2000 ?s = Some s'"
    "talk ?s ([] @ [0x2B]) (concat (replicate (Suc (length [])) (frame (read_bytes (mem ?s) 0x2000 2)))) s'"
    using putpacket_sends [OF script_line c a] by auto
  have "tx (io_log s') = frame (text_bytes ''OK'')"
    unfolding talk_streams(2) [OF s'(2)] r by (simp add: demo_cpu_def)
  then show ?thesis using s'(1) f by metis
qed

end
