(* ===== verification/GdbMemoryTheorems.thy ===== *)
theory GdbMemoryTheorems
  imports GdbTheorems
begin

text \<open>
  What the debugger stub does with memory on behalf of the host, and the state it keeps between
  two commands.
\<close>

section \<open>Memory on the line\<close>

lemma move_vga_cursor_frame:
  "mem_fault_routine (move_vga_cursor c r s) = mem_fault_routine s" "mem_err (move_vga_cursor c r s) = mem_err s"
  "remote_debug (move_vga_cursor c r s) = remote_debug s" "initialized (move_vga_cursor c r s) = initialized s"
  by (simp_all add: move_vga_cursor_def port_defs log_event_def Let_def)

lemma print_char_frame:
  "mem_fault_routine (print_char c s) = mem_fault_routine s" "mem_err (print_char c s) = mem_err s"
  "remote_debug (print_char c s) = remote_debug s" "initialized (print_char c s) = initialized s"
  by (simp_all add: print_char_def advance_cursor_def advance_cursor_newline_def screen_scroll_run st8_def Let_def)

lemma print_chars_frame:
  "mem_fault_routine (fold print_char cs s) = mem_fault_routine s" "mem_err (fold print_char cs s) = mem_err s"
  "remote_debug (fold print_char cs s) = remote_debug s" "initialized (fold print_char cs s) = initialized s"
  by (induction cs arbitrary: s) (simp_all add: print_char_frame)

lemma print_text_frame [simp]:
  "mem_fault_routine (print_text cs s) = mem_fault_routine s" "mem_err (print_text cs s) = mem_err s"
  "remote_debug (print_text cs s) = remote_debug s" "initialized (print_text cs s) = initialized s"
  by (simp_all add: print_text_def Let_def move_vga_cursor_frame print_chars_frame)

lemma first_fault:
  assumes "\<not> accessible env a n"
  shows "\<exists>k < n. v_faults env (a + of_nat k) \<and> accessible env a k"
proof -
  let ?P = "\<lambda>i. v_faults env (a + of_nat i)"
  obtain i where i: "i < n" "?P i" using assms by (auto simp: accessible_def)
  have "?P (LEAST k. ?P k)" "(LEAST k. ?P k) \<le> i" using i(2) by (auto intro: LeastI Least_le)
  moreover have "accessible env a (LEAST k. ?P k)" using not_less_Least [of _ ?P] by (auto simp: accessible_def)
  ultimately show ?thesis using i(1) by (intro exI [of _ "LEAST k. ?P k"]) simp
qed

lemma read_bytes_nth: "i < n \<Longrightarrow> read_bytes m p n ! i = load8 m (p + of_nat i)"
  by (simp add: read_bytes_def)

text \<open>The address and the length that begin both commands, up to the character \<open>t\<close> that ends them.\<close>

lemma address_and_length:
  fixes s :: "'a gdb_state_scheme"
  assumes cmd: "read_bytes (mem s) ptr (length as + Suc (length ls + 1)) = as @ 0x2C # ls @ [t]"
    and digits: "\<forall>d \<in> set (as @ ls). 0 \<le> hex d" and ne: "as \<noteq> []" "ls \<noteq> []" "length as + length ls < 400" and t: "hex t < 0"
  shows "hexToInt ptr s = Some (of_nat (length as), word_of_int (hex_value as), ptr + of_nat (length as))"
    and "ld8 (ptr + of_nat (length as)) s = 0x2C"
    and "hexToInt (ptr + of_nat (length as) + 1) s =
      Some (of_nat (length ls), of_nat (nat (hex_value ls)), ptr + of_nat (length as) + 1 + of_nat (length ls))"
    and "ld8 (ptr + of_nat (length as) + 1 + of_nat (length ls)) s = t"
    and "(of_nat (length as) :: u32) \<noteq> 0" and "(of_nat (length ls) :: u32) \<noteq> 0" and "0 \<le> hex_value ls"
proof -
  show nonneg: "0 \<le> hex_value ls"
  proof -
    have "0 \<le> v \<Longrightarrow> \<forall>d \<in> set ds. 0 \<le> hex d \<Longrightarrow> 0 \<le> foldl (\<lambda>v d. 16 * v + hex d) v ds" for ds v
      by (induction ds arbitrary: v) simp_all
    then show ?thesis using digits by (simp add: hex_value_def)
  qed
  have bytes: "load8 (mem s) (ptr + of_nat i) = (as @ 0x2C # ls @ [t]) ! i" if "i < length as + Suc (length ls + 1)" for i
    using read_bytes_nth [OF that, of "mem s" ptr] unfolding cmd ..
  let ?q = "ptr + of_nat (length as)"
  have A: "read_bytes (mem s) ptr (length as) = as" "load8 (mem s) ?q = 0x2C"
    using bytes [of "length as"] bytes by (auto simp: read_bytes_def nth_append intro: nth_equalityI)
  have q: "?q + 1 + of_nat i = ptr + of_nat (length as + Suc i)" for i by simp
  have L': "load8 (mem s) (?q + 1 + of_nat i) = (ls @ [t]) ! i" if "i \<le> length ls" for i
    using bytes [of "length as + Suc i"] that unfolding q by (simp add: nth_append)
  have L: "read_bytes (mem s) (?q + 1) (length ls) = ls" "load8 (mem s) (?q + 1 + of_nat (length ls)) = t"
    using L' by (auto simp: read_bytes_nth nth_append intro: nth_equalityI)
  show "hexToInt ptr s = Some (of_nat (length as), word_of_int (hex_value as), ?q)"
    by (rule hexToInt_run) (use A digits in \<open>simp_all add: hex_def\<close>)
  show "ld8 ?q s = 0x2C" "ld8 (?q + 1 + of_nat (length ls)) s = t" using A(2) L(2) by simp_all
  have "(word_of_int (hex_value ls) :: u32) = of_nat (nat (hex_value ls))" using nonneg by simp
  then show "hexToInt (?q + 1) s = Some (of_nat (length ls), of_nat (nat (hex_value ls)), ?q + 1 + of_nat (length ls))"
    using hexToInt_run [OF L(1)] L(2) digits t by simp
  have nz: "(of_nat (length xs) :: u32) \<noteq> 0" if "xs \<noteq> []" "length xs < 400" for xs :: "u8 list"
  proof -
    have "unat (of_nat (length xs) :: u32) \<noteq> 0" using that by (subst unat_of_nat_u32) simp_all
    then show ?thesis by (metis unat_0)
  qed
  show "(of_nat (length as) :: u32) \<noteq> 0" "(of_nat (length ls) :: u32) \<noteq> 0" using nz [of as] nz [of ls] ne by auto
qed

text \<open>C26: The command \<open>m\<close> with the digits of an address, a comma and the digits of a length puts
  the memory there into the reply, two digits for each byte, however long it is: the buffer of 400
  bytes is not looked at, so that 200 bytes and more are written past it. If one of the addresses
  faults, the reply is \<open>E03\<close>, \<open>memory fault\<close> is printed, and the error code of the fault is kept.
  In both cases no fault routine is armed afterwards.\<close>

theorem cmd_read_memory_correct:
  fixes s :: "'a gdb_state_scheme"
  assumes cmd: "read_bytes (mem s) ptr (length as + Suc (length ls + 1)) = as @ 0x2C # ls @ [0]"
    and digits: "\<forall>d \<in> set (as @ ls). 0 \<le> hex d" and ne: "as \<noteq> []" "ls \<noteq> []" "length as + length ls < 400"
    and bound: "hex_value ls < 2147483647" and routine: "v_set_mem_err env \<noteq> 0"
  defines "a \<equiv> word_of_int (hex_value as)" and "n \<equiv> nat (hex_value ls)"
  assumes aw: "away a n (v_out_buffer env) (2 * n)"
  shows "if accessible env a n
    then cmd_read_memory env ptr s = Some (s\<lparr>mem := written (mem s) (v_out_buffer env) (hex_text (read_bytes (mem s) a n) @ [0]),
      mem_fault_routine := 0, mem_err := 0\<rparr>)
    else \<exists>k < n. v_faults env (a + of_nat k) \<and> accessible env a k \<and>
      cmd_read_memory env ptr s = Some (print_text (text_bytes ''memory fault'') (reply env ''E03''
        (s\<lparr>mem := written (mem s) (v_out_buffer env) (hex_text (read_bytes (mem s) a k)),
           gdb_i386errcode := v_errcode env (a + of_nat k), mem_fault_routine := 0, mem_err := 1\<rparr>)))"
proof -
  note p = address_and_length [OF cmd digits ne, unfolded a_def [symmetric] n_def [symmetric]]
  have z: "hex 0 < 0" by (simp add: hex_def)
  have nb: "n < 2147483647" using bound p(7) [OF z] by (simp add: n_def)
  have run: "cmd_read_memory env ptr s = mem2hex env a (v_out_buffer env) (of_nat n) True (s\<lparr>mem_err := 0\<rparr>) \<bind>
      (\<lambda>(_, s). if mem_err s \<noteq> 0 then Some (print_text (text_bytes ''memory fault'') (reply env ''E03'' s)) else Some s)"
    unfolding cmd_read_memory_def p(1) [OF z] using p(2-6) [OF z]
    by (simp add: Let_def del: of_nat_eq_0_iff word_of_nat_eq_0_iff)
  show ?thesis
  proof (cases "accessible env a n")
    case True
    then show ?thesis unfolding run by (subst mem2hex_run [OF _ aw nb]) (simp_all)
  next
    case False
    from first_fault [OF this] obtain k where k: "k < n" "v_faults env (a + of_nat k)" "accessible env a k"
      by blast
    have "away a k (v_out_buffer env) (2 * k)" by (rule away_mono [OF aw]) (use k(1) in simp_all)
    from mem2hex_fault [OF k(3,2,1) this nb, of "s\<lparr>mem_err := 0\<rparr>"] routine
    show ?thesis using False k unfolding run by (auto simp: after_fault_def)
  qed
qed

lemma demo_accessible:
  assumes "unat a + n \<le> 0x80000000"
  shows "accessible (demo_stub bs) a n"
proof -
  have "unat (a + of_nat i) < 0x80000000" if "i < n" for i
    using assms that by (subst unat_add_u32) (simp_all add: unat_of_nat_u32)
  then show ?thesis by (simp add: accessible_def demo_stub_def not_le)
qed

text \<open>\<open>m8000,2\<close>, and one byte in front of memory that faults.\<close>

definition demo_read :: "string \<Rightarrow> cpu_state" where
  "demo_read cs = demo_cpu\<lparr>mem := written (written (\<lambda>_. 0) 0x8000 [0xAB, 1]) 0x1001 (text_bytes cs @ [0])\<rparr>"

theorem cmd_read_memory_correct_witness:
  "(\<exists>s'. cmd_read_memory (demo_stub []) 0x1001 (demo_read ''8000,2'') = Some s' \<and>
      read_bytes (mem s') 0x2000 5 = text_bytes ''ab01'' @ [0] \<and> mem_fault_routine s' = 0) \<and>
   (\<exists>s'. cmd_read_memory (demo_stub []) 0x1001 (demo_read ''7fffffff,2'') = Some s' \<and>
      mem_err s' = 1 \<and> mem_fault_routine s' = 0)"
proof
  let ?env = "demo_stub []" and ?out = "0x2000 :: u32"
  have hx: "hexchars 10 = 0x61" "hexchars 11 = 0x62" "hexchars 0 = 0x30" "hexchars (Suc 0) = 0x31"
    by (simp_all add: hexchars_def)
  have acc: "accessible ?env 0x8000 2" by (rule demo_accessible) simp
  have "away 0x8000 2 ?out 4" by (rule awayI) simp_all
  with cmd_read_memory_correct [of "demo_read ''8000,2''" "0x1001" "text_bytes ''8000''" "text_bytes ''2''" ?env] acc
  show "\<exists>s'. cmd_read_memory ?env 0x1001 (demo_read ''8000,2'') = Some s' \<and>
      read_bytes (mem s') ?out 5 = text_bytes ''ab01'' @ [0] \<and> mem_fault_routine s' = 0"
    by (simp add: demo_read_def demo_stub_def hex_def hex_value_def read_bytes_def written_def load8_def upt_rec
        hex_byte_def hx)
next
  let ?env = "demo_stub []" and ?out = "0x2000 :: u32"
  have acc: "\<not> accessible ?env 0x7fffffff 2"
    by (simp add: accessible_def demo_stub_def) (intro exI [of _ 1], simp)
  have "away 0x7fffffff 2 ?out 4" by (rule awayI) simp_all
  with cmd_read_memory_correct [of "demo_read ''7fffffff,2''" "0x1001" "text_bytes ''7fffffff''" "text_bytes ''2''" ?env] acc
  show "\<exists>s'. cmd_read_memory ?env 0x1001 (demo_read ''7fffffff,2'') = Some s' \<and> mem_err s' = 1 \<and> mem_fault_routine s' = 0"
    by (auto simp add: demo_read_def demo_stub_def hex_def hex_value_def read_bytes_def written_def load8_def upt_rec reply_def)
qed

text \<open>C27: The command \<open>M\<close> with the digits of an address, a comma, the digits of a length, a colon and the
  bytes in hexadecimal writes exactly these bytes there and replies \<open>OK\<close>. If one of the addresses
  faults, the bytes before it have been written and none after it, the reply is \<open>E03\<close>, \<open>memory fault\<close>
  is printed, and the error code of the fault is kept. In both cases no fault routine is armed
  afterwards.\<close>

theorem cmd_write_memory_correct:
  fixes s :: "'a gdb_state_scheme"
  assumes cmd: "read_bytes (mem s) ptr (length as + Suc (length ls + 1)) = as @ 0x2C # ls @ [0x3A]"
    and digits: "\<forall>d \<in> set (as @ ls). 0 \<le> hex d" and ne: "as \<noteq> []" "ls \<noteq> []" "length as + length ls < 400"
    and bound: "hex_value ls < 2147483647" and routine: "v_set_mem_err env \<noteq> 0"
  defines "a \<equiv> word_of_int (hex_value as)" and "n \<equiv> nat (hex_value ls)" and "src \<equiv> ptr + of_nat (length as + length ls + 2)"
  assumes aw: "away src (2 * n) a n" and data: "read_bytes (mem s) src (2 * n) = hex_text bs"
  shows "if accessible env a n
    then cmd_write_memory env ptr s = Some (reply env ''OK'' (s\<lparr>mem := written (mem s) a bs, mem_fault_routine := 0, mem_err := 0\<rparr>))
    else \<exists>k < n. v_faults env (a + of_nat k) \<and> accessible env a k \<and>
      cmd_write_memory env ptr s = Some (print_text (text_bytes ''memory fault'') (reply env ''E03''
        (s\<lparr>mem := written (mem s) a (take k bs), gdb_i386errcode := v_errcode env (a + of_nat k), mem_fault_routine := 0, mem_err := 1\<rparr>)))"
proof -
  note p = address_and_length [OF cmd digits ne, unfolded a_def [symmetric] n_def [symmetric]]
  have z: "hex 0x3A < 0" by (simp add: hex_def)
  have nb: "n < 2147483647" using bound p(7) [OF z] by (simp add: n_def)
  have q: "ptr + of_nat (length as) + 1 + of_nat (length ls) + 1 = src" by (simp add: src_def)
  have run: "cmd_write_memory env ptr s = hex2mem env src a (of_nat n) True (s\<lparr>mem_err := 0\<rparr>) \<bind>
      (\<lambda>(_, s). if mem_err s \<noteq> 0 then Some (print_text (text_bytes ''memory fault'') (reply env ''E03'' s)) else Some (reply env ''OK'' s))"
    unfolding cmd_write_memory_def p(1) [OF z] using p(2-6) [OF z] q
    by (simp add: Let_def del: of_nat_eq_0_iff word_of_nat_eq_0_iff)
  have part: "unhex (read_bytes (mem s) src (2 * k)) = take k bs" if "k \<le> n" for k
  proof -
    have "read_bytes (mem s) src (2 * k) = take (2 * k) (read_bytes (mem s) src (2 * n))"
      using that by (auto simp: read_bytes_def take_map)
    then show ?thesis unfolding data by (simp add: take_hex_text)
  qed
  show ?thesis
  proof (cases "accessible env a n")
    case True
    have "unhex (read_bytes (mem s) src (2 * n)) = bs" unfolding data by simp
    then show ?thesis using True unfolding run by (subst hex2mem_run [OF _ aw nb]) (simp_all add: reply_def)
  next
    case False
    from first_fault [OF this] obtain k where k: "k < n" "v_faults env (a + of_nat k)" "accessible env a k"
      by blast
    have "away src (2 * k) a k" by (rule away_mono [OF aw]) (use k(1) in simp_all)
    from hex2mem_fault [OF k(3,2,1) this nb, of "s\<lparr>mem_err := 0\<rparr>"] routine part [of k]
    show ?thesis using False k unfolding run by (auto simp: after_fault_def)
  qed
qed

theorem cmd_write_memory_correct_witness:
  "(\<exists>s'. cmd_write_memory (demo_stub []) 0x1001 (demo_read ''8800,2:ab01'') = Some s' \<and>
      read_bytes (mem s') 0x8800 2 = [0xAB, 1] \<and> read_bytes (mem s') 0x2000 3 = text_bytes ''OK'' @ [0]) \<and>
   (\<exists>s'. cmd_write_memory (demo_stub []) 0x1001 (demo_read ''7fffffff,2:ab01'') = Some s' \<and>
      mem_err s' = 1 \<and> mem_fault_routine s' = 0)"
proof
  let ?env = "demo_stub []" and ?out = "0x2000 :: u32"
  have hx: "hexchars 10 = 0x61" "hexchars 11 = 0x62" "hexchars 0 = 0x30" "hexchars (Suc 0) = 0x31"
    by (simp_all add: hexchars_def)
  have acc: "accessible ?env 0x8800 2" by (rule demo_accessible) simp
  have "away 0x1008 4 0x8800 2" by (rule awayI) simp_all
  with cmd_write_memory_correct [of "demo_read ''8800,2:ab01''" "0x1001" "text_bytes ''8800''" "text_bytes ''2''" ?env "[0xAB, 1]"] acc
  show "\<exists>s'. cmd_write_memory ?env 0x1001 (demo_read ''8800,2:ab01'') = Some s' \<and>
      read_bytes (mem s') 0x8800 2 = [0xAB, 1] \<and> read_bytes (mem s') ?out 3 = text_bytes ''OK'' @ [0]"
    by (simp add: demo_read_def demo_stub_def hex_def hex_value_def read_bytes_def written_def load8_def upt_rec
        hex_byte_def hx reply_def)
next
  let ?env = "demo_stub []"
  have hx: "hexchars 10 = 0x61" "hexchars 11 = 0x62" "hexchars 0 = 0x30" "hexchars (Suc 0) = 0x31"
    by (simp_all add: hexchars_def)
  have acc: "\<not> accessible ?env 0x7fffffff 2"
    by (simp add: accessible_def demo_stub_def) (intro exI [of _ 1], simp)
  have "away 0x100c 4 0x7fffffff 2" by (rule awayI) simp_all
  with cmd_write_memory_correct [of "demo_read ''7fffffff,2:ab01''" "0x1001" "text_bytes ''7fffffff''" "text_bytes ''2''" ?env "[0xAB, 1]"] acc
  show "\<exists>s'. cmd_write_memory ?env 0x1001 (demo_read ''7fffffff,2:ab01'') = Some s' \<and> mem_err s' = 1 \<and> mem_fault_routine s' = 0"
    by (auto simp add: demo_read_def demo_stub_def hex_def hex_value_def read_bytes_def written_def load8_def upt_rec reply_def
        hex_byte_def hx)
qed

text \<open>C33: What \<open>mem2hex\<close> writes, \<open>hex2mem\<close> reads back: after both, the destination holds the bytes
  of the source, for every number of bytes and every contents.\<close>

theorem mem2hex_hex2mem:
  fixes s :: "'a gdb_state_scheme"
  assumes "accessible env a n" and "accessible env b n" and "n < 2147483647"
    and "away a n buf (2 * n)" and "away buf (2 * n) b n"
  shows "\<exists>s' s''. mem2hex env a buf (of_nat n) False s = Some (buf + of_nat (2 * n), s') \<and>
    hex2mem env buf b (of_nat n) False s' = Some (b + of_nat n, s'') \<and>
    mem s'' = written (mem s') b (read_bytes (mem s) a n)"
proof -
  let ?t = "hex_text (read_bytes (mem s) a n)"
  let ?s = "s\<lparr>mem := written (mem s) buf (?t @ [0])\<rparr>"
  have "mem2hex env a buf (of_nat n) False s = Some (buf + of_nat (2 * n), ?s)"
    by (subst mem2hex_run [OF assms(1,4,3)]) (simp_all add: fault_routine_same)
  moreover have "unhex (read_bytes (mem ?s) buf (2 * n)) = read_bytes (mem s) a n"
    using read_written_prefix [of ?t "[0]" "mem s" buf] assms(3) by simp
  then have "hex2mem env buf b (of_nat n) False ?s =
      Some (b + of_nat n, ?s\<lparr>mem := written (mem ?s) b (read_bytes (mem s) a n)\<rparr>)"
    by (subst hex2mem_run [OF assms(2,5,3)]) (simp_all add: fault_routine_same)
  ultimately show ?thesis
    by (intro exI [of _ ?s] exI [of _ "?s\<lparr>mem := written (mem ?s) b (read_bytes (mem s) a n)\<rparr>"]) simp
qed

theorem mem2hex_hex2mem_witness:
  "\<exists>s' s''. mem2hex (demo_stub []) 0x8000 0x2000 2 False (demo_read []) = Some (0x2004, s') \<and>
    hex2mem (demo_stub []) 0x2000 0x8800 2 False s' = Some (0x8802, s'') \<and> read_bytes (mem s'') 0x8800 2 = [0xAB, 1]"
proof -
  have acc: "accessible (demo_stub []) 0x8000 2" "accessible (demo_stub []) 0x8800 2"
    by (rule demo_accessible; simp)+
  have aw: "away 0x8000 2 0x2000 (2 * 2)" "away 0x2000 (2 * 2) 0x8800 2" by (rule awayI; simp)+
  have rd: "read_bytes (mem (demo_read [])) 0x8000 2 = [0xAB, 1]"
    by (simp add: demo_read_def read_bytes_def written_def load8_def upt_rec)
  have n: "(2 :: nat) < 2147483647" by simp
  obtain s' s'' where r: "mem2hex (demo_stub []) 0x8000 0x2000 (of_nat 2) False (demo_read []) = Some (0x2000 + of_nat (2 * 2), s')"
    "hex2mem (demo_stub []) 0x2000 0x8800 (of_nat 2) False s' = Some (0x8800 + of_nat 2, s'')"
    "mem s'' = written (mem s') 0x8800 [0xAB, 1]"
    using mem2hex_hex2mem [OF acc n aw, of "demo_read []"] unfolding rd by auto
  have "read_bytes (mem s'') 0x8800 2 = [0xAB, 1]"
    using read_written [of "[0xAB, 1]" "mem s'" "0x8800"] by (simp add: r(3) numeral_2_eq_2)
  then show ?thesis using r(1,2) by (intro exI [of _ s'] exI [of _ s'']) simp
qed


section \<open>The state between commands\<close>

text \<open>A flag is 0 or 1, and the routine for faults is armed only while a command runs.\<close>

definition stub_wf :: "'a gdb_state_scheme \<Rightarrow> bool" where
  "stub_wf s \<longleftrightarrow> mem_fault_routine s = 0 \<and> mem_err s \<in> {0, 1} \<and> remote_debug s \<in> {0, 1} \<and> initialized s \<in> {0, 1}"

lemma mem2hex_loop_flags:
  assumes "mem2hex_loop env n a buf may_fault s = Some (complete, buf', s')"
    and "if may_fault then mem_err s = 0 else mem_fault_routine s = 0"
  shows "remote_debug s' = remote_debug s \<and> initialized s' = initialized s \<and>
    (if complete then mem_fault_routine s' = mem_fault_routine s \<and> mem_err s' = mem_err s
     else may_fault \<and> mem_fault_routine s' = 0 \<and> mem_err s' = 1)"
  using assms
proof (induction n arbitrary: a buf s)
  case (Suc n)
  show ?case
  proof (cases "v_faults env a")
    case True
    then show ?thesis using Suc.prems
      by (cases may_fault) (auto simp: get_char_def access_fault_def set_mem_err_def split: if_splits)
  next
    case False
    let ?s = "st8 (buf + 1) (hexchars (unat (ld8 a s mod 16))) (st8 buf (hexchars (unat (drop_bit 4 (ld8 a s)))) s)"
    have "mem2hex_loop env n (a + 1) (buf + 2) may_fault ?s = Some (complete, buf', s')"
      using Suc.prems False by (auto simp: get_char_def Let_def split: if_splits)
    moreover have "mem_err ?s = mem_err s" "mem_fault_routine ?s = mem_fault_routine s"
      "remote_debug ?s = remote_debug s" "initialized ?s = initialized s"
      by (simp_all add: st8_def)
    ultimately show ?thesis using Suc.IH [of _ _ ?s] Suc.prems(2) by metis
  qed
qed simp

lemma hex2mem_loop_flags:
  assumes "hex2mem_loop env n buf a may_fault s = Some (complete, a', s')"
    and "if may_fault then mem_err s = 0 else mem_fault_routine s = 0"
  shows "remote_debug s' = remote_debug s \<and> initialized s' = initialized s \<and>
    (if complete then mem_fault_routine s' = mem_fault_routine s \<and> mem_err s' = mem_err s
     else may_fault \<and> mem_fault_routine s' = 0 \<and> mem_err s' = 1)"
  using assms
proof (induction n arbitrary: a buf s)
  case (Suc n)
  show ?case
  proof (cases "v_faults env a")
    case True
    then show ?thesis using Suc.prems
      by (cases may_fault) (auto simp: set_char_def access_fault_def set_mem_err_def split: if_splits)
  next
    case False
    let ?s = "st8 a (hex_pair (ld8 buf s) (ld8 (buf + 1) s)) s"
    have "hex2mem_loop env n (buf + 2) (a + 1) may_fault ?s = Some (complete, a', s')"
      using Suc.prems False by (auto simp: set_char_def st8_def split: if_splits)
    moreover have "mem_err ?s = mem_err s" "mem_fault_routine ?s = mem_fault_routine s"
      "remote_debug ?s = remote_debug s" "initialized ?s = initialized s"
      by (simp_all add: st8_def)
    ultimately show ?thesis using Suc.IH [of _ _ ?s] Suc.prems(2) by metis
  qed
qed simp

lemma mem2hex_wf:
  assumes "mem2hex env a buf n may_fault s = Some (p, s')" and "stub_wf s" and "may_fault \<longrightarrow> mem_err s = 0"
  shows "stub_wf s'"
proof -
  let ?s = "if may_fault then s\<lparr>mem_fault_routine := v_set_mem_err env\<rparr> else s"
  obtain c b s1 where l: "mem2hex_loop env (times n) a buf may_fault ?s = Some (c, b, s1)"
    and s': "s' = (if c then (if may_fault then st8 b 0 s1\<lparr>mem_fault_routine := 0\<rparr> else st8 b 0 s1) else s1)"
    using assms(1) by (auto simp: mem2hex_def Let_def split: Option.bind_splits if_splits)
  have "if may_fault then mem_err ?s = 0 else mem_fault_routine ?s = 0"
    using assms(2,3) by (simp add: stub_wf_def)
  from mem2hex_loop_flags [OF l this] show ?thesis
    using assms(2) by (auto simp: s' stub_wf_def st8_def split: if_splits)
qed

lemma hex2mem_wf:
  assumes "hex2mem env buf a n may_fault s = Some (p, s')" and "stub_wf s" and "may_fault \<longrightarrow> mem_err s = 0"
  shows "stub_wf s'"
proof -
  let ?s = "if may_fault then s\<lparr>mem_fault_routine := v_set_mem_err env\<rparr> else s"
  obtain c b s1 where l: "hex2mem_loop env (times n) buf a may_fault ?s = Some (c, b, s1)"
    and s': "s' = (if c \<and> may_fault then s1\<lparr>mem_fault_routine := 0\<rparr> else s1)"
    using assms(1) by (auto simp: hex2mem_def Let_def split: Option.bind_splits)
  have "if may_fault then mem_err ?s = 0 else mem_fault_routine ?s = 0"
    using assms(2,3) by (simp add: stub_wf_def)
  from hex2mem_loop_flags [OF l this] show ?thesis
    using assms(2) by (auto simp: s' stub_wf_def split: if_splits)
qed

lemma stub_wf_updates [simp]:
  "stub_wf (s\<lparr>mem := m\<rparr>) = stub_wf s" "stub_wf (st8 p b s) = stub_wf s" "stub_wf (st32 p v s) = stub_wf s"
  "stub_wf (reply env msg s) = stub_wf s" "stub_wf (refuse env msg p s) = stub_wf s"
  "stub_wf (print_text cs s) = stub_wf s"
  by (simp_all add: stub_wf_def st8_def st32_def reply_def refuse_def)

lemma stub_wf_no_err: "stub_wf s \<Longrightarrow> stub_wf (s\<lparr>mem_err := 0\<rparr>)"
  by (simp add: stub_wf_def)

lemma memory_commands_wf:
  assumes "stub_wf s"
  shows "cmd_read_memory env p s = Some s' \<Longrightarrow> stub_wf s'" and "cmd_write_memory env p s = Some s' \<Longrightarrow> stub_wf s'"
    and "cmd_set_register env p s = Some s' \<Longrightarrow> stub_wf s'"
proof -
  note wf0 = stub_wf_no_err [OF assms]
  have m: "\<And>a b n q s1. mem2hex env a b n True (s\<lparr>mem_err := 0\<rparr>) = Some (q, s1) \<Longrightarrow> stub_wf s1"
    "\<And>a b n q s1. hex2mem env a b n True (s\<lparr>mem_err := 0\<rparr>) = Some (q, s1) \<Longrightarrow> stub_wf s1"
    "\<And>a b n q s1. hex2mem env a b n False s = Some (q, s1) \<Longrightarrow> stub_wf s1"
    by (erule mem2hex_wf hex2mem_wf; simp add: wf0 assms)+
  show "stub_wf s'" if "cmd_read_memory env p s = Some s'"
    using that assms unfolding cmd_read_memory_def Let_def
    by (auto split: Option.bind_splits if_splits) (erule m(1))+
  show "stub_wf s'" if "cmd_write_memory env p s = Some s'"
    using that assms unfolding cmd_write_memory_def Let_def
    by (auto split: Option.bind_splits if_splits) (erule m(2))+
  show "stub_wf s'" if "cmd_set_register env p s = Some s'"
    using that assms unfolding cmd_set_register_def
    by (auto split: Option.bind_splits if_splits) (erule m(3))+
qed

lemma cmd_resume_wf: "cmd_resume env stepping p s = Some s' \<Longrightarrow> stub_wf s \<Longrightarrow> stub_wf s'"
  by (cases "hexToInt p s") (auto simp: cmd_resume_def Let_def)

lemma stub_wf_toggle: "stub_wf s \<Longrightarrow> stub_wf (s\<lparr>remote_debug := if remote_debug s = 0 then 1 else 0\<rparr>)"
  by (simp add: stub_wf_def)

lemma run_command_keeps_wf:
  assumes "run_command env sigval ptr s = Some (resumes, s')" and wf: "stub_wf s"
  shows "stub_wf s'"
proof -
  let ?m = "\<lambda>p. mem2hex env (v_registers env) (v_out_buffer env) (of_nat NUMREGBYTES) False p"
  let ?h = "hex2mem env (ptr + 1) (v_registers env) (of_nat NUMREGBYTES) False s"
  have cases: "s' = cmd_status env sigval s \<or>
      s' = s\<lparr>remote_debug := if remote_debug s = 0 then 1 else 0\<rparr> \<or> s' = s \<or>
      (\<exists>p. ?m s = Some (p, s')) \<or> (\<exists>p s1. ?h = Some (p, s1) \<and> s' = reply env ''OK'' s1) \<or>
      cmd_set_register env (ptr + 1) s = Some s' \<or> cmd_read_memory env (ptr + 1) s = Some s' \<or>
      cmd_write_memory env (ptr + 1) s = Some s' \<or> (\<exists>b. cmd_resume env b (ptr + 1) s = Some s')"
    using assms(1) unfolding run_command_def Let_def
    by (simp split: if_split_asm Option.bind_split_asm prod.split_asm) blast+
  have "stub_wf (cmd_status env sigval s)" using wf by (simp add: cmd_status_def Let_def)
  moreover have "stub_wf s1" if "?m s = Some (p, s1)" for p s1 by (rule mem2hex_wf [OF that wf]) simp
  moreover have "stub_wf (reply env ''OK'' s1)" if "?h = Some (p, s1)" for p s1
    using hex2mem_wf [OF that wf] by simp
  ultimately show ?thesis
    using cases wf stub_wf_toggle [OF wf] memory_commands_wf [OF wf] cmd_resume_wf [OF _ wf] by blast
qed

lemma run_command_returns:
  assumes z: "mem s q = 0" and regs: "accessible env (v_registers env) 64" and f: "v_set_mem_err env \<noteq> 0"
  shows "\<exists>s'. run_command env sigval ptr s = Some (ld8 ptr s = 0x73 \<or> ld8 ptr s = 0x63, s')"
proof -
  have t: "times 64 = 64" "times 4 = 4" by (simp_all add: times_def)
  have h: "\<exists>n v r. hexToInt p s = Some (n, v, r)" for p
    using hexToInt_total [OF z, of p 0 0] by (auto simp: hexToInt_def)
  have g: "\<exists>p s'. mem2hex env (v_registers env) b 64 False s = Some (p, s')"
    "\<exists>p s'. hex2mem env b (v_registers env) 64 False s = Some (p, s')" for b
    by (intro memory_text_total; simp add: regs t)+
  have set: "\<exists>s'. cmd_set_register env p s = Some s'" for p
  proof -
    obtain n v r where hr: "hexToInt p s = Some (n, v, r)" using h by blast
    have "\<exists>x s'. hex2mem env (r + 1) (reg_at env (unat v)) 4 False s = Some (x, s')"
      if "0 \<le> sint v" "sint v < 16"
    proof -
      have "uint v = sint v" unfolding uint_sint using that by (intro take_bit_int_eq_self) simp_all
      then have "unat v < 16" using that by (simp add: unat_eq_nat_uint)
      then show ?thesis
        using accessible_part [OF regs, of "4 * unat v" 4]
        by (intro memory_text_total(2)) (simp add: t reg_at_def mult.commute)
    qed
    then show ?thesis by (auto simp: cmd_set_register_def hr)
  qed
  have m: "\<exists>s'. cmd_read_memory env p s = Some s'" and M: "\<exists>s'. cmd_write_memory env p s = Some s'" for p
  proof -
    obtain n v r where hr: "hexToInt p s = Some (n, v, r)" using h by blast
    obtain n2 v2 r2 where hr2: "hexToInt (r + 1) s = Some (n2, v2, r2)" using h by blast
    obtain x1 t1 x2 t2 where "mem2hex env v (v_out_buffer env) v2 True (s\<lparr>mem_err := 0\<rparr>) = Some (x1, t1)"
      "hex2mem env (r2 + 1) v v2 True (s\<lparr>mem_err := 0\<rparr>) = Some (x2, t2)"
      using memory_text_total [of True env] f by blast
    then show "\<exists>s'. cmd_read_memory env p s = Some s'" "\<exists>s'. cmd_write_memory env p s = Some s'"
      by (simp_all add: cmd_read_memory_def cmd_write_memory_def hr hr2 Let_def)
  qed
  have r: "\<exists>s'. cmd_resume env b p s = Some s'" for b p
    using h [of p] by (auto simp: cmd_resume_def Let_def)
  show ?thesis
    unfolding run_command_def Let_def
    using g(1) [of "v_out_buffer env"] g(2) [of "ptr + 1"] set [of "ptr + 1"] m [of "ptr + 1"] M [of "ptr + 1"] r [of True "ptr + 1"] r [of False "ptr + 1"]
    by (auto split: if_splits)
qed

text \<open>C31: Whatever command the host sends, and whatever faults on the way, the stub gets through it,
  goes back to the program exactly for \<open>s\<close> and \<open>c\<close>, and its state is well formed afterwards: the
  fault routine is disarmed, so that a later fault of the program is reported as such, and the flags
  are 0 or 1. It needs no more than that the array of registers can be accessed and that some byte
  of memory is zero, which ends every number in the command.\<close>

theorem run_command_wf:
  assumes zero: "mem s q = 0" and regs: "accessible env (v_registers env) 64" and f: "v_set_mem_err env \<noteq> 0"
    and wf: "stub_wf s"
  shows "\<exists>s'. run_command env sigval ptr s = Some (ld8 ptr s = 0x73 \<or> ld8 ptr s = 0x63, s') \<and> stub_wf s'"
  using run_command_returns [OF zero regs f] run_command_keeps_wf [OF _ wf] by blast

theorem run_command_wf_witness:
  "\<exists>s'. run_command (demo_stub []) 5 0x1001 (demo_read ''m80000000,1'') = Some (False, s') \<and> stub_wf s'"
proof -
  have "mem (demo_read ''m80000000,1'') 0 = 0" "stub_wf (demo_read ''m80000000,1'')"
    "ld8 0x1001 (demo_read ''m80000000,1'') = 0x6D"
    by (simp_all add: demo_read_def written_def demo_cpu_def stub_wf_def load8_def)
  moreover have "accessible (demo_stub []) (v_registers (demo_stub [])) 64" "v_set_mem_err (demo_stub []) \<noteq> 0"
    by (simp_all add: accessible_def demo_stub_def unat_word_ariths unat_of_nat)
  ultimately show ?thesis using run_command_wf [of "demo_read ''m80000000,1''" 0 "demo_stub []" 5 "0x1001"] by simp
qed

end
