(* ===== verification/GdbInstall.thy ===== *)
theory GdbInstall
  imports GdbTheorems
begin

text \<open>
  The installation of the stub's exception handlers, and the way out of a fault of the stub's own.
\<close>

section \<open>Installation\<close>

definition gate_at :: "u32 \<Rightarrow> nat \<Rightarrow> u32" where
  "gate_at table n = table + 8 * of_nat n"

text \<open>The bytes of a gate that \<open>exceptionHandler\<close> writes: all but the segment selector.\<close>

definition gate_bytes :: "u32 \<Rightarrow> nat \<Rightarrow> nat set" where
  "gate_bytes table n = span 2 (gate_at table n) \<union> span 4 (gate_at table n + 4)"

definition table_ok :: "u32 \<Rightarrow> u32 \<Rightarrow> bool" where
  "table_ok idtr table \<longleftrightarrow> unat idtr + 6 \<le> 4294967296 \<and> unat table + 136 \<le> 4294967296 \<and>
     span 6 idtr \<inter> span 136 table = {}"

lemma gate_range:
  assumes "table_ok idtr table" and "n < 17"
  shows "unat (gate_at table n) = unat table + 8 * n"
    and "unat (gate_at table n + 4) = unat table + 8 * n + 4" and "unat (gate_at table n + 6) = unat table + 8 * n + 6"
proof -
  have "unat (8 * of_nat n :: u32) = 8 * n" using assms(2) by (simp add: unat_word_ariths unat_of_nat_u32)
  then show g: "unat (gate_at table n) = unat table + 8 * n"
    using assms by (simp add: gate_at_def table_ok_def unat_add_u32)
  show "unat (gate_at table n + 4) = unat table + 8 * n + 4" "unat (gate_at table n + 6) = unat table + 8 * n + 6"
    by (subst unat_add_u32; use g assms in \<open>simp add: table_ok_def\<close>)+
qed

definition gate_flags :: "nat \<Rightarrow> u16" where
  "gate_flags n = (if n = 2 \<or> n \<ge> 32 then 0x8E00 else 0x8F00)"

lemma ucast_low: "(ucast ((a :: u32) AND 0xffff) :: u16) = ucast a"
proof -
  have eq: "(0xffff :: u32) = mask 16" by (simp add: mask_eq_exp_minus_1)
  show ?thesis unfolding eq by (rule bit_word_eqI) (auto simp: bit_simps)
qed

lemma gate_flags_eq:
  "(push_bit 15 1 OR 0 OR (if n = 2 \<or> n \<ge> 32 then push_bit 8 0xE else push_bit 8 0xF) :: u16) = gate_flags n"
  by (simp add: gate_flags_def push_bit_eq_mult)

definition gate_mem :: "u32 \<Rightarrow> u32 \<Rightarrow> u16 \<Rightarrow> nat \<Rightarrow> u32 \<Rightarrow> mem \<Rightarrow> mem" where
  "gate_mem idtr table len n a m =
     (let g = gate_at table n; m = store32 (store16 m idtr len) (idtr + 2) table
      in store16 (store16 (store16 m (g + 6) (ucast (drop_bit 16 a))) g (ucast a)) (g + 4) (gate_flags n))"

lemma exceptionHandler_run:
  assumes ok: "table_ok idtr (idtr_offset s)" and n: "n < 17"
  shows "exceptionHandler idtr n a s = s\<lparr>mem := gate_mem idtr (idtr_offset s) (idtr_len s) n a (mem s)\<rparr>"
    and "same_on (mem s) (gate_mem idtr (idtr_offset s) (idtr_len s) n a (mem s)) (- (span 6 idtr \<union> gate_bytes (idtr_offset s) n))"
proof -
  let ?t = "idtr_offset s" and ?l = "idtr_len s"
  let ?g = "gate_at ?t n"
  note g = gate_range [OF ok n]
  have b: "unat idtr + 6 \<le> 4294967296" "unat ?t + 136 \<le> 4294967296" "span 6 idtr \<inter> span 136 ?t = {}"
    using ok by (simp_all add: table_ok_def)
  have i2: "unat (idtr + 2) = unat idtr + 2" using b(1) by (simp add: unat_add_u32)
  have "unat idtr \<in> span 6 idtr" "unat ?t \<in> span 136 ?t" by (simp_all add: span_def)
  then have "unat idtr \<notin> span 136 ?t" "unat ?t \<notin> span 6 idtr" using b(3) by blast+
  then have d: "unat idtr + 6 \<le> unat ?t \<or> unat ?t + 136 \<le> unat idtr" by (simp add: span_def) linarith
  have c: "clear_of (idtr + 2) 4 idtr 2"
    "clear_of ?g 2 idtr 2" "clear_of (?g + 4) 2 idtr 2" "clear_of (?g + 6) 2 idtr 2"
    "clear_of ?g 2 (idtr + 2) 4" "clear_of (?g + 4) 2 (idtr + 2) 4" "clear_of (?g + 6) 2 (idtr + 2) 4"
    unfolding clear_of_def i2 g using d b(1,2) n by auto
  have g8: "?t + 8 * of_nat n = ?g" by (simp add: gate_at_def)
  show "exceptionHandler idtr n a s = s\<lparr>mem := gate_mem idtr ?t ?l n a (mem s)\<rparr>"
    unfolding exceptionHandler_def idt_get_def idt_set_def gate_mem_def
    by (simp add: Let_def st16_def st32_def g8 ucast_low gate_flags_eq [symmetric] load_store_clear c)
  have sub: "span 2 idtr \<subseteq> span 6 idtr" "span 4 (idtr + 2) \<subseteq> span 6 idtr" "span 2 (?g + 6) \<subseteq> span 4 (?g + 4)"
    "span 2 (?g + 4) \<subseteq> span 4 (?g + 4)"
    unfolding span_def i2 g by auto
  have len: "unat idtr + 2 \<le> 4294967296" "unat (idtr + 2) + 4 \<le> 4294967296" "unat ?g + 2 \<le> 4294967296"
    "unat (?g + 4) + 2 \<le> 4294967296" "unat (?g + 6) + 2 \<le> 4294967296"
    unfolding i2 g using b n by linarith+
  show "same_on (mem s) (gate_mem idtr ?t ?l n a (mem s)) (- (span 6 idtr \<union> gate_bytes ?t n))"
    unfolding gate_mem_def gate_bytes_def Let_def
    by (intro stores_inside same_on_refl len) (use sub in blast)+
qed

lemma gate_mem_loads:
  assumes "table_ok idtr table" and "n < 17"
  shows "load16 (gate_mem idtr table len n a m) (gate_at table n) = ucast a"
    and "load16 (gate_mem idtr table len n a m) (gate_at table n + 6) = ucast (drop_bit 16 a)"
    and "load16 (gate_mem idtr table len n a m) (gate_at table n + 4) = gate_flags n"
proof -
  let ?g = "gate_at table n"
  have b: "unat table + 136 \<le> 4294967296" using assms(1) by (simp add: table_ok_def)
  have c: "clear_of (?g + 4) 2 ?g 2" "clear_of (?g + 4) 2 (?g + 6) 2" "clear_of ?g 2 (?g + 6) 2"
    unfolding clear_of_def gate_range [OF assms] using b assms(2) by auto
  show "load16 (gate_mem idtr table len n a m) ?g = ucast a"
    "load16 (gate_mem idtr table len n a m) (?g + 6) = ucast (drop_bit 16 a)"
    "load16 (gate_mem idtr table len n a m) (?g + 4) = gate_flags n"
    unfolding gate_mem_def Let_def by (simp_all add: load_store_clear c)
qed

lemma address_halves: "ucast (ucast (a :: u32) :: u16) OR push_bit 16 (ucast (ucast (drop_bit 16 a) :: u16)) = a"
  by (rule bit_word_eqI) (auto simp: bit_simps)

text \<open>A list of gates, one after the other.\<close>

lemma gates_apart:
  assumes "table_ok idtr table" and "n < 17" and "k < 17" and "n \<noteq> k"
  shows "span 8 (gate_at table n) \<inter> gate_bytes table k = {}" and "span 8 (gate_at table n) \<inter> span 6 idtr = {}"
proof -
  note r = gate_range [OF assms(1,2)] gate_range [OF assms(1,3)]
  consider "n < k" | "k < n" using assms(4) by linarith
  then show "span 8 (gate_at table n) \<inter> gate_bytes table k = {}"
    unfolding gate_bytes_def span_def r by cases auto
  have "span 8 (gate_at table n) \<subseteq> span 136 table" unfolding span_def r using assms(2) by auto
  then show "span 8 (gate_at table n) \<inter> span 6 idtr = {}" using assms(1) by (auto simp: table_ok_def)
qed

definition installed :: "nat \<Rightarrow> u32 \<Rightarrow> 'a idt_state_scheme \<Rightarrow> bool" where
  "installed n a s \<longleftrightarrow> gate_target n s = a \<and> ld16 (gate_at (idtr_offset s) n + 4) s = gate_flags n"

lemma installed_same:
  assumes "installed n a s" and "idtr_offset s' = idtr_offset s" and "table_ok idtr (idtr_offset s)" and "n < 17"
    and "same_on (mem s) (mem s') (span 8 (gate_at (idtr_offset s) n))"
  shows "installed n a s'"
proof -
  let ?g = "gate_at (idtr_offset s) n"
  note r = gate_range [OF assms(3,4)]
  have b: "unat ?g + 8 \<le> 4294967296" using assms(3,4) r by (simp add: table_ok_def)
  have "ld16 p s' = ld16 p s" if "p \<in> {?g, ?g + 4, ?g + 6}" for p
    by (rule load16_same [OF assms(5)]) (use that r b in \<open>auto simp: span_def\<close>)
  then show ?thesis
    using assms(1,2) by (simp add: installed_def gate_target_def gate_at_def [symmetric] Let_def)
qed

lemma install_run:
  assumes "distinct ns" and "\<forall>n \<in> set ns. n < 17" and "table_ok idtr (idtr_offset s)"
  shows "\<exists>m. fold (\<lambda>n. exceptionHandler idtr n (c n)) ns s = s\<lparr>mem := m\<rparr> \<and>
    same_on (mem s) m (- (span 6 idtr \<union> (\<Union>n \<in> set ns. gate_bytes (idtr_offset s) n))) \<and>
    (\<forall>n \<in> set ns. installed n (c n) (s\<lparr>mem := m\<rparr>))"
  using assms
proof (induction ns arbitrary: s)
  case Nil
  show ?case by (intro exI [of _ "mem s"]) (simp add: mem_upd_same)
next
  case (Cons n ns)
  let ?t = "idtr_offset s"
  have n: "n < 17" "n \<notin> set ns" using Cons.prems by auto
  define m1 where "m1 = gate_mem idtr ?t (idtr_len s) n (c n) (mem s)"
  let ?s1 = "s\<lparr>mem := m1\<rparr>"
  note run = exceptionHandler_run [OF Cons.prems(3) n(1), of "c n", folded m1_def]
  have now: "installed n (c n) ?s1"
    using gate_mem_loads [OF Cons.prems(3) n(1)]
    by (simp add: installed_def gate_target_def gate_at_def [symmetric] m1_def address_halves Let_def)
  obtain m where m: "fold (\<lambda>n. exceptionHandler idtr n (c n)) ns ?s1 = ?s1\<lparr>mem := m\<rparr>"
    "same_on m1 m (- (span 6 idtr \<union> (\<Union>n \<in> set ns. gate_bytes ?t n)))"
    "\<forall>n \<in> set ns. installed n (c n) (?s1\<lparr>mem := m\<rparr>)"
    using Cons.IH [of ?s1] Cons.prems by auto
  have "same_on m1 m (span 8 (gate_at ?t n))"
  proof (rule same_on_mono [OF m(2)])
    have "span 8 (gate_at ?t n) \<inter> gate_bytes ?t k = {}" if "k \<in> set ns" for k
      by (rule gates_apart [OF Cons.prems(3) n(1)]) (use that Cons.prems(2) n(2) in auto)
    moreover have "span 8 (gate_at ?t n) \<inter> span 6 idtr = {}"
      by (rule gates_apart(2) [OF Cons.prems(3) n(1), of "if n = 0 then 1 else 0"]) auto
    ultimately show "span 8 (gate_at ?t n) \<subseteq> - (span 6 idtr \<union> (\<Union>n \<in> set ns. gate_bytes ?t n))" by blast
  qed
  then have "installed n (c n) (?s1\<lparr>mem := m\<rparr>)"
    by (intro installed_same [OF now]) (use Cons.prems(3) n(1) in simp_all)
  moreover have "same_on (mem s) m (- (span 6 idtr \<union> (\<Union>k \<in> set (n # ns). gate_bytes ?t k)))"
    by (rule same_on_trans [OF same_on_mono [OF run(2)] same_on_mono [OF m(2)]]) auto
  ultimately show ?case using m(1,3) run(1) by (intro exI [of _ m]) auto
qed

text \<open>C30: \<open>set_debug_traps\<close> points the gates of the fifteen exceptions it lists to the stub's entry
  points, as present 32-bit trap gates of ring 0 (0x8F00), and writes nothing else but its local copy of
  the table register: not the segment selectors of the gates, which keep what they held. The
  table register is as before, and the stub's stack is set and marked as initialised. The
  documentation of the stub asks for interrupt gates, so that interrupts are masked while the stub
  runs; with trap gates they are not.\<close>

theorem set_debug_traps_installs:
  fixes s :: "'a gdb_state_scheme"
  assumes "table_ok (v_idtr env) (idtr_offset s)"
  defines "s' \<equiv> set_debug_traps env s"
  shows "(\<forall>n \<in> set trap_vectors. gate_target n s' = v_catch env n \<and> ld16 (gate_at (idtr_offset s) n + 4) s' = 0x8F00) \<and>
    same_on (mem s) (mem s') (- (span 6 (v_idtr env) \<union> (\<Union>n \<in> set trap_vectors. gate_bytes (idtr_offset s) n))) \<and>
    initialized s' = 1 \<and> stackPtr s' = v_stack_end env \<and> idtr_offset s' = idtr_offset s \<and> idtr_len s' = idtr_len s"
proof -
  let ?s = "s\<lparr>stackPtr := v_stack_end env\<rparr>"
  have v: "distinct trap_vectors" "\<forall>n \<in> set trap_vectors. n < 17" "\<forall>n \<in> set trap_vectors. gate_flags n = 0x8F00"
    by (simp_all add: trap_vectors_def gate_flags_def)
  from install_run [OF v(1,2), of "v_idtr env" ?s "v_catch env"] assms(1) obtain m where
    m: "fold (\<lambda>n. exceptionHandler (v_idtr env) n (v_catch env n)) trap_vectors ?s = ?s\<lparr>mem := m\<rparr>"
      "same_on (mem s) m (- (span 6 (v_idtr env) \<union> (\<Union>n \<in> set trap_vectors. gate_bytes (idtr_offset s) n)))"
      "\<forall>n \<in> set trap_vectors. installed n (v_catch env n) (?s\<lparr>mem := m\<rparr>)"
    by auto
  have s': "s' = ?s\<lparr>mem := m, initialized := 1\<rparr>" by (simp add: s'_def set_debug_traps_def m(1) Let_def)
  have "\<forall>n \<in> set trap_vectors. gate_target n s' = v_catch env n \<and> ld16 (gate_at (idtr_offset s) n + 4) s' = 0x8F00"
    using m(3) v(3) by (simp add: installed_def gate_target_def s')
  then show ?thesis using m(2) by (simp add: s')
qed

theorem set_debug_traps_installs_witness:
  "gate_target 14 (set_debug_traps (demo_stub []) demo_cpu) = 0x910E \<and>
   ld16 0x4002 (set_debug_traps (demo_stub []) demo_cpu) = 0"
proof -
  let ?s' = "set_debug_traps (demo_stub []) demo_cpu"
  have ok: "table_ok (v_idtr (demo_stub [])) (idtr_offset demo_cpu)"
    by (auto simp: table_ok_def demo_stub_def demo_cpu_def span_def)
  note * = set_debug_traps_installs [OF ok]
  have "(14 :: nat) \<in> set trap_vectors" by (simp add: trap_vectors_def)
  then have "gate_target 14 ?s' = v_catch (demo_stub []) 14" using * by blast
  moreover have "ld16 0x4002 ?s' = ld16 0x4002 demo_cpu"
  proof (rule load16_same [of _ _ "{0x4002..<0x4004}"])
    have "{0x4002..<0x4004} \<inter> gate_bytes 0x4000 n = {}" if "n \<in> set trap_vectors" for n
      using that by (auto simp: trap_vectors_def gate_bytes_def gate_at_def span_def)
    moreover have "{0x4002..<0x4004} \<inter> span 6 (0x3200 :: u32) = {}" by (auto simp: span_def)
    ultimately have "{0x4002..<0x4004} \<subseteq>
        - (span 6 (v_idtr (demo_stub [])) \<union> (\<Union>n \<in> set trap_vectors. gate_bytes (idtr_offset demo_cpu) n))"
      by (simp add: demo_stub_def demo_cpu_def) blast
    with * show "same_on (mem demo_cpu) (mem ?s') {0x4002..<0x4004}" by (blast intro: same_on_mono)
  qed auto
  moreover have "ld16 0x4002 demo_cpu = 0" by (simp add: demo_cpu_def load16_def store16_def)
  moreover have "v_catch (demo_stub []) 14 = 0x910E" by (simp add: demo_stub_def)
  ultimately show ?thesis by simp
qed


section \<open>A fault inside the stub\<close>

lemma pop_ecx_eq: "pop_ecx s = s\<lparr>cpu_ecx := ld32 (cpu_esp s) s, cpu_esp := cpu_esp s + 4\<rparr>"
  by (simp add: pop_ecx_def popl_def)

lemma pop_edx_eq: "pop_edx s = s\<lparr>cpu_edx := ld32 (cpu_esp s) s, cpu_esp := cpu_esp s + 4\<rparr>"
  by (simp add: pop_edx_def popl_def)

lemma leave_eq: "leave s = s\<lparr>cpu_esp := cpu_ebp s + 4, cpu_ebp := ld32 (cpu_ebp s) s\<rparr>"
  by (simp add: leave_def popl_def)

lemma load32_store32_more:
  "load32 (store32 m p v) (p + 12) = load32 m (p + 12)"
  "load32 (store32 m (p + 4) v) (p + 12) = load32 m (p + 12)"
  "load32 (store32 m (p + 8) v) (p + 12) = load32 m (p + 12)"
  by (simp_all add: load32_def store32_def add.assoc)

text \<open>The frame of an exception with an error code.\<close>

definition code_frame :: "u32 \<Rightarrow> 'a cpu_state_scheme \<Rightarrow> mem" where
  "code_frame code s = (let e = cpu_esp s in
     store32 (store32 (store32 (store32 (mem s) (e - 4) (cpu_eflags s)) (e - 8) (ucast (cpu_cs s))) (e - 12) (cpu_eip s)) (e - 16) code)"

lemma mem_fault_run:
  assumes "load32 (code_frame code s) (cpu_ebp s) = ld32 (cpu_ebp s) s"
  shows "mem_fault (take_exception handler (Some code) s) =
    s\<lparr>mem := store32 (store32 (store32 (code_frame code s) (cpu_ebp s) (cpu_eflags s))
         (cpu_ebp s - 4) (ucast (cpu_cs s))) (cpu_ebp s - 8) (mem_fault_routine s),
      gdb_i386errcode := code, mem_fault_routine := 0, cpu_eax := 0, cpu_ecx := ucast (cpu_cs s), cpu_edx := cpu_eflags s,
      cpu_esp := cpu_ebp s + 4, cpu_ebp := ld32 (cpu_ebp s) s, cpu_eip := mem_fault_routine s\<rparr>"
proof -
  obtain e where e: "cpu_esp s = e + 16" by (metis diff_add_cancel)
  obtain b where b: "cpu_ebp s = b + 8" by (metis diff_add_cancel)
  let ?m = "store32 (store32 (store32 (store32 (mem s) (e + 12) (cpu_eflags s)) (e + 8) (ucast (cpu_cs s))) (e + 4) (cpu_eip s)) e code"
  have eqs: "e + 16 - 4 = e + 12" "e + 16 - 8 = e + 8" "e + 16 - 12 = e + 4" "e + 16 - 16 = e" by simp_all
  have m: "code_frame code s = ?m" unfolding code_frame_def Let_def e eqs ..
  have l: "load32 ?m e = code" "load32 ?m (e + 8) = ucast (cpu_cs s)" "load32 ?m (e + 12) = cpu_eflags s"
    by (simp_all only: load32_store32_next load32_store32_more load32_store32)
  let ?n = "store32 (store32 (store32 ?m (b + 8) (cpu_eflags s)) (b + 4) (ucast (cpu_cs s))) b (mem_fault_routine s)"
  have r: "load32 ?n b = mem_fault_routine s" "load32 ?n (b + 4) = ucast (cpu_cs s)" "load32 ?n (b + 8) = cpu_eflags s"
    by (simp_all only: load32_store32_next load32_store32)
  have lb: "load32 ?m (b + 8) = ld32 (b + 8) s" using assms unfolding m b .
  have x: "take_exception handler (Some code) s =
      s\<lparr>mem := ?m, cpu_esp := e, cpu_eip := handler, cpu_eflags := cpu_eflags s AND NOT 0x100\<rparr>"
    by (simp add: take_exception_def pushl_eq e add.commute)
  show ?thesis
    unfolding x mem_fault_def
    by (simp add: pop_eax_eq pop_ecx_eq pop_edx_eq leave_eq pushl_eq iret_eq Let_def m b l lb r add.commute [of _ e] add.commute [of _ b])
qed

lemma code_frame_frame:
  assumes "16 \<le> unat (cpu_esp s)"
  shows "same_on (mem s) (code_frame code s) (- {unat (cpu_esp s) - 16..<unat (cpu_esp s)})"
proof -
  define e where "e = unat (cpu_esp s)"
  have u: "unat (cpu_esp s - 16) = e - 16" "unat (cpu_esp s - 12) = e - 12" "unat (cpu_esp s - 8) = e - 8" "unat (cpu_esp s - 4) = e - 4"
    and r: "16 \<le> e" "e < 4294967296"
    using assms unat_u32_lt [of "cpu_esp s"] by (simp_all add: unat_diff_u32 e_def)
  show ?thesis
    unfolding code_frame_def Let_def e_def [symmetric]
    by (intro stores_inside same_on_refl; use r in \<open>auto simp: span_def u\<close>)
qed

lemma code_frame_above:
  assumes "unat (cpu_esp s) \<le> unat (cpu_ebp s)" and "16 \<le> unat (cpu_esp s)" and "unat (cpu_ebp s) + 8 \<le> 4294967296"
  shows "load32 (code_frame code s) (cpu_ebp s) = ld32 (cpu_ebp s) s"
  by (rule load32_same [OF code_frame_frame [OF assms(2)]]) (use assms in auto)

text \<open>What the four catch routines do with such a fault.\<close>

lemma armed_fault:
  fixes s :: "'a cpu_state_scheme" and handler code :: u32
  assumes "mem_fault_routine s \<noteq> 0" and "unat (cpu_esp s) \<le> unat (cpu_ebp s)" and "16 \<le> unat (cpu_esp s)"
    and "unat (cpu_ebp s) + 8 \<le> 4294967296"
  defines "x \<equiv> take_exception handler (Some code) s"
  shows "\<exists>s'. s' = mem_fault x \<and> catchException11 env x = Some s' \<and> catchException13 env x = Some s' \<and> catchException14 env x = Some s' \<and>
    cpu_eip s' = mem_fault_routine s \<and> cpu_esp s' = cpu_ebp s + 4 \<and> cpu_ebp s' = ld32 (cpu_ebp s) s \<and>
    ld32 (cpu_esp s') s' = ld32 (cpu_ebp s + 4) s \<and> cpu_cs s' = cpu_cs s \<and> cpu_eflags s' = cpu_eflags s \<and>
    gdb_i386errcode s' = code \<and> mem_fault_routine s' = 0 \<and>
    same_on (mem s) (mem s') (- {unat (cpu_esp s) - 16..<unat (cpu_ebp s) + 4})"
proof -
  define e b where "e = unat (cpu_esp s)" and "b = unat (cpu_ebp s)"
  have r: "16 \<le> e" "e \<le> b" "b + 8 \<le> 4294967296" using assms(2-4) by (simp_all add: e_def b_def)
  have u: "unat (cpu_esp s - 16) = e - 16" "unat (cpu_esp s - 12) = e - 12" "unat (cpu_esp s - 8) = e - 8"
    "unat (cpu_esp s - 4) = e - 4" "unat (cpu_ebp s - 8) = b - 8" "unat (cpu_ebp s - 4) = b - 4" "unat (cpu_ebp s) = b"
    "unat (cpu_esp s) = e"
    using assms(2,3) by (simp_all add: unat_diff_u32 e_def b_def)
  have b4: "unat (cpu_ebp s + 4) = b + 4" using r u(7) by (subst unat_add_u32) simp_all
  let ?S = "{e - 16..<b + 4}"
  note frame = code_frame_frame [OF assms(3), of code, folded e_def]
  note run = mem_fault_run [OF code_frame_above [OF assms(2-4)], of handler code]
  let ?s' = "mem_fault x"
  have catch: "catchException11 env x = Some ?s'" "catchException13 env x = Some ?s'" "catchException14 env x = Some ?s'"
  proof -
    have "mem_fault_routine x \<noteq> 0" using assms(1) by (simp add: x_def take_exception_def pushl_eq Let_def)
    then show "catchException11 env x = Some ?s'" "catchException13 env x = Some ?s'" "catchException14 env x = Some ?s'"
      by (simp_all add: catchException11_def catchException13_def catchException14_def CHECK_FAULT_def)
  qed
  have same: "same_on (mem s) (mem ?s') (- ?S)"
  proof -
    have "same_on (mem s) (code_frame code s) (- ?S)" by (rule same_on_mono [OF frame]) (use r in auto)
    then show ?thesis
      unfolding x_def run
      by simp (intro stores_inside; use r in \<open>auto simp: span_def u\<close>)
  qed
  have "ld32 (cpu_ebp s + 4) ?s' = ld32 (cpu_ebp s + 4) s"
    by (rule load32_same [OF same]) (use r in \<open>auto simp: b4\<close>)
  then show ?thesis
    using catch same by (intro exI [of _ ?s']) (simp add: x_def run u)
qed

text \<open>
  \<open>access_fault\<close> in \<open>GdbStub\<close> is what this amounts to for the C code, when \<open>get_char\<close> or \<open>set_char\<close> make the
  access and have a frame pointer, as they do without optimisation (\<open>mem_fault\<close> relies on it): the
  fault ends in the routine, which returns to the caller of the function that made the access, with
  the caller's frame, and the stub's variables are those of \<open>access_fault\<close>.
\<close>

definition near_ret :: "'a cpu_state_scheme \<Rightarrow> 'a cpu_state_scheme" where
  "near_ret s = (let (ip, s) = popl s in s\<lparr>cpu_eip := ip\<rparr>)"

lemma access_fault_assembly:
  fixes s :: "'a cpu_state_scheme" and handler :: u32
  assumes h: "mem_fault_routine s \<noteq> 0" "unat (cpu_esp s) \<le> unat (cpu_ebp s)" "16 \<le> unat (cpu_esp s)" "unat (cpu_ebp s) + 8 \<le> 4294967296"
  shows "\<exists>s' t. catchException14 env (take_exception handler (Some (v_errcode env addr)) s) = Some s' \<and>
    cpu_eip s' = mem_fault_routine s \<and> access_fault env addr s = Some t \<and>
    (let r = near_ret (set_mem_err s')
     in cpu_eip r = ld32 (cpu_ebp s + 4) s \<and> cpu_esp r = cpu_ebp s + 8 \<and> cpu_ebp r = ld32 (cpu_ebp s) s \<and>
       gdb_state.truncate (r\<lparr>mem := mem t\<rparr>) = gdb_state.truncate t \<and>
       same_on (mem t) (mem r) (- {unat (cpu_esp s) - 16..<unat (cpu_ebp s) + 4}))"
proof -
  let ?code = "v_errcode env addr"
  let ?x = "take_exception handler (Some ?code) s"
  obtain s' where s': "s' = mem_fault ?x" "catchException14 env ?x = Some s'" "cpu_eip s' = mem_fault_routine s" "cpu_esp s' = cpu_ebp s + 4"
    "cpu_ebp s' = ld32 (cpu_ebp s) s" "ld32 (cpu_esp s') s' = ld32 (cpu_ebp s + 4) s"
    "same_on (mem s) (mem s') (- {unat (cpu_esp s) - 16..<unat (cpu_ebp s) + 4})"
    using armed_fault [OF h, where env = env and handler = handler and code = ?code] by blast
  let ?t = "set_mem_err (s\<lparr>gdb_i386errcode := ?code, mem_fault_routine := 0\<rparr>)"
  have t: "access_fault env addr s = Some ?t" using h(1) by (simp add: access_fault_def)
  have frame: "load32 (code_frame ?code s) (cpu_ebp s) = ld32 (cpu_ebp s) s"
    by (rule code_frame_above) (use h in simp_all)
  have "gdb_state.truncate ((near_ret (set_mem_err s'))\<lparr>mem := mem ?t\<rparr>) = gdb_state.truncate ?t"
    unfolding s'(1) mem_fault_run [OF frame]
    by (cases s) (simp add: near_ret_def popl_def set_mem_err_def gdb_state.truncate_def)
  then show ?thesis
    using s'(2-7) t by (intro exI [of _ s'] exI [of _ ?t]) (simp add: near_ret_def popl_def set_mem_err_def Let_def)
qed

text \<open>C29: When the stub's own access faults (exception 11, 13 or 14, with an error code) while a
  fault routine is armed, the processor goes on at that routine as if it had been called in place of
  the function that made the access: its frame is gone, \<open>EBP\<close> is that of its caller, the return
  address is on top of the stack, code segment and flags are as before; the error code is kept and
  the routine is disarmed. The array of registers is not touched.\<close>

theorem armed_fault_returns:
  fixes s :: "'a cpu_state_scheme" and handler code :: u32
  assumes "mem_fault_routine s \<noteq> 0" and "unat (cpu_esp s) \<le> unat (cpu_ebp s)" and "16 \<le> unat (cpu_esp s)"
    and "unat (cpu_ebp s) + 8 \<le> 4294967296"
  defines "x \<equiv> take_exception handler (Some code) s"
  shows "\<exists>s'. catchException11 env x = Some s' \<and> catchException13 env x = Some s' \<and> catchException14 env x = Some s' \<and>
    cpu_eip s' = mem_fault_routine s \<and> cpu_esp s' = cpu_ebp s + 4 \<and> cpu_ebp s' = ld32 (cpu_ebp s) s \<and>
    ld32 (cpu_esp s') s' = ld32 (cpu_ebp s + 4) s \<and> cpu_cs s' = cpu_cs s \<and> cpu_eflags s' = cpu_eflags s \<and>
    gdb_i386errcode s' = code \<and> mem_fault_routine s' = 0 \<and>
    same_on (mem s) (mem s') (- {unat (cpu_esp s) - 16..<unat (cpu_ebp s) + 4})"
proof -
  show ?thesis using armed_fault [OF assms(1-4), where env = env and handler = handler and code = code] unfolding x_def by blast
qed

theorem armed_fault_returns_witness:
  "\<exists>s'. catchException14 (demo_stub []) (take_exception 0x910E (Some 2)
      (demo_cpu\<lparr>mem_fault_routine := 0x9000, mem := store32 (store32 (\<lambda>_. 0) 0x7100 0x7200) 0x7104 0x8888\<rparr>)) = Some s' \<and>
    cpu_eip s' = 0x9000 \<and> cpu_esp s' = 0x7104 \<and> cpu_ebp s' = 0x7200 \<and> ld32 (cpu_esp s') s' = 0x8888 \<and> gdb_i386errcode s' = 2"
proof -
  let ?s = "demo_cpu\<lparr>mem_fault_routine := 0x9000, mem := store32 (store32 (\<lambda>_. 0) 0x7100 0x7200) 0x7104 0x8888\<rparr>"
  have h: "mem_fault_routine ?s \<noteq> 0" "unat (cpu_esp ?s) \<le> unat (cpu_ebp ?s)" "16 \<le> unat (cpu_esp ?s)"
    "unat (cpu_ebp ?s) + 8 \<le> 4294967296"
    by (simp_all add: demo_cpu_def)
  have "load32 (store32 (store32 (\<lambda>_. 0) 0x7100 0x7200) 0x7104 (0x8888 :: u32)) 0x7100 = 0x7200"
    by (subst load_store_clear) (simp_all add: clear_of_def)
  then show ?thesis
    using armed_fault_returns [OF h, of "demo_stub []" "0x910E" 2] by (auto simp: demo_cpu_def)
qed

end
