(* ===== verification/Spec2Isabelle.thy ===== *)
theory Spec2Isabelle
  imports HeapTheorems MemOps DisplayTheorems InterruptTheorems SerialTheorems PciTheorems UhciTheorems
    UhciRun UhciInitTheorems BootTheorems GdbTheorems GdbMemoryTheorems GdbInstall Stage2
begin

text \<open>
  A model of the second stage of USBLoader, the C part of a boot loader for i386 machines, with
  the theorems that make its parts correct. The first stage and the entry code (assembly under
  \<open>src/boot/\<close>) load it, switch to 32-bit protected mode with flat segments and no paging, and
  call \<open>stage2_main\<close>.

  \<^bold>\<open>The program.\<close>
  \<open>boot/stage2.c\<close> starts the text output (\<open>drivers/display/print.c\<close>), the timer (\<open>arch/pit.c\<close>), the
  serial port (\<open>drivers/serial/serial.c\<close>), the heap (\<open>mem/mem.c\<close>), registers the UHCI driver
  (\<open>drivers/usb/uhci.c\<close>) with the PCI driver (\<open>drivers/pci/pci21.c\<close>) and scans the PCI bus. For each
  function it finds, the scan allocates a \<open>struct pci_dev\<close> and offers it to the registered drivers;
  the UHCI driver resets its controller, builds the frame list, hooks its interrupt
  (\<open>arch/idt.c\<close>), and for each port with a new device runs control transfers that read the
  descriptors, set the address and print the names. A transfer is scheduled on a queue the
  controller walks by DMA; the driver halts until the interrupt handler has seen the end of it.
  \<open>utils/i386-stub.c\<close> and \<open>utils/gdbstub.c\<close> are a debugger stub that takes the processor's exceptions
  and talks to a debugger over the serial port.

  \<^bold>\<open>How code becomes definitions.\<close>
  C integers are words of their width. Memory is a total function from addresses to bytes, and a C
  object is a range of it at the offsets of the i386 ABI, so that the free list of the heap, the
  handler chains, the descriptors of transfers and the gates of the interrupt table are modelled
  where the code has them, with all the aliasing the code could have. Static variables whose
  address is not taken are fields of a record; the records extend one another in the order in
  which the components use each other: \<open>machine\<close> (memory and the log of hardware events),
  \<open>heap_state\<close>, \<open>display_state\<close>, \<open>idt_state\<close>, then \<open>pit_state\<close>, \<open>pci_state\<close>, \<open>uhci_state\<close> on one side
  and \<open>gdb_state\<close>, \<open>cpu_state\<close> on the other. A function maps a state to its result and the new
  state, in the option monad where it may loop for ever or trap: \<open>None\<close> is that it does not return.
  Loops without a bound are \<open>partial_function (option)\<close>, so there is no fuel anywhere, and a theorem
  that code returns says that the result is \<open>Some\<close>. Functions, statics and locals whose address is
  taken have addresses that are parameters (\<open>uhci_env\<close>, \<open>gdb_env\<close>, \<open>boot_env\<close>); calls through
  function pointers go through a dispatch function. The devices are a parameter of type \<open>hw\<close>: what a
  port returns, which interrupt ends a \<open>hlt\<close> and what DMA has changed by then, each as a function of
  the history of hardware events.

  \<^bold>\<open>The theories.\<close>
  \<^item> \<open>Prelude\<close>: word types, collections of rules, loops. \<open>CMemory\<close>, \<open>Machine\<close>: memory, and
    \<open>drivers/io/io.h\<close> on the log of events. \<open>ByteStrings\<close>: strings of bytes in memory. \<open>Links\<close>: the
    singly linked lists all of the code is made of, with the locale \<open>links\<close> for a loop that walks to
    the end of one, interpreted for handler chains and pending transfers.
  \<^item> \<open>Allocator\<close>: \<open>mem/mem.c\<close>. \<open>FreeSpace\<close> is its specification, first fit on a list of free ranges;
    \<open>FreeList\<close> and \<open>AllocatorProof\<close> show that the code computes it on the list in memory.
    \<open>HeapInterface\<close> is the contract for clients, a locale; \<open>HeapClient\<close> interprets it for the code and
    has the histories of clients; \<open>HeapRoom\<close> says which allocations cannot be refused, \<open>HeapTheorems\<close>
    has the results. \<open>MemOps\<close>: \<open>memcopy\<close>, \<open>memfill\<close>, \<open>scopy\<close>.
  \<^item> \<open>Display\<close>, \<open>DisplayProof\<close>, \<open>DisplayTheorems\<close>: \<open>print.c\<close>.
  \<^item> \<open>Idt\<close>: \<open>arch/idt.c\<close>; \<open>Interrupts\<close>: the contract of handlers, a locale; \<open>Pit\<close>: \<open>arch/pit.c\<close>, whose
    handler keeps it; \<open>InterruptTheorems\<close>.
  \<^item> \<open>Serial\<close>, \<open>SerialTheorems\<close>: \<open>serial.c\<close>.
  \<^item> \<open>PciTypes\<close>, \<open>Pci\<close>, \<open>PciProof\<close>, \<open>PciHeader\<close> (the header as a copy of configuration space),
    \<open>PciScan\<close> (the scan of buses that have one function), \<open>PciTheorems\<close>: \<open>pci21.c\<close>, \<open>pci21.h\<close>.
  \<^item> \<open>UhciTypes\<close>, \<open>Uhci\<close>: all of \<open>uhci.c\<close>; \<open>UhciTd\<close> (descriptors), \<open>UhciQueue\<close> (the two lists),
    \<open>UhciIsr\<close> (the interrupt handler), \<open>UhciFrames\<close> (the frame list), \<open>UhciTheorems\<close>.
  \<^item> Whole transfers: \<open>UsbDevice\<close> (what is on the other side of memory: a UHCI controller that executes the
    descriptors it finds there and a USB function, step by step), \<open>UhciChain\<close> (that controller on the
    descriptors of the driver), \<open>UhciWait\<close> (halting until the interrupt handler has seen the end, with the
    locale \<open>usb_interrupts\<close>), \<open>UhciEntry\<close> (the queue entry), \<open>UhciTransfer\<close> (from the descriptors to
    the end), and \<open>UhciRun\<close>, which interprets the locale for the interrupts as \<open>Stage2\<close> wires them.
  \<^item> \<open>UhciReset\<close>, \<open>UhciResetTheorems\<close> (the bounded waits, and a controller that does not answer),
    \<open>UhciInit\<close>, \<open>UhciInitTheorems\<close> (the initialisation of one that does), \<open>UhciBoot\<close> (that the heap as
    \<open>heap_init\<close> leaves it has room for it).
  \<^item> \<open>GdbStub\<close>: the C part of the debugger stub; \<open>GdbCpu\<close>: its assembly, instruction by instruction, on
    a processor with general and segment registers. \<open>GdbWire\<close> and \<open>GdbPacket\<close> (the line as two
    streams, packets), \<open>GdbMem\<close> (memory as hexadecimal text, with faults), \<open>GdbSave\<close> (saving and
    restoring the registers), \<open>GdbSession\<close> (a stop and the commands that end it), \<open>GdbTheorems\<close>,
    \<open>GdbMemoryTheorems\<close>, \<open>GdbInstall\<close>.
  \<^item> \<open>Stage2\<close>: \<open>boot/stage2.c\<close>, the wiring of the function pointers, and the start on an empty bus.
    \<open>BootDevice\<close>, \<open>BootTheorems\<close>: the start on a machine with a UHCI controller, which composes the
    display, timer, serial port, heap, PCI scan, UHCI driver and interrupt dispatch.

  \<^bold>\<open>What is shown.\<close>
  The heap: allocation and release are the first fit specification, every history of a client
  keeps the live blocks apart and intact, and freeing everything gives one free block again.
  Text output: numbers, strings and scrolling, and that no byte outside of the text page is
  written. Interrupts: dispatch in the order of registration, registration, and that \<open>sleep\<close>
  returns after as many timer interrupts as it was asked for milliseconds. Serial port: sending,
  receiving and the bounded self test. PCI: the encoding of configuration addresses, the scan of
  an empty bus, that a function that is present is offered with its header copied byte by byte, and
  the memory of a function that no driver takes. UHCI: the descriptors of a control transfer word by
  word, the frame list, scheduling, the interrupt handler; that the initialisation leaves an empty
  queue the controller works on, with the interrupt handler in its chain, and that from there, on
  a controller that does what the descriptors in memory say and a function that takes part only in
  the right packets, a transfer completes, gives all its memory back and leaves in the buffer the
  answer of the function to the request, so that the next one can start; that reset and the enabling of a port end after a bounded number
  of events, that a controller that does not leave reset costs no memory, and that an error of a
  transfer is never reported to the caller. Debugger: packets in both directions, all commands return
  and leave a well-formed state, reading and writing memory with faults, that the assembly of a fault
  amounts to what the C model of an access assumes (\<open>access_fault_assembly\<close>), and that a breakpoint
  followed by continue or step gives the program all its registers back. Stage 2: on any machine
  the program is the scan of the bus from a state in which everything else has been started, and with
  an empty bus it reaches its endless loop; on one whose
  only function is a UHCI controller it reaches it with the driver ready (\<open>usb_ready\<close>, \<open>wired\<close>), which is
  the state the theorem on transfers starts from.

  \<^bold>\<open>Assumptions.\<close>
  The heap starts at 16 or above, has at least 8 bytes and ends below 4 GiB, as the linker script
  places it; theorems on PCI devices need it to start at 68 or above, so that a device at address 0
  does not overlap it. Interrupts arrive at \<open>hlt\<close> only. A theorem that waits for the hardware says
  when it answers: the transmitter becomes ready at some poll, timer interrupts arrive, the host
  sends the bytes of a packet (\<open>host_line\<close> in \<open>GdbWire\<close>). These are bounded: \<open>timer_keeps\<close> speaks of the
  next \<open>n\<close> events of the log, and each theorem names its \<open>n\<close>. A transfer that completes needs
  hardware that works, \<open>usb_attached\<close> in \<open>UsbDevice\<close>: from any memory the DMA of the halts is that of the
  documented controller on the queue it finds, with a function on the bus, and the interrupt comes when
  a descriptor that asks for it has been completed. The controller stops at a descriptor whose packet
  the function does not expect, so that completion and data are proved from the descriptors of
  the driver. The function takes a status stage of any length (the driver sends 64 bytes there where it
  means none), has packets of at most 64 bytes, and answers the request (\<open>device_answers\<close> in
  \<open>UhciTransfer\<close>). It also needs a heap that grants the allocations (\<open>allocs_granted\<close>, \<open>init_obtains\<close>). Configuration
  space is a memory of its own (\<open>config_space\<close> in \<open>PciHeader\<close>). All of these are shown to hold of a
  concrete machine by the witnesses. The start with a controller derives that the
  allocations are granted, from \<open>boot_layout\<close> in \<open>BootDevice\<close> (a heap of at least 9300 bytes that
  starts at a multiple of 4, and objects that do not overlap); it assumes that the device leaves reset
  and reports no change of a port (\<open>leaves_reset\<close>, \<open>no_change\<close>: nothing is plugged in) and a timer that
  keeps on ticking. The self test of the serial port sleeps for at most 100
  timer interrupts, which \<open>timer_keeps\<close> bounds by 118 events. String constants are given by value
  rather than by address. The fields of a packet of the debugger fit into its buffer of 400 bytes,
  of which the last is the terminator. The functions of the stub that access memory have a frame
  pointer, which \<open>mem_fault\<close> relies on. The gates of the stub are trap gates, so interrupts are not masked
  in it as its documentation asks; as everywhere, interrupts between instructions are left out.

  \<^bold>\<open>Not modelled.\<close>
  The assembly under \<open>src/boot\<close> (the first stage, the change of mode, and the interrupt entries of
  \<open>stage2_entry.asm\<close>); the use of registers and the stack by compiled C code; interrupts between two
  instructions; the unit tests (\<open>mem/mem_test.c\<close>), the vendored test framework under \<open>src/test\<close> and
  the build files. Constants, prototypes and structure fields that no code uses have no definition.
\<close>

end
